(* ===== verification/Prelude.thy ===== *)
theory Prelude
  imports Main "HOL-Library.Word" "HOL-Library.Monad_Syntax"
begin

text \<open>
  Shared vocabulary of the development: the machine types of the 32-bit OSKit
  targets, the panic monad in which the translated C functions run, and the
  arithmetic facts about words, alignment and address intervals that the
  component theories use.

  \<^item> \<open>oskit_addr_t\<close>, \<open>oskit_size_t\<close> and \<open>oskit_u32_t\<close>
    (\<open>oskit/machine/types.h\<close>) are 32-bit unsigned words, so that additions and
    subtractions wrap exactly as they do in the C code.
  \<^item> A C function that contains \<open>assert\<close> or \<open>panic\<close> becomes a function into
    \<open>'a option\<close>; \<open>None\<close> is the panic, \<open>Some\<close> the normal return.  A theorem that
    says \<open>f x = Some y\<close> therefore also says that no assertion of \<open>f\<close> fails.
\<close>

unbundle bit_operations_syntax

subsection \<open>Machine types\<close>

type_synonym u32 = "32 word"
type_synonym u64 = "64 word"
type_synonym addr = u32

subsection \<open>Assertions and panics\<close>

definition assertion :: "bool \<Rightarrow> unit option" where
  "assertion b = (if b then Some () else None)"

lemma assertion_simps [simp]:
  "assertion True = Some ()"
  "assertion False = None"
  by (simp_all add: assertion_def)

lemma assertion_bind [simp]: "b \<Longrightarrow> assertion b \<bind> f = f ()"
  by simp

lemma assertion_bind_Some:
  "assertion b \<bind> f = Some y \<longleftrightarrow> b \<and> f () = Some y"
  by (cases b) auto

subsection \<open>Words as natural numbers\<close>

named_theorems wnat \<open>comparisons and operations of words in terms of unat\<close>

lemmas [wnat] = word_le_nat_alt word_less_nat_alt unat_sub_if' unat_word_ariths(1)

lemma unat_add_nowrap:
  fixes a b :: "'a::len word"
  shows "unat a + unat b < 2 ^ LENGTH('a) \<Longrightarrow> unat (a + b) = unat a + unat b"
  using unat_add_lem by blast

lemma unat_add_wrap:
  fixes a b :: "'a::len word"
  assumes "2 ^ LENGTH('a) \<le> unat a + unat b"
  shows "unat (a + b) = unat a + unat b - 2 ^ LENGTH('a)"
proof -
  have "unat a < 2 ^ LENGTH('a)" "unat b < 2 ^ LENGTH('a)" by (rule unsigned_less)+
  then have "unat a + unat b - 2 ^ LENGTH('a) < 2 ^ LENGTH('a)" by linarith
  then show ?thesis using assms by (simp add: unat_word_ariths(1) le_mod_geq)
qed

lemma unat_diff_nowrap:
  fixes a b :: "'a::len word"
  shows "unat b \<le> unat a \<Longrightarrow> unat (a - b) = unat a - unat b"
  by (simp add: unat_sub word_le_nat_alt)

lemma unat_u32_less [simp]: "unat (x :: u32) < 4294967296"
proof -
  have "unat x < 2 ^ LENGTH(32)" by (rule unsigned_less)
  then show ?thesis by simp
qed

lemma le_unat_less: "x \<le> unat (w :: u32) \<Longrightarrow> x < 2 ^ 32"
  using order_le_less_trans [OF _ unat_u32_less [of w], of x] by simp

lemma word_less_succ: "n < n + 1" if "n + 1 \<noteq> 0" for n :: "'a::len word"
  using that unatSuc [of n] by (simp add: word_less_nat_alt add.commute)

lemma unat_of_nat_u32: "n < 2 ^ 32 \<Longrightarrow> unat (of_nat n :: u32) = n"
  by (simp add: unat_of_nat)

lemma u32_eq_iff_unat: "(x :: u32) = y \<longleftrightarrow> unat x = unat y"
  by (auto dest: unsigned_word_eqI)

lemma unat_eq_0_iff [simp]: "unat (x :: u32) = 0 \<longleftrightarrow> x = 0"
  by (simp add: unat_eq_zero)

lemma u32_pos_iff: "0 < unat (x :: u32) \<longleftrightarrow> x \<noteq> 0"
  by (metis gr0I unat_eq_0_iff unsigned_0 less_irrefl)

subsection \<open>Rounding to a multiple of a power of two\<close>

text \<open>
  \<open>x & mask\<close>, \<open>x & ~mask\<close> and \<open>(x + mask) & ~mask\<close> for \<open>mask = 2^k - 1\<close>: the
  remainder, rounding down and rounding up.
\<close>

lemma unat_and_mask:
  fixes x :: "'a::len word"
  shows "unat (x AND mask k) = unat x mod 2 ^ k"
  by (simp add: unsigned_take_bit_eq flip: take_bit_eq_mask take_bit_eq_mod)

lemma and_not_mask_eq_diff:
  fixes x :: "'a::len word"
  shows "x AND NOT (mask k) = x - (x AND mask k)"
proof -
  have "x - (x AND mask k) = x AND NOT (x AND mask k)"
    by (rule disjunctive_diff) (simp add: bit_simps)
  also have "\<dots> = x AND NOT (mask k)"
    by (rule bit_word_eqI) (auto simp: bit_simps)
  finally show ?thesis by simp
qed

lemma unat_and_not_mask:
  fixes x :: "'a::len word"
  shows "unat (x AND NOT (mask k)) = unat x - unat x mod 2 ^ k"
proof -
  have "unat (x AND mask k) \<le> unat x"
    by (simp add: unat_and_mask)
  then show ?thesis
    by (simp add: and_not_mask_eq_diff unat_diff_nowrap unat_and_mask)
qed

definition round_down :: "nat \<Rightarrow> nat \<Rightarrow> nat" where
  "round_down m x = x - x mod m"

definition round_up :: "nat \<Rightarrow> nat \<Rightarrow> nat" where
  "round_up m x = round_down m (x + (m - 1))"

lemma round_down_le: "round_down m x \<le> x"
  by (simp add: round_down_def)

lemma round_down_dvd: "m dvd round_down m x"
  by (simp add: round_down_def)

lemma round_down_mono: "x \<le> y \<Longrightarrow> round_down m x \<le> round_down m y"
  by (simp add: round_down_def minus_mod_eq_mult_div div_le_mono)

lemma round_down_eq: "m dvd x \<Longrightarrow> round_down m x = x"
  by (simp add: round_down_def)

lemma round_down_add: "m dvd a \<Longrightarrow> round_down m (a + y) = a + round_down m y"
  by (auto simp: round_down_def elim!: dvdE)

lemma round_up_add: "m dvd a \<Longrightarrow> round_up m (a + y) = a + round_up m y"
  by (simp add: round_up_def add.assoc round_down_add)

lemma round_down_mod: "round_down m x + x mod m = x"
  by (simp add: round_down_def)

lemma round_block: "round_down m x + round_up m (x mod m + s) = round_up m (x + s)"
  by (metis add.assoc round_down_dvd round_down_mod round_up_add)

lemma round_up_dvd: "m dvd round_up m x"
  by (simp add: round_up_def round_down_dvd)

lemma round_up_ge: "0 < m \<Longrightarrow> x \<le> round_up m x"
proof -
  assume "0 < m"
  then have "(x + (m - 1)) mod m \<le> m - 1"
    by (metis Suc_pred' less_Suc_eq_le mod_less_divisor)
  then show ?thesis by (simp add: round_up_def round_down_def)
qed

lemma round_up_less: "0 < m \<Longrightarrow> round_up m x < x + m"
  by (simp add: round_up_def round_down_def)

lemma dvd_less_imp_add_le:
  fixes a b m :: nat
  assumes "m dvd a" "m dvd b" "a < b"
  shows "a + m \<le> b"
proof -
  have "m dvd b - a" "0 < b - a" using assms by auto
  then have "m \<le> b - a" by (auto dest: dvd_imp_le)
  with \<open>a < b\<close> show ?thesis by simp
qed

lemma round_up_least:
  assumes "0 < m" "m dvd y" "x \<le> y"
  shows "round_up m x \<le> y"
proof (rule ccontr)
  assume "\<not> round_up m x \<le> y"
  then have "y + m \<le> round_up m x"
    using dvd_less_imp_add_le [OF assms(2) round_up_dvd, of x] by simp
  then show False using round_up_less [OF assms(1), of x] assms(3) by simp
qed

lemma round_up_mono: "x \<le> y \<Longrightarrow> round_up m x \<le> round_up m y"
  by (simp add: round_up_def round_down_mono)

lemma round_up_eq: "0 < m \<Longrightarrow> m dvd x \<Longrightarrow> round_up m x = x"
  by (meson le_antisym order_refl round_up_ge round_up_least)

lemma round_down_greatest:
  assumes "0 < m" "m dvd y" "y \<le> x"
  shows "y \<le> round_down m x"
  using round_down_mono [OF assms(3), of m] round_down_eq [OF assms(2)] by simp

end
