(* ===== verification/LMM.thy ===== *)
theory LMM
  imports Prelude
begin

text \<open>
  The List Memory Manager, \<open>lmm/*.c\<close>: a pool is a list of regions, each with a
  list of free blocks kept inside the free memory itself.

  The pointer structure is modelled as follows.  A free block (\<open>struct lmm_node\<close>)
  is its address together with its size, and the \<open>next\<close> chain of a region is the
  list of its blocks in chain order; \<open>nodes_ptr\<close> reads back the pointer value at the
  head of a chain (0 for the empty one).  A region header carries the address
  of its caller-supplied \<open>struct lmm_region\<close>, because \<open>lmm_add_region\<close> compares it.
  All addresses and sizes are 32-bit words.  The \<open>for\<close> loops over \<open>next\<close> chains are
  recursions over these lists; a store through \<open>*nodep\<close> rebuilds the list at
  that point.
\<close>

section \<open>Definitions\<close>

text \<open>\<open>ALIGN_SIZE\<close> is \<open>sizeof(struct lmm_node)\<close>: a pointer and an \<open>oskit_size_t\<close>.\<close>

definition ALIGN_SIZE :: u32 where
  "ALIGN_SIZE = 8"

definition ALIGN_MASK :: u32 where
  "ALIGN_MASK = ALIGN_SIZE - 1"

record lmm_node =
  node_addr :: addr
  node_size :: u32

record lmm_region =
  reg_ptr :: addr
  reg_nodes :: "lmm_node list"
  reg_min :: addr
  reg_max :: addr
  reg_flags :: u32
  reg_pri :: int
  reg_free :: u32

record lmm =
  regions :: "lmm_region list"

definition nodes_ptr :: "lmm_node list \<Rightarrow> addr" where
  "nodes_ptr ns = (case ns of [] \<Rightarrow> 0 | n # _ \<Rightarrow> node_addr n)"

definition CHECKREGPTR :: "lmm_region \<Rightarrow> unit option" where
  "CHECKREGPTR reg = do {
     assertion ((reg_nodes reg = [] \<and> reg_free reg = 0) \<or> nodes_ptr (reg_nodes reg) \<ge> reg_min reg);
     assertion (reg_nodes reg = [] \<or> nodes_ptr (reg_nodes reg) < reg_max reg);
     assertion (reg_free reg \<ge> 0);
     assertion (reg_free reg \<le> reg_max reg - reg_min reg)
   }"

text \<open>The four assertions at the top of the node loops of \<open>lmm_alloc\<close> and
  \<open>lmm_alloc_gen\<close>.\<close>

definition check_node :: "lmm_region \<Rightarrow> lmm_node \<Rightarrow> lmm_node list \<Rightarrow> unit option" where
  "check_node reg node rest = do {
     assertion (node_addr node AND ALIGN_MASK = 0);
     assertion (node_size node AND ALIGN_MASK = 0);
     assertion (nodes_ptr rest = 0 \<or> nodes_ptr rest > node_addr node);
     assertion (node_addr node < reg_max reg)
   }"

definition lmm_init :: lmm where
  "lmm_init = \<lparr>regions = []\<rparr>"

subsection \<open>\<open>lmm_add_region\<close>\<close>

fun lmm_add_region_insert :: "lmm_region \<Rightarrow> lmm_region list \<Rightarrow> lmm_region list option" where
  "lmm_add_region_insert reg [] = Some [reg]"
| "lmm_add_region_insert reg (r # rs) =
     (if reg_pri r > reg_pri reg \<or>
         (reg_pri r = reg_pri reg \<and>
          reg_max r - reg_min r > reg_max reg - reg_min reg)
      then do {
        assertion (reg_ptr r \<noteq> reg_ptr reg);
        assertion (reg_max reg \<le> reg_min r \<or> reg_min reg \<ge> reg_max r);
        rs' \<leftarrow> lmm_add_region_insert reg rs;
        Some (r # rs')
      }
      else Some (reg # r # rs))"

definition lmm_add_region ::
    "lmm \<Rightarrow> addr \<Rightarrow> addr \<Rightarrow> u32 \<Rightarrow> u32 \<Rightarrow> int \<Rightarrow> lmm option" where
  "lmm_add_region lmm reg addr sz flags pri = (
     let lo = addr;
         hi = lo + sz;
         lo = (lo + ALIGN_MASK) AND NOT ALIGN_MASK;
         hi = hi AND NOT ALIGN_MASK
     in if hi \<le> lo then Some lmm
        else do {
          rs \<leftarrow> lmm_add_region_insert
            \<lparr>reg_ptr = reg, reg_nodes = [], reg_min = lo, reg_max = hi,
             reg_flags = flags, reg_pri = pri, reg_free = 0\<rparr> (regions lmm);
          Some (lmm\<lparr>regions := rs\<rparr>)
        })"

subsection \<open>\<open>lmm_alloc\<close>\<close>

text \<open>The inner loop: \<open>None\<close> inside the panic monad means that the loop ran off the
  end of the chain; otherwise the address of the chosen block and the new chain.\<close>

fun lmm_alloc_nodes ::
    "lmm_region \<Rightarrow> u32 \<Rightarrow> lmm_node list \<Rightarrow> (addr \<times> lmm_node list) option option" where
  "lmm_alloc_nodes reg sz [] = Some None"
| "lmm_alloc_nodes reg sz (node # rest) = do {
     check_node reg node rest;
     if node_size node \<ge> sz then
       if node_size node > sz then
         Some (Some (node_addr node,
           \<lparr>node_addr = node_addr node + sz, node_size = node_size node - sz\<rparr> # rest))
       else Some (Some (node_addr node, rest))
     else do {
       r \<leftarrow> lmm_alloc_nodes reg sz rest;
       Some (map_option (\<lambda>(a, ns). (a, node # ns)) r)
     }
   }"

fun lmm_alloc_regions ::
    "u32 \<Rightarrow> u32 \<Rightarrow> lmm_region list \<Rightarrow> (addr \<times> lmm_region list) option" where
  "lmm_alloc_regions sz flags [] = Some (0, [])"
| "lmm_alloc_regions sz flags (reg # regs) = do {
     CHECKREGPTR reg;
     r \<leftarrow> (if flags AND NOT (reg_flags reg) \<noteq> 0 then Some None
          else lmm_alloc_nodes reg sz (reg_nodes reg));
     case r of
       Some (node, ns) \<Rightarrow> do {
         assertion (reg_free reg \<ge> sz);
         Some (node, reg\<lparr>reg_nodes := ns, reg_free := reg_free reg - sz\<rparr> # regs)
       }
     | None \<Rightarrow> do {
         (p, regs') \<leftarrow> lmm_alloc_regions sz flags regs;
         Some (p, reg # regs')
       }
   }"

definition lmm_alloc :: "lmm \<Rightarrow> u32 \<Rightarrow> u32 \<Rightarrow> (addr \<times> lmm) option" where
  "lmm_alloc lmm sz flags = do {
     assertion (sz > 0);
     let sz = (sz + ALIGN_MASK) AND NOT ALIGN_MASK;
     (p, rs) \<leftarrow> lmm_alloc_regions sz flags (regions lmm);
     Some (p, lmm\<lparr>regions := rs\<rparr>)
   }"

subsection \<open>\<open>lmm_alloc_gen\<close>, \<open>lmm_alloc_aligned\<close>, \<open>lmm_alloc_page\<close>\<close>

text \<open>The loop \<open>for (i = 0; i < align_bits; i++)\<close> that carries \<open>addr\<close> up to the
  requested alignment.\<close>

definition lmm_align_step :: "addr \<Rightarrow> nat \<Rightarrow> addr \<Rightarrow> addr" where
  "lmm_align_step align_ofs i addr = (
     let bit = push_bit i 1
     in if (addr XOR align_ofs) AND bit \<noteq> 0 then addr + bit else addr)"

definition lmm_align :: "nat \<Rightarrow> addr \<Rightarrow> addr \<Rightarrow> addr" where
  "lmm_align align_bits align_ofs addr = fold (lmm_align_step align_ofs) [0..<align_bits] addr"

text \<open>The node loop.  \<open>Some None\<close> covers both running off the chain and the
  \<open>break\<close>: in either case the search goes on with the next region.  A hit
  returns the address, the rounded size and the new chain.\<close>

fun lmm_alloc_gen_nodes ::
    "lmm_region \<Rightarrow> u32 \<Rightarrow> nat \<Rightarrow> addr \<Rightarrow> addr \<Rightarrow> addr \<Rightarrow> lmm_node list
     \<Rightarrow> (addr \<times> u32 \<times> lmm_node list) option option" where
  "lmm_alloc_gen_nodes reg sz align_bits align_ofs in_min in_max [] = Some None"
| "lmm_alloc_gen_nodes reg sz align_bits align_ofs in_min in_max (node # rest) = do {
     check_node reg node rest;
     let continue = do {
       r \<leftarrow> lmm_alloc_gen_nodes reg sz align_bits align_ofs in_min in_max rest;
       Some (map_option (\<lambda>(a, s, ns). (a, s, node # ns)) r)
     };
     if node_size node < sz then continue
     else do {
       let addr = node_addr node;
       let addr = (if addr < in_min then in_min else addr);
       let addr = lmm_align align_bits align_ofs addr;
       if addr - node_addr node + sz > node_size node then continue
       else if addr + sz > in_max then Some None
       else do {
         let anode = addr AND NOT ALIGN_MASK;
         assertion (anode \<ge> node_addr node);
         let split_size = anode - node_addr node;
         assertion (anode > node_addr node \<longrightarrow> split_size AND ALIGN_MASK = 0);
         let (before, anode_size) =
           (if anode > node_addr node
            then ([node\<lparr>node_size := split_size\<rparr>], node_size node - split_size)
            else ([], node_size node));
         let sz = ((addr AND ALIGN_MASK) + sz + ALIGN_MASK) AND NOT ALIGN_MASK;
         let after =
           (if anode_size > sz
            then \<lparr>node_addr = anode + sz, node_size = anode_size - sz\<rparr> # rest
            else rest);
         Some (Some (addr, sz, before @ after))
       }
     }
   }"

fun lmm_alloc_gen_regions ::
    "u32 \<Rightarrow> u32 \<Rightarrow> nat \<Rightarrow> addr \<Rightarrow> addr \<Rightarrow> addr \<Rightarrow> lmm_region list
     \<Rightarrow> (addr \<times> lmm_region list) option" where
  "lmm_alloc_gen_regions sz flags align_bits align_ofs in_min in_max [] = Some (0, [])"
| "lmm_alloc_gen_regions sz flags align_bits align_ofs in_min in_max (reg # regs) = do {
     CHECKREGPTR reg;
     r \<leftarrow> (if flags AND NOT (reg_flags reg) \<noteq> 0 \<or> reg_min reg \<ge> in_max \<or> reg_max reg \<le> in_min
          then Some None
          else lmm_alloc_gen_nodes reg sz align_bits align_ofs in_min in_max (reg_nodes reg));
     case r of
       Some (addr, sz', ns) \<Rightarrow> do {
         assertion (reg_free reg \<ge> sz');
         Some (addr, reg\<lparr>reg_nodes := ns, reg_free := reg_free reg - sz'\<rparr> # regs)
       }
     | None \<Rightarrow> do {
         (p, regs') \<leftarrow>
           lmm_alloc_gen_regions sz flags align_bits align_ofs in_min in_max regs;
         Some (p, reg # regs')
       }
   }"

definition lmm_alloc_gen ::
    "lmm \<Rightarrow> u32 \<Rightarrow> u32 \<Rightarrow> nat \<Rightarrow> addr \<Rightarrow> addr \<Rightarrow> u32 \<Rightarrow> (addr \<times> lmm) option" where
  "lmm_alloc_gen lmm sz flags align_bits align_ofs in_min in_size = do {
     let in_max = in_min + in_size;
     assertion (sz > 0);
     (p, rs) \<leftarrow>
       lmm_alloc_gen_regions sz flags align_bits align_ofs in_min in_max (regions lmm);
     Some (p, lmm\<lparr>regions := rs\<rparr>)
   }"

definition lmm_alloc_aligned ::
    "lmm \<Rightarrow> u32 \<Rightarrow> u32 \<Rightarrow> nat \<Rightarrow> addr \<Rightarrow> (addr \<times> lmm) option" where
  "lmm_alloc_aligned lmm sz flags align_bits align_ofs =
     lmm_alloc_gen lmm sz flags align_bits align_ofs 0 (-1)"

text \<open>\<open>PAGE_SHIFT\<close> of the x86 (\<open>oskit/x86/page.h\<close>) and \<open>PAGE_SIZE\<close> (\<open>oskit/page.h\<close>).\<close>

definition PAGE_SHIFT :: nat where
  "PAGE_SHIFT = 12"

definition PAGE_SIZE :: u32 where
  "PAGE_SIZE = push_bit PAGE_SHIFT 1"

definition lmm_alloc_page :: "lmm \<Rightarrow> u32 \<Rightarrow> (addr \<times> lmm) option" where
  "lmm_alloc_page lmm flags = lmm_alloc_gen lmm PAGE_SIZE flags PAGE_SHIFT 0 0 (-1)"

subsection \<open>\<open>lmm_free\<close>, \<open>lmm_free_page\<close>, \<open>lmm_add_free\<close>\<close>

text \<open>The insertion into the chain: \<open>pre\<close> is the part of the chain the search loop
  walked over (its last block is \<open>prevnode\<close>), \<open>post\<close> the rest (its first block is
  \<open>nextnode\<close>).\<close>

definition lmm_free_nodes :: "addr \<Rightarrow> u32 \<Rightarrow> lmm_node list \<Rightarrow> lmm_node list option" where
  "lmm_free_nodes node sz nodes = (
     let pre = takeWhile (\<lambda>n. node_addr n < node) nodes;
         post = dropWhile (\<lambda>n. node_addr n < node) nodes
     in if pre \<noteq> [] \<and> node_addr (last pre) + node_size (last pre) \<ge> node
        then do {
          let prevnode = last pre;
          assertion (node_addr prevnode + node_size prevnode = node);
          case post of
            nextnode # rest \<Rightarrow>
              if node + sz \<ge> node_addr nextnode
              then do {
                assertion (node + sz = node_addr nextnode);
                Some (butlast pre @
                  prevnode\<lparr>node_size := node_size prevnode + (sz + node_size nextnode)\<rparr> # rest)
              }
              else Some (butlast pre @
                prevnode\<lparr>node_size := node_size prevnode + sz\<rparr> # post)
          | [] \<Rightarrow> Some (butlast pre @ [prevnode\<lparr>node_size := node_size prevnode + sz\<rparr>])
        }
        else
          case post of
            nextnode # rest \<Rightarrow>
              if node + sz \<ge> node_addr nextnode
              then Some (pre @ \<lparr>node_addr = node, node_size = sz + node_size nextnode\<rparr> # rest)
              else Some (pre @ \<lparr>node_addr = node, node_size = sz\<rparr> # post)
          | [] \<Rightarrow> Some (pre @ [\<lparr>node_addr = node, node_size = sz\<rparr>]))"

fun lmm_free_regions :: "addr \<Rightarrow> u32 \<Rightarrow> lmm_region list \<Rightarrow> lmm_region list option" where
  "lmm_free_regions node sz [] = None"
| "lmm_free_regions node sz (reg # regs) = do {
     CHECKREGPTR reg;
     if node \<ge> reg_min reg \<and> node < reg_max reg
     then do {
       let reg = reg\<lparr>reg_free := reg_free reg + sz\<rparr>;
       assertion (reg_free reg \<le> reg_max reg - reg_min reg);
       ns \<leftarrow> lmm_free_nodes node sz (reg_nodes reg);
       Some (reg\<lparr>reg_nodes := ns\<rparr> # regs)
     }
     else do {
       regs' \<leftarrow> lmm_free_regions node sz regs;
       Some (reg # regs')
     }
   }"

definition lmm_free :: "lmm \<Rightarrow> addr \<Rightarrow> u32 \<Rightarrow> lmm option" where
  "lmm_free lmm block sz = do {
     let node = block AND NOT ALIGN_MASK;
     assertion (block \<noteq> 0);
     assertion (sz > 0);
     let sz = ((block AND ALIGN_MASK) + sz + ALIGN_MASK) AND NOT ALIGN_MASK;
     rs \<leftarrow> lmm_free_regions node sz (regions lmm);
     Some (lmm\<lparr>regions := rs\<rparr>)
   }"

definition lmm_free_page :: "lmm \<Rightarrow> addr \<Rightarrow> lmm option" where
  "lmm_free_page lmm page = lmm_free lmm page PAGE_SIZE"

text \<open>The region loop of \<open>lmm_add_free\<close>.  The regions walked over are those of the
  pool at the start; \<open>lmm_free\<close> changes only their block lists and counters,
  never the \<open>min\<close> and \<open>max\<close> that the loop reads.\<close>

fun lmm_add_free_loop :: "addr \<Rightarrow> addr \<Rightarrow> lmm_region list \<Rightarrow> lmm \<Rightarrow> lmm option" where
  "lmm_add_free_loop lo hi [] lmm = Some lmm"
| "lmm_add_free_loop lo hi (reg # regs) lmm = do {
     assertion (reg_min reg < reg_max reg);
     assertion (reg_min reg AND ALIGN_MASK = 0);
     assertion (reg_max reg AND ALIGN_MASK = 0);
     lmm \<leftarrow>
       (if hi > reg_min reg \<and> lo < reg_max reg
        then do {
          let new_min = (if lo < reg_min reg then reg_min reg else lo);
          let new_max = (if hi > reg_max reg then reg_max reg else hi);
          assertion (new_max > new_min);
          lmm_free lmm new_min (new_max - new_min)
        }
        else Some lmm);
     lmm_add_free_loop lo hi regs lmm
   }"

definition lmm_add_free :: "lmm \<Rightarrow> addr \<Rightarrow> u32 \<Rightarrow> lmm option" where
  "lmm_add_free lmm block sz = do {
     let lo = block;
     let hi = lo + sz;
     let lo = (lo + ALIGN_MASK) AND NOT ALIGN_MASK;
     let hi = hi AND NOT ALIGN_MASK;
     assertion (hi \<ge> lo);
     if hi = lo then Some lmm
     else lmm_add_free_loop lo hi (regions lmm) lmm
   }"

subsection \<open>\<open>lmm_avail\<close>, \<open>lmm_find_free\<close>, \<open>lmm_remove_free\<close>\<close>

fun lmm_avail_loop :: "u32 \<Rightarrow> lmm_region list \<Rightarrow> u32 \<Rightarrow> u32 option" where
  "lmm_avail_loop flags [] count = Some count"
| "lmm_avail_loop flags (reg # regs) count = do {
     CHECKREGPTR reg;
     lmm_avail_loop flags regs
       (if flags AND NOT (reg_flags reg) \<noteq> 0 then count else count + reg_free reg)
   }"

definition lmm_avail :: "lmm \<Rightarrow> u32 \<Rightarrow> u32 option" where
  "lmm_avail lmm flags = lmm_avail_loop flags (regions lmm) 0"

text \<open>The state of the search of \<open>lmm_find_free\<close> is the triple
  \<open>(lowest_addr, lowest_size, lowest_flags)\<close>.\<close>

fun lmm_find_free_nodes ::
    "addr \<Rightarrow> lmm_region \<Rightarrow> lmm_node list \<Rightarrow> addr \<times> u32 \<times> u32 \<Rightarrow> (addr \<times> u32 \<times> u32) option" where
  "lmm_find_free_nodes start_addr reg [] low = Some low"
| "lmm_find_free_nodes start_addr reg (node # rest) low = do {
     assertion (node_addr node \<ge> reg_min reg);
     assertion (node_addr node < reg_max reg);
     if node_addr node \<ge> fst low then Some low
     else if node_addr node + node_size node > start_addr then
       if node_addr node > start_addr
       then Some (node_addr node, node_size node, reg_flags reg)
       else Some (start_addr, node_size node - (start_addr - node_addr node), reg_flags reg)
     else lmm_find_free_nodes start_addr reg rest low
   }"

fun lmm_find_free_regions ::
    "addr \<Rightarrow> lmm_region list \<Rightarrow> addr \<times> u32 \<times> u32 \<Rightarrow> (addr \<times> u32 \<times> u32) option" where
  "lmm_find_free_regions start_addr [] low = Some low"
| "lmm_find_free_regions start_addr (reg # regs) low = do {
     low \<leftarrow>
       (if reg_nodes reg = [] \<or> reg_max reg \<le> start_addr \<or> reg_min reg > fst low
        then Some low
        else lmm_find_free_nodes start_addr reg (reg_nodes reg) low);
     lmm_find_free_regions start_addr regs low
   }"

definition lmm_find_free :: "lmm \<Rightarrow> addr \<Rightarrow> (addr \<times> u32 \<times> u32) option" where
  "lmm_find_free lmm inout_addr = do {
     let start_addr = (inout_addr + ALIGN_MASK) AND NOT ALIGN_MASK;
     lmm_find_free_regions start_addr (regions lmm) (-1, 0, 0)
   }"

text \<open>The \<open>while\<close> loop of \<open>lmm_remove_free\<close> has no bound in the code, so it is a
  partial function; \<open>None\<close> is a panic or not returning.\<close>

partial_function (option) lmm_remove_free_loop ::
    "addr \<Rightarrow> addr \<Rightarrow> addr \<Rightarrow> lmm \<Rightarrow> lmm option" where
  "lmm_remove_free_loop block rend rstart lmm =
     (if rstart < rend then do {
        (rstart, sz, flags) \<leftarrow> lmm_find_free lmm rstart;
        assertion (rstart \<ge> block);
        if sz = 0 \<or> rstart \<ge> rend then Some lmm
        else do {
          let sz = (if rstart + sz > rend then rend - rstart else sz);
          (p, lmm) \<leftarrow> lmm_alloc_gen lmm sz flags 0 0 rstart sz;
          assertion (p = rstart);
          lmm_remove_free_loop block rend rstart lmm
        }
      }
      else Some lmm)"

definition lmm_remove_free :: "lmm \<Rightarrow> addr \<Rightarrow> u32 \<Rightarrow> lmm option" where
  "lmm_remove_free lmm block block_size = do {
     let rstart = block;
     let rend = rstart + block_size;
     assertion (rend > rstart);
     lmm_remove_free_loop block rend rstart lmm
   }"

subsection \<open>\<open>lmm_dump\<close>, \<open>lmm_stats\<close>\<close>

text \<open>The assertions of the two node loops, and their running counters.  The dump
  is modelled by the lines it prints.\<close>

datatype lmm_dump_line =
    DumpRegion addr addr u32 u32 int u32
  | DumpNode addr addr u32 addr
  | DumpFreeCheck u32

definition lmm_dump_check :: "lmm_region \<Rightarrow> lmm_node \<Rightarrow> lmm_node list \<Rightarrow> unit option" where
  "lmm_dump_check reg node rest = do {
     assertion (node_addr node AND ALIGN_MASK = 0);
     assertion (node_size node AND ALIGN_MASK = 0);
     assertion (node_size node \<ge> ALIGN_SIZE);
     assertion (nodes_ptr rest = 0 \<or> nodes_ptr rest > node_addr node);
     assertion (node_addr node < reg_max reg)
   }"

fun lmm_dump_nodes ::
    "lmm_region \<Rightarrow> lmm_node list \<Rightarrow> u32 \<Rightarrow> (lmm_dump_line list \<times> u32) option" where
  "lmm_dump_nodes reg [] free_check = Some ([], free_check)"
| "lmm_dump_nodes reg (node # rest) free_check = do {
     lmm_dump_check reg node rest;
     (out, fc) \<leftarrow> lmm_dump_nodes reg rest (free_check + node_size node);
     Some (DumpNode (node_addr node) (node_addr node + node_size node) (node_size node)
             (nodes_ptr rest) # out, fc)
   }"

fun lmm_dump_regions :: "lmm_region list \<Rightarrow> lmm_dump_line list option" where
  "lmm_dump_regions [] = Some []"
| "lmm_dump_regions (reg # regs) = do {
     CHECKREGPTR reg;
     (out, free_check) \<leftarrow> lmm_dump_nodes reg (reg_nodes reg) 0;
     assertion (reg_free reg = free_check);
     outs \<leftarrow> lmm_dump_regions regs;
     Some (DumpRegion (reg_min reg) (reg_max reg) (reg_max reg - reg_min reg)
             (reg_flags reg) (reg_pri reg) (reg_free reg) # out @ DumpFreeCheck free_check # outs)
   }"

definition lmm_dump :: "lmm \<Rightarrow> lmm_dump_line list option" where
  "lmm_dump lmm = lmm_dump_regions (regions lmm)"

fun lmm_stats_nodes ::
    "lmm_region \<Rightarrow> lmm_node list \<Rightarrow> u32 \<Rightarrow> u32 \<Rightarrow> (u32 \<times> u32) option" where
  "lmm_stats_nodes reg [] nodes free_check = Some (nodes, free_check)"
| "lmm_stats_nodes reg (node # rest) nodes free_check = do {
     lmm_dump_check reg node rest;
     lmm_stats_nodes reg rest (nodes + 1) (free_check + node_size node)
   }"

fun lmm_stats_regions ::
    "lmm_region list \<Rightarrow> u32 \<Rightarrow> u32 \<Rightarrow> u32 \<Rightarrow> (u32 \<times> u32 \<times> u32) option" where
  "lmm_stats_regions [] nregs nodes memfree = Some (memfree, nregs, nodes)"
| "lmm_stats_regions (reg # regs) nregs nodes memfree = do {
     CHECKREGPTR reg;
     (nodes, free_check) \<leftarrow> lmm_stats_nodes reg (reg_nodes reg) nodes 0;
     assertion (reg_free reg = free_check);
     lmm_stats_regions regs (nregs + 1) nodes (memfree + reg_free reg)
   }"

definition lmm_stats :: "lmm \<Rightarrow> (u32 \<times> u32 \<times> u32) option" where
  "lmm_stats lmm = lmm_stats_regions (regions lmm) 0 0 0"

end
