(* ===== verification/LMM_Inv.thy ===== *)
theory LMM_Inv
  imports LMM
begin

text \<open>
  The representation invariant of an LMM pool, its abstraction to the set of free
  byte addresses, and the lemmas on block chains that the correctness proofs of
  the pool operations share.
\<close>

section \<open>Alignment\<close>

lemma ALIGN_MASK_mask: "ALIGN_MASK = mask 3"
  by (simp add: ALIGN_MASK_def ALIGN_SIZE_def mask_eq_exp_minus_1)

lemma unat_ALIGN_SIZE [simp]: "unat ALIGN_SIZE = 8"
  by (simp add: ALIGN_SIZE_def)

lemma unat_ALIGN_MASK [simp]: "unat ALIGN_MASK = 7"
  by (simp add: ALIGN_MASK_def ALIGN_SIZE_def)

lemma unat_and_ALIGN_MASK [simp]: "unat (x AND ALIGN_MASK) = unat x mod 8"
  unfolding ALIGN_MASK_mask unat_and_mask by simp

lemma unat_and_not_ALIGN_MASK [simp]: "unat (x AND NOT ALIGN_MASK) = round_down 8 (unat x)"
  by (simp add: ALIGN_MASK_mask unat_and_not_mask round_down_def)

lemma and_ALIGN_MASK_eq_0_iff: "x AND ALIGN_MASK = 0 \<longleftrightarrow> 8 dvd unat x"
  by (simp add: u32_eq_iff_unat dvd_eq_mod_eq_0)

lemma unat_round_up:
  "unat x + 7 < 2 ^ 32 \<Longrightarrow> unat ((x + ALIGN_MASK) AND NOT ALIGN_MASK) = round_up 8 (unat x)"
  by (simp add: unat_add_nowrap round_up_def)

section \<open>Chains of free blocks\<close>

abbreviation nbeg :: "lmm_node \<Rightarrow> nat" where
  "nbeg n \<equiv> unat (node_addr n)"

abbreviation nlen :: "lmm_node \<Rightarrow> nat" where
  "nlen n \<equiv> unat (node_size n)"

definition nend :: "lmm_node \<Rightarrow> nat" where
  "nend n = nbeg n + nlen n"

definition node_ok :: "nat \<Rightarrow> nat \<Rightarrow> lmm_node \<Rightarrow> bool" where
  "node_ok lo hi n \<longleftrightarrow> lo \<le> nbeg n \<and> 8 dvd nbeg n \<and> 8 dvd nlen n \<and> 0 < nlen n \<and> nend n \<le> hi"

text \<open>A chain lies in \<open>[lo, hi)\<close>, is sorted by address, and is fully coalesced: there is
  a gap between any two blocks.\<close>

definition chain :: "nat \<Rightarrow> nat \<Rightarrow> lmm_node list \<Rightarrow> bool" where
  "chain lo hi ns \<longleftrightarrow>
     list_all (node_ok lo hi) ns \<and> sorted_wrt (\<lambda>a b. nend a < nbeg b) ns"

definition node_bytes :: "lmm_node \<Rightarrow> nat set" where
  "node_bytes n = {nbeg n..<nend n}"

definition bytes :: "lmm_node list \<Rightarrow> nat set" where
  "bytes ns = (\<Union>n\<in>set ns. node_bytes n)"

abbreviation chain_len :: "lmm_node list \<Rightarrow> nat" where
  "chain_len ns \<equiv> sum_list (map nlen ns)"

lemma bytes_simps [simp]:
  "bytes [] = {}"
  "bytes (n # ns) = node_bytes n \<union> bytes ns"
  "bytes (ms @ ns) = bytes ms \<union> bytes ns"
  by (auto simp: bytes_def)

lemma chain_Nil [simp]: "chain lo hi []"
  by (simp add: chain_def)

lemma chain_Cons:
  "chain lo hi (n # ns) \<longleftrightarrow> node_ok lo hi n \<and> (\<forall>m\<in>set ns. nend n < nbeg m) \<and> chain lo hi ns"
  by (auto simp: chain_def)

lemma chain_append:
  "chain lo hi (xs @ ys) \<longleftrightarrow>
     chain lo hi xs \<and> chain lo hi ys \<and> (\<forall>x\<in>set xs. \<forall>y\<in>set ys. nend x < nbeg y)"
  by (auto simp: chain_def sorted_wrt_append)

lemma chain_node_ok: "chain lo hi ns \<Longrightarrow> n \<in> set ns \<Longrightarrow> node_ok lo hi n"
  by (auto simp: chain_def list_all_iff)

lemma bytes_bounds: "chain lo hi ns \<Longrightarrow> bytes ns \<subseteq> {lo..<hi}"
  by (fastforce simp: bytes_def node_bytes_def node_ok_def dest: chain_node_ok)

lemma node_ok_nonempty: "node_ok lo hi n \<Longrightarrow> nbeg n < nend n"
  by (simp add: node_ok_def nend_def)

lemma chain_nbeg_in_bytes: "chain lo hi ns \<Longrightarrow> n \<in> set ns \<Longrightarrow> nbeg n \<in> bytes ns"
  unfolding bytes_def node_bytes_def
  by (rule UN_I) (auto dest: chain_node_ok node_ok_nonempty)

lemma chain_bytes_beyond:
  "chain lo hi (n # ns) \<Longrightarrow> bytes ns \<subseteq> {Suc (nend n)..<hi}"
  by (fastforce simp: chain_Cons bytes_def node_bytes_def node_ok_def dest: chain_node_ok)

lemma finite_bytes [simp]: "finite (bytes ns)"
  by (simp add: bytes_def node_bytes_def)

lemma chain_len_card: "chain lo hi ns \<Longrightarrow> chain_len ns = card (bytes ns)"
proof (induction ns)
  case Nil
  then show ?case by simp
next
  case (Cons n ns)
  have "node_bytes n \<inter> bytes ns = {}"
    using chain_bytes_beyond [OF Cons.prems] by (fastforce simp: node_bytes_def)
  then have "card (bytes (n # ns)) = card (node_bytes n) + card (bytes ns)"
    by (simp add: card_Un_disjoint node_bytes_def)
  with Cons show ?case by (simp add: chain_Cons node_bytes_def nend_def)
qed

lemma chain_len_bound: "chain lo hi ns \<Longrightarrow> chain_len ns \<le> hi - lo"
  using card_mono [OF _ bytes_bounds, of lo hi ns] by (simp add: chain_len_card)

lemma chain_len_dvd: "chain lo hi ns \<Longrightarrow> 8 dvd chain_len ns"
  by (induction ns) (auto simp: chain_Cons node_ok_def)

text \<open>A coalesced chain is determined by the set of its bytes.\<close>

lemma chain_first_min:
  "chain lo hi (n # ns) \<Longrightarrow> x \<in> bytes (n # ns) \<Longrightarrow> nbeg n \<le> x"
  using chain_bytes_beyond [of lo hi n ns] by (auto simp: node_bytes_def nend_def)

lemma chain_gap: "chain lo hi (n # ns) \<Longrightarrow> nend n \<notin> bytes (n # ns)"
  using chain_bytes_beyond [of lo hi n ns] by (auto simp: node_bytes_def)

lemma chain_first_in: "chain lo hi (n # ns) \<Longrightarrow> nbeg n \<in> bytes (n # ns)"
  by (auto simp: chain_Cons node_bytes_def dest: node_ok_nonempty)

lemma chain_first_unique:
  assumes x: "chain lo hi (x # xs)" and y: "chain lo' hi' (y # ys)"
    and eq: "bytes (x # xs) = bytes (y # ys)"
  shows "x = y"
proof -
  have beg: "nbeg x = nbeg y"
    using chain_first_min [OF x] chain_first_min [OF y] chain_first_in [OF x] chain_first_in [OF y] eq
    by (metis le_antisym)
  have "\<not> nend x < nend y" "\<not> nend y < nend x"
    using chain_gap [OF x] chain_gap [OF y] eq beg x y
    by (auto simp: node_bytes_def chain_Cons dest!: node_ok_nonempty)
  then have "nlen x = nlen y" using beg by (simp add: nend_def)
  with beg show ?thesis by (metis lmm_node.surjective old.unit.exhaust u32_eq_iff_unat)
qed

lemma chain_unique:
  "chain lo hi xs \<Longrightarrow> chain lo' hi' ys \<Longrightarrow> bytes xs = bytes ys \<Longrightarrow> xs = ys"
proof (induction xs arbitrary: ys)
  case Nil
  then show ?case
    by (cases ys) (auto dest: chain_first_in)
next
  case (Cons x xs)
  then obtain y ys' where ys: "ys = y # ys'"
    by (cases ys) (auto dest: chain_first_in)
  have [simp]: "y = x"
    using chain_first_unique [OF Cons.prems(1)] Cons.prems(2,3) ys by simp
  have "bytes xs = bytes (x # xs) - node_bytes x"
    using chain_bytes_beyond [OF Cons.prems(1)] by (fastforce simp: node_bytes_def)
  moreover have "bytes ys' = bytes (y # ys') - node_bytes y"
    using chain_bytes_beyond [of lo' hi' y ys'] Cons.prems(2) ys by (fastforce simp: node_bytes_def)
  ultimately have "bytes xs = bytes ys'"
    using Cons.prems(3) ys by simp
  then have "xs = ys'"
    using Cons.IH Cons.prems(1,2) ys by (simp add: chain_Cons)
  then show ?case by (simp add: ys)
qed

lemma chain_interval:
  assumes "chain lo hi ns" "x < y" "{x..<y} \<subseteq> bytes ns"
  shows "\<exists>n\<in>set ns. nbeg n \<le> x \<and> y \<le> nend n"
  using assms
proof (induction ns)
  case Nil
  then show ?case by auto
next
  case (Cons n ns)
  have gap: "nend n \<notin> {x..<y}"
    using chain_gap [OF Cons.prems(1)] Cons.prems(3) by blast
  have x: "x \<in> node_bytes n \<union> bytes ns"
    using Cons.prems(2,3) by auto
  show ?case
  proof (cases "x \<in> node_bytes n")
    case True
    then show ?thesis using gap by (auto simp: node_bytes_def)
  next
    case False
    then have "nend n < x"
      using x chain_bytes_beyond [OF Cons.prems(1)] by (auto simp: node_bytes_def)
    then have "{x..<y} \<subseteq> bytes ns"
      using Cons.prems(3) by (auto simp: node_bytes_def subset_iff)
    then show ?thesis
      using Cons by (auto simp: chain_Cons)
  qed
qed

text \<open>Cutting \<open>[x, y)\<close> out of the first block leaves at most one block before and one
  block after the cut.\<close>

lemma chain_carve:
  assumes c: "chain lo hi (n # ns)"
    and cut: "nbeg n \<le> x" "x < y" "y \<le> nend n" "8 dvd x" "8 dvd y"
    and pre: "nbeg p = nbeg n" "nend p = x"
    and post: "nbeg q = y" "nend q = nend n"
  defines "ns' \<equiv> (if nbeg n < x then [p] else []) @ (if y < nend n then [q] else []) @ ns"
  shows "chain lo hi ns'"
    and "bytes ns' = bytes (n # ns) - {x..<y}"
    and "chain_len ns' + (y - x) = chain_len (n # ns)"
proof -
  have n: "node_ok lo hi n" "\<forall>m\<in>set ns. nend n < nbeg m" "chain lo hi ns"
    using c by (auto simp: chain_Cons)
  have d: "8 dvd nbeg n" "8 dvd nend n"
    using n(1) by (auto simp: node_ok_def nend_def)
  have p: "node_ok lo hi p" if "nbeg n < x"
    using that n(1) cut pre d by (auto simp: node_ok_def nend_def) (metis dvd_diff_nat add_diff_cancel_left')
  have q: "node_ok lo hi q" if "y < nend n"
    using that n(1) cut post d by (auto simp: node_ok_def) (metis dvd_diff_nat add_diff_cancel_left' nend_def, simp add: nend_def)
  show "chain lo hi ns'"
    unfolding ns'_def using n p q cut pre post by (auto simp: chain_Cons)
  show "bytes ns' = bytes (n # ns) - {x..<y}"
    unfolding ns'_def using chain_bytes_beyond [OF c] cut pre post
    by (auto simp: node_bytes_def)
  show "chain_len ns' + (y - x) = chain_len (n # ns)"
    unfolding ns'_def using cut pre post by (auto simp: nend_def)
qed

section \<open>Regions and pools\<close>

text \<open>Block addresses are never 0, because 0 is the null pointer of the interface.\<close>

definition reg_inv :: "lmm_region \<Rightarrow> bool" where
  "reg_inv r \<longleftrightarrow>
     reg_min r < reg_max r \<and> 8 dvd unat (reg_min r) \<and> 8 dvd unat (reg_max r) \<and>
     chain (max 1 (unat (reg_min r))) (unat (reg_max r)) (reg_nodes r) \<and>
     unat (reg_free r) = chain_len (reg_nodes r)"

definition reg_size :: "lmm_region \<Rightarrow> nat" where
  "reg_size r = unat (reg_max r) - unat (reg_min r)"

definition reg_before :: "lmm_region \<Rightarrow> lmm_region \<Rightarrow> bool" where
  "reg_before r s \<longleftrightarrow> reg_pri r > reg_pri s \<or> (reg_pri r = reg_pri s \<and> reg_size r \<ge> reg_size s)"

definition reg_disjoint :: "lmm_region \<Rightarrow> lmm_region \<Rightarrow> bool" where
  "reg_disjoint r s \<longleftrightarrow> reg_max r \<le> reg_min s \<or> reg_max s \<le> reg_min r"

definition reg_span :: "lmm_region \<Rightarrow> nat set" where
  "reg_span r = {unat (reg_min r)..<unat (reg_max r)}"

definition regs_inv :: "lmm_region list \<Rightarrow> bool" where
  "regs_inv rs \<longleftrightarrow>
     list_all reg_inv rs \<and> sorted_wrt reg_before rs \<and> sorted_wrt reg_disjoint rs \<and>
     distinct (map reg_ptr rs)"

definition lmm_inv :: "lmm \<Rightarrow> bool" where
  "lmm_inv lmm \<longleftrightarrow> regs_inv (regions lmm)"

text \<open>The abstraction: the free bytes of a pool, and those that satisfy a set of
  memory-type flags.\<close>

definition reg_ok_for :: "u32 \<Rightarrow> lmm_region \<Rightarrow> bool" where
  "reg_ok_for flags r \<longleftrightarrow> flags AND NOT (reg_flags r) = 0"

definition regs_bytes :: "lmm_region list \<Rightarrow> nat set" where
  "regs_bytes rs = (\<Union>r\<in>set rs. bytes (reg_nodes r))"

definition free_bytes :: "lmm \<Rightarrow> nat set" where
  "free_bytes lmm = regs_bytes (regions lmm)"

definition free_bytes_for :: "u32 \<Rightarrow> lmm \<Rightarrow> nat set" where
  "free_bytes_for flags lmm = regs_bytes (filter (reg_ok_for flags) (regions lmm))"

definition pool_span :: "lmm \<Rightarrow> nat set" where
  "pool_span lmm = (\<Union>r\<in>set (regions lmm). reg_span r)"

lemma regs_bytes_simps [simp]:
  "regs_bytes [] = {}"
  "regs_bytes (r # rs) = bytes (reg_nodes r) \<union> regs_bytes rs"
  by (auto simp: regs_bytes_def)

lemma regs_inv_Nil [simp]: "regs_inv []"
  by (simp add: regs_inv_def)

lemma regs_inv_Cons:
  "regs_inv (r # rs) \<longleftrightarrow>
     reg_inv r \<and> regs_inv rs \<and> (\<forall>s\<in>set rs. reg_before r s \<and> reg_disjoint r s \<and> reg_ptr r \<noteq> reg_ptr s)"
  by (auto simp: regs_inv_def)

text \<open>What the pool operations keep of a region: they only change its blocks and its
  counter.\<close>

definition reg_same :: "lmm_region \<Rightarrow> lmm_region \<Rightarrow> bool" where
  "reg_same r s \<longleftrightarrow>
     reg_ptr r = reg_ptr s \<and> reg_min r = reg_min s \<and> reg_max r = reg_max s \<and>
     reg_flags r = reg_flags s \<and> reg_pri r = reg_pri s"

lemma reg_same_refl [simp]: "reg_same r r"
  by (simp add: reg_same_def)

lemma reg_same_upd [simp]: "reg_same (r\<lparr>reg_nodes := ns, reg_free := f\<rparr>) r"
  by (simp add: reg_same_def)

lemma reg_same_span: "reg_same r s \<Longrightarrow> reg_span r = reg_span s"
  by (simp add: reg_same_def reg_span_def)

lemma regs_same_inv:
  assumes "list_all2 reg_same rs' rs" "list_all reg_inv rs'" "regs_inv rs"
  shows "regs_inv rs'"
  using assms
proof (induction rs' rs rule: list_all2_induct)
  case Nil
  then show ?case by simp
next
  case (Cons r' rs' r rs)
  have "\<forall>s'\<in>set rs'. \<exists>s\<in>set rs. reg_same s' s"
    using Cons.hyps(2) by (metis in_set_conv_nth list_all2_conv_all_nth)
  with Cons show ?case
    by (fastforce simp: regs_inv_Cons reg_same_def reg_before_def reg_disjoint_def reg_size_def)
qed

lemma reg_inv_bytes: "reg_inv r \<Longrightarrow> bytes (reg_nodes r) \<subseteq> reg_span r"
  using bytes_bounds by (fastforce simp: reg_inv_def reg_span_def)

lemma reg_disjoint_span: "reg_disjoint r s \<Longrightarrow> reg_span r \<inter> reg_span s = {}"
  by (auto simp: reg_disjoint_def reg_span_def wnat)

lemma regs_bytes_disjoint:
  assumes "regs_inv (r # rs)"
  shows "reg_span r \<inter> regs_bytes rs = {}"
proof -
  have "reg_span r \<inter> bytes (reg_nodes s) = {}" if "s \<in> set rs" for s
  proof -
    have "reg_inv s" "reg_disjoint r s"
      using assms that by (auto simp: regs_inv_def list_all_iff)
    then show ?thesis
      using reg_inv_bytes [of s] reg_disjoint_span [of r s] by blast
  qed
  then show ?thesis by (auto simp: regs_bytes_def)
qed

text \<open>The sanity macro passes on every region that satisfies the invariant.\<close>

lemma nodes_ptr_Cons [simp]: "nodes_ptr (n # ns) = node_addr n"
  by (simp add: nodes_ptr_def)

lemma CHECKREGPTR_ok [simp]:
  assumes "reg_inv r"
  shows "CHECKREGPTR r = Some ()"
proof -
  have c: "chain (max 1 (unat (reg_min r))) (unat (reg_max r)) (reg_nodes r)"
    and f: "unat (reg_free r) = chain_len (reg_nodes r)"
    and le: "unat (reg_min r) \<le> unat (reg_max r)"
    using assms by (auto simp: reg_inv_def wnat)
  have "unat (reg_free r) \<le> unat (reg_max r) - unat (reg_min r)"
    using chain_len_bound [OF c] f by simp
  then have "reg_free r \<le> reg_max r - reg_min r"
    using le by (simp add: word_le_nat_alt unat_diff_nowrap)
  moreover have "reg_nodes r = [] \<and> reg_free r = 0 \<or>
      nodes_ptr (reg_nodes r) \<ge> reg_min r \<and> nodes_ptr (reg_nodes r) < reg_max r"
    using c f by (cases "reg_nodes r") (auto simp: chain_Cons node_ok_def nend_def wnat)
  ultimately show ?thesis
    by (auto simp: CHECKREGPTR_def)
qed

lemma check_node_ok:
  assumes "chain lo (unat (reg_max r)) (n # ns)"
  shows "check_node r n ns = Some ()"
proof -
  have "nodes_ptr ns = 0 \<or> nodes_ptr ns > node_addr n"
    using assms by (cases ns) (auto simp: chain_Cons nodes_ptr_def wnat nend_def)
  moreover have "8 dvd nbeg n" "8 dvd nlen n" "nbeg n < unat (reg_max r)"
    using assms by (auto simp: chain_Cons node_ok_def nend_def)
  ultimately show ?thesis
    by (auto simp: check_node_def and_ALIGN_MASK_eq_0_iff wnat)
qed

end
