(* ===== verification/LMM_Alloc.thy ===== *)
theory LMM_Alloc
  imports LMM_Inv
begin

text \<open>
  Correctness of the three allocators of the LMM: \<open>lmm_alloc\<close> and \<open>lmm_alloc_gen\<close> with
  its front ends \<open>lmm_alloc_aligned\<close> and \<open>lmm_alloc_page\<close>.  In terms of the free
  bytes of the pool, an allocation takes exactly the rounded block out of them.
\<close>

section \<open>Taking a block out of a region\<close>

text \<open>The effect of a successful search in one region, common to both allocators:
  \<open>[x, x + s)\<close> is cut out of the chain.\<close>

definition cut_from :: "nat \<Rightarrow> nat \<Rightarrow> nat \<Rightarrow> nat \<Rightarrow> lmm_node list \<Rightarrow> lmm_node list \<Rightarrow> bool" where
  "cut_from lo hi x s ns ns' \<longleftrightarrow>
     chain lo hi ns' \<and> 0 < s \<and> 8 dvd x \<and> 8 dvd s \<and> lo \<le> x \<and> x + s \<le> hi \<and>
     {x..<x + s} \<subseteq> bytes ns \<and> bytes ns' = bytes ns - {x..<x + s} \<and>
     chain_len ns' + s = chain_len ns"

lemma cut_from_Cons:
  assumes c: "chain lo hi (n # ns)" and cut: "cut_from lo hi x s ns ns'"
  shows "cut_from lo hi x s (n # ns) (n # ns')"
proof -
  have "{x..<x + s} \<subseteq> {Suc (nend n)..<hi}"
    using cut chain_bytes_beyond [OF c] unfolding cut_from_def by blast
  then have "{x..<x + s} \<inter> node_bytes n = {}"
    by (auto simp: node_bytes_def)
  moreover have "\<forall>m\<in>set ns'. nend n < nbeg m"
  proof
    fix m assume "m \<in> set ns'"
    then have "nbeg m \<in> bytes ns'"
      using cut chain_nbeg_in_bytes by (auto simp: cut_from_def)
    then have "nbeg m \<in> bytes ns" using cut by (auto simp: cut_from_def)
    then show "nend n < nbeg m" using chain_bytes_beyond [OF c] by auto
  qed
  ultimately show ?thesis
    using cut c by (auto simp: cut_from_def chain_Cons)
qed

lemma cut_from_head:
  assumes "chain lo hi (n # ns)"
    and "nbeg n \<le> x" "0 < s" "x + s \<le> nend n" "8 dvd x" "8 dvd s"
    and "nbeg p = nbeg n" "nend p = x" "nbeg q = x + s" "nend q = nend n"
  shows "cut_from lo hi x s (n # ns)
    ((if nbeg n < x then [p] else []) @ (if x + s < nend n then [q] else []) @ ns)"
proof -
  have ok: "node_ok lo hi n" using assms(1) by (simp add: chain_Cons)
  have xy: "x < x + s" "8 dvd x + s" using assms by auto
  note carve = chain_carve [OF assms(1) assms(2) xy(1) assms(4) assms(5) xy(2) assms(7-10)]
  have "{x..<x + s} \<subseteq> node_bytes n"
    using assms by (auto simp: node_bytes_def)
  then show ?thesis
    unfolding cut_from_def using carve assms ok by (auto simp: node_ok_def)
qed

section \<open>\<open>lmm_alloc\<close>\<close>

lemma lmm_alloc_nodes_ok:
  assumes "chain lo (unat (reg_max r)) ns" "8 dvd unat sz" "0 < unat sz"
  shows "if \<exists>n\<in>set ns. sz \<le> node_size n
    then \<exists>a ns'. lmm_alloc_nodes r sz ns = Some (Some (a, ns')) \<and>
           cut_from lo (unat (reg_max r)) (unat a) (unat sz) ns ns'
    else lmm_alloc_nodes r sz ns = Some None"
  using assms
proof (induction ns)
  case Nil
  then show ?case by simp
next
  case (Cons n ns)
  note chk = check_node_ok [OF Cons.prems(1)]
  let ?hi = "unat (reg_max r)"
  have ok: "node_ok lo ?hi n" and ns: "chain lo ?hi ns"
    using Cons.prems(1) by (auto simp: chain_Cons)
  show ?case
  proof (cases "sz \<le> node_size n")
    case True
    let ?p = "n\<lparr>node_size := 0\<rparr>"
    let ?q = "\<lparr>node_addr = node_addr n + sz, node_size = node_size n - sz\<rparr>"
    have le: "unat sz \<le> nlen n" using True by (simp add: wnat)
    have "nbeg n + unat sz \<le> ?hi"
      using ok le by (simp add: node_ok_def nend_def)
    then have nowrap: "nbeg n + unat sz < 2 ^ 32"
      by (rule order_le_less_trans) simp
    have q: "nbeg ?q = nbeg n + unat sz" "nend ?q = nend n"
      using nowrap le by (simp_all add: nend_def unat_add_nowrap unat_diff_nowrap)
    have "cut_from lo ?hi (nbeg n) (unat sz) (n # ns)
        ((if nbeg n < nbeg n then [?p] else []) @ (if nbeg n + unat sz < nend n then [?q] else []) @ ns)"
      by (rule cut_from_head) (use Cons.prems ok le q in \<open>auto simp: node_ok_def nend_def\<close>)
    then have "cut_from lo ?hi (nbeg n) (unat sz) (n # ns)
        (if sz < node_size n then ?q # ns else ns)"
      by (simp add: nend_def word_less_nat_alt split: if_splits)
    moreover have "lmm_alloc_nodes r sz (n # ns) =
        Some (Some (node_addr n, if sz < node_size n then ?q # ns else ns))"
      using True by (simp add: chk)
    ultimately show ?thesis
      using True by (auto simp del: lmm_alloc_nodes.simps)
  next
    case False
    then have step: "lmm_alloc_nodes r sz (n # ns) =
        lmm_alloc_nodes r sz ns \<bind> (\<lambda>r. Some (map_option (\<lambda>(a, ns). (a, n # ns)) r))"
      by (simp add: chk)
    show ?thesis
    proof (cases "\<exists>m\<in>set ns. sz \<le> node_size m")
      case True
      then obtain a ns' where "lmm_alloc_nodes r sz ns = Some (Some (a, ns'))"
        "cut_from lo ?hi (unat a) (unat sz) ns ns'"
        using Cons.IH [OF ns Cons.prems(2,3)] by auto
      then have "lmm_alloc_nodes r sz (n # ns) = Some (Some (a, n # ns')) \<and>
          cut_from lo ?hi (unat a) (unat sz) (n # ns) (n # ns')"
        using step cut_from_Cons [OF Cons.prems(1)] by (simp del: lmm_alloc_nodes.simps)
      with True show ?thesis by (auto simp del: lmm_alloc_nodes.simps)
    next
      case none: False
      then show ?thesis
        using Cons.IH [OF ns Cons.prems(2,3)] step False by (simp del: lmm_alloc_nodes.simps)
    qed
  qed
qed

section \<open>Allocation on a list of regions\<close>

text \<open>\<open>regs_cut P x s rs rs'\<close>: one region with property \<open>P\<close> held all of \<open>[x, x + s)\<close>,
  every region lost exactly those bytes, and nothing else changed.\<close>

definition reg_less :: "nat set \<Rightarrow> lmm_region \<Rightarrow> lmm_region \<Rightarrow> bool" where
  "reg_less B r' r \<longleftrightarrow>
     reg_same r' r \<and> reg_inv r' \<and> bytes (reg_nodes r') = bytes (reg_nodes r) - B"

definition regs_cut ::
    "(lmm_region \<Rightarrow> bool) \<Rightarrow> nat \<Rightarrow> nat \<Rightarrow> lmm_region list \<Rightarrow> lmm_region list \<Rightarrow> bool" where
  "regs_cut P x s rs rs' \<longleftrightarrow>
     0 < x \<and> 8 dvd x \<and> 0 < s \<and> 8 dvd s \<and>
     list_all2 (reg_less {x..<x + s}) rs' rs \<and>
     (\<exists>r\<in>set rs. P r \<and> {x..<x + s} \<subseteq> bytes (reg_nodes r))"

lemma reg_less_self:
  "reg_inv r \<Longrightarrow> reg_span r \<inter> B = {} \<Longrightarrow> reg_less B r r"
  using reg_inv_bytes [of r] by (auto simp: reg_less_def)

lemma regs_less_self:
  assumes "regs_inv rs" "\<forall>r\<in>set rs. reg_span r \<inter> B = {}"
  shows "list_all2 (reg_less B) rs rs"
  using assms by (auto simp: list_all2_same regs_inv_def list_all_iff intro: reg_less_self)

lemma cut_region:
  assumes inv: "reg_inv r"
    and cut: "cut_from (max 1 (unat (reg_min r))) (unat (reg_max r)) x (unat sz) (reg_nodes r) ns'"
  shows "sz \<le> reg_free r"
    and "reg_less {x..<x + unat sz} (r\<lparr>reg_nodes := ns', reg_free := reg_free r - sz\<rparr>) r"
    and "{x..<x + unat sz} \<subseteq> reg_span r"
proof -
  have len: "chain_len ns' + unat sz = unat (reg_free r)"
    using inv cut by (simp add: reg_inv_def cut_from_def)
  then show le: "sz \<le> reg_free r" by (simp add: word_le_nat_alt)
  have "unat (reg_free r - sz) = chain_len ns'"
    using len le by (simp add: unat_diff_nowrap word_le_nat_alt)
  then show "reg_less {x..<x + unat sz} (r\<lparr>reg_nodes := ns', reg_free := reg_free r - sz\<rparr>) r"
    using inv cut by (auto simp: reg_less_def reg_inv_def cut_from_def)
  show "{x..<x + unat sz} \<subseteq> reg_span r"
    using cut by (auto simp: cut_from_def reg_span_def)
qed

lemma regs_cut_here:
  assumes inv: "regs_inv (r # rs)" and "P r"
    and cut: "cut_from (max 1 (unat (reg_min r))) (unat (reg_max r)) x (unat sz) (reg_nodes r) ns'"
  shows "regs_cut P x (unat sz) (r # rs) (r\<lparr>reg_nodes := ns', reg_free := reg_free r - sz\<rparr> # rs)"
proof -
  have r: "reg_inv r" using inv by (simp add: regs_inv_Cons)
  note c = cut_region [OF r cut]
  have "list_all2 (reg_less {x..<x + unat sz}) rs rs"
  proof (rule regs_less_self)
    show "regs_inv rs" using inv by (simp add: regs_inv_Cons)
    show "\<forall>s\<in>set rs. reg_span s \<inter> {x..<x + unat sz} = {}"
      using inv c(3) reg_disjoint_span by (fastforce simp: regs_inv_Cons)
  qed
  then show ?thesis
    using c(2) cut \<open>P r\<close> by (auto simp: regs_cut_def cut_from_def)
qed

lemma regs_cut_later:
  assumes inv: "regs_inv (r # rs)" and cut: "regs_cut P x s rs rs'"
  shows "regs_cut P x s (r # rs) (r # rs')"
proof -
  have "{x..<x + s} \<subseteq> regs_bytes rs"
    using cut by (auto simp: regs_cut_def regs_bytes_def)
  then have "reg_less {x..<x + s} r r"
    using regs_bytes_disjoint [OF inv] inv by (intro reg_less_self) (auto simp: regs_inv_Cons)
  then show ?thesis
    using cut by (auto simp: regs_cut_def)
qed

lemma regs_cut_inv:
  assumes "regs_inv rs" "regs_cut P x s rs rs'"
  shows "regs_inv rs'"
proof (rule regs_same_inv)
  show "list_all2 reg_same rs' rs"
    using assms(2) by (auto simp: regs_cut_def reg_less_def elim: list_all2_mono)
  show "list_all reg_inv rs'"
    using assms(2) by (auto simp: regs_cut_def reg_less_def list_all_length list_all2_conv_all_nth)
qed fact

lemma regs_less_filter_bytes:
  "list_all2 (reg_less B) rs' rs \<Longrightarrow>
     regs_bytes (filter (reg_ok_for f) rs') = regs_bytes (filter (reg_ok_for f) rs) - B"
proof (induction rs' rs rule: list_all2_induct)
  case Nil
  then show ?case by simp
next
  case (Cons r' rs' r rs)
  then show ?case by (auto simp: reg_less_def reg_same_def reg_ok_for_def)
qed

lemma regs_less_bytes:
  "list_all2 (reg_less B) rs' rs \<Longrightarrow> regs_bytes rs' = regs_bytes rs - B"
  using regs_less_filter_bytes [of B rs' rs 0] by (simp add: reg_ok_for_def)

subsection \<open>\<open>lmm_alloc\<close>\<close>

lemma lmm_alloc_regions_hit:
  assumes "regs_inv rs" "8 dvd unat sz" "0 < unat sz"
    and "\<exists>r\<in>set rs. reg_ok_for flags r \<and> (\<exists>n\<in>set (reg_nodes r). sz \<le> node_size n)"
  shows "\<exists>a rs'. lmm_alloc_regions sz flags rs = Some (a, rs') \<and>
    regs_cut (reg_ok_for flags) (unat a) (unat sz) rs rs'"
  using assms
proof (induction rs)
  case Nil
  then show ?case by simp
next
  case (Cons r rs)
  have r: "reg_inv r" using Cons.prems(1) by (simp add: regs_inv_Cons)
  then have chain: "chain (max 1 (unat (reg_min r))) (unat (reg_max r)) (reg_nodes r)"
    by (simp add: reg_inv_def)
  note nodes = lmm_alloc_nodes_ok [OF chain Cons.prems(2,3)]
  show ?case
  proof (cases "reg_ok_for flags r \<and> (\<exists>n\<in>set (reg_nodes r). sz \<le> node_size n)")
    case True
    then obtain a ns' where a: "lmm_alloc_nodes r sz (reg_nodes r) = Some (Some (a, ns'))"
      and cut: "cut_from (max 1 (unat (reg_min r))) (unat (reg_max r)) (unat a) (unat sz) (reg_nodes r) ns'"
      using nodes by auto
    show ?thesis
      using True a cut_region(1) [OF r cut] regs_cut_here [OF Cons.prems(1) _ cut]
      by (simp add: r reg_ok_for_def)
  next
    case False
    then have "(if flags AND NOT (reg_flags r) \<noteq> 0 then Some None
        else lmm_alloc_nodes r sz (reg_nodes r)) = Some None"
      using nodes by (auto simp: reg_ok_for_def)
    moreover obtain a rs' where "lmm_alloc_regions sz flags rs = Some (a, rs')"
      "regs_cut (reg_ok_for flags) (unat a) (unat sz) rs rs'"
      using Cons False by (auto simp: regs_inv_Cons)
    ultimately show ?thesis
      using regs_cut_later [OF Cons.prems(1)] by (simp add: r)
  qed
qed

lemma lmm_alloc_regions_miss:
  assumes "regs_inv rs" "8 dvd unat sz" "0 < unat sz"
    and "\<not> (\<exists>r\<in>set rs. reg_ok_for flags r \<and> (\<exists>n\<in>set (reg_nodes r). sz \<le> node_size n))"
  shows "lmm_alloc_regions sz flags rs = Some (0, rs)"
  using assms
proof (induction rs)
  case Nil
  then show ?case by simp
next
  case (Cons r rs)
  have r: "reg_inv r" using Cons.prems(1) by (simp add: regs_inv_Cons)
  then have chain: "chain (max 1 (unat (reg_min r))) (unat (reg_max r)) (reg_nodes r)"
    by (simp add: reg_inv_def)
  have "(if flags AND NOT (reg_flags r) \<noteq> 0 then Some None
      else lmm_alloc_nodes r sz (reg_nodes r)) = Some None"
    using lmm_alloc_nodes_ok [OF chain Cons.prems(2,3)] Cons.prems(4) by (auto simp: reg_ok_for_def)
  with Cons r show ?case by (auto simp: regs_inv_Cons)
qed

end
