(* ===== verification/LMM_AllocGen.thy ===== *)
theory LMM_AllocGen
  imports LMM_Alloc
begin

text \<open>
  Correctness of \<open>lmm_alloc_gen\<close> with alignment and range constraints, and of its
  front ends \<open>lmm_alloc_aligned\<close> and \<open>lmm_alloc_page\<close>: the search finds an admissible
  placement exactly when there is one.
\<close>

section \<open>The alignment loop\<close>

lemma bit_xor_offset:
  fixes b q :: int
  shows "bit (b XOR (b + 2 ^ k * q)) k \<longleftrightarrow> odd q"
proof -
  have "(b + 2 ^ k * q) div 2 ^ k = b div 2 ^ k + q"
    by simp
  then have "bit (b + 2 ^ k * q) k \<longleftrightarrow> odd (b div 2 ^ k + q)"
    by (simp only: bit_iff_odd)
  moreover have "bit b k \<longleftrightarrow> odd (b div 2 ^ k)"
    by (simp only: bit_iff_odd)
  ultimately show ?thesis
    by (auto simp: bit_xor_iff)
qed

lemma lmm_align_step_int:
  fixes a ofs :: addr
  assumes "k < 32"
  shows "lmm_align_step ofs k (word_of_int (uint a + take_bit k (uint ofs - uint a))) =
    word_of_int (uint a + take_bit (Suc k) (uint ofs - uint a))"
proof -
  define d where "d = uint ofs - uint a"
  define b where "b = uint a + take_bit k d"
  have "take_bit k d + 2 ^ k * (d div 2 ^ k) = d"
    by (simp add: take_bit_eq_mod)
  then have ofs: "uint ofs = b + 2 ^ k * (d div 2 ^ k)"
    by (simp add: b_def d_def)
  have "bit (word_of_int b XOR ofs) k \<longleftrightarrow> bit (b XOR uint ofs) k"
    using assms by (simp add: bit_simps)
  also have "\<dots> \<longleftrightarrow> bit d k"
    unfolding ofs bit_xor_offset by (simp add: bit_iff_odd)
  finally have bit: "(word_of_int b XOR ofs) AND push_bit k 1 \<noteq> 0 \<longleftrightarrow> bit d k"
    by (simp only: bit_iff_and_push_bit_not_eq_0)
  have "lmm_align_step ofs k (word_of_int b) =
      (if bit d k then word_of_int b + push_bit k 1 else word_of_int b)"
    unfolding lmm_align_step_def Let_def bit ..
  also have "\<dots> = word_of_int (b + 2 ^ k * of_bool (bit d k))"
    by simp
  also have "b + 2 ^ k * of_bool (bit d k) = uint a + take_bit (Suc k) d"
    by (simp add: b_def take_bit_Suc_from_most)
  finally show ?thesis
    by (simp only: b_def d_def)
qed

lemma lmm_align_int:
  "k \<le> 32 \<Longrightarrow> lmm_align k ofs a = word_of_int (uint a + take_bit k (uint ofs - uint a))"
proof (induction k)
  case 0
  then show ?case by (simp add: lmm_align_def)
next
  case (Suc k)
  have "lmm_align (Suc k) ofs a = lmm_align_step ofs k (lmm_align k ofs a)"
    by (simp add: lmm_align_def)
  then show ?case using Suc lmm_align_step_int [of k ofs a] by (simp del: of_int_add)
qed

lemma lmm_align_add:
  assumes "k \<le> 32"
  obtains j where "j < 2 ^ k" "lmm_align k ofs a = a + of_nat j"
    "(unat a + j) mod 2 ^ k = unat ofs mod 2 ^ k"
    "\<And>x. unat a \<le> x \<Longrightarrow> x mod 2 ^ k = unat ofs mod 2 ^ k \<Longrightarrow> unat a + j \<le> x"
proof
  define j where "j = nat (take_bit k (uint ofs - uint a))"
  have j: "int j = take_bit k (uint ofs - uint a)"
    by (simp add: j_def)
  show "j < 2 ^ k"
    using take_bit_int_less_exp [of k "uint ofs - uint a"] by (simp add: j_def nat_less_iff)
  show eq: "lmm_align k ofs a = a + of_nat j"
    using j assms by (simp add: lmm_align_int flip: j)
  have j_mod: "int j = (int (unat ofs) - int (unat a)) mod 2 ^ k"
    by (simp add: j take_bit_eq_mod)
  have "int ((unat a + j) mod 2 ^ k) = int (unat ofs mod 2 ^ k)"
    by (simp add: zmod_int j_mod mod_simps)
  then show "(unat a + j) mod 2 ^ k = unat ofs mod 2 ^ k"
    by (simp only: of_nat_eq_iff)
  fix x assume x: "unat a \<le> x" "x mod 2 ^ k = unat ofs mod 2 ^ k"
  then have "int x mod 2 ^ k = int (unat ofs) mod 2 ^ k"
    by (metis of_nat_mod of_nat_numeral of_nat_power)
  then have "(int x - int (unat a)) mod 2 ^ k = int j"
    unfolding j_mod by (metis mod_diff_left_eq)
  then have "int j \<le> int x - int (unat a)"
    using x(1) by (metis diff_ge_0_iff_ge of_nat_le_iff zmod_le_nonneg_dividend)
  then show "unat a + j \<le> x" by linarith
qed

section \<open>The node loop\<close>

text \<open>The placement that \<open>lmm_alloc_gen\<close> computes inside a block: the least address \<open>X\<close> that
  is not below the block or \<open>in_min\<close> and has the required alignment.  The bound on the
  region size keeps the sum \<open>addr - node + size\<close> from wrapping.\<close>

lemma lmm_alloc_gen_addr:
  assumes ok: "node_ok lo (unat (reg_max r)) n"
    and small: "unat imin + unat sz + 2 ^ k \<le> 2 ^ 32"
  obtains X where
    "nbeg n \<le> X" "unat imin \<le> X" "X mod 2 ^ k = unat ofs mod 2 ^ k"
    "\<And>x. nbeg n \<le> x \<Longrightarrow> unat imin \<le> x \<Longrightarrow> x mod 2 ^ k = unat ofs mod 2 ^ k \<Longrightarrow> X \<le> x"
    "lmm_align k ofs (if node_addr n < imin then imin else node_addr n) - node_addr n + sz > node_size n
       \<longleftrightarrow> X + unat sz > nend n"
    "X + unat sz \<le> nend n \<Longrightarrow>
       unat (lmm_align k ofs (if node_addr n < imin then imin else node_addr n)) = X"
proof -
  define a where "a = (if node_addr n < imin then imin else node_addr n)"
  have a: "unat a = max (nbeg n) (unat imin)"
    by (auto simp: a_def wnat)
  have k: "k \<le> 32"
    using small power_le_imp_le_exp [of "2::nat" k 32] by simp
  obtain j where j: "j < 2 ^ k" "lmm_align k ofs a = a + of_nat j"
    "(unat a + j) mod 2 ^ k = unat ofs mod 2 ^ k"
    "\<And>x. unat a \<le> x \<Longrightarrow> x mod 2 ^ k = unat ofs mod 2 ^ k \<Longrightarrow> unat a + j \<le> x"
    using lmm_align_add [OF k, of ofs a] by metis
  define X where "X = unat a + j"
  have n: "lo \<le> nbeg n" "nend n \<le> unat (reg_max r)"
    using ok by (auto simp: node_ok_def)
  have d: "X - nbeg n < unat imin + 2 ^ k"
    using a j(1) unfolding X_def by linarith
  have "nbeg n \<le> unat a" using a by simp
  have "lmm_align k ofs a - node_addr n + sz = of_nat (X - nbeg n + unat sz)"
    using \<open>nbeg n \<le> unat a\<close> by (simp add: j(2) X_def of_nat_diff trans_le_add1)
  moreover have "X - nbeg n + unat sz < 2 ^ 32"
    using d small by linarith
  ultimately have sum: "unat (lmm_align k ofs a - node_addr n + sz) = X - nbeg n + unat sz"
    by (simp only: unat_of_nat_u32)
  show ?thesis
  proof (rule that [of X, folded a_def])
    show "nbeg n \<le> X" "unat imin \<le> X" using a by (auto simp: X_def)
    then show "lmm_align k ofs a - node_addr n + sz > node_size n \<longleftrightarrow> X + unat sz > nend n"
      by (auto simp: word_less_nat_alt sum nend_def)
    show "X mod 2 ^ k = unat ofs mod 2 ^ k" using j(3) by (simp add: X_def)
    show "X \<le> x" if "nbeg n \<le> x" "unat imin \<le> x" "x mod 2 ^ k = unat ofs mod 2 ^ k" for x
      using j(4) that a by (simp add: X_def)
    assume "X + unat sz \<le> nend n"
    then have "X < 2 ^ 32"
      using n(2) by (intro le_unat_less [of _ "reg_max r"]) simp
    moreover have "lmm_align k ofs a = of_nat X"
      by (simp add: j(2) X_def)
    ultimately show "unat (lmm_align k ofs a) = X"
      by (simp only: unat_of_nat_u32)
  qed
qed

text \<open>An admissible placement for \<open>lmm_alloc_gen\<close>.\<close>

definition gen_fits :: "nat \<Rightarrow> addr \<Rightarrow> addr \<Rightarrow> addr \<Rightarrow> u32 \<Rightarrow> nat \<Rightarrow> bool" where
  "gen_fits k ofs imin imax sz x \<longleftrightarrow>
     x mod 2 ^ k = unat ofs mod 2 ^ k \<and> unat imin \<le> x \<and> x + unat sz \<le> unat imax"

lemma lmm_alloc_gen_nodes_head:
  assumes c: "chain lo (unat (reg_max r)) (n # ns)" and sz: "0 < unat sz" "sz \<le> node_size n"
    and X: "nbeg n \<le> X" "X + unat sz \<le> nend n"
    and addr: "addr = lmm_align k ofs (if node_addr n < imin then imin else node_addr n)" "unat addr = X"
    and nogt: "\<not> addr - node_addr n + sz > node_size n"
    and imax: "X + unat sz \<le> unat imax" and hi: "8 dvd unat (reg_max r)"
  shows "\<exists>sz' ns'. lmm_alloc_gen_nodes r sz k ofs imin imax (n # ns) = Some (Some (addr, sz', ns')) \<and>
    cut_from lo (unat (reg_max r)) (round_down 8 X) (unat sz') (n # ns) ns' \<and>
    round_down 8 X + unat sz' = round_up 8 (X + unat sz)"
proof -
  let ?hi = "unat (reg_max r)"
  have ok: "node_ok lo ?hi n" using c by (simp add: chain_Cons)
  have dn: "8 dvd nbeg n" "8 dvd nend n" "nend n \<le> ?hi" "0 < nlen n"
    using ok by (auto simp: node_ok_def nend_def)
  have hi8: "?hi + 8 \<le> 2 ^ 32"
    using hi by (intro dvd_less_imp_add_le) auto
  define anode where "anode = addr AND NOT ALIGN_MASK"
  define sz' where "sz' = ((addr AND ALIGN_MASK) + sz + ALIGN_MASK) AND NOT ALIGN_MASK"
  have an: "unat anode = round_down 8 X" by (simp add: anode_def addr(2))
  have an_ge: "nbeg n \<le> unat anode"
    using dn X by (simp add: an round_down_greatest)
  have sum: "unat (addr AND ALIGN_MASK) + unat sz + 7 < 2 ^ 32"
    using X dn(3) hi8 addr(2) by (simp add: trans_le_add1)
  then have "unat ((addr AND ALIGN_MASK) + sz) = X mod 8 + unat sz"
    by (subst unat_add_nowrap) (auto simp: addr(2))
  then have sz': "unat sz' = round_up 8 (X mod 8 + unat sz)"
    unfolding sz'_def using sum by (subst unat_round_up) (auto simp: addr(2))
  have eq: "round_down 8 X + unat sz' = round_up 8 (X + unat sz)"
    by (simp add: sz' round_block)
  have le: "round_down 8 X + unat sz' \<le> nend n"
    using dn(2) X(2) by (simp add: eq round_up_least)
  have sz'_pos: "0 < unat sz'"
    using sz round_up_ge [of 8 "X mod 8 + unat sz"] by (simp add: sz')
  let ?p = "n\<lparr>node_size := anode - node_addr n\<rparr>"
  let ?asize = "node_size n - (anode - node_addr n)"
  let ?q = "\<lparr>node_addr = anode + sz', node_size = ?asize - sz'\<rparr>"
  have sp: "unat (anode - node_addr n) = unat anode - nbeg n"
    using an_ge by (rule unat_diff_nowrap)
  have as: "unat ?asize = nend n - unat anode"
    using an_ge le an by (subst unat_diff_nowrap) (auto simp: sp nend_def)
  have q1: "unat (anode + sz') = unat anode + unat sz'"
    using le dn(3) an by (intro unat_add_nowrap) (simp add: le_unat_less [of _ "reg_max r", simplified])
  have q2: "unat (?asize - sz') = nend n - (unat anode + unat sz')"
    using le as an by (subst unat_diff_nowrap) auto
  have cut: "cut_from lo ?hi (round_down 8 X) (unat sz') (n # ns)
     ((if nbeg n < round_down 8 X then [?p] else []) @
      (if round_down 8 X + unat sz' < nend n then [?q] else []) @ ns)"
  proof (rule cut_from_head [OF c])
    show "nend ?p = round_down 8 X" "nbeg ?q = round_down 8 X + unat sz'" "nend ?q = nend n"
      using an_ge le by (auto simp: nend_def sp an [symmetric] q1 q2)
    show "8 dvd unat sz'" by (simp add: sz' round_up_dvd)
  qed (use an an_ge le sz'_pos round_down_dvd in auto)
  have conds: "nbeg n < round_down 8 X \<longleftrightarrow> node_addr n < anode"
    "round_down 8 X + unat sz' < nend n \<longleftrightarrow> sz' < ?asize" "node_addr n \<le> anode"
    using an_ge by (auto simp: word_less_nat_alt word_le_nat_alt an as [unfolded an])
  have split_al: "(anode - node_addr n) AND ALIGN_MASK = 0"
    using dn(1) by (simp add: and_ALIGN_MASK_eq_0_iff sp an round_down_dvd)
  have asize0: "?asize = node_size n" if "\<not> node_addr n < anode"
    using that conds(3) by simp
  have "unat (addr + sz) = X + unat sz"
    using X(2) dn(3) addr(2) le_unat_less [of "X + unat sz" "reg_max r"]
    by (subst unat_add_nowrap) auto
  then have noimax: "\<not> addr + sz > imax" using imax by (simp add: word_less_nat_alt)
  have "lmm_alloc_gen_nodes r sz k ofs imin imax (n # ns) =
     Some (Some (addr, sz', (if node_addr n < anode then [?p] else []) @
       (if sz' < ?asize then [?q] else []) @ ns))"
    unfolding lmm_alloc_gen_nodes.simps check_node_ok [OF c] Let_def addr(1) [symmetric]
      anode_def [symmetric] sz'_def [symmetric]
    using leD [OF sz(2)] nogt noimax conds(3) split_al asize0 by simp
  with cut eq show ?thesis unfolding conds by blast
qed

lemma lmm_alloc_gen_nodes_skip:
  assumes c: "chain lo (unat (reg_max r)) (n # ns)"
    and skip: "node_size n < sz \<or>
      lmm_align k ofs (if node_addr n < imin then imin else node_addr n) - node_addr n + sz > node_size n"
  shows "lmm_alloc_gen_nodes r sz k ofs imin imax (n # ns) =
    lmm_alloc_gen_nodes r sz k ofs imin imax ns \<bind>
      (\<lambda>r. Some (map_option (\<lambda>(a, s, ns). (a, s, n # ns)) r))"
  unfolding lmm_alloc_gen_nodes.simps check_node_ok [OF c] Let_def using skip by (elim disjE) simp_all

lemma lmm_alloc_gen_nodes_break:
  assumes c: "chain lo (unat (reg_max r)) (n # ns)" and "sz \<le> node_size n"
    and "\<not> addr - node_addr n + sz > node_size n" "addr + sz > imax"
    and addr: "addr = lmm_align k ofs (if node_addr n < imin then imin else node_addr n)"
  shows "lmm_alloc_gen_nodes r sz k ofs imin imax (n # ns) = Some None"
  unfolding lmm_alloc_gen_nodes.simps check_node_ok [OF c] Let_def addr [symmetric]
  using leD [OF assms(2)] assms(3,4) by simp

text \<open>The result of the node loop: a placement that fits, or proof that none exists.\<close>

definition gen_hit ::
    "lmm_region \<Rightarrow> nat \<Rightarrow> nat \<Rightarrow> addr \<Rightarrow> addr \<Rightarrow> addr \<Rightarrow> u32 \<Rightarrow> lmm_node list \<Rightarrow> bool" where
  "gen_hit r lo k ofs imin imax sz ns \<longleftrightarrow>
     (\<exists>a sz' ns'. lmm_alloc_gen_nodes r sz k ofs imin imax ns = Some (Some (a, sz', ns')) \<and>
        gen_fits k ofs imin imax sz (unat a) \<and>
        cut_from lo (unat (reg_max r)) (round_down 8 (unat a)) (unat sz') ns ns' \<and>
        round_down 8 (unat a) + unat sz' = round_up 8 (unat a + unat sz))"

definition gen_miss ::
    "lmm_region \<Rightarrow> nat \<Rightarrow> addr \<Rightarrow> addr \<Rightarrow> addr \<Rightarrow> u32 \<Rightarrow> lmm_node list \<Rightarrow> bool" where
  "gen_miss r k ofs imin imax sz ns \<longleftrightarrow>
     lmm_alloc_gen_nodes r sz k ofs imin imax ns = Some None \<and>
     (\<forall>x. gen_fits k ofs imin imax sz x \<longrightarrow> \<not> {x..<x + unat sz} \<subseteq> bytes ns)"

lemma gen_skip_outcome:
  assumes c: "chain lo (unat (reg_max r)) (n # ns)" and sz: "0 < unat sz"
    and skip: "node_size n < sz \<or>
      lmm_align k ofs (if node_addr n < imin then imin else node_addr n) - node_addr n + sz > node_size n"
    and nofit: "\<And>x. gen_fits k ofs imin imax sz x \<Longrightarrow> nbeg n \<le> x \<Longrightarrow> nend n < x + unat sz"
    and IH: "gen_hit r lo k ofs imin imax sz ns \<or> gen_miss r k ofs imin imax sz ns"
  shows "gen_hit r lo k ofs imin imax sz (n # ns) \<or> gen_miss r k ofs imin imax sz (n # ns)"
  using IH
proof
  assume "gen_hit r lo k ofs imin imax sz ns"
  then have "gen_hit r lo k ofs imin imax sz (n # ns)"
    unfolding gen_hit_def lmm_alloc_gen_nodes_skip [OF c skip]
    using cut_from_Cons [OF c] by fastforce
  then show ?thesis ..
next
  assume miss: "gen_miss r k ofs imin imax sz ns"
  have "\<not> {x..<x + unat sz} \<subseteq> bytes (n # ns)" if fits: "gen_fits k ofs imin imax sz x" for x
  proof
    assume "{x..<x + unat sz} \<subseteq> bytes (n # ns)"
    then obtain m where m: "m \<in> set (n # ns)" "nbeg m \<le> x" "x + unat sz \<le> nend m"
      using chain_interval [OF c, of x "x + unat sz"] sz by auto
    have "m \<noteq> n" using m nofit [OF fits] by auto
    then have "{x..<x + unat sz} \<subseteq> bytes ns"
      using m by (auto simp: bytes_def node_bytes_def intro!: bexI [of _ m])
    then show False using miss fits by (simp add: gen_miss_def)
  qed
  then have "gen_miss r k ofs imin imax sz (n # ns)"
    unfolding gen_miss_def lmm_alloc_gen_nodes_skip [OF c skip]
    using miss by (simp add: gen_miss_def)
  then show ?thesis ..
qed

lemma lmm_alloc_gen_nodes_ok:
  assumes "chain lo (unat (reg_max r)) ns" "8 dvd unat (reg_max r)"
    and "0 < unat sz" "unat imin + unat sz + 2 ^ k \<le> 2 ^ 32"
  shows "gen_hit r lo k ofs imin imax sz ns \<or> gen_miss r k ofs imin imax sz ns"
  using assms(1)
proof (induction ns)
  case Nil
  then show ?case using assms(3) by (auto simp: gen_miss_def)
next
  case (Cons n ns)
  have ok: "node_ok lo (unat (reg_max r)) n" and ns: "chain lo (unat (reg_max r)) ns"
    using Cons.prems by (auto simp: chain_Cons)
  note IH = Cons.IH [OF ns]
  show ?case
  proof (cases "node_size n < sz")
    case True
    then show ?thesis
      by (intro gen_skip_outcome [OF Cons.prems assms(3) _ _ IH]) (auto simp: nend_def wnat)
  next
    case False
    then have sz: "sz \<le> node_size n" by simp
    define addr where "addr = lmm_align k ofs (if node_addr n < imin then imin else node_addr n)"
    obtain X where X: "nbeg n \<le> X" "unat imin \<le> X" "X mod 2 ^ k = unat ofs mod 2 ^ k"
      "\<And>x. nbeg n \<le> x \<Longrightarrow> unat imin \<le> x \<Longrightarrow> x mod 2 ^ k = unat ofs mod 2 ^ k \<Longrightarrow> X \<le> x"
      "addr - node_addr n + sz > node_size n \<longleftrightarrow> X + unat sz > nend n"
      "X + unat sz \<le> nend n \<Longrightarrow> unat addr = X"
      using lmm_alloc_gen_addr [OF ok assms(4), of ofs, folded addr_def] by blast
    show ?thesis
    proof (cases "X + unat sz > nend n")
      case True
      then have "addr - node_addr n + sz > node_size n" using X(5) by simp
      moreover have "nend n < x + unat sz" if "gen_fits k ofs imin imax sz x" "nbeg n \<le> x" for x
        using X(4) [of x] that True by (simp add: gen_fits_def)
      ultimately show ?thesis
        by (intro gen_skip_outcome [OF Cons.prems assms(3) _ _ IH]) (auto simp: addr_def)
    next
      case in_node: False
      then have addr: "unat addr = X" "\<not> addr - node_addr n + sz > node_size n"
        using X(5,6) by auto
      show ?thesis
      proof (cases "X + unat sz \<le> unat imax")
        case True
        have "gen_fits k ofs imin imax sz (unat addr)"
          using X(2,3) True addr(1) by (simp add: gen_fits_def)
        then show ?thesis
          using lmm_alloc_gen_nodes_head [OF Cons.prems assms(3) sz X(1) _ addr_def addr True assms(2)]
            in_node addr(1) unfolding gen_hit_def by fastforce
      next
        case False
        have "unat (addr + sz) = X + unat sz"
          using in_node ok addr(1) le_unat_less [of "X + unat sz" "reg_max r"]
          by (subst unat_add_nowrap) (auto simp: node_ok_def)
        then have "addr + sz > imax" using False by (simp add: word_less_nat_alt)
        note break = lmm_alloc_gen_nodes_break [OF Cons.prems sz addr(2) this addr_def]
        have "\<not> {x..<x + unat sz} \<subseteq> bytes (n # ns)" if fits: "gen_fits k ofs imin imax sz x" for x
        proof
          assume "{x..<x + unat sz} \<subseteq> bytes (n # ns)"
          then obtain m where m: "m \<in> set (n # ns)" "nbeg m \<le> x" "x + unat sz \<le> nend m"
            using chain_interval [OF Cons.prems, of x "x + unat sz"] assms(3) by auto
          then have "X \<le> x"
            using X(4) [of x] fits Cons.prems in_node by (auto simp: gen_fits_def chain_Cons)
          then show False using False fits by (simp add: gen_fits_def)
        qed
        with break show ?thesis by (simp add: gen_miss_def)
      qed
    qed
  qed
qed

section \<open>The region loop\<close>

definition blk_beg :: "nat \<Rightarrow> nat" where
  "blk_beg a = round_down 8 a"

definition blk_len :: "nat \<Rightarrow> nat \<Rightarrow> nat" where
  "blk_len a s = round_up 8 (a + s) - round_down 8 a"

lemma blk_end: "blk_beg a + blk_len a s = round_up 8 (a + s)"
  using round_down_le [of 8 a] round_up_ge [of 8 "a + s"] by (simp add: blk_beg_def blk_len_def)

definition regs_gen_hit ::
    "u32 \<Rightarrow> u32 \<Rightarrow> nat \<Rightarrow> addr \<Rightarrow> addr \<Rightarrow> addr \<Rightarrow> lmm_region list \<Rightarrow> bool" where
  "regs_gen_hit sz flags k ofs imin imax rs \<longleftrightarrow>
     (\<exists>a rs'. lmm_alloc_gen_regions sz flags k ofs imin imax rs = Some (a, rs') \<and>
        gen_fits k ofs imin imax sz (unat a) \<and>
        regs_cut (reg_ok_for flags) (blk_beg (unat a)) (blk_len (unat a) (unat sz)) rs rs')"

definition regs_gen_miss ::
    "u32 \<Rightarrow> u32 \<Rightarrow> nat \<Rightarrow> addr \<Rightarrow> addr \<Rightarrow> addr \<Rightarrow> lmm_region list \<Rightarrow> bool" where
  "regs_gen_miss sz flags k ofs imin imax rs \<longleftrightarrow>
     lmm_alloc_gen_regions sz flags k ofs imin imax rs = Some (0, rs) \<and>
     (\<forall>r\<in>set rs. reg_ok_for flags r \<longrightarrow>
        (\<forall>x. gen_fits k ofs imin imax sz x \<longrightarrow> \<not> {x..<x + unat sz} \<subseteq> bytes (reg_nodes r)))"

text \<open>A region that the first test of the loop skips cannot hold the block.\<close>

lemma gen_reject:
  assumes "reg_inv r" "reg_min r \<ge> imax \<or> reg_max r \<le> imin" "0 < unat sz"
    "gen_fits k ofs imin imax sz x"
  shows "\<not> {x..<x + unat sz} \<subseteq> bytes (reg_nodes r)"
proof
  assume "{x..<x + unat sz} \<subseteq> bytes (reg_nodes r)"
  then have "{x..<x + unat sz} \<subseteq> reg_span r"
    using reg_inv_bytes [OF assms(1)] by blast
  then have "x \<in> reg_span r" using assms(3) by auto
  then show False
    using assms(2-4) by (auto simp: reg_span_def gen_fits_def wnat)
qed

lemma lmm_alloc_gen_regions_ok:
  assumes "regs_inv rs" "unat imin + unat sz + 2 ^ k \<le> 2 ^ 32" "0 < unat sz"
  shows "regs_gen_hit sz flags k ofs imin imax rs \<or> regs_gen_miss sz flags k ofs imin imax rs"
  using assms
proof (induction rs)
  case Nil
  then show ?case by (simp add: regs_gen_miss_def)
next
  case (Cons r rs)
  have r: "reg_inv r" and inv: "regs_inv rs"
    using Cons.prems(1) by (auto simp: regs_inv_Cons)
  let ?lo = "max 1 (unat (reg_min r))"
  let ?reject = "flags AND NOT (reg_flags r) \<noteq> 0 \<or> reg_min r \<ge> imax \<or> reg_max r \<le> imin"
  let ?R = "if ?reject then Some None else lmm_alloc_gen_nodes r sz k ofs imin imax (reg_nodes r)"
  consider (hit) "\<not> ?reject" "gen_hit r ?lo k ofs imin imax sz (reg_nodes r)"
    | (miss) "?R = Some None" "reg_ok_for flags r \<longrightarrow>
        (\<forall>x. gen_fits k ofs imin imax sz x \<longrightarrow> \<not> {x..<x + unat sz} \<subseteq> bytes (reg_nodes r))"
  proof (cases ?reject)
    case True
    show thesis
    proof (rule miss)
      show "?R = Some None" using True by simp
      show "reg_ok_for flags r \<longrightarrow>
          (\<forall>x. gen_fits k ofs imin imax sz x \<longrightarrow> \<not> {x..<x + unat sz} \<subseteq> bytes (reg_nodes r))"
        using True gen_reject [OF r _ Cons.prems(3)] unfolding reg_ok_for_def by blast
    qed
  next
    case False
    then have "gen_hit r ?lo k ofs imin imax sz (reg_nodes r) \<or>
        gen_miss r k ofs imin imax sz (reg_nodes r)"
      using r Cons.prems(2,3) by (intro lmm_alloc_gen_nodes_ok) (auto simp: reg_inv_def)
    then show thesis using hit miss False by (auto simp: gen_miss_def)
  qed
  then show ?case
  proof cases
    case hit
    then obtain a sz' ns' where
      a: "lmm_alloc_gen_nodes r sz k ofs imin imax (reg_nodes r) = Some (Some (a, sz', ns'))"
      and fits: "gen_fits k ofs imin imax sz (unat a)"
      and cut: "cut_from ?lo (unat (reg_max r)) (round_down 8 (unat a)) (unat sz') (reg_nodes r) ns'"
      and blk: "round_down 8 (unat a) + unat sz' = round_up 8 (unat a + unat sz)"
      by (auto simp: gen_hit_def)
    have sz': "unat sz' = blk_len (unat a) (unat sz)"
      using blk by (simp add: blk_len_def)
    have "reg_ok_for flags r" using hit(1) by (simp add: reg_ok_for_def)
    then have "regs_gen_hit sz flags k ofs imin imax (r # rs)"
      unfolding regs_gen_hit_def
      using hit(1) a fits cut_region(1) [OF r cut] regs_cut_here [OF Cons.prems(1) _ cut]
      by (simp add: r sz' blk_beg_def)
    then show ?thesis ..
  next
    case miss
    then have step: "lmm_alloc_gen_regions sz flags k ofs imin imax (r # rs) =
        lmm_alloc_gen_regions sz flags k ofs imin imax rs \<bind> (\<lambda>(p, rs'). Some (p, r # rs'))"
      by (simp add: r del: if_split)
    from Cons.IH [OF inv Cons.prems(2,3)] show ?thesis
    proof
      assume "regs_gen_hit sz flags k ofs imin imax rs"
      then have "regs_gen_hit sz flags k ofs imin imax (r # rs)"
        unfolding regs_gen_hit_def step using regs_cut_later [OF Cons.prems(1)] by fastforce
      then show ?thesis ..
    next
      assume "regs_gen_miss sz flags k ofs imin imax rs"
      then have "regs_gen_miss sz flags k ofs imin imax (r # rs)"
        unfolding regs_gen_miss_def step using miss(2) by simp
      then show ?thesis ..
    qed
  qed
qed

section \<open>The specifications\<close>

lemma regs_cut_pool:
  assumes "lmm_inv lmm" "regs_cut (reg_ok_for flags) x s (regions lmm) rs"
  shows "lmm_inv (lmm\<lparr>regions := rs\<rparr>)"
    and "{x..<x + s} \<subseteq> free_bytes_for flags lmm"
    and "free_bytes (lmm\<lparr>regions := rs\<rparr>) = free_bytes lmm - {x..<x + s}"
    and "free_bytes_for f (lmm\<lparr>regions := rs\<rparr>) = free_bytes_for f lmm - {x..<x + s}"
proof -
  have less: "list_all2 (reg_less {x..<x + s}) rs (regions lmm)"
    using assms(2) by (simp add: regs_cut_def)
  show "lmm_inv (lmm\<lparr>regions := rs\<rparr>)"
    using assms regs_cut_inv [OF _ assms(2)] by (simp add: lmm_inv_def)
  show "{x..<x + s} \<subseteq> free_bytes_for flags lmm"
    using assms(2) by (auto simp: regs_cut_def free_bytes_for_def regs_bytes_def)
  show "free_bytes (lmm\<lparr>regions := rs\<rparr>) = free_bytes lmm - {x..<x + s}"
    using regs_less_bytes [OF less] by (simp add: free_bytes_def)
  show "free_bytes_for f (lmm\<lparr>regions := rs\<rparr>) = free_bytes_for f lmm - {x..<x + s}"
    using regs_less_filter_bytes [OF less] by (simp add: free_bytes_for_def)
qed

lemma lmm_alloc_gen_spec:
  assumes "lmm_inv lmm" "unat imin + unat sz + 2 ^ k \<le> 2 ^ 32" "0 < unat sz"
  shows "\<exists>p rs. lmm_alloc_gen lmm sz flags k ofs imin isz = Some (p, lmm\<lparr>regions := rs\<rparr>) \<and>
    (if \<exists>r\<in>set (regions lmm). \<exists>x. reg_ok_for flags r \<and>
          gen_fits k ofs imin (imin + isz) sz x \<and> {x..<x + unat sz} \<subseteq> bytes (reg_nodes r)
     then gen_fits k ofs imin (imin + isz) sz (unat p) \<and> p \<noteq> 0 \<and>
       regs_cut (reg_ok_for flags) (blk_beg (unat p)) (blk_len (unat p) (unat sz)) (regions lmm) rs
     else p = 0 \<and> rs = regions lmm)"
proof -
  have sz: "sz > 0" using assms(3) by (simp add: word_less_nat_alt)
  have inv: "regs_inv (regions lmm)" using assms(1) by (simp add: lmm_inv_def)
  from lmm_alloc_gen_regions_ok [OF inv assms(2,3)] show ?thesis
  proof
    assume "regs_gen_hit sz flags k ofs imin (imin + isz) (regions lmm)"
    then obtain a rs where a: "lmm_alloc_gen_regions sz flags k ofs imin (imin + isz) (regions lmm) = Some (a, rs)"
      and fits: "gen_fits k ofs imin (imin + isz) sz (unat a)"
      and cut: "regs_cut (reg_ok_for flags) (blk_beg (unat a)) (blk_len (unat a) (unat sz)) (regions lmm) rs"
      unfolding regs_gen_hit_def by blast
    have "{unat a..<unat a + unat sz} \<subseteq> {blk_beg (unat a)..<blk_beg (unat a) + blk_len (unat a) (unat sz)}"
      unfolding blk_end using round_down_le [of 8 "unat a"] round_up_ge [of 8 "unat a + unat sz"]
      by (auto simp: blk_beg_def)
    then have "\<exists>r\<in>set (regions lmm). \<exists>x. reg_ok_for flags r \<and>
          gen_fits k ofs imin (imin + isz) sz x \<and> {x..<x + unat sz} \<subseteq> bytes (reg_nodes r)"
      using cut fits unfolding regs_cut_def by blast
    moreover have "a \<noteq> 0"
      using cut round_down_le [of 8 "unat a"] by (auto simp: regs_cut_def blk_beg_def)
    ultimately show ?thesis
      using a fits cut sz by (intro exI [of _ a] exI [of _ rs]) (simp add: lmm_alloc_gen_def)
  next
    assume "regs_gen_miss sz flags k ofs imin (imin + isz) (regions lmm)"
    then show ?thesis
      using sz unfolding regs_gen_miss_def lmm_alloc_gen_def
      by (auto intro!: exI [of _ 0] exI [of _ "regions lmm"])
  qed
qed

text \<open>The same on the level of the pool, with the admissible placements written out.\<close>

lemma lmm_alloc_gen_pool:
  assumes "lmm_inv lmm" "unat imin + unat sz + 2 ^ k \<le> 2 ^ 32" "0 < unat sz" "unat imin + unat isz < 2 ^ 32"
  shows "\<exists>p lmm'. lmm_alloc_gen lmm sz flags k ofs imin isz = Some (p, lmm') \<and> lmm_inv lmm' \<and>
    (if \<exists>r\<in>set (regions lmm). \<exists>x. reg_ok_for flags r \<and>
          x mod 2 ^ k = unat ofs mod 2 ^ k \<and> unat imin \<le> x \<and> x + unat sz \<le> unat imin + unat isz \<and>
          {x..<x + unat sz} \<subseteq> bytes (reg_nodes r)
     then p \<noteq> 0 \<and> unat p mod 2 ^ k = unat ofs mod 2 ^ k \<and>
       unat imin \<le> unat p \<and> unat p + unat sz \<le> unat imin + unat isz \<and>
       {unat p..<unat p + unat sz} \<subseteq> free_bytes_for flags lmm \<and>
       free_bytes lmm' = free_bytes lmm - {round_down 8 (unat p)..<round_up 8 (unat p + unat sz)}
     else p = 0 \<and> lmm' = lmm)"
proof -
  have imax: "unat (imin + isz) = unat imin + unat isz" using assms(4) by (simp add: unat_add_nowrap)
  obtain p rs where p: "lmm_alloc_gen lmm sz flags k ofs imin isz = Some (p, lmm\<lparr>regions := rs\<rparr>)"
    "if \<exists>r\<in>set (regions lmm). \<exists>x. reg_ok_for flags r \<and>
          gen_fits k ofs imin (imin + isz) sz x \<and> {x..<x + unat sz} \<subseteq> bytes (reg_nodes r)
     then gen_fits k ofs imin (imin + isz) sz (unat p) \<and> p \<noteq> 0 \<and>
       regs_cut (reg_ok_for flags) (blk_beg (unat p)) (blk_len (unat p) (unat sz)) (regions lmm) rs
     else p = 0 \<and> rs = regions lmm"
    using lmm_alloc_gen_spec [OF assms(1-3), of flags ofs isz] by blast
  have sub: "{unat p..<unat p + unat sz} \<subseteq> {round_down 8 (unat p)..<round_up 8 (unat p + unat sz)}"
    using round_down_le [of 8 "unat p"] round_up_ge [of 8 "unat p + unat sz"] by auto
  note cut = regs_cut_pool [OF assms(1), of flags "blk_beg (unat p)" "blk_len (unat p) (unat sz)" rs,
      unfolded blk_end, unfolded blk_beg_def]
  show ?thesis
  proof (cases "\<exists>r\<in>set (regions lmm). \<exists>x. reg_ok_for flags r \<and>
      x mod 2 ^ k = unat ofs mod 2 ^ k \<and> unat imin \<le> x \<and> x + unat sz \<le> unat imin + unat isz \<and>
      {x..<x + unat sz} \<subseteq> bytes (reg_nodes r)")
    case True
    then have fits: "gen_fits k ofs imin (imin + isz) sz (unat p)" "p \<noteq> 0"
      "regs_cut (reg_ok_for flags) (round_down 8 (unat p)) (blk_len (unat p) (unat sz)) (regions lmm) rs"
      using p(2) unfolding gen_fits_def imax blk_beg_def by meson+
    show ?thesis
      unfolding p(1) if_P [OF True] using fits(1,2) cut(1-3) [OF fits(3)] sub
      unfolding gen_fits_def imax by blast
  next
    case False
    then have "p = 0 \<and> rs = regions lmm" using p(2) unfolding gen_fits_def imax by meson
    then show ?thesis unfolding if_not_P [OF False] using p(1) assms(1) by simp
  qed
qed

end
