(* ===== verification/LMM_Free.thy ===== *)
theory LMM_Free
  imports LMM_AllocGen
begin

text \<open>
  Correctness of \<open>lmm_free\<close> and \<open>lmm_add_free\<close>: the freed block joins the free bytes of
  its region and the chain stays sorted and fully coalesced, so that freeing
  what was just allocated gives back the very pool one started from.
\<close>

section \<open>Inserting a block into a chain\<close>

text \<open>\<open>merged\<close> describes the outcome of the coalescing cases of \<open>lmm_free\<close>: the blocks
  \<open>mid\<close> adjacent to the freed range are replaced by the one block \<open>m\<close>.\<close>

definition merged ::
    "nat \<Rightarrow> nat \<Rightarrow> lmm_node list \<Rightarrow> lmm_node list \<Rightarrow> lmm_node \<Rightarrow> lmm_node list \<Rightarrow> bool" where
  "merged b s xs mid m ys \<longleftrightarrow>
     nbeg m \<le> b \<and> b + s \<le> nend m \<and> 8 dvd nbeg m \<and> 8 dvd nlen m \<and>
     node_bytes m = bytes mid \<union> {b..<b + s} \<and> nlen m = chain_len mid + s \<and>
     (\<forall>x\<in>set xs. nend x < nbeg m) \<and> (\<forall>y\<in>set ys. nend m < nbeg y)"

lemma merged_chain:
  assumes c: "chain lo hi (xs @ mid @ ys)" and m: "merged b s xs mid m ys"
    and b: "lo \<le> b" "b + s \<le> hi" "0 < s"
  shows "chain lo hi (xs @ m # ys)"
    and "bytes (xs @ m # ys) = bytes (xs @ mid @ ys) \<union> {b..<b + s}"
    and "chain_len (xs @ m # ys) = chain_len (xs @ mid @ ys) + s"
proof -
  have mid: "bytes mid \<subseteq> {lo..<hi}"
    using c bytes_bounds by (auto simp: chain_append)
  have ne: "nbeg m < nend m" using m b by (auto simp: merged_def)
  have sub: "node_bytes m \<subseteq> {lo..<hi}"
    using m b mid by (auto simp: merged_def)
  have "nbeg m \<in> node_bytes m" "nend m - 1 \<in> node_bytes m"
    using ne by (auto simp: node_bytes_def)
  then have "lo \<le> nbeg m" "nend m - 1 < hi"
    using sub by auto
  then have "node_ok lo hi m"
    using m ne by (auto simp: node_ok_def merged_def nend_def)
  moreover have "nend x < nbeg y" if "x \<in> set xs" "y \<in> set ys" for x y
    using m that ne by (meson merged_def less_trans)
  ultimately show "chain lo hi (xs @ m # ys)"
    using c m by (auto simp: chain_append chain_Cons merged_def)
  show "bytes (xs @ m # ys) = bytes (xs @ mid @ ys) \<union> {b..<b + s}"
    using m by (auto simp: merged_def)
  show "chain_len (xs @ m # ys) = chain_len (xs @ mid @ ys) + s"
    using m by (simp add: merged_def)
qed

lemma free_position:
  assumes c: "chain lo hi ns" and dis: "{b..<b + s} \<inter> bytes ns = {}" "0 < s" and b: "unat node = b"
  defines "pre \<equiv> takeWhile (\<lambda>n. node_addr n < node) ns"
    and "post \<equiv> dropWhile (\<lambda>n. node_addr n < node) ns"
  shows "\<forall>n\<in>set pre. nend n \<le> b" and "\<forall>n\<in>set post. b + s \<le> nbeg n"
proof -
  have ns: "ns = pre @ post" by (simp add: pre_def post_def)
  show "\<forall>n\<in>set pre. nend n \<le> b"
  proof
    fix n assume n: "n \<in> set pre"
    then have "nbeg n < b"
      using b unfolding pre_def by (auto dest!: set_takeWhileD simp: word_less_nat_alt)
    moreover have "b \<notin> node_bytes n"
    proof
      assume "b \<in> node_bytes n"
      then have "b \<in> bytes ns" using n ns by (auto simp: bytes_def)
      with dis show False by fastforce
    qed
    ultimately show "nend n \<le> b" by (auto simp: node_bytes_def)
  qed
  show "\<forall>n\<in>set post. b + s \<le> nbeg n"
  proof
    fix n assume n: "n \<in> set post"
    then obtain q rest where post: "post = q # rest" by (cases post) auto
    then have "\<not> node_addr q < node"
      unfolding post_def by (metis hd_dropWhile list.sel(1) list.distinct(1))
    then have "b \<le> nbeg q" using b by (simp add: word_less_nat_alt)
    moreover have "nbeg q \<le> nbeg n"
      using n post c ns by (auto simp: chain_append chain_Cons nend_def)
    moreover have "nbeg n \<in> bytes ns"
      using chain_nbeg_in_bytes [OF c] n ns by simp
    ultimately show "b + s \<le> nbeg n"
      using dis by (metis IntI atLeastLessThan_iff emptyE le_trans not_less)
  qed
qed

text \<open>The four cases of the insertion, by whether the freed range touches the block
  before it and the block after it.\<close>

definition split_at :: "addr \<Rightarrow> lmm_node list \<Rightarrow> lmm_node list \<Rightarrow> bool" where
  "split_at node pre post \<longleftrightarrow>
     (\<forall>n\<in>set pre. node_addr n < node) \<and> (\<forall>n\<in>set post. \<not> node_addr n < node)"

definition apart :: "addr \<Rightarrow> u32 \<Rightarrow> lmm_node list \<Rightarrow> bool" where
  "apart node sz post \<longleftrightarrow> (post = [] \<or> \<not> node + sz \<ge> node_addr (hd post))"

lemma split_at_while:
  assumes "split_at node pre post"
  shows "takeWhile (\<lambda>n. node_addr n < node) (pre @ post) = pre"
    and "dropWhile (\<lambda>n. node_addr n < node) (pre @ post) = post"
  using assms by (cases post; auto simp: split_at_def takeWhile_append2 dropWhile_append2)+

lemma lmm_free_nodes_both:
  assumes "split_at node (us @ [p]) (q # rest)"
    and "node_addr p + node_size p = node" "node + sz = node_addr q"
  shows "lmm_free_nodes node sz ((us @ [p]) @ q # rest) =
    Some (us @ p\<lparr>node_size := node_size p + (sz + node_size q)\<rparr> # rest)"
  unfolding lmm_free_nodes_def Let_def split_at_while [OF assms(1)] using assms(2,3) by simp

lemma lmm_free_nodes_prev:
  assumes "split_at node (us @ [p]) post"
    and "node_addr p + node_size p = node" "apart node sz post"
  shows "lmm_free_nodes node sz ((us @ [p]) @ post) =
    Some (us @ p\<lparr>node_size := node_size p + sz\<rparr> # post)"
  unfolding lmm_free_nodes_def Let_def split_at_while [OF assms(1)]
  using assms(2,3) by (cases post) (simp_all add: apart_def)

lemma lmm_free_nodes_next:
  assumes "split_at node pre (q # rest)"
    and "pre = [] \<or> \<not> node_addr (last pre) + node_size (last pre) \<ge> node" "node + sz = node_addr q"
  shows "lmm_free_nodes node sz (pre @ q # rest) =
    Some (pre @ \<lparr>node_addr = node, node_size = sz + node_size q\<rparr> # rest)"
  unfolding lmm_free_nodes_def Let_def split_at_while [OF assms(1)] using assms(2,3) by auto

lemma lmm_free_nodes_none:
  assumes "split_at node pre post"
    and "pre = [] \<or> \<not> node_addr (last pre) + node_size (last pre) \<ge> node" "apart node sz post"
  shows "lmm_free_nodes node sz (pre @ post) =
    Some (pre @ \<lparr>node_addr = node, node_size = sz\<rparr> # post)"
  unfolding lmm_free_nodes_def Let_def split_at_while [OF assms(1)]
  using assms(2,3) by (cases post) (auto simp: apart_def)

text \<open>What separates the last block before, or the first block after, separates all.\<close>

lemma chain_before:
  assumes "chain lo hi xs" "xs = [] \<or> nend (last xs) < k"
  shows "\<forall>x\<in>set xs. nend x < k"
proof (cases xs rule: rev_exhaust)
  case Nil
  then show ?thesis by simp
next
  case (snoc ys y)
  have "nbeg y \<le> nend y" by (simp add: nend_def)
  moreover have "\<forall>x\<in>set ys. nend x < nbeg y" "nend y < k"
    using assms by (auto simp: snoc chain_append)
  ultimately show ?thesis by (fastforce simp: snoc)
qed

lemma chain_after:
  "chain lo hi ys \<Longrightarrow> ys = [] \<or> k < nbeg (hd ys) \<Longrightarrow> \<forall>y\<in>set ys. k < nbeg y"
  by (cases ys) (auto simp: chain_Cons nend_def)

lemma merged_around:
  assumes c: "chain lo hi (xs @ mid @ ys)" and s: "8 dvd s"
    and m: "nbeg m \<le> b" "b + s \<le> nend m" "node_bytes m = bytes mid \<union> {b..<b + s}"
      "nlen m = chain_len mid + s" "8 dvd nbeg m"
    and sep: "\<forall>x\<in>set xs. nend x < nbeg m" "\<forall>y\<in>set ys. nend m < nbeg y"
  shows "merged b s xs mid m ys"
proof -
  have "8 dvd chain_len mid"
    using c chain_len_dvd by (auto simp: chain_append)
  then show ?thesis using m s sep by (auto simp: merged_def)
qed

definition free_ctx ::
    "nat \<Rightarrow> nat \<Rightarrow> nat \<Rightarrow> nat \<Rightarrow> addr \<Rightarrow> u32 \<Rightarrow> lmm_node list \<Rightarrow> lmm_node list \<Rightarrow> bool" where
  "free_ctx lo hi b s node sz pre post \<longleftrightarrow>
     chain lo hi (pre @ post) \<and> split_at node pre post \<and>
     (\<forall>n\<in>set pre. nend n \<le> b) \<and> (\<forall>n\<in>set post. b + s \<le> nbeg n) \<and>
     unat node = b \<and> unat sz = s \<and> 0 < s \<and> 8 dvd b \<and> 8 dvd s \<and> lo \<le> b \<and> b + s \<le> hi \<and> hi < 2 ^ 32"

lemma free_ctx_facts:
  assumes "free_ctx lo hi b s node sz pre post"
  shows "n \<in> set (pre @ post) \<Longrightarrow> unat (node_addr n + node_size n) = nend n"
    and "unat (node + sz) = b + s"
    and "q \<in> set post \<Longrightarrow> nend q \<le> hi"
    and "p \<in> set pre \<Longrightarrow> 8 dvd nbeg p"
proof -
  have ok: "node_ok lo hi n" if "n \<in> set (pre @ post)" for n
    using assms that chain_node_ok unfolding free_ctx_def by blast
  show "n \<in> set (pre @ post) \<Longrightarrow> unat (node_addr n + node_size n) = nend n"
    using ok [of n] assms by (subst unat_add_nowrap) (auto simp: node_ok_def nend_def free_ctx_def)
  show "unat (node + sz) = b + s"
    using assms by (subst unat_add_nowrap) (auto simp: free_ctx_def)
  show "q \<in> set post \<Longrightarrow> nend q \<le> hi" "p \<in> set pre \<Longrightarrow> 8 dvd nbeg p"
    using ok by (auto simp: node_ok_def)
qed

lemma free_ctx_apart:
  assumes "free_ctx lo hi b s node sz pre post"
    and "\<not> (post \<noteq> [] \<and> nbeg (hd post) = b + s)"
  shows "apart node sz post" "\<forall>y\<in>set post. b + s < nbeg y"
proof -
  show "apart node sz post"
    using assms free_ctx_facts(2) [OF assms(1)]
    by (cases post) (auto simp: apart_def word_le_nat_alt free_ctx_def)
  show "\<forall>y\<in>set post. b + s < nbeg y"
    using assms by (intro chain_after [of lo hi]) (cases post; auto simp: free_ctx_def chain_append)+
qed

lemma free_ctx_prev:
  assumes ctx: "free_ctx lo hi b s node sz (us @ [p]) post" and p: "nend p = b"
  shows "\<exists>xs mid ys m. (us @ [p]) @ post = xs @ mid @ ys \<and>
    lmm_free_nodes node sz ((us @ [p]) @ post) = Some (xs @ m # ys) \<and> merged b s xs mid m ys"
proof -
  note f = free_ctx_facts [OF ctx]
  have c: "chain lo hi (us @ p # post)" and split: "split_at node (us @ [p]) post"
    and w: "unat node = b" "unat sz = s" "8 dvd s" "b + s \<le> hi" "hi < 2 ^ 32"
    using ctx by (auto simp: free_ctx_def)
  have pw: "node_addr p + node_size p = node"
    using f(1) [of p] p w(1) by (simp add: u32_eq_iff_unat)
  have us: "\<forall>x\<in>set us. nend x < nbeg p"
    using c by (auto simp: chain_append)
  show ?thesis
  proof (cases "post \<noteq> [] \<and> nbeg (hd post) = b + s")
    case True
    then obtain q rest where post: "post = q # rest" "nbeg q = b + s" by (cases post) auto
    let ?m = "p\<lparr>node_size := node_size p + (sz + node_size q)\<rparr>"
    have q: "nend q \<le> hi" "node + sz = node_addr q"
      using f(2,3) post by (auto simp: u32_eq_iff_unat)
    have sz1: "unat (sz + node_size q) = s + nlen q"
      using q(1) post(2) w by (subst unat_add_nowrap) (auto simp: nend_def)
    have "unat (node_size p + (sz + node_size q)) = nlen p + (s + nlen q)"
      using q(1) post(2) p w by (subst unat_add_nowrap) (auto simp: nend_def sz1)
    then have "merged b s us [p, q] ?m rest"
      using c post p us w f(4) [of p]
      by (intro merged_around [of lo hi]) (auto simp: nend_def node_bytes_def chain_append chain_Cons)
    then show ?thesis
      using lmm_free_nodes_both [of node us p q rest sz] split pw q(2) post
      by (intro exI [of _ us] exI [of _ "[p, q]"] exI [of _ rest] exI [of _ ?m]) simp
  next
    case False
    let ?m = "p\<lparr>node_size := node_size p + sz\<rparr>"
    note ap = free_ctx_apart [OF ctx False]
    have "unat (node_size p + sz) = nlen p + s"
      using p w by (subst unat_add_nowrap) (auto simp: nend_def)
    then have "merged b s us [p] ?m post"
      using c p us ap(2) w f(4) [of p]
      by (intro merged_around [of lo hi]) (auto simp: nend_def node_bytes_def)
    then show ?thesis
      using lmm_free_nodes_prev [of node us p post sz] split pw ap(1)
      by (intro exI [of _ us] exI [of _ "[p]"] exI [of _ post] exI [of _ ?m]) simp
  qed
qed

lemma free_ctx_noprev:
  assumes ctx: "free_ctx lo hi b s node sz pre post" and pre: "\<forall>x\<in>set pre. nend x < b"
  shows "\<exists>xs mid ys m. pre @ post = xs @ mid @ ys \<and>
    lmm_free_nodes node sz (pre @ post) = Some (xs @ m # ys) \<and> merged b s xs mid m ys"
proof -
  note f = free_ctx_facts [OF ctx]
  have c: "chain lo hi (pre @ post)" and split: "split_at node pre post"
    and w: "unat node = b" "unat sz = s" "8 dvd s" "8 dvd b" "b + s \<le> hi" "hi < 2 ^ 32"
    using ctx by (auto simp: free_ctx_def)
  have prew: "pre = [] \<or> \<not> node_addr (last pre) + node_size (last pre) \<ge> node"
    using bspec [OF pre last_in_set] f(1) [of "last pre"] w(1) by (auto simp: word_le_nat_alt)
  show ?thesis
  proof (cases "post \<noteq> [] \<and> nbeg (hd post) = b + s")
    case True
    then obtain q rest where post: "post = q # rest" "nbeg q = b + s" by (cases post) auto
    let ?m = "\<lparr>node_addr = node, node_size = sz + node_size q\<rparr>"
    have q: "nend q \<le> hi" "node + sz = node_addr q"
      using f(2,3) post by (auto simp: u32_eq_iff_unat)
    have "unat (sz + node_size q) = s + nlen q"
      using q(1) post(2) w by (subst unat_add_nowrap) (auto simp: nend_def)
    then have "merged b s pre [q] ?m rest"
      using c post pre w
      by (intro merged_around [of lo hi]) (auto simp: nend_def node_bytes_def chain_append chain_Cons)
    then show ?thesis
      using lmm_free_nodes_next [of node pre q rest sz] split prew q(2) post
      by (intro exI [of _ pre] exI [of _ "[q]"] exI [of _ rest] exI [of _ ?m]) simp
  next
    case False
    let ?m = "\<lparr>node_addr = node, node_size = sz\<rparr>"
    note ap = free_ctx_apart [OF ctx False]
    have "merged b s pre [] ?m post"
      using c pre ap(2) w
      by (intro merged_around [of lo hi]) (auto simp: nend_def node_bytes_def)
    then show ?thesis
      using lmm_free_nodes_none [of node pre post sz] split prew ap(1)
      by (intro exI [of _ pre] exI [of _ "[]"] exI [of _ post] exI [of _ ?m]) simp
  qed
qed

lemma lmm_free_nodes_ok:
  assumes c: "chain lo hi ns" and dis: "{b..<b + s} \<inter> bytes ns = {}"
    and node: "unat node = b" "unat sz = s" "0 < s" "8 dvd b" "8 dvd s"
    and bd: "lo \<le> b" "b + s \<le> hi" "hi < 2 ^ 32"
  shows "\<exists>ns'. lmm_free_nodes node sz ns = Some ns' \<and> chain lo hi ns' \<and>
    bytes ns' = bytes ns \<union> {b..<b + s} \<and> chain_len ns' = chain_len ns + s"
proof -
  define pre where "pre = takeWhile (\<lambda>n. node_addr n < node) ns"
  define post where "post = dropWhile (\<lambda>n. node_addr n < node) ns"
  have ns: "ns = pre @ post" by (simp add: pre_def post_def)
  have le: "\<forall>n\<in>set pre. nend n \<le> b" "\<forall>n\<in>set post. b + s \<le> nbeg n"
    using free_position [OF c dis node(3,1)] by (simp_all add: pre_def post_def)
  then have "split_at node pre post"
    using node(1) by (auto simp: split_at_def pre_def word_less_nat_alt dest: set_takeWhileD)
  then have ctx: "free_ctx lo hi b s node sz pre post"
    using c ns le node bd by (simp add: free_ctx_def)
  have "\<exists>xs mid ys m. ns = xs @ mid @ ys \<and>
    lmm_free_nodes node sz ns = Some (xs @ m # ys) \<and> merged b s xs mid m ys"
  proof (cases "pre = [] \<or> nend (last pre) < b")
    case True
    then have "\<forall>x\<in>set pre. nend x < b"
      using c ns by (intro chain_before [of lo hi]) (auto simp: chain_append)
    then show ?thesis unfolding ns by (rule free_ctx_noprev [OF ctx])
  next
    case False
    then obtain us p where p: "pre = us @ [p]" "nend p = b"
      using le(1) by (metis append_butlast_last_id last_in_set le_neq_implies_less)
    show ?thesis
      using free_ctx_prev [OF ctx [unfolded p(1)] p(2)] unfolding ns p(1) .
  qed
  then show ?thesis
    using merged_chain [of lo hi, OF _ _ bd(1,2) node(3)] c by metis
qed

section \<open>Freeing into a list of regions\<close>

definition reg_more :: "nat set \<Rightarrow> lmm_region \<Rightarrow> lmm_region \<Rightarrow> bool" where
  "reg_more B r' r \<longleftrightarrow>
     reg_same r' r \<and> reg_inv r' \<and> bytes (reg_nodes r') = bytes (reg_nodes r) \<union> (B \<inter> reg_span r)"

lemma regs_more_self:
  assumes "regs_inv rs" "\<forall>r\<in>set rs. B \<inter> reg_span r = {}"
  shows "list_all2 (reg_more B) rs rs"
  using assms by (auto simp: list_all2_same regs_inv_def list_all_iff reg_more_def)

lemma free_region:
  assumes inv: "reg_inv r" and node: "unat node = b" "unat sz = s" "0 < s" "8 dvd b" "8 dvd s" "0 < b"
    and sub: "{b..<b + s} \<subseteq> reg_span r" and dis: "{b..<b + s} \<inter> bytes (reg_nodes r) = {}"
  shows "\<exists>ns. lmm_free_nodes node sz (reg_nodes r) = Some ns \<and>
    reg_free r + sz \<le> reg_max r - reg_min r \<and>
    reg_more {b..<b + s} (r\<lparr>reg_nodes := ns, reg_free := reg_free r + sz\<rparr>) r"
proof -
  let ?lo = "max 1 (unat (reg_min r))" and ?hi = "unat (reg_max r)"
  have ends: "unat (reg_min r) \<le> b" "b + s \<le> ?hi"
    using sub node(3) by (auto simp: reg_span_def)
  have c: "chain ?lo ?hi (reg_nodes r)" and len: "unat (reg_free r) = chain_len (reg_nodes r)"
    using inv by (auto simp: reg_inv_def)
  obtain ns where ns: "lmm_free_nodes node sz (reg_nodes r) = Some ns" "chain ?lo ?hi ns"
    "bytes ns = bytes (reg_nodes r) \<union> {b..<b + s}" "chain_len ns = chain_len (reg_nodes r) + s"
    using lmm_free_nodes_ok [OF c dis node(1-5)] node(6) ends by auto
  have "chain_len ns \<le> ?hi - ?lo"
    using ns(2) by (rule chain_len_bound)
  then have bound: "unat (reg_free r) + unat sz \<le> ?hi - unat (reg_min r)"
    using ns(4) len node(2) by linarith
  then have "unat (reg_free r) + unat sz < 2 ^ 32"
    by (intro le_unat_less [of _ "reg_max r"]) simp
  then have sum: "unat (reg_free r + sz) = chain_len ns"
    using len ns(4) node(2) by (simp add: unat_add_nowrap)
  have "unat (reg_max r - reg_min r) = ?hi - unat (reg_min r)"
    using ends by (intro unat_diff_nowrap) simp
  then have "reg_free r + sz \<le> reg_max r - reg_min r"
    using bound sum len ns(4) node(2) by (simp add: word_le_nat_alt)
  moreover have "reg_more {b..<b + s} (r\<lparr>reg_nodes := ns, reg_free := reg_free r + sz\<rparr>) r"
    using inv ns sum sub by (auto simp: reg_more_def reg_inv_def)
  ultimately show ?thesis using ns(1) by blast
qed

lemma lmm_free_regions_ok:
  assumes "regs_inv rs" "r \<in> set rs" "{b..<b + s} \<subseteq> reg_span r"
    and "{b..<b + s} \<inter> bytes (reg_nodes r) = {}"
    and node: "unat node = b" "unat sz = s" "0 < s" "8 dvd b" "8 dvd s" "0 < b"
  shows "\<exists>rs'. lmm_free_regions node sz rs = Some rs' \<and> list_all2 (reg_more {b..<b + s}) rs' rs"
  using assms(1-4)
proof (induction rs)
  case Nil
  then show ?case by simp
next
  case (Cons t rs)
  have t: "reg_inv t" and rs: "regs_inv rs" using Cons.prems(1) by (auto simp: regs_inv_Cons)
  have b_in: "b \<in> reg_span r" using Cons.prems(3) node(3) by auto
  show ?case
  proof (cases "r = t")
    case True
    obtain ns where ns: "lmm_free_nodes node sz (reg_nodes t) = Some ns"
      "reg_free t + sz \<le> reg_max t - reg_min t"
      "reg_more {b..<b + s} (t\<lparr>reg_nodes := ns, reg_free := reg_free t + sz\<rparr>) t"
      using free_region [OF t node] Cons.prems(3,4) True by blast
    have "node \<ge> reg_min t \<and> node < reg_max t"
      using b_in True node(1) by (auto simp: reg_span_def wnat)
    then have "lmm_free_regions node sz (t # rs) =
        Some (t\<lparr>reg_nodes := ns, reg_free := reg_free t + sz\<rparr> # rs)"
      using ns t by simp
    moreover have "list_all2 (reg_more {b..<b + s}) rs rs"
    proof (rule regs_more_self [OF rs])
      show "\<forall>u\<in>set rs. {b..<b + s} \<inter> reg_span u = {}"
        using Cons.prems(1,3) True reg_disjoint_span by (fastforce simp: regs_inv_Cons)
    qed
    ultimately show ?thesis using ns(3) by simp
  next
    case False
    then have r: "r \<in> set rs" using Cons.prems(2) by simp
    then have dis: "reg_span t \<inter> reg_span r = {}"
      using Cons.prems(1) reg_disjoint_span by (auto simp: regs_inv_Cons)
    then have "\<not> (node \<ge> reg_min t \<and> node < reg_max t)"
      using b_in node(1) by (auto simp: reg_span_def wnat)
    moreover obtain rs' where "lmm_free_regions node sz rs = Some rs'"
      "list_all2 (reg_more {b..<b + s}) rs' rs"
      using Cons.IH [OF rs r Cons.prems(3,4)] by blast
    moreover have "reg_more {b..<b + s} t t"
      using t dis Cons.prems(3) by (auto simp: reg_more_def)
    ultimately show ?thesis using t by auto
  qed
qed

section \<open>Pools\<close>

lemma regs_more_inv:
  assumes "regs_inv rs" "list_all2 (reg_more B) rs' rs"
  shows "regs_inv rs'"
proof (rule regs_same_inv)
  show "list_all2 reg_same rs' rs"
    using assms(2) by (auto simp: reg_more_def elim: list_all2_mono)
  show "list_all reg_inv rs'"
    using assms(2) by (auto simp: reg_more_def list_all_length list_all2_conv_all_nth)
qed fact

lemma regs_more_bytes:
  "list_all2 (reg_more B) rs' rs \<Longrightarrow>
     regs_bytes rs' = regs_bytes rs \<union> (B \<inter> (\<Union>r\<in>set rs. reg_span r))"
  by (induction rs' rs rule: list_all2_induct) (auto simp: reg_more_def)

text \<open>Two valid regions with the same header and the same free bytes are equal.\<close>

lemma reg_eqI:
  assumes "reg_inv r" "reg_inv s" "reg_same r s" "bytes (reg_nodes r) = bytes (reg_nodes s)"
  shows "r = s"
proof -
  have "reg_nodes r = reg_nodes s"
    using assms(1,2) by (intro chain_unique [OF _ _ assms(4)]) (auto simp: reg_inv_def)
  moreover from this have "reg_free r = reg_free s"
    using assms(1,2) unfolding reg_inv_def u32_eq_iff_unat by argo
  ultimately show ?thesis
    using assms(3) by (cases r; cases s) (simp add: reg_same_def)
qed

text \<open>The block that \<open>lmm_free\<close> computes from its arguments is the one that the
  allocators cut out.\<close>

lemma lmm_free_block:
  assumes "blk_beg (unat p) + blk_len (unat p) (unat sz) \<le> unat (w :: u32)" "8 dvd unat w"
  shows "unat (p AND NOT ALIGN_MASK) = blk_beg (unat p)"
    and "unat (((p AND ALIGN_MASK) + sz + ALIGN_MASK) AND NOT ALIGN_MASK) = blk_len (unat p) (unat sz)"
proof -
  show "unat (p AND NOT ALIGN_MASK) = blk_beg (unat p)"
    by (simp add: blk_beg_def)
  have "unat w + 8 \<le> 2 ^ 32"
    using assms(2) by (intro dvd_less_imp_add_le) auto
  moreover have "unat p + unat sz \<le> unat w"
    using assms(1) round_up_ge [of 8 "unat p + unat sz"] by (simp add: blk_end)
  ultimately have sum: "unat (p AND ALIGN_MASK) + unat sz + 7 < 2 ^ 32"
    by (simp add: trans_le_add1)
  then have "unat ((p AND ALIGN_MASK) + sz) = unat p mod 8 + unat sz"
    by (subst unat_add_nowrap) auto
  then have "unat (((p AND ALIGN_MASK) + sz + ALIGN_MASK) AND NOT ALIGN_MASK) =
      round_up 8 (unat p mod 8 + unat sz)"
    using sum by (subst unat_round_up) auto
  then show "unat (((p AND ALIGN_MASK) + sz + ALIGN_MASK) AND NOT ALIGN_MASK) =
      blk_len (unat p) (unat sz)"
    using round_block [of 8 "unat p" "unat sz"] by (simp add: blk_len_def)
qed

lemma lmm_free_spec:
  assumes inv: "lmm_inv lmm" and r: "r \<in> set (regions lmm)" and sz: "0 < unat sz"
    and blk: "0 < b" "b = blk_beg (unat p)" "s = blk_len (unat p) (unat sz)"
    and sub: "{b..<b + s} \<subseteq> reg_span r" and dis: "{b..<b + s} \<inter> bytes (reg_nodes r) = {}"
  shows "\<exists>rs. lmm_free lmm p sz = Some (lmm\<lparr>regions := rs\<rparr>) \<and>
    list_all2 (reg_more {b..<b + s}) rs (regions lmm)"
proof -
  have regs: "regs_inv (regions lmm)" and max8: "8 dvd unat (reg_max r)"
    using inv r by (auto simp: lmm_inv_def regs_inv_def list_all_iff reg_inv_def)
  have end_eq: "b + s = round_up 8 (unat p + unat sz)" by (simp add: blk blk_end)
  then have s: "0 < s"
    using round_up_ge [of 8 "unat p + unat sz"] round_down_le [of 8 "unat p"] sz
    by (simp add: blk(2) blk_beg_def)
  have "b + s \<le> unat (reg_max r)"
    using sub s by (auto simp: reg_span_def)
  note blkw = lmm_free_block [OF this [unfolded blk] max8]
  have d: "8 dvd b" "8 dvd s"
    using round_down_dvd round_up_dvd by (auto simp: blk blk_beg_def blk_len_def)
  obtain rs where rs: "lmm_free_regions (p AND NOT ALIGN_MASK)
      (((p AND ALIGN_MASK) + sz + ALIGN_MASK) AND NOT ALIGN_MASK) (regions lmm) = Some rs"
    "list_all2 (reg_more {b..<b + s}) rs (regions lmm)"
    using lmm_free_regions_ok [OF regs r sub dis _ _ s d blk(1)] blkw blk by metis
  have "p \<noteq> 0" "0 < sz"
    using blk(1) sz by (auto simp: blk(2) blk_beg_def round_down_def word_less_nat_alt)
  then show ?thesis
    using rs by (auto simp: lmm_free_def)
qed

section \<open>Allocation followed by free\<close>

lemma lmm_alloc_spec:
  assumes "lmm_inv lmm" "0 < unat sz" "unat sz + 7 < 2 ^ 32"
  defines "s \<equiv> round_up 8 (unat sz)"
  shows "\<exists>p rs. lmm_alloc lmm sz flags = Some (p, lmm\<lparr>regions := rs\<rparr>) \<and>
    (if \<exists>r\<in>set (regions lmm). reg_ok_for flags r \<and> (\<exists>x. {x..<x + s} \<subseteq> bytes (reg_nodes r))
     then p \<noteq> 0 \<and> regs_cut (reg_ok_for flags) (unat p) s (regions lmm) rs
     else p = 0 \<and> rs = regions lmm)"
proof -
  define w where "w = (sz + ALIGN_MASK) AND NOT ALIGN_MASK"
  have w: "unat w = s" unfolding w_def s_def by (rule unat_round_up [OF assms(3)])
  have s: "8 dvd s" "0 < s"
    using round_up_dvd round_up_ge [of 8 "unat sz"] assms(2) by (auto simp: s_def)
  have inv: "regs_inv (regions lmm)" using assms(1) by (simp add: lmm_inv_def)
  have big: "(\<exists>x. {x..<x + s} \<subseteq> bytes (reg_nodes r)) \<longleftrightarrow> (\<exists>n\<in>set (reg_nodes r). w \<le> node_size n)"
    if "r \<in> set (regions lmm)" for r
  proof
    assume "\<exists>x. {x..<x + s} \<subseteq> bytes (reg_nodes r)"
    then obtain x where x: "{x..<x + s} \<subseteq> bytes (reg_nodes r)" ..
    have "reg_inv r" using inv that by (auto simp: regs_inv_def list_all_iff)
    then have "chain (max 1 (unat (reg_min r))) (unat (reg_max r)) (reg_nodes r)"
      by (simp add: reg_inv_def)
    from chain_interval [OF this _ x] s(2) obtain n
      where "n \<in> set (reg_nodes r)" "nbeg n \<le> x" "x + s \<le> nend n" by auto
    then show "\<exists>n\<in>set (reg_nodes r). w \<le> node_size n"
      by (intro bexI [of _ n]) (auto simp: word_le_nat_alt w nend_def)
  next
    assume "\<exists>n\<in>set (reg_nodes r). w \<le> node_size n"
    then obtain n where n: "n \<in> set (reg_nodes r)" "s \<le> nlen n"
      by (auto simp: word_le_nat_alt w)
    then have "{nbeg n..<nbeg n + s} \<subseteq> bytes (reg_nodes r)"
      by (auto simp: bytes_def node_bytes_def nend_def intro!: bexI [of _ n])
    then show "\<exists>x. {x..<x + s} \<subseteq> bytes (reg_nodes r)" ..
  qed
  have eq: "lmm_alloc lmm sz flags =
      lmm_alloc_regions w flags (regions lmm) \<bind> (\<lambda>(p, rs). Some (p, lmm\<lparr>regions := rs\<rparr>))"
    using assms(2) by (simp add: lmm_alloc_def w_def word_less_nat_alt)
  show ?thesis
  proof (cases "\<exists>r\<in>set (regions lmm). reg_ok_for flags r \<and> (\<exists>x. {x..<x + s} \<subseteq> bytes (reg_nodes r))")
    case True
    then obtain p rs where "lmm_alloc_regions w flags (regions lmm) = Some (p, rs)"
      "regs_cut (reg_ok_for flags) (unat p) s (regions lmm) rs"
      using lmm_alloc_regions_hit [OF inv, of w flags] s big unfolding w by auto
    then show ?thesis
      using True by (intro exI [of _ p] exI [of _ rs]) (auto simp: eq regs_cut_def)
  next
    case False
    then have "lmm_alloc_regions w flags (regions lmm) = Some (0, regions lmm)"
      using lmm_alloc_regions_miss [OF inv, of w flags] s big unfolding w by auto
    then show ?thesis using False by (auto simp: eq)
  qed
qed

lemma cut_more_id:
  assumes inv: "regs_inv rs" and cut: "regs_cut P x s rs rs'"
    and more: "list_all2 (reg_more {x..<x + s}) rs'' rs'"
  shows "rs'' = rs"
proof (rule nth_equalityI)
  have less: "list_all2 (reg_less {x..<x + s}) rs' rs" using cut by (simp add: regs_cut_def)
  show len: "length rs'' = length rs"
    using list_all2_lengthD [OF less] list_all2_lengthD [OF more] by simp
  obtain r0 where r0: "r0 \<in> set rs" "{x..<x + s} \<subseteq> bytes (reg_nodes r0)"
    using cut by (auto simp: regs_cut_def)
  fix i assume "i < length rs''"
  then have i: "i < length rs" using len by simp
  have l: "reg_less {x..<x + s} (rs' ! i) (rs ! i)" and m: "reg_more {x..<x + s} (rs'' ! i) (rs' ! i)"
    using less more i len by (auto simp: list_all2_conv_all_nth)
  have ri: "reg_inv (rs ! i)" "reg_inv r0"
    using inv i r0 by (auto simp: regs_inv_def list_all_iff)
  have "{x..<x + s} \<inter> reg_span (rs ! i) \<subseteq> bytes (reg_nodes (rs ! i))"
  proof (cases "rs ! i = r0")
    case False
    then have "reg_disjoint (rs ! i) r0 \<or> reg_disjoint r0 (rs ! i)"
      using inv r0 i by (auto simp: regs_inv_def sorted_wrt_iff_nth_less in_set_conv_nth)
        (metis linorder_neqE_nat)
    then have "reg_span (rs ! i) \<inter> reg_span r0 = {}"
      using reg_disjoint_span by blast
    then show ?thesis using r0 reg_inv_bytes [OF ri(2)] by blast
  qed (use r0 in auto)
  moreover have "reg_span (rs' ! i) = reg_span (rs ! i)"
    using l reg_same_span by (simp add: reg_less_def)
  ultimately have "bytes (reg_nodes (rs'' ! i)) = bytes (reg_nodes (rs ! i))"
    using l m reg_inv_bytes [OF ri(1)] by (auto simp: reg_less_def reg_more_def)
  then show "rs'' ! i = rs ! i"
    using l m ri(1) by (intro reg_eqI) (auto simp: reg_less_def reg_more_def reg_same_def)
qed

lemma lmm_free_cut:
  assumes inv: "lmm_inv lmm" and sz: "0 < unat sz"
    and cut: "regs_cut P (blk_beg (unat p)) (blk_len (unat p) (unat sz)) (regions lmm) rs"
  shows "lmm_free (lmm\<lparr>regions := rs\<rparr>) p sz = Some lmm"
proof -
  define b s where "b = blk_beg (unat p)" and "s = blk_len (unat p) (unat sz)"
  note cut = cut [folded b_def s_def]
  have regs: "regs_inv (regions lmm)" using inv by (simp add: lmm_inv_def)
  obtain i where i: "i < length (regions lmm)" "{b..<b + s} \<subseteq> bytes (reg_nodes (regions lmm ! i))"
    using cut by (auto simp: regs_cut_def in_set_conv_nth)
  have l: "reg_less {b..<b + s} (rs ! i) (regions lmm ! i)" and len: "i < length rs"
    using cut i by (auto simp: regs_cut_def list_all2_conv_all_nth)
  have "reg_inv (regions lmm ! i)"
    using regs i by (auto simp: regs_inv_def list_all_length)
  then have "{b..<b + s} \<subseteq> reg_span (rs ! i)"
    using reg_inv_bytes [of "regions lmm ! i"] i(2) l reg_same_span
    unfolding reg_less_def by blast
  moreover have "{b..<b + s} \<inter> bytes (reg_nodes (rs ! i)) = {}"
    using l by (auto simp: reg_less_def)
  moreover have "lmm_inv (lmm\<lparr>regions := rs\<rparr>)"
    using regs_cut_inv [OF regs cut] by (simp add: lmm_inv_def)
  ultimately obtain rs' where "lmm_free (lmm\<lparr>regions := rs\<rparr>) p sz = Some (lmm\<lparr>regions := rs'\<rparr>)"
    "list_all2 (reg_more {b..<b + s}) rs' rs"
    using lmm_free_spec [of "lmm\<lparr>regions := rs\<rparr>" "rs ! i" sz b p s] sz cut len
    by (auto simp: b_def s_def regs_cut_def)
  then show ?thesis
    using cut_more_id [OF regs cut] by simp
qed

end
