(* ===== verification/LMM_Pool.thy ===== *)
theory LMM_Pool
  imports LMM_Free
begin

text \<open>
  The remaining LMM operations: building a pool (\<open>lmm_init\<close>, \<open>lmm_add_region\<close>,
  \<open>lmm_add_free\<close>), querying it (\<open>lmm_avail\<close>, \<open>lmm_find_free\<close>, \<open>lmm_stats\<close>,
  \<open>lmm_dump\<close>) and removing an address range from it (\<open>lmm_remove_free\<close>).
\<close>

section \<open>\<open>lmm_add_region\<close>\<close>

lemma reg_size_word: "reg_inv r \<Longrightarrow> unat (reg_max r - reg_min r) = reg_size r"
  by (simp add: reg_inv_def reg_size_def unat_diff_nowrap word_less_nat_alt)

lemma reg_disjointI:
  assumes "reg_inv r" "reg_inv t" "reg_span r \<inter> reg_span t = {}"
  shows "reg_disjoint r t"
proof (rule ccontr)
  assume "\<not> reg_disjoint r t"
  then have "max (unat (reg_min r)) (unat (reg_min t)) \<in> reg_span r \<inter> reg_span t"
    using assms(1,2) by (simp add: reg_disjoint_def reg_span_def reg_inv_def word_le_nat_alt word_less_nat_alt)
  with assms(3) show False by simp
qed

lemma lmm_add_region_insert_ok:
  assumes "regs_inv rs" "reg_inv reg" "reg_ptr reg \<notin> reg_ptr ` set rs"
    and "\<forall>r\<in>set rs. reg_span r \<inter> reg_span reg = {}"
  shows "\<exists>rs'. lmm_add_region_insert reg rs = Some rs' \<and> regs_inv rs' \<and>
    set rs' = insert reg (set rs)"
  using assms
proof (induction rs)
  case Nil
  then show ?case by (simp add: regs_inv_Cons)
next
  case (Cons r rs)
  have r: "reg_inv r" and rs: "regs_inv rs" using Cons.prems(1) by (auto simp: regs_inv_Cons)
  have sizes: "reg_max r - reg_min r > reg_max reg - reg_min reg \<longleftrightarrow> reg_size r > reg_size reg"
    using r Cons.prems(2) by (simp add: word_less_nat_alt reg_size_word)
  have disj: "reg_disjoint reg t \<and> reg_disjoint t reg" if "t \<in> set (r # rs)" for t
  proof -
    have t: "reg_inv t" using that Cons.prems(1) by (auto simp: regs_inv_def list_all_iff)
    moreover have "reg_span t \<inter> reg_span reg = {}" using that Cons.prems(4) by blast
    ultimately show ?thesis
      using reg_disjointI Cons.prems(2) by (simp add: Int_commute)
  qed
  show ?case
  proof (cases "reg_pri r > reg_pri reg \<or> (reg_pri r = reg_pri reg \<and> reg_size r > reg_size reg)")
    case True
    obtain rs' where rs': "lmm_add_region_insert reg rs = Some rs'" "regs_inv rs'"
      "set rs' = insert reg (set rs)"
      using Cons.IH [OF rs] Cons.prems by auto
    have "reg_max reg \<le> reg_min r \<or> reg_min reg \<ge> reg_max r"
      using disj [of r] by (auto simp: reg_disjoint_def)
    then have "lmm_add_region_insert reg (r # rs) = Some (r # rs')"
      using True rs' Cons.prems(3) by (auto simp: sizes)
    moreover have "regs_inv (r # rs')"
      using rs' True Cons.prems(1,3) disj by (auto simp: regs_inv_Cons reg_before_def)
    ultimately show ?thesis using rs' by auto
  next
    case False
    then have "lmm_add_region_insert reg (r # rs) = Some (reg # r # rs)"
      by (auto simp: sizes)
    moreover have "reg_before reg t" if "t \<in> set (r # rs)" for t
      using False that Cons.prems(1) by (auto simp: regs_inv_Cons reg_before_def)
    then have "regs_inv (reg # r # rs)"
      using Cons.prems disj unfolding regs_inv_Cons [of reg "r # rs"] by auto
    ultimately show ?thesis by auto
  qed
qed

lemma lmm_add_region_spec:
  assumes "lmm_inv lmm" "unat a + unat sz < 2 ^ 32" "unat a + 7 < 2 ^ 32"
    and "ptr \<notin> reg_ptr ` set (regions lmm)"
    and lo: "lo = round_up 8 (unat a)" and hi: "hi = round_down 8 (unat a + unat sz)"
    and disj: "{lo..<hi} \<inter> pool_span lmm = {}"
  shows "\<exists>lmm'. lmm_add_region lmm ptr a sz flags pri = Some lmm' \<and> lmm_inv lmm' \<and>
    pool_span lmm' = pool_span lmm \<union> {lo..<hi} \<and> free_bytes lmm' = free_bytes lmm"
proof -
  define l where "l = (a + ALIGN_MASK) AND NOT ALIGN_MASK"
  define h where "h = (a + sz) AND NOT ALIGN_MASK"
  have l: "unat l = lo" unfolding l_def lo by (rule unat_round_up [OF assms(3)])
  have h: "unat h = hi" unfolding h_def hi using assms(2) by (simp add: unat_add_nowrap)
  let ?reg = "\<lparr>reg_ptr = ptr, reg_nodes = [], reg_min = l, reg_max = h,
             reg_flags = flags, reg_pri = pri, reg_free = 0\<rparr>"
  have eq: "lmm_add_region lmm ptr a sz flags pri =
     (if h \<le> l then Some lmm
      else lmm_add_region_insert ?reg (regions lmm) \<bind> (\<lambda>rs. Some (lmm\<lparr>regions := rs\<rparr>)))"
    unfolding lmm_add_region_def Let_def l_def h_def ..
  show ?thesis
  proof (cases "h \<le> l")
    case True
    moreover from this have "{lo..<hi} = {}" using l h by (simp add: word_le_nat_alt)
    ultimately show ?thesis using assms(1) by (simp add: eq)
  next
    case False
    have reg: "reg_inv ?reg"
      using False l h lo hi round_up_dvd round_down_dvd by (auto simp: reg_inv_def not_le)
    have span: "reg_span ?reg = {lo..<hi}" by (simp add: reg_span_def l h)
    obtain rs where rs: "lmm_add_region_insert ?reg (regions lmm) = Some rs" "regs_inv rs"
      "set rs = insert ?reg (set (regions lmm))"
      using lmm_add_region_insert_ok [OF _ reg, of "regions lmm"] assms(1,4) disj
      unfolding span by (auto simp: lmm_inv_def pool_span_def Int_commute)
    then show ?thesis
      using False span by (auto simp: eq lmm_inv_def pool_span_def free_bytes_def regs_bytes_def)
  qed
qed

section \<open>\<open>lmm_add_free\<close>\<close>

lemma blk_aligned:
  assumes "8 dvd b" "8 dvd e" "b \<le> e"
  shows "blk_beg b = b" "blk_len b (e - b) = e - b"
  using assms by (simp_all add: blk_beg_def blk_len_def round_down_eq round_up_eq)

text \<open>One round of the loop: the part of \<open>[lo, hi)\<close> inside one region is freed.\<close>

lemma lmm_add_free_step:
  assumes inv: "lmm_inv lmm" and r: "r' \<in> set (regions lmm)" "reg_same r' r" "reg_inv r"
    and al: "8 dvd unat lo" "8 dvd unat hi"
    and over: "hi > reg_min r" "lo < reg_max r" "lo < hi"
    and pos: "0 \<notin> {unat lo..<unat hi} \<inter> reg_span r"
    and dis: "{unat lo..<unat hi} \<inter> reg_span r \<inter> free_bytes lmm = {}"
  defines "b \<equiv> (if lo < reg_min r then reg_min r else lo)"
    and "e \<equiv> (if hi > reg_max r then reg_max r else hi)"
  shows "e > b" and "\<exists>rs. lmm_free lmm b (e - b) = Some (lmm\<lparr>regions := rs\<rparr>) \<and>
    list_all2 (reg_more ({unat lo..<unat hi} \<inter> reg_span r)) rs (regions lmm)"
proof -
  have rr: "unat (reg_min r) < unat (reg_max r)" "8 dvd unat (reg_min r)" "8 dvd unat (reg_max r)"
    using r(3) by (auto simp: reg_inv_def word_less_nat_alt)
  have b: "unat b = max (unat lo) (unat (reg_min r))" and e: "unat e = min (unat hi) (unat (reg_max r))"
    by (auto simp: b_def e_def word_less_nat_alt)
  have d: "8 dvd unat b" "8 dvd unat e"
    using al rr by (auto simp: b e max_def min_def)
  have less: "unat b < unat e"
    using over rr by (simp add: b e word_less_nat_alt)
  then show "e > b" by (simp add: word_less_nat_alt)
  have w: "unat (e - b) = unat e - unat b" using less by (simp add: unat_diff_nowrap)
  have B: "{unat lo..<unat hi} \<inter> reg_span r = {unat b..<unat b + (unat e - unat b)}"
    using less by (auto simp: b e reg_span_def)
  have "0 < unat b"
  proof (rule ccontr)
    assume "\<not> 0 < unat b"
    with less have "0 \<in> {unat b..<unat b + (unat e - unat b)}" by simp
    with pos show False unfolding B by blast
  qed
  moreover have "{unat b..<unat b + (unat e - unat b)} \<subseteq> reg_span r'"
    using B reg_same_span [OF r(2)] by blast
  moreover have "{unat b..<unat b + (unat e - unat b)} \<inter> bytes (reg_nodes r') = {}"
    using dis r(1) unfolding B by (auto simp: free_bytes_def regs_bytes_def)
  moreover have "0 < unat (e - b)" using w less by simp
  moreover have "unat b = blk_beg (unat b)" "unat e - unat b = blk_len (unat b) (unat (e - b))"
    using blk_aligned [OF d] less w by auto
  ultimately show "\<exists>rs. lmm_free lmm b (e - b) = Some (lmm\<lparr>regions := rs\<rparr>) \<and>
      list_all2 (reg_more ({unat lo..<unat hi} \<inter> reg_span r)) rs (regions lmm)"
    unfolding B by (intro lmm_free_spec [OF inv r(1)])
qed

lemma regs_same_trans:
  "list_all2 reg_same rs rs' \<Longrightarrow> list_all2 reg_same rs' rs'' \<Longrightarrow> list_all2 reg_same rs rs''"
  by (auto simp: list_all2_conv_all_nth reg_same_def)

lemma lmm_add_free_loop_ok:
  assumes "lmm_inv lmm" "regs_inv rs" "\<forall>r\<in>set rs. \<exists>r'\<in>set (regions lmm). reg_same r' r"
    and al: "8 dvd unat lo" "8 dvd unat hi" "lo < hi"
    and "\<forall>r\<in>set rs. 0 \<notin> {unat lo..<unat hi} \<inter> reg_span r"
    and "\<forall>r\<in>set rs. {unat lo..<unat hi} \<inter> reg_span r \<inter> free_bytes lmm = {}"
  shows "\<exists>lmm'. lmm_add_free_loop lo hi rs lmm = Some lmm' \<and> lmm_inv lmm' \<and>
    free_bytes lmm' = free_bytes lmm \<union> ({unat lo..<unat hi} \<inter> (\<Union>r\<in>set rs. reg_span r)) \<and>
    list_all2 reg_same (regions lmm') (regions lmm)"
  using assms(1-3,7,8)
proof (induction rs arbitrary: lmm)
  case Nil
  then show ?case by (auto simp: list_all2_same)
next
  case (Cons r rs)
  let ?B = "{unat lo..<unat hi} \<inter> reg_span r"
  have r: "reg_inv r" and rs: "regs_inv rs" using Cons.prems(2) by (auto simp: regs_inv_Cons)
  then have asserts: "reg_min r < reg_max r" "reg_min r AND ALIGN_MASK = 0" "reg_max r AND ALIGN_MASK = 0"
    by (auto simp: reg_inv_def and_ALIGN_MASK_eq_0_iff)
  obtain r' where r': "r' \<in> set (regions lmm)" "reg_same r' r" using Cons.prems(3) by auto
  have disj: "?B \<inter> reg_span t = {}" if "t \<in> set rs" for t
    using Cons.prems(2) that reg_disjoint_span by (auto simp: regs_inv_Cons)
  show ?case
  proof (cases "hi > reg_min r \<and> lo < reg_max r")
    case False
    then have "?B = {}" by (auto simp: reg_span_def wnat)
    moreover have "lmm_add_free_loop lo hi (r # rs) lmm = lmm_add_free_loop lo hi rs lmm"
      using False asserts by auto
    moreover obtain lmm' where "lmm_add_free_loop lo hi rs lmm = Some lmm'" "lmm_inv lmm'"
      "free_bytes lmm' = free_bytes lmm \<union> ({unat lo..<unat hi} \<inter> (\<Union>r\<in>set rs. reg_span r))"
      "list_all2 reg_same (regions lmm') (regions lmm)"
      using Cons.IH [OF Cons.prems(1) rs] Cons.prems(3-5) by auto
    ultimately show ?thesis by (auto simp: Int_Un_distrib)
  next
    case True
    let ?b = "if lo < reg_min r then reg_min r else lo"
    let ?e = "if hi > reg_max r then reg_max r else hi"
    have step: "?e > ?b" "\<exists>ts. lmm_free lmm ?b (?e - ?b) = Some (lmm\<lparr>regions := ts\<rparr>) \<and>
        list_all2 (reg_more ?B) ts (regions lmm)"
      using lmm_add_free_step [OF Cons.prems(1) r' r al(1,2) _ _ al(3)] True Cons.prems(4,5) by auto
    then obtain ts where ts: "lmm_free lmm ?b (?e - ?b) = Some (lmm\<lparr>regions := ts\<rparr>)"
      "list_all2 (reg_more ?B) ts (regions lmm)" by blast
    let ?lmm = "lmm\<lparr>regions := ts\<rparr>"
    have inv: "lmm_inv ?lmm"
      using regs_more_inv [OF _ ts(2)] Cons.prems(1) by (simp add: lmm_inv_def)
    have same: "list_all2 reg_same ts (regions lmm)"
      using ts(2) by (rule list_all2_mono) (simp add: reg_more_def)
    have "reg_span r' \<subseteq> (\<Union>t\<in>set (regions lmm). reg_span t)" using r'(1) by blast
    then have fb: "free_bytes ?lmm = free_bytes lmm \<union> ?B"
      using regs_more_bytes [OF ts(2)] reg_same_span [OF r'(2)] by (auto simp: free_bytes_def)
    have "\<exists>lmm'. lmm_add_free_loop lo hi rs ?lmm = Some lmm' \<and> lmm_inv lmm' \<and>
      free_bytes lmm' = free_bytes ?lmm \<union> ({unat lo..<unat hi} \<inter> (\<Union>r\<in>set rs. reg_span r)) \<and>
      list_all2 reg_same (regions lmm') (regions ?lmm)"
    proof (rule Cons.IH [OF inv rs])
      show "\<forall>t\<in>set rs. \<exists>t'\<in>set (regions ?lmm). reg_same t' t"
      proof
        fix t assume "t \<in> set rs"
        then obtain u where u: "u \<in> set (regions lmm)" "reg_same u t" using Cons.prems(3) by auto
        then obtain u' where "u' \<in> set ts" "reg_same u' u"
          using same by (metis in_set_conv_nth list_all2_conv_all_nth)
        then show "\<exists>t'\<in>set (regions ?lmm). reg_same t' t"
          using u(2) by (auto simp: reg_same_def)
      qed
      show "\<forall>t\<in>set rs. {unat lo..<unat hi} \<inter> reg_span t \<inter> free_bytes ?lmm = {}"
        using Cons.prems(5) disj unfolding fb by fastforce
    qed (use Cons.prems(4) in auto)
    moreover have "lmm_add_free_loop lo hi (r # rs) lmm = lmm_add_free_loop lo hi rs ?lmm"
      using True asserts step(1) ts(1) by (simp add: Let_def del: if_split)
    moreover have "list_all2 reg_same (regions l) (regions lmm)" if "list_all2 reg_same (regions l) ts" for l
      using that same by (rule regs_same_trans)
    ultimately show ?thesis unfolding fb by (auto simp: Int_Un_distrib)
  qed
qed

lemma lmm_add_free_spec:
  assumes inv: "lmm_inv lmm" and "unat p + unat sz < 2 ^ 32" "unat p + 7 < 2 ^ 32"
    and lo: "lo = round_up 8 (unat p)" and hi: "hi = round_down 8 (unat p + unat sz)"
    and "lo \<le> hi" and "0 \<notin> {lo..<hi} \<inter> pool_span lmm" and "{lo..<hi} \<inter> free_bytes lmm = {}"
  shows "\<exists>lmm'. lmm_add_free lmm p sz = Some lmm' \<and> lmm_inv lmm' \<and>
    free_bytes lmm' = free_bytes lmm \<union> ({lo..<hi} \<inter> pool_span lmm) \<and>
    list_all2 reg_same (regions lmm') (regions lmm)"
proof -
  define l where "l = (p + ALIGN_MASK) AND NOT ALIGN_MASK"
  define h where "h = (p + sz) AND NOT ALIGN_MASK"
  have l: "unat l = lo" unfolding l_def lo by (rule unat_round_up [OF assms(3)])
  have h: "unat h = hi" unfolding h_def hi using assms(2) by (simp add: unat_add_nowrap)
  have code: "lmm_add_free lmm p sz =
      (if h = l then Some lmm else lmm_add_free_loop l h (regions lmm) lmm)"
  proof -
    have "h \<ge> l" using assms(6) l h by (simp add: word_le_nat_alt)
    then show ?thesis by (simp add: lmm_add_free_def l_def [symmetric] h_def [symmetric])
  qed
  show ?thesis
  proof (cases "h = l")
    case True
    then show ?thesis using inv l h by (simp add: code list_all2_same)
  next
    case False
    then have less: "l < h" using assms(6) l h by (simp add: word_less_nat_alt u32_eq_iff_unat)
    have "\<exists>lmm'. lmm_add_free_loop l h (regions lmm) lmm = Some lmm' \<and> lmm_inv lmm' \<and>
      free_bytes lmm' = free_bytes lmm \<union> ({unat l..<unat h} \<inter> (\<Union>r\<in>set (regions lmm). reg_span r)) \<and>
      list_all2 reg_same (regions lmm') (regions lmm)"
    proof (rule lmm_add_free_loop_ok [OF inv _ _ _ _ less])
      show "8 dvd unat l" "8 dvd unat h" unfolding l h lo hi by (simp_all add: round_up_dvd round_down_dvd)
      show "regs_inv (regions lmm)" using inv by (simp add: lmm_inv_def)
      show "\<forall>r\<in>set (regions lmm). \<exists>r'\<in>set (regions lmm). reg_same r' r" using reg_same_refl by blast
      show "\<forall>r\<in>set (regions lmm). 0 \<notin> {unat l..<unat h} \<inter> reg_span r"
        using assms(7) unfolding l h pool_span_def by blast
      show "\<forall>r\<in>set (regions lmm). {unat l..<unat h} \<inter> reg_span r \<inter> free_bytes lmm = {}"
        using assms(8) unfolding l h by blast
    qed
    then show ?thesis using False by (simp add: code l h pool_span_def)
  qed
qed

section \<open>\<open>lmm_avail\<close>\<close>

lemma regs_bytes_below: "regs_inv rs \<Longrightarrow> regs_bytes rs \<subseteq> {1..<2 ^ 32}"
proof
  fix x assume inv: "regs_inv rs" and "x \<in> regs_bytes rs"
  then obtain r where r: "r \<in> set rs" "x \<in> bytes (reg_nodes r)" by (auto simp: regs_bytes_def)
  then have "chain (max 1 (unat (reg_min r))) (unat (reg_max r)) (reg_nodes r)"
    using inv by (auto simp: regs_inv_def list_all_iff reg_inv_def)
  from bytes_bounds [OF this] r(2) have "1 \<le> x" "x \<le> unat (reg_max r)" by auto
  then show "x \<in> {1..<2 ^ 32}" using le_unat_less by auto
qed

lemma finite_regs_bytes [simp]: "finite (regs_bytes rs)"
  by (simp add: regs_bytes_def)

lemma regs_inv_filter: "regs_inv rs \<Longrightarrow> regs_inv (filter P rs)"
  by (induction rs) (auto simp: regs_inv_Cons)

lemma card_regs_bytes: "regs_inv rs \<Longrightarrow> card (regs_bytes rs) < 2 ^ 32"
  using card_mono [OF _ regs_bytes_below, of rs] by simp

lemma card_regs_bytes_Cons:
  assumes "regs_inv (r # rs)"
  shows "card (regs_bytes (r # rs)) = unat (reg_free r) + card (regs_bytes rs)"
proof -
  have r: "reg_inv r" using assms by (simp add: regs_inv_Cons)
  have "bytes (reg_nodes r) \<inter> regs_bytes rs = {}"
    using regs_bytes_disjoint [OF assms] reg_inv_bytes [OF r] by blast
  moreover have "unat (reg_free r) = card (bytes (reg_nodes r))"
    using r by (auto simp: reg_inv_def chain_len_card)
  ultimately show ?thesis by (simp add: card_Un_disjoint)
qed

lemma lmm_avail_loop_ok:
  assumes "regs_inv rs" "unat count + card (regs_bytes (filter (reg_ok_for flags) rs)) < 2 ^ 32"
  shows "\<exists>c. lmm_avail_loop flags rs count = Some c \<and>
    unat c = unat count + card (regs_bytes (filter (reg_ok_for flags) rs))"
  using assms
proof (induction rs arbitrary: count)
  case Nil
  then show ?case by simp
next
  case (Cons r rs)
  have inv: "reg_inv r" "regs_inv rs" using Cons.prems(1) by (auto simp: regs_inv_Cons)
  show ?case
  proof (cases "reg_ok_for flags r")
    case False
    then show ?thesis using Cons inv by (simp add: reg_ok_for_def)
  next
    case True
    have card: "card (regs_bytes (filter (reg_ok_for flags) (r # rs))) =
        unat (reg_free r) + card (regs_bytes (filter (reg_ok_for flags) rs))"
      using card_regs_bytes_Cons [of r "filter (reg_ok_for flags) rs"]
        regs_inv_filter [OF Cons.prems(1), of "reg_ok_for flags"] True by simp
    then have sum: "unat (count + reg_free r) = unat count + unat (reg_free r)"
      using Cons.prems(2) by (simp add: unat_add_nowrap)
    have "lmm_avail_loop flags (r # rs) count = lmm_avail_loop flags rs (count + reg_free r)"
      using True inv(1) by (simp add: reg_ok_for_def)
    then show ?thesis
      using Cons.IH [OF inv(2), of "count + reg_free r"] Cons.prems(2) unfolding card sum
      by (simp add: add.assoc)
  qed
qed

lemma lmm_avail_spec:
  assumes "lmm_inv lmm"
  shows "lmm_avail lmm flags = Some (of_nat (card (free_bytes_for flags lmm)))"
    and "card (free_bytes_for flags lmm) < 2 ^ 32"
proof -
  have inv: "regs_inv (regions lmm)" using assms by (simp add: lmm_inv_def)
  show c: "card (free_bytes_for flags lmm) < 2 ^ 32"
    using card_regs_bytes [OF regs_inv_filter [OF inv]] by (simp add: free_bytes_for_def)
  then obtain w where "lmm_avail_loop flags (regions lmm) 0 = Some w"
    "unat w = card (free_bytes_for flags lmm)"
    using lmm_avail_loop_ok [OF inv, of 0 flags] by (auto simp: free_bytes_for_def)
  then show "lmm_avail lmm flags = Some (of_nat (card (free_bytes_for flags lmm)))"
    by (metis lmm_avail_def word_unat_eq_iff c unat_of_nat_u32)
qed

end
