(* ===== verification/LMM_Remove.thy ===== *)
theory LMM_Remove
  imports LMM_Pool
begin

text \<open>
  Searching a pool by address (\<open>lmm_find_free\<close>) and removing an address range from it
  (\<open>lmm_remove_free\<close>), whose loop alternates the search with \<open>lmm_alloc_gen\<close>.
\<close>

section \<open>\<open>lmm_find_free\<close>\<close>

text \<open>\<open>(a, s)\<close> is the part from address \<open>start\<close> on of the first run of free bytes of \<open>B\<close> that
  reaches beyond \<open>start\<close>.\<close>

definition first_run :: "nat \<Rightarrow> nat set \<Rightarrow> nat \<Rightarrow> nat \<Rightarrow> bool" where
  "first_run start B a s \<longleftrightarrow>
     start \<le> a \<and> 0 < s \<and> {a..<a + s} \<subseteq> B \<and> a + s \<notin> B \<and> (\<forall>x\<in>B. start \<le> x \<longrightarrow> a \<le> x)"

definition nodes_found ::
    "nat \<Rightarrow> lmm_region \<Rightarrow> lmm_node list \<Rightarrow> addr \<times> u32 \<times> u32 \<Rightarrow> addr \<times> u32 \<times> u32 \<Rightarrow> bool" where
  "nodes_found start r ns low out \<longleftrightarrow>
     out = low \<and> bytes ns \<inter> {start..<unat (fst low)} = {} \<or>
     (\<exists>a s. out = (a, s, reg_flags r) \<and> first_run start (bytes ns) (unat a) (unat s) \<and>
        8 dvd unat a \<and> a < fst low)"

lemma first_run_in: "first_run start B a s \<Longrightarrow> a \<in> B"
  by (auto simp: first_run_def)

lemma first_run_Cons:
  assumes "chain lo hi (n # ns)" "nend n \<le> start" "first_run start (bytes ns) a s"
  shows "first_run start (bytes (n # ns)) a s"
  using assms unfolding first_run_def by (auto simp: node_bytes_def)

lemma lmm_find_free_nodes_ok:
  assumes "chain lo (unat (reg_max r)) ns" "unat (reg_min r) \<le> lo" "8 dvd unat start"
    and "start \<le> fst low" "unat (fst low) \<notin> bytes ns"
  shows "\<exists>out. lmm_find_free_nodes start r ns low = Some out \<and> nodes_found (unat start) r ns low out"
  using assms
proof (induction ns)
  case Nil
  then show ?case by (simp add: nodes_found_def)
next
  case (Cons n ns)
  have n: "node_ok lo (unat (reg_max r)) n" and c: "chain lo (unat (reg_max r)) ns"
    using Cons.prems(1) by (auto simp: chain_Cons)
  have d: "8 dvd nbeg n" "nend n < 2 ^ 32" "nbeg n < nend n"
    using n le_unat_less [of "nend n" "reg_max r"] by (auto simp: node_ok_def nend_def)
  have asserts: "node_addr n \<ge> reg_min r" "node_addr n < reg_max r"
    using n Cons.prems(2) by (auto simp: node_ok_def nend_def wnat)
  have end_word: "node_addr n + node_size n > start \<longleftrightarrow> nend n > unat start"
    using d(2) by (simp add: word_less_nat_alt unat_add_nowrap nend_def)
  have beyond: "bytes ns \<subseteq> {Suc (nend n)..<unat (reg_max r)}" by (rule chain_bytes_beyond [OF Cons.prems(1)])
  consider (stop) "node_addr n \<ge> fst low" | (hit) "node_addr n < fst low" "nend n > unat start"
    | (past) "node_addr n < fst low" "nend n \<le> unat start" by fastforce
  then show ?case
  proof cases
    case stop
    then have "bytes (n # ns) \<inter> {unat start..<unat (fst low)} = {}"
      using beyond d(3) by (auto simp: node_bytes_def word_le_nat_alt)
    then show ?thesis using stop asserts by (simp add: nodes_found_def)
  next
    case hit
    define a where "a = (if node_addr n > start then node_addr n else start)"
    define s where "s = (if node_addr n > start then node_size n else node_size n - (start - node_addr n))"
    have a: "unat a = max (unat start) (nbeg n)" by (auto simp: a_def wnat)
    have s: "unat a + unat s = nend n"
      using hit(2) by (auto simp: s_def a nend_def wnat)
    have "unat a \<in> bytes (n # ns)" using hit(2) d(3) by (simp add: a node_bytes_def)
    then have "a \<noteq> fst low" using Cons.prems(5) by metis
    moreover have "a \<le> fst low" using hit(1) Cons.prems(4) by (auto simp: a_def)
    ultimately have "a < fst low" by simp
    moreover have "first_run (unat start) (bytes (n # ns)) (unat a) (unat s)"
      unfolding first_run_def s using beyond hit(2) a d(3) chain_gap [OF Cons.prems(1)]
        s by (auto simp: node_bytes_def)
    moreover have "8 dvd unat a" using Cons.prems(3) d(1) by (simp add: a max_def)
    ultimately have "nodes_found (unat start) r (n # ns) low (a, s, reg_flags r)"
      by (auto simp: nodes_found_def)
    moreover have "lmm_find_free_nodes start r (n # ns) low = Some (a, s, reg_flags r)"
      using hit(2) hit(1) [unfolded not_le [symmetric]] asserts end_word by (simp add: a_def s_def)
    ultimately show ?thesis by blast
  next
    case past
    then have "lmm_find_free_nodes start r (n # ns) low = lmm_find_free_nodes start r ns low"
      using past(1) [unfolded not_le [symmetric]] asserts end_word by simp
    moreover obtain out where out: "lmm_find_free_nodes start r ns low = Some out"
      "nodes_found (unat start) r ns low out"
      using Cons.IH [OF c Cons.prems(2-4)] Cons.prems(5) by auto
    moreover have "node_bytes n \<inter> {unat start..<unat (fst low)} = {}"
      using past by (auto simp: node_bytes_def)
    ultimately show ?thesis
      using first_run_Cons [OF Cons.prems(1) past(2)] by (fastforce simp: nodes_found_def)
  qed
qed

text \<open>The state of the search after the regions \<open>rs\<close>.\<close>

definition regs_found :: "nat \<Rightarrow> lmm_region set \<Rightarrow> addr \<times> u32 \<times> u32 \<Rightarrow> bool" where
  "regs_found start R out \<longleftrightarrow>
     out = (-1, 0, 0) \<and> (\<forall>r\<in>R. bytes (reg_nodes r) \<inter> {start..} = {}) \<or>
     (\<exists>r\<in>R. \<exists>a s. out = (a, s, reg_flags r) \<and>
        first_run start (bytes (reg_nodes r)) (unat a) (unat s) \<and> 8 dvd unat a \<and>
        (\<forall>t\<in>R. \<forall>x\<in>bytes (reg_nodes t). start \<le> x \<longrightarrow> unat a \<le> x))"

lemma unat_minus_one_u32: "unat (-1 :: u32) = 2 ^ 32 - 1"
  by (simp add: unsigned_minus_1_eq_mask mask_eq_exp_minus_1)

lemma reg_bytes_less:
  assumes "reg_inv r" "x \<in> bytes (reg_nodes r)"
  shows "x + 8 < 2 ^ 32"
proof -
  have "x < unat (reg_max r)" using reg_inv_bytes [OF assms(1)] assms(2) by (auto simp: reg_span_def)
  moreover have "unat (reg_max r) + 8 \<le> 2 ^ 32"
    using assms(1) by (intro dvd_less_imp_add_le) (auto simp: reg_inv_def)
  ultimately show ?thesis by linarith
qed

lemma regs_found_insert:
  assumes found: "regs_found start R low" and step: "nodes_found start r (reg_nodes r) low out"
    and inv: "reg_inv r"
  shows "regs_found start (insert r R) out"
proof -
  have small: "x < 2 ^ 32 - 1" if "x \<in> bytes (reg_nodes r)" for x
    using reg_bytes_less [OF inv that] by simp
  from step consider (keep) "out = low" "bytes (reg_nodes r) \<inter> {start..<unat (fst low)} = {}"
    | (hit) a s where "out = (a, s, reg_flags r)" "8 dvd unat a" "a < fst low"
        "first_run start (bytes (reg_nodes r)) (unat a) (unat s)"
    unfolding nodes_found_def by blast
  then show ?thesis
  proof cases
    case keep
    from found [unfolded regs_found_def] show ?thesis
    proof (elim disjE conjE bexE exE)
      assume "low = (-1, 0, 0)" "\<forall>r\<in>R. bytes (reg_nodes r) \<inter> {start..} = {}"
      moreover from this keep small have "bytes (reg_nodes r) \<inter> {start..} = {}"
        by (fastforce simp: unat_minus_one_u32)
      ultimately show ?thesis using keep(1) by (simp add: regs_found_def)
    next
      fix t a s assume "t \<in> R" and low: "low = (a, s, reg_flags t)" "8 dvd unat a"
        "first_run start (bytes (reg_nodes t)) (unat a) (unat s)"
        and least: "\<forall>t\<in>R. \<forall>x\<in>bytes (reg_nodes t). start \<le> x \<longrightarrow> unat a \<le> x"
      moreover have "\<forall>x\<in>bytes (reg_nodes r). start \<le> x \<longrightarrow> unat a \<le> x"
        using keep(2) low(1) by (auto simp: disjoint_iff not_less)
      ultimately show ?thesis using keep(1) unfolding regs_found_def by blast
    qed
  next
    case hit
    have "unat a \<le> x" if "t \<in> R" "x \<in> bytes (reg_nodes t)" "start \<le> x" for t x
      using found that hit(3) unfolding regs_found_def by (force simp: word_less_nat_alt)
    then show ?thesis using hit unfolding regs_found_def first_run_def by blast
  qed
qed

lemma regs_found_low:
  assumes "regs_found (unat start) R low" "reg_inv r" "\<forall>t\<in>R. reg_inv t \<and> reg_span t \<inter> reg_span r = {}"
    and "unat start < 2 ^ 32 - 1"
  shows "start \<le> fst low" "unat (fst low) \<notin> bytes (reg_nodes r)"
proof -
  show "start \<le> fst low"
    using assms(1,4) unfolding regs_found_def
    by (auto simp: first_run_def word_le_nat_alt unat_minus_one_u32)
  from assms(1) [unfolded regs_found_def] show "unat (fst low) \<notin> bytes (reg_nodes r)"
  proof (elim disjE conjE bexE exE)
    assume "low = (-1, 0, 0)"
    then show ?thesis using reg_bytes_less [OF assms(2)] by (force simp: unat_minus_one_u32)
  next
    fix t a s assume "t \<in> R" "low = (a, s, reg_flags t)" "first_run (unat start) (bytes (reg_nodes t)) (unat a) (unat s)"
    then have "unat (fst low) \<in> reg_span t"
      using assms(3) reg_inv_bytes [of t] first_run_in by fastforce
    then show ?thesis using assms(3) \<open>t \<in> R\<close> reg_inv_bytes [OF assms(2)] by blast
  qed
qed

lemma lmm_find_free_regions_ok:
  assumes "regs_inv rs" "\<forall>t\<in>R. reg_inv t \<and> (\<forall>r\<in>set rs. reg_span t \<inter> reg_span r = {})"
    and "regs_found (unat start) R low" and start: "8 dvd unat start" "unat start < 2 ^ 32 - 1"
  shows "\<exists>out. lmm_find_free_regions start rs low = Some out \<and> regs_found (unat start) (R \<union> set rs) out"
  using assms(1-3)
proof (induction rs arbitrary: R low)
  case Nil
  then show ?case by simp
next
  case (Cons r rs)
  have r: "reg_inv r" and rs: "regs_inv rs" using Cons.prems(1) by (auto simp: regs_inv_Cons)
  then have c: "chain (max 1 (unat (reg_min r))) (unat (reg_max r)) (reg_nodes r)" by (simp add: reg_inv_def)
  have low: "start \<le> fst low" "unat (fst low) \<notin> bytes (reg_nodes r)"
    using regs_found_low [OF Cons.prems(3) r _ start(2)] Cons.prems(2) by auto
  let ?skip = "reg_nodes r = [] \<or> reg_max r \<le> start \<or> reg_min r > fst low"
  have "\<exists>out. (if ?skip then Some low else lmm_find_free_nodes start r (reg_nodes r) low) = Some out \<and>
      nodes_found (unat start) r (reg_nodes r) low out"
  proof (cases ?skip)
    case True
    then have "bytes (reg_nodes r) \<inter> {unat start..<unat (fst low)} = {}"
      using reg_inv_bytes [OF r] by (fastforce simp: reg_span_def wnat)
    then show ?thesis using True by (simp add: nodes_found_def)
  qed (use lmm_find_free_nodes_ok [OF c _ start(1) low] in simp)
  then obtain out where out: "(if ?skip then Some low else lmm_find_free_nodes start r (reg_nodes r) low) = Some out"
    "nodes_found (unat start) r (reg_nodes r) low out" by blast
  have "lmm_find_free_regions start (r # rs) low = lmm_find_free_regions start rs out"
    unfolding lmm_find_free_regions.simps out(1) by simp
  moreover have "\<forall>t\<in>insert r R. reg_inv t \<and> (\<forall>u\<in>set rs. reg_span t \<inter> reg_span u = {})"
    using Cons.prems(1,2) r reg_disjoint_span by (fastforce simp: regs_inv_Cons)
  ultimately show ?case
    using Cons.IH [OF rs _ regs_found_insert [OF Cons.prems(3) out(2) r]] by simp
qed

lemma lmm_find_free_spec:
  assumes "lmm_inv lmm" "unat p + 7 < 2 ^ 32"
  shows "\<exists>out. lmm_find_free lmm p = Some out \<and> regs_found (round_up 8 (unat p)) (set (regions lmm)) out"
proof -
  define start where "start = (p + ALIGN_MASK) AND NOT ALIGN_MASK"
  have start: "unat start = round_up 8 (unat p)"
    unfolding start_def by (rule unat_round_up [OF assms(2)])
  then have d: "8 dvd unat start" by (simp add: round_up_dvd)
  then have "unat start < 2 ^ 32 - 1" using dvd_less_imp_add_le [of 8 "unat start" "2 ^ 32"] by simp
  moreover have "regs_found (unat start) {} (-1, 0, 0)" by (simp add: regs_found_def)
  ultimately show ?thesis
    using lmm_find_free_regions_ok [of "regions lmm" "{}" start "(-1, 0, 0)"] assms(1) d
    by (simp add: lmm_find_free_def start start_def [symmetric] lmm_inv_def)
qed

section \<open>\<open>lmm_remove_free\<close>\<close>

text \<open>Taking out the run that \<open>lmm_find_free\<close> returned, or its part below \<open>rend\<close>, always
  succeeds and returns that very address.\<close>

lemma lmm_alloc_gen_exact:
  assumes inv: "lmm_inv lmm" and r: "r \<in> set (regions lmm)"
    and sz: "0 < unat sz" and run: "{unat a..<unat a + unat sz} \<subseteq> bytes (reg_nodes r)"
  shows "\<exists>rs. lmm_alloc_gen lmm sz (reg_flags r) 0 0 a sz = Some (a, lmm\<lparr>regions := rs\<rparr>) \<and>
    regs_cut (reg_ok_for (reg_flags r)) (blk_beg (unat a)) (blk_len (unat a) (unat sz)) (regions lmm) rs"
proof -
  have "unat a + unat sz - 1 \<in> bytes (reg_nodes r)" using run sz by auto
  moreover have "reg_inv r" using inv r by (auto simp: lmm_inv_def regs_inv_def list_all_iff)
  ultimately have "unat a + unat sz < 2 ^ 32"
    using reg_bytes_less [of r "unat a + unat sz - 1"] by simp
  then have sum: "unat (a + sz) = unat a + unat sz"
    and room: "unat a + unat sz + 2 ^ 0 \<le> 2 ^ 32" by (simp_all add: unat_add_nowrap)
  have ok: "reg_ok_for (reg_flags r) r" by (simp add: reg_ok_for_def)
  have "gen_fits 0 0 a (a + sz) sz (unat a)" by (simp add: gen_fits_def sum)
  with ok r run have "\<exists>r'\<in>set (regions lmm). \<exists>x. reg_ok_for (reg_flags r) r' \<and>
      gen_fits 0 0 a (a + sz) sz x \<and> {x..<x + unat sz} \<subseteq> bytes (reg_nodes r')" by blast
  then obtain p rs where p: "lmm_alloc_gen lmm sz (reg_flags r) 0 0 a sz = Some (p, lmm\<lparr>regions := rs\<rparr>)"
    "gen_fits 0 0 a (a + sz) sz (unat p)"
    "regs_cut (reg_ok_for (reg_flags r)) (blk_beg (unat p)) (blk_len (unat p) (unat sz)) (regions lmm) rs"
    using lmm_alloc_gen_spec [OF inv room sz, of "reg_flags r" 0 sz] by auto
  have "unat p = unat a" using p(2) by (simp add: gen_fits_def sum)
  then have "p = a" by (simp add: u32_eq_iff_unat)
  with p show ?thesis by blast
qed

lemma regs_cut_same: "regs_cut P x s rs rs' \<Longrightarrow> list_all2 reg_same rs' rs"
  unfolding regs_cut_def by (elim conjE) (erule list_all2_mono, simp add: reg_less_def)

lemma finite_free_bytes [simp]: "finite (free_bytes lmm)"
  by (simp add: free_bytes_def)

lemma lmm_remove_free_take:
  assumes inv: "lmm_inv lmm" and r: "r \<in> set (regions lmm)"
    and s: "0 < unat s" "{unat a..<unat a + unat s} \<subseteq> bytes (reg_nodes r)" and a: "8 dvd unat a" "a < rend"
  defines "sz \<equiv> (if a + s > rend then rend - a else s)"
  shows "\<exists>rs. lmm_alloc_gen lmm sz (reg_flags r) 0 0 a sz = Some (a, lmm\<lparr>regions := rs\<rparr>) \<and>
    list_all2 reg_same rs (regions lmm) \<and> lmm_inv (lmm\<lparr>regions := rs\<rparr>) \<and>
    free_bytes (lmm\<lparr>regions := rs\<rparr>) = free_bytes lmm - {unat a..<round_up 8 (unat a + unat sz)} \<and>
    0 < unat sz \<and> unat a + unat sz \<le> unat rend"
proof -
  have "unat a + unat s - 1 \<in> bytes (reg_nodes r)" using s by auto
  moreover have "reg_inv r" using inv r by (auto simp: lmm_inv_def regs_inv_def list_all_iff)
  ultimately have "unat a + unat s < 2 ^ 32"
    using reg_bytes_less [of r "unat a + unat s - 1"] by simp
  then have sum: "unat (a + s) = unat a + unat s" by (simp add: unat_add_nowrap)
  have sz: "unat sz = min (unat s) (unat rend - unat a)"
    using a(2) sum by (auto simp: sz_def word_less_nat_alt unat_diff_nowrap)
  then have pos: "0 < unat sz" "unat a + unat sz \<le> unat rend" using s(1) a(2) by (auto simp: word_less_nat_alt)
  have "{unat a..<unat a + unat sz} \<subseteq> bytes (reg_nodes r)"
    using s(2) sz by (intro order_trans [OF _ s(2)]) simp
  then obtain rs where rs: "lmm_alloc_gen lmm sz (reg_flags r) 0 0 a sz = Some (a, lmm\<lparr>regions := rs\<rparr>)"
    "regs_cut (reg_ok_for (reg_flags r)) (blk_beg (unat a)) (blk_len (unat a) (unat sz)) (regions lmm) rs"
    using lmm_alloc_gen_exact [OF inv r pos(1)] by blast
  have "blk_beg (unat a) = unat a" using a(1) by (simp add: blk_beg_def round_down_eq)
  then have "free_bytes (lmm\<lparr>regions := rs\<rparr>) = free_bytes lmm - {unat a..<round_up 8 (unat a + unat sz)}"
    using regs_cut_pool(3) [OF inv rs(2)] blk_end [of "unat a" "unat sz"] by simp
  then show ?thesis
    using rs pos regs_cut_same [OF rs(2)] regs_cut_pool(1) [OF inv rs(2)] by blast
qed

lemma regs_found_cases:
  "regs_found start (set rs) (a, s, f) \<Longrightarrow>
     a = -1 \<and> s = 0 \<and> regs_bytes rs \<inter> {start..} = {} \<or>
     (\<exists>r\<in>set rs. f = reg_flags r \<and> 8 dvd unat a \<and>
        first_run start (bytes (reg_nodes r)) (unat a) (unat s) \<and>
        (\<forall>x\<in>regs_bytes rs. start \<le> x \<longrightarrow> unat a \<le> x))"
  unfolding regs_found_def regs_bytes_def by blast

lemma lmm_remove_free_loop_ok:
  assumes "lmm_inv lmm" "block \<le> rstart" "unat rstart + 7 < 2 ^ 32"
  shows "\<exists>lmm'. lmm_remove_free_loop block rend rstart lmm = Some lmm' \<and> lmm_inv lmm' \<and>
    free_bytes lmm' = free_bytes lmm - {round_up 8 (unat rstart)..<round_up 8 (unat rend)} \<and>
    list_all2 reg_same (regions lmm') (regions lmm)"
  using assms
proof (induction "card (free_bytes lmm)" arbitrary: lmm rstart rule: less_induct)
  case less
  let ?start = "round_up 8 (unat rstart)" and ?hi = "round_up 8 (unat rend)"
  note unfold = lmm_remove_free_loop.simps [of block rend rstart lmm]
  have free: "free_bytes lmm = (\<Union>r\<in>set (regions lmm). bytes (reg_nodes r))"
    by (simp add: free_bytes_def regs_bytes_def)
  have stop: ?case if "lmm_remove_free_loop block rend rstart lmm = Some lmm"
      "free_bytes lmm \<inter> {?start..<?hi} = {}"
    using that less.prems(1) by (auto simp: list_all2_same)
  obtain a s f where out: "lmm_find_free lmm rstart = Some (a, s, f)"
    and found: "regs_found ?start (set (regions lmm)) (a, s, f)"
    using lmm_find_free_spec [OF less.prems(1,3)] by (metis prod_cases3)
  consider (over) "\<not> rstart < rend" | (none) "rstart < rend" "a = -1" "s = 0" "free_bytes lmm \<inter> {?start..} = {}"
    | (run) r where "rstart < rend" "r \<in> set (regions lmm)" "f = reg_flags r" "8 dvd unat a"
        "first_run ?start (bytes (reg_nodes r)) (unat a) (unat s)"
        "\<forall>x\<in>free_bytes lmm. ?start \<le> x \<longrightarrow> unat a \<le> x"
    using regs_found_cases [OF found] unfolding free_bytes_def by blast
  then show ?case
  proof cases
    case over
    then have "?hi \<le> ?start" by (intro round_up_mono) (simp add: word_less_nat_alt)
    then show ?thesis using over by (intro stop) (simp_all add: unfold)
  next
    case none
    then have "block \<le> a" by simp
    then show ?thesis using none out by (intro stop) (auto simp: unfold)
  next
    case run
    have a: "?start \<le> unat a" "0 < unat s" "{unat a..<unat a + unat s} \<subseteq> bytes (reg_nodes r)"
      using run(5) by (auto simp: first_run_def)
    have ge: "rstart \<le> a" "block \<le> a"
      using a(1) round_up_ge [of 8 "unat rstart"] less.prems(2) by (auto simp: word_le_nat_alt)
    show ?thesis
    proof (cases "a \<ge> rend")
      case True
      then have "?hi \<le> unat a" using run(4) by (intro round_up_least) (simp_all add: word_le_nat_alt)
      then have "free_bytes lmm \<inter> {?start..<?hi} = {}" using run(6) by fastforce
      then show ?thesis using True run(1) out ge by (intro stop) (simp_all add: unfold)
    next
      case False
      define sz where "sz = (if a + s > rend then rend - a else s)"
      obtain rs where rs: "lmm_alloc_gen lmm sz f 0 0 a sz = Some (a, lmm\<lparr>regions := rs\<rparr>)"
        "list_all2 reg_same rs (regions lmm)" "lmm_inv (lmm\<lparr>regions := rs\<rparr>)"
        "free_bytes (lmm\<lparr>regions := rs\<rparr>) = free_bytes lmm - {unat a..<round_up 8 (unat a + unat sz)}"
        "0 < unat sz" "unat a + unat sz \<le> unat rend"
        using lmm_remove_free_take [OF less.prems(1) run(2) a(2,3) run(4) False [unfolded not_le]]
        unfolding sz_def [symmetric] run(3) by blast
      have in_free: "unat a \<in> free_bytes lmm" using a(2,3) run(2) unfolding free by force
      have "unat a \<in> {unat a..<round_up 8 (unat a + unat sz)}"
        using rs(5) round_up_ge [of 8 "unat a + unat sz"] by simp
      then have card: "card (free_bytes (lmm\<lparr>regions := rs\<rparr>)) < card (free_bytes lmm)"
        using in_free by (intro psubset_card_mono) (auto simp: rs(4))
      have nowrap: "unat a + 7 < 2 ^ 32"
        using reg_bytes_less [of r "unat a"] less.prems(1) run(2,5) first_run_in
        by (fastforce simp: lmm_inv_def regs_inv_def list_all_iff)
      have "lmm_remove_free_loop block rend rstart lmm =
          lmm_remove_free_loop block rend a (lmm\<lparr>regions := rs\<rparr>)"
        using False run(1) out ge a(2) rs(1) by (auto simp: unfold sz_def [symmetric])
      moreover have "free_bytes (lmm\<lparr>regions := rs\<rparr>) - {round_up 8 (unat a)..<?hi} =
          free_bytes lmm - {?start..<?hi}"
      proof -
        have "round_up 8 (unat a) = unat a" using run(4) by (simp add: round_up_eq)
        then show ?thesis
          unfolding rs(4) using round_up_mono [OF rs(6), of 8] run(6) a(1) by fastforce
      qed
      ultimately show ?thesis
        using less.hyps [OF card rs(3) ge(2) nowrap] regs_same_trans [OF _ rs(2)] by fastforce
    qed
  qed
qed

text \<open>The loop always ends, no assertion fails, and exactly the free chunks that start inside
  the range are gone.\<close>

lemma lmm_remove_free_spec:
  assumes "lmm_inv lmm" "unat block + 7 < 2 ^ 32"
    and sz: "0 < unat sz" "unat block + unat sz < 2 ^ 32"
  shows "\<exists>lmm'. lmm_remove_free lmm block sz = Some lmm' \<and> lmm_inv lmm' \<and>
    free_bytes lmm' = free_bytes lmm -
      {round_up 8 (unat block)..<round_up 8 (unat block + unat sz)} \<and>
    list_all2 reg_same (regions lmm') (regions lmm)"
proof -
  have sum: "unat (block + sz) = unat block + unat sz" using sz by (simp add: unat_add_nowrap)
  then have "block + sz > block" using sz by (simp add: word_less_nat_alt)
  then have "lmm_remove_free lmm block sz = lmm_remove_free_loop block (block + sz) block lmm"
    by (simp add: lmm_remove_free_def)
  then show ?thesis
    using lmm_remove_free_loop_ok [OF assms(1) order_refl assms(2), of "block + sz"] by (simp add: sum)
qed

section \<open>\<open>lmm_stats\<close> and \<open>lmm_dump\<close>\<close>

lemma lmm_dump_check_ok:
  assumes "chain lo (unat (reg_max r)) (n # ns)"
  shows "lmm_dump_check r n ns = Some ()"
proof -
  have n: "node_ok lo (unat (reg_max r)) n" using assms by (simp add: chain_Cons)
  then have "8 \<le> nlen n" by (auto simp: node_ok_def dest: dvd_imp_le)
  then show ?thesis
    using check_node_ok [OF assms]
    by (simp add: lmm_dump_check_def check_node_def assertion_bind_Some word_le_nat_alt)
qed

lemma lmm_stats_nodes_ok:
  "chain lo (unat (reg_max r)) ns \<Longrightarrow>
     lmm_stats_nodes r ns nodes fc = Some (nodes + of_nat (length ns), fc + of_nat (chain_len ns))"
  by (induction ns arbitrary: nodes fc) (auto simp: lmm_dump_check_ok chain_Cons add_ac)

lemma lmm_dump_nodes_ok:
  "chain lo (unat (reg_max r)) ns \<Longrightarrow>
     \<exists>out. lmm_dump_nodes r ns fc = Some (out, fc + of_nat (chain_len ns)) \<and> length out = length ns"
proof (induction ns arbitrary: fc)
  case Nil
  then show ?case by simp
next
  case (Cons n ns)
  then obtain out where "lmm_dump_nodes r ns (fc + node_size n) =
      Some (out, fc + node_size n + of_nat (chain_len ns))" "length out = length ns"
    by (auto simp: chain_Cons)
  then show ?case using lmm_dump_check_ok [OF Cons.prems] by (simp add: add_ac)
qed

lemma reg_free_check: "reg_inv r \<Longrightarrow> of_nat (chain_len (reg_nodes r)) = reg_free r"
  unfolding reg_inv_def by (elim conjE) (drule sym, simp)

abbreviation regs_nodes :: "lmm_region list \<Rightarrow> nat" where
  "regs_nodes rs \<equiv> sum_list (map (length \<circ> reg_nodes) rs)"

lemma lmm_stats_regions_ok:
  "regs_inv rs \<Longrightarrow> lmm_stats_regions rs nregs nodes free =
     Some (free + of_nat (card (regs_bytes rs)), nregs + of_nat (length rs), nodes + of_nat (regs_nodes rs))"
proof (induction rs arbitrary: nregs nodes free)
  case Nil
  then show ?case by simp
next
  case (Cons r rs)
  then have r: "reg_inv r" and rs: "regs_inv rs" by (auto simp: regs_inv_Cons)
  then have "lmm_stats_nodes r (reg_nodes r) nodes 0 =
      Some (nodes + of_nat (length (reg_nodes r)), reg_free r)"
    using lmm_stats_nodes_ok [of "max 1 (unat (reg_min r))" r "reg_nodes r" nodes 0] reg_free_check [OF r]
    by (simp add: reg_inv_def)
  then show ?case
    using r Cons.IH [OF rs] card_regs_bytes_Cons [OF Cons.prems]
    by (simp add: add_ac del: regs_bytes_simps)
qed

lemma lmm_dump_regions_ok:
  "regs_inv rs \<Longrightarrow> \<exists>out. lmm_dump_regions rs = Some out \<and>
     length out = 2 * length rs + regs_nodes rs"
proof (induction rs)
  case Nil
  then show ?case by simp
next
  case (Cons r rs)
  then have r: "reg_inv r" and rs: "regs_inv rs" by (auto simp: regs_inv_Cons)
  then obtain out where "lmm_dump_nodes r (reg_nodes r) 0 = Some (out, reg_free r)"
    "length out = length (reg_nodes r)"
    using lmm_dump_nodes_ok [of "max 1 (unat (reg_min r))" r "reg_nodes r" 0] reg_free_check [OF r]
    by (auto simp: reg_inv_def)
  then show ?case using r Cons.IH [OF rs] by auto
qed

end
