(* ===== verification/LMM_Client.thy ===== *)
theory LMM_Client
  imports LMM_Remove
begin

text \<open>
  The interface a memory pool offers to its clients (\<open>malloc\<close>, \<open>smalloc\<close>, the device
  glue), as a locale: what an allocation takes out of the free memory and what
  a release gives back.  The lemmas on an arbitrary client, any interleaving of allocations
  and releases, are proved once in the locale.  The interpretation at the end
  discharges the laws for the LMM with all its allocation entry points.
\<close>

section \<open>Clients of an allocator\<close>

text \<open>The states a client can reach from \<open>s0\<close>, with the list of the blocks it holds.  A
  null pointer answer is not recorded; only a held block is released, with the
  request it was allocated by.\<close>

inductive client ::
    "('r \<Rightarrow> bool) \<Rightarrow> ('s \<Rightarrow> 'r \<Rightarrow> (addr \<times> 's) option) \<Rightarrow> ('s \<Rightarrow> addr \<Rightarrow> 'r \<Rightarrow> 's option) \<Rightarrow> 's
     \<Rightarrow> 's \<Rightarrow> (addr \<times> 'r) list \<Rightarrow> bool"
  for req alloc release s0
where
  client_init: "client req alloc release s0 s0 []"
| client_alloc: "client req alloc release s0 s live \<Longrightarrow> req r \<Longrightarrow> alloc s r = Some (p, s') \<Longrightarrow>
     client req alloc release s0 s' (if p = 0 then live else (p, r) # live)"
| client_release: "client req alloc release s0 s live \<Longrightarrow> (p, r) \<in> set live \<Longrightarrow>
     release s p r = Some s' \<Longrightarrow> client req alloc release s0 s' (remove1 (p, r) live)"

locale allocator =
  fixes inv :: "'s \<Rightarrow> bool"
    and free :: "'s \<Rightarrow> nat set"
    and within :: "'s \<Rightarrow> addr \<Rightarrow> 'r \<Rightarrow> bool"
    and block :: "addr \<Rightarrow> 'r \<Rightarrow> nat set"
    and req :: "'r \<Rightarrow> bool"
    and alloc :: "'s \<Rightarrow> 'r \<Rightarrow> (addr \<times> 's) option"
    and release :: "'s \<Rightarrow> addr \<Rightarrow> 'r \<Rightarrow> 's option"
  assumes alloc_total: "inv s \<Longrightarrow> req r \<Longrightarrow> \<exists>p s'. alloc s r = Some (p, s')"
    and alloc_fail: "inv s \<Longrightarrow> req r \<Longrightarrow> alloc s r = Some (0, s') \<Longrightarrow> s' = s"
    and alloc_inv: "inv s \<Longrightarrow> req r \<Longrightarrow> alloc s r = Some (p, s') \<Longrightarrow> inv s'"
    and alloc_block: "inv s \<Longrightarrow> req r \<Longrightarrow> alloc s r = Some (p, s') \<Longrightarrow> p \<noteq> 0 \<Longrightarrow>
      block p r \<noteq> {} \<and> block p r \<subseteq> free s \<and> within s' p r \<and> free s' = free s - block p r"
    and alloc_within: "inv s \<Longrightarrow> req r \<Longrightarrow> alloc s r = Some (p, s') \<Longrightarrow> within s q t \<Longrightarrow> within s' q t"
    and release_ok: "inv s \<Longrightarrow> within s p r \<Longrightarrow> block p r \<inter> free s = {} \<Longrightarrow>
      \<exists>s'. release s p r = Some s' \<and> inv s' \<and> free s' = free s \<union> block p r"
    and release_within: "inv s \<Longrightarrow> within s p r \<Longrightarrow> block p r \<inter> free s = {} \<Longrightarrow>
      release s p r = Some s' \<Longrightarrow> within s q t \<Longrightarrow> within s' q t"
begin

definition held :: "(addr \<times> 'r) list \<Rightarrow> nat set" where
  "held live = (\<Union>(p, r)\<in>set live. block p r)"

definition client_inv :: "'s \<Rightarrow> 's \<Rightarrow> (addr \<times> 'r) list \<Rightarrow> bool" where
  "client_inv s0 s live \<longleftrightarrow>
     inv s \<and> (\<forall>p r. (p, r) \<in> set live \<longrightarrow> within s p r \<and> block p r \<noteq> {}) \<and>
     sorted_wrt (\<lambda>(p, r) (q, t). block p r \<inter> block q t = {}) live \<and>
     held live \<inter> free s = {} \<and> held live \<union> free s = free s0"

lemma held_simps [simp]:
  "held [] = {}"
  "held ((p, r) # live) = block p r \<union> held live"
  by (auto simp: held_def)

lemma client_inv_release:
  assumes ci: "client_inv s0 s live" and live: "(p, r) \<in> set live" and rel: "release s p r = Some s'"
  shows "client_inv s0 s' (remove1 (p, r) live)"
proof -
  obtain xs ys where split: "live = xs @ (p, r) # ys" and xs: "(p, r) \<notin> set xs"
    using live by (metis split_list_first)
  have rm: "remove1 (p, r) live = xs @ ys" using xs by (simp add: split remove1_append)
  have inv: "inv s" and w: "within s p r" and b: "block p r \<inter> free s = {}"
    using ci live by (auto simp: client_inv_def held_def)
  then have s': "inv s'" "free s' = free s \<union> block p r"
    using release_ok [OF inv w b] rel by auto
  have within: "within s' q t" if "within s q t" for q t
    using release_within [OF inv w b rel that] .
  have "block q t \<inter> block p r = {}" if "(q, t) \<in> set (xs @ ys)" for q t
    using ci that unfolding split client_inv_def by (auto simp: sorted_wrt_append)
  then have "held (xs @ ys) \<inter> block p r = {}" unfolding held_def by blast
  moreover have "held live = held (xs @ ys) \<union> block p r" by (auto simp: split held_def)
  moreover have "held live \<inter> free s = {}" "held live \<union> free s = free s0"
    using ci by (simp_all add: client_inv_def)
  ultimately have "held (xs @ ys) \<inter> free s' = {}" "held (xs @ ys) \<union> free s' = free s0"
    unfolding s'(2) by auto
  moreover have "within s' q t \<and> block q t \<noteq> {}" if "(q, t) \<in> set (xs @ ys)" for q t
    using ci that within unfolding client_inv_def split by auto
  moreover have "sorted_wrt (\<lambda>(p, r) (q, t). block p r \<inter> block q t = {}) (xs @ ys)"
    using ci by (simp add: client_inv_def split sorted_wrt_append)
  ultimately show ?thesis using s'(1) by (simp add: rm client_inv_def)
qed

lemma client_inv_alloc:
  assumes ci: "client_inv s0 s live" and r: "req r" and al: "alloc s r = Some (p, s')"
  shows "client_inv s0 s' (if p = 0 then live else (p, r) # live)"
proof (cases "p = 0")
  case True
  moreover have "s' = s" using ci r al True alloc_fail by (auto simp: client_inv_def)
  ultimately show ?thesis using ci by simp
next
  case False
  have inv: "inv s" using ci by (simp add: client_inv_def)
  note blk = alloc_block [OF inv r al False]
  have "inv s'" by (rule alloc_inv [OF inv r al])
  moreover have "\<forall>q t. (q, t) \<in> set live \<longrightarrow> within s' q t \<and> block q t \<noteq> {}"
    using ci alloc_within [OF inv r al] by (auto simp: client_inv_def)
  moreover have "\<forall>(q, t)\<in>set live. block p r \<inter> block q t = {}"
    using ci blk by (fastforce simp: client_inv_def held_def)
  ultimately show ?thesis using ci blk False by (auto simp: client_inv_def)
qed

text \<open>Every reachable state is consistent: the blocks handed out are pairwise disjoint, none
  of their bytes is free, and together with the free bytes they make up the
  initial free memory.\<close>

lemma client_reachable:
  assumes "inv s0" "client req alloc release s0 s live"
  shows "client_inv s0 s live"
  using assms(2)
proof (induction rule: client.induct)
  case client_init
  then show ?case using assms(1) by (simp add: client_inv_def)
next
  case client_alloc
  then show ?case using client_inv_alloc by metis
next
  case client_release
  then show ?case using client_inv_release by metis
qed

lemma client_alloc_total:
  "inv s0 \<Longrightarrow> client req alloc release s0 s live \<Longrightarrow> req r \<Longrightarrow> \<exists>p s'. alloc s r = Some (p, s')"
  using client_reachable alloc_total by (auto simp: client_inv_def)

lemma client_release_total:
  assumes "inv s0" "client req alloc release s0 s live" "(p, r) \<in> set live"
  shows "\<exists>s'. release s p r = Some s'"
proof -
  have "client_inv s0 s live" by (rule client_reachable [OF assms(1,2)])
  then have "inv s" "within s p r" "block p r \<inter> free s = {}"
    using assms(3) by (auto simp: client_inv_def held_def)
  then show ?thesis using release_ok by blast
qed

end

text \<open>An allocator whose state is determined by its fixed shape and its free memory: it never
  fragments beyond what the held blocks force.\<close>

locale exact_allocator = allocator +
  fixes shape :: "'a \<Rightarrow> 'h"
  assumes alloc_shape: "inv s \<Longrightarrow> req r \<Longrightarrow> alloc s r = Some (p, s') \<Longrightarrow> shape s' = shape s"
    and release_shape: "inv s \<Longrightarrow> within s p r \<Longrightarrow> block p r \<inter> free s = {} \<Longrightarrow>
      release s p r = Some s' \<Longrightarrow> shape s' = shape s"
    and exact: "inv s \<Longrightarrow> inv s' \<Longrightarrow> shape s = shape s' \<Longrightarrow> free s = free s' \<Longrightarrow> s = s'"
begin

lemma client_shape:
  assumes "inv s0" "client req alloc release s0 s live"
  shows "shape s = shape s0"
  using assms(2)
proof (induction rule: client.induct)
  case (client_alloc s live r p s')
  then have "inv s" using client_reachable [OF assms(1)] by (auto simp: client_inv_def)
  then show ?case using alloc_shape client_alloc by metis
next
  case (client_release s live p r s')
  then have "client_inv s0 s live" using client_reachable [OF assms(1)] by blast
  then have "inv s" "within s p r" "block p r \<inter> free s = {}"
    using client_release.hyps(2) by (auto simp: client_inv_def held_def)
  then show ?case using release_shape client_release by metis
qed simp

lemma client_exact:
  assumes "inv s0" "client req alloc release s0 s []"
  shows "s = s0"
proof -
  have "client_inv s0 s []" using client_reachable [OF assms] .
  then show ?thesis
    using exact [of s s0] client_shape [OF assms] assms(1) by (simp add: client_inv_def)
qed

end

section \<open>The LMM as an allocator\<close>

text \<open>A request is a call of one of the allocation entry points; the block it returns
  is released by \<open>lmm_free\<close> with the same size, a page by \<open>lmm_free_page\<close>.\<close>

datatype lmm_request =
    ReqAlloc u32 u32
  | ReqAligned u32 u32 nat addr
  | ReqGen u32 u32 nat addr addr u32
  | ReqPage u32

fun lmm_serve :: "lmm \<Rightarrow> lmm_request \<Rightarrow> (addr \<times> lmm) option" where
  "lmm_serve lmm (ReqAlloc sz flags) = lmm_alloc lmm sz flags"
| "lmm_serve lmm (ReqAligned sz flags bits ofs) = lmm_alloc_aligned lmm sz flags bits ofs"
| "lmm_serve lmm (ReqGen sz flags bits ofs imin isz) = lmm_alloc_gen lmm sz flags bits ofs imin isz"
| "lmm_serve lmm (ReqPage flags) = lmm_alloc_page lmm flags"

fun lmm_release :: "lmm \<Rightarrow> addr \<Rightarrow> lmm_request \<Rightarrow> lmm option" where
  "lmm_release lmm p (ReqAlloc sz flags) = lmm_free lmm p sz"
| "lmm_release lmm p (ReqAligned sz flags bits ofs) = lmm_free lmm p sz"
| "lmm_release lmm p (ReqGen sz flags bits ofs imin isz) = lmm_free lmm p sz"
| "lmm_release lmm p (ReqPage flags) = lmm_free_page lmm p"

fun req_size :: "lmm_request \<Rightarrow> u32" where
  "req_size (ReqAlloc sz flags) = sz"
| "req_size (ReqAligned sz flags bits ofs) = sz"
| "req_size (ReqGen sz flags bits ofs imin isz) = sz"
| "req_size (ReqPage flags) = PAGE_SIZE"

fun req_flags :: "lmm_request \<Rightarrow> u32" where
  "req_flags (ReqAlloc sz flags) = flags"
| "req_flags (ReqAligned sz flags bits ofs) = flags"
| "req_flags (ReqGen sz flags bits ofs imin isz) = flags"
| "req_flags (ReqPage flags) = flags"

text \<open>Requests of non-zero size whose own arithmetic stays within 32 bits: the rounding of the
  size by \<open>lmm_alloc\<close>, and the lowest admissible address plus the size plus the
  alignment for the others.  The regions of the pool may have any size.\<close>

fun req_ok :: "lmm_request \<Rightarrow> bool" where
  "req_ok (ReqAlloc sz flags) \<longleftrightarrow> 0 < unat sz \<and> unat sz + 7 < 2 ^ 32"
| "req_ok (ReqAligned sz flags bits ofs) \<longleftrightarrow> 0 < unat sz \<and> unat sz + 2 ^ bits \<le> 2 ^ 32"
| "req_ok (ReqGen sz flags bits ofs imin isz) \<longleftrightarrow>
     0 < unat sz \<and> unat imin + unat sz + 2 ^ bits \<le> 2 ^ 32"
| "req_ok (ReqPage flags) \<longleftrightarrow> True"

definition lmm_block :: "addr \<Rightarrow> lmm_request \<Rightarrow> nat set" where
  "lmm_block p r =
     {blk_beg (unat p)..<blk_beg (unat p) + blk_len (unat p) (unat (req_size r))}"

definition lmm_within :: "lmm \<Rightarrow> addr \<Rightarrow> lmm_request \<Rightarrow> bool" where
  "lmm_within lmm p r \<longleftrightarrow> 0 < unat (req_size r) \<and> 0 < blk_beg (unat p) \<and>
     (\<exists>reg\<in>set (regions lmm). lmm_block p r \<subseteq> reg_span reg)"

definition lmm_shape :: "lmm \<Rightarrow> (addr \<times> addr \<times> addr \<times> u32 \<times> int) list" where
  "lmm_shape lmm =
     map (\<lambda>r. (reg_ptr r, reg_min r, reg_max r, reg_flags r, reg_pri r)) (regions lmm)"

lemma unat_PAGE_SIZE [simp]: "unat PAGE_SIZE = 4096"
  by (simp add: PAGE_SIZE_def PAGE_SHIFT_def)

lemma lmm_release_free: "lmm_release lmm p r = lmm_free lmm p (req_size r)"
  by (cases r) (simp_all add: lmm_free_page_def)

lemma req_ok_size: "req_ok r \<Longrightarrow> 0 < unat (req_size r)"
  by (cases r) auto

lemma blk_of_aligned:
  assumes "8 dvd x"
  shows "blk_beg x = x" "blk_len x s = round_up 8 s"
  using assms by (simp_all add: blk_beg_def blk_len_def round_down_eq round_up_add)

lemma shape_same: "lmm_shape a = lmm_shape b \<longleftrightarrow> list_all2 reg_same (regions a) (regions b)"
  unfolding lmm_shape_def list.rel_eq [symmetric] list.rel_map by (simp add: reg_same_def [abs_def])

definition served :: "lmm \<Rightarrow> lmm_request \<Rightarrow> addr \<Rightarrow> lmm_region list \<Rightarrow> bool" where
  "served lmm r p rs \<longleftrightarrow>
     p = 0 \<and> rs = regions lmm \<or>
     p \<noteq> 0 \<and> regs_cut (reg_ok_for (req_flags r)) (blk_beg (unat p))
       (blk_len (unat p) (unat (req_size r))) (regions lmm) rs"

lemma lmm_serve_gen:
  assumes "lmm_inv lmm" "0 < unat sz" "unat imin + unat sz + 2 ^ bits \<le> 2 ^ 32"
    "sz = req_size r" "flags = req_flags r"
  shows "\<exists>p rs. lmm_alloc_gen lmm sz flags bits ofs imin isz = Some (p, lmm\<lparr>regions := rs\<rparr>) \<and> served lmm r p rs"
  using lmm_alloc_gen_spec [OF assms(1,3,2), of flags ofs isz] assms(4,5)
  by (auto simp: served_def split: if_splits)

lemma lmm_serve_spec:
  assumes "lmm_inv lmm" "req_ok r"
  shows "\<exists>p rs. lmm_serve lmm r = Some (p, lmm\<lparr>regions := rs\<rparr>) \<and> served lmm r p rs"
proof (cases r)
  case (ReqAlloc sz flags)
  then obtain p rs where p: "lmm_alloc lmm sz flags = Some (p, lmm\<lparr>regions := rs\<rparr>)"
    "p = 0 \<and> rs = regions lmm \<or>
     p \<noteq> 0 \<and> regs_cut (reg_ok_for flags) (unat p) (round_up 8 (unat sz)) (regions lmm) rs"
    using lmm_alloc_spec [of lmm sz flags] assms by (auto simp: split: if_splits)
  moreover from p(2) have "p = 0 \<or> 8 dvd unat p" by (auto simp: regs_cut_def)
  ultimately have "served lmm r p rs" by (auto simp: served_def ReqAlloc blk_of_aligned)
  then show ?thesis using p(1) ReqAlloc by auto
qed (use assms in \<open>auto simp: lmm_alloc_aligned_def lmm_alloc_page_def PAGE_SHIFT_def intro!: lmm_serve_gen\<close>)

lemma shape_within: "lmm_shape a = lmm_shape b \<Longrightarrow> lmm_within a q t \<longleftrightarrow> lmm_within b q t"
proof -
  assume "lmm_shape a = lmm_shape b"
  then have "list_all2 reg_same (regions a) (regions b)" by (simp add: shape_same)
  then have "reg_span ` set (regions a) = reg_span ` set (regions b)"
    by (induction rule: list_all2_induct) (auto simp: reg_same_span)
  then show ?thesis unfolding lmm_within_def by (metis (no_types, lifting) image_iff)
qed

lemma served_hit:
  assumes ok: "lmm_inv lmm" and sz: "0 < unat (req_size r)" and serv: "served lmm r p rs" "p \<noteq> 0"
  shows "lmm_block p r \<noteq> {}" "lmm_block p r \<subseteq> free_bytes lmm" "lmm_within lmm p r"
    and "lmm_inv (lmm\<lparr>regions := rs\<rparr>)"
    and "free_bytes (lmm\<lparr>regions := rs\<rparr>) = free_bytes lmm - lmm_block p r"
    and "lmm_shape (lmm\<lparr>regions := rs\<rparr>) = lmm_shape lmm"
proof -
  let ?x = "blk_beg (unat p)" and ?s = "blk_len (unat p) (unat (req_size r))"
  have cut: "regs_cut (reg_ok_for (req_flags r)) ?x ?s (regions lmm) rs" and inv: "lmm_inv lmm"
    using ok serv by (auto simp: served_def)
  obtain reg where reg: "reg \<in> set (regions lmm)" "lmm_block p r \<subseteq> bytes (reg_nodes reg)" "0 < ?x" "0 < ?s"
    using cut by (auto simp: regs_cut_def lmm_block_def)
  have "reg_inv reg" using inv reg(1) by (auto simp: lmm_inv_def regs_inv_def list_all_iff)
  then have "lmm_block p r \<subseteq> reg_span reg" using reg(2) reg_inv_bytes by blast
  then show "lmm_within lmm p r" using reg sz by (auto simp: lmm_within_def)
  show "lmm_block p r \<noteq> {}" using reg(4) by (simp add: lmm_block_def)
  show "lmm_block p r \<subseteq> free_bytes lmm" using reg by (auto simp: free_bytes_def regs_bytes_def)
  show "lmm_inv (lmm\<lparr>regions := rs\<rparr>)"
    and "free_bytes (lmm\<lparr>regions := rs\<rparr>) = free_bytes lmm - lmm_block p r"
    using regs_cut_pool(1,3) [OF inv cut] by (auto simp: lmm_block_def)
  show "lmm_shape (lmm\<lparr>regions := rs\<rparr>) = lmm_shape lmm"
    using regs_cut_same [OF cut] by (simp add: shape_same)
qed

lemma lmm_serve_shape:
  assumes "lmm_inv lmm" "req_ok r" "lmm_serve lmm r = Some (p, lmm')"
  shows "lmm_shape lmm' = lmm_shape lmm" "lmm_inv lmm'"
proof -
  obtain rs where rs: "served lmm r p rs" "lmm' = lmm\<lparr>regions := rs\<rparr>"
    using lmm_serve_spec [OF assms(1,2)] assms(3) by auto
  then have "lmm_shape lmm' = lmm_shape lmm \<and> lmm_inv lmm'"
    using served_hit(4,6) [OF assms(1) req_ok_size [OF assms(2)]] assms(1)
    by (cases "p = 0") (auto simp: served_def)
  then show "lmm_shape lmm' = lmm_shape lmm" "lmm_inv lmm'"
    by auto
qed

lemma lmm_release_spec:
  assumes ok: "lmm_inv lmm" and w: "lmm_within lmm p r" and dis: "lmm_block p r \<inter> free_bytes lmm = {}"
  shows "\<exists>lmm'. lmm_release lmm p r = Some lmm' \<and> lmm_inv lmm' \<and>
    free_bytes lmm' = free_bytes lmm \<union> lmm_block p r \<and> lmm_shape lmm' = lmm_shape lmm"
proof -
  obtain reg where reg: "reg \<in> set (regions lmm)" "lmm_block p r \<subseteq> reg_span reg"
    and pos: "0 < unat (req_size r)" "0 < blk_beg (unat p)" using w by (auto simp: lmm_within_def)
  have inv: "lmm_inv lmm" by (rule ok)
  have "lmm_block p r \<inter> bytes (reg_nodes reg) = {}"
    using dis reg(1) by (auto simp: free_bytes_def regs_bytes_def)
  then obtain rs where rs: "lmm_free lmm p (req_size r) = Some (lmm\<lparr>regions := rs\<rparr>)"
    "list_all2 (reg_more (lmm_block p r)) rs (regions lmm)"
    using lmm_free_spec [OF inv reg(1) pos(1,2) refl refl] reg(2) by (auto simp: lmm_block_def)
  have "regs_inv rs" using regs_more_inv [OF _ rs(2)] inv by (simp add: lmm_inv_def)
  moreover have same: "list_all2 reg_same rs (regions lmm)"
    using rs(2) by (rule list_all2_mono) (simp add: reg_more_def)
  moreover have "regs_bytes rs = regs_bytes (regions lmm) \<union> lmm_block p r"
    using regs_more_bytes [OF rs(2)] reg by blast
  ultimately show ?thesis
    using rs(1) ok same
    by (simp add: lmm_release_free lmm_inv_def free_bytes_def shape_same)
qed

lemma regs_bytes_at:
  assumes "regs_inv rs" "i < length rs"
  shows "bytes (reg_nodes (rs ! i)) = regs_bytes rs \<inter> reg_span (rs ! i)"
  using assms
proof (induction rs arbitrary: i)
  case (Cons r rs)
  have r: "reg_inv r" and rs: "regs_inv rs" using Cons.prems(1) by (auto simp: regs_inv_Cons)
  show ?case
  proof (cases i)
    case 0
    then show ?thesis
      using regs_bytes_disjoint [OF Cons.prems(1)] reg_inv_bytes [OF r] by auto
  next
    case (Suc j)
    then have "reg_disjoint r (rs ! j)" using Cons.prems by (auto simp: regs_inv_Cons)
    then have "bytes (reg_nodes r) \<inter> reg_span (rs ! j) = {}"
      using reg_disjoint_span reg_inv_bytes [OF r] by blast
    then show ?thesis using Cons.IH [OF rs, of j] Cons.prems(2) Suc by auto
  qed
qed simp

lemma lmm_exact:
  assumes "lmm_inv a" "lmm_inv b" "lmm_shape a = lmm_shape b" "free_bytes a = free_bytes b"
  shows "a = b"
proof -
  have inv: "regs_inv (regions a)" "regs_inv (regions b)" and same: "list_all2 reg_same (regions a) (regions b)"
    using assms by (auto simp: lmm_inv_def shape_same)
  have "regions a = regions b"
  proof (rule nth_equalityI)
    show "length (regions a) = length (regions b)" using same by (rule list_all2_lengthD)
    fix i assume i: "i < length (regions a)"
    then have s: "reg_same (regions a ! i) (regions b ! i)" using same by (simp add: list_all2_conv_all_nth)
    have "bytes (reg_nodes (regions a ! i)) = free_bytes a \<inter> reg_span (regions a ! i)"
      "bytes (reg_nodes (regions b ! i)) = free_bytes b \<inter> reg_span (regions b ! i)"
      using i same regs_bytes_at [OF inv(1), of i] regs_bytes_at [OF inv(2), of i]
      by (auto simp: free_bytes_def dest: list_all2_lengthD)
    then have "bytes (reg_nodes (regions a ! i)) = bytes (reg_nodes (regions b ! i))"
      using assms(4) reg_same_span [OF s] by simp
    moreover have "reg_inv (regions a ! i)" "reg_inv (regions b ! i)"
      using inv i list_all2_lengthD [OF same] by (auto simp: regs_inv_def list_all_length)
    ultimately show "regions a ! i = regions b ! i" using s by (intro reg_eqI)
  qed
  then show ?thesis by (cases a; cases b) simp
qed

text \<open>The laws of the interface, one by one.\<close>

lemma lmm_serve_total: "lmm_inv s \<Longrightarrow> req_ok r \<Longrightarrow> \<exists>p s'. lmm_serve s r = Some (p, s')"
  using lmm_serve_spec [of s r] by blast

lemma lmm_serve_fail:
  "lmm_inv s \<Longrightarrow> req_ok r \<Longrightarrow> lmm_serve s r = Some (0, s') \<Longrightarrow> s' = s"
  using lmm_serve_spec [of s r] by (auto simp: served_def)

lemma lmm_serve_block:
  assumes ok: "lmm_inv s" and r: "req_ok r" and s': "lmm_serve s r = Some (p, s')" and "p \<noteq> 0"
  shows "lmm_block p r \<noteq> {} \<and> lmm_block p r \<subseteq> free_bytes s \<and> lmm_within s' p r \<and>
    free_bytes s' = free_bytes s - lmm_block p r"
proof -
  obtain rs where rs: "served s r p rs" "s' = s\<lparr>regions := rs\<rparr>"
    using lmm_serve_spec [OF ok r] s' by auto
  have "lmm_within s' p r"
    using shape_within [OF lmm_serve_shape(1) [OF ok r s']] served_hit(3) [OF ok req_ok_size [OF r] rs(1) assms(4)]
    by blast
  then show ?thesis
    using served_hit(1,2,5) [OF ok req_ok_size [OF r] rs(1) assms(4)] unfolding rs(2) by blast
qed

lemma lmm_serve_within:
  "lmm_inv s \<Longrightarrow> req_ok r \<Longrightarrow> lmm_serve s r = Some (p, s') \<Longrightarrow> lmm_within s q t \<Longrightarrow> lmm_within s' q t"
  using lmm_serve_shape(1) shape_within by blast

lemma lmm_release_ok:
  "lmm_inv s \<Longrightarrow> lmm_within s p r \<Longrightarrow> lmm_block p r \<inter> free_bytes s = {} \<Longrightarrow>
     \<exists>s'. lmm_release s p r = Some s' \<and> lmm_inv s' \<and> free_bytes s' = free_bytes s \<union> lmm_block p r"
  using lmm_release_spec by blast

lemma lmm_release_shape:
  assumes "lmm_inv s" "lmm_within s p r" "lmm_block p r \<inter> free_bytes s = {}"
    and "lmm_release s p r = Some s'"
  shows "lmm_shape s' = lmm_shape s"
  using lmm_release_spec [OF assms(1-3)] assms(4) by auto

lemma lmm_release_within:
  "lmm_inv s \<Longrightarrow> lmm_within s p r \<Longrightarrow> lmm_block p r \<inter> free_bytes s = {} \<Longrightarrow>
     lmm_release s p r = Some s' \<Longrightarrow> lmm_within s q t \<Longrightarrow> lmm_within s' q t"
  using lmm_release_shape shape_within by blast

interpretation lmm_pool: exact_allocator lmm_inv free_bytes lmm_within lmm_block req_ok
  lmm_serve lmm_release lmm_shape
  by unfold_locales
     (fact lmm_serve_total lmm_serve_fail lmm_serve_shape lmm_serve_block lmm_serve_within
        lmm_release_ok lmm_release_within lmm_release_shape lmm_exact)+

end
