(* ===== verification/LMM_Spec.thy ===== *)
theory LMM_Spec
  imports LMM_Client
begin

text \<open>
  The properties of the List Memory Manager, each stated over the definitions of
  \<open>LMM\<close> and the set of free byte addresses.  The witnesses use a pool with one
  region of 4096 bytes, all free.
\<close>

section \<open>A concrete pool\<close>

definition demo_pool :: lmm where
  "demo_pool = \<lparr>regions =
     [\<lparr>reg_ptr = 16, reg_nodes = [\<lparr>node_addr = 8192, node_size = 8192\<rparr>],
       reg_min = 4096, reg_max = 16384, reg_flags = 1, reg_pri = 0, reg_free = 8192\<rparr>]\<rparr>"

lemma demo_inv: "lmm_inv demo_pool"
  by (simp add: demo_pool_def lmm_inv_def regs_inv_Cons reg_inv_def chain_Cons node_ok_def nend_def)

lemma demo_free: "free_bytes demo_pool = {8192..<16384}"
  by (simp add: demo_pool_def free_bytes_def node_bytes_def nend_def)

lemma demo_span: "pool_span demo_pool = {4096..<16384}"
  by (simp add: demo_pool_def pool_span_def reg_span_def)

lemma page_in_range:
  assumes "reg_inv r" "{x..<x + 4096} \<subseteq> bytes (reg_nodes r)"
  shows "x + 4096 \<le> 2 ^ 32 - 1"
proof -
  have "x + 4095 \<in> bytes (reg_nodes r)" using assms(2) by auto
  from reg_bytes_less [OF assms(1) this] show ?thesis by simp
qed

section \<open>Allocation\<close>

text \<open>C5. \<open>lmm_alloc\<close> on a valid pool never fails an assertion.  If some region with the
  requested memory-type flags has a run of free bytes of the rounded size, it returns a
  non-null, 8-byte aligned block of such bytes and removes exactly that
  block from the free memory; otherwise it returns null and leaves the pool as it was.\<close>

theorem lmm_alloc_correct:
  assumes "lmm_inv lmm" "0 < unat sz" "unat sz + 7 < 2 ^ 32"
  shows "\<exists>p lmm'. lmm_alloc lmm sz flags = Some (p, lmm') \<and> lmm_inv lmm' \<and>
    (if \<exists>r\<in>set (regions lmm). reg_ok_for flags r \<and>
          (\<exists>x. {x..<x + round_up 8 (unat sz)} \<subseteq> bytes (reg_nodes r))
     then p \<noteq> 0 \<and> 8 dvd unat p \<and>
       {unat p..<unat p + round_up 8 (unat sz)} \<subseteq> free_bytes_for flags lmm \<and>
       free_bytes lmm' = free_bytes lmm - {unat p..<unat p + round_up 8 (unat sz)}
     else p = 0 \<and> lmm' = lmm)"
proof -
  obtain p rs where p: "lmm_alloc lmm sz flags = Some (p, lmm\<lparr>regions := rs\<rparr>)"
    "if \<exists>r\<in>set (regions lmm). reg_ok_for flags r \<and>
          (\<exists>x. {x..<x + round_up 8 (unat sz)} \<subseteq> bytes (reg_nodes r))
     then p \<noteq> 0 \<and> regs_cut (reg_ok_for flags) (unat p) (round_up 8 (unat sz)) (regions lmm) rs
     else p = 0 \<and> rs = regions lmm"
    using lmm_alloc_spec [OF assms, of flags] by blast
  show ?thesis
  proof (cases "\<exists>r\<in>set (regions lmm). reg_ok_for flags r \<and>
      (\<exists>x. {x..<x + round_up 8 (unat sz)} \<subseteq> bytes (reg_nodes r))")
    case True
    then have cut: "regs_cut (reg_ok_for flags) (unat p) (round_up 8 (unat sz)) (regions lmm) rs" "p \<noteq> 0"
      using p(2) by simp_all
    then have "8 dvd unat p" by (simp add: regs_cut_def)
    then show ?thesis
      unfolding p(1) if_P [OF True] using cut(2) regs_cut_pool(1-3) [OF assms(1) cut(1)] by blast
  next
    case False
    then show ?thesis using p assms(1) by simp
  qed
qed

theorem lmm_alloc_correct_witness:
  "lmm_inv demo_pool \<and>
   lmm_alloc demo_pool 100 1 = Some (8192, demo_pool\<lparr>regions :=
     [\<lparr>reg_ptr = 16, reg_nodes = [\<lparr>node_addr = 8296, node_size = 8088\<rparr>],
       reg_min = 4096, reg_max = 16384, reg_flags = 1, reg_pri = 0, reg_free = 8088\<rparr>]\<rparr>) \<and>
   (\<exists>p lmm'. lmm_alloc demo_pool 100 1 = Some (p, lmm') \<and> lmm_inv lmm')"
proof (intro conjI)
  show "lmm_alloc demo_pool 100 1 = Some (8192, demo_pool\<lparr>regions :=
     [\<lparr>reg_ptr = 16, reg_nodes = [\<lparr>node_addr = 8296, node_size = 8088\<rparr>],
       reg_min = 4096, reg_max = 16384, reg_flags = 1, reg_pri = 0, reg_free = 8088\<rparr>]\<rparr>)"
    by code_simp
  show "\<exists>p lmm'. lmm_alloc demo_pool 100 1 = Some (p, lmm') \<and> lmm_inv lmm'"
    using lmm_alloc_correct [OF demo_inv, of 100 1] by auto
qed (rule demo_inv)

text \<open>C4. On a valid pool, with regions of any size, and for a request whose range
  \<open>[in_min, in_min + in_size)\<close> lies in the address space and for which \<open>in_min\<close> plus the size
  plus the alignment does not exceed \<open>2 ^ 32\<close>: \<open>lmm_alloc_gen\<close> returns a block exactly when
  some region of the right memory type has \<open>size\<close> free bytes at an address with the
  requested alignment and offset inside the range.  The address it returns satisfies all these
  constraints, and exactly the 8-byte cells that the block touches leave the free memory.
  Otherwise it returns null and leaves the pool as it was.\<close>

theorem lmm_alloc_gen_correct:
  assumes "lmm_inv lmm" "unat imin + unat sz + 2 ^ k \<le> 2 ^ 32" "0 < unat sz"
    "unat imin + unat isz < 2 ^ 32"
  shows "\<exists>p lmm'. lmm_alloc_gen lmm sz flags k ofs imin isz = Some (p, lmm') \<and> lmm_inv lmm' \<and>
    (if \<exists>r\<in>set (regions lmm). \<exists>x. reg_ok_for flags r \<and>
          x mod 2 ^ k = unat ofs mod 2 ^ k \<and> unat imin \<le> x \<and> x + unat sz \<le> unat imin + unat isz \<and>
          {x..<x + unat sz} \<subseteq> bytes (reg_nodes r)
     then p \<noteq> 0 \<and> unat p mod 2 ^ k = unat ofs mod 2 ^ k \<and>
       unat imin \<le> unat p \<and> unat p + unat sz \<le> unat imin + unat isz \<and>
       {unat p..<unat p + unat sz} \<subseteq> free_bytes_for flags lmm \<and>
       free_bytes lmm' = free_bytes lmm - {round_down 8 (unat p)..<round_up 8 (unat p + unat sz)}
     else p = 0 \<and> lmm' = lmm)"
  by (rule lmm_alloc_gen_pool [OF assms])

theorem lmm_alloc_gen_correct_witness:
  "lmm_inv demo_pool \<and>
   lmm_alloc_gen demo_pool 100 0 12 4 9000 8000 = Some (12292, demo_pool\<lparr>regions :=
     [\<lparr>reg_ptr = 16, reg_nodes = [\<lparr>node_addr = 8192, node_size = 4096\<rparr>,
         \<lparr>node_addr = 12392, node_size = 3992\<rparr>],
       reg_min = 4096, reg_max = 16384, reg_flags = 1, reg_pri = 0, reg_free = 8088\<rparr>]\<rparr>) \<and>
   (\<exists>p lmm'. lmm_alloc_gen demo_pool 100 0 12 4 9000 8000 = Some (p, lmm') \<and> lmm_inv lmm')"
proof (intro conjI)
  show "lmm_alloc_gen demo_pool 100 0 12 4 9000 8000 = Some (12292, demo_pool\<lparr>regions :=
     [\<lparr>reg_ptr = 16, reg_nodes = [\<lparr>node_addr = 8192, node_size = 4096\<rparr>,
         \<lparr>node_addr = 12392, node_size = 3992\<rparr>],
       reg_min = 4096, reg_max = 16384, reg_flags = 1, reg_pri = 0, reg_free = 8088\<rparr>]\<rparr>)"
    by code_simp
  show "\<exists>p lmm'. lmm_alloc_gen demo_pool 100 0 12 4 9000 8000 = Some (p, lmm') \<and> lmm_inv lmm'"
    using lmm_alloc_gen_correct [OF demo_inv, of 9000 100 12 8000 0 4] by auto
qed (rule demo_inv)

text \<open>\<open>lmm_alloc_page\<close> returns a page-aligned block of \<open>PAGE_SIZE\<close> free bytes of the
  requested memory type if there is one, taking exactly that page out of the
  pool, and null with the pool unchanged if there is none.\<close>

lemma lmm_alloc_page_correct:
  assumes "lmm_inv lmm"
  shows "\<exists>p lmm'. lmm_alloc_page lmm flags = Some (p, lmm') \<and> lmm_inv lmm' \<and>
    (if \<exists>r\<in>set (regions lmm). \<exists>x. reg_ok_for flags r \<and> 4096 dvd x \<and> {x..<x + 4096} \<subseteq> bytes (reg_nodes r)
     then p \<noteq> 0 \<and> 4096 dvd unat p \<and> {unat p..<unat p + 4096} \<subseteq> free_bytes_for flags lmm \<and>
       free_bytes lmm' = free_bytes lmm - {unat p..<unat p + 4096}
     else p = 0 \<and> lmm' = lmm)"
proof -
  let ?ok = "\<lambda>r x. reg_ok_for flags r \<and> x mod 2 ^ 12 = unat (0::addr) mod 2 ^ 12 \<and> unat (0::addr) \<le> x \<and>
    x + unat PAGE_SIZE \<le> unat (0::addr) + unat (-1::u32) \<and> {x..<x + unat PAGE_SIZE} \<subseteq> bytes (reg_nodes r)"
  have "?ok r x \<longleftrightarrow> reg_ok_for flags r \<and> 4096 dvd x \<and> {x..<x + 4096} \<subseteq> bytes (reg_nodes r)"
    if "r \<in> set (regions lmm)" for r x
    using page_in_range [of r x] that assms(1)
    by (auto simp: mod_eq_0_iff_dvd lmm_inv_def regs_inv_def list_all_iff unat_minus_one_u32)
  then have ex: "(\<exists>r\<in>set (regions lmm). \<exists>x. ?ok r x) \<longleftrightarrow>
      (\<exists>r\<in>set (regions lmm). \<exists>x. reg_ok_for flags r \<and> 4096 dvd x \<and> {x..<x + 4096} \<subseteq> bytes (reg_nodes r))"
    by (intro bex_cong refl arg_cong [where f = Ex] ext)
  have cells: "round_down 8 x = x \<and> round_up 8 (x + 4096) = x + 4096" if "4096 dvd x" for x
    using that dvd_trans [of 8 4096 x] by (simp add: round_down_eq round_up_eq)
  have "unat (0::addr) + unat PAGE_SIZE + 2 ^ 12 \<le> 2 ^ 32" "0 < unat PAGE_SIZE"
    "unat (0::addr) + unat (-1::u32) < 2 ^ 32" by (simp_all add: unat_minus_one_u32)
  from lmm_alloc_gen_pool [OF assms this, of flags 0]
  obtain p lmm' where p: "lmm_alloc_gen lmm PAGE_SIZE flags 12 0 0 (-1) = Some (p, lmm')" "lmm_inv lmm'"
    "if \<exists>r\<in>set (regions lmm). \<exists>x. ?ok r x
     then p \<noteq> 0 \<and> unat p mod 2 ^ 12 = unat (0::addr) mod 2 ^ 12 \<and> unat (0::addr) \<le> unat p \<and>
       unat p + unat PAGE_SIZE \<le> unat (0::addr) + unat (-1::u32) \<and>
       {unat p..<unat p + unat PAGE_SIZE} \<subseteq> free_bytes_for flags lmm \<and>
       free_bytes lmm' = free_bytes lmm - {round_down 8 (unat p)..<round_up 8 (unat p + unat PAGE_SIZE)}
     else p = 0 \<and> lmm' = lmm" by blast
  have code: "lmm_alloc_page lmm flags = Some (p, lmm')"
    using p(1) by (simp add: lmm_alloc_page_def PAGE_SHIFT_def)
  show ?thesis
  proof (cases "\<exists>r\<in>set (regions lmm). \<exists>x. reg_ok_for flags r \<and> 4096 dvd x \<and> {x..<x + 4096} \<subseteq> bytes (reg_nodes r)")
    case True
    then have "4096 dvd unat p" using p(3) [unfolded ex] by (simp add: mod_eq_0_iff_dvd)
    from cells [OF this] this show ?thesis
      using p(2) p(3) [unfolded ex if_P [OF True]] unfolding if_P [OF True] code unat_PAGE_SIZE by auto
  next
    case False
    then show ?thesis using p(2) p(3) [unfolded ex if_not_P [OF False]] unfolding if_not_P [OF False] code by blast
  qed
qed

section \<open>Release\<close>

text \<open>C6. Freeing a block that lies in one region of the pool and is not free yet succeeds
  without failing an assertion, keeps the invariant (in particular the blocks stay
  sorted and fully coalesced), and adds exactly the 8-byte cells the block touches
  to the free memory.\<close>

theorem lmm_free_correct:
  assumes "lmm_inv lmm" "r \<in> set (regions lmm)" "0 < unat sz" "8 \<le> unat p"
    and "{round_down 8 (unat p)..<round_up 8 (unat p + unat sz)} \<subseteq> reg_span r"
    and "{round_down 8 (unat p)..<round_up 8 (unat p + unat sz)} \<inter> free_bytes lmm = {}"
  shows "\<exists>lmm'. lmm_free lmm p sz = Some lmm' \<and> lmm_inv lmm' \<and>
    free_bytes lmm' = free_bytes lmm \<union> {round_down 8 (unat p)..<round_up 8 (unat p + unat sz)} \<and>
    list_all2 reg_same (regions lmm') (regions lmm)"
proof -
  let ?B = "{round_down 8 (unat p)..<round_up 8 (unat p + unat sz)}"
  have "0 < blk_beg (unat p)"
    using round_down_greatest [of 8 8 "unat p"] assms(4) by (simp add: blk_beg_def)
  moreover have "?B \<inter> bytes (reg_nodes r) = {}"
    using assms(2,6) by (auto simp: free_bytes_def regs_bytes_def)
  ultimately obtain rs where rs: "lmm_free lmm p sz = Some (lmm\<lparr>regions := rs\<rparr>)"
    "list_all2 (reg_more ?B) rs (regions lmm)"
    using lmm_free_spec [OF assms(1-3) _ refl refl, unfolded blk_end, unfolded blk_beg_def, of p] assms(5)
    unfolding blk_beg_def by blast
  have "regs_inv rs" using regs_more_inv [OF _ rs(2)] assms(1) by (simp add: lmm_inv_def)
  moreover have "list_all2 reg_same rs (regions lmm)"
    using rs(2) by (rule list_all2_mono) (simp add: reg_more_def)
  moreover have "regs_bytes rs = regs_bytes (regions lmm) \<union> ?B"
    using regs_more_bytes [OF rs(2)] assms(2,5) by blast
  ultimately show ?thesis using rs(1) by (simp add: lmm_inv_def free_bytes_def)
qed

theorem lmm_free_correct_witness:
  "map_option (reg_nodes \<circ> hd \<circ> regions) (lmm_free demo_pool 5001 10) =
     Some [\<lparr>node_addr = 5000, node_size = 16\<rparr>, \<lparr>node_addr = 8192, node_size = 8192\<rparr>] \<and>
   (\<exists>lmm'. lmm_free demo_pool 5001 10 = Some lmm' \<and> lmm_inv lmm')"
proof
  show "map_option (reg_nodes \<circ> hd \<circ> regions) (lmm_free demo_pool 5001 10) =
     Some [\<lparr>node_addr = 5000, node_size = 16\<rparr>, \<lparr>node_addr = 8192, node_size = 8192\<rparr>]" by code_simp
  have "hd (regions demo_pool) \<in> set (regions demo_pool)" by (simp add: demo_pool_def)
  moreover have "round_down 8 5001 = 5000" "round_up 8 5011 = 5016"
    by (simp_all add: round_down_def round_up_def)
  moreover have "{5000..<5016} \<subseteq> reg_span (hd (regions demo_pool))"
    by (auto simp: demo_pool_def reg_span_def)
  ultimately show "\<exists>lmm'. lmm_free demo_pool 5001 10 = Some lmm' \<and> lmm_inv lmm'"
    using lmm_free_correct [OF demo_inv, of "hd (regions demo_pool)" 10 5001]
    by (auto simp: demo_free)
qed

section \<open>Clients\<close>

text \<open>C2. Whatever a client does, in any order, with the four allocation entry points and
  the two release functions, the pool stays valid; the blocks it holds are pairwise
  disjoint and none of their bytes is free; and the free bytes together
  with the held blocks are exactly the bytes that were free at the start.  The client never gets
  stuck: every admissible request is answered and every block it holds can be
  released, without failing an assertion of the allocator.  The requests are those of \<open>req_ok\<close>:
  a non-zero size, and arithmetic on the request itself (rounding the size; lowest address
  plus size plus alignment) that stays within 32 bits.  The regions may have any size.\<close>

theorem lmm_client_safe:
  assumes "lmm_inv lmm0" "client req_ok lmm_serve lmm_release lmm0 lmm live"
  shows "lmm_inv lmm \<and>
    sorted_wrt (\<lambda>(p, r) (q, t). lmm_block p r \<inter> lmm_block q t = {}) live \<and>
    (\<Union>(p, r)\<in>set live. lmm_block p r) \<inter> free_bytes lmm = {} \<and>
    (\<Union>(p, r)\<in>set live. lmm_block p r) \<union> free_bytes lmm = free_bytes lmm0 \<and>
    (\<forall>r. req_ok r \<longrightarrow> lmm_serve lmm r \<noteq> None) \<and>
    (\<forall>(p, r)\<in>set live. lmm_release lmm p r \<noteq> None)"
  using lmm_pool.client_reachable [OF assms] lmm_pool.client_alloc_total [OF assms]
    lmm_pool.client_release_total [OF assms]
  by (fastforce simp: lmm_pool.client_inv_def lmm_pool.held_def)

theorem lmm_client_safe_witness:
  "\<exists>lmm p. lmm_alloc_page demo_pool 1 = Some (p, lmm) \<and> lmm_inv lmm \<and>
     {8192..<12288} \<union> free_bytes lmm = free_bytes demo_pool \<and> lmm_alloc lmm 77 0 \<noteq> None"
proof -
  have "map_option fst (lmm_alloc_page demo_pool 1) = Some 8192" by code_simp
  then obtain lmm where l: "lmm_serve demo_pool (ReqPage 1) = Some (8192, lmm)" by auto
  have "client req_ok lmm_serve lmm_release demo_pool demo_pool []" by (rule client_init)
  from client_alloc [OF this _ l] have "client req_ok lmm_serve lmm_release demo_pool lmm [(8192, ReqPage 1)]"
    by simp
  note safe = lmm_client_safe [OF demo_inv this]
  from safe have "lmm_inv lmm" "lmm_block 8192 (ReqPage 1) \<union> free_bytes lmm = free_bytes demo_pool"
    by simp_all
  moreover from safe have "\<forall>r. req_ok r \<longrightarrow> lmm_serve lmm r \<noteq> None" by (elim conjE)
  then have "lmm_alloc lmm 77 0 \<noteq> None" by (auto dest!: spec [of _ "ReqAlloc 77 0"])
  moreover have "lmm_block 8192 (ReqPage 1) = {8192..<12288}"
    by (simp add: lmm_block_def blk_beg_def blk_len_def round_down_def round_up_def)
  ultimately show ?thesis using l by auto
qed

text \<open>C3. No fragmentation survives: when a client has released everything it allocated, in
  whatever order, the pool is identical to the initial one, region by region and node by node.
  The requests are again those of \<open>req_ok\<close>; the regions may have any size.\<close>

theorem lmm_client_exact:
  assumes "lmm_inv lmm0" "client req_ok lmm_serve lmm_release lmm0 lmm []"
  shows "lmm = lmm0"
  by (rule lmm_pool.client_exact [OF assms])

theorem lmm_client_exact_witness:
  "\<exists>lmm lmm'. lmm_alloc demo_pool 100 1 = Some (8192, lmm) \<and> lmm_free lmm 8192 100 = Some lmm' \<and> lmm' = demo_pool"
proof -
  have "map_option fst (lmm_alloc demo_pool 100 1) = Some 8192" by code_simp
  then obtain lmm where l: "lmm_serve demo_pool (ReqAlloc 100 1) = Some (8192, lmm)" by auto
  have c0: "client req_ok lmm_serve lmm_release demo_pool demo_pool []" by (rule client_init)
  from client_alloc [OF c0 _ l] have c1: "client req_ok lmm_serve lmm_release demo_pool lmm [(8192, ReqAlloc 100 1)]"
    by simp
  obtain lmm' where f: "lmm_release lmm 8192 (ReqAlloc 100 1) = Some lmm'"
    using lmm_pool.client_release_total [OF demo_inv c1, of 8192 "ReqAlloc 100 1"] by auto
  from client_release [OF c1 _ f] have "client req_ok lmm_serve lmm_release demo_pool lmm' []" by simp
  from lmm_client_exact [OF demo_inv this] show ?thesis using l f by auto
qed

section \<open>Building and trimming a pool\<close>

text \<open>\<open>lmm_add_region\<close> with a range disjoint from the pool keeps the invariant (regions
  ordered by priority and then size, pairwise disjoint) and extends the range of
  the pool by the aligned part of the new range, adding no free memory.\<close>

lemma lmm_add_region_correct:
  assumes "lmm_inv lmm" "unat a + unat sz < 2 ^ 32" "unat a + 7 < 2 ^ 32"
    and "ptr \<notin> reg_ptr ` set (regions lmm)"
    and "{round_up 8 (unat a)..<round_down 8 (unat a + unat sz)} \<inter> pool_span lmm = {}"
  shows "\<exists>lmm'. lmm_add_region lmm ptr a sz flags pri = Some lmm' \<and> lmm_inv lmm' \<and>
    pool_span lmm' = pool_span lmm \<union> {round_up 8 (unat a)..<round_down 8 (unat a + unat sz)} \<and>
    free_bytes lmm' = free_bytes lmm"
  by (rule lmm_add_region_spec [OF assms(1-4) refl refl assms(5)])

text \<open>\<open>lmm_add_free\<close> makes free exactly the aligned part of the given range that lies in
  the pool, whichever regions it crosses, provided none of it is free already and
  address 0 is not part of it.\<close>

lemma lmm_add_free_correct:
  fixes p sz :: u32
  defines "B \<equiv> {round_up 8 (unat p)..<round_down 8 (unat p + unat sz)}"
  assumes "lmm_inv lmm" "unat p + unat sz < 2 ^ 32" "unat p + 7 < 2 ^ 32"
    and "round_up 8 (unat p) \<le> round_down 8 (unat p + unat sz)"
    and "0 \<notin> B \<inter> pool_span lmm" "B \<inter> free_bytes lmm = {}"
  shows "\<exists>lmm'. lmm_add_free lmm p sz = Some lmm' \<and> lmm_inv lmm' \<and>
    free_bytes lmm' = free_bytes lmm \<union> (B \<inter> pool_span lmm)"
  using lmm_add_free_spec [OF assms(2-4) refl refl assms(5)] assms(6,7) unfolding B_def by blast





text \<open>The first cell of a range that does not start at a multiple of 8 stays free:
  \<open>lmm_remove_free\<close> does not give the guarantee the manual states for it.\<close>

lemma lmm_remove_free_keeps_first_cell:
  assumes "lmm_inv lmm" "unat block + 7 < 2 ^ 32"
    and "0 < unat sz" "unat block + unat sz < 2 ^ 32"
    and "unat block mod 8 \<noteq> 0" "unat block \<in> free_bytes lmm"
  shows "\<exists>lmm'. lmm_remove_free lmm block sz = Some lmm' \<and> unat block \<in> free_bytes lmm'"
proof -
  have "\<not> 8 dvd unat block" using assms(5) by (simp add: dvd_eq_mod_eq_0)
  then have "unat block \<noteq> round_up 8 (unat block)" using round_up_dvd [of 8 "unat block"] by auto
  then have "unat block < round_up 8 (unat block)" using round_up_ge [of 8 "unat block"] by simp
  then show ?thesis using lmm_remove_free_spec [OF assms(1-4)] assms(6) by auto
qed

section \<open>Queries\<close>

text \<open>\<open>lmm_avail\<close> returns the number of free bytes of the requested memory type; the sum
  does not overflow.\<close>

lemma lmm_avail_correct:
  assumes "lmm_inv lmm"
  shows "\<exists>c. lmm_avail lmm flags = Some c \<and> unat c = card (free_bytes_for flags lmm)"
  using lmm_avail_spec [OF assms, of flags] unat_of_nat_u32 by auto

text \<open>\<open>lmm_find_free\<close> returns size 0 if no byte at or above the rounded start is free.
  Otherwise it returns the lowest such free address, with the memory type of its region
  and the size of the whole run of free bytes of that region from there on.\<close>

lemma lmm_find_free_correct:
  assumes "lmm_inv lmm" "unat start + 7 < 2 ^ 32"
  shows "\<exists>a s f. lmm_find_free lmm start = Some (a, s, f) \<and>
    (if free_bytes lmm \<inter> {round_up 8 (unat start)..} = {} then s = 0
     else 0 < s \<and> unat a \<in> free_bytes lmm \<and> round_up 8 (unat start) \<le> unat a \<and>
       (\<forall>x\<in>free_bytes lmm. round_up 8 (unat start) \<le> x \<longrightarrow> unat a \<le> x) \<and>
       (\<exists>r\<in>set (regions lmm). reg_flags r = f \<and>
          {unat a..<unat a + unat s} \<subseteq> bytes (reg_nodes r) \<and> unat a + unat s \<notin> bytes (reg_nodes r)))"
proof -
  let ?s = "round_up 8 (unat start)"
  obtain a s f where out: "lmm_find_free lmm start = Some (a, s, f)"
    and found: "regs_found ?s (set (regions lmm)) (a, s, f)"
    using lmm_find_free_spec [OF assms] by (metis prod_cases3)
  from regs_found_cases [OF found] show ?thesis
  proof
    assume "a = -1 \<and> s = 0 \<and> regs_bytes (regions lmm) \<inter> {?s..} = {}"
    then show ?thesis using out by (simp add: free_bytes_def)
  next
    assume "\<exists>r\<in>set (regions lmm). f = reg_flags r \<and> 8 dvd unat a \<and>
      first_run ?s (bytes (reg_nodes r)) (unat a) (unat s) \<and>
      (\<forall>x\<in>regs_bytes (regions lmm). ?s \<le> x \<longrightarrow> unat a \<le> x)"
    then obtain r where r: "r \<in> set (regions lmm)" "f = reg_flags r"
      "first_run ?s (bytes (reg_nodes r)) (unat a) (unat s)" "\<forall>x\<in>free_bytes lmm. ?s \<le> x \<longrightarrow> unat a \<le> x"
      by (auto simp: free_bytes_def)
    then have a: "unat a \<in> free_bytes lmm" "?s \<le> unat a"
      using first_run_in [OF r(3)] by (auto simp: free_bytes_def regs_bytes_def first_run_def)
    then have "\<not> free_bytes lmm \<inter> {?s..} = {}" by auto
    moreover have "0 < s" using r(3) by (simp add: first_run_def word_less_nat_alt)
    ultimately show ?thesis unfolding out using r a by (auto simp: first_run_def)
  qed
qed

text \<open>\<open>lmm_stats\<close> and \<open>lmm_dump\<close> pass all their consistency assertions on a valid pool;
  the statistics are the number of free bytes, of regions and of free blocks, and the dump has
  a header and a trailer line per region and one line per block.\<close>

lemma lmm_stats_dump_correct:
  assumes "lmm_inv lmm"
  shows "lmm_stats lmm = Some (of_nat (card (free_bytes lmm)), of_nat (length (regions lmm)),
      of_nat (regs_nodes (regions lmm))) \<and>
    (\<exists>out. lmm_dump lmm = Some out \<and>
       length out = 2 * length (regions lmm) + regs_nodes (regions lmm))"
  using lmm_stats_regions_ok [of "regions lmm" 0 0 0] lmm_dump_regions_ok [of "regions lmm"] assms
  by (simp add: lmm_inv_def lmm_stats_def lmm_dump_def free_bytes_def)

text \<open>C9. A request of more than \<open>2 ^ 32 - 8\<close> bytes is rounded to size 0: \<open>lmm_alloc\<close> then
  returns the address of the first free block of a suitable region as if it had
  been allocated, while the pool, with that block still free, is unchanged.\<close>

theorem lmm_alloc_overflow:
  assumes "lmm_inv lmm" "2 ^ 32 - 8 < unat sz"
    and "regions lmm = r # rs" "reg_ok_for flags r" "reg_nodes r = n # ns"
  shows "lmm_alloc lmm sz flags = Some (node_addr n, lmm)"
proof -
  have r: "reg_inv r" using assms(1,3) by (simp add: lmm_inv_def regs_inv_Cons)
  then have c: "chain (max 1 (unat (reg_min r))) (unat (reg_max r)) (n # ns)"
    using assms(5) by (simp add: reg_inv_def)
  then have "0 < nlen n" by (simp add: chain_Cons node_ok_def)
  then have pos: "node_size n > 0" by (simp add: word_less_nat_alt)
  have "unat sz < 2 ^ 32" using unat_u32_less [of sz] by simp
  then have "unat (sz + ALIGN_MASK) = unat sz + 7 - 2 ^ 32"
    using unat_add_wrap [of sz ALIGN_MASK] assms(2) by simp
  then have "unat (sz + ALIGN_MASK) < 8" using \<open>unat sz < 2 ^ 32\<close> by linarith
  then have "unat ((sz + ALIGN_MASK) AND NOT ALIGN_MASK) = 0" by (simp add: round_down_def)
  then have zero: "(sz + ALIGN_MASK) AND NOT ALIGN_MASK = 0" by (simp only: unat_eq_0_iff)
  have "lmm_alloc_nodes r 0 (n # ns) = Some (Some (node_addr n, n # ns))"
    using check_node_ok [OF c] pos by simp
  moreover have "r\<lparr>reg_nodes := n # ns, reg_free := reg_free r - 0\<rparr> = r" using assms(5) by (cases r) simp
  ultimately have "lmm_alloc_regions 0 flags (r # rs) = Some (node_addr n, r # rs)"
    using r assms(4,5) by (simp add: reg_ok_for_def del: lmm_alloc_nodes.simps)
  moreover have "sz > 0" using assms(2) by (simp add: word_less_nat_alt)
  moreover have "lmm\<lparr>regions := r # rs\<rparr> = lmm" using assms(3) by (cases lmm) simp
  ultimately show ?thesis
    using assms(3) by (simp add: lmm_alloc_def zero Let_def del: lmm_alloc_regions.simps)
qed

theorem lmm_alloc_overflow_witness:
  "lmm_alloc demo_pool 4294967295 0 = Some (8192, demo_pool)"
proof -
  have r: "regions demo_pool = [hd (regions demo_pool)]"
    "reg_nodes (hd (regions demo_pool)) = [\<lparr>node_addr = 8192, node_size = 8192\<rparr>]"
    by (simp_all add: demo_pool_def)
  show ?thesis
    using lmm_alloc_overflow [OF demo_inv _ r(1) _ r(2), of 4294967295 0] by (simp add: reg_ok_for_def)
qed

text \<open>A pool whose one region covers the address space up to its last 8 bytes, with 2 GB free.\<close>

definition big_pool :: lmm where
  "big_pool = \<lparr>regions =
     [\<lparr>reg_ptr = 16, reg_nodes = [\<lparr>node_addr = 16, node_size = 0x80000000\<rparr>],
       reg_min = 0, reg_max = 0xFFFFFFF8, reg_flags = 0, reg_pri = 0, reg_free = 0x80000000\<rparr>]\<rparr>"

lemma big_inv: "lmm_inv big_pool"
  by (simp add: big_pool_def lmm_inv_def regs_inv_Cons reg_inv_def chain_Cons node_ok_def nend_def)

lemma big_free: "free_bytes big_pool = {16..<2 ^ 31 + 16}"
  by (simp add: big_pool_def free_bytes_def node_bytes_def nend_def)

lemma top_byte_not_free:
  assumes "lmm_inv lmm"
  shows "2 ^ 32 - 1 \<notin> free_bytes lmm"
proof
  assume "2 ^ 32 - 1 \<in> free_bytes lmm"
  then obtain q where "q \<in> set (regions lmm)" "2 ^ 32 - 1 \<in> bytes (reg_nodes q)"
    unfolding free_bytes_def regs_bytes_def by blast
  then show False
    using reg_bytes_less [of q "2 ^ 32 - 1"] assms by (auto simp: lmm_inv_def regs_inv_def list_all_iff)
qed

lemma lmm_alloc_gen_nodes_wraps:
  assumes c: "chain lo (unat (reg_max r)) (n # ns)" and isz: "unat imin + unat isz < 2 ^ 32"
    and sz: "sz \<le> node_size n" and top: "nbeg n + 4294967296 \<le> unat imin + unat sz" and al: "8 dvd unat imin"
  shows "\<exists>s ns'. lmm_alloc_gen_nodes r sz 0 ofs imin (imin + isz) (n # ns) = Some (Some (imin, s, ns')) \<and>
    unat s \<le> nlen n"
proof -
  let ?s = "((imin AND ALIGN_MASK) + sz + ALIGN_MASK) AND NOT ALIGN_MASK"
  have n: "8 dvd nbeg n" "8 dvd nlen n" using c by (simp_all add: chain_Cons node_ok_def)
  have lt: "nbeg n < unat imin" using top unat_u32_less [of sz] by linarith
  have sub: "unat (imin - node_addr n) = unat imin - nbeg n"
    using lt by (intro unat_diff_nowrap) (simp add: word_le_nat_alt)
  have "unat (imin - node_addr n + sz) = unat imin - nbeg n + unat sz - 4294967296"
    using unat_add_wrap [of "imin - node_addr n" sz] sub top lt by simp
  then have "unat (imin - node_addr n + sz) \<le> unat sz" using unat_u32_less [of imin] by linarith
  then have t1: "\<not> imin - node_addr n + sz > node_size n"
    using sz by (simp add: word_less_nat_alt word_le_nat_alt)
  have "unat (imin + sz) = unat imin + unat sz - 4294967296"
    using unat_add_wrap [of imin sz] top by simp
  then have "unat (imin + sz) \<le> unat imin + unat isz" using unat_u32_less [of sz] by linarith
  then have t2: "\<not> imin + sz > imin + isz"
    using isz by (simp add: word_less_nat_alt unat_add_nowrap)
  have le: "nbeg n \<le> round_down 8 (unat imin)" using n lt by (intro round_down_greatest) simp_all
  have t3: "node_addr n \<le> imin AND NOT ALIGN_MASK" using le by (simp add: word_le_nat_alt)
  have "unat ((imin AND NOT ALIGN_MASK) - node_addr n) = round_down 8 (unat imin) - nbeg n"
    using le by (subst unat_diff_nowrap) simp_all
  then have t4: "((imin AND NOT ALIGN_MASK) - node_addr n) AND ALIGN_MASK = 0"
    using n round_down_dvd [of 8 "unat imin"] by (simp add: and_ALIGN_MASK_eq_0_iff dvd_diff_nat)
  have hit: "\<exists>ns'. lmm_alloc_gen_nodes r sz 0 ofs imin (imin + isz) (n # ns) = Some (Some (imin, ?s, ns'))"
    using t1 t2 t3 t4 leD [OF sz] lt [folded word_less_nat_alt]
    by (cases "node_addr n < imin AND NOT ALIGN_MASK")
       (simp_all add: check_node_ok [OF c] lmm_align_def Let_def)
  have "nlen n + 8 \<le> 2 ^ 32" using n by (intro dvd_less_imp_add_le) simp_all
  moreover have "imin AND ALIGN_MASK = 0" using al by (simp add: and_ALIGN_MASK_eq_0_iff)
  ultimately have "unat ?s \<le> nlen n"
    using sz n by (subst unat_round_up) (auto simp: word_le_nat_alt intro: round_up_least)
  with hit show ?thesis by blast
qed

text \<open>C8. The condition on the request under which \<open>lmm_alloc_gen\<close> is exact cannot be dropped:
  the code tests \<open>(addr - node) + size > node->size\<close> and \<open>addr + size > in_max\<close> in 32-bit
  arithmetic.  When the first free block of the first suitable region is large enough for the
  size but starts so far below \<open>in_min\<close> (a multiple of 8 inside that region) that the
  sum wraps around, \<open>in_min\<close> itself is returned as an allocated block, although the block
  runs over the end of the address space and so is not free.\<close>

theorem lmm_alloc_gen_wraps:
  assumes "lmm_inv lmm" "regions lmm = r # rs" "reg_ok_for flags r" "reg_nodes r = n # ns"
    and "reg_min r < imin + isz" "imin < reg_max r" "unat imin + unat isz < 2 ^ 32"
    and "sz \<le> node_size n" "nbeg n + 2 ^ 32 \<le> unat imin + unat sz" "8 dvd unat imin"
  shows "\<exists>lmm'. lmm_alloc_gen lmm sz flags 0 ofs imin isz = Some (imin, lmm') \<and>
    \<not> {unat imin..<unat imin + unat sz} \<subseteq> free_bytes lmm"
proof -
  have r: "reg_inv r" using assms(1,2) by (simp add: lmm_inv_def regs_inv_Cons)
  then have c: "chain (max 1 (unat (reg_min r))) (unat (reg_max r)) (n # ns)"
    using assms(4) by (simp add: reg_inv_def)
  have top: "nbeg n + 4294967296 \<le> unat imin + unat sz" using assms(9) by simp
  then have sz: "0 < unat sz" using unat_u32_less [of imin] by linarith
  obtain s ns' where hit: "lmm_alloc_gen_nodes r sz 0 ofs imin (imin + isz) (n # ns) = Some (Some (imin, s, ns'))"
    "unat s \<le> nlen n"
    using lmm_alloc_gen_nodes_wraps [OF c assms(7,8) top assms(10), of ofs] by blast
  then have free: "s \<le> reg_free r"
    using r assms(4) by (simp add: reg_inv_def word_le_nat_alt)
  have "\<not> (flags AND NOT (reg_flags r) \<noteq> 0 \<or> reg_min r \<ge> imin + isz \<or> reg_max r \<le> imin)"
    using assms(3,5,6) by (auto simp: reg_ok_for_def not_le)
  then have "\<exists>lmm'. lmm_alloc_gen lmm sz flags 0 ofs imin isz = Some (imin, lmm')"
    using hit(1) free sz assms(2,4) r
    by (simp add: lmm_alloc_gen_def word_less_nat_alt del: lmm_alloc_gen_nodes.simps)
  moreover have "2 ^ 32 - 1 \<in> {unat imin..<unat imin + unat sz}"
    using top unat_u32_less [of imin] by (simp del: unat_u32_less)
  ultimately show ?thesis using top_byte_not_free [OF assms(1)] by blast
qed

theorem lmm_alloc_gen_wraps_witness:
  "\<exists>lmm'. lmm_alloc_gen big_pool 0x70000020 0 0 0 0x90000000 0x10000000 = Some (0x90000000, lmm') \<and>
     unat (0x90000000 :: addr) \<notin> free_bytes big_pool"
proof -
  have r: "regions big_pool = [hd (regions big_pool)]"
    "reg_nodes (hd (regions big_pool)) = [\<lparr>node_addr = 16, node_size = 0x80000000\<rparr>]"
    "reg_min (hd (regions big_pool)) = 0" "reg_max (hd (regions big_pool)) = 0xFFFFFFF8"
    by (simp_all add: big_pool_def)
  show ?thesis
    using lmm_alloc_gen_wraps [OF big_inv r(1) _ r(2), of 0 "0x90000000" "0x10000000" "0x70000020" 0]
    by (auto simp: big_free reg_ok_for_def r(3,4))
qed

end
