(* ===== verification/Cstd.thy ===== *)
theory Cstd
  imports Prelude
begin

text \<open>
  What the code uses of the C library: streams of bytes with \<open>fread\<close> and \<open>fwrite\<close> of
  little-endian words, and the outcome of the allocation calls.  An allocation
  pattern says of each \<open>malloc\<close> call that an operation makes, by its number, whether it
  returns memory.
\<close>

type_synonym byte = "8 word"
type_synonym mallocs = "nat \<Rightarrow> bool"

definition le32 :: "u32 \<Rightarrow> byte list" where
  "le32 w = map (\<lambda>i. ucast (drop_bit (8 * i) w)) [0..<4]"

definition le64 :: "u64 \<Rightarrow> byte list" where
  "le64 w = map (\<lambda>i. ucast (drop_bit (8 * i) w)) [0..<8]"

text \<open>\<open>fread\<close> of one item: \<open>None\<close> when the stream ends before the item is complete.  This is the function of the C
  library, which returns the number of items; the one of \<open>security/global.h\<close> is in theory \<open>Policydb_Read\<close>.\<close>

fun fread32 :: "byte list \<Rightarrow> (u32 \<times> byte list) option" where
  "fread32 (a # b # c # d # rest) =
     Some (ucast a OR push_bit 8 (ucast b) OR push_bit 16 (ucast c) OR push_bit 24 (ucast d), rest)"
| "fread32 _ = None"

definition fread64 :: "byte list \<Rightarrow> (u64 \<times> byte list) option" where
  "fread64 bs = do {
     (lo, bs) \<leftarrow> fread32 bs;
     (hi, bs) \<leftarrow> fread32 bs;
     Some (ucast lo OR push_bit 32 (ucast hi), bs)
   }"

text \<open>\<open>fread\<close> of several words, which succeeds when all of them are there.\<close>

fun fread32s :: "nat \<Rightarrow> byte list \<Rightarrow> (u32 list \<times> byte list) option" where
  "fread32s 0 fp = Some ([], fp)"
| "fread32s (Suc n) fp = do {
     (w, fp) \<leftarrow> fread32 fp;
     (ws, fp) \<leftarrow> fread32s n fp;
     Some (w # ws, fp)
   }"

text \<open>A buffer of words after \<open>fread\<close> has stored \<open>ws\<close> at its beginning: what it held behind
  them stays.\<close>

definition fill :: "u32 list \<Rightarrow> u32 list \<Rightarrow> u32 list" where
  "fill ws buf = ws @ drop (length ws) buf"

text \<open>The error codes of the security server and of the access vector cache.\<close>

datatype errno = ENOMEM | EEXIST | ENOENT | EINVAL | EAGAIN | EACCES | E_NOINTERFACE

lemma le32_bytes:
  "le32 w = [ucast w, ucast (drop_bit 8 w), ucast (drop_bit 16 w), ucast (drop_bit 24 w)]"
  by (simp add: le32_def upt_rec)

lemma fread32_le32 [simp]: "fread32 (le32 w @ rest) = Some (w, rest)"
proof -
  have "bit (ucast (ucast w :: byte) OR push_bit 8 (ucast (ucast (drop_bit 8 w) :: byte)) OR
      push_bit 16 (ucast (ucast (drop_bit 16 w) :: byte)) OR
      push_bit 24 (ucast (ucast (drop_bit 24 w) :: byte)) :: u32) n = bit w n" if "n < 32" for n
  proof -
    consider "n < 8" | k where "n = 8 + k" "k < 8" | k where "n = 16 + k" "k < 8" | k where "n = 24 + k" "k < 8"
    proof (atomize_elim)
      have "n = 8 + (n - 8) \<and> n - 8 < 8 \<or> n = 16 + (n - 16) \<and> n - 16 < 8 \<or> n = 24 + (n - 24) \<and> n - 24 < 8"
        if "\<not> n < 8" using that \<open>n < 32\<close> by arith
      then show "n < 8 \<or> (\<exists>k. n = 8 + k \<and> k < 8) \<or> (\<exists>k. n = 16 + k \<and> k < 8) \<or> (\<exists>k. n = 24 + k \<and> k < 8)"
        by blast
    qed
    then show ?thesis by cases (auto simp: bit_simps)
  qed
  then show ?thesis unfolding le32_bytes by (auto intro!: bit_word_eqI)
qed

lemma le64_le32: "le64 w = le32 (ucast w) @ le32 (ucast (drop_bit 32 w))"
proof -
  have lo: "(ucast (drop_bit k (ucast w :: u32)) :: byte) = ucast (drop_bit k w)" if "k \<le> 24" for k
    by (rule bit_word_eqI) (use that in \<open>auto simp: bit_simps\<close>)
  have hi: "(ucast (drop_bit k (ucast (drop_bit 32 w) :: u32)) :: byte) = ucast (drop_bit (32 + k) w)" if "k \<le> 24" for k
    by (rule bit_word_eqI) (use that in \<open>auto simp: bit_simps ac_simps\<close>)
  show ?thesis using lo [of 0] hi [of 0] by (simp add: le64_def le32_def upt_rec lo hi)
qed

lemma fread64_le64 [simp]: "fread64 (le64 w @ rest) = Some (w, rest)"
proof -
  have "ucast (ucast w :: u32) OR push_bit 32 (ucast (ucast (drop_bit 32 w) :: u32)) = w"
    by (rule bit_word_eqI) (auto simp: bit_simps)
  then show ?thesis by (simp add: fread64_def le64_le32)
qed

lemma fread32s_le32 [simp]: "fread32s (length ws) (concat (map le32 ws) @ rest) = Some (ws, rest)"
  by (induction ws) simp_all

lemma fread32s_length: "fread32s n fp = Some (ws, fp') \<Longrightarrow> length ws = n"
  by (induction n arbitrary: fp ws) (auto split: bind_splits)

lemma fill_length [simp]: "length ws \<le> length buf \<Longrightarrow> length (fill ws buf) = length buf"
  by (simp add: fill_def)

lemma fill_nth [simp]: "i < length ws \<Longrightarrow> fill ws buf ! i = ws ! i"
  by (simp add: fill_def nth_append)

end
