(* ===== verification/Amm.thy ===== *)
theory Amm
  imports Cstd
begin

text \<open>
  The Address Map Manager, \<open>amm/*.c\<close>: a singly linked list of entries that divides the address
  space into ranges with flags.  The code passes around pointers to the \<open>next\<close> fields of
  entries, keeps one of them in the map as a hint and frees entries, so the entries
  live in an explicit heap.

  \<^item> A \<open>struct amm_entry *\<close> is the number of a memory block, 0 for \<open>NULL\<close>.  Block numbers are
    unbounded: how much memory there is belongs to the allocator.  A \<open>struct amm_entry **\<close> is a location,
    either the \<open>nodes\<close> field of the map or the \<open>next\<close> field of an entry.
  \<^item> The heap maps the allocated entries to their contents.  An access to any other block is undefined in C and gives \<open>None\<close>, as a failed assertion does.
    The two places where the code itself reads an entry it has freed look into
    \<open>freed\<close>, which holds what \<open>free\<close> left there.
  \<^item> The allocator is a parameter: \<open>env_alloc\<close> gives for every allocation call, by its place
    in the tree of calls, and for the heap at that moment the new entry or 0, and \<open>env_scribble\<close> what a freed entry holds afterwards.
  \<^item> Maps have no split and join functions of their own, as all that \<open>amm_init\<close> creates; so
    \<open>amm_split\<close> fails only for lack of memory, and \<open>amm_join\<close> never.
\<close>

section \<open>Data\<close>

type_synonym ptr = nat

record amm_entry =
  e_next :: ptr
  e_start :: addr
  e_end :: addr
  e_flags :: u32

datatype amm_loc = Nodes | NextOf ptr

record amm_stats =
  lookups :: u32
  hits :: u32
  entriesscanned :: u32

type_synonym amm_heap = "ptr \<Rightarrow> amm_entry option"

record amm =
  nodes :: ptr
  hint :: amm_loc
  stats :: amm_stats
  heap :: amm_heap
  freed :: amm_heap

record amm_env =
  env_alloc :: "nat list \<Rightarrow> amm_heap \<Rightarrow> ptr"
  env_scribble :: "amm_entry \<Rightarrow> amm_entry"

definition sub_env :: "amm_env \<Rightarrow> nat \<Rightarrow> amm_env" where
  "sub_env env i = env\<lparr>env_alloc := \<lambda>q. env_alloc env (i # q)\<rparr>"

definition AMM_MINADDR :: addr where
  "AMM_MINADDR = 0"

definition AMM_MAXADDR :: addr where
  "AMM_MAXADDR = NOT 0"

definition AMM_FREE :: u32 where
  "AMM_FREE = 0"

definition AMM_RESERVED :: u32 where
  "AMM_RESERVED = NOT (drop_bit 1 (NOT 0))"

definition AMM_ALLOCATED :: u32 where
  "AMM_ALLOCATED = drop_bit 1 AMM_RESERVED"

definition AMM_BACKWARD :: u32 where
  "AMM_BACKWARD = 1"

definition AMM_BESTFIT :: u32 where
  "AMM_BESTFIT = 2"

definition AMM_EXACT_ADDR :: u32 where
  "AMM_EXACT_ADDR = 4"

section \<open>Memory accesses\<close>

definition deref :: "amm \<Rightarrow> ptr \<Rightarrow> amm_entry option" where
  "deref a p = (if p = 0 then None else heap a p)"

text \<open>A read that may hit an entry already freed.\<close>

definition peek :: "amm \<Rightarrow> ptr \<Rightarrow> amm_entry option" where
  "peek a p = (case deref a p of Some e \<Rightarrow> Some e | None \<Rightarrow> freed a p)"

definition load :: "amm \<Rightarrow> amm_loc \<Rightarrow> ptr option" where
  "load a l = (case l of Nodes \<Rightarrow> Some (nodes a) | NextOf p \<Rightarrow> map_option e_next (deref a p))"

definition put :: "amm \<Rightarrow> ptr \<Rightarrow> amm_entry \<Rightarrow> amm" where
  "put a p e = a\<lparr>heap := (heap a)(p \<mapsto> e)\<rparr>"

definition assign :: "amm \<Rightarrow> amm_loc \<Rightarrow> ptr \<Rightarrow> amm option" where
  "assign a l v =
     (case l of
        Nodes \<Rightarrow> Some (a\<lparr>nodes := v\<rparr>)
      | NextOf p \<Rightarrow> do { e \<leftarrow> deref a p; Some (put a p (e\<lparr>e_next := v\<rparr>)) })"

section \<open>Entries\<close>

text \<open>A new entry; its contents are undefined, and every field is written before it is read.\<close>

definition amm_alloc_entry :: "amm_env \<Rightarrow> amm \<Rightarrow> ptr \<times> amm" where
  "amm_alloc_entry env a = (
     let p = env_alloc env [] (heap a)
     in if p = 0 then (0, a) else (p, put a p \<lparr>e_next = 0, e_start = 0, e_end = 0, e_flags = 0\<rparr>))"

definition amm_free_entry :: "amm_env \<Rightarrow> amm \<Rightarrow> ptr \<Rightarrow> amm option" where
  "amm_free_entry env a entry = do {
     v \<leftarrow> (case hint a of Nodes \<Rightarrow> Some (nodes a) | NextOf p \<Rightarrow> map_option e_next (peek a p));
     let a = (if v = entry then a\<lparr>hint := Nodes\<rparr> else a);
     e \<leftarrow> deref a entry;
     Some (a\<lparr>heap := (heap a)(entry := None), freed := (freed a)(entry \<mapsto> env_scribble env e)\<rparr>)
   }"

definition amm_split ::
    "amm_env \<Rightarrow> amm \<Rightarrow> amm_loc \<Rightarrow> ptr \<Rightarrow> addr \<Rightarrow> ((errno + ptr \<times> ptr) \<times> amm) option" where
  "amm_split env a pentry entry addr = do {
     e \<leftarrow> deref a entry;
     assertion (addr \<ge> e_start e \<and> addr < e_end e);
     let (tail, a) = amm_alloc_entry env a;
     if tail = 0 then Some (Inl ENOMEM, a)
     else do {
       let head = entry;
       let a = put a tail \<lparr>e_next = e_next e, e_start = addr, e_end = e_end e, e_flags = e_flags e\<rparr>;
       let a = put a head \<lparr>e_next = tail, e_start = e_start e, e_end = addr, e_flags = e_flags e\<rparr>;
       a \<leftarrow> assign a pentry head;
       Some (Inr (head, tail), a)
     }
   }"

definition amm_join :: "amm_env \<Rightarrow> amm \<Rightarrow> amm_loc \<Rightarrow> ptr \<Rightarrow> ptr \<Rightarrow> (ptr \<times> amm) option" where
  "amm_join env a pentry head tail = do {
     he \<leftarrow> deref a head;
     te \<leftarrow> deref a tail;
     assertion (e_end he = e_start te);
     assertion (e_flags he = e_flags te);
     let entry = head;
     let a = put a entry \<lparr>e_next = e_next te, e_start = e_start he, e_end = e_end te, e_flags = e_flags te\<rparr>;
     a \<leftarrow> assign a pentry entry;
     a \<leftarrow> (if tail \<noteq> entry then amm_free_entry env a tail else Some a);
     Some (entry, a)
   }"

section \<open>Searching\<close>

partial_function (option) find_addr_loop ::
    "addr \<Rightarrow> amm \<Rightarrow> amm_loc \<Rightarrow> bool \<Rightarrow> (ptr \<times> amm_loc \<times> bool \<times> amm) option" where
  "find_addr_loop addr a pentry first = do {
     let a = a\<lparr>stats := (stats a)\<lparr>entriesscanned := entriesscanned (stats a) + 1\<rparr>\<rparr>;
     entry \<leftarrow> load a pentry;
     e \<leftarrow> deref a entry;
     if e_start e \<le> addr \<and> addr < e_end e then Some (entry, pentry, first, a)
     else do {
       let pentry = (if e_next e \<noteq> 0 then NextOf entry else Nodes);
       assertion (pentry \<noteq> hint a);
       find_addr_loop addr a pentry False
     }
   }"

definition amm_find_addr :: "amm \<Rightarrow> addr \<Rightarrow> (ptr \<times> amm) option" where
  "amm_find_addr a addr = do {
     let a = a\<lparr>stats := (stats a)\<lparr>lookups := lookups (stats a) + 1\<rparr>\<rparr>;
     p \<leftarrow> load a (hint a);
     e \<leftarrow> deref a p;
     let pentry = (if addr < e_start e then Nodes else hint a);
     (entry, pentry, first, a) \<leftarrow> find_addr_loop addr a pentry True;
     let a = (if first then a\<lparr>stats := (stats a)\<lparr>hits := hits (stats a) + 1\<rparr>\<rparr> else a);
     Some (entry, a\<lparr>hint := pentry\<rparr>)
   }"

text \<open>The result of \<open>amm_find_gen\<close> is the entry it returns with the address it stores, or \<open>None\<close> for
  \<open>NULL\<close>.\<close>

partial_function (option) find_gen_loop ::
    "u32 \<Rightarrow> u32 \<Rightarrow> u32 \<Rightarrow> u32 \<Rightarrow> addr \<Rightarrow> u32 \<Rightarrow> amm \<Rightarrow> ptr \<Rightarrow> amm_loc \<Rightarrow> ptr \<Rightarrow> addr \<Rightarrow> addr
     \<Rightarrow> ((ptr \<times> addr) option \<times> amm) option" where
  "find_gen_loop sz flags flagmask msk align_off find_flags a entry pentry sentry addr eaddr =
     (if entry = 0 then Some (None, a)
      else do {
        e \<leftarrow> deref a entry;
        assertion (eaddr \<ge> e_start e);
        if addr \<ge> e_end e then
          find_gen_loop sz flags flagmask msk align_off find_flags a (e_next e) (NextOf entry) sentry addr eaddr
        else if e_flags e AND flagmask \<noteq> flags then
          if find_flags AND AMM_EXACT_ADDR \<noteq> 0 then Some (None, a)
          else
            let addr = ((e_end e + msk) AND NOT msk) + align_off
            in find_gen_loop sz flags flagmask msk align_off find_flags a (e_next e) (NextOf entry) (e_next e)
                 addr (addr + sz)
        else if eaddr \<le> e_end e then Some (Some (sentry, addr), a\<lparr>hint := pentry\<rparr>)
        else find_gen_loop sz flags flagmask msk align_off find_flags a (e_next e) (NextOf entry) sentry addr eaddr
      })"

definition amm_find_gen ::
    "amm \<Rightarrow> addr \<Rightarrow> u32 \<Rightarrow> u32 \<Rightarrow> u32 \<Rightarrow> u32 \<Rightarrow> addr \<Rightarrow> u32 \<Rightarrow> ((ptr \<times> addr) option \<times> amm) option" where
  "amm_find_gen a hintaddr sz flags flagmask align_bits align_off find_flags = do {
     assertion (sz \<noteq> 0);
     assertion (align_bits < 32);
     assertion (find_flags AND (AMM_BACKWARD OR AMM_BESTFIT) = 0);
     let msk = push_bit (unat align_bits) 1 - 1;
     let addr = ((hintaddr + msk) AND NOT msk) + align_off;
     let eaddr = addr + sz;
     assertion (addr < eaddr);
     (sentry, a) \<leftarrow> amm_find_addr a addr;
     find_gen_loop sz flags flagmask msk align_off find_flags a sentry (hint a) sentry addr eaddr
   }"

section \<open>Modification\<close>

text \<open>The steps of \<open>amm_modify\<close> in their order.  Splitting off what lies before the range:\<close>

definition modify_head ::
    "amm_env \<Rightarrow> amm \<Rightarrow> amm_loc \<Rightarrow> ptr \<Rightarrow> addr \<Rightarrow> ((errno + amm_loc \<times> ptr) \<times> amm) option" where
  "modify_head env a pentry entry addr = do {
     e \<leftarrow> deref a entry;
     if e_start e < addr then do {
       (r, a) \<leftarrow> amm_split env a pentry entry addr;
       case r of
         Inl rc \<Rightarrow> Some (Inl rc, a)
       | Inr (hentry, tentry) \<Rightarrow> Some (Inr (NextOf hentry, tentry), a)
     }
     else Some (Inr (pentry, entry), a)
   }"

text \<open>Deleting the entries that the range covers completely:\<close>

partial_function (option) modify_drop ::
    "amm_env \<Rightarrow> amm_loc \<Rightarrow> addr \<Rightarrow> amm \<Rightarrow> ptr \<Rightarrow> (ptr \<times> amm) option" where
  "modify_drop env pentry eaddr a entry = do {
     e \<leftarrow> deref a entry;
     if e_end e < eaddr then do {
       a \<leftarrow> assign a pentry (e_next e);
       a \<leftarrow> amm_free_entry env a entry;
       entry \<leftarrow> load a pentry;
       modify_drop env pentry eaddr a entry
     }
     else Some (entry, a)
   }"

text \<open>Splitting off what lies behind the range:\<close>

definition modify_tail ::
    "amm_env \<Rightarrow> amm \<Rightarrow> amm_loc \<Rightarrow> ptr \<Rightarrow> addr \<Rightarrow> ((errno + ptr) \<times> amm) option" where
  "modify_tail env a pentry entry eaddr = do {
     e \<leftarrow> deref a entry;
     if e_end e > eaddr then do {
       (r, a) \<leftarrow> amm_split env a pentry entry eaddr;
       case r of
         Inl rc \<Rightarrow> Some (Inl rc, a)
       | Inr (hentry, tentry) \<Rightarrow> Some (Inr hentry, a)
     }
     else Some (Inr entry, a)
   }"

text \<open>Putting the new entry in the place of the last one:\<close>

definition modify_entry ::
    "amm_env \<Rightarrow> amm \<Rightarrow> amm_loc \<Rightarrow> ptr \<Rightarrow> addr \<Rightarrow> addr \<Rightarrow> u32 \<Rightarrow> ptr \<Rightarrow> ((errno + ptr) \<times> amm) option" where
  "modify_entry env a pentry entry addr eaddr nflags nentry =
     (if nentry = entry then do {
        e \<leftarrow> deref a entry;
        Some (Inr nentry, put a entry (e\<lparr>e_start := addr, e_flags := nflags\<rparr>))
      }
      else do {
        let (nentry, a) = (if nentry = 0 then amm_alloc_entry env a else (nentry, a));
        if nentry = 0 then Some (Inl ENOMEM, a)
        else do {
          a \<leftarrow> assign a pentry nentry;
          e \<leftarrow> deref a entry;
          n \<leftarrow> deref a nentry;
          let a = put a nentry \<lparr>e_next = e_next e, e_start = addr, e_end = eaddr, e_flags = nflags\<rparr>;
          a \<leftarrow> amm_free_entry env a entry;
          Some (Inr nentry, a)
        }
      })"

text \<open>The search for the location that holds the previous entry:\<close>

partial_function (option) modify_find :: "amm \<Rightarrow> ptr \<Rightarrow> amm_loc \<Rightarrow> amm_loc option" where
  "modify_find a hentry pentry = do {
     v \<leftarrow> load a pentry;
     assertion (v \<noteq> 0);
     if v = hentry then Some pentry else modify_find a hentry (NextOf v)
   }"

text \<open>Joining with the previous and with the following entry:\<close>

definition modify_join_prev ::
    "amm_env \<Rightarrow> amm \<Rightarrow> amm_loc \<Rightarrow> ptr \<Rightarrow> (amm_loc \<times> ptr \<times> amm) option" where
  "modify_join_prev env a pentry nentry =
     (case pentry of
        Nodes \<Rightarrow> Some (pentry, nentry, a)
      | NextOf hentry \<Rightarrow> do {
          he \<leftarrow> deref a hentry;
          te \<leftarrow> deref a nentry;
          assertion (e_next he = nentry);
          if e_flags he = e_flags te then do {
            pentry \<leftarrow> modify_find a hentry Nodes;
            (nentry, a) \<leftarrow> amm_join env a pentry hentry nentry;
            Some (pentry, nentry, a)
          }
          else Some (pentry, nentry, a)
        })"

definition modify_join_next ::
    "amm_env \<Rightarrow> amm \<Rightarrow> amm_loc \<Rightarrow> ptr \<Rightarrow> amm option" where
  "modify_join_next env a pentry nentry = do {
     ne \<leftarrow> deref a nentry;
     if e_next ne \<noteq> 0 then do {
       te \<leftarrow> deref a (e_next ne);
       if e_flags ne = e_flags te then do {
         (nentry, a) \<leftarrow> amm_join env a pentry nentry (e_next ne);
         Some a
       }
       else Some a
     }
     else Some a
   }"

definition modify_joins :: "amm_env \<Rightarrow> amm \<Rightarrow> amm_loc \<Rightarrow> ptr \<Rightarrow> amm option" where
  "modify_joins env a pentry nentry = do {
     (pentry, nentry, a) \<leftarrow> modify_join_prev (sub_env env 0) a pentry nentry;
     a \<leftarrow> modify_join_next (sub_env env 1) a pentry nentry;
     Some (a\<lparr>hint := pentry\<rparr>)
   }"

text \<open>What follows the first split:\<close>

definition modify_rest ::
    "amm_env \<Rightarrow> amm \<Rightarrow> amm_loc \<Rightarrow> ptr \<Rightarrow> addr \<Rightarrow> addr \<Rightarrow> u32 \<Rightarrow> ptr \<Rightarrow> (errno option \<times> amm) option" where
  "modify_rest env a pentry entry addr eaddr nflags nentry = do {
     e \<leftarrow> deref a entry;
     assertion (e_start e = addr);
     (entry, a) \<leftarrow> modify_drop (sub_env env 0) pentry eaddr a entry;
     (r, a) \<leftarrow> modify_tail (sub_env env 1) a pentry entry eaddr;
     case r of
       Inl rc \<Rightarrow> Some (Some rc, a)
     | Inr entry \<Rightarrow> do {
         e \<leftarrow> deref a entry;
         assertion (e_end e = eaddr);
         (r, a) \<leftarrow> modify_entry (sub_env env 2) a pentry entry addr eaddr nflags nentry;
         case r of
           Inl rc \<Rightarrow> Some (Some rc, a)
         | Inr nentry \<Rightarrow> do {
             a \<leftarrow> modify_joins (sub_env env 3) a pentry nentry;
             Some (None, a)
           }
       }
   }"

definition amm_modify ::
    "amm_env \<Rightarrow> amm \<Rightarrow> addr \<Rightarrow> u32 \<Rightarrow> u32 \<Rightarrow> ptr \<Rightarrow> (errno option \<times> amm) option" where
  "amm_modify env a addr sz nflags nentry = (
     let eaddr = addr + sz
     in if eaddr < addr then Some (Some EINVAL, a)
        else do {
          (entry, a) \<leftarrow> amm_find_addr a addr;
          let pentry = hint a;
          e \<leftarrow> deref a entry;
          if nentry = 0 \<and> addr \<ge> e_start e \<and> eaddr \<le> e_end e \<and> nflags = e_flags e then Some (None, a)
          else do {
            (r, a) \<leftarrow> modify_head (sub_env env 0) a pentry entry addr;
            case r of
              Inl rc \<Rightarrow> Some (Some rc, a)
            | Inr (pentry, entry) \<Rightarrow> modify_rest (sub_env env 1) a pentry entry addr eaddr nflags nentry
          }
        })"

definition amm_reserve :: "amm_env \<Rightarrow> amm \<Rightarrow> addr \<Rightarrow> u32 \<Rightarrow> (errno option \<times> amm) option" where
  "amm_reserve env a addr sz = amm_modify env a addr sz AMM_RESERVED 0"

text \<open>Isolating a range.  The result is the entry returned, 0 for \<open>NULL\<close>.\<close>

partial_function (option) select_skip :: "addr \<Rightarrow> amm \<Rightarrow> amm_loc \<Rightarrow> ptr \<Rightarrow> (amm_loc \<times> ptr) option" where
  "select_skip eaddr a pentry entry = do {
     e \<leftarrow> deref a entry;
     if e_end e < eaddr then select_skip eaddr a (NextOf entry) (e_next e)
     else Some (pentry, entry)
   }"

definition amm_select :: "amm_env \<Rightarrow> amm \<Rightarrow> addr \<Rightarrow> u32 \<Rightarrow> (ptr \<times> amm) option" where
  "amm_select env a addr sz = (
     let eaddr = addr + sz
     in if eaddr < addr then Some (0, a)
        else do {
          (entry, a) \<leftarrow> amm_find_addr a addr;
          e \<leftarrow> deref a entry;
          (r, a) \<leftarrow> modify_head (sub_env env 0) a (hint a) entry addr;
          case r of Inl rc \<Rightarrow> Some (0, a) | Inr (pentry, entry) \<Rightarrow> do {
          let a = (if e_start e < addr then a\<lparr>hint := pentry\<rparr> else a);
          e \<leftarrow> deref a entry;
          assertion (e_start e = addr);
          (pentry, entry) \<leftarrow> select_skip eaddr a pentry entry;
          (r, a) \<leftarrow> modify_tail (sub_env env 1) a pentry entry eaddr;
          case r of Inl rc \<Rightarrow> Some (0, a) | Inr entry \<Rightarrow> do {
          e \<leftarrow> deref a entry;
          assertion (e_end e = eaddr);
          p \<leftarrow> load a (hint a);
          Some (p, a)
        }}})"

section \<open>Creation and destruction\<close>

text \<open>\<open>entry\<close> is the initial entry of the client, 0 to allocate one.\<close>

definition amm_init_gen :: "amm_env \<Rightarrow> amm \<Rightarrow> u32 \<Rightarrow> ptr \<Rightarrow> amm option" where
  "amm_init_gen env a flags entry = do {
     let (entry, a) = (if entry = 0 then amm_alloc_entry env a else (entry, a));
     e \<leftarrow> deref a entry;
     let a = put a entry \<lparr>e_next = 0, e_start = AMM_MINADDR, e_end = AMM_MAXADDR, e_flags = flags\<rparr>;
     Some (a\<lparr>nodes := entry, hint := Nodes, stats := \<lparr>lookups = 0, hits = 0, entriesscanned = 0\<rparr>\<rparr>)
   }"

definition amm_init :: "amm_env \<Rightarrow> amm \<Rightarrow> addr \<Rightarrow> addr \<Rightarrow> amm option" where
  "amm_init env a lo hi = do {
     a \<leftarrow> amm_init_gen (sub_env env 0) a AMM_FREE 0;
     a \<leftarrow> (if AMM_MINADDR < lo then do {
             (rc, a) \<leftarrow> amm_modify (sub_env env 1) a AMM_MINADDR (lo - AMM_MINADDR) AMM_RESERVED 0;
             assertion (rc = None);
             Some a
           } else Some a);
     if hi < AMM_MAXADDR then do {
       (rc, a) \<leftarrow> amm_modify (sub_env env 2) a hi (AMM_MAXADDR - hi) AMM_RESERVED 0;
       assertion (rc = None);
       Some a
     } else Some a
   }"

partial_function (option) destroy_loop :: "amm_env \<Rightarrow> amm \<Rightarrow> ptr \<Rightarrow> amm option" where
  "destroy_loop env a entry =
     (if entry = 0 then Some a
      else do {
        e \<leftarrow> deref a entry;
        a \<leftarrow> amm_free_entry env a entry;
        destroy_loop env a (e_next e)
      })"

definition amm_destroy :: "amm_env \<Rightarrow> amm \<Rightarrow> amm option" where
  "amm_destroy env a = do {
     a \<leftarrow> destroy_loop env a (nodes a);
     Some (a\<lparr>nodes := 0\<rparr>)
   }"

section \<open>The simple interface\<close>

text \<open>The result of \<open>amm_allocate\<close> is the error, or the address chosen.\<close>

definition amm_allocate ::
    "amm_env \<Rightarrow> amm \<Rightarrow> addr \<Rightarrow> u32 \<Rightarrow> u32 \<Rightarrow> ((errno + addr) \<times> amm) option" where
  "amm_allocate env a addr sz prot = do {
     let addr = (if addr < AMM_MINADDR \<or> addr \<ge> AMM_MAXADDR then AMM_MINADDR else addr);
     let prot = prot AND NOT (AMM_ALLOCATED OR AMM_RESERVED);
     (found, a) \<leftarrow> amm_find_gen a addr sz AMM_FREE (NOT 0) 0 0 0;
     case found of
       None \<Rightarrow> Some (Inl ENOMEM, a)
     | Some (entry, addr) \<Rightarrow> do {
         (rc, a) \<leftarrow> amm_modify env a addr sz (AMM_ALLOCATED OR prot) 0;
         Some (case rc of None \<Rightarrow> Inr addr | Some err \<Rightarrow> Inl err, a)
       }
   }"

text \<open>The loops of \<open>amm_deallocate\<close> and \<open>amm_protect\<close> read \<open>end\<close> of the entry after \<open>amm_modify\<close>, which may
  have freed it.\<close>

partial_function (option) deallocate_loop ::
    "addr \<Rightarrow> amm_env \<Rightarrow> nat \<Rightarrow> amm \<Rightarrow> addr \<Rightarrow> (errno option \<times> amm) option" where
  "deallocate_loop eaddr env i a saddr =
     (if saddr < eaddr then do {
        (entry, a) \<leftarrow> amm_find_addr a saddr;
        e \<leftarrow> deref a entry;
        (rc, a) \<leftarrow>
          (if e_flags e AND AMM_ALLOCATED = AMM_ALLOCATED then
             let sz = (if eaddr < e_end e then eaddr - saddr else e_end e - saddr)
             in amm_modify (sub_env env i) a saddr sz AMM_FREE 0
           else Some (None, a));
        if rc \<noteq> None then Some (rc, a)
        else do {
          e \<leftarrow> peek a entry;
          deallocate_loop eaddr env (Suc i) a (e_end e)
        }
      }
      else Some (None, a))"

definition amm_deallocate :: "amm_env \<Rightarrow> amm \<Rightarrow> addr \<Rightarrow> u32 \<Rightarrow> (errno option \<times> amm) option" where
  "amm_deallocate env a addr sz = deallocate_loop (addr + sz) env 0 a addr"

partial_function (option) protect_loop ::
    "addr \<Rightarrow> u32 \<Rightarrow> amm_env \<Rightarrow> nat \<Rightarrow> amm \<Rightarrow> addr \<Rightarrow> (errno option \<times> amm) option" where
  "protect_loop eaddr prot env i a saddr =
     (if saddr < eaddr then do {
        (entry, a) \<leftarrow> amm_find_addr a saddr;
        e \<leftarrow> deref a entry;
        (rc, a) \<leftarrow>
          (if e_flags e AND AMM_ALLOCATED = AMM_ALLOCATED then
             let sz = (if eaddr < e_end e then eaddr - saddr else e_end e - saddr)
             in if e_flags e \<noteq> prot then amm_modify (sub_env env i) a saddr sz prot 0 else Some (None, a)
           else Some (None, a));
        if rc \<noteq> None then Some (rc, a)
        else do {
          e \<leftarrow> peek a entry;
          protect_loop eaddr prot env (Suc i) a (e_end e)
        }
      }
      else Some (None, a))"

definition amm_protect :: "amm_env \<Rightarrow> amm \<Rightarrow> addr \<Rightarrow> u32 \<Rightarrow> u32 \<Rightarrow> (errno option \<times> amm) option" where
  "amm_protect env a addr sz prot =
     protect_loop (addr + sz) ((prot AND NOT AMM_RESERVED) OR AMM_ALLOCATED) env 0 a addr"

section \<open>Iteration\<close>

text \<open>The client's function may change the map and its own data.\<close>

type_synonym 'x amm_ifunc = "amm \<Rightarrow> ptr \<Rightarrow> 'x \<Rightarrow> (int \<times> amm \<times> 'x) option"

partial_function (option) iterate_loop :: "'x amm_ifunc \<Rightarrow> amm \<Rightarrow> ptr \<Rightarrow> 'x \<Rightarrow> (int \<times> amm \<times> 'x) option" where
  "iterate_loop ifunc a entry arg =
     (if entry = 0 then Some (0, a, arg)
      else do {
        e \<leftarrow> deref a entry;
        let addr = e_end e - 1;
        (rv, a, arg) \<leftarrow> ifunc a entry arg;
        if rv \<noteq> 0 then Some (rv, a, arg)
        else do {
          (entry, a) \<leftarrow> amm_find_addr a addr;
          e \<leftarrow> deref a entry;
          iterate_loop ifunc a (e_next e) arg
        }
      })"

definition amm_iterate :: "amm \<Rightarrow> 'x amm_ifunc \<Rightarrow> 'x \<Rightarrow> (int \<times> amm \<times> 'x) option" where
  "amm_iterate a ifunc arg = iterate_loop ifunc a (nodes a) arg"

partial_function (option) iterate_gen_loop ::
    "'x amm_ifunc \<Rightarrow> addr \<Rightarrow> u32 \<Rightarrow> u32 \<Rightarrow> int \<Rightarrow> amm \<Rightarrow> ptr \<Rightarrow> addr \<Rightarrow> 'x \<Rightarrow> (int \<times> amm \<times> 'x) option" where
  "iterate_gen_loop ifunc eaddr flags flagmask rv a entry addr arg =
     (if entry = 0 then Some (rv, a, arg)
      else do {
        e \<leftarrow> deref a entry;
        if addr \<ge> e_end e then iterate_gen_loop ifunc eaddr flags flagmask rv a (e_next e) addr arg
        else if eaddr \<le> e_start e then Some (rv, a, arg)
        else if e_flags e AND flagmask \<noteq> flags then iterate_gen_loop ifunc eaddr flags flagmask rv a (e_next e) addr arg
        else do {
          let addr = e_end e - 1;
          (rv, a, arg) \<leftarrow> ifunc a entry arg;
          if rv \<noteq> 0 then Some (rv, a, arg)
          else do {
            (entry, a) \<leftarrow> amm_find_addr a addr;
            e \<leftarrow> deref a entry;
            iterate_gen_loop ifunc eaddr flags flagmask rv a (e_next e) addr arg
          }
        }
      })"

definition amm_iterate_gen ::
    "amm \<Rightarrow> 'x amm_ifunc \<Rightarrow> 'x \<Rightarrow> addr \<Rightarrow> u32 \<Rightarrow> u32 \<Rightarrow> u32 \<Rightarrow> (int \<times> amm \<times> 'x) option" where
  "amm_iterate_gen a ifunc arg addr sz flags flagmask =
     iterate_gen_loop ifunc (addr + sz) flags flagmask 0 a (nodes a) addr arg"

end
