(* ===== verification/Amm_Heap.thy ===== *)
theory Amm_Heap
  imports Amm
begin

text \<open>
  The list that the entries of an address map form in the heap, and what the primitive
  operations do to it.  A list element is an entry's pointer with its start, end and
  flags; the \<open>next\<close> fields are what \<open>chain\<close> says they are.
\<close>

type_synonym span = "ptr \<times> addr \<times> addr \<times> u32"

section \<open>Chains\<close>

definition ptrs :: "span list \<Rightarrow> ptr set" where
  "ptrs es = fst ` set es"

lemma ptrs_simps [simp]:
  "ptrs [] = {}" "ptrs (e # es) = insert (fst e) (ptrs es)" "ptrs (xs @ ys) = ptrs xs \<union> ptrs ys"
  by (auto simp: ptrs_def)

lemma ptrs_mono: "set xs \<subseteq> set ys \<Longrightarrow> ptrs xs \<subseteq> ptrs ys"
  by (auto simp: ptrs_def)

definition dist :: "span list \<Rightarrow> bool" where
  "dist es \<longleftrightarrow> distinct (map fst es)"

lemma dist_simps [simp]:
  "dist []" "dist (e # es) \<longleftrightarrow> fst e \<notin> ptrs es \<and> dist es"
  by (simp_all add: dist_def ptrs_def)

lemma dist_append [simp]: "dist (xs @ ys) \<longleftrightarrow> dist xs \<and> dist ys \<and> (\<forall>x\<in>ptrs ys. x \<notin> ptrs xs)"
  unfolding dist_def ptrs_def map_append distinct_append set_map disjoint_iff by blast

fun chain :: "amm_heap \<Rightarrow> ptr \<Rightarrow> span list \<Rightarrow> ptr \<Rightarrow> bool" where
  "chain h p [] q \<longleftrightarrow> p = q"
| "chain h p ((x, s, t, f) # es) q \<longleftrightarrow>
     p = x \<and> x \<noteq> 0 \<and> (\<exists>n. h x = Some \<lparr>e_next = n, e_start = s, e_end = t, e_flags = f\<rparr> \<and> chain h n es q)"

definition front :: "span list \<Rightarrow> ptr \<Rightarrow> ptr" where
  "front es q = (case es of [] \<Rightarrow> q | e # _ \<Rightarrow> fst e)"

definition loc :: "span list \<Rightarrow> amm_loc" where
  "loc xs = (if xs = [] then Nodes else NextOf (fst (last xs)))"

lemma front_simps [simp]: "front [] q = q" "front (e # es) q = fst e"
  by (simp_all add: front_def)

lemma loc_simps [simp]: "loc [] = Nodes" "loc (xs @ [e]) = NextOf (fst e)"
  by (simp_all add: loc_def)

lemma loc_Nodes_iff [simp]: "loc xs = Nodes \<longleftrightarrow> xs = []" "Nodes = loc xs \<longleftrightarrow> xs = []"
  by (auto simp: loc_def)

lemma heap_chain_append: "chain h p (xs @ ys) q \<longleftrightarrow> (\<exists>m. chain h p xs m \<and> chain h m ys q)"
  by (induction h p xs q rule: chain.induct) auto

lemma chain_cong: "(\<And>x. x \<in> ptrs es \<Longrightarrow> h x = h' x) \<Longrightarrow> chain h p es q = chain h' p es q"
proof (induction es arbitrary: p)
  case (Cons e es)
  obtain x s t f where e: "e = (x, s, t, f)" by (cases e)
  have "h x = h' x" "\<And>z. z \<in> ptrs es \<Longrightarrow> h z = h' z" using Cons.prems e by simp_all
  then show ?case using Cons.IH e by simp
qed simp

lemma chain_upd [simp]: "x \<notin> ptrs es \<Longrightarrow> chain (h(x := v)) p es q = chain h p es q"
  by (rule chain_cong) auto

lemma chain_front: "chain h p es q \<Longrightarrow> p = front es q"
  by (cases es) auto

lemma chain_live: "chain h p es q \<Longrightarrow> x \<in> ptrs es \<Longrightarrow> x \<noteq> 0 \<and> h x \<noteq> None"
  by (induction h p es q rule: chain.induct) auto

lemma chain_snoc:
  "chain h p (xs @ [(x, s, t, f)]) q \<longleftrightarrow>
     chain h p xs x \<and> x \<noteq> 0 \<and> h x = Some \<lparr>e_next = q, e_start = s, e_end = t, e_flags = f\<rparr>"
  by (auto simp: heap_chain_append dest: chain_front)

section \<open>The list of a map\<close>

definition amm_list :: "amm \<Rightarrow> span list \<Rightarrow> bool" where
  "amm_list a es \<longleftrightarrow> chain (heap a) (nodes a) es 0 \<and> dist es \<and> finite (dom (heap a))"

definition hint_in :: "amm \<Rightarrow> span list \<Rightarrow> bool" where
  "hint_in a es \<longleftrightarrow> (\<exists>xs ys. es = xs @ ys \<and> ys \<noteq> [] \<and> hint a = loc xs)"

text \<open>The hint is one of certain entries' \<open>next\<close> fields, or \<open>nodes\<close>.\<close>

definition hint_at :: "amm \<Rightarrow> ptr set \<Rightarrow> bool" where
  "hint_at a P \<longleftrightarrow> hint a \<in> insert Nodes (NextOf ` P)"

lemma hint_at_mono: "hint_at a P \<Longrightarrow> hint a' \<in> {Nodes, hint a} \<Longrightarrow> P \<subseteq> Q \<Longrightarrow> hint_at a' Q"
  by (auto simp: hint_at_def)

lemma hint_at_loc: "hint a = loc xs \<Longrightarrow> ptrs xs \<subseteq> P \<Longrightarrow> hint_at a P"
  by (cases xs rule: rev_cases) (auto simp: hint_at_def)

definition allocator :: "amm_env \<Rightarrow> bool" where
  "allocator env \<longleftrightarrow> (\<forall>q h. env_alloc env q h \<noteq> 0 \<longrightarrow> h (env_alloc env q h) = None)"

lemma allocator_sub [simp]: "allocator env \<Longrightarrow> allocator (sub_env env i)"
  by (simp add: allocator_def sub_env_def)

text \<open>Memory never runs out.\<close>

definition never_fails :: "amm_env \<Rightarrow> bool" where
  "never_fails env \<longleftrightarrow> (\<forall>q h. finite (dom h) \<longrightarrow> env_alloc env q h \<noteq> 0)"

lemma never_fails_sub [simp]: "never_fails env \<Longrightarrow> never_fails (sub_env env i)"
  by (simp add: never_fails_def sub_env_def)

lemma scribble_sub [simp]: "env_scribble (sub_env env i) = env_scribble env"
  by (simp add: sub_env_def)

lemma put_simps [simp]:
  "nodes (put a p e) = nodes a" "hint (put a p e) = hint a" "heap (put a p e) = (heap a)(p \<mapsto> e)"
  "freed (put a p e) = freed a"
  by (simp_all add: put_def)

lemma deref_nonnull [simp]: "p \<noteq> 0 \<Longrightarrow> deref a p = heap a p"
  by (simp add: deref_def)

lemma amm_list_stats [simp]:
  "amm_list (a\<lparr>stats := s\<rparr>) es = amm_list a es" "amm_list (a\<lparr>hint := l\<rparr>) es = amm_list a es"
  "hint_in (a\<lparr>stats := s\<rparr>) es = hint_in a es"
  by (simp_all add: amm_list_def hint_in_def)

lemma amm_list_mid:
  assumes "amm_list a (xs @ (p, s, t, f) # ys)"
  shows "p \<noteq> 0" "heap a p = Some \<lparr>e_next = front ys 0, e_start = s, e_end = t, e_flags = f\<rparr>"
    "chain (heap a) (nodes a) xs p" "chain (heap a) (front ys 0) ys 0"
    "p \<notin> ptrs xs" "p \<notin> ptrs ys" "\<And>x. x \<in> ptrs ys \<Longrightarrow> x \<notin> ptrs xs"
    "dist xs" "dist ys"
  using assms by (auto simp: amm_list_def heap_chain_append dest: chain_front)

lemma amm_list_finite: "amm_list a es \<Longrightarrow> finite (dom (heap a))"
  by (simp add: amm_list_def)

lemma amm_listI:
  assumes "chain (heap a) (nodes a) xs m" "chain (heap a) m ys 0" "dist (xs @ ys)" "finite (dom (heap a))"
  shows "amm_list a (xs @ ys)"
  using assms by (auto simp: amm_list_def heap_chain_append)

lemma load_loc:
  assumes "amm_list a (xs @ ys)"
  shows "load a (loc xs) = Some (front ys 0)"
proof -
  obtain m where m: "chain (heap a) (nodes a) xs m" "chain (heap a) m ys 0"
    using assms by (auto simp: amm_list_def heap_chain_append)
  then show ?thesis
    by (cases xs rule: rev_cases) (auto simp: load_def loc_def chain_snoc dest: chain_front)
qed

lemma assign_loc:
  assumes "chain (heap a) (nodes a) xs m" "dist xs"
  obtains a' where "assign a (loc xs) v = Some a'" "chain (heap a') (nodes a') xs v"
    "\<And>x. x \<notin> ptrs xs \<Longrightarrow> heap a' x = heap a x" "hint a' = hint a" "freed a' = freed a"
    "finite (dom (heap a')) = finite (dom (heap a))"
proof (cases xs rule: rev_cases)
  case Nil
  then show ?thesis using that [of "a\<lparr>nodes := v\<rparr>"] by (simp add: assign_def)
next
  case (snoc ys e)
  obtain x s t f where e: "e = (x, s, t, f)" by (cases e)
  let ?e = "\<lparr>e_next = m, e_start = s, e_end = t, e_flags = f\<rparr>"
  have "chain (heap a) (nodes a) ys x" "x \<noteq> 0" "heap a x = Some ?e" "x \<notin> ptrs ys"
    using assms snoc e by (auto simp: chain_snoc)
  then show ?thesis
    using that [of "put a x (?e\<lparr>e_next := v\<rparr>)"] snoc e by (simp add: assign_def chain_snoc)
qed

section \<open>Entries\<close>

lemma amm_alloc_entry_spec:
  assumes "allocator env" "finite (dom (heap a))" "amm_alloc_entry env a = (n, a')"
  shows "n = 0 \<and> a' = a \<and> \<not> never_fails env \<or> n \<noteq> 0 \<and> heap a n = None \<and>
    (\<exists>e. a' = put a n e)"
  using assms by (auto simp: amm_alloc_entry_def allocator_def never_fails_def Let_def split: if_splits)

lemma amm_split_spec:
  assumes l: "amm_list a (xs @ (p, s, t, f) # ys)" and x: "s \<le> x" "x < t" and env: "allocator env"
  obtains "amm_split env a (loc xs) p x = Some (Inl ENOMEM, a)" "\<not> never_fails env"
  | n a' where "amm_split env a (loc xs) p x = Some (Inr (p, n), a')"
    "amm_list a' (xs @ (p, s, x, f) # (n, x, t, f) # ys)" "hint a' = hint a" "heap a n = None" "freed a' = freed a"
    "\<And>z. z \<notin> ptrs xs \<Longrightarrow> z \<noteq> p \<Longrightarrow> z \<noteq> n \<Longrightarrow> heap a' z = heap a z"
proof -
  note m = amm_list_mid [OF l]
  obtain n a1 where alloc: "amm_alloc_entry env a = (n, a1)" by fastforce
  from amm_alloc_entry_spec [OF env amm_list_finite [OF l] alloc] consider "n = 0" "a1 = a" "\<not> never_fails env"
    | e where "n \<noteq> 0" "heap a n = None" "a1 = put a n e" by blast
  then show ?thesis
  proof cases
    case 1
    then show ?thesis using that(1) m(1,2) x alloc by (simp add: amm_split_def)
  next
    case (2 e)
    let ?a = "put (put a1 n \<lparr>e_next = front ys 0, e_start = x, e_end = t, e_flags = f\<rparr>) p
      \<lparr>e_next = n, e_start = s, e_end = x, e_flags = f\<rparr>"
    have fresh: "n \<notin> ptrs xs" "n \<notin> ptrs ys" "n \<noteq> p"
      using 2(2) m(2) chain_live [OF m(3), of n] chain_live [OF m(4), of n] by auto
    have "chain (heap ?a) (nodes ?a) xs p" using m(3,5) fresh 2 by simp
    then obtain a' where a': "assign ?a (loc xs) p = Some a'" "chain (heap a') (nodes a') xs p"
      "\<And>z. z \<notin> ptrs xs \<Longrightarrow> heap a' z = heap ?a z" "hint a' = hint ?a" "freed a' = freed ?a"
      "finite (dom (heap a')) = finite (dom (heap ?a))"
      by (rule assign_loc [OF _ m(8)]) blast
    have ys: "chain (heap a') (front ys 0) ys 0 = chain (heap a) (front ys 0) ys 0"
      by (rule chain_cong) (use a'(3) m(5-7) fresh 2 in auto)
    have "amm_list a' (xs @ (p, s, x, f) # (n, x, t, f) # ys)"
    proof (rule amm_listI)
      show "chain (heap a') (nodes a') xs p" by fact
      show "chain (heap a') p ((p, s, x, f) # (n, x, t, f) # ys) 0"
        using a'(3) [of p] a'(3) [of n] m(1,5) fresh 2 ys m(4) by simp
      show "dist (xs @ (p, s, x, f) # (n, x, t, f) # ys)"
        using m(5-9) fresh by auto
      show "finite (dom (heap a'))" using a'(6) amm_list_finite [OF l] 2(3) by simp
    qed
    moreover have "amm_split env a (loc xs) p x = Some (Inr (p, n), a')"
      using m(1,2) x alloc a'(1) 2(1) by (simp add: amm_split_def Let_def)
    moreover have "heap a' z = heap a z" if "z \<notin> ptrs xs" "z \<noteq> p" "z \<noteq> n" for z
      using a'(3) [of z] that 2(3) by simp
    moreover have "hint a' = hint a" "freed a' = freed a" using a'(4,5) 2(3) by simp_all
    ultimately show ?thesis using that(2) [of n a'] 2(2) by blast
  qed
qed

text \<open>Freeing an entry that the list does not contain keeps the list.\<close>

lemma amm_free_entry_spec:
  assumes l: "amm_list a es" and p: "p \<noteq> 0" "heap a p = Some e" "p \<notin> ptrs es" and h: "hint_at a (ptrs es)"
  shows "\<exists>a'. amm_free_entry env a p = Some a' \<and> amm_list a' es \<and> hint a' \<in> {Nodes, hint a} \<and>
    heap a' = (heap a)(p := None) \<and> freed a' = (freed a)(p \<mapsto> env_scribble env e)"
proof -
  have "\<exists>v. (case hint a of Nodes \<Rightarrow> Some (nodes a) | NextOf q \<Rightarrow> map_option e_next (peek a q)) = Some v"
    using h chain_live [of "heap a" "nodes a" es 0] l by (fastforce simp: hint_at_def amm_list_def peek_def)
  then show ?thesis using l p by (auto simp: amm_free_entry_def amm_list_def)
qed

lemma amm_join_spec:
  assumes l: "amm_list a (xs @ (p, s, x, f) # (n, x, t, f) # ys)" and h: "hint_at a (insert p (ptrs xs))"
  shows "\<exists>a'. amm_join env a (loc xs) p n = Some (p, a') \<and> amm_list a' (xs @ (p, s, t, f) # ys) \<and>
    hint a' \<in> {Nodes, hint a} \<and>
    (\<forall>z. z \<notin> insert p (insert n (ptrs xs)) \<longrightarrow> heap a' z = heap a z \<and> freed a' z = freed a z)"
proof -
  have l2: "amm_list a ((xs @ [(p, s, x, f)]) @ (n, x, t, f) # ys)" using l by simp
  note m = amm_list_mid [OF l] and m2 = amm_list_mid [OF l2]
  let ?a = "put a p \<lparr>e_next = front ys 0, e_start = s, e_end = t, e_flags = f\<rparr>"
  have "chain (heap ?a) (nodes ?a) xs p" using m(3,5) by simp
  then obtain a1 where a1: "assign ?a (loc xs) p = Some a1" "chain (heap a1) (nodes a1) xs p"
    "\<And>z. z \<notin> ptrs xs \<Longrightarrow> heap a1 z = heap ?a z" "hint a1 = hint ?a" "freed a1 = freed ?a"
    "finite (dom (heap a1)) = finite (dom (heap ?a))"
    by (rule assign_loc [OF _ m(8)]) blast
  have ys: "chain (heap a1) (front ys 0) ys 0 = chain (heap a) (front ys 0) ys 0"
    by (rule chain_cong) (use a1(3) m(5-7) in auto)
  have l1: "amm_list a1 (xs @ (p, s, t, f) # ys)"
  proof (rule amm_listI)
    show "chain (heap a1) (nodes a1) xs p" by fact
    show "chain (heap a1) p ((p, s, t, f) # ys) 0" using a1(3) [of p] m(1,5) ys m2(4) by simp
    show "dist (xs @ (p, s, t, f) # ys)" using m by auto
    show "finite (dom (heap a1))" using a1(6) amm_list_finite [OF l] by simp
  qed
  have n: "heap a1 n = heap a n" "n \<notin> ptrs (xs @ (p, s, t, f) # ys)" "n \<noteq> p" using a1(3) [of n] m2(5,6) by auto
  have h1: "hint_at a1 (ptrs (xs @ (p, s, t, f) # ys))" using h a1(4) by (auto simp: hint_at_def)
  obtain a2 e where a2: "amm_free_entry env a1 n = Some a2" "amm_list a2 (xs @ (p, s, t, f) # ys)"
    "heap a2 = (heap a1)(n := None)" "freed a2 = (freed a1)(n \<mapsto> e)" "hint a2 \<in> {Nodes, hint a1}"
    using amm_free_entry_spec [OF l1 m2(1) m2(2) [folded n(1)] n(2) h1] by blast
  then have "\<forall>z. z \<notin> insert p (insert n (ptrs xs)) \<longrightarrow> heap a2 z = heap a z \<and> freed a2 z = freed a z"
    using a1(3,5) by simp
  moreover have "hint a2 \<in> {Nodes, hint a}" using a2(5) a1(4) by simp
  ultimately show ?thesis using a1(1) a2(1,2) m(1,2) m2(1,2) n(3) by (simp add: amm_join_def)
qed

end
