(* ===== verification/Amm_Map.thy ===== *)
theory Amm_Map
  imports Amm_Heap
begin

text \<open>
  What the list of an address map means: the spans follow one another without gap from 0
  to \<open>AMM_MAXADDR\<close>, so that every address below \<open>AMM_MAXADDR\<close> has flags; and the search for the
  entry of an address, which returns for every such address.
\<close>

section \<open>Spans\<close>

fun tiles :: "addr \<Rightarrow> span list \<Rightarrow> addr \<Rightarrow> bool" where
  "tiles l [] h \<longleftrightarrow> l = h"
| "tiles l ((x, s, t, f) # es) h \<longleftrightarrow> s = l \<and> s < t \<and> tiles t es h"

fun flags_at :: "span list \<Rightarrow> addr \<Rightarrow> u32 option" where
  "flags_at [] z = None"
| "flags_at ((x, s, t, f) # es) z = (if s \<le> z \<and> z < t then Some f else flags_at es z)"

lemma tiles_append: "tiles l (xs @ ys) h \<longleftrightarrow> (\<exists>m. tiles l xs m \<and> tiles m ys h)"
  by (induction l xs h rule: tiles.induct) auto

lemma tiles_le: "tiles l es h \<Longrightarrow> l \<le> h"
  by (induction l es h rule: tiles.induct) auto

lemma flags_at_append [simp]:
  "flags_at (xs @ ys) z = (case flags_at xs z of None \<Rightarrow> flags_at ys z | Some f \<Rightarrow> Some f)"
  by (induction xs z rule: flags_at.induct) auto

lemma flags_at_None: "tiles l es h \<Longrightarrow> flags_at es z = None \<longleftrightarrow> \<not> (l \<le> z \<and> z < h)"
proof (induction l es h rule: tiles.induct)
  case (2 l x s t f es h)
  then have "l < t" "t \<le> h" by (auto dest: tiles_le)
  then show ?case using 2 by auto
qed auto

lemma flags_at_outside: "tiles l es h \<Longrightarrow> z < l \<or> h \<le> z \<Longrightarrow> flags_at es z = None"
  using flags_at_None [of l es h z] by auto

lemma tiles_mid:
  assumes "tiles l (xs @ (x, s, t, f) # ys) h"
  shows "tiles l xs s" "s < t" "tiles t ys h" "l \<le> s" "t \<le> h"
  using assms by (auto simp: tiles_append dest: tiles_le)

lemma tiles_locate:
  "tiles l es h \<Longrightarrow> l \<le> z \<Longrightarrow> z < h \<Longrightarrow> \<exists>xs x s t f ys. es = xs @ (x, s, t, f) # ys \<and> s \<le> z \<and> z < t"
proof (induction l es h rule: tiles.induct)
  case (2 l x s t f es h)
  show ?case
  proof (cases "z < t")
    case True
    then show ?thesis using 2(2,3) by (intro exI [of _ "[]"]) simp
  next
    case False
    then obtain xs x' s' t' f' ys where "es = xs @ (x', s', t', f') # ys" "s' \<le> z" "z < t'"
      using 2(1,2,4) by (fastforce simp: not_less)
    then show ?thesis by (intro exI [of _ "(x, s, t, f) # xs"]) simp
  qed
qed auto

text \<open>The spans of a tiling that lie before or behind an address.\<close>

lemma tiles_span: "tiles l es h \<Longrightarrow> (x, s, t, f) \<in> set es \<Longrightarrow> l \<le> s \<and> s < t \<and> t \<le> h"
proof (induction l es h rule: tiles.induct)
  case (2 l x' s' t' f' es h)
  then show ?case using tiles_le [of t' es h] by fastforce
qed simp

section \<open>Address maps\<close>

definition amm_ok :: "amm \<Rightarrow> span list \<Rightarrow> bool" where
  "amm_ok a es \<longleftrightarrow> amm_list a es \<and> tiles AMM_MINADDR es AMM_MAXADDR \<and> hint_in a es"

lemma amm_okD:
  assumes "amm_ok a es"
  shows "amm_list a es" "tiles 0 es AMM_MAXADDR" "hint_in a es"
  using assms by (simp_all add: amm_ok_def AMM_MINADDR_def)

lemma amm_ok_stats [simp]: "amm_ok (a\<lparr>stats := s\<rparr>) es = amm_ok a es"
  by (simp add: amm_ok_def)

lemma amm_ok_flags: "amm_ok a es \<Longrightarrow> flags_at es z \<noteq> None \<longleftrightarrow> z < AMM_MAXADDR"
  by (drule amm_okD(2)) (simp add: flags_at_None del: not_None_eq)

lemma hint_in_loc: "hint a = loc xs \<Longrightarrow> hint_in a (xs @ e # ys)"
  unfolding hint_in_def by blast

lemma amm_ok_hint: "amm_ok a (xs @ e # ys) \<Longrightarrow> amm_ok (a\<lparr>stats := st, hint := loc xs\<rparr>) (xs @ e # ys)"
  by (simp add: amm_ok_def hint_in_loc)

lemma find_addr_loop_spec:
  assumes "amm_list a (xs @ ys @ (p, s, t, f) # zs)" "s \<le> z" "z < t"
    "\<forall>(q, s', t', f')\<in>set ys. \<not> (s' \<le> z \<and> z < t')" "hint a \<notin> NextOf ` ptrs ys"
  shows "\<exists>st b. find_addr_loop z a (loc xs) first = Some (p, loc (xs @ ys), b, a\<lparr>stats := st\<rparr>)"
  using assms
proof (induction ys arbitrary: xs a first)
  case Nil
  then show ?case
    using load_loc [of "a\<lparr>stats := st\<rparr>" xs "(p, s, t, f) # zs" for st] amm_list_mid [of a xs p s t f zs]
    by (subst find_addr_loop.simps) (simp add: Let_def, blast)
next
  case (Cons y ys)
  obtain q s' t' f' where y: "y = (q, s', t', f')" by (cases y)
  let ?a = "a\<lparr>stats := (stats a)\<lparr>entriesscanned := entriesscanned (stats a) + 1\<rparr>\<rparr>"
  have l: "amm_list a (xs @ (q, s', t', f') # ys @ (p, s, t, f) # zs)" using Cons.prems(1) y by simp
  have ne: "front (ys @ (p, s, t, f) # zs) 0 \<noteq> 0"
    using chain_live [OF amm_list_mid(4) [OF l]] by (cases ys) auto
  have ld: "load ?a (loc xs) = Some q" using load_loc [of ?a xs "(q, s', t', f') # ys @ (p, s, t, f) # zs"] l by simp
  have no: "\<not> (s' \<le> z \<and> z < t')" "hint a \<noteq> NextOf q" using Cons.prems(4,5) y by auto
  have "find_addr_loop z a (loc xs) first = find_addr_loop z ?a (loc (xs @ [y])) False"
    using ld amm_list_mid(1,2) [OF l] ne no(2) y by (subst find_addr_loop.simps) (simp add: Let_def if_not_P [OF no(1)])
  moreover have "\<exists>st b. find_addr_loop z ?a (loc (xs @ [y])) False = Some (p, loc ((xs @ [y]) @ ys), b, ?a\<lparr>stats := st\<rparr>)"
    using Cons.prems by (intro Cons.IH) auto
  ultimately show ?case by simp
qed

lemma two_splits:
  assumes "xs @ x # ys = us @ u # vs"
  obtains ws where "xs = us @ ws" "u # vs = ws @ x # ys" | ws where "us = xs @ x # ws" "ys = ws @ u # vs"
proof -
  obtain ws where "xs = us @ ws \<and> ws @ x # ys = u # vs \<or> xs @ ws = us \<and> x # ys = ws @ u # vs"
    using assms unfolding append_eq_append_conv2 by blast
  then show ?thesis
  proof
    assume "xs = us @ ws \<and> ws @ x # ys = u # vs"
    then show ?thesis using that(1) [of ws] by simp
  next
    assume "xs @ ws = us \<and> x # ys = ws @ u # vs"
    then show ?thesis using that(1) [of "[]"] that(2) by (cases ws) auto
  qed
qed

lemma amm_find_addr_spec:
  assumes ok: "amm_ok a es" and z: "z < AMM_MAXADDR"
  obtains xs p s t f ys st where "es = xs @ (p, s, t, f) # ys" "s \<le> z" "z < t"
    "amm_find_addr a z = Some (p, a\<lparr>stats := st, hint := loc xs\<rparr>)"
proof -
  note d = amm_okD [OF ok]
  obtain xs p s t f ys where es: "es = xs @ (p, s, t, f) # ys" "s \<le> z" "z < t"
    using tiles_locate [OF d(2) word_zero_le z] by blast
  obtain us q s' t' f' vs where h: "es = us @ (q, s', t', f') # vs" "hint a = loc us"
    using d(3) by (auto simp: hint_in_def neq_Nil_conv)
  let ?a = "a\<lparr>stats := (stats a)\<lparr>lookups := lookups (stats a) + 1\<rparr>\<rparr>"
  have l: "amm_list ?a (us @ (q, s', t', f') # vs)" using d(1) h by simp
  have q: "load ?a (loc us) = Some q" "q \<noteq> 0" "heap ?a q = Some \<lparr>e_next = front vs 0, e_start = s', e_end = t', e_flags = f'\<rparr>"
    using load_loc [OF l] amm_list_mid(1,2) [OF l] by simp_all
  have out: "\<forall>(q1, s1, t1, f1)\<in>set xs. \<not> (s1 \<le> z \<and> z < t1)"
    using tiles_span [OF tiles_mid(1), of 0 xs p s t f ys AMM_MAXADDR] d(2) es by fastforce
  from es(1) h(1) have "xs @ (p, s, t, f) # ys = us @ (q, s', t', f') # vs" by simp
  then have "\<exists>st b. find_addr_loop z ?a (if z < s' then Nodes else loc us) True = Some (p, loc xs, b, ?a\<lparr>stats := st\<rparr>)"
  proof (rule two_splits)
    fix ws
    assume ws: "xs = us @ ws" "(q, s', t', f') # vs = ws @ (p, s, t, f) # ys"
    have hw: "hint ?a \<notin> NextOf ` ptrs ws"
      using h(2) d(1) es(1) ws(1) by (cases us rule: rev_cases) (auto simp: amm_list_def)
    have "tiles s' (ws @ (p, s, t, f) # ys) AMM_MAXADDR"
      using d(2) unfolding h(1) ws(2) [symmetric] by (auto simp: tiles_append)
    then have "\<not> z < s'" using tiles_mid(4) es(2) by fastforce
    moreover have lw: "amm_list ?a (us @ ws @ (p, s, t, f) # ys)" using d(1) es(1) ws(1) by simp
    have "\<forall>(q1, s1, t1, f1)\<in>set ws. \<not> (s1 \<le> z \<and> z < t1)" using out ws(1) by simp
    from find_addr_loop_spec [OF lw es(2,3) this hw, where first = True] have "\<exists>st b. find_addr_loop z ?a (loc us) True =
      Some (p, loc (us @ ws), b, ?a\<lparr>stats := st\<rparr>)" by blast
    ultimately show ?thesis using ws(1) by simp
  next
    fix ws
    assume ws: "us = xs @ (p, s, t, f) # ws" "ys = ws @ (q, s', t', f') # vs"
    have hw: "hint ?a \<notin> NextOf ` ptrs xs"
      using h(2) d(1) es(1) ws by (cases ws rule: rev_cases) (auto simp: amm_list_def loc_def)
    have "tiles t (ws @ (q, s', t', f') # vs) AMM_MAXADDR"
      using d(2) es(1) ws(2) by (auto simp: tiles_append)
    then have "z < s'" using tiles_mid(4) es(3) by fastforce
    moreover have lw: "amm_list ?a ([] @ xs @ (p, s, t, f) # ys)" using d(1) es(1) by simp
    from find_addr_loop_spec [OF lw es(2,3) out hw, where first = True] have "\<exists>st b. find_addr_loop z ?a (loc []) True =
      Some (p, loc ([] @ xs), b, ?a\<lparr>stats := st\<rparr>)" by blast
    ultimately show ?thesis by simp
  qed
  then obtain st b where "find_addr_loop z ?a (if z < s' then Nodes else loc us) True = Some (p, loc xs, b, ?a\<lparr>stats := st\<rparr>)"
    by blast
  then have "amm_find_addr a z =
      Some (p, a\<lparr>stats := (if b then st\<lparr>hits := hits st + 1\<rparr> else st), hint := loc xs\<rparr>)"
    using q h(2) by (cases "z < s'"; simp add: amm_find_addr_def Let_def)
  then show ?thesis using that es by blast
qed

end
