(* ===== verification/Amm_Modify.thy ===== *)
theory Amm_Modify
  imports Amm_Map
begin

text \<open>
  The effect of \<open>amm_modify\<close>, step by step: what each of its parts does to the list of the
  map, and from it that on success exactly the range has the new flags.
\<close>

section \<open>The parts\<close>

text \<open>The new entry is allocated, or is one that the caller provides.\<close>

definition new_entry :: "amm \<Rightarrow> span list \<Rightarrow> ptr \<Rightarrow> bool" where
  "new_entry a es n \<longleftrightarrow> n = 0 \<or> heap a n \<noteq> None \<and> n \<notin> ptrs es"

lemma new_entry_split:
  assumes "heap a n = None" "\<And>z. z \<notin> ptrs xs \<Longrightarrow> z \<noteq> p \<Longrightarrow> z \<noteq> n \<Longrightarrow> heap a' z = heap a z"
    "new_entry a (xs @ (p, s, t, f) # ys) m"
  shows "new_entry a' (xs @ (p, s', t', f') # (n, s'', t'', f'') # ys) m"
  using assms by (cases "m = n") (auto simp: new_entry_def)

lemma modify_head_spec:
  assumes l: "amm_list a (xs @ (p, s, t, f) # ys)" and x: "s \<le> x" "x < t" and env: "allocator env"
  obtains "modify_head env a (loc xs) p x = Some (Inl ENOMEM, a)" "\<not> never_fails env"
  | us q a' where "modify_head env a (loc xs) p x = Some (Inr (loc us, q), a')"
    "amm_list a' (us @ (q, x, t, f) # ys)" "hint a' = hint a" "freed a' = freed a"
    "us = xs \<and> q = p \<and> s = x \<and> a' = a \<or> us = xs @ [(p, s, x, f)] \<and> s < x"
    "\<And>m. new_entry a (xs @ (p, s, t, f) # ys) m \<Longrightarrow> new_entry a' (us @ (q, x, t, f) # ys) m"
proof (cases "s < x")
  case False
  then have "s = x" using x(1) by auto
  then show ?thesis using that(2) [of xs p a] l amm_list_mid(1,2) [OF l] by (simp add: modify_head_def)
next
  case True
  note m = amm_list_mid(1,2) [OF l]
  show ?thesis
  proof (rule amm_split_spec [OF l x env])
    assume "amm_split env a (loc xs) p x = Some (Inl ENOMEM, a)" "\<not> never_fails env"
    then show ?thesis using that(1) m True by (simp add: modify_head_def)
  next
    fix n a'
    assume n: "amm_split env a (loc xs) p x = Some (Inr (p, n), a')" "amm_list a' (xs @ (p, s, x, f) # (n, x, t, f) # ys)"
      "hint a' = hint a" "heap a n = None" "freed a' = freed a"
      "\<And>z. z \<notin> ptrs xs \<Longrightarrow> z \<noteq> p \<Longrightarrow> z \<noteq> n \<Longrightarrow> heap a' z = heap a z"
    from new_entry_split [OF n(4,6)] show ?thesis
      using that(2) [of "xs @ [(p, s, x, f)]" n a'] n(1-5) m True by (simp add: modify_head_def)
  qed
qed

lemma modify_drop_spec:
  assumes "amm_list a (us @ ds @ (q, s, t, f) # zs)" "\<forall>(q', s', t', f')\<in>set ds. t' < e" "e \<le> t" "hint_at a (ptrs us)"
  shows "\<exists>a'. modify_drop env (loc us) e a (front (ds @ [(q, s, t, f)]) 0) = Some (q, a') \<and>
    amm_list a' (us @ (q, s, t, f) # zs) \<and> hint a' \<in> {Nodes, hint a} \<and>
    (\<forall>z. z \<notin> ptrs us \<union> ptrs ds \<longrightarrow> heap a' z = heap a z \<and> freed a' z = freed a z)"
  using assms
proof (induction ds arbitrary: a)
  case Nil
  then show ?case
    using amm_list_mid(1,2) [of a us q s t f zs] by (subst modify_drop.simps) (auto simp: not_less)
next
  case (Cons d ds)
  obtain r s' t' f' where d: "d = (r, s', t', f')" by (cases d)
  let ?rest = "ds @ (q, s, t, f) # zs"
  have l: "amm_list a (us @ (r, s', t', f') # ?rest)" using Cons.prems(1) d by simp
  note m = amm_list_mid [OF l]
  obtain a1 where a1: "assign a (loc us) (front ?rest 0) = Some a1" "chain (heap a1) (nodes a1) us (front ?rest 0)"
    "\<And>x. x \<notin> ptrs us \<Longrightarrow> heap a1 x = heap a x" "hint a1 = hint a" "freed a1 = freed a"
    "finite (dom (heap a1)) = finite (dom (heap a))"
    by (rule assign_loc [OF m(3,8), of "front ?rest 0"]) blast
  have "chain (heap a1) (front ?rest 0) ?rest 0 = chain (heap a) (front ?rest 0) ?rest 0"
    by (rule chain_cong) (use a1(3) m(7) in blast)
  then have l1: "amm_list a1 (us @ ?rest)" using amm_listI [OF a1(2), of ?rest] a1(6) amm_list_finite [OF l] m(4,7,8,9) by simp
  have r: "heap a1 r = heap a r" "r \<notin> ptrs (us @ ?rest)" using a1(3) [of r] m(5,6) by auto
  have h1: "hint_at a1 (ptrs (us @ ?rest))" using Cons.prems(4) a1(4) by (auto simp: hint_at_def)
  obtain a2 where a2: "amm_free_entry env a1 r = Some a2" "amm_list a2 (us @ ?rest)" "hint a2 \<in> {Nodes, hint a1}"
    "heap a2 = (heap a1)(r := None)" "freed a2 = (freed a1)(r \<mapsto> env_scribble env \<lparr>e_next = front ?rest 0, e_start = s', e_end = t', e_flags = f'\<rparr>)"
    using amm_free_entry_spec [OF l1 m(1) m(2) [folded r(1)] r(2) h1] by blast
  have "hint_at a2 (ptrs us)" using hint_at_mono [OF Cons.prems(4), of a2] a2(3) a1(4) by simp
  then obtain a3 where a3: "modify_drop env (loc us) e a2 (front (ds @ [(q, s, t, f)]) 0) = Some (q, a3)"
    "amm_list a3 (us @ (q, s, t, f) # zs)" "hint a3 \<in> {Nodes, hint a2}"
    "\<forall>z. z \<notin> ptrs us \<union> ptrs ds \<longrightarrow> heap a3 z = heap a2 z \<and> freed a3 z = freed a2 z"
    using Cons.IH [OF a2(2)] Cons.prems(2,3) by auto
  have fr: "front ?rest 0 = front (ds @ [(q, s, t, f)]) 0" by (cases ds) auto
  have "t' < e" using Cons.prems(2) d by simp
  then have "modify_drop env (loc us) e a (front ((d # ds) @ [(q, s, t, f)]) 0) = Some (q, a3)"
    using m(1,2) a1(1) a2(1) load_loc [OF a2(2)] a3(1) d fr by (subst modify_drop.simps) simp
  moreover have "hint a3 \<in> {Nodes, hint a}" using a3(3) a2(3) a1(4) by auto
  moreover have "\<forall>z. z \<notin> ptrs us \<union> ptrs (d # ds) \<longrightarrow> heap a3 z = heap a z \<and> freed a3 z = freed a z"
    using a3(4) a2(4,5) a1(3,5) d by simp
  ultimately show ?case using a3(2) by blast
qed

lemma modify_tail_spec:
  assumes l: "amm_list a (us @ (q, s, t, f) # zs)" and e: "s \<le> e" "e \<le> t" and env: "allocator env"
  obtains "modify_tail env a (loc us) q e = Some (Inl ENOMEM, a)" "\<not> never_fails env"
  | zs' a' where "modify_tail env a (loc us) q e = Some (Inr q, a')"
    "amm_list a' (us @ (q, s, e, f) # zs')" "hint a' = hint a" "freed a' = freed a"
    "zs' = zs \<and> t = e \<or> (\<exists>n. zs' = (n, e, t, f) # zs \<and> e < t)"
    "\<And>m. new_entry a (us @ (q, s, t, f) # zs) m \<Longrightarrow> new_entry a' (us @ (q, s, e, f) # zs') m"
proof (cases "e < t")
  case False
  then have "t = e" using e(2) by auto
  then show ?thesis using that(2) [of a zs] l amm_list_mid(1,2) [OF l] by (simp add: modify_tail_def)
next
  case True
  note m = amm_list_mid(1,2) [OF l]
  show ?thesis
  proof (rule amm_split_spec [OF l e(1) True env])
    assume "amm_split env a (loc us) q e = Some (Inl ENOMEM, a)" "\<not> never_fails env"
    then show ?thesis using that(1) m True by (simp add: modify_tail_def)
  next
    fix n a'
    assume n: "amm_split env a (loc us) q e = Some (Inr (q, n), a')" "amm_list a' (us @ (q, s, e, f) # (n, e, t, f) # zs)"
      "hint a' = hint a" "heap a n = None" "freed a' = freed a"
      "\<And>z. z \<notin> ptrs us \<Longrightarrow> z \<noteq> q \<Longrightarrow> z \<noteq> n \<Longrightarrow> heap a' z = heap a z"
    from new_entry_split [OF n(4,6)] show ?thesis
      using that(2) [of a' "(n, e, t, f) # zs"] n(1-5) m True by (simp add: modify_tail_def)
  qed
qed

lemma modify_entry_spec:
  assumes l: "amm_list a (us @ (q, s, e, f) # zs)" and h: "hint_at a (ptrs us)" and env: "allocator env"
    and new: "new_entry a (us @ (q, s, e, f) # zs) nentry"
  obtains a' where "nentry = 0" "modify_entry env a (loc us) q x e g nentry = Some (Inl ENOMEM, a)" "\<not> never_fails env"
  | n a' where "modify_entry env a (loc us) q x e g nentry = Some (Inr n, a')"
    "amm_list a' (us @ (n, x, e, g) # zs)" "hint a' \<in> {Nodes, hint a}" "n \<noteq> q" "heap a' q = None"
    "freed a' q = Some (env_scribble env \<lparr>e_next = front zs 0, e_start = s, e_end = e, e_flags = f\<rparr>)"
proof -
  note m = amm_list_mid [OF l]
  obtain n a1 where alloc: "(if nentry = 0 then amm_alloc_entry env a else (nentry, a)) = (n, a1)" by fastforce
  have ne: "nentry \<noteq> q" using new m(1) by (auto simp: new_entry_def)
  show ?thesis
  proof (cases "n = 0")
    case True
    then have "nentry = 0" "a1 = a" "\<not> never_fails env" using alloc amm_alloc_entry_spec [OF env amm_list_finite [OF l], of n a1] by (auto split: if_splits)
    then show ?thesis using that(1) True alloc ne by (simp add: modify_entry_def)
  next
    case False
    obtain e0 where n: "heap a1 n = Some e0" "nodes a1 = nodes a" "hint a1 = hint a" "freed a1 = freed a"
      "\<And>z. z \<noteq> n \<Longrightarrow> heap a1 z = heap a z" "finite (dom (heap a1))"
      using alloc new False amm_alloc_entry_spec [OF env amm_list_finite [OF l], of n a1] amm_list_finite [OF l] by (auto simp: new_entry_def split: if_splits)
    have "n \<notin> ptrs (us @ (q, s, e, f) # zs)"
    proof (cases "nentry = 0")
      case True
      then have "heap a n = None" using alloc amm_alloc_entry_spec [OF env amm_list_finite [OF l], of n a1] False by simp
      then show ?thesis using chain_live [of "heap a" "nodes a" "us @ (q, s, e, f) # zs" 0 n] l unfolding amm_list_def by blast
    qed (use alloc new in \<open>auto simp: new_entry_def\<close>)
    then have fresh: "n \<notin> ptrs us" "n \<noteq> q" "n \<notin> ptrs zs" by simp_all
    have "chain (heap a1) (nodes a1) us q = chain (heap a) (nodes a) us q"
      unfolding n(2) by (rule chain_cong) (use n(5) fresh(1) in metis)
    with m(3) have "chain (heap a1) (nodes a1) us q" by simp
    then obtain a2 where a2: "assign a1 (loc us) n = Some a2" "chain (heap a2) (nodes a2) us n"
      "\<And>z. z \<notin> ptrs us \<Longrightarrow> heap a2 z = heap a1 z" "hint a2 = hint a1" "freed a2 = freed a1"
      "finite (dom (heap a2)) = finite (dom (heap a1))"
      by (rule assign_loc [OF _ m(8)]) blast
    have q2: "heap a2 q = Some \<lparr>e_next = front zs 0, e_start = s, e_end = e, e_flags = f\<rparr>" "heap a2 n = Some e0"
      using a2(3) [of q] a2(3) [of n] m(2,5) fresh n(1) n(5) [of q] by simp_all
    let ?a = "put a2 n \<lparr>e_next = front zs 0, e_start = x, e_end = e, e_flags = g\<rparr>"
    have zs: "chain (heap ?a) (front zs 0) zs 0 = chain (heap a) (front zs 0) zs 0"
    proof (rule chain_cong)
      fix z assume "z \<in> ptrs zs"
      then have "z \<noteq> n" "z \<notin> ptrs us" using fresh(3) m(7) by auto
      then show "heap ?a z = heap a z" using a2(3) n(5) by simp
    qed
    have l2: "amm_list ?a (us @ (n, x, e, g) # zs)"
    proof (rule amm_listI)
      show "chain (heap ?a) (nodes ?a) us n" using a2(2) fresh(1) by simp
      show "chain (heap ?a) n ((n, x, e, g) # zs) 0" using False zs m(4) by simp
      show "dist (us @ (n, x, e, g) # zs)" using m(7-9) fresh by auto
      show "finite (dom (heap ?a))" using a2(6) n(6) by simp
    qed
    have h2: "hint_at ?a (ptrs (us @ (n, x, e, g) # zs))" using h a2(4) n(3) by (auto simp: hint_at_def)
    have q3: "heap ?a q = Some \<lparr>e_next = front zs 0, e_start = s, e_end = e, e_flags = f\<rparr>" "q \<notin> ptrs (us @ (n, x, e, g) # zs)"
      using q2(1) fresh(2) m(5,6) by simp_all
    obtain a3 where a3: "amm_free_entry env ?a q = Some a3" "amm_list a3 (us @ (n, x, e, g) # zs)" "hint a3 \<in> {Nodes, hint ?a}"
      "heap a3 = (heap ?a)(q := None)" "freed a3 = (freed ?a)(q \<mapsto> env_scribble env \<lparr>e_next = front zs 0, e_start = s, e_end = e, e_flags = f\<rparr>)"
      using amm_free_entry_spec [OF l2 m(1) q3 h2] by blast
    have "modify_entry env a (loc us) q x e g nentry = Some (Inr n, a3)"
      using ne alloc False a2(1) q2 m(1) a3(1) by (simp add: modify_entry_def)
    moreover have "hint a3 \<in> {Nodes, hint a}" using a3(3) a2(4) n(3) by simp
    ultimately show ?thesis using that(2) [of n a3] a3(2,4,5) fresh(2) by simp
  qed
qed

lemma modify_find_spec:
  assumes "amm_list a (xs @ ws @ (h, s, t, f) # ys)"
  shows "modify_find a h (loc xs) = Some (loc (xs @ ws))"
  using assms
proof (induction ws arbitrary: xs)
  case Nil
  then show ?case
    using load_loc [of a xs "(h, s, t, f) # ys"] amm_list_mid(1) [of a xs h s t f ys] by (subst modify_find.simps) simp
next
  case (Cons w ws)
  obtain r s' t' f' where w: "w = (r, s', t', f')" by (cases w)
  have l: "amm_list a (xs @ (r, s', t', f') # ws @ (h, s, t, f) # ys)" using Cons.prems w by simp
  have "r \<noteq> h" using amm_list_mid(6) [OF l] by auto
  then show ?case
    using Cons.IH [of "xs @ [w]"] Cons.prems load_loc [of a xs "w # ws @ (h, s, t, f) # ys"] amm_list_mid(1) [OF l] w
    by (subst modify_find.simps) simp
qed

lemma modify_join_prev_spec:
  assumes l: "amm_list a (us @ (n, s, t, f) # zs)" and h: "hint_at a (ptrs us)" and tl: "tiles l0 us s"
  shows "\<exists>us' n' s' a'. modify_join_prev env a (loc us) n = Some (loc us', n', a') \<and>
    amm_list a' (us' @ (n', s', t, f) # zs) \<and> hint_at a' (insert n' (ptrs us')) \<and>
    (us' = us \<and> n' = n \<and> s' = s \<and> (us \<noteq> [] \<longrightarrow> snd (snd (snd (last us))) \<noteq> f) \<or> us = us' @ [(n', s', s, f)]) \<and>
    (\<forall>z. z \<notin> insert n (ptrs us) \<longrightarrow> heap a' z = heap a z \<and> freed a' z = freed a z)"
proof (cases us rule: rev_cases)
  case Nil
  then show ?thesis using l h
    by (intro exI [of _ us] exI [of _ n] exI [of _ s] exI [of _ a]) (auto simp: modify_join_prev_def hint_at_def)
next
  case (snoc vs v)
  obtain p s0 t0 f0 where v: "v = (p, s0, t0, f0)" by (cases v)
  have t0: "t0 = s" using tl snoc v by (auto simp: tiles_append)
  have l1: "amm_list a (vs @ (p, s0, s, f0) # (n, s, t, f) # zs)" using l snoc v t0 by simp
  note m1 = amm_list_mid(1,2) [OF l1] and m2 = amm_list_mid(1,2) [OF l]
  have pn: "loc us = NextOf p" using snoc v by simp
  show ?thesis
  proof (cases "f0 = f")
    case False
    then show ?thesis using l h m1 m2 pn snoc v
      by (intro exI [of _ us] exI [of _ n] exI [of _ s] exI [of _ a]) (auto simp: modify_join_prev_def hint_at_def)
  next
    case True
    have "modify_find a p Nodes = Some (loc vs)" using modify_find_spec [of a "[]" vs p s0 s f0] l1 by simp
    moreover have "hint_at a (insert p (ptrs vs))" using h snoc v by (simp add: hint_at_def)
    then obtain a' where a': "amm_join env a (loc vs) p n = Some (p, a')" "amm_list a' (vs @ (p, s0, t, f) # zs)"
      "hint a' \<in> {Nodes, hint a}"
      "\<forall>z. z \<notin> insert p (insert n (ptrs vs)) \<longrightarrow> heap a' z = heap a z \<and> freed a' z = freed a z"
      using amm_join_spec [of a vs p s0 s f n t zs env] l1 True by blast
    ultimately have "modify_join_prev env a (loc us) n = Some (loc vs, p, a')"
      using m1 m2 pn True by (simp add: modify_join_prev_def)
    moreover have "hint_at a' (insert p (ptrs vs))" using h a'(3) snoc v by (auto simp: hint_at_def)
    moreover have "us = vs @ [(p, s0, s, f)]" using snoc v t0 True by simp
    ultimately show ?thesis using a'(2,4)
      by (intro exI [of _ vs] exI [of _ p] exI [of _ s0] exI [of _ a']) simp
  qed
qed

lemma modify_join_next_spec:
  assumes l: "amm_list a (us @ (n, s, t, f) # zs)" and h: "hint_at a (insert n (ptrs us))" and tl: "tiles t zs h0"
  shows "\<exists>t' zs' a'. modify_join_next env a (loc us) n = Some a' \<and> amm_list a' (us @ (n, s, t', f) # zs') \<and>
    (zs' = zs \<and> t' = t \<and> (zs \<noteq> [] \<longrightarrow> snd (snd (snd (hd zs))) \<noteq> f) \<or> (\<exists>m. zs = (m, t, t', f) # zs')) \<and>
    (\<forall>z. z \<notin> insert n (ptrs us \<union> ptrs zs) \<longrightarrow> heap a' z = heap a z \<and> freed a' z = freed a z)"
proof (cases zs)
  case Nil
  then show ?thesis using l amm_list_mid(1,2) [OF l]
    by (intro exI [of _ t] exI [of _ "[]"] exI [of _ a]) (simp add: modify_join_next_def)
next
  case (Cons v vs)
  obtain p t0 f0 where v: "v = (p, t, t0, f0)" using tl Cons by (cases v) auto
  have l1: "amm_list a ((us @ [(n, s, t, f)]) @ (p, t, t0, f0) # vs)" using l Cons v by simp
  note m = amm_list_mid(1,2) [OF l] and m1 = amm_list_mid(1,2) [OF l1]
  show ?thesis
  proof (cases "f = f0")
    case False
    then show ?thesis using l m m1 Cons v
      by (intro exI [of _ t] exI [of _ zs] exI [of _ a]) (simp add: modify_join_next_def)
  next
    case True
    then obtain a' where a': "amm_join env a (loc us) n p = Some (n, a')" "amm_list a' (us @ (n, s, t0, f) # vs)"
      "\<forall>z. z \<notin> insert n (insert p (ptrs us)) \<longrightarrow> heap a' z = heap a z \<and> freed a' z = freed a z"
      using amm_join_spec [of a us n s t f p t0 vs env] l1 h by auto
    then show ?thesis using m m1 Cons v True
      by (intro exI [of _ t0] exI [of _ vs] exI [of _ a']) (simp add: modify_join_next_def)
  qed
qed

section \<open>Ranges of a tiling\<close>

definition flg :: "span \<Rightarrow> u32" where
  "flg e = snd (snd (snd e))"

lemma flg_simps [simp]: "flg (x, s, t, f) = f"
  by (simp add: flg_def)

text \<open>No two neighbouring spans with the same flags.\<close>

definition merged :: "span list \<Rightarrow> bool" where
  "merged es \<longleftrightarrow> distinct_adj (map flg es)"

lemma drop_split:
  "tiles l es h \<Longrightarrow> l < e \<Longrightarrow> e \<le> h \<Longrightarrow>
   \<exists>ds q s t f zs. es = ds @ (q, s, t, f) # zs \<and> (\<forall>(q', s', t', f')\<in>set ds. t' < e) \<and> s < e \<and> e \<le> t"
proof (induction l es h rule: tiles.induct)
  case (2 l x s t f es h)
  show ?case
  proof (cases "e \<le> t")
    case True
    then show ?thesis using 2(2,3) by (intro exI [of _ "[]"]) simp
  next
    case False
    then have "t < e" by simp
    then obtain ds q s' t' f' zs where "es = ds @ (q, s', t', f') # zs" "\<forall>(q', s', t', f')\<in>set ds. t' < e" "s' < e" "e \<le> t'"
      using 2(1) [OF _ _ 2(4)] 2(2) by auto
    then show ?thesis using \<open>t < e\<close> by (intro exI [of _ "(x, s, t, f) # ds"]) auto
  qed
qed auto

lemma flags_at_below: "tiles l us x \<Longrightarrow> tiles x vs h \<Longrightarrow> flags_at us z = (if z < x then flags_at (us @ vs) z else None)"
  using flags_at_outside [of l us x z] flags_at_outside [of x vs h z]
  by (cases "z < x") (auto simp: not_less not_le split: option.split)

lemma flags_at_above: "tiles l us x \<Longrightarrow> tiles x vs h \<Longrightarrow> flags_at vs z = (if x \<le> z then flags_at (us @ vs) z else None)"
  using flags_at_outside [of l us x z] flags_at_outside [of x vs h z]
  by (cases "z < x") (auto simp: not_less not_le split: option.split)

lemma flags_at_split:
  "s \<le> x \<Longrightarrow> x \<le> t \<Longrightarrow> flags_at ((p, s, x, f) # (q, x, t, f) # es) = flags_at ((p', s, t, f) # es)"
  by (rule ext) auto

lemma flags_at_join:
  assumes "s \<le> x" "x \<le> t"
  shows "flags_at (us @ (p, s, x, f) # (q, x, t, f) # es) = flags_at (us @ (p', s, t, f) # es)"
  using fun_cong [OF flags_at_split [OF assms, of p f q es p']] by (intro ext) (simp only: flags_at_append)

text \<open>A range is replaced: what lies before and behind it stays.\<close>

lemma flags_at_replace:
  assumes "tiles l us x" "tiles e zs h" "x \<le> e"
    "\<And>z. z < x \<Longrightarrow> flags_at us z = F z" "\<And>z. e \<le> z \<Longrightarrow> flags_at zs z = F z"
  shows "flags_at (us @ (n, x, e, g) # zs) = (\<lambda>z. if x \<le> z \<and> z < e then Some g else F z)"
proof
  fix z
  consider "z < x" | "x \<le> z" "z < e" | "e \<le> z" by force
  then show "flags_at (us @ (n, x, e, g) # zs) z = (if x \<le> z \<and> z < e then Some g else F z)"
  proof cases
    case 1
    then have "z < e" using assms(3) by simp
    then show ?thesis using 1 assms(4) flags_at_outside [OF assms(2), of z] by (auto split: option.split)
  next
    case 2
    then show ?thesis using flags_at_outside [OF assms(1), of z] by simp
  next
    case 3
    then have "x \<le> z" "\<not> z < e" using assms(3) by simp_all
    then show ?thesis using 3 assms(5) flags_at_outside [OF assms(1), of z] by simp
  qed
qed

section \<open>Modification\<close>

lemma merged_mid:
  "merged (us @ e # zs) \<longleftrightarrow> merged us \<and> merged zs \<and>
     (us = [] \<or> flg (last us) \<noteq> flg e) \<and> (zs = [] \<or> flg e \<noteq> flg (hd zs))"
  by (auto simp: merged_def distinct_adj_append_iff distinct_adj_Cons last_map hd_map)

lemma merged_Cons [simp]: "merged []" "merged (e # zs) \<longleftrightarrow> merged zs \<and> (zs = [] \<or> flg e \<noteq> flg (hd zs))"
  using merged_mid [of "[]" e zs] by (simp_all add: merged_def)

lemma modify_joins_spec:
  assumes l: "amm_list a (us @ (n, x, e, g) # zs)" and h: "hint_at a (ptrs us)"
    and tl: "tiles l0 us x" "x < e" "tiles e zs h0"
  obtains a' es' where "modify_joins env a (loc us) n = Some a'" "amm_list a' es'" "hint_in a' es'" "tiles l0 es' h0"
    "flags_at es' = flags_at (us @ (n, x, e, g) # zs)" "merged us \<Longrightarrow> merged zs \<Longrightarrow> merged es'"
    "\<And>z. z \<notin> insert n (ptrs us \<union> ptrs zs) \<Longrightarrow> heap a' z = heap a z \<and> freed a' z = freed a z"
    "us \<noteq> [] \<Longrightarrow> flg (last us) \<noteq> g \<Longrightarrow> set us \<subseteq> set es'"
proof -
  obtain us' n' s' a1 where 1: "modify_join_prev (sub_env env 0) a (loc us) n = Some (loc us', n', a1)"
    "amm_list a1 (us' @ (n', s', e, g) # zs)" "hint_at a1 (insert n' (ptrs us'))"
    "us' = us \<and> n' = n \<and> s' = x \<and> (us \<noteq> [] \<longrightarrow> snd (snd (snd (last us))) \<noteq> g) \<or> us = us' @ [(n', s', x, g)]"
    "\<forall>z. z \<notin> insert n (ptrs us) \<longrightarrow> heap a1 z = heap a z \<and> freed a1 z = freed a z"
    using modify_join_prev_spec [OF l h tl(1), of "sub_env env 0"] by blast
  obtain t' zs' a2 where 2: "modify_join_next (sub_env env 1) a1 (loc us') n' = Some a2" "amm_list a2 (us' @ (n', s', t', g) # zs')"
    "zs' = zs \<and> t' = e \<and> (zs \<noteq> [] \<longrightarrow> snd (snd (snd (hd zs))) \<noteq> g) \<or> (\<exists>m. zs = (m, e, t', g) # zs')"
    "\<forall>z. z \<notin> insert n' (ptrs us' \<union> ptrs zs) \<longrightarrow> heap a2 z = heap a1 z \<and> freed a2 z = freed a1 z"
    using modify_join_next_spec [OF 1(2,3) tl(3), of "sub_env env 1"] by blast
  let ?es = "us' @ (n', s', t', g) # zs'" and ?a = "a2\<lparr>hint := loc us'\<rparr>"
  have s': "s' \<le> x" "tiles l0 us' s'" "ptrs us' \<subseteq> ptrs us" "n' \<in> insert n (ptrs us)"
    using 1(4) tl(1) by (auto simp: tiles_append)
  have t': "e \<le> t'" "tiles t' zs' h0" using 2(3) tl(3) by auto
  have "flags_at (us @ (n, x, e, g) # zs) = flags_at (us' @ (n', s', e, g) # zs)"
    using 1(4) flags_at_join [of s' x e us' n' g n zs n'] s'(1) tl(2) by auto
  moreover have "flags_at (us' @ (n', s', e, g) # zs) = flags_at ?es"
    using 2(3) flags_at_join [of s' e t' us' n' g _ zs' n'] s'(1) t'(1) tl(2) by auto
  ultimately have "flags_at ?es = flags_at (us @ (n, x, e, g) # zs)" by simp
  moreover have "merged ?es" if "merged us" "merged zs"
    using that 1(4) 2(3) by (auto simp: merged_mid flg_def [symmetric])
  moreover have "tiles l0 ?es h0" using s' t' tl(2) by (auto simp: tiles_append)
  moreover have "modify_joins env a (loc us) n = Some ?a" using 1(1) 2(1) by (simp add: modify_joins_def)
  moreover have "heap ?a z = heap a z \<and> freed ?a z = freed a z" if "z \<notin> insert n (ptrs us \<union> ptrs zs)" for z
    using that 1(5) 2(4) s'(3,4) by auto
  moreover have "hint_in ?a ?es" unfolding hint_in_def by fastforce
  moreover have "set us \<subseteq> set ?es" if "us \<noteq> []" "flg (last us) \<noteq> g" using that 1(4) by (auto simp: flg_def)
  ultimately show ?thesis using that [of ?a ?es] 2(2) by simp
qed

lemma tiles_empty: "tiles x ds x \<Longrightarrow> ds = []"
  by (cases "(x, ds, x)" rule: tiles.cases) (auto dest: tiles_le)

text \<open>When memory runs out, the addresses of the range up to some \<open>m\<close> may have lost their entry: the
  entries that the range covers completely have been deleted by then.\<close>

lemma modify_rest_spec:
  assumes l: "amm_list a (us @ (q, x, t, f) # ys)" and h: "hint_at a (ptrs us)" and env: "allocator env"
    and tl: "tiles l0 us x" "x < t" "tiles t ys h0" and e: "x < e" "e \<le> h0" and new: "new_entry a (us @ (q, x, t, f) # ys) nentry"
  obtains (ok) a' es' where "modify_rest env a (loc us) q x e g nentry = Some (None, a')"
    "amm_list a' es'" "hint_in a' es'" "tiles l0 es' h0"
    "flags_at es' = (\<lambda>z. if x \<le> z \<and> z < e then Some g else flags_at (us @ (q, x, t, f) # ys) z)"
    "merged us \<Longrightarrow> merged ((q, x, t, f) # ys) \<Longrightarrow> merged es'" "us \<noteq> [] \<Longrightarrow> flg (last us) \<noteq> g \<Longrightarrow> set us \<subseteq> set es'"
    "e \<le> t \<Longrightarrow> heap a' q = None \<and> (\<exists>nx. freed a' q = Some (env_scribble env \<lparr>e_next = nx, e_start = x, e_end = e, e_flags = f\<rparr>))"
  | (nomem) a' rs m where "modify_rest env a (loc us) q x e g nentry = Some (Some ENOMEM, a')"
    "amm_list a' (us @ rs)" "rs \<noteq> []" "hint a' \<in> {Nodes, hint a}" "x \<le> m" "m < e" "tiles m rs h0" "e \<le> t \<Longrightarrow> m = x" "\<not> never_fails env"
    "flags_at (us @ rs) = (\<lambda>z. if x \<le> z \<and> z < m then None else flags_at (us @ (q, x, t, f) # ys) z)"
proof -
  let ?L = "(q, x, t, f) # ys" and ?F = "flags_at (us @ (q, x, t, f) # ys)"
  have tL: "tiles x ?L h0" using tl by simp
  obtain ds r s t' f' zs where D: "?L = ds @ (r, s, t', f') # zs" "\<forall>(q', s', t', f')\<in>set ds. t' < e" "s < e" "e \<le> t'"
    using drop_split [OF tL e] by blast
  have td: "tiles x ds s" "tiles t' zs h0" "s < t'" "x \<le> s" using tL unfolding D(1) by (auto simp: tiles_append dest: tiles_le)
  have ds: "ds = []" "r = q" "s = x" "t' = t" "f' = f" if "e \<le> t" using that D(1,2) by (cases ds; auto)+
  have fr: "front (ds @ [(r, s, t', f')]) 0 = q" using D(1) by (cases ds) auto
  have l1: "amm_list a (us @ ds @ (r, s, t', f') # zs)" using l D(1) by simp
  obtain a1 where 1: "modify_drop (sub_env env 0) (loc us) e a q = Some (r, a1)" "amm_list a1 (us @ (r, s, t', f') # zs)"
    "hint a1 \<in> {Nodes, hint a}" "\<forall>z. z \<notin> ptrs us \<union> ptrs ds \<longrightarrow> heap a1 z = heap a z \<and> freed a1 z = freed a z"
    using modify_drop_spec [OF l1 D(2,4) h, of "sub_env env 0"] fr by auto
  note start = amm_list_mid(1,2) [OF l]
  have Fa: "flags_at (us @ (r, s, t', f') # zs) = (\<lambda>z. if x \<le> z \<and> z < s then None else ?F z)"
  proof
    fix z
    have "z < t'" if "z < s" using that td(3) by simp
    then show "flags_at (us @ (r, s, t', f') # zs) z = (if x \<le> z \<and> z < s then None else ?F z)"
      using flags_at_None [OF td(1), of z] flags_at_outside [OF tl(1), of z] flags_at_outside [OF td(2), of z] td(3)
      unfolding D(1) by (auto split: option.splits)
  qed
  have new1: "new_entry a1 (us @ (r, s, t', f') # zs) nentry"
    using new 1(4) unfolding D(1) by (auto simp: new_entry_def)
  have e': "s \<le> e" using D(3) by simp
  show ?thesis
  proof (rule modify_tail_spec [OF 1(2) e' D(4) allocator_sub [OF env, of 1]])
    assume "modify_tail (sub_env env 1) a1 (loc us) r e = Some (Inl ENOMEM, a1)" and nf: "\<not> never_fails (sub_env env 1)"
    then have "modify_rest env a (loc us) q x e g nentry = Some (Some ENOMEM, a1)"
      using start 1(1) by (simp add: modify_rest_def)
    then show ?thesis
      using nomem [of a1 "(r, s, t', f') # zs" s] 1(2,3) td D(3) ds(3) Fa nf never_fails_sub [of env 1] by auto
  next
    fix zs' a2
    assume 2: "modify_tail (sub_env env 1) a1 (loc us) r e = Some (Inr r, a2)" "amm_list a2 (us @ (r, s, e, f') # zs')"
      "hint a2 = hint a1" "zs' = zs \<and> t' = e \<or> (\<exists>n. zs' = (n, e, t', f') # zs \<and> e < t')"
      "\<And>m. new_entry a1 (us @ (r, s, t', f') # zs) m \<Longrightarrow> new_entry a2 (us @ (r, s, e, f') # zs') m"
    have tz: "tiles e zs' h0" using 2(4) td(2) by auto
    have Fz: "flags_at (us @ (r, s, e, f') # zs') = flags_at (us @ (r, s, t', f') # zs)"
      using 2(4) flags_at_join [of s e t' us r f' _ zs r] D(3,4) by auto
    have h2: "hint_at a2 (ptrs us)" using hint_at_mono [OF h, of a2] 1(3) 2(3) by simp
    note r2 = amm_list_mid(1,2) [OF 2(2)]
    show ?thesis
    proof (rule modify_entry_spec [OF 2(2) h2 allocator_sub [OF env, of 2] 2(5) [OF new1]])
      assume "modify_entry (sub_env env 2) a2 (loc us) r x e g nentry = Some (Inl ENOMEM, a2)" and nf: "\<not> never_fails (sub_env env 2)"
      then have "modify_rest env a (loc us) q x e g nentry = Some (Some ENOMEM, a2)"
        using start 1(1) 2(1) r2 by (simp add: modify_rest_def)
      then show ?thesis
        using nomem [of a2 "(r, s, e, f') # zs'" s] 1(3) 2(2,3) td D(3) ds(3) Fa Fz tz nf never_fails_sub [of env 2] by auto
    next
      fix n a3
      assume 3: "modify_entry (sub_env env 2) a2 (loc us) r x e g nentry = Some (Inr n, a3)" "amm_list a3 (us @ (n, x, e, g) # zs')"
        "hint a3 \<in> {Nodes, hint a2}" "n \<noteq> r" "heap a3 r = None"
        "freed a3 r = Some (env_scribble (sub_env env 2) \<lparr>e_next = front zs' 0, e_start = s, e_end = e, e_flags = f'\<rparr>)"
      have h3: "hint_at a3 (ptrs us)" using hint_at_mono [OF h2 3(3)] by simp
      have F3: "flags_at (us @ (n, x, e, g) # zs') = (\<lambda>z. if x \<le> z \<and> z < e then Some g else ?F z)"
      proof (rule flags_at_replace [OF tl(1) tz less_imp_le [OF e(1)]])
        fix z
        show "flags_at us z = ?F z" if "z < x" using that flags_at_below [OF tl(1) tL, of z] by simp
        assume z: "e \<le> z"
        then have "x \<le> z" "\<not> z < s" "\<not> z < e" using e(1) D(3) by auto
        then show "flags_at zs' z = ?F z"
          using flags_at_outside [OF tl(1), of z] fun_cong [OF Fa, of z] unfolding Fz [symmetric] by simp
      qed
      have mz: "merged zs'" if "merged ?L" using that 2(4) unfolding D(1) by (auto simp: merged_mid)
      have rr: "r \<notin> insert n (ptrs us \<union> ptrs zs')" using 3(4) amm_list_mid(5,6) [OF 2(2)] by simp
      show ?thesis
      proof (rule modify_joins_spec [OF 3(2) h3 tl(1) e(1) tz, of "sub_env env 3"])
        fix a4 es'
        assume 4: "modify_joins (sub_env env 3) a3 (loc us) n = Some a4" "amm_list a4 es'" "hint_in a4 es'" "tiles l0 es' h0"
          "flags_at es' = flags_at (us @ (n, x, e, g) # zs')" "merged us \<Longrightarrow> merged zs' \<Longrightarrow> merged es'"
          "\<And>z. z \<notin> insert n (ptrs us \<union> ptrs zs') \<Longrightarrow> heap a4 z = heap a3 z \<and> freed a4 z = freed a3 z"
          "us \<noteq> [] \<Longrightarrow> flg (last us) \<noteq> g \<Longrightarrow> set us \<subseteq> set es'"
        have "modify_rest env a (loc us) q x e g nentry = Some (None, a4)"
          using start 1(1) 2(1) r2 3(1) 4(1) by (simp add: modify_rest_def)
        then show ?thesis using ok [of a4 es'] 4(2-8) F3 mz 4(7) [OF rr] 3(5,6) ds by auto
      qed
    qed
  qed
qed

end
