(* ===== verification/Amm_Ops.thy ===== *)
theory Amm_Ops
  imports Amm_Modify
begin

text \<open>
  The operations of the address map manager on maps whose entries cover the address space.
\<close>

section \<open>Spans of a map\<close>

lemma tiles_unique:
  "tiles l es h \<Longrightarrow> (p, s, t, f) \<in> set es \<Longrightarrow> (p', s', t', f') \<in> set es \<Longrightarrow> s \<le> z \<Longrightarrow> z < t \<Longrightarrow> s' \<le> z \<Longrightarrow> z < t' \<Longrightarrow>
   (p', s', t', f') = (p, s, t, f)"
proof (induction l es h rule: tiles.induct)
  case (2 l x s0 t0 f0 es h)
  have "t0 \<le> s1" if "(p1, s1, t1, f1) \<in> set es" for p1 s1 t1 f1 using tiles_span [of t0 es h] 2(2) that by auto
  then have "\<not> (s1 \<le> z \<and> z < t0)" if "(p1, s1, t1, f1) \<in> set es" for p1 s1 t1 f1
    using that by (meson leD order_trans)
  then show ?case using 2 by auto
qed simp

lemma flags_at_mem: "tiles l es h \<Longrightarrow> (p, s, t, f) \<in> set es \<Longrightarrow> s \<le> z \<Longrightarrow> z < t \<Longrightarrow> flags_at es z = Some f"
proof (induction l es h rule: tiles.induct)
  case (2 l x s0 t0 f0 es h)
  show ?case
  proof (cases "(p, s, t, f) \<in> set es")
    case True
    then have "t0 \<le> s" using tiles_span [of t0 es h] 2(2) by auto
    then have "\<not> z < t0" using 2(4) by auto
    then show ?thesis using 2 True by simp
  qed (use 2 in auto)
qed simp

lemma amm_list_mem:
  assumes "amm_list a es" "(p, s, t, f) \<in> set es"
  shows "p \<noteq> 0" "\<exists>nx. heap a p = Some \<lparr>e_next = nx, e_start = s, e_end = t, e_flags = f\<rparr>"
proof -
  obtain xs ys where "es = xs @ (p, s, t, f) # ys" using assms(2) by (meson split_list)
  then show "p \<noteq> 0" "\<exists>nx. heap a p = Some \<lparr>e_next = nx, e_start = s, e_end = t, e_flags = f\<rparr>"
    using amm_list_mid(1,2) [of a xs p s t f ys] assms(1) by auto
qed

lemma AMM_MAXADDR_max [simp]: "x \<le> AMM_MAXADDR"
  by (simp add: AMM_MAXADDR_def)

section \<open>Modification\<close>

lemma amm_modify_spec:
  assumes ok: "amm_ok a es" and r: "x < x + sz" and env: "allocator env" and new: "new_entry a es nentry"
  obtains (changed) a' es' where "amm_modify env a x sz g nentry = Some (None, a')" "amm_ok a' es'"
    "flags_at es' = (\<lambda>z. if x \<le> z \<and> z < x + sz then Some g else flags_at es z)" "merged es \<Longrightarrow> merged es'"
    "\<And>p s t f. (p, s, t, f) \<in> set es \<Longrightarrow> s \<le> x \<Longrightarrow> x + sz \<le> t \<Longrightarrow> f \<noteq> g \<Longrightarrow> \<exists>e'. peek a' p = Some e' \<and>
      (s < x \<and> e_end e' = x \<or> s = x \<and> (\<exists>nx. e' = env_scribble env \<lparr>e_next = nx, e_start = x, e_end = x + sz, e_flags = f\<rparr>))"
  | (nomem) a' es' m where "amm_modify env a x sz g nentry = Some (Some ENOMEM, a')" "amm_list a' es'" "x \<le> m" "m < x + sz"
    "flags_at es' = (\<lambda>z. if x \<le> z \<and> z < m then None else flags_at es z)" "m = x \<Longrightarrow> amm_ok a' es'"
    "\<And>p s t f. (p, s, t, f) \<in> set es \<Longrightarrow> s \<le> x \<Longrightarrow> x + sz \<le> t \<Longrightarrow> m = x" "\<not> never_fails env"
proof -
  note d = amm_okD [OF ok]
  have x: "x < AMM_MAXADDR" using r AMM_MAXADDR_max [of "x + sz"] by order
  obtain xs p s t f ys st where es: "es = xs @ (p, s, t, f) # ys" "s \<le> x" "x < t"
    and find: "amm_find_addr a x = Some (p, a\<lparr>stats := st, hint := loc xs\<rparr>)"
    by (rule amm_find_addr_spec [OF ok x])
  let ?a = "a\<lparr>stats := st, hint := loc xs\<rparr>" and ?e = "x + sz"
  have l: "amm_list ?a (xs @ (p, s, t, f) # ys)" using d(1) es(1) by simp
  have new': "new_entry ?a (xs @ (p, s, t, f) # ys) nentry" using new es(1) by (simp add: new_entry_def)
  have tl: "tiles 0 xs s" "s < t" "tiles t ys AMM_MAXADDR" using tiles_mid [of 0 xs p s t f ys] d(2) es(1) by simp_all
  have ok1: "amm_ok ?a es" using amm_ok_hint ok unfolding es(1) by blast
  have uniq: "(p', s', t', f') = (p, s, t, f)" if "(p', s', t', f') \<in> set es" "s' \<le> x" "?e \<le> t'" for p' s' t' f'
  proof -
    have "x < t'" using r that(3) by order
    then show ?thesis using tiles_unique [OF d(2) _ that(1) es(2,3) that(2), of p f] es(1) by simp
  qed
  note m = amm_list_mid(1,2) [OF l]
  have run: "amm_modify env a x sz g nentry =
      (if nentry = 0 \<and> ?e \<le> t \<and> g = f then Some (None, ?a)
       else modify_head (sub_env env 0) ?a (loc xs) p x \<bind> (\<lambda>(r, a). case r of Inl rc \<Rightarrow> Some (Some rc, a)
         | Inr (pentry, entry) \<Rightarrow> modify_rest (sub_env env 1) a pentry entry x ?e g nentry))"
    using find m es(2) less_not_sym [OF r] by (simp add: amm_modify_def Let_def)
  show ?thesis
  proof (cases "nentry = 0 \<and> ?e \<le> t \<and> g = f")
    case True
    have "flags_at es = (\<lambda>z. if x \<le> z \<and> z < ?e then Some g else flags_at es z)"
    proof
      fix z
      show "flags_at es z = (if x \<le> z \<and> z < ?e then Some g else flags_at es z)"
        using flags_at_mem [OF d(2), of p s t f z] es(1,2) True by auto
    qed
    then show ?thesis using changed [of ?a es] run True ok1 uniq by auto
  next
    case False
    show ?thesis
    proof (rule modify_head_spec [OF l es(2,3) allocator_sub [OF env, of 0]])
      assume "modify_head (sub_env env 0) ?a (loc xs) p x = Some (Inl ENOMEM, ?a)" "\<not> never_fails (sub_env env 0)"
      moreover have "flags_at es = (\<lambda>z. if x \<le> z \<and> z < x then None else flags_at es z)" by (rule ext) auto
      ultimately show ?thesis using nomem [of ?a es x] run False d(1) r ok1 never_fails_sub [of env 0] by auto
    next
      fix us q a2
      assume 2: "modify_head (sub_env env 0) ?a (loc xs) p x = Some (Inr (loc us, q), a2)"
        "amm_list a2 (us @ (q, x, t, f) # ys)" "hint a2 = hint ?a" "freed a2 = freed ?a"
        "us = xs \<and> q = p \<and> s = x \<and> a2 = ?a \<or> us = xs @ [(p, s, x, f)] \<and> s < x"
        "\<And>m. new_entry ?a (xs @ (p, s, t, f) # ys) m \<Longrightarrow> new_entry a2 (us @ (q, x, t, f) # ys) m"
      have h2: "hint_at a2 (ptrs us)" using 2(3,5) by (intro hint_at_loc [of _ xs]) auto
      have tu: "tiles 0 us x" using 2(5) tl(1) by (auto simp: tiles_append)
      have F2: "flags_at (us @ (q, x, t, f) # ys) = flags_at es"
        using 2(5) flags_at_join [of s x t xs p f q ys p] es by auto
      show ?thesis
      proof (rule modify_rest_spec [OF 2(2) h2 allocator_sub [OF env, of 1] tu es(3) tl(3) r _ 2(6) [OF new']])
        show "?e \<le> AMM_MAXADDR" by simp
      next
        fix a' es'
        assume 3: "modify_rest (sub_env env 1) a2 (loc us) q x ?e g nentry = Some (None, a')" "amm_list a' es'" "hint_in a' es'"
          "tiles 0 es' AMM_MAXADDR"
          "flags_at es' = (\<lambda>z. if x \<le> z \<and> z < ?e then Some g else flags_at (us @ (q, x, t, f) # ys) z)"
          "merged us \<Longrightarrow> merged ((q, x, t, f) # ys) \<Longrightarrow> merged es'" "us \<noteq> [] \<Longrightarrow> flg (last us) \<noteq> g \<Longrightarrow> set us \<subseteq> set es'"
          "?e \<le> t \<Longrightarrow> heap a' q = None \<and> (\<exists>nx. freed a' q = Some (env_scribble (sub_env env 1)
             \<lparr>e_next = nx, e_start = x, e_end = ?e, e_flags = f\<rparr>))"
        have pk: "\<exists>e'. peek a' p' = Some e' \<and> (s' < x \<and> e_end e' = x \<or>
            s' = x \<and> (\<exists>nx. e' = env_scribble env \<lparr>e_next = nx, e_start = x, e_end = ?e, e_flags = f'\<rparr>))"
          if "(p', s', t', f') \<in> set es" "s' \<le> x" "?e \<le> t'" "f' \<noteq> g" for p' s' t' f'
        proof -
          have u: "p' = p" "s' = s" "t' = t" "f' = f" using uniq [OF that(1-3)] by simp_all
          from 2(5) show ?thesis
          proof
            assume "us = xs \<and> q = p \<and> s = x \<and> a2 = ?a"
            then show ?thesis using 3(8) that(3) u m(1) by (auto simp: peek_def)
          next
            assume us: "us = xs @ [(p, s, x, f)] \<and> s < x"
            then have "(p, s, x, f) \<in> set es'" using 3(7) that(4) u by auto
            then show ?thesis using amm_list_mem [OF 3(2)] u us by (fastforce simp: peek_def)
          qed
        qed
        have mg: "merged es'" if "merged es" using 3(6) 2(5) that es(1) by (auto simp: merged_mid)
        have ok3: "amm_ok a' es'" using 3(2-4) by (simp add: amm_ok_def AMM_MINADDR_def)
        have "amm_modify env a x sz g nentry = Some (None, a')" using run False 2(1) 3(1) by simp
        then show ?thesis using ok3 3(5) [unfolded F2] mg pk by (rule changed)
      next
        fix a' rs m
        assume 3: "modify_rest (sub_env env 1) a2 (loc us) q x ?e g nentry = Some (Some ENOMEM, a')"
          "amm_list a' (us @ rs)" "rs \<noteq> []" "hint a' \<in> {Nodes, hint a2}" "x \<le> m" "m < ?e" "tiles m rs AMM_MAXADDR" "?e \<le> t \<Longrightarrow> m = x" "\<not> never_fails (sub_env env 1)"
          "flags_at (us @ rs) = (\<lambda>z. if x \<le> z \<and> z < m then None else flags_at (us @ (q, x, t, f) # ys) z)"
        obtain r0 rs0 where rs: "rs = r0 # rs0" using 3(3) by (cases rs) auto
        have "hint a' = loc [] \<or> hint a' = loc xs" using 3(4) 2(3) by auto
        then have "hint_in a' (us @ rs)"
        proof
          assume "hint a' = loc []"
          then show ?thesis using hint_in_loc [of a' "[]"] rs by (cases us) auto
        next
          assume "hint a' = loc xs"
          then show ?thesis using hint_in_loc [of a' xs r0 rs0] hint_in_loc [of a' xs "(p, s, x, f)" rs] 2(5) rs by auto
        qed
        then have ok3: "amm_ok a' (us @ rs)" if "m = x"
          using 3(2,7) that tu by (auto simp: amm_ok_def AMM_MINADDR_def tiles_append)
        have "amm_modify env a x sz g nentry = Some (Some ENOMEM, a')" using run False 2(1) 3(1) by simp
        then show ?thesis
          using 3(2,5,6) 3(10) [unfolded F2] ok3
        proof (rule nomem)
          fix p' s' t' f'
          assume "(p', s', t', f') \<in> set es" "s' \<le> x" "?e \<le> t'"
          then show "m = x" using uniq 3(8) by auto
        next
          show "\<not> never_fails env" using 3(9) by auto
        qed
      qed
    qed
  qed
qed

end
