(* ===== verification/Amm_Find.thy ===== *)
theory Amm_Find
  imports Amm_Ops
begin

text \<open>
  The search for a range by flags, \<open>amm_find_gen\<close>, without alignment constraint, as all
  callers use it: it finds the first address, from the given one on, at which the range
  has the flags, and with \<open>AMM_EXACT_ADDR\<close> decides whether it has them at the given one.
\<close>

section \<open>Ranges with given flags\<close>

definition match :: "u32 \<Rightarrow> u32 \<Rightarrow> span list \<Rightarrow> addr \<Rightarrow> bool" where
  "match flags fm es z \<longleftrightarrow> (case flags_at es z of None \<Rightarrow> False | Some f \<Rightarrow> f AND fm = flags)"

definition fits :: "u32 \<Rightarrow> u32 \<Rightarrow> span list \<Rightarrow> u32 \<Rightarrow> addr \<Rightarrow> bool" where
  "fits flags fm es sz y \<longleftrightarrow> y < y + sz \<and> (\<forall>z. y \<le> z \<and> z < y + sz \<longrightarrow> match flags fm es z)"

lemma word_add_mono_nowrap:
  fixes x y n :: u32
  assumes "x \<le> y" "y < y + n"
  shows "x + n \<le> y + n" "x < x + n"
proof -
  have "unat y + unat n < 2 ^ 32"
  proof (rule ccontr)
    assume "\<not> unat y + unat n < 2 ^ 32"
    then have "unat (y + n) = unat y + unat n - 4294967296" by (simp add: unat_add_wrap)
    then show False using assms(2) unat_u32_less [of n] unfolding word_less_nat_alt by linarith
  qed
  moreover from this have "unat x + unat n < 2 ^ 32" using assms(1) by (simp add: word_le_nat_alt)
  ultimately have "unat (y + n) = unat y + unat n" "unat (x + n) = unat x + unat n" by (simp_all add: unat_add_nowrap)
  then show "x + n \<le> y + n" "x < x + n" using assms by (simp_all add: word_le_nat_alt word_less_nat_alt)
qed

text \<open>The state of the search at an entry that starts at \<open>s\<close>: what lies between \<open>addr\<close> and \<open>s\<close> matches,
  nothing before \<open>addr\<close> fits, and the range reaches beyond \<open>s\<close>.\<close>

definition searching :: "u32 \<Rightarrow> u32 \<Rightarrow> span list \<Rightarrow> u32 \<Rightarrow> addr \<Rightarrow> addr \<Rightarrow> addr \<Rightarrow> bool" where
  "searching flags fm es sz h s addr \<longleftrightarrow> h \<le> addr \<and>
     (\<forall>z. addr \<le> z \<and> z < s \<longrightarrow> match flags fm es z) \<and>
     (\<forall>y. h \<le> y \<and> y < addr \<longrightarrow> \<not> fits flags fm es sz y) \<and>
     (s \<le> addr \<or> addr < addr + sz \<and> s < addr + sz)"

lemma searching_mismatch:
  assumes S: "searching flags fm es sz h s addr" and st: "s < t"
    and run: "\<And>z. s \<le> z \<Longrightarrow> z < t \<Longrightarrow> \<not> match flags fm es z" and y: "h \<le> y" "y < t"
  shows "\<not> fits flags fm es sz y"
proof
  assume f: "fits flags fm es sz y"
  consider "y < addr" | "addr \<le> y" "s \<le> y" | "addr \<le> y" "y < s" by force
  then show False
  proof cases
    case 1
    then show ?thesis using S f y by (simp add: searching_def)
  next
    case 2
    then have "match flags fm es y" using f by (simp add: fits_def)
    then show ?thesis using run 2 y by blast
  next
    case 3
    then have a: "addr < addr + sz" "s < addr + sz" using S by (auto simp: searching_def)
    have "addr + sz \<le> y + sz" using word_add_mono_nowrap(1) [OF 3(1)] f by (simp add: fits_def)
    then have "s < y + sz" using a(2) by simp
    then have "match flags fm es s" using f 3(2) by (simp add: fits_def)
    then show ?thesis using run [of s] st by simp
  qed
qed

text \<open>What a search returns.\<close>

definition found :: "u32 \<Rightarrow> u32 \<Rightarrow> span list \<Rightarrow> u32 \<Rightarrow> u32 \<Rightarrow> addr \<Rightarrow> (ptr \<times> addr) option \<Rightarrow> bool" where
  "found flags fm es sz ff h r \<longleftrightarrow>
     (case r of
        None \<Rightarrow> \<not> fits flags fm es sz h \<and> (ff AND AMM_EXACT_ADDR = 0 \<longrightarrow> (\<forall>y. h \<le> y \<longrightarrow> \<not> fits flags fm es sz y))
      | Some (p, y) \<Rightarrow> h \<le> y \<and> (ff AND AMM_EXACT_ADDR \<noteq> 0 \<longrightarrow> y = h) \<and> fits flags fm es sz y \<and>
          (\<forall>y'. h \<le> y' \<and> y' < y \<longrightarrow> \<not> fits flags fm es sz y') \<and>
          (\<exists>s t f. (p, s, t, f) \<in> set es \<and> s \<le> y \<and> y < t))"

definition moved :: "span list \<Rightarrow> amm \<Rightarrow> amm \<Rightarrow> bool" where
  "moved es a a' \<longleftrightarrow> a' = a \<or> (\<exists>xs e ys. es = xs @ e # ys \<and> a' = a\<lparr>hint := loc xs\<rparr>)"

text \<open>When the search moves on behind an entry, the end of the range must not wrap around: the code
  asserts that it does not, unless the entry is the last one.\<close>

definition no_wrap :: "u32 \<Rightarrow> u32 \<Rightarrow> u32 \<Rightarrow> u32 \<Rightarrow> span list \<Rightarrow> bool" where
  "no_wrap flags fm sz ff es \<longleftrightarrow> ff AND AMM_EXACT_ADDR \<noteq> 0 \<or>
     (\<forall>(p, s, t, f)\<in>set es. f AND fm = flags \<or> t = AMM_MAXADDR \<or> t < t + sz)"

lemma find_gen_loop_spec:
  assumes "amm_list a es" "tiles l0 es AMM_MAXADDR" "es = xs @ ys" "tiles s ys AMM_MAXADDR" "searching flags fm es sz h s addr"
    "addr < addr + sz \<or> ys = []" "ff AND AMM_EXACT_ADDR \<noteq> 0 \<Longrightarrow> addr = h"
    "no_wrap flags fm sz ff ys" "(\<exists>s' t' f'. (sentry, s', t', f') \<in> set es \<and> s' \<le> addr \<and> addr < t') \<or> sentry = front ys 0 \<and> s = addr"
  shows "\<exists>r a'. find_gen_loop sz flags fm 0 0 ff a (front ys 0) (loc xs) sentry addr (addr + sz) = Some (r, a') \<and>
    found flags fm es sz ff h r \<and> moved es a a'"
  using assms
proof (induction ys arbitrary: xs s sentry addr)
  case Nil
  have "AMM_MAXADDR \<le> addr \<or> AMM_MAXADDR < addr + sz" using Nil.prems(4,5) by (auto simp: searching_def)
  then have "AMM_MAXADDR \<le> addr" using leD [OF AMM_MAXADDR_max] by blast
  then have "\<not> fits flags fm es sz y" if "h \<le> y" for y
  proof (cases "y < addr")
    case False
    then have "AMM_MAXADDR \<le> y" using \<open>AMM_MAXADDR \<le> addr\<close> by simp
    then show ?thesis using leD [OF AMM_MAXADDR_max, of "y + sz"] by (auto simp: fits_def)
  qed (use Nil.prems(5) that in \<open>auto simp: searching_def\<close>)
  then show ?case by (subst find_gen_loop.simps) (simp add: found_def moved_def)
next
  case (Cons e ys)
  obtain p t f where e: "e = (p, s, t, f)" and st: "s < t" and tl: "tiles t ys AMM_MAXADDR" using Cons.prems(4) by (cases e) auto
  have mem: "(p, s, t, f) \<in> set es" and es': "es = (xs @ [e]) @ ys" using Cons.prems(3) e by simp_all
  have l: "amm_list a (xs @ (p, s, t, f) # ys)" using Cons.prems(1,3) e by simp
  note m = amm_list_mid(1,2) [OF l]
  have w: "addr < addr + sz" using Cons.prems(6) by simp
  have as: "s \<le> addr + sz" using Cons.prems(5) w by (auto simp: searching_def)
  have flags: "match flags fm es z = (f AND fm = flags)" if "s \<le> z" "z < t" for z
    using flags_at_mem [OF Cons.prems(2) mem that] by (simp add: match_def)
  note S = Cons.prems(5)
  have nw: "no_wrap flags fm sz ff ys" using Cons.prems(8) by (auto simp: no_wrap_def)
  let ?go = "\<lambda>se ad. find_gen_loop sz flags fm 0 0 ff a (front ys 0) (loc (xs @ [e])) se ad (ad + sz)"
  have run: "find_gen_loop sz flags fm 0 0 ff a (front (e # ys) 0) (loc xs) sentry addr (addr + sz) =
    (if t \<le> addr then ?go sentry addr
     else if f AND fm \<noteq> flags then if ff AND AMM_EXACT_ADDR \<noteq> 0 then Some (None, a) else ?go (front ys 0) t
     else if addr + sz \<le> t then Some (Some (sentry, addr), a\<lparr>hint := loc xs\<rparr>)
     else ?go sentry addr)"
    using m as e by (subst find_gen_loop.simps) (simp add: Let_def)
  have miss: "\<not> fits flags fm es sz y" if "f AND fm \<noteq> flags" "h \<le> y" "y < t" for y
    using searching_mismatch [OF S st _ that(2,3)] flags that(1) by blast
  consider "t \<le> addr" | "addr < t" "f AND fm \<noteq> flags" "ff AND AMM_EXACT_ADDR \<noteq> 0"
    | "addr < t" "f AND fm \<noteq> flags" "ff AND AMM_EXACT_ADDR = 0"
    | "addr < t" "f AND fm = flags" "addr + sz \<le> t" | "addr < t" "f AND fm = flags" "t < addr + sz" by force
  then show ?case
  proof cases
    case 1
    then have "searching flags fm es sz h t addr" using S by (auto simp: searching_def)
    moreover have "(\<exists>s' t' f'. (sentry, s', t', f') \<in> set es \<and> s' \<le> addr \<and> addr < t')" using Cons.prems(9) 1 st by auto
    ultimately have "\<exists>r a'. ?go sentry addr = Some (r, a') \<and> found flags fm es sz ff h r \<and> moved es a a'"
      using Cons.prems(7) nw w by (intro Cons.IH [OF Cons.prems(1,2) es' tl]) auto
    then show ?thesis using run 1 by simp
  next
    case 2
    then have "addr = h" "\<not> t \<le> addr" using Cons.prems(7) by simp_all
    then show ?thesis using run 2 miss by (simp add: found_def moved_def)
  next
    case 3
    have "searching flags fm es sz h t t" using S 3(1) miss [OF 3(2)] by (auto simp: searching_def)
    moreover have "t < t + sz \<or> ys = []" using Cons.prems(8) 3(2,3) e tl tiles_empty [of AMM_MAXADDR ys] by (auto simp: no_wrap_def)
    ultimately have "\<exists>r a'. ?go (front ys 0) t = Some (r, a') \<and> found flags fm es sz ff h r \<and> moved es a a'"
      using nw 3(3) by (intro Cons.IH [OF Cons.prems(1,2) es' tl]) auto
    moreover have "\<not> t \<le> addr" using 3(1) by simp
    ultimately show ?thesis using run 3 by simp
  next
    case 4
    have "match flags fm es z" if "addr \<le> z" "z < addr + sz" for z
    proof (cases "z < s")
      case False
      then show ?thesis using flags [of z] that 4 by auto
    qed (use S that in \<open>auto simp: searching_def\<close>)
    then have "fits flags fm es sz addr" using w by (simp add: fits_def)
    moreover have "\<exists>s' t' f'. (sentry, s', t', f') \<in> set es \<and> s' \<le> addr \<and> addr < t'" using Cons.prems(9) 4(1) e mem by auto
    moreover have "moved es a (a\<lparr>hint := loc xs\<rparr>)" using Cons.prems(3) unfolding moved_def by blast
    moreover have "\<not> t \<le> addr" using 4(1) by simp
    ultimately show ?thesis using run 4(2,3) S Cons.prems(7) by (auto simp: found_def searching_def)
  next
    case 5
    have "match flags fm es z" if "addr \<le> z" "z < t" for z
    proof (cases "z < s")
      case False
      then show ?thesis using flags [of z] that 5 by auto
    qed (use S that in \<open>auto simp: searching_def\<close>)
    then have "searching flags fm es sz h t addr" using S 5 w by (auto simp: searching_def)
    moreover have "(\<exists>s' t' f'. (sentry, s', t', f') \<in> set es \<and> s' \<le> addr \<and> addr < t')" using Cons.prems(9) 5(1) e mem by auto
    ultimately have "\<exists>r a'. ?go sentry addr = Some (r, a') \<and> found flags fm es sz ff h r \<and> moved es a a'"
      using Cons.prems(7) nw w by (intro Cons.IH [OF Cons.prems(1,2) es' tl]) auto
    moreover have "\<not> t \<le> addr" "\<not> addr + sz \<le> t" using 5 by simp_all
    ultimately show ?thesis using run 5(2) by simp
  qed
qed

lemma amm_find_gen_spec:
  assumes ok: "amm_ok a es" and h: "h < h + sz" and ff: "ff AND (AMM_BACKWARD OR AMM_BESTFIT) = 0"
    and n: "no_wrap flags fm sz ff es"
  obtains r a' where "amm_find_gen a h sz flags fm 0 0 ff = Some (r, a')" "amm_ok a' es" "found flags fm es sz ff h r"
proof -
  have "h < AMM_MAXADDR" using h AMM_MAXADDR_max [of "h + sz"] by order
  then obtain xs p s t f ys st where es: "es = xs @ (p, s, t, f) # ys" "s \<le> h" "h < t"
    and find: "amm_find_addr a h = Some (p, a\<lparr>stats := st, hint := loc xs\<rparr>)"
    by (rule amm_find_addr_spec [OF ok])
  let ?a = "a\<lparr>stats := st, hint := loc xs\<rparr>"
  have ok1: "amm_ok ?a es" using amm_ok_hint ok unfolding es(1) by blast
  have "searching flags fm es sz h s h" using es(2) by (auto simp: searching_def)
  moreover have "tiles s ((p, s, t, f) # ys) AMM_MAXADDR" using tiles_mid [of 0 xs p s t f ys] amm_okD(2) [OF ok] es(1) by simp
  moreover have "\<exists>s' t' f'. (p, s', t', f') \<in> set es \<and> s' \<le> h \<and> h < t'" using es by auto
  moreover have "no_wrap flags fm sz ff ((p, s, t, f) # ys)" using n es(1) by (auto simp: no_wrap_def)
  ultimately obtain r a' where run: "find_gen_loop sz flags fm 0 0 ff ?a (front ((p, s, t, f) # ys) 0) (loc xs) p h (h + sz) = Some (r, a')"
    "found flags fm es sz ff h r" "moved es ?a a'"
    using find_gen_loop_spec [OF amm_okD(1,2) [OF ok1] es(1), of s flags fm sz h h ff p] h by blast
  have "sz \<noteq> 0" using h by auto
  then have "amm_find_gen a h sz flags fm 0 0 ff = Some (r, a')" using run(1) h ff find by (simp add: amm_find_gen_def)
  moreover have "amm_ok a' es" using run(3) ok1 unfolding moved_def amm_ok_def by (auto simp: hint_in_loc)
  ultimately show ?thesis using that run(2) by blast
qed

section \<open>Allocation\<close>

lemma merged_single:
  assumes "tiles l es h" "merged es" "x \<le> y" "\<And>z. x \<le> z \<Longrightarrow> z \<le> y \<Longrightarrow> flags_at es z = Some g"
  shows "\<exists>p s t. (p, s, t, g) \<in> set es \<and> s \<le> x \<and> y < t"
  using assms
proof (induction l es h rule: tiles.induct)
  case (1 l h)
  then show ?case by auto
next
  case (2 l x0 s0 t0 f0 es h)
  have tl: "tiles t0 es h" "s0 < t0" using 2(2) by auto
  have hit: "s0 \<le> x" "f0 = g" if "x < t0"
  proof -
    have "flags_at ((x0, s0, t0, f0) # es) x = Some g" using 2(4,5) by simp
    then have "\<not> x < s0" using flags_at_outside [OF 2(2), of x] 2(2) by auto
    then show "s0 \<le> x" by simp
    then show "f0 = g" using \<open>flags_at ((x0, s0, t0, f0) # es) x = Some g\<close> that by simp
  qed
  consider (beyond) "t0 \<le> x" | (inside) "x < t0" "y < t0" | (across) "x < t0" "t0 \<le> y" by force
  then show ?case
  proof cases
    case beyond
    have "flags_at es z = Some g" if "x \<le> z" "z \<le> y" for z
    proof -
      have "\<not> z < t0" using beyond that(1) by auto
      then show ?thesis using 2(5) [OF that] by simp
    qed
    then have "\<exists>p s t. (p, s, t, g) \<in> set es \<and> s \<le> x \<and> y < t" using 2(1) [OF tl(1) _ 2(4)] 2(3) by simp
    then show ?thesis by auto
  next
    case inside
    then show ?thesis using hit by auto
  next
    case across
    then have "flags_at es t0 = Some g" using 2(5) [of t0] by simp
    then obtain e es' where es: "es = e # es'" by (cases es) auto
    obtain p1 t1 f1 where e: "e = (p1, t0, t1, f1)" "t0 < t1" using tl(1) es by (cases e) auto
    then have "f1 = g" using \<open>flags_at es t0 = Some g\<close> es by simp
    then show ?thesis using 2(3) es e hit(2) [OF across(1)] by simp
  qed
qed

end
