(* ===== verification/Amm_Range.thy ===== *)
theory Amm_Range
  imports Amm_Find
begin

text \<open>
  The operations built on \<open>amm_modify\<close> and \<open>amm_find_gen\<close>: allocation, and the two loops that
  change the allocated parts of a range.  The loops have one contract, the locale
  \<open>range_loop\<close>, which \<open>amm_protect\<close> and \<open>amm_deallocate\<close> instantiate.
\<close>

section \<open>Allocation\<close>

lemma le_minus_one_less:
  fixes z w :: u32
  assumes "z \<le> w - 1" "w \<noteq> 0"
  shows "z < w"
  using assms unat_minus_one [of w] by (simp add: word_le_nat_alt word_less_nat_alt u32_pos_iff [symmetric])

lemma less_le_minus_one:
  fixes z w :: u32
  assumes "z < w"
  shows "z \<le> w - 1"
proof -
  have "w \<noteq> 0" using assms by auto
  then show ?thesis using assms unat_minus_one [of w] by (simp add: word_le_nat_alt word_less_nat_alt)
qed

lemma amm_allocate_spec:
  assumes ok: "amm_ok a es" and h: "h = (if addr \<ge> AMM_MAXADDR then AMM_MINADDR else addr)" "h < h + sz"
    and n: "no_wrap AMM_FREE (NOT 0) sz 0 es" and env: "allocator env"
  obtains (got) y a' es' where "amm_allocate env a addr sz prot = Some (Inr y, a')" "amm_ok a' es'" "h \<le> y"
    "fits AMM_FREE (NOT 0) es sz y" "\<And>y'. h \<le> y' \<Longrightarrow> y' < y \<Longrightarrow> \<not> fits AMM_FREE (NOT 0) es sz y'"
    "flags_at es' = (\<lambda>z. if y \<le> z \<and> z < y + sz then Some (AMM_ALLOCATED OR (prot AND NOT (AMM_ALLOCATED OR AMM_RESERVED)))
       else flags_at es z)" "merged es \<Longrightarrow> merged es'"
  | (full) a' where "amm_allocate env a addr sz prot = Some (Inl ENOMEM, a')" "amm_ok a' es"
    "\<And>y. h \<le> y \<Longrightarrow> \<not> fits AMM_FREE (NOT 0) es sz y"
  | (nomem) a' es' where "amm_allocate env a addr sz prot = Some (Inl ENOMEM, a')" "\<not> never_fails env"
    "merged es \<Longrightarrow> amm_ok a' es' \<and> flags_at es' = flags_at es"
proof -
  let ?g = "AMM_ALLOCATED OR (prot AND NOT (AMM_ALLOCATED OR AMM_RESERVED))"
  obtain r a1 where f: "amm_find_gen a h sz AMM_FREE (NOT 0) 0 0 0 = Some (r, a1)" "amm_ok a1 es"
    "found AMM_FREE (NOT 0) es sz 0 h r"
    by (rule amm_find_gen_spec [OF ok h(2) _ n]) (simp, blast)
  have run: "amm_allocate env a addr sz prot = (case r of None \<Rightarrow> Some (Inl ENOMEM, a1)
      | Some (entry, y) \<Rightarrow> do { (rc, a) \<leftarrow> amm_modify env a1 y sz ?g 0; Some (case rc of None \<Rightarrow> Inr y | Some err \<Rightarrow> Inl err, a) })"
    using f(1) h(1) by (cases r) (auto simp: amm_allocate_def AMM_MINADDR_def)
  show ?thesis
  proof (cases r)
    case None
    then show ?thesis using full [of a1] run f(2,3) by (simp add: found_def)
  next
    case (Some py)
    obtain p y where r: "r = Some (p, y)" using Some by (cases py) auto
    have y: "h \<le> y" "fits AMM_FREE (NOT 0) es sz y" "\<forall>y'. h \<le> y' \<and> y' < y \<longrightarrow> \<not> fits AMM_FREE (NOT 0) es sz y'"
      using f(3) r by (simp_all add: found_def)
    have lt: "y < y + sz" using y(2) by (simp add: fits_def)
    have new: "new_entry a1 es 0" by (simp add: new_entry_def)
    show ?thesis
    proof (rule amm_modify_spec [OF f(2) lt env new, of ?g])
      fix a' es'
      assume m: "amm_modify env a1 y sz ?g 0 = Some (None, a')" "amm_ok a' es'"
        "flags_at es' = (\<lambda>z. if y \<le> z \<and> z < y + sz then Some ?g else flags_at es z)" "merged es \<Longrightarrow> merged es'"
      have "amm_allocate env a addr sz prot = Some (Inr y, a')" using run r m(1) by simp
      then show ?thesis using m(2) y m(3,4) by (intro got) auto
    next
      fix a' es' m
      assume m: "amm_modify env a1 y sz ?g 0 = Some (Some ENOMEM, a')"
        "flags_at es' = (\<lambda>z. if y \<le> z \<and> z < m then None else flags_at es z)" "m = y \<Longrightarrow> amm_ok a' es'"
        "\<And>p s t f. (p, s, t, f) \<in> set es \<Longrightarrow> s \<le> y \<Longrightarrow> y + sz \<le> t \<Longrightarrow> m = y" "\<not> never_fails env"
      have "m = y" if mg: "merged es"
      proof -
        have "flags_at es z = Some AMM_FREE" if "y \<le> z" "z \<le> y + sz - 1" for z
        proof -
          have "y + sz \<noteq> 0" using lt by auto
          then have "z < y + sz" by (rule le_minus_one_less [OF that(2)])
          then show ?thesis using y(2) that(1) by (auto simp: fits_def match_def split: option.splits)
        qed
        then obtain p s t where "(p, s, t, AMM_FREE) \<in> set es" "s \<le> y" "y + sz - 1 < t"
          using merged_single [OF amm_okD(2) [OF ok] mg less_le_minus_one [OF lt], of AMM_FREE] by blast
        moreover from this have "y + sz \<le> t" using less_le_minus_one le_minus_one_less by (metis diff_add_cancel inc_le)
        ultimately show ?thesis using m(4) by blast
      qed
      moreover have "(\<lambda>z. if y \<le> z \<and> z < y then None else flags_at es z) = flags_at es" by (rule ext) auto
      ultimately have "merged es \<Longrightarrow> amm_ok a' es' \<and> flags_at es' = flags_at es" using m(2,3) by simp
      moreover have "amm_allocate env a addr sz prot = Some (Inl ENOMEM, a')" using run r m(1) by simp
      ultimately show ?thesis using nomem m(5) by blast
    qed
  qed
qed

section \<open>Loops over a range\<close>

text \<open>The loops read the end of an entry that \<open>amm_modify\<close> may have freed.  What is left of a freed
  entry depends on the \<open>free\<close> in use.  For a map made by \<open>amm_init\<close> it is \<open>sfree\<close>
  (\<open>amm/amm_free_entry.c\<close>), which ends in \<open>lmm_free\<close> (\<open>lmm/lmm_free.c\<close>).  That function stores at most
  a \<open>struct lmm_node\<close>, two words, at the start of the block: over the members \<open>next\<close> and
  \<open>start\<close> of the entry.\<close>

definition header_only :: "amm_env \<Rightarrow> bool" where
  "header_only env \<longleftrightarrow> (\<forall>e. \<exists>n s. env_scribble env e = e\<lparr>e_next := n, e_start := s\<rparr>)"

lemma header_only_end: "header_only env \<Longrightarrow> e_end (env_scribble env e) = e_end e"
  unfolding header_only_def by (drule spec [of _ e]) auto

definition change :: "u32 \<Rightarrow> u32 \<Rightarrow> u32" where
  "change g f = (if f AND AMM_ALLOCATED = AMM_ALLOCATED then g else f)"

definition range_change :: "u32 \<Rightarrow> addr \<Rightarrow> addr \<Rightarrow> span list \<Rightarrow> addr \<Rightarrow> u32 option" where
  "range_change g s e es z = (if s \<le> z \<and> z < e then map_option (change g) (flags_at es z) else flags_at es z)"

lemma change_change [simp]: "change g (change g f) = change g f" "change g g = g"
  by (simp_all add: change_def)

definition range_result :: "u32 \<Rightarrow> addr \<Rightarrow> addr \<Rightarrow> amm_env \<Rightarrow> span list \<Rightarrow> errno option \<Rightarrow> span list \<Rightarrow> bool" where
  "range_result g s e env es rc es' \<longleftrightarrow>
     rc = None \<and> flags_at es' = range_change g s e es \<and> (merged es \<longrightarrow> merged es') \<or>
     rc = Some ENOMEM \<and> \<not> never_fails env \<and> (\<forall>z. flags_at es' z \<in> {flags_at es z, range_change g s e es z})"

lemma range_result_step:
  assumes "range_result g s' e env es1 rc es'" "range_change g s' e es1 = range_change g s e es"
    "\<And>z. flags_at es1 z \<in> {flags_at es z, range_change g s e es z}" "merged es \<Longrightarrow> merged es1"
  shows "range_result g s e env es rc es'"
  using assms(1)
proof (unfold range_result_def, elim disjE conjE)
  assume rc: "rc = Some ENOMEM" "\<not> never_fails env" and z: "\<forall>z. flags_at es' z \<in> {flags_at es1 z, range_change g s' e es1 z}"
  have "flags_at es' z \<in> {flags_at es z, range_change g s e es z}" for z
    using spec [OF z, of z] assms(3) [of z] assms(2) by auto
  then show "rc = None \<and> flags_at es' = range_change g s e es \<and> (merged es \<longrightarrow> merged es') \<or>
     rc = Some ENOMEM \<and> \<not> never_fails env \<and> (\<forall>z. flags_at es' z \<in> {flags_at es z, range_change g s e es z})"
    using rc by blast
qed (use assms(2,4) in simp)

locale range_loop =
  fixes L :: "amm_env \<Rightarrow> nat \<Rightarrow> amm \<Rightarrow> addr \<Rightarrow> (errno option \<times> amm) option" and e :: addr and g :: u32
  assumes unfold: "L env i a s =
     (if s < e then do {
        (entry, a) \<leftarrow> amm_find_addr a s;
        en \<leftarrow> deref a entry;
        (rc, a) \<leftarrow>
          (if e_flags en AND AMM_ALLOCATED = AMM_ALLOCATED then
             let sz = (if e < e_end en then e - s else e_end en - s)
             in if e_flags en \<noteq> g then amm_modify (sub_env env i) a s sz g 0 else Some (None, a)
           else Some (None, a));
        if rc \<noteq> None then Some (rc, a)
        else do {
          en \<leftarrow> peek a entry;
          L env (Suc i) a (e_end en)
        }
      }
      else Some (None, a))"
begin

lemma step_skip:
  assumes ok: "amm_ok a es" and s: "s < e" and f: "(p, s0, t, f) \<in> set es" "s0 \<le> s" "s < t" "change g f = f"
  shows "\<exists>a1. amm_ok a1 es \<and> L env i a s = L env (Suc i) a1 t"
proof -
  have "s < AMM_MAXADDR" using s AMM_MAXADDR_max [of e] by order
  then obtain xs p' s' t' f' ys st where es: "es = xs @ (p', s', t', f') # ys" "s' \<le> s" "s < t'"
    and find: "amm_find_addr a s = Some (p', a\<lparr>stats := st, hint := loc xs\<rparr>)"
    by (rule amm_find_addr_spec [OF ok])
  let ?a = "a\<lparr>stats := st, hint := loc xs\<rparr>"
  have u: "p' = p" "s' = s0" "t' = t" "f' = f" using tiles_unique [OF amm_okD(2) [OF ok] f(1) _ f(2,3) es(2,3), of p' f'] es(1) by auto
  have ok1: "amm_ok ?a es" using amm_ok_hint ok unfolding es(1) by blast
  have l: "amm_list ?a (xs @ (p', s', t', f') # ys)" using amm_okD(1) [OF ok1] es(1) by simp
  have "f AND AMM_ALLOCATED = AMM_ALLOCATED \<longrightarrow> f = g" using f(4) by (auto simp: change_def split: if_splits)
  then have "L env i a s = L env (Suc i) ?a t"
    using s find amm_list_mid(1,2) [OF l] u unfold [of env i a s] by (auto simp: peek_def Let_def)
  then show ?thesis using ok1 by blast
qed

lemma step_change:
  assumes ok: "amm_ok a es" and s: "s < e" and f: "(p, s0, t, f) \<in> set es" "s0 \<le> s" "s < t" "change g f \<noteq> f"
    and env: "allocator env" "header_only env"
  defines "e' \<equiv> if e < t then e else t"
  obtains (changed) a1 es1 where "amm_ok a1 es1" "flags_at es1 = (\<lambda>z. if s \<le> z \<and> z < e' then Some g else flags_at es z)"
    "merged es \<Longrightarrow> merged es1" "L env i a s = L env (Suc i) a1 (if s0 < s then s else e')"
  | (nomem) a1 es1 where "amm_ok a1 es1" "flags_at es1 = flags_at es" "L env i a s = Some (Some ENOMEM, a1)" "\<not> never_fails env"
proof -
  have "s < AMM_MAXADDR" using s AMM_MAXADDR_max [of e] by order
  then obtain xs p' s' t' f' ys st where es: "es = xs @ (p', s', t', f') # ys" "s' \<le> s" "s < t'"
    and find: "amm_find_addr a s = Some (p', a\<lparr>stats := st, hint := loc xs\<rparr>)"
    by (rule amm_find_addr_spec [OF ok])
  let ?a = "a\<lparr>stats := st, hint := loc xs\<rparr>"
  have u: "p' = p" "s' = s0" "t' = t" "f' = f" using tiles_unique [OF amm_okD(2) [OF ok] f(1) _ f(2,3) es(2,3), of p' f'] es(1) by auto
  have ok1: "amm_ok ?a es" using amm_ok_hint ok unfolding es(1) by blast
  have l: "amm_list ?a (xs @ (p', s', t', f') # ys)" using amm_okD(1) [OF ok1] es(1) by simp
  have ff: "f AND AMM_ALLOCATED = AMM_ALLOCATED" "f \<noteq> g" using f(4) by (auto simp: change_def split: if_splits)
  have e': "s < e'" "e' \<le> t" using s f(3) by (auto simp: e'_def)
  have sz: "s + (e' - s) = e'" by simp
  have step: "L env i a s = do {
      (rc, a) \<leftarrow> amm_modify (sub_env env i) ?a s (e' - s) g 0;
      if rc \<noteq> None then Some (rc, a) else do { en \<leftarrow> peek a p; L env (Suc i) a (e_end en) } }"
    using s find amm_list_mid(1,2) [OF l] u ff unfold [of env i a s] by (simp add: Let_def e'_def)
  have new: "new_entry ?a es 0" by (simp add: new_entry_def)
  show ?thesis
  proof (rule amm_modify_spec [OF ok1 _ allocator_sub [OF env(1), of i] new, of s "e' - s" g])
    show "s < s + (e' - s)" using e'(1) by simp
  next
    fix a1 es1
    assume m: "amm_modify (sub_env env i) ?a s (e' - s) g 0 = Some (None, a1)" "amm_ok a1 es1"
      "flags_at es1 = (\<lambda>z. if s \<le> z \<and> z < s + (e' - s) then Some g else flags_at es z)" "merged es \<Longrightarrow> merged es1"
      "\<And>p s' t f. (p, s', t, f) \<in> set es \<Longrightarrow> s' \<le> s \<Longrightarrow> s + (e' - s) \<le> t \<Longrightarrow> f \<noteq> g \<Longrightarrow> \<exists>en. peek a1 p = Some en \<and>
        (s' < s \<and> e_end en = s \<or> s' = s \<and> (\<exists>nx. en = env_scribble (sub_env env i)
          \<lparr>e_next = nx, e_start = s, e_end = s + (e' - s), e_flags = f\<rparr>))"
    obtain en where en: "peek a1 p = Some en" "e_end en = (if s0 < s then s else e')"
      using m(5) [OF f(1,2) _ ff(2)] e'(2) env(2) unfolding sz by (auto simp: header_only_end)
    have "L env i a s = L env (Suc i) a1 (if s0 < s then s else e')" using step m(1) en by simp
    then show ?thesis using changed m(2-4) unfolding sz by blast
  next
    fix a1 es1 m
    assume m: "amm_modify (sub_env env i) ?a s (e' - s) g 0 = Some (Some ENOMEM, a1)"
      "flags_at es1 = (\<lambda>z. if s \<le> z \<and> z < m then None else flags_at es z)" "m = s \<Longrightarrow> amm_ok a1 es1"
      "\<And>p s' t f. (p, s', t, f) \<in> set es \<Longrightarrow> s' \<le> s \<Longrightarrow> s + (e' - s) \<le> t \<Longrightarrow> m = s" "\<not> never_fails (sub_env env i)"
    have ms: "m = s" using m(4) [OF f(1,2)] e'(2) by simp
    have "flags_at es1 = flags_at es" using m(2) unfolding ms by (auto simp: fun_eq_iff)
    moreover have "\<not> never_fails env" using m(5) by auto
    ultimately show ?thesis using nomem [of a1 es1] m(1,3) ms step by simp
  qed
qed

lemma loop_spec:
  assumes "amm_ok a es" "allocator env" "header_only env"
  shows "\<exists>rc a' es'. L env i a s = Some (rc, a') \<and> amm_ok a' es' \<and> range_result g s e env es rc es'"
  using assms
proof (induction "2 * (unat e - unat s) + (if flags_at es s = Some g then 0 else 1)" arbitrary: i a es s rule: less_induct)
  case less
  show ?case
  proof (cases "s < e")
    case False
    then have "range_change g s e es = flags_at es" by (auto simp: range_change_def fun_eq_iff)
    then show ?thesis using False unfold [of env i a s] less.prems(1) by (auto simp: range_result_def)
  next
    case True
    have "s < AMM_MAXADDR" using True AMM_MAXADDR_max [of e] by order
    then obtain xs p s0 t f ys where "es = xs @ (p, s0, t, f) # ys" "s0 \<le> s" "s < t"
      using tiles_locate [OF amm_okD(2) [OF less.prems(1)], of s] by auto
    then have f: "(p, s0, t, f) \<in> set es" "s0 \<le> s" "s < t" by auto
    have fl: "flags_at es z = Some f" if "s \<le> z" "z < t" for z
      using flags_at_mem [OF amm_okD(2) [OF less.prems(1)] f(1)] f(2) that by auto
    have dec: "2 * (unat e - unat s') + b < 2 * (unat e - unat s) + c" if "s < s'" "b \<le> 1" for s' b c
      using that True by (simp add: word_less_nat_alt)
    show ?thesis
    proof (cases "change g f = f")
      case same: True
      obtain a1 where a1: "amm_ok a1 es" "L env i a s = L env (Suc i) a1 t"
        using step_skip [OF less.prems(1) True f same] by blast
      have R: "range_change g t e es = range_change g s e es"
      proof
        fix z
        show "range_change g t e es z = range_change g s e es z"
          using fl [of z] same f(3) by (cases "z < t") (auto simp: range_change_def)
      qed
      obtain rc a' es' where run: "L env (Suc i) a1 t = Some (rc, a')" "amm_ok a' es'" "range_result g t e env es rc es'"
        using less.hyps [of t es a1 "Suc i"] dec [OF f(3)] a1(1) less.prems(2,3) by auto
      have "range_result g s e env es rc es'" by (rule range_result_step [OF run(3) R]) simp_all
      then show ?thesis using run a1(2) by auto
    next
      case diff: False
      let ?e = "if e < t then e else t"
      have e': "s < ?e" "?e \<le> e" "?e \<le> t" using True f(3) by auto
      show ?thesis
      proof (rule step_change [OF less.prems(1) True f diff less.prems(2,3), of i])
        fix a1 es1
        assume a1: "amm_ok a1 es1" "flags_at es1 = (\<lambda>z. if s \<le> z \<and> z < ?e then Some g else flags_at es z)"
          "merged es \<Longrightarrow> merged es1" "L env i a s = L env (Suc i) a1 (if s0 < s then s else ?e)"
        let ?s = "if s0 < s then s else ?e"
        have g: "change g f = g" "f \<noteq> g" using diff by (auto simp: change_def split: if_splits)
        have in_: "range_change g s e es z = Some g" if "s \<le> z" "z < ?e" for z
        proof -
          have "z < e" "z < t" using that(2) e'(2,3) by order+
          then show ?thesis using that(1) fl [of z] g(1) by (simp add: range_change_def)
        qed
        have out: "flags_at es1 z = flags_at es z" if "\<not> (s \<le> z \<and> z < ?e)" for z
          unfolding a1(2) if_not_P [OF that] ..
        have K: "flags_at es1 z \<in> {flags_at es z, range_change g s e es z}" for z
          using in_ [of z] out [of z] if_P [of "s \<le> z \<and> z < ?e" "Some g"] unfolding a1(2) by (cases "s \<le> z \<and> z < ?e") auto
        have R: "range_change g ?s e es1 = range_change g s e es"
        proof
          fix z
          show "range_change g ?s e es1 z = range_change g s e es z"
          proof (cases "s \<le> z \<and> z < ?e")
            case True
            then have "flags_at es1 z = Some g" unfolding a1(2) by (rule if_P)
            then show ?thesis using in_ [of z] True by (simp add: range_change_def)
          next
            case False
            then have "?s \<le> z \<longleftrightarrow> s \<le> z" using e'(1) by auto
            then show ?thesis using out [OF False] by (simp add: range_change_def)
          qed
        qed
        have now: "flags_at es1 s = Some g" "flags_at es s \<noteq> Some g" using a1(2) e'(1) fl [of s] f(3) g(2) by auto
        have "2 * (unat e - unat ?s) + (if flags_at es1 ?s = Some g then 0 else 1) < 2 * (unat e - unat s) + (if flags_at es s = Some g then 0 else 1)"
        proof (cases "s0 < s")
          case False
          show ?thesis unfolding if_not_P [OF False] by (rule dec [OF e'(1)]) simp
        qed (use now in simp)
        from less.hyps [OF this a1(1) less.prems(2,3), of "Suc i"]
        obtain rc a' es' where run: "L env (Suc i) a1 ?s = Some (rc, a')" "amm_ok a' es'" "range_result g ?s e env es1 rc es'"
          by blast
        then show ?thesis using range_result_step [OF run(3) R K a1(3)] a1(4) by auto
      next
        fix a1 es1
        assume "amm_ok a1 es1" "flags_at es1 = flags_at es" "L env i a s = Some (Some ENOMEM, a1)" "\<not> never_fails env"
        then show ?thesis by (auto simp: range_result_def)
      qed
    qed
  qed
qed

end

section \<open>Deallocation and protection\<close>

lemma AMM_ALLOCATED_nonzero [simp]: "AMM_ALLOCATED \<noteq> 0"
  unfolding AMM_ALLOCATED_def AMM_RESERVED_def by code_simp

interpretation protect: range_loop "protect_loop e prot" e prot for e prot
  by unfold_locales (rule protect_loop.simps)

interpretation deallocate: range_loop "deallocate_loop e" e AMM_FREE for e
proof unfold_locales
  fix env i a s
  have "f \<noteq> AMM_FREE" if "f AND AMM_ALLOCATED = AMM_ALLOCATED" for f :: u32
    using that by (auto simp: AMM_FREE_def)
  then show "deallocate_loop e env i a s =
     (if s < e then do {
        (entry, a) \<leftarrow> amm_find_addr a s;
        en \<leftarrow> deref a entry;
        (rc, a) \<leftarrow>
          (if e_flags en AND AMM_ALLOCATED = AMM_ALLOCATED then
             let sz = (if e < e_end en then e - s else e_end en - s)
             in if e_flags en \<noteq> AMM_FREE then amm_modify (sub_env env i) a s sz AMM_FREE 0 else Some (None, a)
           else Some (None, a));
        if rc \<noteq> None then Some (rc, a)
        else do {
          en \<leftarrow> peek a entry;
          deallocate_loop e env (Suc i) a (e_end en)
        }
      }
      else Some (None, a))"
    by (subst deallocate_loop.simps) (simp add: Let_def cong: if_cong)
qed

end
