(* ===== verification/Amm_Life.thy ===== *)
theory Amm_Life
  imports Amm_Range
begin

text \<open>
  Creation and destruction of address maps, the isolation of a range and the iteration
  over the entries.
\<close>

section \<open>Creation\<close>

lemma AMM_range [simp]: "AMM_MINADDR < AMM_MAXADDR"
  unfolding AMM_MINADDR_def AMM_MAXADDR_def by code_simp

lemma fails_sub: "\<not> never_fails (sub_env env i) \<Longrightarrow> \<not> never_fails env"
  by auto

lemma amm_init_gen_spec:
  assumes env: "allocator env" and fin: "finite (dom (heap a))"
  shows "amm_init_gen env a flags 0 = None \<and> \<not> never_fails env \<or>
    (\<exists>a' p. amm_init_gen env a flags 0 = Some a' \<and> amm_ok a' [(p, AMM_MINADDR, AMM_MAXADDR, flags)])"
proof -
  obtain p a1 where alloc: "amm_alloc_entry env a = (p, a1)" by fastforce
  from amm_alloc_entry_spec [OF env fin this] consider "p = 0" "\<not> never_fails env" | e where "p \<noteq> 0" "a1 = put a p e" by blast
  then show ?thesis
  proof cases
    case 1
    then show ?thesis using alloc by (simp add: amm_init_gen_def deref_def)
  next
    case (2 e)
    let ?a = "(put a1 p \<lparr>e_next = 0, e_start = AMM_MINADDR, e_end = AMM_MAXADDR, e_flags = flags\<rparr>)
      \<lparr>nodes := p, hint := Nodes, stats := \<lparr>lookups = 0, hits = 0, entriesscanned = 0\<rparr>\<rparr>"
    have "amm_init_gen env a flags 0 = Some ?a" using alloc 2 by (simp add: amm_init_gen_def)
    moreover have "amm_ok ?a [(p, AMM_MINADDR, AMM_MAXADDR, flags)]"
      using 2 fin hint_in_loc [of ?a "[]"] AMM_range by (simp add: amm_ok_def amm_list_def)
    ultimately show ?thesis by blast
  qed
qed

text \<open>A modification that must not fail: the assertion after the calls of \<open>amm_init\<close>.\<close>

lemma modify_asserted:
  fixes env a x sz g
  defines "M \<equiv> amm_modify env a x sz g 0 \<bind> (\<lambda>(rc, a). assertion (rc = None) \<bind> (\<lambda>_. Some a))"
  assumes ok: "amm_ok a es" "merged es" and r: "x < x + sz" and env: "allocator env"
  obtains "M = None" "\<not> never_fails env"
  | a' es' where "M = Some a'" "amm_ok a' es'" "merged es'"
    "flags_at es' = (\<lambda>z. if x \<le> z \<and> z < x + sz then Some g else flags_at es z)"
proof -
  have new: "new_entry a es 0" by (simp add: new_entry_def)
  show ?thesis
  proof (rule amm_modify_spec [OF ok(1) r env new, of g])
    fix a' es'
    assume "amm_modify env a x sz g 0 = Some (None, a')" "amm_ok a' es'" "merged es \<Longrightarrow> merged es'"
      "flags_at es' = (\<lambda>z. if x \<le> z \<and> z < x + sz then Some g else flags_at es z)"
    then show ?thesis using that(2) ok(2) by (simp add: M_def)
  next
    fix a'
    assume "amm_modify env a x sz g 0 = Some (Some ENOMEM, a')" "\<not> never_fails env"
    then show ?thesis using that(1) by (simp add: M_def)
  qed
qed

definition init_flags :: "addr \<Rightarrow> addr \<Rightarrow> addr \<Rightarrow> u32 option" where
  "init_flags lo hi z = (if z < AMM_MAXADDR then Some (if lo \<le> z \<and> z < hi then AMM_FREE else AMM_RESERVED) else None)"

lemma amm_init_spec:
  assumes env: "allocator env" and fin: "finite (dom (heap a))"
  obtains "amm_init env a lo hi = None" "\<not> never_fails env"
  | a' es where "amm_init env a lo hi = Some a'" "amm_ok a' es" "merged es" "flags_at es = init_flags lo hi"
proof (cases "amm_init_gen (sub_env env 0) a AMM_FREE 0")
  case None
  then show ?thesis using that(1) amm_init_gen_spec [OF allocator_sub [OF env, of 0] fin, of AMM_FREE] fails_sub [of env 0]
    by (auto simp: amm_init_def)
next
  case (Some a1)
  then obtain p where 1: "amm_ok a1 [(p, AMM_MINADDR, AMM_MAXADDR, AMM_FREE)]"
    using amm_init_gen_spec [OF allocator_sub [OF env, of 0] fin, of AMM_FREE] by auto
  have ms: "merged [(p, AMM_MINADDR, AMM_MAXADDR, AMM_FREE)]" by (simp add: merged_def)
  define M where "M i a x sz = amm_modify (sub_env env i) a x sz AMM_RESERVED 0 \<bind> (\<lambda>(rc, a). assertion (rc = None) \<bind> (\<lambda>_. Some a))" for i a x sz
  note step = modify_asserted [where env = "sub_env env i" and g = AMM_RESERVED for i, folded M_def]
  have run: "amm_init env a lo hi = (if AMM_MINADDR < lo then M 1 a1 AMM_MINADDR (lo - AMM_MINADDR) else Some a1) \<bind>
      (\<lambda>a. if hi < AMM_MAXADDR then M 2 a hi (AMM_MAXADDR - hi) else Some a)"
    using Some by (simp add: amm_init_def M_def)
  have free: "flags_at [(p, AMM_MINADDR, AMM_MAXADDR, AMM_FREE)] z = (if z < AMM_MAXADDR then Some AMM_FREE else None)" for z
    by (simp add: AMM_MINADDR_def)
  have low: "(if AMM_MINADDR < lo then M 1 a1 AMM_MINADDR (lo - AMM_MINADDR) else Some a1) = None \<and> \<not> never_fails env \<or>
    (\<exists>a2 es. (if AMM_MINADDR < lo then M 1 a1 AMM_MINADDR (lo - AMM_MINADDR) else Some a1) = Some a2 \<and> amm_ok a2 es \<and> merged es \<and>
      flags_at es = init_flags lo AMM_MAXADDR)"
  proof (cases "AMM_MINADDR < lo")
    case True
    then have r: "AMM_MINADDR < AMM_MINADDR + (lo - AMM_MINADDR)" by simp
    have "z < AMM_MAXADDR" if "z < lo" for z using that AMM_MAXADDR_max [of lo] by order
    then have fl: "(\<lambda>z. if AMM_MINADDR \<le> z \<and> z < AMM_MINADDR + (lo - AMM_MINADDR) then Some AMM_RESERVED
        else flags_at [(p, AMM_MINADDR, AMM_MAXADDR, AMM_FREE)] z) = init_flags lo AMM_MAXADDR"
      unfolding free by (auto simp: init_flags_def fun_eq_iff AMM_MINADDR_def not_le not_less)
    show ?thesis
      by (rule step [OF 1 ms r allocator_sub [OF env, of 1]]) (use True fl fails_sub [of env 1] in auto)
  next
    case False
    then have "lo = 0" unfolding AMM_MINADDR_def using word_gt_0 by blast
    then have "flags_at [(p, AMM_MINADDR, AMM_MAXADDR, AMM_FREE)] = init_flags lo AMM_MAXADDR"
      unfolding fun_eq_iff free by (simp add: init_flags_def AMM_MINADDR_def)
    then show ?thesis using False 1 ms by auto
  qed
  then show ?thesis
  proof (elim disjE exE conjE)
    assume "(if AMM_MINADDR < lo then M 1 a1 AMM_MINADDR (lo - AMM_MINADDR) else Some a1) = None" "\<not> never_fails env"
    then show ?thesis using that(1) unfolding run by simp
  next
    fix a2 es
    assume 2: "(if AMM_MINADDR < lo then M 1 a1 AMM_MINADDR (lo - AMM_MINADDR) else Some a1) = Some a2" "amm_ok a2 es" "merged es"
      "flags_at es = init_flags lo AMM_MAXADDR"
    show ?thesis
    proof (cases "hi < AMM_MAXADDR")
      case True
      then have r: "hi < hi + (AMM_MAXADDR - hi)" by simp
      have fl: "(\<lambda>z. if hi \<le> z \<and> z < hi + (AMM_MAXADDR - hi) then Some AMM_RESERVED else flags_at es z) = init_flags lo hi"
        unfolding 2(4) by (auto simp: init_flags_def fun_eq_iff not_le)
      show ?thesis
        by (rule step [OF 2(2,3) r allocator_sub [OF env, of 2], unfolded fl]) (use True fails_sub [of env 2] that 2(1) run in simp_all)
    next
      case False
      then have "hi = AMM_MAXADDR" using AMM_MAXADDR_max [of hi] by order
      then show ?thesis using that(2) [of a2 es] 2 unfolding run by simp
    qed
  qed
qed

section \<open>Destruction\<close>

lemma destroy_loop_spec:
  assumes "chain (heap a) p es 0" "dist es" "\<And>q. hint a = NextOf q \<Longrightarrow> peek a q \<noteq> None"
  shows "\<exists>a'. destroy_loop env a p = Some a' \<and> heap a' = (\<lambda>z. if z \<in> ptrs es then None else heap a z)"
  using assms
proof (induction es arbitrary: a p)
  case Nil
  then show ?case by (subst destroy_loop.simps) simp
next
  case (Cons e es)
  obtain s t f where e: "e = (p, s, t, f)" using Cons.prems(1) by (cases e) auto
  obtain n where p: "p \<noteq> 0" "heap a p = Some \<lparr>e_next = n, e_start = s, e_end = t, e_flags = f\<rparr>" "chain (heap a) n es 0"
    using Cons.prems(1) e by auto
  obtain v where v: "(case hint a of Nodes \<Rightarrow> Some (nodes a) | NextOf q \<Rightarrow> map_option e_next (peek a q)) = Some v"
    using Cons.prems(3) by (cases "hint a") auto
  define a1 where "a1 = (if v = p then a\<lparr>hint := Nodes\<rparr> else a)
    \<lparr>heap := (heap a)(p := None), freed := (freed a)(p \<mapsto> env_scribble env \<lparr>e_next = n, e_start = s, e_end = t, e_flags = f\<rparr>)\<rparr>"
  have free: "amm_free_entry env a p = Some a1" using v p by (simp add: amm_free_entry_def a1_def)
  have "\<exists>a'. destroy_loop env a1 n = Some a' \<and> heap a' = (\<lambda>z. if z \<in> ptrs es then None else heap a1 z)"
  proof (rule Cons.IH)
    show "chain (heap a1) n es 0" using p(3) Cons.prems(2) e by (simp add: a1_def)
    show "dist es" using Cons.prems(2) by simp
    show "peek a1 q \<noteq> None" if "hint a1 = NextOf q" for q
      using Cons.prems(3) [of q] that by (cases "q = p") (auto simp: a1_def peek_def deref_def split: if_splits option.splits)
  qed
  then show ?case using p free e by (subst destroy_loop.simps) (auto simp: a1_def fun_eq_iff)
qed

lemma amm_destroy_spec:
  assumes ok: "amm_ok a es"
  obtains a' where "amm_destroy env a = Some a'" "nodes a' = 0" "heap a' = (\<lambda>z. if z \<in> ptrs es then None else heap a z)"
proof -
  have l: "chain (heap a) (nodes a) es 0" "dist es" using amm_okD(1) [OF ok] by (simp_all add: amm_list_def)
  have "peek a q \<noteq> None" if hq: "hint a = NextOf q" for q
  proof -
    obtain xs e ys where "es = xs @ e # ys" "loc xs = NextOf q"
      using amm_okD(3) [OF ok] hq unfolding hint_in_def neq_Nil_conv by metis
    then obtain us s t f where "es = us @ (q, s, t, f) # e # ys" by (cases xs rule: rev_cases) auto
    then show ?thesis using amm_list_mid(1,2) [of a us q s t f "e # ys"] amm_okD(1) [OF ok] by (simp add: peek_def)
  qed
  then show ?thesis using destroy_loop_spec [OF l, of env] that by (auto simp: amm_destroy_def)
qed

section \<open>Isolating a range\<close>

lemma select_skip_spec:
  assumes "amm_list a (us @ ds @ (q, s, t, f) # zs)" "\<forall>(q', s', t', f')\<in>set ds. t' < e" "e \<le> t"
  shows "select_skip e a (loc us) (front (ds @ [(q, s, t, f)]) 0) = Some (loc (us @ ds), q)"
  using assms
proof (induction ds arbitrary: us)
  case Nil
  then show ?case using amm_list_mid(1,2) [of a us q s t f zs] by (subst select_skip.simps) (auto simp: not_less)
next
  case (Cons d ds)
  obtain r s' t' f' where d: "d = (r, s', t', f')" by (cases d)
  have l: "amm_list a (us @ (r, s', t', f') # ds @ (q, s, t, f) # zs)" using Cons.prems(1) d by simp
  have "front (ds @ (q, s, t, f) # zs) 0 = front (ds @ [(q, s, t, f)]) 0" by (cases ds) auto
  then show ?case
    using Cons.IH [of "us @ [d]"] Cons.prems amm_list_mid(1,2) [OF l] d by (subst select_skip.simps) simp
qed

lemma amm_select_spec:
  assumes ok: "amm_ok a es" and r: "x < x + sz" and env: "allocator env"
  obtains (isolated) a' us vs zs where "amm_select env a x sz = Some (front vs 0, a')" "amm_ok a' (us @ vs @ zs)"
    "tiles 0 us x" "tiles x vs (x + sz)" "flags_at (us @ vs @ zs) = flags_at es"
  | (nomem) a' es' where "amm_select env a x sz = Some (0, a')" "amm_ok a' es'" "flags_at es' = flags_at es" "\<not> never_fails env"
proof -
  note d = amm_okD [OF ok]
  have x: "x < AMM_MAXADDR" using r AMM_MAXADDR_max [of "x + sz"] by order
  obtain xs p s t f ys st where es: "es = xs @ (p, s, t, f) # ys" "s \<le> x" "x < t"
    and find: "amm_find_addr a x = Some (p, a\<lparr>stats := st, hint := loc xs\<rparr>)"
    by (rule amm_find_addr_spec [OF ok x])
  let ?a = "a\<lparr>stats := st, hint := loc xs\<rparr>" and ?e = "x + sz"
  have l: "amm_list ?a (xs @ (p, s, t, f) # ys)" using d(1) es(1) by simp
  have tl: "tiles 0 xs s" "s < t" "tiles t ys AMM_MAXADDR" using tiles_mid [of 0 xs p s t f ys] d(2) es(1) by simp_all
  note m = amm_list_mid(1,2) [OF l]
  show ?thesis
  proof (rule modify_head_spec [OF l es(2,3) allocator_sub [OF env, of 0]])
    assume "modify_head (sub_env env 0) ?a (loc xs) p x = Some (Inl ENOMEM, ?a)" "\<not> never_fails (sub_env env 0)"
    moreover have "amm_ok ?a es" using amm_ok_hint ok unfolding es(1) by blast
    ultimately show ?thesis using nomem find m less_not_sym [OF r] fails_sub [of env 0] by (simp add: amm_select_def Let_def)
  next
    fix us q a2
    assume 2: "modify_head (sub_env env 0) ?a (loc xs) p x = Some (Inr (loc us, q), a2)"
      "amm_list a2 (us @ (q, x, t, f) # ys)" "hint a2 = hint ?a"
      "us = xs \<and> q = p \<and> s = x \<and> a2 = ?a \<or> us = xs @ [(p, s, x, f)] \<and> s < x"
    let ?L = "(q, x, t, f) # ys"
    define a3 where "a3 = (if s < x then a2\<lparr>hint := loc us\<rparr> else a2)"
    have tu: "tiles 0 us x" and h3: "hint a3 = loc us" using 2(3,4) tl(1) by (auto simp: tiles_append a3_def)
    have tL: "tiles x ?L AMM_MAXADDR" using es(3) tl(3) by simp
    have F2: "flags_at (us @ ?L) = flags_at es"
      using 2(4) flags_at_join [of s x t xs p f q ys p] es by auto
    obtain ds r' s' t' f' zs where D: "?L = ds @ (r', s', t', f') # zs" "\<forall>(q', s', t', f')\<in>set ds. t' < ?e" "s' < ?e" "?e \<le> t'"
      using drop_split [OF tL r AMM_MAXADDR_max] by blast
    have td: "tiles x ds s'" "tiles t' zs AMM_MAXADDR" using tL unfolding D(1) by (auto simp: tiles_append)
    have l3: "amm_list a3 (us @ ?L)" using 2(2) by (simp add: a3_def)
    then have l3': "amm_list a3 ((us @ ds) @ (r', s', t', f') # zs)" unfolding D(1) by simp
    have fr: "front (ds @ [(r', s', t', f')]) 0 = q" using D(1) by (cases ds) auto
    have skip: "select_skip ?e a3 (loc us) q = Some (loc (us @ ds), r')"
      using select_skip_spec [of a3 us ds r' s' t' f' zs ?e] l3' D(2,4) fr by simp
    have run: "amm_select env a x sz = modify_tail (sub_env env 1) a3 (loc (us @ ds)) r' ?e \<bind> (\<lambda>(r, a). case r of Inl rc \<Rightarrow> Some (0, a)
       | Inr entry \<Rightarrow> do {e \<leftarrow> deref a entry; assertion (e_end e = ?e); p \<leftarrow> load a (hint a); Some (p, a)})"
      using find m less_not_sym [OF r] 2(1) amm_list_mid(1,2) [OF l3] skip unfolding a3_def [symmetric]
      by (simp add: amm_select_def Let_def a3_def [symmetric])
    show ?thesis
    proof (rule modify_tail_spec [OF l3' less_imp_le [OF D(3)] D(4) allocator_sub [OF env, of 1]])
      assume "modify_tail (sub_env env 1) a3 (loc (us @ ds)) r' ?e = Some (Inl ENOMEM, a3)" "\<not> never_fails (sub_env env 1)"
      moreover have "amm_ok a3 (us @ ?L)" using l3 h3 tu tL hint_in_loc by (auto simp: amm_ok_def tiles_append AMM_MINADDR_def)
      ultimately show ?thesis using nomem run F2 fails_sub [of env 1] by simp
    next
      fix zs' a4
      assume 4: "modify_tail (sub_env env 1) a3 (loc (us @ ds)) r' ?e = Some (Inr r', a4)"
        "amm_list a4 ((us @ ds) @ (r', s', ?e, f') # zs')" "hint a4 = hint a3"
        "zs' = zs \<and> t' = ?e \<or> (\<exists>n. zs' = (n, ?e, t', f') # zs \<and> ?e < t')"
      let ?vs = "ds @ [(r', s', ?e, f')]"
      have tv: "tiles x ?vs ?e" "tiles ?e zs' AMM_MAXADDR" using td D(3) 4(4) by (auto simp: tiles_append)
      have l4: "amm_list a4 (us @ ?vs @ zs')" using 4(2) by simp
      obtain v vs' where v: "?vs = v # vs'" by (cases ds) auto
      have "hint_in a4 (us @ v # vs' @ zs')" using hint_in_loc [of a4 us v "vs' @ zs'"] 4(3) h3 by simp
      moreover have "tiles 0 (us @ ?vs @ zs') AMM_MAXADDR"
        using tiles_append [of 0 us "?vs @ zs'" AMM_MAXADDR] tiles_append [of x ?vs zs' AMM_MAXADDR] tu tv by blast
      ultimately have "amm_ok a4 (us @ ?vs @ zs')" using l4 unfolding v by (simp add: amm_ok_def AMM_MINADDR_def)
      moreover have "flags_at (us @ ?vs @ zs') = flags_at es"
        using 4(4) flags_at_join [of s' ?e t' "us @ ds" r' f' _ zs r'] D(3,4) F2 unfolding D(1) by auto
      moreover have "amm_select env a x sz = Some (front ?vs 0, a4)"
        using run 4(1) amm_list_mid(1,2) [OF 4(2)] load_loc [of a4 us "?vs @ zs'"] l4 4(3) h3 unfolding v by simp
      ultimately show ?thesis using isolated tu tv(1) by blast
    qed
  qed
qed

section \<open>Iteration\<close>

fun visit :: "(span \<Rightarrow> 'x \<Rightarrow> int \<times> 'x) \<Rightarrow> span list \<Rightarrow> 'x \<Rightarrow> int \<times> 'x" where
  "visit F [] arg = (0, arg)"
| "visit F (e # es) arg = (case F e arg of (rv, arg) \<Rightarrow> if rv \<noteq> 0 then (rv, arg) else visit F es arg)"

text \<open>A client function that looks at an entry of the map and leaves the map alone.\<close>

definition reads_only :: "'x amm_ifunc \<Rightarrow> (span \<Rightarrow> 'x \<Rightarrow> int \<times> 'x) \<Rightarrow> span list \<Rightarrow> bool" where
  "reads_only ifunc F es \<longleftrightarrow> (\<forall>a arg. \<forall>(p, s, t, f)\<in>set es. amm_ok a es \<longrightarrow>
     ifunc a p arg = (case F (p, s, t, f) arg of (rv, arg) \<Rightarrow> Some (rv, a, arg)))"

lemma find_last:
  assumes ok: "amm_ok a (xs @ (p, s, t, f) # ys)"
  obtains a' where "amm_find_addr a (t - 1) = Some (p, a')" "amm_ok a' (xs @ (p, s, t, f) # ys)"
proof -
  have tl: "s < t" "t \<le> AMM_MAXADDR" using tiles_mid [of 0 xs p s t f ys] amm_okD(2) [OF ok] by simp_all
  have "t \<noteq> 0" using tl(1) by auto
  then have t1: "s \<le> t - 1" "t - 1 < t" using tl(1) less_le_minus_one le_minus_one_less [of "t - 1" t] by auto
  then have "t - 1 < AMM_MAXADDR" using tl by order
  then obtain xs' p' s' t' f' ys' st where es: "xs @ (p, s, t, f) # ys = xs' @ (p', s', t', f') # ys'" "s' \<le> t - 1" "t - 1 < t'"
    and find: "amm_find_addr a (t - 1) = Some (p', a\<lparr>stats := st, hint := loc xs'\<rparr>)"
    by (rule amm_find_addr_spec [OF ok])
  have "(p', s', t', f') \<in> set (xs @ (p, s, t, f) # ys)" unfolding es(1) by simp
  then have "p' = p" using tiles_unique [OF amm_okD(2) [OF ok] _ _ t1 es(2,3), of p f p' f'] by simp
  moreover have "amm_ok (a\<lparr>stats := st, hint := loc xs'\<rparr>) (xs @ (p, s, t, f) # ys)" using amm_ok_hint ok unfolding es(1) by blast
  ultimately show ?thesis using that find by blast
qed

lemma iterate_loop_spec:
  assumes "amm_ok a (xs @ ys)" "reads_only ifunc F (xs @ ys)"
  shows "\<exists>a'. iterate_loop ifunc a (front ys 0) arg = (case visit F ys arg of (rv, arg) \<Rightarrow> Some (rv, a', arg)) \<and> amm_ok a' (xs @ ys)"
  using assms
proof (induction ys arbitrary: xs a arg)
  case Nil
  then show ?case by (subst iterate_loop.simps) auto
next
  case (Cons e ys)
  obtain p s t f where e: "e = (p, s, t, f)" by (cases e)
  obtain rv arg' where F: "F e arg = (rv, arg')" by fastforce
  have l: "amm_list a (xs @ (p, s, t, f) # ys)" using amm_okD(1) [OF Cons.prems(1)] e by simp
  have i: "ifunc a p arg = Some (rv, a, arg')" using Cons.prems e F unfolding reads_only_def by fastforce
  obtain a1 where a1: "amm_find_addr a (t - 1) = Some (p, a1)" "amm_ok a1 (xs @ (p, s, t, f) # ys)"
    using find_last Cons.prems(1) unfolding e by blast
  have l1: "amm_list a1 (xs @ (p, s, t, f) # ys)" using amm_okD(1) [OF a1(2)] .
  note m = amm_list_mid(1,2) [OF l] amm_list_mid(2) [OF l1]
  have run: "iterate_loop ifunc a (front (e # ys) 0) arg = (if rv \<noteq> 0 then Some (rv, a, arg') else iterate_loop ifunc a1 (front ys 0) arg')"
    using m i a1(1) e by (subst iterate_loop.simps) simp
  have V: "visit F (e # ys) arg = (if rv \<noteq> 0 then (rv, arg') else visit F ys arg')" using F by simp
  show ?case
  proof (cases "rv = 0")
    case True
    have "amm_ok a1 ((xs @ [e]) @ ys)" "reads_only ifunc F ((xs @ [e]) @ ys)" using a1(2) Cons.prems(2) e by simp_all
    from Cons.IH [OF this, of arg'] show ?thesis unfolding run V using True by simp
  next
    case False
    then have "iterate_loop ifunc a (front (e # ys) 0) arg = (case visit F (e # ys) arg of (rv, arg) \<Rightarrow> Some (rv, a, arg))"
      unfolding run V by simp
    then show ?thesis using Cons.prems(1) by blast
  qed
qed

lemma amm_list_nodes: "amm_list a es \<Longrightarrow> nodes a = front es 0"
  by (cases es) (auto simp: amm_list_def)

lemma amm_iterate_spec:
  assumes "amm_ok a es" "reads_only ifunc F es"
  shows "\<exists>a'. amm_iterate a ifunc arg = (case visit F es arg of (rv, arg) \<Rightarrow> Some (rv, a', arg)) \<and> amm_ok a' es"
  using iterate_loop_spec [of a "[]" es ifunc F arg] assms amm_list_nodes [OF amm_okD(1) [OF assms(1)]]
  by (simp add: amm_iterate_def)

text \<open>The entries \<open>amm_iterate_gen\<close> selects: those that meet the range and have the flags.\<close>

definition selected :: "addr \<Rightarrow> addr \<Rightarrow> u32 \<Rightarrow> u32 \<Rightarrow> span \<Rightarrow> bool" where
  "selected x e fl fm = (\<lambda>(p, s, t, f). x < t \<and> s < e \<and> f AND fm = fl)"

lemma filter_selected_beyond:
  assumes "tiles l es h" "e \<le> l"
  shows "filter (selected x e fl fm) es = []"
proof -
  have "\<not> selected x e fl fm (p, s, t, f)" if "(p, s, t, f) \<in> set es" for p s t f
    using tiles_span [OF assms(1) that] assms(2) by (auto simp: selected_def not_less)
  then show ?thesis by (fastforce simp: filter_empty_conv)
qed

lemma iterate_gen_loop_spec:
  assumes "amm_ok a (xs @ ys)" "reads_only ifunc F (xs @ ys)" "\<forall>(p, s, t, f)\<in>set ys. w < t \<longleftrightarrow> x < t"
  shows "\<exists>a'. iterate_gen_loop ifunc e fl fm 0 a (front ys 0) w arg =
    (case visit F (filter (selected x e fl fm) ys) arg of (rv, arg) \<Rightarrow> Some (rv, a', arg)) \<and> amm_ok a' (xs @ ys)"
  using assms
proof (induction ys arbitrary: xs a arg w)
  case Nil
  then show ?case by (subst iterate_gen_loop.simps) auto
next
  case (Cons d ys)
  obtain p s t f where d: "d = (p, s, t, f)" by (cases d)
  obtain rv arg' where F: "F d arg = (rv, arg')" by fastforce
  have l: "amm_list a (xs @ (p, s, t, f) # ys)" using amm_okD(1) [OF Cons.prems(1)] d by simp
  have tl: "s < t" "tiles t ys AMM_MAXADDR" using tiles_mid [of 0 xs p s t f ys] amm_okD(2) [OF Cons.prems(1)] d by simp_all
  have w: "w < t \<longleftrightarrow> x < t" "\<forall>(p, s, t, f)\<in>set ys. w < t \<longleftrightarrow> x < t" using Cons.prems(3) d by auto
  have i: "ifunc a p arg = Some (rv, a, arg')" using Cons.prems d F unfolding reads_only_def by fastforce
  obtain a1 where a1: "amm_find_addr a (t - 1) = Some (p, a1)" "amm_ok a1 (xs @ (p, s, t, f) # ys)"
    using find_last Cons.prems(1) unfolding d by blast
  have l1: "amm_list a1 (xs @ (p, s, t, f) # ys)" using amm_okD(1) [OF a1(2)] .
  note m = amm_list_mid(1,2) [OF l] amm_list_mid(2) [OF l1]
  let ?sel = "filter (selected x e fl fm)"
  have run: "iterate_gen_loop ifunc e fl fm 0 a (front (d # ys) 0) w arg =
      (if t \<le> w then iterate_gen_loop ifunc e fl fm 0 a (front ys 0) w arg
       else if e \<le> s then Some (0, a, arg)
       else if f AND fm \<noteq> fl then iterate_gen_loop ifunc e fl fm 0 a (front ys 0) w arg
       else if rv \<noteq> 0 then Some (rv, a, arg') else iterate_gen_loop ifunc e fl fm 0 a1 (front ys 0) (t - 1) arg')"
    using m i a1(1) d by (subst iterate_gen_loop.simps) simp
  have ok: "amm_ok a ((xs @ [d]) @ ys)" "reads_only ifunc F ((xs @ [d]) @ ys)" using Cons.prems by simp_all
  have ok1: "amm_ok a1 ((xs @ [d]) @ ys)" using a1(2) d by simp
  consider "t \<le> w \<or> \<not> e \<le> s \<and> f AND fm \<noteq> fl" | "w < t" "e \<le> s" | "w < t" "s < e" "f AND fm = fl" by force
  then show ?case
  proof cases
    case 1
    then have "?sel (d # ys) = ?sel ys" using w(1) d by (auto simp: selected_def)
    moreover have "iterate_gen_loop ifunc e fl fm 0 a (front (d # ys) 0) w arg = iterate_gen_loop ifunc e fl fm 0 a (front ys 0) w arg"
      using 1 unfolding run by auto
    ultimately show ?thesis using Cons.IH [OF ok w(2), of arg] by simp
  next
    case 2
    have "tiles s (d # ys) AMM_MAXADDR" using tl d by simp
    from filter_selected_beyond [OF this 2(2)] show ?thesis using 2 Cons.prems(1) unfolding run by (auto simp: leD)
  next
    case 3
    then have V: "visit F (?sel (d # ys)) arg = (if rv \<noteq> 0 then (rv, arg') else visit F (?sel ys) arg')" using w(1) d F by (simp add: selected_def)
    have R: "iterate_gen_loop ifunc e fl fm 0 a (front (d # ys) 0) w arg =
        (if rv \<noteq> 0 then Some (rv, a, arg') else iterate_gen_loop ifunc e fl fm 0 a1 (front ys 0) (t - 1) arg')"
      using 3(3) leD [of e s] leD [of t w] 3(1,2) unfolding run by auto
    have "\<forall>(p', s', t', f')\<in>set ys. t - 1 < t' \<longleftrightarrow> x < t'"
    proof clarify
      fix p' s' t' f'
      assume "(p', s', t', f') \<in> set ys"
      then have "t < t'" using tiles_span [OF tl(2)] by fastforce
      moreover have "t \<noteq> 0" using tl(1) by auto
      then have "t - 1 < t" using le_minus_one_less [of "t - 1" t] by simp
      moreover have "x < t" using 3(1) w(1) by simp
      ultimately show "t - 1 < t' \<longleftrightarrow> x < t'" by (meson less_trans)
    qed
    from Cons.IH [OF ok1 ok(2) this, of arg'] show ?thesis
      using Cons.prems(1) unfolding R V by (cases "rv = 0") auto
  qed
qed

lemma amm_iterate_gen_spec:
  assumes "amm_ok a es" "reads_only ifunc F es"
  shows "\<exists>a'. amm_iterate_gen a ifunc arg x sz fl fm =
    (case visit F (filter (selected x (x + sz) fl fm) es) arg of (rv, arg) \<Rightarrow> Some (rv, a', arg)) \<and> amm_ok a' es"
  using iterate_gen_loop_spec [of a "[]" es ifunc F x x "x + sz" fl fm arg] assms amm_list_nodes [OF amm_okD(1) [OF assms(1)]]
  by (simp add: amm_iterate_gen_def)

end
