(* ===== verification/Amm_Arena.thy ===== *)
theory Amm_Arena
  imports Amm_Life
begin

text \<open>
  Sequences of operations of the simple interface on a map made by \<open>amm_init\<close>.
\<close>

datatype amm_op = Allocate addr u32 u32 | Deallocate addr u32 | Protect addr u32 u32

text \<open>The result of an operation: an error, or the address for an allocation and 0 for the others.\<close>

definition unit_result :: "errno option \<times> amm \<Rightarrow> (errno + addr) \<times> amm" where
  "unit_result = (\<lambda>(rc, a). (case rc of None \<Rightarrow> Inr 0 | Some err \<Rightarrow> Inl err, a))"

fun amm_exec :: "amm_env \<Rightarrow> amm \<Rightarrow> amm_op \<Rightarrow> ((errno + addr) \<times> amm) option" where
  "amm_exec env a (Allocate addr sz prot) = amm_allocate env a addr sz prot"
| "amm_exec env a (Deallocate addr sz) = map_option unit_result (amm_deallocate env a addr sz)"
| "amm_exec env a (Protect addr sz prot) = map_option unit_result (amm_protect env a addr sz prot)"

fun amm_run :: "amm_env \<Rightarrow> nat \<Rightarrow> amm \<Rightarrow> amm_op list \<Rightarrow> ((errno + addr) list \<times> amm) option" where
  "amm_run env i a [] = Some ([], a)"
| "amm_run env i a (c # cs) = do {
     (r, a) \<leftarrow> amm_exec (sub_env env i) a c;
     (rs, a) \<leftarrow> amm_run env (Suc i) a cs;
     Some (r # rs, a)
   }"

text \<open>Everything outside \<open>[lo, hi)\<close> is reserved; inside, an address is free or allocated.\<close>

definition arena :: "addr \<Rightarrow> addr \<Rightarrow> span list \<Rightarrow> bool" where
  "arena lo hi es \<longleftrightarrow> (\<forall>z<AMM_MAXADDR.
     if lo \<le> z \<and> z < hi then \<exists>f. flags_at es z = Some f \<and> (f = AMM_FREE \<or> f AND (AMM_ALLOCATED OR AMM_RESERVED) = AMM_ALLOCATED)
     else flags_at es z = Some AMM_RESERVED)"

text \<open>A request whose search may run over the top of the address space: the size is 0, or the hint plus
  the size wraps around, or the end of an entry that the search has to pass plus the size does.\<close>

fun runs_over :: "span list \<Rightarrow> amm_op \<Rightarrow> bool" where
  "runs_over es (Allocate addr sz prot) \<longleftrightarrow>
     \<not> (let h = if addr \<ge> AMM_MAXADDR then AMM_MINADDR else addr in h < h + sz) \<or>
     \<not> no_wrap AMM_FREE (NOT 0) sz 0 es"
| "runs_over es _ \<longleftrightarrow> False"

text \<open>Requests that never do on a map with the range \<open>[lo, hi)\<close>.\<close>

fun op_fits :: "addr \<Rightarrow> amm_op \<Rightarrow> bool" where
  "op_fits hi (Allocate addr sz prot) \<longleftrightarrow> hi < hi + sz \<and> (addr = AMM_MAXADDR \<or> addr < addr + sz)"
| "op_fits hi _ \<longleftrightarrow> True"

fun op_inside :: "addr \<Rightarrow> addr \<Rightarrow> amm_op \<Rightarrow> errno + addr \<Rightarrow> bool" where
  "op_inside lo hi (Allocate addr sz prot) (Inr y) \<longleftrightarrow> lo \<le> y \<and> y < y + sz \<and> y + sz \<le> hi"
| "op_inside lo hi _ _ \<longleftrightarrow> True"

section \<open>Flag words\<close>

lemma flag_words [simp]:
  "AMM_RESERVED AND (AMM_ALLOCATED OR AMM_RESERVED) \<noteq> AMM_ALLOCATED" "AMM_RESERVED AND AMM_ALLOCATED \<noteq> AMM_ALLOCATED"
  "AMM_RESERVED \<noteq> AMM_FREE" "AMM_ALLOCATED AND (AMM_ALLOCATED OR AMM_RESERVED) = AMM_ALLOCATED" "AMM_RESERVED AND AMM_ALLOCATED = 0"
  "AMM_FREE AND AMM_ALLOCATED \<noteq> AMM_ALLOCATED" "AMM_RESERVED \<noteq> AMM_ALLOCATED" "AMM_ALLOCATED \<noteq> AMM_FREE"
  unfolding AMM_ALLOCATED_def AMM_RESERVED_def AMM_FREE_def by code_simp+

lemma allocated_prot: "(AMM_ALLOCATED OR (prot AND NOT (AMM_ALLOCATED OR AMM_RESERVED))) AND (AMM_ALLOCATED OR AMM_RESERVED) = AMM_ALLOCATED"
  by (rule bit_word_eqI) (auto simp: bit_simps)

lemma protected_prot: "((prot AND NOT AMM_RESERVED) OR AMM_ALLOCATED) AND (AMM_ALLOCATED OR AMM_RESERVED) = AMM_ALLOCATED"
proof (rule bit_word_eqI)
  fix n
  assume "n < LENGTH(32)"
  have "\<not> bit (AMM_RESERVED AND AMM_ALLOCATED) n" by simp
  then show "bit (((prot AND NOT AMM_RESERVED) OR AMM_ALLOCATED) AND (AMM_ALLOCATED OR AMM_RESERVED)) n = bit AMM_ALLOCATED n"
    unfolding bit_simps by (auto simp: bit_simps)
qed

lemma arena_change:
  assumes "arena lo hi es" "flags_at es' = range_change g s e es"
    "g = AMM_FREE \<or> g AND (AMM_ALLOCATED OR AMM_RESERVED) = AMM_ALLOCATED"
  shows "arena lo hi es'"
  unfolding arena_def
proof (intro allI impI)
  fix z assume "z < AMM_MAXADDR"
  with assms(1) have "if lo \<le> z \<and> z < hi then \<exists>f. flags_at es z = Some f \<and> (f = AMM_FREE \<or> f AND (AMM_ALLOCATED OR AMM_RESERVED) = AMM_ALLOCATED)
     else flags_at es z = Some AMM_RESERVED" unfolding arena_def by blast
  then show "if lo \<le> z \<and> z < hi then \<exists>f. flags_at es' z = Some f \<and> (f = AMM_FREE \<or> f AND (AMM_ALLOCATED OR AMM_RESERVED) = AMM_ALLOCATED)
     else flags_at es' z = Some AMM_RESERVED"
    using assms(3) unfolding assms(2) range_change_def change_def by (auto split: if_splits)
qed

lemma arena_no_wrap:
  assumes ok: "amm_ok a es" "merged es" and ar: "arena lo hi es" and lh: "lo \<le> hi" and sz: "hi < hi + sz"
  shows "no_wrap AMM_FREE (NOT 0) sz 0 es"
proof -
  have "t < t + sz" if e: "(p, s, t, f) \<in> set es" "t \<noteq> AMM_MAXADDR" for p s t f
  proof -
    obtain xs ys where es: "es = xs @ (p, s, t, f) # ys" using split_list [OF e(1)] by blast
    have tl: "s < t" "tiles t ys AMM_MAXADDR" using tiles_mid [of 0 xs p s t f ys] amm_okD(2) [OF ok(1)] es by simp_all
    then obtain q t' f' zs where ys: "ys = (q, t, t', f') # zs" "t < t'" using e(2) by (cases ys) auto
    have "f \<noteq> f'" using ok(2) unfolding es ys(1) by (simp add: merged_mid merged_Cons flg_def)
    have "t \<le> hi"
    proof (rule ccontr)
      assume "\<not> t \<le> hi"
      then have hi: "hi < t" "hi \<le> t - 1" using less_le_minus_one by auto
      have "t \<noteq> 0" using tl(1) by auto
      then have t1: "s \<le> t - 1" "t - 1 < t" using tl(1) less_le_minus_one le_minus_one_less [of "t - 1" t] by auto
      have m: "t < AMM_MAXADDR" "t - 1 < AMM_MAXADDR" using e(2) t1(2) AMM_MAXADDR_max [of t] by order+
      have "flags_at es (t - 1) = Some f" "flags_at es t = Some f'"
        using flags_at_mem [OF amm_okD(2) [OF ok(1)], of p s t f "t - 1"] flags_at_mem [OF amm_okD(2) [OF ok(1)], of q t t' f' t] t1 es ys by auto
      moreover have "flags_at es (t - 1) = Some AMM_RESERVED" "flags_at es t = Some AMM_RESERVED"
        using ar m hi unfolding arena_def by (meson leD less_le_trans less_imp_le)+
      ultimately show False using \<open>f \<noteq> f'\<close> by simp
    qed
    then show ?thesis using word_add_mono_nowrap sz by blast
  qed
  then show ?thesis by (auto simp: no_wrap_def)
qed

lemma arena_fits:
  assumes ar: "arena lo hi es" and y: "fits AMM_FREE (NOT 0) es sz y"
  shows "lo \<le> y" "y < y + sz" "y + sz \<le> hi"
proof -
  have r: "y < y + sz" and f: "\<And>z. y \<le> z \<Longrightarrow> z < y + sz \<Longrightarrow> match AMM_FREE (NOT 0) es z" using y by (auto simp: fits_def)
  have z: "lo \<le> z \<and> z < hi" if "y \<le> z" "z < y + sz" for z
  proof -
    have "z < AMM_MAXADDR" using that(2) AMM_MAXADDR_max [of "y + sz"] by order
    then show ?thesis using ar f [OF that] by (auto simp: arena_def match_def split: if_splits option.splits)
  qed
  show "lo \<le> y" "y < y + sz" using z [of y] r by simp_all
  have "y + sz \<noteq> 0" using r by auto
  then have "y \<le> y + sz - 1" "y + sz - 1 < y + sz" using r less_le_minus_one le_minus_one_less [of "y + sz - 1" "y + sz"] by auto
  then have "y + sz - 1 < hi" using z by blast
  then show "y + sz \<le> hi" using le_minus_one_less [of "y + sz - 1" "y + sz"] less_le_minus_one [of hi "y + sz"] by (auto simp: not_le [symmetric])
qed

lemma arena_allocated:
  assumes ar: "arena lo hi es" and y: "fits AMM_FREE (NOT 0) es sz y" and g: "g AND (AMM_ALLOCATED OR AMM_RESERVED) = AMM_ALLOCATED"
    and F: "flags_at es' = (\<lambda>z. if y \<le> z \<and> z < y + sz then Some g else flags_at es z)"
  shows "arena lo hi es'"
proof -
  have "lo \<le> z \<and> z < hi" if "y \<le> z" "z < y + sz" for z
    using that arena_fits [OF ar y] by (meson le_less_trans less_le_trans order_trans)
  then show ?thesis using ar g unfolding arena_def F by (auto split: if_splits)
qed

lemma arena_not_over:
  assumes "amm_ok a es" "merged es" "arena lo hi es" "lo \<le> hi" "runs_over es c"
  shows "\<not> op_fits hi c"
proof
  assume c: "op_fits hi c"
  then obtain addr sz prot where A: "c = Allocate addr sz prot" using assms(5) by (cases c) auto
  then have sz: "hi < hi + sz" using c by simp
  have "AMM_MINADDR < AMM_MINADDR + sz" using sz word_add_mono_nowrap(2) [of AMM_MINADDR hi sz] by (simp add: AMM_MINADDR_def)
  then show False using c assms(5) arena_no_wrap [OF assms(1-4) sz] A by (auto simp: Let_def split: if_splits)
qed

lemma amm_exec_step:
  assumes ok: "amm_ok a es" "merged es" "arena lo hi es" and c: "\<not> runs_over es c"
    and env: "allocator env" "never_fails env" "header_only env"
  shows "\<exists>r a' es'. amm_exec env a c = Some (r, a') \<and> amm_ok a' es' \<and> merged es' \<and> arena lo hi es' \<and> op_inside lo hi c r"
proof (cases c)
  case (Allocate addr sz prot)
  let ?h = "if addr \<ge> AMM_MAXADDR then AMM_MINADDR else addr"
  have h: "?h < ?h + sz" and n: "no_wrap AMM_FREE (NOT 0) sz 0 es" using c Allocate by (auto simp: Let_def)
  show ?thesis
  proof (rule amm_allocate_spec [OF ok(1) refl h n env(1), of prot])
    fix y a' es'
    assume *: "amm_allocate env a addr sz prot = Some (Inr y, a')" "amm_ok a' es'" "fits AMM_FREE (NOT 0) es sz y"
      "flags_at es' = (\<lambda>z. if y \<le> z \<and> z < y + sz then Some (AMM_ALLOCATED OR (prot AND NOT (AMM_ALLOCATED OR AMM_RESERVED)))
         else flags_at es z)" "merged es \<Longrightarrow> merged es'"
    then show ?thesis
      using arena_fits [OF ok(3) *(3)] arena_allocated [OF ok(3) *(3) allocated_prot *(4)] ok(2) Allocate by auto
  next
    fix a'
    assume "amm_allocate env a addr sz prot = Some (Inl ENOMEM, a')" "amm_ok a' es"
    then show ?thesis using ok Allocate by auto
  qed (use env(2) in simp)
next
  case (Deallocate addr sz)
  obtain rc a' es' where "amm_deallocate env a addr sz = Some (rc, a')" "amm_ok a' es'" "range_result AMM_FREE addr (addr + sz) env es rc es'"
    using deallocate.loop_spec [OF ok(1) env(1,3)] unfolding amm_deallocate_def by blast
  then show ?thesis using arena_change [OF ok(3), of es' AMM_FREE addr "addr + sz"] ok(2) env(2) Deallocate
    by (auto simp: range_result_def unit_result_def)
next
  case (Protect addr sz prot)
  let ?g = "(prot AND NOT AMM_RESERVED) OR AMM_ALLOCATED"
  obtain rc a' es' where "amm_protect env a addr sz prot = Some (rc, a')" "amm_ok a' es'" "range_result ?g addr (addr + sz) env es rc es'"
    using protect.loop_spec [OF ok(1) env(1,3)] unfolding amm_protect_def by blast
  then show ?thesis using arena_change [OF ok(3), of es' ?g addr "addr + sz"] protected_prot [of prot] ok(2) env(2) Protect
    by (auto simp: range_result_def unit_result_def)
qed

lemma header_only_sub [simp]: "header_only (sub_env env i) = header_only env"
  by (simp add: header_only_def)

text \<open>A run goes through, or stops at an allocation whose search may run over the top.\<close>

definition arena_state :: "addr \<Rightarrow> addr \<Rightarrow> amm \<Rightarrow> span list \<Rightarrow> bool" where
  "arena_state lo hi a es \<longleftrightarrow> amm_ok a es \<and> merged es \<and> arena lo hi es"

lemma amm_run_spec:
  assumes "arena_state lo hi a es" "lo \<le> hi" "allocator env" "never_fails env" "header_only env"
  shows "(\<exists>rs a' es'. amm_run env i a cs = Some (rs, a') \<and> arena_state lo hi a' es' \<and> list_all2 (op_inside lo hi) cs rs) \<or>
    (\<exists>cs1 c cs2 rs a' es'. cs = cs1 @ c # cs2 \<and> amm_run env i a cs1 = Some (rs, a') \<and> arena_state lo hi a' es' \<and>
       list_all2 (op_inside lo hi) cs1 rs \<and> runs_over es' c \<and> \<not> op_fits hi c)"
  using assms
proof (induction cs arbitrary: i a es)
  case (Cons c cs)
  note ok = Cons.prems(1) [unfolded arena_state_def, THEN conjunct1]
    Cons.prems(1) [unfolded arena_state_def, THEN conjunct2, THEN conjunct1]
    Cons.prems(1) [unfolded arena_state_def, THEN conjunct2, THEN conjunct2]
  show ?case
  proof (cases "runs_over es c")
    case True
    then have "\<not> op_fits hi c" by (rule arena_not_over [OF ok Cons.prems(2)])
    then show ?thesis using True Cons.prems(1)
      by (intro disjI2 exI [of _ "[]"] exI [of _ c] exI [of _ cs] exI [of _ a] exI [of _ es]) auto
  next
    case False
    obtain r a1 es1 where 1: "amm_exec (sub_env env i) a c = Some (r, a1)" "arena_state lo hi a1 es1" "op_inside lo hi c r"
      using amm_exec_step [OF ok False, of "sub_env env i"] Cons.prems(3-5) by (auto simp: arena_state_def)
    from Cons.IH [OF 1(2) Cons.prems(2-5), of "Suc i"] show ?thesis
    proof (elim disjE exE conjE)
      fix rs a' es'
      assume "amm_run env (Suc i) a1 cs = Some (rs, a')" "arena_state lo hi a' es'" "list_all2 (op_inside lo hi) cs rs"
      then show ?thesis using 1 by (intro disjI1 exI [of _ "r # rs"] exI [of _ a'] exI [of _ es']) simp
    next
      fix cs1 c' cs2 rs a' es'
      assume "cs = cs1 @ c' # cs2" "amm_run env (Suc i) a1 cs1 = Some (rs, a')" "arena_state lo hi a' es'"
        "list_all2 (op_inside lo hi) cs1 rs" "runs_over es' c'" "\<not> op_fits hi c'"
      then show ?thesis using 1
        by (intro disjI2 exI [of _ "c # cs1"] exI [of _ c'] exI [of _ cs2] exI [of _ "r # rs"] exI [of _ a'] exI [of _ es']) simp
    qed
  qed
qed auto

lemma arena_init: "flags_at es = init_flags lo hi \<Longrightarrow> arena lo hi es"
  by (simp add: arena_def init_flags_def)

end
