(* ===== verification/Amm_Spec.thy ===== *)
theory Amm_Spec
  imports Amm_Arena
begin

text \<open>
  The properties of the address map manager.  The concrete map of the examples has a
  reserved, an allocated and a free entry; \<open>heap_env\<close> is an allocator that gives out the first
  unused block, \<open>full_env\<close> one that has nothing left.
\<close>

section \<open>Concrete maps and allocators\<close>

definition demo_spans :: "span list" where
  "demo_spans = [(1, 0, 4096, AMM_RESERVED), (2, 4096, 8192, AMM_ALLOCATED), (3, 8192, AMM_MAXADDR, AMM_FREE)]"

definition demo_map :: amm where
  "demo_map = \<lparr>nodes = 1, hint = Nodes, stats = \<lparr>lookups = 0, hits = 0, entriesscanned = 0\<rparr>,
     heap = [1 \<mapsto> \<lparr>e_next = 2, e_start = 0, e_end = 4096, e_flags = AMM_RESERVED\<rparr>,
             2 \<mapsto> \<lparr>e_next = 3, e_start = 4096, e_end = 8192, e_flags = AMM_ALLOCATED\<rparr>,
             3 \<mapsto> \<lparr>e_next = 0, e_start = 8192, e_end = AMM_MAXADDR, e_flags = AMM_FREE\<rparr>],
     freed = Map.empty\<rparr>"

text \<open>What is left of it after a modification that ran out of memory.\<close>

definition demo_hole :: amm where
  "demo_hole = \<lparr>nodes = 1, hint = NextOf 1, stats = \<lparr>lookups = 1, hits = 0, entriesscanned = 2\<rparr>,
     heap = [1 \<mapsto> \<lparr>e_next = 3, e_start = 0, e_end = 4096, e_flags = AMM_RESERVED\<rparr>,
             3 \<mapsto> \<lparr>e_next = 0, e_start = 8192, e_end = AMM_MAXADDR, e_flags = AMM_FREE\<rparr>],
     freed = [2 \<mapsto> \<lparr>e_next = 0, e_start = 0, e_end = 8192, e_flags = AMM_ALLOCATED\<rparr>]\<rparr>"

definition heap_env :: amm_env where
  "heap_env = \<lparr>env_alloc = \<lambda>q h. if finite (dom h) then LEAST p. 0 < p \<and> h p = None else 0,
     env_scribble = \<lambda>e. e\<lparr>e_next := 0, e_start := 0\<rparr>\<rparr>"

definition full_env :: amm_env where
  "full_env = \<lparr>env_alloc = \<lambda>q h. 0, env_scribble = \<lambda>e. e\<lparr>e_next := 0, e_start := 0\<rparr>\<rparr>"

lemma demo_max: "(8192 :: addr) < AMM_MAXADDR" "(12288 :: addr) \<noteq> AMM_MAXADDR"
  unfolding AMM_MAXADDR_def by code_simp+

lemma demo_map_ok: "amm_ok demo_map demo_spans" "merged demo_spans"
proof -
  have "hint_in demo_map demo_spans" using hint_in_loc [of demo_map "[]"] by (simp add: demo_map_def demo_spans_def)
  moreover have "finite (dom (heap demo_map))" by (simp add: demo_map_def)
  ultimately show "amm_ok demo_map demo_spans"
    using demo_max by (simp add: amm_ok_def amm_list_def) (simp add: demo_map_def demo_spans_def AMM_MINADDR_def)
  show "merged demo_spans" by (simp add: demo_spans_def)
qed

lemma heap_env_ok [simp]: "allocator heap_env" "never_fails heap_env" "header_only heap_env"
proof -
  have L: "0 < (LEAST p. 0 < p \<and> h p = None) \<and> h (LEAST p. 0 < p \<and> h p = None) = None" if "finite (dom h)" for h :: amm_heap
  proof (rule LeastI_ex)
    have "\<exists>p. p \<notin> insert 0 (dom h)" by (rule ex_new_if_finite [OF infinite_UNIV_nat]) (simp add: that)
    then show "\<exists>p. 0 < p \<and> h p = None" by auto
  qed
  then show "allocator heap_env" "never_fails heap_env" by (auto simp: allocator_def never_fails_def heap_env_def)
  show "header_only heap_env" by (auto simp: header_only_def heap_env_def)
qed

lemma full_env_ok [simp]: "allocator full_env"
  by (simp add: allocator_def full_env_def)

lemmas amm_eval = amm_modify_def amm_find_addr_def find_addr_loop.simps [of _ _ Nodes] find_addr_loop.simps [of _ _ "NextOf _"]
  modify_head_def modify_rest_def modify_drop.simps modify_tail_def amm_split_def amm_alloc_entry_def amm_free_entry_def
  load_def deref_def peek_def put_def assign_def sub_env_def AMM_MAXADDR_def Let_def

section \<open>Properties\<close>

text \<open>C26. \<open>amm_modify\<close> on a valid map and a range that does not wrap never fails an assertion.  When it
  returns 0 the map is valid again, has the new flags on exactly the range and the old ones
  everywhere else, and adjacent entries still differ in their flags; the only error
  is \<open>ENOMEM\<close>, and an allocator that does not run out of memory excludes it.\<close>

theorem amm_modify_correct:
  assumes "amm_ok a es" "x < x + sz" "allocator env"
  shows "\<exists>rc a'. amm_modify env a x sz g 0 = Some (rc, a') \<and> rc \<in> {None, Some ENOMEM} \<and> (never_fails env \<longrightarrow> rc = None) \<and>
    (rc = None \<longrightarrow> (\<exists>es'. amm_ok a' es' \<and> (merged es \<longrightarrow> merged es') \<and>
       flags_at es' = (\<lambda>z. if x \<le> z \<and> z < x + sz then Some g else flags_at es z)))"
proof -
  have "new_entry a es 0" by (simp add: new_entry_def)
  then show ?thesis by (rule amm_modify_spec [OF assms, where g = g]) auto
qed

theorem amm_modify_correct_witness:
  "\<exists>a' es'. amm_modify heap_env demo_map 6144 4096 7 0 = Some (None, a') \<and> amm_ok a' es' \<and> merged es' \<and>
     flags_at es' = (\<lambda>z. if 6144 \<le> z \<and> z < 10240 then Some 7 else flags_at demo_spans z)"
  using amm_modify_correct [OF demo_map_ok(1), of 6144 4096 heap_env 7] demo_map_ok(2) by fastforce

text \<open>C30. When \<open>amm_modify\<close> runs out of memory the map may have a hole: the addresses from the start
  of the range up to some point below its end are then in no entry.  Nothing is lost
  when the range lies in one entry, and the flags outside the hole never change.\<close>

theorem amm_modify_out_of_memory:
  assumes "amm_ok a es" "x < x + sz" "allocator env" "amm_modify env a x sz g 0 = Some (Some ENOMEM, a')"
  shows "\<exists>m es'. x \<le> m \<and> m < x + sz \<and> amm_list a' es' \<and>
    flags_at es' = (\<lambda>z. if x \<le> z \<and> z < m then None else flags_at es z) \<and> (m = x \<longrightarrow> amm_ok a' es') \<and>
    ((\<exists>p s t f. (p, s, t, f) \<in> set es \<and> s \<le> x \<and> x + sz \<le> t) \<longrightarrow> m = x)"
proof -
  have "new_entry a es 0" by (simp add: new_entry_def)
  then show ?thesis
  proof (rule amm_modify_spec [OF assms(1-3), where g = g])
    fix a1 es' m
    assume *: "amm_modify env a x sz g 0 = Some (Some ENOMEM, a1)" "amm_list a1 es'" "x \<le> m" "m < x + sz"
      "flags_at es' = (\<lambda>z. if x \<le> z \<and> z < m then None else flags_at es z)" "m = x \<Longrightarrow> amm_ok a1 es'"
      "\<And>p s t f. (p, s, t, f) \<in> set es \<Longrightarrow> s \<le> x \<Longrightarrow> x + sz \<le> t \<Longrightarrow> m = x"
    have "a1 = a'" using *(1) assms(4) by simp
    then show ?thesis using *(2-7) by blast
  qed (use assms(4) in simp)
qed

theorem amm_modify_out_of_memory_witness:
  "\<exists>a' m es'. amm_modify full_env demo_map 4096 8192 AMM_RESERVED 0 = Some (Some ENOMEM, a') \<and> amm_find_addr a' 4096 = None \<and>
     4096 \<le> m \<and> m < 12288 \<and> flags_at es' = (\<lambda>z. if 4096 \<le> z \<and> z < m then None else flags_at demo_spans z)"
proof -
  have "amm_modify full_env demo_map 4096 8192 AMM_RESERVED 0 = Some (Some ENOMEM, demo_hole)"
    by (simp add: amm_eval demo_map_def full_env_def demo_hole_def fun_eq_iff)
  moreover have "amm_find_addr demo_hole 4096 = None"
    by (simp add: amm_find_addr_def demo_hole_def load_def) (subst find_addr_loop.simps, simp add: load_def)
  ultimately show ?thesis using amm_modify_out_of_memory [OF demo_map_ok(1), of 4096 8192 full_env AMM_RESERVED demo_hole] by force
qed

text \<open>C27. \<open>amm_allocate\<close> is first fit from the hint upwards, for a size that does not wrap around when added to
  the hint or (\<open>no_wrap\<close>) to the end of an entry in use below the last: it returns the lowest
  address at or above the hint from which the requested number of free addresses follow, and marks
  exactly them allocated with the protection; it fails with \<open>ENOMEM\<close> and leaves the map alone if
  there is no such address at or above the hint, even if there is one below, where the manual
  promises to look too.  The only other outcome is \<open>ENOMEM\<close> from an allocator of entries that has run
  out of memory, and then no address of a merged map has changed.\<close>

theorem amm_allocate_first_fit:
  assumes "amm_ok a es" "h = (if addr \<ge> AMM_MAXADDR then AMM_MINADDR else addr)" "h < h + sz" "no_wrap AMM_FREE (NOT 0) sz 0 es"
    "allocator env"
  shows "(\<exists>y a' es'. amm_allocate env a addr sz prot = Some (Inr y, a') \<and> amm_ok a' es' \<and> h \<le> y \<and> fits AMM_FREE (NOT 0) es sz y \<and>
      (\<forall>y'. h \<le> y' \<and> y' < y \<longrightarrow> \<not> fits AMM_FREE (NOT 0) es sz y') \<and> (merged es \<longrightarrow> merged es') \<and>
      flags_at es' = (\<lambda>z. if y \<le> z \<and> z < y + sz then Some (AMM_ALLOCATED OR (prot AND NOT (AMM_ALLOCATED OR AMM_RESERVED)))
        else flags_at es z)) \<or>
    (\<exists>a'. amm_allocate env a addr sz prot = Some (Inl ENOMEM, a') \<and> amm_ok a' es \<and> (\<forall>y. h \<le> y \<longrightarrow> \<not> fits AMM_FREE (NOT 0) es sz y)) \<or>
    (\<exists>a' es'. amm_allocate env a addr sz prot = Some (Inl ENOMEM, a') \<and> \<not> never_fails env \<and>
      (merged es \<longrightarrow> amm_ok a' es' \<and> flags_at es' = flags_at es))"
proof (rule amm_allocate_spec [OF assms(1-5), where prot = prot], goal_cases)
  case (1 y a' es')
  then show ?case by (intro disjI1 exI [of _ y] exI [of _ a'] exI [of _ es']) auto
next
  case (2 a')
  then show ?case by blast
next
  case (3 a' es')
  then show ?case by blast
qed

theorem amm_allocate_first_fit_witness:
  "\<exists>y a' es'. amm_allocate heap_env demo_map 0 4096 1 = Some (Inr y, a') \<and> amm_ok a' es' \<and> merged es' \<and>
     fits AMM_FREE (NOT 0) demo_spans 4096 y \<and> flags_at es' y = Some (AMM_ALLOCATED OR 1)"
proof -
  have n: "no_wrap AMM_FREE (NOT 0) 4096 0 demo_spans" by (simp add: no_wrap_def demo_spans_def)
  have h: "0 = (if (0 :: addr) \<ge> AMM_MAXADDR then AMM_MINADDR else 0)" by (simp add: AMM_MINADDR_def)
  have f: "AMM_ALLOCATED OR ((1 :: u32) AND NOT (AMM_ALLOCATED OR AMM_RESERVED)) = AMM_ALLOCATED OR 1" by code_simp
  have "fits AMM_FREE (NOT 0) demo_spans 4096 8192"
    unfolding fits_def
  proof (intro conjI allI impI)
    fix z :: addr
    assume z: "8192 \<le> z \<and> z < 8192 + 4096"
    then have "z < AMM_MAXADDR" using less_le_trans [OF _ AMM_MAXADDR_max] by blast
    moreover have "\<not> z < 8192" "\<not> z < 4096" using z less_trans [of z 4096 8192] by auto
    ultimately show "match AMM_FREE (NOT 0) demo_spans z" using z by (simp add: match_def demo_spans_def)
  qed simp
  moreover have "(0 :: addr) \<le> 8192" by simp
  ultimately have nf: "\<not> (\<forall>y. 0 \<le> y \<longrightarrow> \<not> fits AMM_FREE (NOT 0) demo_spans 4096 y)" by blast
  have "\<exists>y a' es'. amm_allocate heap_env demo_map 0 4096 1 = Some (Inr y, a') \<and> amm_ok a' es' \<and> 0 \<le> y \<and> fits AMM_FREE (NOT 0) demo_spans 4096 y \<and>
      (\<forall>y'. 0 \<le> y' \<and> y' < y \<longrightarrow> \<not> fits AMM_FREE (NOT 0) demo_spans 4096 y') \<and> (merged demo_spans \<longrightarrow> merged es') \<and>
      flags_at es' = (\<lambda>z. if y \<le> z \<and> z < y + 4096 then Some (AMM_ALLOCATED OR 1) else flags_at demo_spans z)"
    using amm_allocate_first_fit [OF demo_map_ok(1) h _ n heap_env_ok(1), of 1] nf heap_env_ok(2) unfolding f by fastforce
  then obtain y a' es' where r: "amm_allocate heap_env demo_map 0 4096 1 = Some (Inr y, a')" "amm_ok a' es'" "fits AMM_FREE (NOT 0) demo_spans 4096 y"
      "merged es'" "flags_at es' = (\<lambda>z. if y \<le> z \<and> z < y + 4096 then Some (AMM_ALLOCATED OR 1) else flags_at demo_spans z)"
    using demo_map_ok(2) by blast
  then have "flags_at es' y = Some (AMM_ALLOCATED OR 1)" by (simp add: fits_def)
  then show ?thesis using r(1-4) by blast
qed

text \<open>C29. \<open>amm_deallocate\<close> and \<open>amm_protect\<close> reach the end of the range, terminate and leave a valid map.
  Without an error exactly the allocated addresses of the range have become free, or got
  the new protection; running out of memory half-way leaves every
  address as it was or as requested, and no hole.  The code reads the end of an entry that it may have
  freed; \<open>header_only\<close> says that \<open>free\<close> overwrites at most the first two words of the entry, as
  the \<open>sfree\<close> of the library does.  With a \<open>free\<close> that wipes the block the loop may stop early
  (\<open>amm_deallocate_wiped\<close>).\<close>

theorem amm_deallocate_protect_correct:
  assumes "amm_ok a es" "allocator env" "header_only env"
  shows "(\<exists>rc a' es'. amm_deallocate env a x sz = Some (rc, a') \<and> amm_ok a' es' \<and> range_result AMM_FREE x (x + sz) env es rc es') \<and>
    (\<exists>rc a' es'. amm_protect env a x sz prot = Some (rc, a') \<and> amm_ok a' es' \<and>
       range_result ((prot AND NOT AMM_RESERVED) OR AMM_ALLOCATED) x (x + sz) env es rc es')"
  using deallocate.loop_spec [OF assms] protect.loop_spec [OF assms] unfolding amm_deallocate_def amm_protect_def by blast

theorem amm_deallocate_protect_correct_witness:
  "\<exists>a' es'. amm_deallocate heap_env demo_map 6000 4096 = Some (None, a') \<and> amm_ok a' es' \<and> merged es' \<and>
     flags_at es' 5999 = Some AMM_ALLOCATED \<and> flags_at es' 6000 = Some AMM_FREE \<and> flags_at es' 9000 = Some AMM_FREE"
proof -
  have "(9000 :: addr) < AMM_MAXADDR" unfolding AMM_MAXADDR_def by code_simp
  moreover obtain rc a' es' where "amm_deallocate heap_env demo_map 6000 4096 = Some (rc, a')" "amm_ok a' es'"
      "range_result AMM_FREE 6000 (6000 + 4096) heap_env demo_spans rc es'"
    using amm_deallocate_protect_correct [OF demo_map_ok(1) heap_env_ok(1,3), of 6000 4096 0] by blast
  ultimately show ?thesis using demo_map_ok(2)
    by (auto simp: range_result_def range_change_def change_def demo_spans_def)
qed

text \<open>The \<open>sfree\<close> of \<open>memdebug\<close> fills a freed block with \<open>SFREE_WIPE\<close>.  The loop then takes the wiped
  end of the entry it freed for its position: the deallocation of two entries returns 0 after the first
  and leaves the second allocated.\<close>

definition wipe_env :: amm_env where
  "wipe_env = \<lparr>env_alloc = \<lambda>q h. if h 8 = None then 8 else 0,
     env_scribble = \<lambda>e. \<lparr>e_next = 0xEEEEEEEE, e_start = 0xEEEEEEEE, e_end = 0xEEEEEEEE, e_flags = 0xEEEEEEEE\<rparr>\<rparr>"

definition two_map :: amm where
  "two_map = \<lparr>nodes = 1, hint = Nodes, stats = \<lparr>lookups = 0, hits = 0, entriesscanned = 0\<rparr>,
     heap = [1 \<mapsto> \<lparr>e_next = 2, e_start = 0, e_end = 4096, e_flags = AMM_RESERVED\<rparr>,
             2 \<mapsto> \<lparr>e_next = 3, e_start = 4096, e_end = 8192, e_flags = AMM_ALLOCATED\<rparr>,
             3 \<mapsto> \<lparr>e_next = 4, e_start = 8192, e_end = 12288, e_flags = AMM_ALLOCATED OR 1\<rparr>,
             4 \<mapsto> \<lparr>e_next = 0, e_start = 12288, e_end = AMM_MAXADDR, e_flags = AMM_RESERVED\<rparr>],
     freed = Map.empty\<rparr>"

lemma amm_deallocate_wiped:
  "\<exists>a'. amm_deallocate wipe_env two_map 4096 8192 = Some (None, a') \<and>
     map_option e_flags (heap a' 3) = Some (AMM_ALLOCATED OR 1)"
proof -
  have f: "AMM_RESERVED = 0x80000000" "AMM_ALLOCATED = 0x40000000" "AMM_FREE = 0"
    "(0x40000000 :: u32) AND 0x40000000 = 0x40000000" "(0x40000000 :: u32) OR 1 = 0x40000001"
    unfolding AMM_ALLOCATED_def AMM_RESERVED_def AMM_FREE_def by code_simp+
  show ?thesis
    by (simp add: amm_deallocate_def deallocate_loop.simps amm_eval two_map_def wipe_env_def f
      modify_entry_def modify_joins_def modify_join_prev_def modify_join_next_def modify_find.simps amm_join_def)
qed

text \<open>C28. Every sequence of allocations, deallocations and protections on a map made by \<open>amm_init lo hi\<close>,
  with an allocator of entries that does not run out of memory and a \<open>free\<close> that overwrites at most the
  first two words of an entry, runs without a failing assertion up to its end, or up to the first
  allocation whose search may run over the top of the address space (\<open>runs_over\<close>; never one whose size
  fits above \<open>hi\<close> and above the hint).  Up to there the map stays valid, with no two adjacent entries of
  the same flags; everything outside \<open>[lo, hi)\<close> stays reserved and everything inside is free
  or allocated, and every block handed out lies inside.\<close>

theorem amm_session:
  assumes "allocator env" "never_fails env" "header_only env" "finite (dom (heap a0))" "lo \<le> hi"
  shows "\<exists>a. amm_init (sub_env env 0) a0 lo hi = Some a \<and>
    ((\<exists>rs a' es. amm_run (sub_env env 1) 0 a cs = Some (rs, a') \<and>
        amm_ok a' es \<and> merged es \<and> arena lo hi es \<and> list_all2 (op_inside lo hi) cs rs) \<or>
     (\<exists>cs1 c cs2 rs a' es. cs = cs1 @ c # cs2 \<and> amm_run (sub_env env 1) 0 a cs1 = Some (rs, a') \<and>
        amm_ok a' es \<and> merged es \<and> arena lo hi es \<and> list_all2 (op_inside lo hi) cs1 rs \<and>
        runs_over es c \<and> \<not> op_fits hi c))"
proof (rule amm_init_spec [OF allocator_sub [OF assms(1), of 0] assms(4), of lo hi])
  fix a es
  assume init: "amm_init (sub_env env 0) a0 lo hi = Some a" "amm_ok a es" "merged es" "flags_at es = init_flags lo hi"
  then have "arena_state lo hi a es" using arena_init [OF init(4)] by (simp add: arena_state_def)
  from amm_run_spec [OF this assms(5), of "sub_env env 1" 0 cs] show ?thesis
    using init(1) assms(1-3) by (simp add: arena_state_def)
qed (use assms(2) in simp)

theorem amm_session_witness:
  "\<exists>a rs a' es. amm_init (sub_env heap_env 0) demo_map 4096 65536 = Some a \<and>
     amm_run (sub_env heap_env 1) 0 a [Allocate 0 8192 1, Protect 4096 100 2, Deallocate 5000 8000] = Some (rs, a') \<and>
     amm_ok a' es \<and> arena 4096 65536 es \<and> op_inside 4096 65536 (Allocate 0 8192 1) (hd rs)"
proof -
  let ?cs = "[Allocate 0 8192 1, Protect 4096 100 2, Deallocate 5000 8000]"
  have "finite (dom (heap demo_map))" by (simp add: demo_map_def)
  note session = amm_session [OF heap_env_ok this, of 4096 65536 ?cs]
  have "op_fits 65536 c" if "c \<in> set ?cs" for c using that by auto
  then have "\<not> (\<exists>cs1 c cs2. ?cs = cs1 @ c # cs2 \<and> \<not> op_fits 65536 c)" by (metis in_set_conv_decomp)
  then show ?thesis using session by (fastforce simp: list_all2_Cons1)
qed

text \<open>\<open>amm_iterate_gen\<close> with a function that only looks at the entries calls it for exactly the entries
  that meet the range and have the flags, in address order, until it returns
  something other than 0, and returns what the last call returned; so the loop terminates although it looks
  up its position again after every call.\<close>

lemma amm_iterate_gen_visits:
  assumes "amm_ok a es" "reads_only ifunc F es"
  shows "\<exists>a'. amm_iterate_gen a ifunc arg x sz fl fm =
    (case visit F (filter (selected x (x + sz) fl fm) es) arg of (rv, arg) \<Rightarrow> Some (rv, a', arg)) \<and> amm_ok a' es"
  by (rule amm_iterate_gen_spec [OF assms])

text \<open>C31. \<open>amm_allocate\<close> panics instead of failing: if the search has to pass an entry at whose end the
  requested size would run over the top of the address space, and another entry
  follows, the assertion in \<open>amm_find_gen\<close> fails.\<close>

theorem amm_allocate_panics:
  assumes "amm_ok a ((p, 0, t, f) # e # es)" "f \<noteq> AMM_FREE" "0 < sz" "t + sz < t"
  shows "amm_allocate env a 0 sz prot = None"
proof -
  let ?es = "(p, 0, t, f) # e # es"
  have t0: "0 < t" using assms(4) by (auto simp: word_gt_0)
  obtain q t' f' where e: "e = (q, t, t', f')" using amm_okD(2) [OF assms(1)] by (cases e) auto
  obtain xs p' s' t'' f'' ys st where es: "?es = xs @ (p', s', t'', f'') # ys" "s' \<le> 0" "0 < t''"
    and find: "amm_find_addr a 0 = Some (p', a\<lparr>stats := st, hint := loc xs\<rparr>)"
    using AMM_range unfolding AMM_MINADDR_def by (rule amm_find_addr_spec [OF assms(1)])
  have "(p', s', t'', f'') \<in> set ?es" unfolding es(1) by simp
  then have p': "p' = p" using tiles_unique [OF amm_okD(2) [OF assms(1)], of p 0 t f p' s' t'' f'' 0] es(2,3) t0 by simp
  let ?a = "a\<lparr>stats := st, hint := loc xs\<rparr>"
  have l: "amm_list a ([] @ (p, 0, t, f) # e # es)" "amm_list a ([(p, 0, t, f)] @ (q, t, t', f') # es)" using amm_okD(1) [OF assms(1)] e by simp_all
  note m = amm_list_mid(1,2) [OF l(1)] amm_list_mid(1,2) [OF l(2)]
  have "t \<noteq> 0" "\<not> t \<le> t + sz" using t0 assms(4) by auto
  moreover have "find_gen_loop sz AMM_FREE (NOT 0) 0 0 0 ?a p (loc xs) p 0 sz = find_gen_loop sz AMM_FREE (NOT 0) 0 0 0 ?a q (NextOf p) q t (t + sz)"
    using m e calculation assms(2) by (subst find_gen_loop.simps) simp
  ultimately have "find_gen_loop sz AMM_FREE (NOT 0) 0 0 0 ?a p (loc xs) p 0 sz = None"
    using m by (simp add: find_gen_loop.simps [of _ _ _ _ _ _ _ q])
  then show ?thesis using find p' assms(3)
    by (simp add: amm_allocate_def amm_find_gen_def AMM_MINADDR_def Let_def)
qed

theorem amm_allocate_panics_witness: "amm_allocate heap_env demo_map 0 0xFFFFF000 1 = None"
  by (rule amm_allocate_panics [OF demo_map_ok(1) [unfolded demo_spans_def]]) simp_all

end
