(* ===== verification/Ebitmap.thy ===== *)
theory Ebitmap
  imports Cstd
begin

text \<open>
  Extensible bitmaps, \<open>security/ebitmap.[ch]\<close>: a set of bit positions as a linked list of
  nodes of 64 bits each.  The list of nodes is an Isabelle list in chain
  order; positions are 32-bit words, as \<open>unsigned long\<close> and \<open>size_t\<close> are on the
  targets, so that \<open>startbit + MAPSIZE\<close> wraps where it does in the code.
\<close>

section \<open>Definitions\<close>

definition MAPSIZE :: u32 where
  "MAPSIZE = 64"

definition MAPBIT :: u64 where
  "MAPBIT = 1"

record ebitmap_node =
  startbit :: u32
  nmap :: u64

record ebitmap =
  nodes :: "ebitmap_node list"
  highbit :: u32

definition ebitmap_init :: ebitmap where
  "ebitmap_init = \<lparr>nodes = [], highbit = 0\<rparr>"

definition ebitmap_destroy :: "ebitmap \<Rightarrow> ebitmap" where
  "ebitmap_destroy e = e\<lparr>nodes := [], highbit := 0\<rparr>"

text \<open>The loop of \<open>ebitmap_or\<close>; \<open>None\<close> when the \<open>i\<close>-th \<open>malloc\<close> fails.\<close>

fun ebitmap_or_nodes ::
    "mallocs \<Rightarrow> nat \<Rightarrow> ebitmap_node list \<Rightarrow> ebitmap_node list \<Rightarrow> ebitmap_node list option" where
  "ebitmap_or_nodes ok i [] [] = Some []"
| "ebitmap_or_nodes ok i (n1 # r1) (n2 # r2) =
     (if \<not> ok i then None
      else if startbit n1 = startbit n2 then do {
        ns \<leftarrow> ebitmap_or_nodes ok (Suc i) r1 r2;
        Some (\<lparr>startbit = startbit n1, nmap = nmap n1 OR nmap n2\<rparr> # ns)
      }
      else if startbit n1 < startbit n2 then do {
        ns \<leftarrow> ebitmap_or_nodes ok (Suc i) r1 (n2 # r2);
        Some (\<lparr>startbit = startbit n1, nmap = nmap n1\<rparr> # ns)
      }
      else do {
        ns \<leftarrow> ebitmap_or_nodes ok (Suc i) (n1 # r1) r2;
        Some (\<lparr>startbit = startbit n2, nmap = nmap n2\<rparr> # ns)
      })"
| "ebitmap_or_nodes ok i (n1 # r1) [] =
     (if \<not> ok i then None
      else do {
        ns \<leftarrow> ebitmap_or_nodes ok (Suc i) r1 [];
        Some (\<lparr>startbit = startbit n1, nmap = nmap n1\<rparr> # ns)
      })"
| "ebitmap_or_nodes ok i [] (n2 # r2) =
     (if \<not> ok i then None
      else do {
        ns \<leftarrow> ebitmap_or_nodes ok (Suc i) [] r2;
        Some (\<lparr>startbit = startbit n2, nmap = nmap n2\<rparr> # ns)
      })"

definition ebitmap_or :: "mallocs \<Rightarrow> ebitmap \<Rightarrow> ebitmap \<Rightarrow> bool \<times> ebitmap" where
  "ebitmap_or ok e1 e2 =
     (case ebitmap_or_nodes ok 0 (nodes e1) (nodes e2) of
        None \<Rightarrow> (False, ebitmap_destroy ebitmap_init)
      | Some ns \<Rightarrow>
          (True, \<lparr>nodes = ns,
             highbit = (if highbit e1 > highbit e2 then highbit e1 else highbit e2)\<rparr>))"

fun ebitmap_cmp_nodes :: "ebitmap_node list \<Rightarrow> ebitmap_node list \<Rightarrow> bool" where
  "ebitmap_cmp_nodes (n1 # r1) (n2 # r2) =
     (if startbit n1 = startbit n2 \<and> nmap n1 = nmap n2 then ebitmap_cmp_nodes r1 r2 else False)"
| "ebitmap_cmp_nodes ns1 ns2 = (\<not> (ns1 \<noteq> [] \<or> ns2 \<noteq> []))"

definition ebitmap_cmp :: "ebitmap \<Rightarrow> ebitmap \<Rightarrow> bool" where
  "ebitmap_cmp e1 e2 =
     (if highbit e1 \<noteq> highbit e2 then False else ebitmap_cmp_nodes (nodes e1) (nodes e2))"

fun ebitmap_cpy_nodes :: "mallocs \<Rightarrow> nat \<Rightarrow> ebitmap_node list \<Rightarrow> ebitmap_node list option" where
  "ebitmap_cpy_nodes ok i [] = Some []"
| "ebitmap_cpy_nodes ok i (n # r) =
     (if \<not> ok i then None
      else do {
        ns \<leftarrow> ebitmap_cpy_nodes ok (Suc i) r;
        Some (\<lparr>startbit = startbit n, nmap = nmap n\<rparr> # ns)
      })"

definition ebitmap_cpy :: "mallocs \<Rightarrow> ebitmap \<Rightarrow> bool \<times> ebitmap" where
  "ebitmap_cpy ok src =
     (case ebitmap_cpy_nodes ok 0 (nodes src) of
        None \<Rightarrow> (False, ebitmap_destroy ebitmap_init)
      | Some ns \<Rightarrow> (True, \<lparr>nodes = ns, highbit = highbit src\<rparr>))"

fun ebitmap_contains_nodes :: "ebitmap_node list \<Rightarrow> ebitmap_node list \<Rightarrow> bool" where
  "ebitmap_contains_nodes (n1 # r1) (n2 # r2) =
     (if startbit n1 \<le> startbit n2 then
        if startbit n1 < startbit n2 then ebitmap_contains_nodes r1 (n2 # r2)
        else if nmap n1 AND nmap n2 \<noteq> nmap n2 then False
        else ebitmap_contains_nodes r1 r2
      else False)"
| "ebitmap_contains_nodes ns1 ns2 = (ns2 = [])"

definition ebitmap_contains :: "ebitmap \<Rightarrow> ebitmap \<Rightarrow> bool" where
  "ebitmap_contains e1 e2 =
     (if highbit e1 < highbit e2 then False else ebitmap_contains_nodes (nodes e1) (nodes e2))"

fun ebitmap_get_nodes :: "ebitmap_node list \<Rightarrow> u32 \<Rightarrow> bool" where
  "ebitmap_get_nodes [] b = False"
| "ebitmap_get_nodes (n # r) b =
     (if startbit n \<le> b then
        if startbit n + MAPSIZE > b
        then nmap n AND push_bit (unat (b - startbit n)) MAPBIT \<noteq> 0
        else ebitmap_get_nodes r b
      else False)"

definition ebitmap_get_bit :: "ebitmap \<Rightarrow> u32 \<Rightarrow> bool" where
  "ebitmap_get_bit e b = (if highbit e < b then False else ebitmap_get_nodes (nodes e) b)"

text \<open>The walk of \<open>ebitmap_set_bit\<close> with its \<open>prev\<close> pointer; the result is the return
  value, the new chain and the new \<open>highbit\<close>.\<close>

definition ebitmap_new_node :: "u32 \<Rightarrow> ebitmap_node" where
  "ebitmap_new_node b = (
     let start = b AND NOT (MAPSIZE - 1)
     in \<lparr>startbit = start, nmap = push_bit (unat (b - start)) MAPBIT\<rparr>)"

fun ebitmap_set_nodes ::
    "bool \<Rightarrow> u32 \<Rightarrow> bool \<Rightarrow> u32 \<Rightarrow> ebitmap_node option \<Rightarrow> ebitmap_node list
     \<Rightarrow> bool \<times> ebitmap_node list \<times> u32" where
  "ebitmap_set_nodes ok b value hb prev [] =
     (if \<not> value then (True, [], hb)
      else if \<not> ok then (False, [], hb)
      else (True, [ebitmap_new_node b], startbit (ebitmap_new_node b) + MAPSIZE))"
| "ebitmap_set_nodes ok b value hb prev (n # r) =
     (if startbit n \<le> b then
        if startbit n + MAPSIZE > b then
          if value
          then (True, n\<lparr>nmap := nmap n OR push_bit (unat (b - startbit n)) MAPBIT\<rparr> # r, hb)
          else
            let m = nmap n AND NOT (push_bit (unat (b - startbit n)) MAPBIT)
            in if m = 0
               then (True, r,
                 if r = []
                 then (case prev of Some p \<Rightarrow> startbit p + MAPSIZE | None \<Rightarrow> 0)
                 else hb)
               else (True, n\<lparr>nmap := m\<rparr> # r, hb)
        else
          let (res, ns, hb') = ebitmap_set_nodes ok b value hb (Some n) r
          in (res, n # ns, hb')
      else
        if \<not> value then (True, n # r, hb)
        else if \<not> ok then (False, n # r, hb)
        else (True, ebitmap_new_node b # n # r, hb))"

definition ebitmap_set_bit :: "bool \<Rightarrow> ebitmap \<Rightarrow> u32 \<Rightarrow> bool \<Rightarrow> bool \<times> ebitmap" where
  "ebitmap_set_bit ok e b value = (
     let (res, ns, hb) = ebitmap_set_nodes ok b value (highbit e) None (nodes e)
     in (res, \<lparr>nodes = ns, highbit = hb\<rparr>))"

text \<open>Reading a bitmap from a stream.  The result is what \<open>*e\<close> holds afterwards and, when
  the function returns \<open>TRUE\<close>, the rest of the stream.\<close>

fun ebitmap_read_nodes ::
    "mallocs \<Rightarrow> u32 \<Rightarrow> ebitmap_node option \<Rightarrow> nat \<Rightarrow> nat \<Rightarrow> byte list
     \<Rightarrow> (ebitmap_node list \<times> byte list) option" where
  "ebitmap_read_nodes ok hb l i 0 fp = Some ([], fp)"
| "ebitmap_read_nodes ok hb l i (Suc k) fp = do {
     (start, fp) \<leftarrow> fread32 fp;
     if \<not> ok i then None
     else if start AND (MAPSIZE - 1) \<noteq> 0 then None
     else if start > hb - MAPSIZE then None
     else do {
       (m, fp) \<leftarrow> fread64 fp;
       if m = 0 then None
       else if (case l of Some p \<Rightarrow> start \<le> startbit p | None \<Rightarrow> False) then None
       else do {
         let n = \<lparr>startbit = start, nmap = m\<rparr>;
         (ns, fp) \<leftarrow> ebitmap_read_nodes ok hb (Some n) (Suc i) k fp;
         Some (n # ns, fp)
       }
     }
   }"

definition ebitmap_read :: "mallocs \<Rightarrow> byte list \<Rightarrow> ebitmap \<times> byte list option" where
  "ebitmap_read ok fp =
     (case do {
        (mapsize, fp) \<leftarrow> fread32 fp;
        (hb, fp) \<leftarrow> fread32 fp;
        (count, fp) \<leftarrow> fread32 fp;
        Some (mapsize, hb, count, fp)
      } of
        None \<Rightarrow> (ebitmap_init, None)
      | Some (mapsize, hb, count, fp) \<Rightarrow>
          if mapsize \<noteq> MAPSIZE then (ebitmap_init\<lparr>highbit := hb\<rparr>, None)
          else if hb = 0 then (ebitmap_init, Some fp)
          else if hb AND (MAPSIZE - 1) \<noteq> 0 then (ebitmap_destroy (ebitmap_init\<lparr>highbit := hb\<rparr>), None)
          else
            case ebitmap_read_nodes ok hb None 0 (unat count) fp of
              None \<Rightarrow> (ebitmap_destroy (ebitmap_init\<lparr>highbit := hb\<rparr>), None)
            | Some (ns, fp) \<Rightarrow> (\<lparr>nodes = ns, highbit = hb\<rparr>, Some fp))"

text \<open>Writing a bitmap; \<open>ok\<close> says which of the \<open>fwrite\<close> calls succeed, \<open>None\<close> is the
  return value \<open>FALSE\<close>.\<close>

fun ebitmap_write_nodes :: "(nat \<Rightarrow> bool) \<Rightarrow> nat \<Rightarrow> ebitmap_node list \<Rightarrow> byte list option" where
  "ebitmap_write_nodes ok i [] = Some []"
| "ebitmap_write_nodes ok i (n # r) =
     (if \<not> ok i then None
      else if \<not> ok (Suc i) then None
      else do {
        out \<leftarrow> ebitmap_write_nodes ok (i + 2) r;
        Some (le32 (startbit n) @ le64 (nmap n) @ out)
      })"

definition ebitmap_write :: "(nat \<Rightarrow> bool) \<Rightarrow> ebitmap \<Rightarrow> byte list option" where
  "ebitmap_write ok e =
     (if \<not> ok 0 then None
      else do {
        out \<leftarrow> ebitmap_write_nodes ok 1 (nodes e);
        Some (le32 MAPSIZE @ le32 (highbit e) @ le32 (of_nat (length (nodes e))) @ out)
      })"

end
