(* ===== verification/Ebitmap_Set.thy ===== *)
theory Ebitmap_Set
  imports Ebitmap
begin

text \<open>
  Extensible bitmaps as sets of bit positions: the representation invariant, the
  abstraction, and the refinement of the set operations by the list operations.
\<close>

section \<open>Invariant and abstraction\<close>

abbreviation nstart :: "ebitmap_node \<Rightarrow> nat" where
  "nstart n \<equiv> unat (startbit n)"

definition node_bits :: "ebitmap_node \<Rightarrow> nat set" where
  "node_bits n = {b. nstart n \<le> b \<and> bit (nmap n) (b - nstart n)}"

definition nodes_bits :: "ebitmap_node list \<Rightarrow> nat set" where
  "nodes_bits ns = (\<Union>n\<in>set ns. node_bits n)"

definition ebits :: "ebitmap \<Rightarrow> nat set" where
  "ebits e = nodes_bits (nodes e)"

definition bnode_ok :: "ebitmap_node \<Rightarrow> bool" where
  "bnode_ok n \<longleftrightarrow> 64 dvd nstart n \<and> nstart n + 64 < 2 ^ 32 \<and> nmap n \<noteq> 0"

definition nodes_ok :: "ebitmap_node list \<Rightarrow> bool" where
  "nodes_ok ns \<longleftrightarrow> list_all bnode_ok ns \<and> sorted_wrt (\<lambda>a b. nstart a < nstart b) ns"

definition top_bit :: "ebitmap_node list \<Rightarrow> u32" where
  "top_bit ns = (if ns = [] then 0 else startbit (last ns) + MAPSIZE)"

definition ebitmap_inv :: "ebitmap \<Rightarrow> bool" where
  "ebitmap_inv e \<longleftrightarrow> nodes_ok (nodes e) \<and> highbit e = top_bit (nodes e)"

lemma unat_MAPSIZE [simp]: "unat MAPSIZE = 64"
  by (simp add: MAPSIZE_def)

lemma nodes_bits_simps [simp]:
  "nodes_bits [] = {}"
  "nodes_bits (n # ns) = node_bits n \<union> nodes_bits ns"
  "nodes_bits (ms @ ns) = nodes_bits ms \<union> nodes_bits ns"
  by (auto simp: nodes_bits_def)

lemma nodes_ok_Nil [simp]: "nodes_ok []"
  by (simp add: nodes_ok_def)

lemma nodes_ok_Cons:
  "nodes_ok (n # ns) \<longleftrightarrow> bnode_ok n \<and> (\<forall>m\<in>set ns. nstart n < nstart m) \<and> nodes_ok ns"
  by (auto simp: nodes_ok_def)

lemma nodes_ok_in: "nodes_ok ns \<Longrightarrow> n \<in> set ns \<Longrightarrow> bnode_ok n"
  by (auto simp: nodes_ok_def list_all_iff)

text \<open>A node covers the 64 positions from its start on.\<close>

lemma bit_u64: "bit (w :: u64) k \<Longrightarrow> k < 64"
  using bit_imp_le_length [of w k] by simp

lemma node_bits_range: "b \<in> node_bits n \<Longrightarrow> nstart n \<le> b \<and> b < nstart n + 64"
  by (auto simp: node_bits_def dest: bit_u64)

lemma nstart_step: "bnode_ok a \<Longrightarrow> bnode_ok b \<Longrightarrow> nstart a < nstart b \<Longrightarrow> nstart a + 64 \<le> nstart b"
  by (auto simp: bnode_ok_def intro: dvd_less_imp_add_le)

lemma nodes_bits_beyond:
  assumes "nodes_ok (n # ns)" "b \<in> nodes_bits ns"
  shows "nstart n + 64 \<le> b"
proof -
  obtain m where m: "m \<in> set ns" "b \<in> node_bits m" using assms(2) by (auto simp: nodes_bits_def)
  then have "nstart n + 64 \<le> nstart m"
    using assms(1) nodes_ok_in [of ns m] by (auto simp: nodes_ok_Cons intro!: nstart_step)
  then show ?thesis using node_bits_range [OF m(2)] by simp
qed

lemma node_bits_nonempty:
  assumes "bnode_ok n"
  obtains k where "k < 64" "nstart n + k \<in> node_bits n"
proof -
  obtain k where "bit (nmap n) k" using assms by (auto simp: bnode_ok_def bit_eq_iff)
  then show ?thesis using that [of k] bit_u64 by (auto simp: node_bits_def)
qed

lemma bit_test: "m AND push_bit k MAPBIT \<noteq> 0 \<longleftrightarrow> bit m k" for m :: u64
  by (auto simp: MAPBIT_def and_exp_eq_0_iff_not_bit push_bit_of_1)

lemma word_end:
  assumes "bnode_ok n"
  shows "unat (startbit n + MAPSIZE) = nstart n + 64"
  using assms by (simp add: bnode_ok_def unat_add_nowrap)

lemma in_node:
  assumes "bnode_ok n" "startbit n \<le> b" "startbit n + MAPSIZE > b"
  shows "bit (nmap n) (unat (b - startbit n)) \<longleftrightarrow> unat b \<in> node_bits n"
    "unat (b - startbit n) = unat b - nstart n" "nstart n \<le> unat b" "unat b < nstart n + 64"
  using assms word_end [OF assms(1)]
  by (auto simp: node_bits_def word_le_nat_alt word_less_nat_alt unat_diff_nowrap)

section \<open>Reading a bit\<close>

lemma ebitmap_get_nodes_iff:
  "nodes_ok ns \<Longrightarrow> ebitmap_get_nodes ns b \<longleftrightarrow> unat b \<in> nodes_bits ns"
proof (induction ns)
  case Nil
  then show ?case by simp
next
  case (Cons n ns)
  have n: "bnode_ok n" and ns: "nodes_ok ns" using Cons.prems by (auto simp: nodes_ok_Cons)
  note beyond = nodes_bits_beyond [OF Cons.prems, of "unat b"]
  consider (before) "\<not> startbit n \<le> b" | (here) "startbit n \<le> b" "startbit n + MAPSIZE > b"
    | (after) "startbit n \<le> b" "\<not> startbit n + MAPSIZE > b" by blast
  then show ?case
  proof cases
    case before
    then show ?thesis
      using beyond node_bits_range [of "unat b" n] by (auto simp: word_le_nat_alt)
  next
    case here
    then show ?thesis
      using in_node [OF n here] beyond by (auto simp: bit_test)
  next
    case after
    then have "unat b \<notin> node_bits n"
      using node_bits_range [of "unat b" n] word_end [OF n] by (auto simp: word_less_nat_alt)
    then show ?thesis using after Cons.IH [OF ns] by simp
  qed
qed

lemma nodes_bits_top:
  assumes "nodes_ok ns" "b \<in> nodes_bits ns"
  shows "b < unat (top_bit ns)"
  using assms
proof (induction ns)
  case Nil
  then show ?case by simp
next
  case (Cons n ns)
  have n: "bnode_ok n" and ns: "nodes_ok ns" using Cons.prems by (auto simp: nodes_ok_Cons)
  show ?case
  proof (cases "ns = []")
    case True
    then show ?thesis
      using Cons.prems(2) node_bits_range [of b n] word_end [OF n] by (auto simp: top_bit_def)
  next
    case False
    then have top: "top_bit (n # ns) = top_bit ns" by (simp add: top_bit_def)
    have "last ns \<in> set ns" using False by simp
    then have "unat (top_bit ns) = nstart (last ns) + 64" "nstart n < nstart (last ns)"
      using False Cons.prems(1) word_end nodes_ok_in [OF ns] by (auto simp: top_bit_def nodes_ok_Cons)
    then show ?thesis
      using Cons.prems(2) Cons.IH [OF ns] node_bits_range [of b n] by (auto simp: top)
  qed
qed

lemma ebitmap_get_bit_iff:
  assumes "ebitmap_inv e"
  shows "ebitmap_get_bit e b \<longleftrightarrow> unat b \<in> ebits e"
proof -
  have ok: "nodes_ok (nodes e)" and hb: "highbit e = top_bit (nodes e)"
    using assms by (auto simp: ebitmap_inv_def)
  show ?thesis
    using ebitmap_get_nodes_iff [OF ok, of b] nodes_bits_top [OF ok, of "unat b"]
    by (auto simp: ebitmap_get_bit_def ebits_def hb word_less_nat_alt)
qed

section \<open>Writing a bit\<close>

fun top_from :: "ebitmap_node option \<Rightarrow> ebitmap_node list \<Rightarrow> u32" where
  "top_from prev [] = (case prev of Some p \<Rightarrow> startbit p + MAPSIZE | None \<Rightarrow> 0)"
| "top_from prev (n # ns) = top_from (Some n) ns"

lemma top_from_last: "ns \<noteq> [] \<Longrightarrow> top_from prev ns = startbit (last ns) + MAPSIZE"
  by (induction prev ns rule: top_from.induct) (case_tac ns; simp)+

lemma top_bit_from: "top_bit ns = top_from None ns"
  using top_from_last [of ns None] by (cases ns) (auto simp: top_bit_def)

lemma top_from_prev: "ns \<noteq> [] \<Longrightarrow> top_from p ns = top_from q ns"
  by (simp add: top_from_last)

lemma MAPSIZE_mask: "MAPSIZE - 1 = mask 6"
  by (simp add: MAPSIZE_def mask_eq_exp_minus_1)

lemma unat_block_start: "unat (b AND NOT (MAPSIZE - 1)) = round_down 64 (unat b)"
  unfolding MAPSIZE_mask by (simp add: unat_and_not_mask round_down_def)

lemma bit_MAPBIT: "bit (push_bit k MAPBIT) j \<longleftrightarrow> j = k \<and> k < 64"
  by (auto simp: MAPBIT_def bit_simps)

lemma new_node:
  assumes "unat b + 64 < 2 ^ 32"
  shows "bnode_ok (ebitmap_new_node b)" "node_bits (ebitmap_new_node b) = {unat b}"
    "nstart (ebitmap_new_node b) = round_down 64 (unat b)"
proof -
  define s where "s = b AND NOT (MAPSIZE - 1)"
  have s: "unat s = round_down 64 (unat b)" unfolding s_def by (rule unat_block_start)
  have le: "unat s \<le> unat b" and d: "64 dvd unat s" and m: "unat b < unat s + 64"
    using round_down_le round_down_dvd round_down_mod [of 64 "unat b"] s
    by (auto simp: round_down_def)
  have node: "ebitmap_new_node b = \<lparr>startbit = s, nmap = push_bit (unat b - unat s) MAPBIT\<rparr>"
    using le by (simp add: ebitmap_new_node_def s_def [symmetric] unat_diff_nowrap)
  show "nstart (ebitmap_new_node b) = round_down 64 (unat b)" by (simp add: node s)
  have k: "unat b - unat s < 64" using m le by linarith
  have "bit (push_bit (unat b - unat s) MAPBIT) (unat b - unat s)" using k by (simp add: bit_MAPBIT)
  then have "push_bit (unat b - unat s) MAPBIT \<noteq> 0" by auto
  then show "bnode_ok (ebitmap_new_node b)" using d le assms by (simp add: bnode_ok_def node)
  show "node_bits (ebitmap_new_node b) = {unat b}" using le k by (auto simp: node_bits_def node bit_MAPBIT)
qed

definition covered :: "ebitmap_node list \<Rightarrow> nat \<Rightarrow> bool" where
  "covered ns b \<longleftrightarrow> round_down 64 b \<in> nstart ` set ns"

definition bits_upd :: "nat set \<Rightarrow> nat \<Rightarrow> bool \<Rightarrow> nat set" where
  "bits_upd B b v = (if v then insert b B else B - {b})"

text \<open>What \<open>ebitmap_set_bit\<close> leaves behind on a chain.\<close>

definition set_outcome ::
    "bool \<Rightarrow> nat \<Rightarrow> bool \<Rightarrow> ebitmap_node option \<Rightarrow> ebitmap_node list \<Rightarrow>
     bool \<times> ebitmap_node list \<times> u32 \<Rightarrow> bool" where
  "set_outcome ok b v prev ns out \<longleftrightarrow> (case out of (res, ns', hb') \<Rightarrow>
     (res \<longleftrightarrow> \<not> v \<or> ok \<or> covered ns b) \<and>
     nodes_ok ns' \<and> hb' = top_from prev ns' \<and>
     nstart ` set ns' \<subseteq> insert (round_down 64 b) (nstart ` set ns) \<and>
     nodes_bits ns' = (if res then bits_upd (nodes_bits ns) b v else nodes_bits ns) \<and>
     (\<not> res \<longrightarrow> ns' = ns))"

lemma block_of:
  assumes "bnode_ok n" "nstart n \<le> b"
  shows "nstart n \<le> round_down 64 b" "b < nstart n + 64 \<Longrightarrow> round_down 64 b = nstart n"
    "nstart n + 64 \<le> b \<Longrightarrow> nstart n + 64 \<le> round_down 64 b"
proof -
  have d: "64 dvd nstart n" using assms(1) by (simp add: bnode_ok_def)
  show le: "nstart n \<le> round_down 64 b" using d assms(2) by (intro round_down_greatest) auto
  show "nstart n + 64 \<le> round_down 64 b" if "nstart n + 64 \<le> b"
    using d that by (intro round_down_greatest) auto
  show "round_down 64 b = nstart n" if "b < nstart n + 64"
  proof (rule ccontr)
    assume "round_down 64 b \<noteq> nstart n"
    with le have "nstart n + 64 \<le> round_down 64 b"
      by (intro dvd_less_imp_add_le) (auto simp: d round_down_dvd)
    then show False using that round_down_le [of 64 b] by linarith
  qed
qed

text \<open>Changing one bit of a node.\<close>

lemma node_bits_or:
  assumes "nstart n \<le> b" "b < nstart n + 64"
  shows "node_bits (n\<lparr>nmap := nmap n OR push_bit (b - nstart n) MAPBIT\<rparr>) = insert b (node_bits n)"
  using assms by (auto simp: node_bits_def bit_or_iff bit_MAPBIT)

lemma node_bits_and:
  assumes "nstart n \<le> b"
  shows "node_bits (n\<lparr>nmap := nmap n AND NOT (push_bit (b - nstart n) MAPBIT)\<rparr>) = node_bits n - {b}"
  using assms by (auto simp: node_bits_def bit_and_iff bit_not_iff bit_MAPBIT dest: bit_u64)

lemma node_bits_zero: "nmap n = 0 \<Longrightarrow> node_bits n = {}"
  by (simp add: node_bits_def)

lemma not_covered_before:
  assumes "nodes_ok (n # ns)" "b < nstart n"
  shows "\<not> covered (n # ns) b" "b \<notin> nodes_bits (n # ns)"
proof -
  have lt: "b < nstart m" if "m \<in> set (n # ns)" for m using assms that by (auto simp: nodes_ok_Cons)
  then show "\<not> covered (n # ns) b" using round_down_le [of 64 b] by (fastforce simp: covered_def)
  have "b \<notin> node_bits m" if "m \<in> set (n # ns)" for m
    using lt [OF that] node_bits_range [of b m] by auto
  then show "b \<notin> nodes_bits (n # ns)" by (auto simp: nodes_bits_def)
qed

lemma set_before:
  assumes ok: "nodes_ok (n # ns)" and b: "unat b < nstart n" "unat b + 64 < 2 ^ 32"
  shows "set_outcome ok' (unat b) v prev (n # ns)
    (if \<not> v then (True, n # ns, top_from prev (n # ns))
     else if \<not> ok' then (False, n # ns, top_from prev (n # ns))
     else (True, ebitmap_new_node b # n # ns, top_from prev (n # ns)))"
proof -
  have start: "nstart (ebitmap_new_node b) < nstart m" if "m \<in> set (n # ns)" for m
    using that ok b round_down_le [of 64 "unat b"] new_node(3) [OF b(2)]
    by (auto simp: nodes_ok_Cons)
  then have "nodes_ok (ebitmap_new_node b # n # ns)"
    using ok new_node(1) [OF b(2)] by (simp add: nodes_ok_Cons)
  then show ?thesis
    using ok not_covered_before [OF ok b(1)] new_node [OF b(2)]
    by (auto simp: set_outcome_def bits_upd_def)
qed

lemma set_here:
  assumes ok: "nodes_ok (n # ns)" and here: "startbit n \<le> b" "startbit n + MAPSIZE > b"
    and hb: "hb = top_from prev (n # ns)"
  shows "set_outcome ok' (unat b) v prev (n # ns) (ebitmap_set_nodes ok' b v hb prev (n # ns))"
proof -
  have n: "bnode_ok n" and ns: "nodes_ok ns" using ok by (auto simp: nodes_ok_Cons)
  note h = in_node [OF n here]
  have cov: "covered (n # ns) (unat b)" using block_of(2) [OF n h(3,4)] by (simp add: covered_def)
  have rest: "unat b \<notin> nodes_bits ns" using nodes_bits_beyond [OF ok, of "unat b"] h(4) by auto
  have keep: "nodes_ok (n\<lparr>nmap := m\<rparr> # ns)" "top_from prev (n\<lparr>nmap := m\<rparr> # ns) = hb" if "m \<noteq> 0" for m
    using ok that hb by (auto simp: nodes_ok_Cons bnode_ok_def top_from_last) (cases ns; simp)
  show ?thesis
  proof (cases v)
    case True
    have "bit (nmap n OR push_bit (unat b - nstart n) MAPBIT) (unat b - nstart n)"
      using h(3,4) by (auto simp: bit_or_iff bit_MAPBIT)
    then have "nmap n OR push_bit (unat b - nstart n) MAPBIT \<noteq> 0" by auto
    then show ?thesis
      using True here cov keep node_bits_or [OF h(3,4)] by (auto simp: set_outcome_def bits_upd_def h(2))
  next
    case False
    define m where "m = nmap n AND NOT (push_bit (unat b - nstart n) MAPBIT)"
    have bits: "node_bits (n\<lparr>nmap := m\<rparr>) = node_bits n - {unat b}"
      unfolding m_def by (rule node_bits_and [OF h(3)])
    show ?thesis
    proof (cases "m = 0")
      case True
      then have "node_bits n - {unat b} = {}" using bits node_bits_zero [of "n\<lparr>nmap := m\<rparr>"] by simp
      moreover have "(if ns = [] then case prev of Some p \<Rightarrow> startbit p + MAPSIZE | None \<Rightarrow> 0 else hb) =
          top_from prev ns"
        using hb top_from_prev [of ns "Some n" prev] by auto
      ultimately show ?thesis
        using True False here cov rest ns
        by (auto simp: set_outcome_def bits_upd_def Let_def h(2) m_def)
    next
      case m: False
      then show ?thesis
        using False here cov keep [OF m] bits rest
        by (auto simp: set_outcome_def bits_upd_def Let_def h(2) m_def)
    qed
  qed
qed

lemma set_after:
  assumes ok: "nodes_ok (n # ns)" and b: "nstart n + 64 \<le> unat b"
    and out: "set_outcome ok' (unat b) v (Some n) ns (res, ns', hb')"
  shows "set_outcome ok' (unat b) v prev (n # ns) (res, n # ns', hb')"
proof -
  have n: "bnode_ok n" using ok by (simp add: nodes_ok_Cons)
  have start: "nstart n + 64 \<le> round_down 64 (unat b)" using block_of(3) [OF n _ b] b by simp
  then have cov: "covered (n # ns) (unat b) \<longleftrightarrow> covered ns (unat b)" by (auto simp: covered_def)
  have "unat b \<notin> node_bits n" using node_bits_range [of "unat b" n] b by auto
  moreover have "nodes_ok (n # ns')"
    using ok out start by (fastforce simp: set_outcome_def nodes_ok_Cons)
  ultimately show ?thesis
    using out cov by (auto simp: set_outcome_def bits_upd_def)
qed

lemma ebitmap_set_nodes_ok:
  assumes "nodes_ok ns" "unat b + 64 < 2 ^ 32" "hb = top_from prev ns"
  shows "set_outcome ok' (unat b) v prev ns (ebitmap_set_nodes ok' b v hb prev ns)"
  using assms
proof (induction ns arbitrary: prev)
  case Nil
  then show ?case
    using new_node [OF Nil.prems(2)] by (auto simp: set_outcome_def covered_def bits_upd_def nodes_ok_Cons)
next
  case (Cons n ns)
  have n: "bnode_ok n" and ns: "nodes_ok ns" using Cons.prems(1) by (auto simp: nodes_ok_Cons)
  consider (before) "\<not> startbit n \<le> b" | (here) "startbit n \<le> b" "startbit n + MAPSIZE > b"
    | (after) "startbit n \<le> b" "\<not> startbit n + MAPSIZE > b" by blast
  then show ?case
  proof cases
    case before
    then have "unat b < nstart n" by (simp add: word_le_nat_alt)
    from set_before [OF Cons.prems(1) this Cons.prems(2), of ok' v prev] show ?thesis
      using before Cons.prems(3) by (auto split: if_splits)
  next
    case here
    then show ?thesis by (rule set_here [OF Cons.prems(1) _ _ Cons.prems(3)])
  next
    case after
    obtain res ns' hb' where out: "ebitmap_set_nodes ok' b v hb (Some n) ns = (res, ns', hb')"
      by (metis prod_cases3)
    then have "set_outcome ok' (unat b) v (Some n) ns (res, ns', hb')"
      using Cons.IH [OF ns Cons.prems(2), of "Some n"] Cons.prems(3) by simp
    moreover have "nstart n + 64 \<le> unat b" using after word_end [OF n] by (simp add: word_less_nat_alt)
    ultimately show ?thesis using set_after [OF Cons.prems(1)] after out by simp
  qed
qed

lemma ebitmap_set_bit_spec:
  assumes "ebitmap_inv e" "unat b + 64 < 2 ^ 32" "ebitmap_set_bit ok e b v = (res, e')"
  shows "res \<longleftrightarrow> \<not> v \<or> ok \<or> covered (nodes e) (unat b)" "ebitmap_inv e'"
    "ebits e' = (if res then bits_upd (ebits e) (unat b) v else ebits e)" "\<not> res \<Longrightarrow> e' = e"
proof -
  have inv: "nodes_ok (nodes e)" "highbit e = top_from None (nodes e)"
    using assms(1) by (auto simp: ebitmap_inv_def top_bit_from)
  obtain ns hb where out: "ebitmap_set_nodes ok b v (highbit e) None (nodes e) = (res, ns, hb)"
    and e': "e' = \<lparr>nodes = ns, highbit = hb\<rparr>"
    using assms(3) by (auto simp: ebitmap_set_bit_def split: prod.splits)
  have o: "set_outcome ok (unat b) v None (nodes e) (res, ns, hb)"
    using ebitmap_set_nodes_ok [OF inv(1) assms(2) inv(2), of ok v] out by simp
  then show "res \<longleftrightarrow> \<not> v \<or> ok \<or> covered (nodes e) (unat b)" "ebitmap_inv e'"
    "ebits e' = (if res then bits_upd (ebits e) (unat b) v else ebits e)"
    by (auto simp: set_outcome_def ebitmap_inv_def top_bit_from e' ebits_def)
  show "\<not> res \<Longrightarrow> e' = e"
    using o inv(2) unfolding e' by (cases e) (auto simp: set_outcome_def)
qed

section \<open>The node list is determined by the set\<close>

lemma nodes_strict: "nodes_ok ns \<Longrightarrow> sorted (map nstart ns) \<and> distinct (map nstart ns)"
  by (induction ns) (auto simp: nodes_ok_Cons less_imp_le)

lemma nodes_disjoint:
  assumes "nodes_ok ns" "m \<in> set ns" "n \<in> set ns" "b \<in> node_bits m" "nstart n \<le> b" "b < nstart n + 64"
  shows "m = n"
proof -
  have ok: "bnode_ok m" "bnode_ok n" using assms nodes_ok_in by auto
  have "round_down 64 b = nstart m" "round_down 64 b = nstart n"
    using node_bits_range [OF assms(4)] block_of(2) [OF ok(1)] block_of(2) [OF ok(2) assms(5,6)] by auto
  then have eq: "nstart m = nstart n" by simp
  have "distinct (map nstart ns)" using nodes_strict [OF assms(1)] by simp
  then show ?thesis using assms(2,3) eq by (simp add: distinct_map inj_on_def)
qed

lemma bit_nmap:
  assumes "nodes_ok ns" "n \<in> set ns" "k < 64"
  shows "bit (nmap n) k \<longleftrightarrow> nstart n + k \<in> nodes_bits ns"
proof
  assume "bit (nmap n) k"
  then have "nstart n + k \<in> node_bits n" by (simp add: node_bits_def)
  then show "nstart n + k \<in> nodes_bits ns" using assms(2) unfolding nodes_bits_def by blast
next
  assume "nstart n + k \<in> nodes_bits ns"
  then obtain m where m: "m \<in> set ns" "nstart n + k \<in> node_bits m" by (auto simp: nodes_bits_def)
  then have "m = n" using nodes_disjoint [OF assms(1) m(1) assms(2) m(2)] assms(3) by simp
  then show "bit (nmap n) k" using m(2) by (simp add: node_bits_def)
qed

lemma starts_of_bits:
  assumes "nodes_ok ns"
  shows "nstart ` set ns = round_down 64 ` nodes_bits ns"
proof
  show "nstart ` set ns \<subseteq> round_down 64 ` nodes_bits ns"
  proof
    fix s assume "s \<in> nstart ` set ns"
    then obtain n where n: "n \<in> set ns" "s = nstart n" by auto
    then obtain k where k: "k < 64" "nstart n + k \<in> node_bits n"
      using node_bits_nonempty nodes_ok_in [OF assms] by metis
    moreover have "round_down 64 (nstart n + k) = nstart n"
      using block_of(2) [OF nodes_ok_in [OF assms n(1)]] k(1) by simp
    ultimately show "s \<in> round_down 64 ` nodes_bits ns"
      using n by (auto simp: nodes_bits_def intro!: image_eqI [of _ _ "nstart n + k"])
  qed
  show "round_down 64 ` nodes_bits ns \<subseteq> nstart ` set ns"
  proof
    fix s assume "s \<in> round_down 64 ` nodes_bits ns"
    then obtain n b where n: "n \<in> set ns" "b \<in> node_bits n" "s = round_down 64 b"
      by (auto simp: nodes_bits_def)
    then have "s = nstart n"
      using block_of(2) [OF nodes_ok_in [OF assms n(1)]] node_bits_range [OF n(2)] by simp
    then show "s \<in> nstart ` set ns" using n(1) by simp
  qed
qed

lemma nodes_unique:
  assumes x: "nodes_ok xs" and y: "nodes_ok ys" and eq: "nodes_bits xs = nodes_bits ys"
  shows "xs = ys"
proof -
  have starts: "map nstart xs = map nstart ys"
  proof (rule sorted_distinct_set_unique)
    show "set (map nstart xs) = set (map nstart ys)" using starts_of_bits [OF x] starts_of_bits [OF y] eq by simp
  qed (use nodes_strict [OF x] nodes_strict [OF y] in simp_all)
  show ?thesis
  proof (rule nth_equalityI)
    show "length xs = length ys" using map_eq_imp_length_eq [OF starts] .
    fix i assume i: "i < length xs"
    then have iy: "i < length ys" using map_eq_imp_length_eq [OF starts] by simp
    have s: "nstart (xs ! i) = nstart (ys ! i)" using starts i iy by (metis nth_map)
    have "nmap (xs ! i) = nmap (ys ! i)"
      by (rule bit_word_eqI) (use bit_nmap [OF x nth_mem [OF i]] bit_nmap [OF y nth_mem [OF iy]] s eq in simp)
    then show "xs ! i = ys ! i" using s by (cases "xs ! i"; cases "ys ! i") (simp add: u32_eq_iff_unat)
  qed
qed

lemma top_bit_Max:
  assumes "nodes_ok ns" "ns \<noteq> []"
  shows "unat (top_bit ns) = Max (nstart ` set ns) + 64"
proof -
  have last: "last ns \<in> set ns" using assms(2) by simp
  have "nstart n \<le> nstart (last ns)" if "n \<in> set ns" for n
    using assms that by (induction ns) (auto simp: nodes_ok_Cons less_imp_le split: if_splits)
  then have "Max (nstart ` set ns) = nstart (last ns)" using last by (intro Max_eqI) auto
  then show ?thesis using assms word_end [OF nodes_ok_in [OF assms(1) last]] by (simp add: top_bit_def)
qed

lemma top_bit_mono:
  assumes "nodes_ok xs" "nodes_ok ys" "nodes_bits ys \<subseteq> nodes_bits xs"
  shows "unat (top_bit ys) \<le> unat (top_bit xs)"
proof (cases "ys = []")
  case True
  then show ?thesis by (simp add: top_bit_def)
next
  case False
  have sub: "nstart ` set ys \<subseteq> nstart ` set xs"
    unfolding starts_of_bits [OF assms(1)] starts_of_bits [OF assms(2)] using assms(3) by blast
  then have "xs \<noteq> []" using False by auto
  then show ?thesis
    using sub False top_bit_Max [OF assms(1)] top_bit_Max [OF assms(2)] Max_mono [OF sub] by simp
qed

section \<open>Comparison, inclusion, union, copy\<close>

lemma ebitmap_cmp_nodes_eq: "ebitmap_cmp_nodes xs ys \<longleftrightarrow> xs = ys"
proof (induction xs ys rule: ebitmap_cmp_nodes.induct)
  case (1 n1 r1 n2 r2)
  then show ?case by (cases n1; cases n2) auto
qed auto

lemma ebitmap_cmp_iff:
  assumes "ebitmap_inv e1" "ebitmap_inv e2"
  shows "ebitmap_cmp e1 e2 \<longleftrightarrow> ebits e1 = ebits e2"
  using assms nodes_unique [of "nodes e1" "nodes e2"]
  by (auto simp: ebitmap_cmp_def ebitmap_cmp_nodes_eq ebits_def ebitmap_inv_def)

lemma and_subset: "m AND w = w \<longleftrightarrow> (\<forall>k. bit w k \<longrightarrow> bit m k)" for m w :: u64
  by (auto simp: bit_eq_iff bit_and_iff dest: bit_u64)

lemma nodes_bits_empty_iff: "nodes_ok ns \<Longrightarrow> nodes_bits ns = {} \<longleftrightarrow> ns = []"
  using starts_of_bits [of ns] by (cases ns) auto

lemma ebitmap_contains_nodes_iff:
  "nodes_ok xs \<Longrightarrow> nodes_ok ys \<Longrightarrow> ebitmap_contains_nodes xs ys \<longleftrightarrow> nodes_bits ys \<subseteq> nodes_bits xs"
proof (induction xs ys rule: ebitmap_contains_nodes.induct)
  case (1 x xs y ys)
  have x: "bnode_ok x" "nodes_ok xs" and y: "bnode_ok y" "nodes_ok ys" using "1.prems" by (auto simp: nodes_ok_Cons)
  note bx = nodes_bits_beyond [OF "1.prems"(1)] and by' = nodes_bits_beyond [OF "1.prems"(2)]
  consider (lt) "startbit x < startbit y" | (eq) "startbit x = startbit y" | (gt) "startbit x > startbit y"
    using less_linear by blast
  then show ?case
  proof cases
    case lt
    then have "nstart x + 64 \<le> nstart y" using nstart_step [OF x(1) y(1)] by (simp add: word_less_nat_alt)
    then have "node_bits x \<inter> nodes_bits (y # ys) = {}"
      using node_bits_range [of _ x] node_bits_range [of _ y] by' by fastforce
    then have "nodes_bits (y # ys) \<subseteq> nodes_bits (x # xs) \<longleftrightarrow> nodes_bits (y # ys) \<subseteq> nodes_bits xs" by auto
    then show ?thesis using lt less_imp_le [OF lt] "1.IH"(1) x(2) "1.prems"(2) by simp
  next
    case eq
    have "node_bits y \<inter> nodes_bits xs = {}" "node_bits x \<inter> nodes_bits ys = {}"
      using node_bits_range [of _ x] node_bits_range [of _ y] bx by' eq by fastforce+
    then have "nodes_bits (y # ys) \<subseteq> nodes_bits (x # xs) \<longleftrightarrow>
        node_bits y \<subseteq> node_bits x \<and> nodes_bits ys \<subseteq> nodes_bits xs" by auto
    moreover have "node_bits y \<subseteq> node_bits x \<longleftrightarrow> nmap x AND nmap y = nmap y"
    proof -
      have "bit (nmap x) k" if "node_bits y \<subseteq> node_bits x" "bit (nmap y) k" for k
        using that eq by (auto simp: node_bits_def subset_iff dest!: spec [of _ "nstart y + k"])
      then show ?thesis unfolding and_subset using eq by (auto simp: node_bits_def)
    qed
    ultimately show ?thesis using eq "1.IH"(2) x(2) y(2) by simp
  next
    case gt
    then have "nstart y + 64 \<le> nstart x" using nstart_step [OF y(1) x(1)] by (simp add: word_less_nat_alt)
    moreover obtain k where "k < 64" "nstart y + k \<in> node_bits y" using node_bits_nonempty [OF y(1)] .
    ultimately have "\<not> nodes_bits (y # ys) \<subseteq> nodes_bits (x # xs)"
      using node_bits_range [of _ x] bx by fastforce
    moreover have "\<not> startbit x \<le> startbit y" using gt by auto
    ultimately show ?thesis by simp
  qed
qed (simp_all add: nodes_bits_empty_iff)

lemma ebitmap_contains_iff:
  assumes "ebitmap_inv e1" "ebitmap_inv e2"
  shows "ebitmap_contains e1 e2 \<longleftrightarrow> ebits e2 \<subseteq> ebits e1"
  using assms ebitmap_contains_nodes_iff [of "nodes e1" "nodes e2"] top_bit_mono [of "nodes e1" "nodes e2"]
  by (auto simp: ebitmap_contains_def ebits_def ebitmap_inv_def word_less_nat_alt)

lemma ebitmap_or_nodes_total: "(\<And>j. ok j) \<Longrightarrow> \<exists>ns. ebitmap_or_nodes ok i xs ys = Some ns"
  by (induction ok i xs ys rule: ebitmap_or_nodes.induct) auto

lemma ebitmap_or_nodes_Nil:
  "ebitmap_or_nodes ok i xs [] = Some ns \<Longrightarrow> ns = xs"
  "ebitmap_or_nodes ok i [] xs = Some ns \<Longrightarrow> ns = xs"
  by (induction xs arbitrary: i ns) (auto split: if_splits bind_splits)

lemma node_rebuild [simp]: "\<lparr>startbit = startbit n, nmap = nmap n\<rparr> = n"
  by simp

lemma starts_above:
  assumes "nstart ` R = nstart ` A \<union> nstart ` B" "\<forall>m\<in>A. k < nstart m" "\<forall>m\<in>B. k < nstart m"
  shows "\<forall>m\<in>R. k < nstart m"
proof -
  have "\<forall>y\<in>nstart ` R. k < y" unfolding assms(1) using assms(2,3) by auto
  then show ?thesis by simp
qed

lemma ebitmap_or_nodes_ok:
  assumes "nodes_ok xs" "nodes_ok ys" "ebitmap_or_nodes ok i xs ys = Some ns"
  shows "nodes_ok ns \<and> nodes_bits ns = nodes_bits xs \<union> nodes_bits ys \<and>
    nstart ` set ns = nstart ` set xs \<union> nstart ` set ys"
  using assms
proof (induction ok i xs ys arbitrary: ns rule: ebitmap_or_nodes.induct)
  case (2 ok i x xs y ys)
  have x: "bnode_ok x" "nodes_ok xs" and y: "bnode_ok y" "nodes_ok ys"
    and xs: "\<forall>m\<in>set xs. nstart x < nstart m" and ys: "\<forall>m\<in>set ys. nstart y < nstart m"
    using "2.prems"(1,2) by (auto simp: nodes_ok_Cons)
  have ok: "ok i" using "2.prems"(3) by (auto split: if_splits)
  consider (eq) "startbit x = startbit y" | (lt) "startbit x < startbit y" "startbit x \<noteq> startbit y"
    | (gt) "startbit y < startbit x" "\<not> startbit x < startbit y" "startbit x \<noteq> startbit y"
    by (metis less_linear less_asym)
  then show ?case
  proof cases
    case eq
    then obtain r where r: "ebitmap_or_nodes ok (Suc i) xs ys = Some r"
      "ns = \<lparr>startbit = startbit x, nmap = nmap x OR nmap y\<rparr> # r"
      using "2.prems"(3) ok by (auto split: bind_splits)
    have IH: "nodes_ok r" "nodes_bits r = nodes_bits xs \<union> nodes_bits ys"
      "nstart ` set r = nstart ` set xs \<union> nstart ` set ys"
      using "2.IH"(1) [OF _ eq x(2) y(2) r(1)] ok by auto
    have "nmap x OR nmap y \<noteq> 0" using x(1) by (auto simp: bnode_ok_def bit_eq_iff bit_or_iff)
    moreover have "\<forall>m\<in>set r. nstart x < nstart m"
      using starts_above [OF IH(3), of "nstart x"] xs ys eq by simp
    ultimately have "nodes_ok ns" using x(1) IH(1) by (simp add: r(2) nodes_ok_Cons bnode_ok_def)
    moreover have "node_bits \<lparr>startbit = startbit x, nmap = nmap x OR nmap y\<rparr> = node_bits x \<union> node_bits y"
      using eq by (auto simp: node_bits_def bit_or_iff)
    ultimately show ?thesis using IH eq by (auto simp: r(2))
  next
    case lt
    then obtain r where r: "ebitmap_or_nodes ok (Suc i) xs (y # ys) = Some r" "ns = x # r"
      using "2.prems"(3) ok by (auto split: bind_splits)
    have IH: "nodes_ok r" "nodes_bits r = nodes_bits xs \<union> nodes_bits (y # ys)"
      "nstart ` set r = nstart ` set xs \<union> nstart ` set (y # ys)"
      using "2.IH"(2) [OF _ lt(2,1) x(2) "2.prems"(2) r(1)] ok by auto
    have above: "\<forall>m\<in>set (y # ys). nstart x < nstart m" using lt(1) ys by (auto simp: word_less_nat_alt)
    have "\<forall>m\<in>set r. nstart x < nstart m" by (rule starts_above [OF IH(3) xs above])
    then show ?thesis using x(1) IH by (auto simp: r(2) nodes_ok_Cons)
  next
    case gt
    then obtain r where r: "ebitmap_or_nodes ok (Suc i) (x # xs) ys = Some r" "ns = y # r"
      using "2.prems"(3) ok by (auto split: bind_splits)
    have IH: "nodes_ok r" "nodes_bits r = nodes_bits (x # xs) \<union> nodes_bits ys"
      "nstart ` set r = nstart ` set (x # xs) \<union> nstart ` set ys"
      using "2.IH"(3) [OF _ gt(3,2) "2.prems"(1) y(2) r(1)] ok by auto
    have above: "\<forall>m\<in>set (x # xs). nstart y < nstart m" using gt(1) xs by (auto simp: word_less_nat_alt)
    have "\<forall>m\<in>set r. nstart y < nstart m" by (rule starts_above [OF IH(3) above ys])
    then show ?thesis using y(1) IH by (auto simp: r(2) nodes_ok_Cons)
  qed
next
  case (3 ok i x xs)
  from ebitmap_or_nodes_Nil(1) [OF "3.prems"(3)] show ?case using "3.prems"(1) by simp
next
  case (4 ok i y ys)
  from ebitmap_or_nodes_Nil(2) [OF "4.prems"(3)] show ?case using "4.prems"(2) by simp
qed auto

lemma ebitmap_or_spec:
  assumes "ebitmap_inv e1" "ebitmap_inv e2" "ebitmap_or ok e1 e2 = (res, e)"
  shows "ebitmap_inv e" "ebits e = (if res then ebits e1 \<union> ebits e2 else {})" "(\<And>j. ok j) \<Longrightarrow> res"
proof -
  have inv: "nodes_ok (nodes e1)" "nodes_ok (nodes e2)"
    and hb: "highbit e1 = top_bit (nodes e1)" "highbit e2 = top_bit (nodes e2)"
    using assms by (auto simp: ebitmap_inv_def)
  show "(\<And>j. ok j) \<Longrightarrow> res"
    using assms(3) ebitmap_or_nodes_total [of ok 0 "nodes e1" "nodes e2"]
    by (auto simp: ebitmap_or_def split: option.splits)
  have "ebitmap_inv e \<and> ebits e = (if res then ebits e1 \<union> ebits e2 else {})"
  proof (cases "ebitmap_or_nodes ok 0 (nodes e1) (nodes e2)")
    case None
    then show ?thesis
      using assms(3) by (auto simp: ebitmap_or_def ebitmap_destroy_def ebitmap_inv_def top_bit_def ebits_def)
  next
    case (Some ns)
    note or = ebitmap_or_nodes_ok [OF inv Some]
    have "unat (top_bit ns) = max (unat (top_bit (nodes e1))) (unat (top_bit (nodes e2)))"
      using or top_bit_Max [of ns] top_bit_Max [OF inv(1)] top_bit_Max [OF inv(2)]
        Max_Un [of "nstart ` set (nodes e1)" "nstart ` set (nodes e2)"]
      by (cases "nodes e1 = []"; cases "nodes e2 = []") (auto simp: top_bit_def max_def)
    then have "top_bit ns = (if highbit e1 > highbit e2 then highbit e1 else highbit e2)"
      by (auto simp: hb word_less_nat_alt u32_eq_iff_unat max_def)
    then show ?thesis
      using or assms(3) Some by (auto simp: ebitmap_or_def ebitmap_inv_def ebits_def)
  qed
  then show "ebitmap_inv e" "ebits e = (if res then ebits e1 \<union> ebits e2 else {})" by auto
qed

lemma ebitmap_cpy_nodes_id: "ebitmap_cpy_nodes ok i ns = Some ms \<Longrightarrow> ms = ns"
  by (induction ns arbitrary: i ms) (auto split: if_splits bind_splits)

lemma ebitmap_cpy_nodes_total: "(\<And>j. ok j) \<Longrightarrow> \<exists>ms. ebitmap_cpy_nodes ok i ns = Some ms"
proof (induction ns arbitrary: i)
  case (Cons n ns)
  then obtain ms where "ebitmap_cpy_nodes ok (Suc i) ns = Some ms" by blast
  then show ?case using Cons.prems [of i] by simp
qed simp

lemma ebitmap_cpy_spec:
  assumes "ebitmap_cpy ok e = (res, e')"
  shows "e' = (if res then e else ebitmap_init)" "(\<And>j. ok j) \<Longrightarrow> res"
  using assms ebitmap_cpy_nodes_total [of ok 0 "nodes e"]
  by (cases e; auto simp: ebitmap_cpy_def ebitmap_destroy_def ebitmap_init_def dest: ebitmap_cpy_nodes_id split: option.splits)+

section \<open>The stored form\<close>

lemma aligned_64: "s AND (MAPSIZE - 1) = 0 \<longleftrightarrow> 64 dvd unat s"
  unfolding MAPSIZE_mask by (simp add: u32_eq_iff_unat unat_and_mask dvd_eq_mod_eq_0)

lemma nodes_length:
  assumes "nodes_ok ns"
  shows "length ns < 2 ^ 32"
proof -
  have "nstart ` set ns \<subseteq> {..<2 ^ 32 - 64}"
    using nodes_ok_in [OF assms] by (auto simp: bnode_ok_def)
  then have "card (nstart ` set ns) \<le> 2 ^ 32 - 64" using card_mono [of "{..<2 ^ 32 - 64::nat}"] by simp
  moreover have "card (nstart ` set ns) = length ns"
    using nodes_strict [OF assms] distinct_card [of "map nstart ns"] by simp
  ultimately show ?thesis by simp
qed

definition before_all :: "ebitmap_node option \<Rightarrow> ebitmap_node list \<Rightarrow> bool" where
  "before_all l ns \<longleftrightarrow> (case l of Some p \<Rightarrow> \<forall>n\<in>set ns. nstart p < nstart n | None \<Rightarrow> True)"

lemma read_write_nodes:
  assumes "nodes_ok ns" "\<forall>n\<in>set ns. startbit n \<le> hb - MAPSIZE" "before_all l ns"
    and "ebitmap_write_nodes w i ns = Some out" and ok: "\<And>j. ok j"
  shows "ebitmap_read_nodes ok hb l j (length ns) (out @ rest) = Some (ns, rest)"
  using assms(1-4)
proof (induction ns arbitrary: l i j out)
  case Nil
  then show ?case by simp
next
  case (Cons n ns)
  have n: "bnode_ok n" "nodes_ok ns" "before_all (Some n) ns"
    using Cons.prems(1) by (auto simp: nodes_ok_Cons before_all_def)
  obtain out' where out': "ebitmap_write_nodes w (i + 2) ns = Some out'"
    "out = le32 (startbit n) @ le64 (nmap n) @ out'"
    using Cons.prems(4) by (auto split: if_splits bind_splits)
  have "\<not> (case l of Some p \<Rightarrow> startbit n \<le> startbit p | None \<Rightarrow> False)"
    using Cons.prems(3) by (auto simp: before_all_def word_le_nat_alt split: option.splits)
  moreover have "startbit n AND (MAPSIZE - 1) = 0" "nmap n \<noteq> 0" using n(1) by (auto simp: bnode_ok_def aligned_64)
  moreover have "\<not> startbit n > hb - MAPSIZE" using Cons.prems(2) by auto
  ultimately show ?case
    using Cons.IH [OF n(2) _ n(3) out'(1), of "Suc j"] Cons.prems(2) ok by (simp add: out'(2) del: append_assoc) (simp add: append_assoc)
qed

lemma ebitmap_write_nodes_total: "(\<And>j. ok j) \<Longrightarrow> \<exists>out. ebitmap_write_nodes ok i ns = Some out"
proof (induction ns arbitrary: i)
  case (Cons n ns)
  then obtain out where "ebitmap_write_nodes ok (i + 2) ns = Some out" by blast
  then show ?case using Cons.prems [of i] Cons.prems [of "Suc i"] by simp
qed simp

lemma top_bit_ge:
  assumes "nodes_ok ns" "n \<in> set ns"
  shows "startbit n \<le> top_bit ns - MAPSIZE" "top_bit ns \<noteq> 0" "64 dvd unat (top_bit ns)"
proof -
  have ne: "ns \<noteq> []" using assms(2) by auto
  have "last ns \<in> set ns" using ne by simp
  then have l: "bnode_ok (last ns)" using nodes_ok_in [OF assms(1)] by blast
  have top: "unat (top_bit ns) = Max (nstart ` set ns) + 64" by (rule top_bit_Max [OF assms(1) ne])
  moreover have "nstart n \<le> Max (nstart ` set ns)" using assms(2) by simp
  ultimately show "startbit n \<le> top_bit ns - MAPSIZE" by (simp add: word_le_nat_alt unat_diff_nowrap)
  show "top_bit ns \<noteq> 0" using top by auto
  show "64 dvd unat (top_bit ns)" using l ne word_end [OF l] by (simp add: top_bit_def bnode_ok_def)
qed

lemma ebitmap_read_write:
  assumes inv: "ebitmap_inv e" and w: "ebitmap_write w e = Some out" and ok: "\<And>j. ok j"
  shows "ebitmap_read ok (out @ rest) = (e, Some rest)"
proof -
  have ns: "nodes_ok (nodes e)" and hb: "highbit e = top_bit (nodes e)" using inv by (auto simp: ebitmap_inv_def)
  obtain body where body: "ebitmap_write_nodes w 1 (nodes e) = Some body"
    "out = le32 MAPSIZE @ le32 (highbit e) @ le32 (of_nat (length (nodes e))) @ body"
    using w by (auto simp: ebitmap_write_def split: if_splits bind_splits)
  have count: "unat (of_nat (length (nodes e)) :: u32) = length (nodes e)"
    using nodes_length [OF ns] by (simp add: unat_of_nat_u32)
  show ?thesis
  proof (cases "nodes e")
    case Nil
    then have "e = ebitmap_init" using hb by (cases e) (simp add: ebitmap_init_def top_bit_def)
    then show ?thesis using body Nil by (simp add: ebitmap_read_def ebitmap_init_def)
  next
    case (Cons n r)
    have "n \<in> set (nodes e)" using Cons by simp
    note top = top_bit_ge [OF ns this]
    have "\<forall>m\<in>set (nodes e). startbit m \<le> highbit e - MAPSIZE" using top_bit_ge(1) [OF ns] hb by simp
    from read_write_nodes [OF ns this _ body(1) ok, where l = None and j = 0 and rest = rest]
    have "ebitmap_read_nodes ok (highbit e) None 0 (length (nodes e)) (body @ rest) = Some (nodes e, rest)"
      by (simp add: before_all_def)
    then show ?thesis using top by (simp add: ebitmap_read_def body(2) count hb aligned_64)
  qed
qed

text \<open>Whatever stream it reads, a bitmap that \<open>ebitmap_read\<close> accepts is well formed, except that
  the high bit may lie above the last node.\<close>

lemma ebitmap_read_nodes_ok:
  assumes "ebitmap_read_nodes ok hb l i k fp = Some (ns, rest)" "unat hb \<ge> 64"
  shows "nodes_ok ns \<and> before_all l ns \<and> (\<forall>n\<in>set ns. nstart n + 64 \<le> unat hb) \<and> length ns = k"
  using assms(1)
proof (induction k arbitrary: l i fp ns)
  case 0
  then show ?case by (simp add: before_all_def split: option.splits)
next
  case (Suc k)
  obtain start fp1 m fp2 ns' where r: "fread32 fp = Some (start, fp1)" "fread64 fp1 = Some (m, fp2)"
    "start AND (MAPSIZE - 1) = 0" "\<not> start > hb - MAPSIZE" "m \<noteq> 0"
    "\<not> (case l of Some p \<Rightarrow> start \<le> startbit p | None \<Rightarrow> False)"
    "ebitmap_read_nodes ok hb (Some \<lparr>startbit = start, nmap = m\<rparr>) (Suc i) k fp2 = Some (ns', rest)"
    "ns = \<lparr>startbit = start, nmap = m\<rparr> # ns'"
    using Suc.prems by (auto simp: Let_def split: bind_splits if_splits)
  have IH: "nodes_ok ns'" "before_all (Some \<lparr>startbit = start, nmap = m\<rparr>) ns'"
    "\<forall>n\<in>set ns'. nstart n + 64 \<le> unat hb" "length ns' = k"
    using Suc.IH [OF r(7)] by auto
  have s: "unat start + 64 \<le> unat hb"
    using r(4) assms(2) by (simp add: word_less_nat_alt unat_diff_nowrap)
  have "unat start + 64 < 2 ^ 32" using s by (rule le_unat_less)
  then have "bnode_ok \<lparr>startbit = start, nmap = m\<rparr>" using r(3,5) by (simp add: bnode_ok_def aligned_64)
  moreover have "before_all l ns"
    using r(6) IH(2) by (fastforce simp: before_all_def r(8) word_le_nat_alt split: option.splits)
  ultimately show ?case using IH s by (simp add: r(8) nodes_ok_Cons before_all_def)
qed

lemma ebitmap_read_sound:
  assumes "ebitmap_read ok fp = (e, Some rest)"
  shows "nodes_ok (nodes e)" "unat (top_bit (nodes e)) \<le> unat (highbit e)"
proof -
  have "nodes_ok (nodes e) \<and> (\<forall>n\<in>set (nodes e). nstart n + 64 \<le> unat (highbit e))"
  proof (cases "highbit e = 0")
    case True
    then show ?thesis
      using assms by (auto simp: ebitmap_read_def ebitmap_init_def ebitmap_destroy_def split: option.splits if_splits bind_splits)
  next
    case False
    then obtain count fp' where hb: "highbit e AND (MAPSIZE - 1) = 0"
      and r: "ebitmap_read_nodes ok (highbit e) None 0 count fp' = Some (nodes e, rest)"
      using assms by (auto simp: ebitmap_read_def ebitmap_init_def ebitmap_destroy_def split: option.splits if_splits bind_splits)
    have "64 \<le> unat (highbit e)"
      using hb False by (intro dvd_imp_le) (simp_all add: aligned_64 u32_pos_iff)
    from ebitmap_read_nodes_ok [OF r this] show ?thesis by simp
  qed
  then have ok: "nodes_ok (nodes e)" and le: "\<forall>n\<in>set (nodes e). nstart n + 64 \<le> unat (highbit e)" by auto
  show "nodes_ok (nodes e)" by (rule ok)
  show "unat (top_bit (nodes e)) \<le> unat (highbit e)"
  proof (cases "nodes e = []")
    case False
    then have "Max (nstart ` set (nodes e)) \<in> nstart ` set (nodes e)" by (intro Max_in) auto
    then show ?thesis using top_bit_Max [OF ok False] le by auto
  qed (simp add: top_bit_def)
qed

end
