(* ===== verification/Ebitmap_Spec.thy ===== *)
theory Ebitmap_Spec
  imports Ebitmap_Set
begin

text \<open>
  The properties of the extensible bitmaps, and the interface through which the rest of
  the security server uses them: membership, inclusion and equality tests.
\<close>

section \<open>The interface\<close>

locale bitset =
  fixes inv :: "'s \<Rightarrow> bool"
    and abs :: "'s \<Rightarrow> nat set"
    and mem :: "'s \<Rightarrow> u32 \<Rightarrow> bool"
    and sup :: "'s \<Rightarrow> 's \<Rightarrow> bool"
    and same :: "'s \<Rightarrow> 's \<Rightarrow> bool"
  assumes mem_iff: "inv s \<Longrightarrow> mem s b \<longleftrightarrow> unat b \<in> abs s"
    and sup_iff: "inv s \<Longrightarrow> inv t \<Longrightarrow> sup s t \<longleftrightarrow> abs t \<subseteq> abs s"
    and same_iff: "inv s \<Longrightarrow> inv t \<Longrightarrow> same s t \<longleftrightarrow> abs s = abs t"
begin

lemma sup_refl: "inv s \<Longrightarrow> sup s s"
  by (simp add: sup_iff)

lemma sup_trans: "inv s \<Longrightarrow> inv t \<Longrightarrow> inv u \<Longrightarrow> sup s t \<Longrightarrow> sup t u \<Longrightarrow> sup s u"
  by (auto simp: sup_iff)

lemma same_antisym: "inv s \<Longrightarrow> inv t \<Longrightarrow> same s t \<longleftrightarrow> sup s t \<and> sup t s"
  by (auto simp: sup_iff same_iff)

lemma sup_mem: "inv s \<Longrightarrow> inv t \<Longrightarrow> sup s t \<Longrightarrow> mem t b \<Longrightarrow> mem s b"
  by (auto simp: sup_iff mem_iff)

lemma same_mem: "inv s \<Longrightarrow> inv t \<Longrightarrow> same s t \<Longrightarrow> mem s b \<longleftrightarrow> mem t b"
  by (auto simp: same_iff mem_iff)

end

interpretation ebs: bitset ebitmap_inv ebits ebitmap_get_bit ebitmap_contains ebitmap_cmp
  by unfold_locales (simp_all add: ebitmap_get_bit_iff ebitmap_contains_iff ebitmap_cmp_iff)

section \<open>Properties\<close>

text \<open>The bitmap with the single bit 70, used by the witnesses.\<close>

definition demo_map :: ebitmap where
  "demo_map = \<lparr>nodes = [\<lparr>startbit = 64, nmap = 64\<rparr>], highbit = 128\<rparr>"

lemma demo_map_inv: "ebitmap_inv demo_map"
  by (simp add: demo_map_def ebitmap_inv_def nodes_ok_Cons bnode_ok_def top_bit_def MAPSIZE_def)



text \<open>C12. The inclusion and equality tests, which walk both lists of nodes once, decide
  inclusion and equality of the sets of bits.\<close>

theorem ebitmap_contains_cmp:
  assumes "ebitmap_inv e1" "ebitmap_inv e2"
  shows "(ebitmap_contains e1 e2 \<longleftrightarrow> (\<forall>b. ebitmap_get_bit e2 b \<longrightarrow> ebitmap_get_bit e1 b)) \<and>
    (ebitmap_cmp e1 e2 \<longleftrightarrow> (\<forall>b. ebitmap_get_bit e1 b \<longleftrightarrow> ebitmap_get_bit e2 b))"
proof -
  have word: "\<exists>b::u32. unat b = x" if "ebitmap_inv e" "x \<in> ebits e" for e x
  proof
    have "x < unat (highbit e)"
      using that nodes_bits_top by (auto simp: ebitmap_inv_def ebits_def)
    then show "unat (of_nat x :: u32) = x"
      by (intro unat_of_nat_u32) (rule le_unat_less [OF less_imp_le])
  qed
  have "ebits e2 \<subseteq> ebits e1 \<longleftrightarrow> (\<forall>b. ebitmap_get_bit e2 b \<longrightarrow> ebitmap_get_bit e1 b)"
    using word [OF assms(2)] ebs.mem_iff assms by (metis subset_iff)
  moreover have "ebits e1 \<subseteq> ebits e2 \<longleftrightarrow> (\<forall>b. ebitmap_get_bit e1 b \<longrightarrow> ebitmap_get_bit e2 b)"
    using word [OF assms(1)] ebs.mem_iff assms by (metis subset_iff)
  ultimately show ?thesis
    using ebs.sup_iff [OF assms] ebs.same_iff [OF assms] by blast
qed

theorem ebitmap_contains_cmp_witness:
  "(ebitmap_contains demo_map demo_map \<longleftrightarrow>
      (\<forall>b. ebitmap_get_bit demo_map b \<longrightarrow> ebitmap_get_bit demo_map b)) \<and> ebitmap_contains demo_map demo_map"
  using ebitmap_contains_cmp [OF demo_map_inv demo_map_inv] by blast

text \<open>\<open>ebitmap_or\<close> computes the union of two bitmaps; when memory runs out it returns
  \<open>FALSE\<close> and an empty bitmap.  \<open>ebitmap_cpy\<close> returns an identical bitmap.\<close>

lemma ebitmap_or_cpy:
  assumes "ebitmap_inv e1" "ebitmap_inv e2" "ebitmap_or ok e1 e2 = (res, e)" "ebitmap_cpy ok e1 = (res', e')"
  shows "ebitmap_inv e \<and>
    (\<forall>b. ebitmap_get_bit e b \<longleftrightarrow> res \<and> (ebitmap_get_bit e1 b \<or> ebitmap_get_bit e2 b)) \<and>
    e' = (if res' then e1 else ebitmap_init) \<and> ((\<forall>i. ok i) \<longrightarrow> res \<and> res')"
  using ebitmap_or_spec [OF assms(1-3)] ebitmap_cpy_spec [OF assms(4)] assms(1,2)
  by (auto simp: ebs.mem_iff)

text \<open>C13. A bitmap written by \<open>ebitmap_write\<close> is read back by \<open>ebitmap_read\<close> as the same
  bitmap, and the rest of the stream is left unread.\<close>

theorem ebitmap_write_read:
  assumes "ebitmap_inv e" "ebitmap_write w e = Some out" "\<forall>j. ok j"
  shows "ebitmap_read ok (out @ rest) = (e, Some rest)"
  using ebitmap_read_write [OF assms(1,2)] assms(3) by blast

theorem ebitmap_write_read_witness:
  "\<exists>out. ebitmap_write (\<lambda>i. True) demo_map = Some out \<and>
     ebitmap_read (\<lambda>i. True) (out @ [7, 8]) = (demo_map, Some [7, 8])"
proof -
  obtain out where "ebitmap_write (\<lambda>i. True) demo_map = Some out"
    using ebitmap_write_nodes_total [of "\<lambda>i. True" 1 "nodes demo_map"] by (auto simp: ebitmap_write_def)
  then show ?thesis using ebitmap_write_read [OF demo_map_inv, of "\<lambda>i. True" out "\<lambda>i. True" "[7, 8]"] by auto
qed

text \<open>C14. Whatever bytes it is given, a bitmap that \<open>ebitmap_read\<close> accepts has aligned,
  strictly ascending, non-empty nodes that all end at or below the high bit, so that
  \<open>ebitmap_get_bit\<close> on it answers exactly for the bits of its nodes.\<close>

theorem ebitmap_read_wellformed:
  assumes "ebitmap_read ok fp = (e, Some rest)"
  shows "nodes_ok (nodes e) \<and> unat (top_bit (nodes e)) \<le> unat (highbit e) \<and>
    (\<forall>b. ebitmap_get_bit e b \<longleftrightarrow> unat b \<in> ebits e)"
proof -
  note r = ebitmap_read_sound [OF assms]
  have "ebitmap_get_bit e b \<longleftrightarrow> unat b \<in> ebits e" for b
    using ebitmap_get_nodes_iff [OF r(1), of b] nodes_bits_top [OF r(1), of "unat b"] r(2)
    by (auto simp: ebitmap_get_bit_def ebits_def word_less_nat_alt)
  then show ?thesis using r by simp
qed

theorem ebitmap_read_wellformed_witness:
  "\<exists>e. ebitmap_read (\<lambda>i. True) (le32 64 @ le32 0 @ le32 0) = (e, Some []) \<and> nodes_ok (nodes e)"
proof -
  have "fread32 (le32 (0 :: u32)) = Some (0, [])" using fread32_le32 [of 0 "[]"] by simp
  then have "ebitmap_read (\<lambda>i. True) (le32 64 @ le32 0 @ le32 0) = (ebitmap_init, Some [])"
    by (simp add: ebitmap_read_def MAPSIZE_def)
  then show ?thesis using ebitmap_read_wellformed by blast
qed

text \<open>A stored bitmap may carry a high bit above its last node.  \<open>ebitmap_read\<close> accepts
  it, but \<open>ebitmap_cmp\<close> and \<open>ebitmap_contains\<close> then tell it apart from the bitmap with the same
  bits that \<open>ebitmap_set_bit\<close> builds.\<close>

lemma ebitmap_read_loose_highbit:
  "ebitmap_read (\<lambda>i. True) (le32 64 @ le32 192 @ le32 1 @ le32 64 @ le64 64) =
     (demo_map\<lparr>highbit := 192\<rparr>, Some [])"
  "ebits (demo_map\<lparr>highbit := 192\<rparr>) = ebits demo_map"
  "\<not> ebitmap_cmp demo_map (demo_map\<lparr>highbit := 192\<rparr>)"
  "\<not> ebitmap_contains demo_map (demo_map\<lparr>highbit := 192\<rparr>)"
proof -
  have "fread64 (le64 (64 :: u64)) = Some (64, [])" using fread64_le64 [of 64 "[]"] by simp
  then show "ebitmap_read (\<lambda>i. True) (le32 64 @ le32 192 @ le32 1 @ le32 64 @ le64 64) =
     (demo_map\<lparr>highbit := 192\<rparr>, Some [])"
    by (simp add: ebitmap_read_def MAPSIZE_def demo_map_def)
  show "ebits (demo_map\<lparr>highbit := 192\<rparr>) = ebits demo_map" by (simp add: ebits_def)
  show "\<not> ebitmap_cmp demo_map (demo_map\<lparr>highbit := 192\<rparr>)"
    "\<not> ebitmap_contains demo_map (demo_map\<lparr>highbit := 192\<rparr>)"
    by (simp_all add: demo_map_def ebitmap_cmp_def ebitmap_contains_def)
qed

end
