(* ===== verification/Buckets.thy ===== *)
theory Buckets
  imports Cstd
begin

text \<open>
  Chained hashing, shared by the hash tables of the security server: a table is a list of
  slots, each a list of key-datum pairs in chain order.  The locale \<open>hashing\<close> holds for
  any hash function into the slots; \<open>insert_table\<close> is the interface that the
  readers of stored tables rely on.
\<close>

section \<open>Tables of chains\<close>

definition chain_ok :: "('k \<Rightarrow> nat) \<Rightarrow> nat \<Rightarrow> ('k \<times> 'd) list \<Rightarrow> bool" where
  "chain_ok hash i c \<longleftrightarrow> distinct (map fst c) \<and> (\<forall>k\<in>fst ` set c. hash k = i)"

definition buckets_inv :: "('k \<Rightarrow> nat) \<Rightarrow> nat \<Rightarrow> ('k \<times> 'd) list list \<Rightarrow> bool" where
  "buckets_inv hash n tab \<longleftrightarrow> length tab = n \<and> (\<forall>i<n. chain_ok hash i (tab ! i))"

definition buckets_map :: "('k \<Rightarrow> nat) \<Rightarrow> ('k \<times> 'd) list list \<Rightarrow> 'k \<Rightarrow> 'd option" where
  "buckets_map hash tab k = map_of (tab ! hash k) k"

lemma chain_ok_Nil [simp]: "chain_ok hash i []"
  by (simp add: chain_ok_def)

lemma chain_ok_Cons:
  "chain_ok hash i ((k, d) # c) \<longleftrightarrow> hash k = i \<and> k \<notin> fst ` set c \<and> chain_ok hash i c"
  by (auto simp: chain_ok_def)

lemma buckets_inv_upd:
  "buckets_inv hash n tab \<Longrightarrow> i < n \<Longrightarrow> chain_ok hash i c \<Longrightarrow> buckets_inv hash n (tab[i := c])"
  by (auto simp: buckets_inv_def nth_list_update)

lemma buckets_inv_empty: "buckets_inv hash n (replicate n [])"
  by (simp add: buckets_inv_def)

lemma concat_upd_length:
  "i < length tab \<Longrightarrow> length (concat (tab[i := c])) + length (tab ! i) = length (concat tab) + length c"
  by (induction tab arbitrary: i) (auto split: nat.splits)

lemma concat_upd_set:
  "i < length tab \<Longrightarrow> set (concat (tab[i := e # tab ! i])) = insert e (set (concat tab))"
  by (induction tab arbitrary: i) (auto split: nat.splits)

locale hashing =
  fixes hash :: "'k \<Rightarrow> nat" and n :: nat
  assumes hash_less: "hash k < n"
begin

lemma map_empty: "buckets_map hash (replicate n []) = Map.empty"
  by (rule ext) (simp add: buckets_map_def hash_less)

lemma map_upd:
  assumes "buckets_inv hash n tab" "chain_ok hash i c" "i < n"
  shows "buckets_map hash (tab[i := c]) k = (if hash k = i then map_of c k else buckets_map hash tab k)"
  using assms hash_less [of k] by (auto simp: buckets_map_def buckets_inv_def nth_list_update)

lemma chain_of:
  assumes "buckets_inv hash n tab"
  shows "chain_ok hash (hash k) (tab ! hash k)"
  using assms hash_less by (simp add: buckets_inv_def)

lemma map_insert:
  assumes inv: "buckets_inv hash n tab" and new: "buckets_map hash tab k = None"
  shows "buckets_inv hash n (tab[hash k := (k, d) # tab ! hash k])"
    "buckets_map hash (tab[hash k := (k, d) # tab ! hash k]) = (buckets_map hash tab)(k \<mapsto> d)"
proof -
  have c: "chain_ok hash (hash k) ((k, d) # tab ! hash k)"
    using chain_of [OF inv, of k] new by (simp add: chain_ok_Cons buckets_map_def map_of_eq_None_iff)
  show "buckets_inv hash n (tab[hash k := (k, d) # tab ! hash k])"
    by (rule buckets_inv_upd [OF inv hash_less c])
  show "buckets_map hash (tab[hash k := (k, d) # tab ! hash k]) = (buckets_map hash tab)(k \<mapsto> d)"
    using map_upd [OF inv c hash_less] by (auto simp: fun_eq_iff) (auto simp: buckets_map_def)
qed

text \<open>The entries of all chains, in the order of the slots, are a map without duplicates.\<close>

lemma entries_map:
  assumes "buckets_inv hash n tab"
  shows "distinct (map fst (concat tab))" "map_of (concat tab) = buckets_map hash tab"
proof -
  have "distinct (map fst (concat tab)) \<and>
      (\<forall>k. map_of (concat tab) k = (if hash k < m + length tab \<and> m \<le> hash k then map_of (tab ! (hash k - m)) k else None))"
    if "\<forall>i<length tab. chain_ok hash (m + i) (tab ! i)" for m
    using that
  proof (induction tab arbitrary: m)
    case Nil
    then show ?case by auto
  next
    case (Cons c tab)
    have c: "chain_ok hash m c" using Cons.prems by (auto dest: spec [of _ 0])
    have tail: "\<forall>i<length tab. chain_ok hash (Suc m + i) (tab ! i)"
      using Cons.prems by (auto dest: spec [of _ "Suc _"])
    note IH = Cons.IH [OF tail]
    have keys: "hash k = m" if "k \<in> fst ` set c" for k using c that by (auto simp: chain_ok_def)
    have "k \<notin> fst ` set (concat tab)" if "hash k = m" for k
      using IH that by (metis (no_types, lifting) Suc_n_not_le_n map_of_eq_None_iff)
    then have "fst ` set c \<inter> fst ` set (concat tab) = {}" using keys by blast
    then have "distinct (map fst (concat (c # tab)))" using c IH by (auto simp: chain_ok_def)
    moreover have "map_of (concat (c # tab)) k =
        (if hash k < m + length (c # tab) \<and> m \<le> hash k then map_of ((c # tab) ! (hash k - m)) k else None)" for k
    proof (cases "hash k = m")
      case True
      then have "map_of (concat tab) k = None" using IH by auto
      then show ?thesis using True by (simp add: map_add_def split: option.splits)
    next
      case False
      then have "k \<notin> fst ` set c" using keys by blast
      then have "map_of c k = None" by (simp add: map_of_eq_None_iff)
      then show ?thesis
        using False IH by (auto simp: map_add_def Suc_le_eq nth_Cons' split: option.splits)
    qed
    ultimately show ?case by blast
  qed
  from this [of 0] assms hash_less
  show "distinct (map fst (concat tab))" "map_of (concat tab) = buckets_map hash tab"
    by (auto simp: buckets_inv_def buckets_map_def fun_eq_iff)
qed

end

section \<open>Tables one can insert into\<close>

locale insert_table =
  fixes inv :: "'t \<Rightarrow> bool"
    and lookup :: "'t \<Rightarrow> 'k \<Rightarrow> 'd option"
    and insert :: "'t \<Rightarrow> 'k \<Rightarrow> 'd \<Rightarrow> 't option"
  assumes insert_present: "inv t \<Longrightarrow> lookup t k \<noteq> None \<Longrightarrow> insert t k d = None"
    and insert_new: "inv t \<Longrightarrow> lookup t k = None \<Longrightarrow>
      \<exists>t'. insert t k d = Some t' \<and> inv t' \<and> lookup t' = (lookup t)(k \<mapsto> d)"
begin

fun insert_all :: "'t \<Rightarrow> ('k \<times> 'd) list \<Rightarrow> 't option" where
  "insert_all t [] = Some t"
| "insert_all t ((k, d) # es) = Option.bind (insert t k d) (\<lambda>t'. insert_all t' es)"

lemma insert_all_iff:
  assumes "inv t"
  shows "insert_all t es \<noteq> None \<longleftrightarrow> distinct (map fst es) \<and> fst ` set es \<inter> dom (lookup t) = {}"
    "insert_all t es = Some t' \<Longrightarrow> inv t' \<and> lookup t' = lookup t ++ map_of es"
proof -
  have "(insert_all t es \<noteq> None \<longleftrightarrow> distinct (map fst es) \<and> fst ` set es \<inter> dom (lookup t) = {}) \<and>
      (\<forall>t'. insert_all t es = Some t' \<longrightarrow> inv t' \<and> lookup t' = lookup t ++ map_of es)"
    using assms
  proof (induction es arbitrary: t)
    case Nil
    then show ?case by simp
  next
    case (Cons e es)
    obtain k d where e: "e = (k, d)" by (cases e)
    show ?case
    proof (cases "lookup t k")
      case (Some x)
      then have "insert t k d = None" using insert_present [OF Cons.prems] by simp
      then show ?thesis using Some e by auto
    next
      case None
      then obtain u where u: "insert t k d = Some u" "inv u" "lookup u = (lookup t)(k \<mapsto> d)"
        using insert_new [OF Cons.prems] by blast
      note IH = Cons.IH [OF u(2)]
      have "lookup u ++ map_of es = lookup t ++ map_of (e # es)" if "k \<notin> fst ` set es"
      proof -
        have "map_of es k = None" using that by (simp add: map_of_eq_None_iff)
        then show ?thesis by (auto simp: u(3) e fun_eq_iff map_add_def split: option.splits)
      qed
      moreover have "insert_all t (e # es) = insert_all u es" by (simp add: e u(1))
      moreover have dom: "dom (lookup u) = Set.insert k (dom (lookup t))" by (simp add: u(3))
      moreover have "k \<notin> dom (lookup t)" using None by (simp add: domIff)
      ultimately have "insert_all t (e # es) \<noteq> None \<longleftrightarrow>
          distinct (map fst (e # es)) \<and> fst ` set (e # es) \<inter> dom (lookup t) = {}"
        using IH by (auto simp: e)
      moreover have "inv t' \<and> lookup t' = lookup t ++ map_of (e # es)" if "insert_all t (e # es) = Some t'" for t'
      proof -
        have t': "insert_all u es = Some t'" using that by (simp add: e u(1))
        then have "k \<notin> fst ` set es" using IH dom by (metis disjoint_iff insertI1 option.distinct(1))
        then show ?thesis
          using IH t' \<open>k \<notin> fst ` set es \<Longrightarrow> lookup u ++ map_of es = lookup t ++ map_of (e # es)\<close> by metis
      qed
      ultimately show ?thesis by blast
    qed
  qed
  then show "insert_all t es \<noteq> None \<longleftrightarrow> distinct (map fst es) \<and> fst ` set es \<inter> dom (lookup t) = {}"
    "insert_all t es = Some t' \<Longrightarrow> inv t' \<and> lookup t' = lookup t ++ map_of es" by blast+
qed

end

end
