(* ===== verification/Context.thy ===== *)
theory Context
  imports Ebitmap_Spec Buckets
begin

text \<open>
  Security contexts (\<open>security/context.[ch]\<close>, \<open>security/mls_types.h\<close>) and the table of
  security identifiers (\<open>security/sidtab.[ch]\<close>).  The model is that of the
  configuration of \<open>security/global.h\<close>, with multi-level security compiled in.
  The allocations of an operation that calls others are named by their path in the
  calls: \<open>ok (i # p)\<close> is the outcome of the allocation \<open>p\<close> of the \<open>i\<close>-th call.
\<close>

section \<open>Contexts\<close>

type_synonym allocs = "nat list \<Rightarrow> bool"

record mls_level =
  sens :: u32
  cat :: ebitmap

text \<open>\<open>lo\<close> is \<open>level[0]\<close>, \<open>hi\<close> is \<open>level[1]\<close>.\<close>

record mls_range =
  lo :: mls_level
  hi :: mls_level

definition MLS_RELATION_DOM :: nat where
  "MLS_RELATION_DOM = 1"

definition MLS_RELATION_DOMBY :: nat where
  "MLS_RELATION_DOMBY = 2"

definition MLS_RELATION_EQ :: nat where
  "MLS_RELATION_EQ = 4"

definition MLS_RELATION_INCOMP :: nat where
  "MLS_RELATION_INCOMP = 8"

definition mls_level_eq :: "mls_level \<Rightarrow> mls_level \<Rightarrow> bool" where
  "mls_level_eq l1 l2 \<longleftrightarrow> sens l1 = sens l2 \<and> ebitmap_cmp (cat l1) (cat l2)"

definition mls_level_relation :: "mls_level \<Rightarrow> mls_level \<Rightarrow> nat" where
  "mls_level_relation l1 l2 =
     (if sens l1 = sens l2 \<and> ebitmap_cmp (cat l1) (cat l2) then MLS_RELATION_EQ
      else if sens l1 \<ge> sens l2 \<and> ebitmap_contains (cat l1) (cat l2) then MLS_RELATION_DOM
      else if sens l2 \<ge> sens l1 \<and> ebitmap_contains (cat l2) (cat l1) then MLS_RELATION_DOMBY
      else MLS_RELATION_INCOMP)"

definition mls_range_contains :: "mls_range \<Rightarrow> mls_range \<Rightarrow> bool" where
  "mls_range_contains r1 r2 \<longleftrightarrow>
     mls_level_relation (lo r1) (lo r2) AND (MLS_RELATION_EQ OR MLS_RELATION_DOMBY) \<noteq> 0 \<and>
     mls_level_relation (hi r1) (hi r2) AND (MLS_RELATION_EQ OR MLS_RELATION_DOM) \<noteq> 0"

record mls_perms =
  mread :: u32
  mreadby :: u32
  mwrite :: u32
  mwriteby :: u32

record context_struct =
  c_user :: u32
  c_role :: u32
  c_type :: u32
  c_range :: mls_range

definition zero_level :: mls_level where
  "zero_level = \<lparr>sens = 0, cat = ebitmap_init\<rparr>"

definition context_init :: context_struct where
  "context_init = \<lparr>c_user = 0, c_role = 0, c_type = 0, c_range = \<lparr>lo = zero_level, hi = zero_level\<rparr>\<rparr>"

text \<open>\<open>memset(c, 0, sizeof(mls_range_t))\<close> clears the first 24 of the 36 bytes of the context: the
  three identifiers and \<open>level[0]\<close>, not \<open>level[1]\<close>.\<close>

definition mls_context_destroy :: "context_struct \<Rightarrow> context_struct" where
  "mls_context_destroy c =
     \<lparr>c_user = 0, c_role = 0, c_type = 0,
      c_range = \<lparr>lo = zero_level,
        hi = (hi (c_range c))\<lparr>cat := ebitmap_destroy (cat (hi (c_range c)))\<rparr>\<rparr>\<rparr>"

definition context_destroy :: "context_struct \<Rightarrow> context_struct" where
  "context_destroy c = mls_context_destroy (c\<lparr>c_user := 0, c_role := 0, c_type := 0\<rparr>)"

definition mls_context_cmp :: "context_struct \<Rightarrow> context_struct \<Rightarrow> bool" where
  "mls_context_cmp c1 c2 \<longleftrightarrow>
     sens (lo (c_range c1)) = sens (lo (c_range c2)) \<and>
     ebitmap_cmp (cat (lo (c_range c1))) (cat (lo (c_range c2))) \<and>
     sens (hi (c_range c1)) = sens (hi (c_range c2)) \<and>
     ebitmap_cmp (cat (hi (c_range c1))) (cat (hi (c_range c2)))"

definition context_cmp :: "context_struct \<Rightarrow> context_struct \<Rightarrow> bool" where
  "context_cmp c1 c2 \<longleftrightarrow>
     c_user c1 = c_user c2 \<and> c_role c1 = c_role c2 \<and> c_type c1 = c_type c2 \<and> mls_context_cmp c1 c2"

text \<open>The copies: \<open>None\<close> when a bitmap cannot be copied (\<open>-ENOMEM\<close>).\<close>

definition mls_context_cpy :: "allocs \<Rightarrow> context_struct \<Rightarrow> context_struct \<Rightarrow> context_struct option" where
  "mls_context_cpy ok dst src = (
     let (r0, cat0) = ebitmap_cpy (\<lambda>i. ok [0, i]) (cat (lo (c_range src)));
         (r1, cat1) = ebitmap_cpy (\<lambda>i. ok [1, i]) (cat (hi (c_range src)))
     in if \<not> r0 then None
        else if \<not> r1 then None
        else Some (dst\<lparr>c_range := \<lparr>lo = \<lparr>sens = sens (lo (c_range src)), cat = cat0\<rparr>,
                                 hi = \<lparr>sens = sens (hi (c_range src)), cat = cat1\<rparr>\<rparr>\<rparr>))"

definition context_cpy :: "allocs \<Rightarrow> context_struct \<Rightarrow> context_struct \<Rightarrow> context_struct option" where
  "context_cpy ok dst src =
     mls_context_cpy ok (dst\<lparr>c_user := c_user src, c_role := c_role src, c_type := c_type src\<rparr>) src"

subsection \<open>Comparison and copy\<close>

lemma ebitmap_cmp_eq [simp]: "ebitmap_cmp e1 e2 \<longleftrightarrow> e1 = e2"
  by (auto simp: ebitmap_cmp_def ebitmap_cmp_nodes_eq)

lemma mls_level_eq_iff [simp]: "mls_level_eq l1 l2 \<longleftrightarrow> l1 = l2"
  by (auto simp: mls_level_eq_def)

lemma context_cmp_eq [simp]: "context_cmp c1 c2 \<longleftrightarrow> c1 = c2"
proof -
  have "r = r'" if "lo r = lo r'" "hi r = hi r'" for r r' :: mls_range using that by simp
  moreover have "l = l'" if "sens l = sens l'" "cat l = cat l'" for l l' :: mls_level using that by simp
  ultimately show ?thesis by (auto simp: context_cmp_def mls_context_cmp_def intro!: context_struct.equality)
qed

lemma context_cpy_id: "context_cpy ok dst src = Some c \<Longrightarrow> c = src"
  unfolding context_cpy_def mls_context_cpy_def
  by (auto simp: Let_def split: prod.splits if_splits dest!: ebitmap_cpy_spec(1))

lemma context_cpy_total: "(\<And>p. ok p) \<Longrightarrow> context_cpy ok dst src = Some src"
proof -
  assume "\<And>p. ok p"
  then have "fst (ebitmap_cpy (\<lambda>i. ok [k, i]) e)" for k e
    using ebitmap_cpy_spec(2) [of "\<lambda>i. ok [k, i]" e] by (cases "ebitmap_cpy (\<lambda>i. ok [k, i]) e") auto
  then have "\<exists>c. context_cpy ok dst src = Some c"
    by (simp add: context_cpy_def mls_context_cpy_def split_def Let_def)
  then show ?thesis using context_cpy_id by blast
qed

end
