(* ===== verification/Sidtab.thy ===== *)
theory Sidtab
  imports Context
begin

text \<open>
  The table of security identifiers (\<open>security/sidtab.[ch]\<close>): 23 chains of contexts indexed by
  identifier.  The element count doubles as the source of new identifiers.
\<close>

section \<open>Definitions\<close>

type_synonym sidtab_node = "u32 \<times> context_struct"

definition SIDTAB_SIZE :: u32 where
  "SIDTAB_SIZE = 23"

record sidtab =
  sd_htable :: "sidtab_node list list"
  sd_nel :: u32

definition SECSID_NULL :: u32 where
  "SECSID_NULL = 0"

definition SIDTAB_HASH :: "u32 \<Rightarrow> nat" where
  "SIDTAB_HASH sid = unat (sid mod SIDTAB_SIZE)"

text \<open>The search along the chain: the nodes walked over, and the rest from \<open>cur\<close> on.\<close>

definition sidtab_walked :: "sidtab \<Rightarrow> u32 \<Rightarrow> sidtab_node list" where
  "sidtab_walked s sid = takeWhile (\<lambda>(k, c). k \<noteq> sid) (sd_htable s ! SIDTAB_HASH sid)"

definition sidtab_cur :: "sidtab \<Rightarrow> u32 \<Rightarrow> sidtab_node list" where
  "sidtab_cur s sid = dropWhile (\<lambda>(k, c). k \<noteq> sid) (sd_htable s ! SIDTAB_HASH sid)"

definition sidtab_insert :: "allocs \<Rightarrow> sidtab option \<Rightarrow> u32 \<Rightarrow> context_struct \<Rightarrow> errno + sidtab" where
  "sidtab_insert ok sp sid context =
     (case sp of
        None \<Rightarrow> Inl ENOMEM
      | Some s \<Rightarrow>
          if sidtab_cur s sid \<noteq> [] then Inl EEXIST
          else if \<not> ok [0] then Inl ENOMEM
          else
            case context_cpy (\<lambda>p. ok (1 # p)) context_init context of
              None \<Rightarrow> Inl ENOMEM
            | Some c \<Rightarrow>
                let hvalue = SIDTAB_HASH sid
                in Inr (s\<lparr>sd_htable := (sd_htable s)[hvalue := (sid, c) # sd_htable s ! hvalue],
                          sd_nel := sd_nel s + 1\<rparr>))"

definition sidtab_remove :: "sidtab option \<Rightarrow> u32 \<Rightarrow> errno + sidtab" where
  "sidtab_remove sp sid =
     (case sp of
        None \<Rightarrow> Inl ENOENT
      | Some s \<Rightarrow>
          case sidtab_cur s sid of
            [] \<Rightarrow> Inl ENOENT
          | cur # next \<Rightarrow>
              Inr (s\<lparr>sd_htable := (sd_htable s)[SIDTAB_HASH sid := sidtab_walked s sid @ next]\<rparr>))"

definition sidtab_search :: "sidtab option \<Rightarrow> u32 \<Rightarrow> context_struct option" where
  "sidtab_search sp sid =
     (case sp of
        None \<Rightarrow> None
      | Some s \<Rightarrow> (case sidtab_cur s sid of [] \<Rightarrow> None | (k, c) # next \<Rightarrow> Some c))"

fun sidtab_map_chain ::
    "(u32 \<Rightarrow> context_struct \<Rightarrow> 'a \<Rightarrow> int \<times> context_struct \<times> 'a) \<Rightarrow> sidtab_node list \<Rightarrow> 'a
     \<Rightarrow> int \<times> sidtab_node list \<times> 'a" where
  "sidtab_map_chain apply_fn [] args = (0, [], args)"
| "sidtab_map_chain apply_fn ((k, c) # next) args = (
     let (ret, c, args) = apply_fn k c args
     in if ret \<noteq> 0 then (ret, (k, c) # next, args)
        else let (ret, next, args) = sidtab_map_chain apply_fn next args in (ret, (k, c) # next, args))"

fun sidtab_map_slots ::
    "(u32 \<Rightarrow> context_struct \<Rightarrow> 'a \<Rightarrow> int \<times> context_struct \<times> 'a) \<Rightarrow> sidtab_node list list \<Rightarrow> 'a
     \<Rightarrow> int \<times> sidtab_node list list \<times> 'a" where
  "sidtab_map_slots apply_fn [] args = (0, [], args)"
| "sidtab_map_slots apply_fn (chain # rest) args = (
     let (ret, chain, args) = sidtab_map_chain apply_fn chain args
     in if ret \<noteq> 0 then (ret, chain # rest, args)
        else let (ret, rest, args) = sidtab_map_slots apply_fn rest args in (ret, chain # rest, args))"

definition sidtab_map ::
    "sidtab option \<Rightarrow> (u32 \<Rightarrow> context_struct \<Rightarrow> 'a \<Rightarrow> int \<times> context_struct \<times> 'a) \<Rightarrow> 'a
     \<Rightarrow> int \<times> sidtab option \<times> 'a" where
  "sidtab_map sp apply_fn args =
     (case sp of
        None \<Rightarrow> (0, None, args)
      | Some s \<Rightarrow>
          let (ret, slots, args) = sidtab_map_slots apply_fn (sd_htable s) args
          in (ret, Some (s\<lparr>sd_htable := slots\<rparr>), args))"

text \<open>The callback may change the context before it returns; a node for which it returns a
  nonzero code is unlinked.  The code leaves the element count alone.  A call whose
  behaviour is undefined is \<open>None\<close>.\<close>

fun sidtab_prune_chain ::
    "(u32 \<Rightarrow> context_struct \<Rightarrow> 'a \<Rightarrow> (bool \<times> context_struct \<times> 'a) option) \<Rightarrow> sidtab_node list \<Rightarrow> 'a
     \<Rightarrow> (sidtab_node list \<times> 'a) option" where
  "sidtab_prune_chain apply_fn [] args = Some ([], args)"
| "sidtab_prune_chain apply_fn ((k, c) # next) args = do {
     (fail, c, args) \<leftarrow> apply_fn k c args;
     (next, args) \<leftarrow> sidtab_prune_chain apply_fn next args;
     Some (if fail then next else (k, c) # next, args)
   }"

fun sidtab_prune_slots ::
    "(u32 \<Rightarrow> context_struct \<Rightarrow> 'a \<Rightarrow> (bool \<times> context_struct \<times> 'a) option) \<Rightarrow> sidtab_node list list \<Rightarrow> 'a
     \<Rightarrow> (sidtab_node list list \<times> 'a) option" where
  "sidtab_prune_slots apply_fn [] args = Some ([], args)"
| "sidtab_prune_slots apply_fn (chain # rest) args = do {
     (chain, args) \<leftarrow> sidtab_prune_chain apply_fn chain args;
     (rest, args) \<leftarrow> sidtab_prune_slots apply_fn rest args;
     Some (chain # rest, args)
   }"

definition sidtab_map_remove_on_error ::
    "sidtab option \<Rightarrow> (u32 \<Rightarrow> context_struct \<Rightarrow> 'a \<Rightarrow> (bool \<times> context_struct \<times> 'a) option) \<Rightarrow> 'a
     \<Rightarrow> (sidtab option \<times> 'a) option" where
  "sidtab_map_remove_on_error sp apply_fn args =
     (case sp of
        None \<Rightarrow> Some (None, args)
      | Some s \<Rightarrow> do {
          (slots, args) \<leftarrow> sidtab_prune_slots apply_fn (sd_htable s) args;
          Some (Some (s\<lparr>sd_htable := slots\<rparr>), args)
        })"

text \<open>The result of \<open>sidtab_context_to_sid\<close>: whether it returns 0, what it stores in \<open>*out_sid\<close>, and the
  table.\<close>

definition sidtab_context_to_sid ::
    "allocs \<Rightarrow> sidtab \<Rightarrow> context_struct \<Rightarrow> bool \<times> u32 \<times> sidtab" where
  "sidtab_context_to_sid ok s context =
     (case find (\<lambda>(k, c). context_cmp c context) (concat (sd_htable s)) of
        Some (k, c) \<Rightarrow> (True, k, s)
      | None \<Rightarrow>
          let sid = sd_nel s + 1
          in if sid = 0 then (False, SECSID_NULL, s)
             else
               case sidtab_insert (\<lambda>p. ok (0 # p)) (Some s) sid context of
                 Inl ret \<Rightarrow> (False, SECSID_NULL, s)
               | Inr s \<Rightarrow> (True, sid, s))"

text \<open>A zeroed table.\<close>

definition sidtab_init :: sidtab where
  "sidtab_init = \<lparr>sd_htable = replicate (unat SIDTAB_SIZE) [], sd_nel = 0\<rparr>"

section \<open>The table as a map\<close>

lemma SIDTAB_HASH_less: "SIDTAB_HASH k < 23"
  unfolding SIDTAB_HASH_def SIDTAB_SIZE_def by (simp add: unat_mod)

interpretation sdh: hashing SIDTAB_HASH 23
  by unfold_locales (rule SIDTAB_HASH_less)

definition sidtab_abs :: "sidtab \<Rightarrow> u32 \<Rightarrow> context_struct option" where
  "sidtab_abs s = buckets_map SIDTAB_HASH (sd_htable s)"

text \<open>The identifiers in use are between 1 and the element count.\<close>

definition sidtab_ok :: "sidtab \<Rightarrow> bool" where
  "sidtab_ok s \<longleftrightarrow> buckets_inv SIDTAB_HASH 23 (sd_htable s) \<and> (\<forall>k\<in>dom (sidtab_abs s). 0 < k \<and> k \<le> sd_nel s)"

text \<open>No context has two identifiers.  A policy that makes two names the same may end this when it is loaded.\<close>

definition sidtab_distinct :: "sidtab \<Rightarrow> bool" where
  "sidtab_distinct s \<longleftrightarrow> inj_on (sidtab_abs s) (dom (sidtab_abs s))"

lemma sidtab_walk:
  "sidtab_cur s k = [] \<longleftrightarrow> sidtab_abs s k = None"
  "sidtab_search (Some s) k = sidtab_abs s k"
  "sidtab_abs s k = Some c \<Longrightarrow> \<exists>r. sidtab_cur s k = (k, c) # r"
  "sidtab_walked s k @ sidtab_cur s k = sd_htable s ! SIDTAB_HASH k"
proof -
  have "(dropWhile (\<lambda>(k', d). k' \<noteq> k) c = [] \<longleftrightarrow> map_of c k = None) \<and>
      (case dropWhile (\<lambda>(k', d). k' \<noteq> k) c of [] \<Rightarrow> None | (k', d) # r \<Rightarrow> Some d) = map_of c k \<and>
      (\<forall>d. map_of c k = Some d \<longrightarrow> (\<exists>r. dropWhile (\<lambda>(k', d). k' \<noteq> k) c = (k, d) # r))"
    for c :: "sidtab_node list" by (induction c) auto
  then show "sidtab_cur s k = [] \<longleftrightarrow> sidtab_abs s k = None" "sidtab_search (Some s) k = sidtab_abs s k"
    "sidtab_abs s k = Some c \<Longrightarrow> \<exists>r. sidtab_cur s k = (k, c) # r"
    by (simp_all add: sidtab_cur_def sidtab_search_def sidtab_abs_def buckets_map_def)
  show "sidtab_walked s k @ sidtab_cur s k = sd_htable s ! SIDTAB_HASH k"
    by (simp add: sidtab_walked_def sidtab_cur_def)
qed

lemma sidtab_init_ok: "sidtab_ok sidtab_init" "sidtab_abs sidtab_init = Map.empty"
proof -
  have i: "sd_htable sidtab_init = replicate 23 []" by (simp add: sidtab_init_def SIDTAB_SIZE_def)
  show "sidtab_abs sidtab_init = Map.empty" using sdh.map_empty by (simp only: sidtab_abs_def i)
  then show "sidtab_ok sidtab_init" using buckets_inv_empty [of SIDTAB_HASH 23] unfolding sidtab_ok_def i by simp
qed

lemma sidtab_okD:
  assumes "sidtab_ok s"
  shows "buckets_inv SIDTAB_HASH 23 (sd_htable s)" "sidtab_abs s k = Some c \<Longrightarrow> 0 < k \<and> k \<le> sd_nel s"
  using assms unfolding sidtab_ok_def by blast+

lemma sidtab_distinctD: "sidtab_distinct s \<Longrightarrow> sidtab_abs s k = Some c \<Longrightarrow> sidtab_abs s k' = Some c \<Longrightarrow> k = k'"
  unfolding sidtab_distinct_def by (metis domI inj_onD)

lemma sidtab_distinctI: "(\<And>k k' c. sidtab_abs s k = Some c \<Longrightarrow> sidtab_abs s k' = Some c \<Longrightarrow> k = k') \<Longrightarrow> sidtab_distinct s"
  by (auto simp: sidtab_distinct_def inj_on_def)

lemma sidtab_init_distinct: "sidtab_distinct sidtab_init"
  by (simp add: sidtab_distinct_def sidtab_init_ok(2))

lemma sidtab_insert_spec:
  assumes inv: "buckets_inv SIDTAB_HASH 23 (sd_htable s)"
  shows "sidtab_insert ok (Some s) k c = Inr s' \<Longrightarrow> sidtab_abs s k = None \<and>
      buckets_inv SIDTAB_HASH 23 (sd_htable s') \<and> sidtab_abs s' = (sidtab_abs s)(k \<mapsto> c) \<and> sd_nel s' = sd_nel s + 1"
    "sidtab_abs s k = None \<Longrightarrow> (\<And>p. ok p) \<Longrightarrow> \<exists>s'. sidtab_insert ok (Some s) k c = Inr s'"
    "sidtab_abs s k \<noteq> None \<Longrightarrow> sidtab_insert ok (Some s) k c = Inl EEXIST"
proof -
  assume ins: "sidtab_insert ok (Some s) k c = Inr s'"
  then have new: "sidtab_abs s k = None" and
    s': "s' = s\<lparr>sd_htable := (sd_htable s)[SIDTAB_HASH k := (k, c) # sd_htable s ! SIDTAB_HASH k],
       sd_nel := sd_nel s + 1\<rparr>"
    by (auto simp: sidtab_insert_def sidtab_walk(1) Let_def split: if_splits option.splits dest: context_cpy_id)
  show "sidtab_abs s k = None \<and> buckets_inv SIDTAB_HASH 23 (sd_htable s') \<and>
      sidtab_abs s' = (sidtab_abs s)(k \<mapsto> c) \<and> sd_nel s' = sd_nel s + 1"
    using new sdh.map_insert [OF inv, of k c] by (simp add: s' sidtab_abs_def)
next
  show "sidtab_abs s k = None \<Longrightarrow> (\<And>p. ok p) \<Longrightarrow> \<exists>s'. sidtab_insert ok (Some s) k c = Inr s'"
    using context_cpy_total [of "\<lambda>p. ok (1 # p)" context_init c]
    by (simp add: sidtab_insert_def sidtab_walk(1) Let_def)
  show "sidtab_abs s k \<noteq> None \<Longrightarrow> sidtab_insert ok (Some s) k c = Inl EEXIST"
    by (simp add: sidtab_insert_def sidtab_walk(1))
qed

lemma sidtab_find:
  assumes "sidtab_ok s"
  shows "find (\<lambda>(k, c'). context_cmp c' c) (concat (sd_htable s)) = Some (k, c') \<Longrightarrow> c' = c \<and> sidtab_abs s k = Some c"
    "find (\<lambda>(k, c'). context_cmp c' c) (concat (sd_htable s)) = None \<Longrightarrow> c \<notin> ran (sidtab_abs s)"
proof -
  note es = sdh.entries_map [OF sidtab_okD(1) [OF assms], folded sidtab_abs_def]
  show "find (\<lambda>(k, c'). context_cmp c' c) (concat (sd_htable s)) = Some (k, c') \<Longrightarrow> c' = c \<and> sidtab_abs s k = Some c"
    using map_of_is_SomeI [OF es(1)] unfolding es(2) by (auto simp: find_Some_iff dest: nth_mem)
  assume "find (\<lambda>(k, c'). context_cmp c' c) (concat (sd_htable s)) = None"
  then have "(k, c) \<notin> set (concat (sd_htable s))" for k unfolding find_None_iff by auto
  then have "map_of (concat (sd_htable s)) k \<noteq> Some c" for k using map_of_SomeD by fast
  then show "c \<notin> ran (sidtab_abs s)" unfolding es(2) by (auto simp: ran_def)
qed

lemma sidtab_context_to_sid_spec:
  assumes ok: "sidtab_ok s" and run: "sidtab_context_to_sid al s c = (res, sid, s')"
  shows "sidtab_ok s'"
    "res \<Longrightarrow> sidtab_abs s' sid = Some c \<and> sidtab_abs s' = (sidtab_abs s)(sid \<mapsto> c) \<and>
      (sidtab_abs s sid = Some c \<or> sidtab_abs s sid = None \<and> sid = sd_nel s + 1 \<and> c \<notin> ran (sidtab_abs s))"
    "c \<in> ran (sidtab_abs s) \<Longrightarrow> res \<and> s' = s"
    "\<not> res \<Longrightarrow> s' = s \<and> sid = 0"
    "(\<And>p. al p) \<Longrightarrow> sd_nel s \<noteq> - 1 \<Longrightarrow> res"
proof -
  let ?f = "find (\<lambda>(k, c'). context_cmp c' c) (concat (sd_htable s))"
  have new: "sidtab_abs s (sd_nel s + 1) = None" if "sd_nel s + 1 \<noteq> 0"
  proof (rule ccontr)
    assume "sidtab_abs s (sd_nel s + 1) \<noteq> None"
    then have "sd_nel s + 1 \<le> sd_nel s" using sidtab_okD(2) [OF ok, of "sd_nel s + 1"] by auto
    then show False using word_less_succ [OF that] by simp
  qed
  consider (old) k where "?f = Some (k, c)" "res" "sid = k" "s' = s" "sidtab_abs s k = Some c"
    | (add) s1 where "?f = None" "res" "sid = sd_nel s + 1" "sd_nel s + 1 \<noteq> 0" "s' = s1"
        "sidtab_insert (\<lambda>p. al (0 # p)) (Some s) sid c = Inr s1"
    | (fail) "?f = None" "\<not> res" "sid = 0" "s' = s" "sd_nel s + 1 = 0 \<or> (\<exists>e. sidtab_insert (\<lambda>p. al (0 # p)) (Some s) (sd_nel s + 1) c = Inl e)"
    using run sidtab_find(1) [OF ok, of c]
    by (cases ?f) (auto simp: sidtab_context_to_sid_def Let_def SECSID_NULL_def split: if_splits sum.splits)
  note cases = this
  show "sidtab_ok s'"
    using cases
  proof cases
    case add
    note s1 = sidtab_insert_spec(1) [OF sidtab_okD(1) [OF ok] add(6)]
    have le: "sd_nel s \<le> sd_nel s + 1" "0 < sd_nel s + 1"
      using add(4) word_less_succ [OF add(4)] by (simp_all add: word_gt_0)
    have "k \<le> sd_nel s + 1" "0 < k" if "sidtab_abs s k = Some d" for k d
      using sidtab_okD(2) [OF ok that] le by auto
    then show ?thesis using s1 le unfolding add(5) by (auto simp: sidtab_ok_def add(3))
  qed (use ok in auto)
  show "res \<Longrightarrow> sidtab_abs s' sid = Some c \<and> sidtab_abs s' = (sidtab_abs s)(sid \<mapsto> c) \<and>
      (sidtab_abs s sid = Some c \<or> sidtab_abs s sid = None \<and> sid = sd_nel s + 1 \<and> c \<notin> ran (sidtab_abs s))"
    using cases by cases (use sidtab_insert_spec(1) [OF sidtab_okD(1) [OF ok]] sidtab_find(2) [OF ok] in \<open>auto simp: fun_upd_idem_iff\<close>)
  show "c \<in> ran (sidtab_abs s) \<Longrightarrow> res \<and> s' = s" "\<not> res \<Longrightarrow> s' = s \<and> sid = 0"
    using cases sidtab_find(2) [OF ok, of c] by (cases, auto)+
  assume al: "\<And>p. al p" and "sd_nel s \<noteq> - 1"
  then have n: "sd_nel s + 1 \<noteq> 0" by (simp add: eq_neg_iff_add_eq_0)
  from sidtab_insert_spec(2) [OF sidtab_okD(1) [OF ok] new [OF n], of "\<lambda>p. al (0 # p)" c] al
  obtain s1 where "sidtab_insert (\<lambda>p. al (0 # p)) (Some s) (sd_nel s + 1) c = Inr s1" by metis
  then show res using cases n by cases auto
qed

lemma sidtab_context_to_sid_distinct:
  assumes "sidtab_ok s" "sidtab_context_to_sid al s c = (res, sid, s')" "sidtab_distinct s"
  shows "sidtab_distinct s'"
proof (cases res)
  case True
  note spec = sidtab_context_to_sid_spec(2) [OF assms(1,2) True]
  show ?thesis
  proof (rule sidtab_distinctI)
    fix k k' x
    assume "sidtab_abs s' k = Some x" "sidtab_abs s' k' = Some x"
    then show "k = k'" using spec sidtab_distinctD [OF assms(3), of k x k'] sidtab_distinctD [OF assms(3), of sid c] by (auto simp: ran_def split: if_splits)
  qed
next
  case False
  then show ?thesis using sidtab_context_to_sid_spec(4) [OF assms(1,2)] assms(3) by simp
qed

text \<open>A context that is already in the table is found, and the table stays as it is.\<close>

lemma sidtab_context_to_sid_known:
  assumes s: "sidtab_ok s" and c: "sidtab_abs s sid = Some c"
  shows "\<exists>sid'. sidtab_context_to_sid al s c = (True, sid', s) \<and> sidtab_abs s sid' = Some c \<and> (sidtab_distinct s \<longrightarrow> sid' = sid)"
proof -
  obtain res k s' where run: "sidtab_context_to_sid al s c = (res, k, s')" by (cases "sidtab_context_to_sid al s c") auto
  note spec = sidtab_context_to_sid_spec [OF s run]
  have r: "res" "s' = s" using spec(3) c by (auto simp: ran_def)
  then have "sidtab_abs s k = Some c" using spec(2) by simp
  then show ?thesis using run r sidtab_distinctD [of s k c sid] c by auto
qed

end
