(* ===== verification/Hashtab.thy ===== *)
theory Hashtab
  imports Buckets
begin

text \<open>
  The generic hash table (\<open>security/hashtab.[ch]\<close>) and the symbol tables built on it
  (\<open>security/symtab.[ch]\<close>).  A \<open>hashtab_t\<close> is a pointer: \<open>None\<close> is \<open>NULL\<close>.  A chain of
  \<open>hashtab_node\<close>s is a list of key-datum pairs.  The callbacks of the caller are
  parameters; \<open>apply\<close> and \<open>destroy\<close> may change what \<open>args\<close> points to, so they
  thread a state.  Indexing \<open>htable\<close> out of its bounds is undefined in C and is the
  outcome \<open>None\<close> of the operations.
\<close>

section \<open>Definitions\<close>

datatype hashtab_status = HASHTAB_SUCCESS | HASHTAB_OVERFLOW | HASHTAB_PRESENT | HASHTAB_MISSING

type_synonym ('k, 'd) hashtab_node = "'k \<times> 'd"

record ('k, 'd) hashtab_val =
  htable :: "('k, 'd) hashtab_node list list"
  hsize :: u32
  nel :: u32
  hash_value :: "'k \<Rightarrow> u32"
  keycmp :: "'k \<Rightarrow> 'k \<Rightarrow> int"

type_synonym ('k, 'd) hashtab_t = "('k, 'd) hashtab_val option"

definition hashtab_create ::
    "mallocs \<Rightarrow> ('k \<Rightarrow> u32) \<Rightarrow> ('k \<Rightarrow> 'k \<Rightarrow> int) \<Rightarrow> u32 \<Rightarrow> ('k, 'd) hashtab_t" where
  "hashtab_create ok hv cmp sz =
     (if \<not> ok 0 then None
      else if \<not> ok 1 then None
      else Some \<lparr>htable = replicate (unat sz) [], hsize = sz, nel = 0,
                 hash_value = hv, keycmp = cmp\<rparr>)"

text \<open>The chain a key hashes to, and the search along it: the nodes walked over and the
  rest, which begins with the node \<open>cur\<close> stops at.\<close>

definition hashtab_slot :: "('k, 'd) hashtab_val \<Rightarrow> nat \<Rightarrow> ('k, 'd) hashtab_node list option" where
  "hashtab_slot h hvalue = (if hvalue < length (htable h) then Some (htable h ! hvalue) else None)"

definition hashtab_walked ::
    "('k, 'd) hashtab_val \<Rightarrow> 'k \<Rightarrow> ('k, 'd) hashtab_node list \<Rightarrow> ('k, 'd) hashtab_node list" where
  "hashtab_walked h key chain = takeWhile (\<lambda>(k, d). keycmp h k key \<noteq> 0) chain"

definition hashtab_cur ::
    "('k, 'd) hashtab_val \<Rightarrow> 'k \<Rightarrow> ('k, 'd) hashtab_node list \<Rightarrow> ('k, 'd) hashtab_node list" where
  "hashtab_cur h key chain = dropWhile (\<lambda>(k, d). keycmp h k key \<noteq> 0) chain"

definition hashtab_insert ::
    "bool \<Rightarrow> ('k, 'd) hashtab_t \<Rightarrow> 'k \<Rightarrow> 'd \<Rightarrow> (hashtab_status \<times> ('k, 'd) hashtab_t) option" where
  "hashtab_insert ok hp key datum =
     (case hp of
        None \<Rightarrow> Some (HASHTAB_OVERFLOW, hp)
      | Some h \<Rightarrow> do {
          let hvalue = unat (hash_value h key);
          chain \<leftarrow> hashtab_slot h hvalue;
          if hashtab_cur h key chain \<noteq> [] then Some (HASHTAB_PRESENT, hp)
          else if \<not> ok then Some (HASHTAB_OVERFLOW, hp)
          else Some (HASHTAB_SUCCESS,
            Some (h\<lparr>htable := (htable h)[hvalue := (key, datum) # chain], nel := nel h + 1\<rparr>))
        })"

definition hashtab_remove ::
    "('k, 'd) hashtab_t \<Rightarrow> 'k \<Rightarrow> ('k \<Rightarrow> 'd \<Rightarrow> 'a \<Rightarrow> 'a) option \<Rightarrow> 'a
     \<Rightarrow> (hashtab_status \<times> ('k, 'd) hashtab_t \<times> 'a) option" where
  "hashtab_remove hp key destroy args =
     (case hp of
        None \<Rightarrow> Some (HASHTAB_MISSING, hp, args)
      | Some h \<Rightarrow> do {
          let hvalue = unat (hash_value h key);
          chain \<leftarrow> hashtab_slot h hvalue;
          case hashtab_cur h key chain of
            [] \<Rightarrow> Some (HASHTAB_MISSING, hp, args)
          | (k, d) # next \<Rightarrow>
              Some (HASHTAB_SUCCESS,
                Some (h\<lparr>htable := (htable h)[hvalue := hashtab_walked h key chain @ next],
                        nel := nel h - 1\<rparr>),
                case destroy of None \<Rightarrow> args | Some f \<Rightarrow> f k d args)
        })"

definition hashtab_replace ::
    "bool \<Rightarrow> ('k, 'd) hashtab_t \<Rightarrow> 'k \<Rightarrow> 'd \<Rightarrow> ('k \<Rightarrow> 'd \<Rightarrow> 'a \<Rightarrow> 'a) option \<Rightarrow> 'a
     \<Rightarrow> (hashtab_status \<times> ('k, 'd) hashtab_t \<times> 'a) option" where
  "hashtab_replace ok hp key datum destroy args =
     (case hp of
        None \<Rightarrow> Some (HASHTAB_OVERFLOW, hp, args)
      | Some h \<Rightarrow> do {
          let hvalue = unat (hash_value h key);
          chain \<leftarrow> hashtab_slot h hvalue;
          case hashtab_cur h key chain of
            (k, d) # next \<Rightarrow>
              Some (HASHTAB_SUCCESS,
                Some (h\<lparr>htable := (htable h)[hvalue := hashtab_walked h key chain @ (key, datum) # next]\<rparr>),
                case destroy of None \<Rightarrow> args | Some f \<Rightarrow> f k d args)
          | [] \<Rightarrow>
              if \<not> ok then Some (HASHTAB_OVERFLOW, hp, args)
              else Some (HASHTAB_SUCCESS,
                Some (h\<lparr>htable := (htable h)[hvalue := (key, datum) # chain]\<rparr>), args)
        })"

text \<open>The datum pointer; the outer option is the undefined access, the inner one \<open>NULL\<close>.\<close>

definition hashtab_search :: "('k, 'd) hashtab_t \<Rightarrow> 'k \<Rightarrow> 'd option option" where
  "hashtab_search hp key =
     (case hp of
        None \<Rightarrow> Some None
      | Some h \<Rightarrow> do {
          chain \<leftarrow> hashtab_slot h (unat (hash_value h key));
          case hashtab_cur h key chain of
            [] \<Rightarrow> Some None
          | (k, d) # next \<Rightarrow> Some (Some d)
        })"

text \<open>What the table holds when \<open>hashtab_destroy\<close> frees it.\<close>

definition hashtab_destroy :: "('k, 'd) hashtab_t \<Rightarrow> ('k, 'd) hashtab_t" where
  "hashtab_destroy hp =
     map_option (\<lambda>h. h\<lparr>htable := fold (\<lambda>i t. t[i := []]) [0..<unat (hsize h)] (htable h)\<rparr>) hp"

fun hashtab_map_chain ::
    "('k \<Rightarrow> 'd \<Rightarrow> 'a \<Rightarrow> int \<times> 'a) \<Rightarrow> ('k, 'd) hashtab_node list \<Rightarrow> 'a \<Rightarrow> int \<times> 'a" where
  "hashtab_map_chain apply_fn [] args = (0, args)"
| "hashtab_map_chain apply_fn ((k, d) # next) args = (
     let (ret, args) = apply_fn k d args
     in if ret \<noteq> 0 then (ret, args) else hashtab_map_chain apply_fn next args)"

fun hashtab_map_slots ::
    "('k \<Rightarrow> 'd \<Rightarrow> 'a \<Rightarrow> int \<times> 'a) \<Rightarrow> ('k, 'd) hashtab_node list list \<Rightarrow> 'a \<Rightarrow> int \<times> 'a" where
  "hashtab_map_slots apply_fn [] args = (0, args)"
| "hashtab_map_slots apply_fn (chain # rest) args = (
     let (ret, args) = hashtab_map_chain apply_fn chain args
     in if ret \<noteq> 0 then (ret, args) else hashtab_map_slots apply_fn rest args)"

definition hashtab_map ::
    "('k, 'd) hashtab_t \<Rightarrow> ('k \<Rightarrow> 'd \<Rightarrow> 'a \<Rightarrow> int \<times> 'a) \<Rightarrow> 'a \<Rightarrow> int \<times> 'a" where
  "hashtab_map hp apply_fn args =
     (case hp of
        None \<Rightarrow> (0, args)
      | Some h \<Rightarrow> hashtab_map_slots apply_fn (take (unat (hsize h)) (htable h)) args)"

text \<open>The result of the inner loop: the chain that stays, the count \<open>nel\<close>, the state.\<close>

fun hashtab_prune_chain ::
    "('k \<Rightarrow> 'd \<Rightarrow> 'a \<Rightarrow> int \<times> 'a) \<Rightarrow> ('k \<Rightarrow> 'd \<Rightarrow> 'a \<Rightarrow> 'a) option \<Rightarrow> ('k, 'd) hashtab_node list
     \<Rightarrow> u32 \<Rightarrow> 'a \<Rightarrow> ('k, 'd) hashtab_node list \<times> u32 \<times> 'a" where
  "hashtab_prune_chain apply_fn destroy [] n args = ([], n, args)"
| "hashtab_prune_chain apply_fn destroy ((k, d) # next) n args = (
     let (ret, args) = apply_fn k d args
     in if ret \<noteq> 0
        then hashtab_prune_chain apply_fn destroy next (n - 1)
               (case destroy of None \<Rightarrow> args | Some f \<Rightarrow> f k d args)
        else
          let (chain, n, args) = hashtab_prune_chain apply_fn destroy next n args
          in ((k, d) # chain, n, args))"

fun hashtab_prune_slots ::
    "('k \<Rightarrow> 'd \<Rightarrow> 'a \<Rightarrow> int \<times> 'a) \<Rightarrow> ('k \<Rightarrow> 'd \<Rightarrow> 'a \<Rightarrow> 'a) option \<Rightarrow> ('k, 'd) hashtab_node list list
     \<Rightarrow> u32 \<Rightarrow> 'a \<Rightarrow> ('k, 'd) hashtab_node list list \<times> u32 \<times> 'a" where
  "hashtab_prune_slots apply_fn destroy [] n args = ([], n, args)"
| "hashtab_prune_slots apply_fn destroy (chain # rest) n args = (
     let (chain, n, args) = hashtab_prune_chain apply_fn destroy chain n args;
         (rest, n, args) = hashtab_prune_slots apply_fn destroy rest n args
     in (chain # rest, n, args))"

definition hashtab_map_remove_on_error ::
    "('k, 'd) hashtab_t \<Rightarrow> ('k \<Rightarrow> 'd \<Rightarrow> 'a \<Rightarrow> int \<times> 'a) \<Rightarrow> ('k \<Rightarrow> 'd \<Rightarrow> 'a \<Rightarrow> 'a) option \<Rightarrow> 'a
     \<Rightarrow> ('k, 'd) hashtab_t \<times> 'a" where
  "hashtab_map_remove_on_error hp apply_fn destroy args =
     (case hp of
        None \<Rightarrow> (hp, args)
      | Some h \<Rightarrow>
          let (slots, n, args) =
            hashtab_prune_slots apply_fn destroy (take (unat (hsize h)) (htable h)) (nel h) args
          in (Some (h\<lparr>htable := slots @ drop (unat (hsize h)) (htable h), nel := n\<rparr>), args))"

subsection \<open>Symbol tables\<close>

definition SYMTAB_SIZE :: u32 where
  "SYMTAB_SIZE = 23"

text \<open>\<open>char\<close> is signed on the targets: the exclusive or extends its sign.\<close>

definition symhash_step :: "u32 \<Rightarrow> char \<Rightarrow> u32" where
  "symhash_step h c = push_bit 4 h XOR scast (of_char c :: 8 word)"

definition symhash :: "string \<Rightarrow> u32" where
  "symhash key = fold (\<lambda>c h. symhash_step h c) key 0 mod SYMTAB_SIZE"

text \<open>\<open>strcmp\<close> compares the bytes as unsigned characters.\<close>

fun symcmp :: "string \<Rightarrow> string \<Rightarrow> int" where
  "symcmp [] [] = 0"
| "symcmp [] (c # cs) = -1"
| "symcmp (c # cs) [] = 1"
| "symcmp (c # cs) (d # ds) =
     (if c = d then symcmp cs ds
      else if (of_char c :: nat) < of_char d then -1 else 1)"

record 'd symtab =
  sym_table :: "(string, 'd) hashtab_t"
  sym_nprim :: u32

definition symtab_init :: "mallocs \<Rightarrow> 'd symtab \<Rightarrow> int \<times> 'd symtab" where
  "symtab_init ok s = (
     let s = s\<lparr>sym_table := hashtab_create ok symhash symcmp SYMTAB_SIZE\<rparr>
     in if Option.is_none (sym_table s) then (-1, s)
        else (0, s\<lparr>sym_nprim := 0\<rparr>))"

end
