(* ===== verification/Hashtab_Map.thy ===== *)
theory Hashtab_Map
  imports Hashtab
begin

text \<open>
  The hash table as a finite map from keys to data.  The laws assumed of the callbacks of
  a table are part of its invariant: the comparison is zero exactly on equal keys and
  the hash value is a slot number.  Symbol tables satisfy them.
\<close>

section \<open>Invariant and abstraction\<close>

abbreviation hhash :: "('k, 'd) hashtab_val \<Rightarrow> 'k \<Rightarrow> nat" where
  "hhash h k \<equiv> unat (hash_value h k)"

definition hashtab_ok :: "('k, 'd) hashtab_val \<Rightarrow> bool" where
  "hashtab_ok h \<longleftrightarrow>
     (\<forall>k k'. keycmp h k k' = 0 \<longleftrightarrow> k = k') \<and> hashing (hhash h) (unat (hsize h)) \<and>
     buckets_inv (hhash h) (unat (hsize h)) (htable h)"

definition hashtab_abs :: "('k, 'd) hashtab_val \<Rightarrow> 'k \<Rightarrow> 'd option" where
  "hashtab_abs h = buckets_map (hhash h) (htable h)"

definition nel_ok :: "('k, 'd) hashtab_val \<Rightarrow> bool" where
  "nel_ok h \<longleftrightarrow> nel h = of_nat (length (concat (htable h)))"

lemma hashtab_okD:
  assumes "hashtab_ok h"
  shows "keycmp h k k' = 0 \<longleftrightarrow> k = k'" "hashing (hhash h) (unat (hsize h))"
    "buckets_inv (hhash h) (unat (hsize h)) (htable h)" "hhash h k < length (htable h)"
    "length (htable h) = unat (hsize h)"
  using assms hashing.hash_less [of "hhash h"] by (auto simp: hashtab_ok_def buckets_inv_def)

lemma hashtab_slot_ok: "hashtab_ok h \<Longrightarrow> hashtab_slot h (hhash h k) = Some (htable h ! hhash h k)"
  by (simp add: hashtab_slot_def hashtab_okD(4))

lemma hashtab_ok_upd:
  assumes "hashtab_ok h" "chain_ok (hhash h) (hhash h k) c"
  shows "hashtab_ok (h\<lparr>htable := (htable h)[hhash h k := c], nel := n\<rparr>)"
    "hashtab_abs (h\<lparr>htable := (htable h)[hhash h k := c], nel := n\<rparr>) k' =
       (if hhash h k' = hhash h k then map_of c k' else hashtab_abs h k')"
proof -
  note h = hashtab_okD [OF assms(1)]
  have less: "hhash h k < unat (hsize h)" by (rule hashing.hash_less [OF h(2)])
  show "hashtab_ok (h\<lparr>htable := (htable h)[hhash h k := c], nel := n\<rparr>)"
    using h(1,2) buckets_inv_upd [OF h(3) less assms(2)] by (simp add: hashtab_ok_def)
  show "hashtab_abs (h\<lparr>htable := (htable h)[hhash h k := c], nel := n\<rparr>) k' =
       (if hhash h k' = hhash h k then map_of c k' else hashtab_abs h k')"
    using hashing.map_upd [OF h(2,3) assms(2) less] by (simp add: hashtab_abs_def)
qed

text \<open>The search stops at the node with the key, if there is one.\<close>

lemma hashtab_walk:
  fixes h :: "('k, 'd) hashtab_val" and k :: 'k
  assumes "hashtab_ok h"
  defines "c \<equiv> htable h ! hhash h k"
  shows "hashtab_abs h k = None \<longleftrightarrow> hashtab_cur h k c = []"
    "hashtab_abs h k = Some d \<longleftrightarrow> (\<exists>r. hashtab_cur h k c = (k, d) # r)"
    "hashtab_walked h k c @ hashtab_cur h k c = c"
    "k \<notin> fst ` set (hashtab_walked h k c)"
proof -
  have cmp: "keycmp h k' k = 0 \<longleftrightarrow> k' = k" for k' using hashtab_okD(1) [OF assms(1)] .
  have abs: "hashtab_abs h k = map_of c k" by (simp add: hashtab_abs_def buckets_map_def c_def)
  have "(map_of c k = None \<longleftrightarrow> hashtab_cur h k c = []) \<and>
      (map_of c k = Some d \<longleftrightarrow> (\<exists>r. hashtab_cur h k c = (k, d) # r))" for c
    by (induction c) (auto simp: hashtab_cur_def cmp)
  then show "hashtab_abs h k = None \<longleftrightarrow> hashtab_cur h k c = []"
    "hashtab_abs h k = Some d \<longleftrightarrow> (\<exists>r. hashtab_cur h k c = (k, d) # r)"
    by (simp_all add: abs)
  show "hashtab_walked h k c @ hashtab_cur h k c = c" by (simp add: hashtab_walked_def hashtab_cur_def)
  show "k \<notin> fst ` set (hashtab_walked h k c)"
    by (auto simp: hashtab_walked_def cmp dest: set_takeWhileD)
qed

lemma hashtab_search_abs:
  assumes "hashtab_ok h"
  shows "hashtab_search (Some h) k = Some (hashtab_abs h k)"
proof (cases "hashtab_abs h k")
  case None
  then show ?thesis
    using hashtab_walk(1) [OF assms, of k] by (simp add: hashtab_search_def hashtab_slot_ok [OF assms])
next
  case (Some d)
  then obtain r where "hashtab_cur h k (htable h ! hhash h k) = (k, d) # r"
    using hashtab_walk(2) [OF assms, of k d] by blast
  then show ?thesis using Some by (simp add: hashtab_search_def hashtab_slot_ok [OF assms])
qed

lemma map_of_skip: "k' \<noteq> k \<Longrightarrow> map_of (w @ (k, d) # r) k' = map_of (w @ r) k'"
  by (simp add: map_add_def split: option.splits)

section \<open>Operations\<close>

lemma hashtab_insert_spec:
  assumes ok: "hashtab_ok h"
  shows "hashtab_abs h k \<noteq> None \<Longrightarrow> hashtab_insert m (Some h) k d = Some (HASHTAB_PRESENT, Some h)"
    "hashtab_abs h k = None \<Longrightarrow> \<not> m \<Longrightarrow> hashtab_insert m (Some h) k d = Some (HASHTAB_OVERFLOW, Some h)"
    "hashtab_abs h k = None \<Longrightarrow> m \<Longrightarrow> \<exists>h'. hashtab_insert m (Some h) k d = Some (HASHTAB_SUCCESS, Some h') \<and>
       hashtab_ok h' \<and> hashtab_abs h' = (hashtab_abs h)(k \<mapsto> d) \<and> nel h' = nel h + 1 \<and> (nel_ok h \<longrightarrow> nel_ok h')"
proof -
  let ?c = "htable h ! hhash h k"
  note walk = hashtab_walk(1) [OF ok, of k] and h = hashtab_okD [OF ok]
  show "hashtab_abs h k \<noteq> None \<Longrightarrow> hashtab_insert m (Some h) k d = Some (HASHTAB_PRESENT, Some h)"
    "hashtab_abs h k = None \<Longrightarrow> \<not> m \<Longrightarrow> hashtab_insert m (Some h) k d = Some (HASHTAB_OVERFLOW, Some h)"
    using walk by (simp_all add: hashtab_insert_def hashtab_slot_ok [OF ok])
  assume new: "hashtab_abs h k = None" and m
  let ?h = "h\<lparr>htable := (htable h)[hhash h k := (k, d) # ?c], nel := nel h + 1\<rparr>"
  have "hashtab_insert m (Some h) k d = Some (HASHTAB_SUCCESS, Some ?h)"
    using walk new \<open>m\<close> by (simp add: hashtab_insert_def Let_def hashtab_slot_ok [OF ok])
  moreover have "hashtab_ok ?h" "hashtab_abs ?h = (hashtab_abs h)(k \<mapsto> d)"
    using hashing.map_insert [OF h(2,3), of k d] new h(1,2) by (simp_all add: hashtab_ok_def hashtab_abs_def)
  moreover have "nel_ok ?h" if "nel_ok h"
    using that concat_upd_length [OF h(4) [of k], of "(k, d) # ?c"] by (simp add: nel_ok_def)
  ultimately show "\<exists>h'. hashtab_insert m (Some h) k d = Some (HASHTAB_SUCCESS, Some h') \<and>
       hashtab_ok h' \<and> hashtab_abs h' = (hashtab_abs h)(k \<mapsto> d) \<and> nel h' = nel h + 1 \<and> (nel_ok h \<longrightarrow> nel_ok h')"
    by auto
qed

lemma hashtab_split:
  assumes ok: "hashtab_ok h" and d: "hashtab_abs h k = Some d"
  obtains r where "hashtab_cur h k (htable h ! hhash h k) = (k, d) # r"
    "htable h ! hhash h k = hashtab_walked h k (htable h ! hhash h k) @ (k, d) # r"
    "chain_ok (hhash h) (hhash h k) (hashtab_walked h k (htable h ! hhash h k) @ (k, d) # r)"
proof -
  note walk = hashtab_walk [OF ok, of k] and h = hashtab_okD [OF ok]
  obtain r where r: "hashtab_cur h k (htable h ! hhash h k) = (k, d) # r" using walk(2) d by blast
  have "chain_ok (hhash h) (hhash h k) (htable h ! hhash h k)" by (rule hashing.chain_of [OF h(2,3)])
  then show ?thesis using that [of r] r walk(3) by simp
qed

lemma hashtab_remove_spec:
  assumes ok: "hashtab_ok h"
  shows "hashtab_abs h k = None \<Longrightarrow> hashtab_remove (Some h) k f a = Some (HASHTAB_MISSING, Some h, a)"
    "hashtab_abs h k = Some d \<Longrightarrow> \<exists>h'. hashtab_remove (Some h) k f a =
         Some (HASHTAB_SUCCESS, Some h', case f of None \<Rightarrow> a | Some g \<Rightarrow> g k d a) \<and>
       hashtab_ok h' \<and> hashtab_abs h' = (hashtab_abs h)(k := None) \<and> nel h' = nel h - 1 \<and> (nel_ok h \<longrightarrow> nel_ok h')"
proof -
  let ?c = "htable h ! hhash h k" let ?w = "hashtab_walked h k ?c"
  note walk = hashtab_walk [OF ok, of k] and h = hashtab_okD [OF ok]
  show "hashtab_abs h k = None \<Longrightarrow> hashtab_remove (Some h) k f a = Some (HASHTAB_MISSING, Some h, a)"
    using walk(1) by (simp add: hashtab_remove_def hashtab_slot_ok [OF ok])
  assume d: "hashtab_abs h k = Some d"
  then obtain r where r: "hashtab_cur h k ?c = (k, d) # r" "?c = ?w @ (k, d) # r"
    "chain_ok (hhash h) (hhash h k) (?w @ (k, d) # r)" by (rule hashtab_split [OF ok])
  let ?h = "h\<lparr>htable := (htable h)[hhash h k := ?w @ r], nel := nel h - 1\<rparr>"
  have c: "chain_ok (hhash h) (hhash h k) (?w @ r)" and k: "k \<notin> fst ` set (?w @ r)"
    using r(3) by (auto simp: chain_ok_def)
  note upd = hashtab_ok_upd [OF ok c, of "nel h - 1"]
  have "hashtab_abs ?h k' = ((hashtab_abs h)(k := None)) k'" for k'
  proof (cases "k' = k")
    case True
    have "map_of (?w @ r) k = None" using k by (simp only: map_of_eq_None_iff) simp
    then show ?thesis using True upd(2) [of k'] by simp
  next
    case False
    then have "hashtab_abs h k' = map_of (?w @ r) k'" if "hhash h k' = hhash h k"
      using map_of_skip [OF False] r(2) that by (metis hashtab_abs_def buckets_map_def)
    then show ?thesis using False upd(2) [of k'] by simp
  qed
  moreover have "nel_ok ?h" if "nel_ok h"
  proof -
    have "Suc (length (concat ((htable h)[hhash h k := ?w @ r]))) = length (concat (htable h))"
      using concat_upd_length [OF h(4) [of k], of "?w @ r"] arg_cong [OF r(2), of length] by simp
    then have "nel h = of_nat (Suc (length (concat ((htable h)[hhash h k := ?w @ r]))))"
      using that by (simp add: nel_ok_def)
    then show ?thesis by (simp add: nel_ok_def)
  qed
  ultimately show "\<exists>h'. hashtab_remove (Some h) k f a =
         Some (HASHTAB_SUCCESS, Some h', case f of None \<Rightarrow> a | Some g \<Rightarrow> g k d a) \<and>
       hashtab_ok h' \<and> hashtab_abs h' = (hashtab_abs h)(k := None) \<and> nel h' = nel h - 1 \<and> (nel_ok h \<longrightarrow> nel_ok h')"
    using upd(1) r(1) by (intro exI [of _ ?h]) (auto simp: hashtab_remove_def Let_def hashtab_slot_ok [OF ok] fun_eq_iff)
qed

lemma hashtab_replace_spec:
  assumes ok: "hashtab_ok h"
  shows "hashtab_abs h k = None \<Longrightarrow> \<not> m \<Longrightarrow>
      hashtab_replace m (Some h) k d f a = Some (HASHTAB_OVERFLOW, Some h, a)"
    "hashtab_abs h k \<noteq> None \<or> m \<Longrightarrow> \<exists>h'. hashtab_replace m (Some h) k d f a =
         Some (HASHTAB_SUCCESS, Some h', case (hashtab_abs h k, f) of (Some d', Some g) \<Rightarrow> g k d' a | _ \<Rightarrow> a) \<and>
       hashtab_ok h' \<and> hashtab_abs h' = (hashtab_abs h)(k \<mapsto> d) \<and> nel h' = nel h"
proof -
  let ?c = "htable h ! hhash h k" let ?w = "hashtab_walked h k ?c"
  note walk = hashtab_walk [OF ok, of k] and h = hashtab_okD [OF ok]
  show "hashtab_abs h k = None \<Longrightarrow> \<not> m \<Longrightarrow>
      hashtab_replace m (Some h) k d f a = Some (HASHTAB_OVERFLOW, Some h, a)"
    using walk(1) by (simp add: hashtab_replace_def hashtab_slot_ok [OF ok])
  assume can: "hashtab_abs h k \<noteq> None \<or> m"
  define c where "c = (case hashtab_cur h k ?c of (k', d') # r \<Rightarrow> ?w @ (k, d) # r | [] \<Rightarrow> (k, d) # ?c)"
  have c: "chain_ok (hhash h) (hhash h k) c \<and> map_of c k = Some d \<and> (\<forall>k'. k' \<noteq> k \<longrightarrow> map_of c k' = map_of ?c k')"
  proof (cases "hashtab_abs h k")
    case None
    then have "c = (k, d) # ?c" "map_of ?c k = None"
      using walk(1) by (auto simp: c_def hashtab_abs_def buckets_map_def)
    then show ?thesis
      using hashing.chain_of [OF h(2,3), of k] by (simp add: chain_ok_Cons map_of_eq_None_iff)
  next
    case (Some d')
    then obtain r where r: "hashtab_cur h k ?c = (k, d') # r" "?c = ?w @ (k, d') # r"
      "chain_ok (hhash h) (hhash h k) (?w @ (k, d') # r)" by (rule hashtab_split [OF ok])
    have "c = ?w @ (k, d) # r" using r(1) by (simp add: c_def)
    moreover have "map_of ?w k = None" using walk(4) by (simp only: map_of_eq_None_iff) simp
    moreover have "map_of (?w @ (k, d) # r) k' = map_of ?c k'" if "k' \<noteq> k" for k'
      using map_of_skip [OF that] r(2) by metis
    ultimately show ?thesis using r(3) by (auto simp: chain_ok_def map_add_def)
  qed
  let ?h = "h\<lparr>htable := (htable h)[hhash h k := c]\<rparr>"
  have h': "?h = h\<lparr>htable := (htable h)[hhash h k := c], nel := nel h\<rparr>" by simp
  have "hashtab_ok ?h" using hashtab_ok_upd(1) [of h k c "nel h"] ok c h' by simp
  moreover have "hashtab_abs ?h = (hashtab_abs h)(k \<mapsto> d)"
  proof
    fix k'
    show "hashtab_abs ?h k' = ((hashtab_abs h)(k \<mapsto> d)) k'"
      using hashtab_ok_upd(2) [of h k c "nel h" k'] ok c h' by (auto simp: hashtab_abs_def buckets_map_def)
  qed
  moreover have "hashtab_replace m (Some h) k d f a =
      Some (HASHTAB_SUCCESS, Some ?h, case (hashtab_abs h k, f) of (Some d', Some g) \<Rightarrow> g k d' a | _ \<Rightarrow> a)"
  proof (cases "hashtab_abs h k")
    case None
    then show ?thesis
      using walk(1) can by (simp add: hashtab_replace_def Let_def hashtab_slot_ok [OF ok] c_def split: option.splits)
  next
    case (Some d')
    then obtain r where "hashtab_cur h k ?c = (k, d') # r" using walk(2) by blast
    then show ?thesis
      using Some by (simp add: hashtab_replace_def Let_def hashtab_slot_ok [OF ok] c_def split: option.splits)
  qed
  ultimately show "\<exists>h'. hashtab_replace m (Some h) k d f a =
         Some (HASHTAB_SUCCESS, Some h', case (hashtab_abs h k, f) of (Some d', Some g) \<Rightarrow> g k d' a | _ \<Rightarrow> a) \<and>
       hashtab_ok h' \<and> hashtab_abs h' = (hashtab_abs h)(k \<mapsto> d) \<and> nel h' = nel h" by auto
qed

text \<open>Walking the table visits the entries in the order of the slots.\<close>

lemma hashtab_map_chain_append:
  "hashtab_map_chain f (xs @ ys) a = (
     let (ret, a) = hashtab_map_chain f xs a in if ret \<noteq> 0 then (ret, a) else hashtab_map_chain f ys a)"
  by (induction f xs a rule: hashtab_map_chain.induct) (auto simp: Let_def split: prod.splits)

lemma hashtab_map_slots_concat: "hashtab_map_slots f tab a = hashtab_map_chain f (concat tab) a"
  by (induction f tab a rule: hashtab_map_slots.induct)
     (auto simp: hashtab_map_chain_append Let_def split: prod.splits)

lemma hashtab_map_concat:
  "hashtab_ok h \<Longrightarrow> hashtab_map (Some h) f a = hashtab_map_chain f (concat (htable h)) a"
  using hashtab_okD(5) [of h] by (simp add: hashtab_map_def hashtab_map_slots_concat)

text \<open>Pruning with a test that leaves \<open>args\<close> alone filters the map.\<close>

lemma hashtab_prune_chain_filter:
  "\<exists>a'. hashtab_prune_chain (\<lambda>k d a. (f k d, a)) g c n a =
     (filter (\<lambda>(k, d). f k d = 0) c, n - of_nat (length (filter (\<lambda>(k, d). f k d \<noteq> 0) c)), a')"
proof (induction c arbitrary: n a)
  case Nil
  then show ?case by simp
next
  case (Cons e c)
  obtain k d where e: "e = (k, d)" by (cases e)
  show ?case
  proof (cases "f k d = 0")
    case True
    then show ?thesis using Cons [of n a] by (auto simp: e)
  next
    case False
    then show ?thesis using Cons [of "n - 1" "case g of None \<Rightarrow> a | Some h \<Rightarrow> h k d a"]
      by (auto simp: e algebra_simps)
  qed
qed

lemma hashtab_prune_slots_filter:
  "\<exists>a'. hashtab_prune_slots (\<lambda>k d a. (f k d, a)) g tab n a =
     (map (filter (\<lambda>(k, d). f k d = 0)) tab,
      n - of_nat (length (filter (\<lambda>(k, d). f k d \<noteq> 0) (concat tab))), a')"
proof (induction tab arbitrary: n a)
  case Nil
  then show ?case by simp
next
  case (Cons c tab)
  obtain a1 where "hashtab_prune_chain (\<lambda>k d a. (f k d, a)) g c n a =
     (filter (\<lambda>(k, d). f k d = 0) c, n - of_nat (length (filter (\<lambda>(k, d). f k d \<noteq> 0) c)), a1)"
    using hashtab_prune_chain_filter by metis
  then show ?case
    using Cons [of "n - of_nat (length (filter (\<lambda>(k, d). f k d \<noteq> 0) c))" a1] by (auto simp: algebra_simps)
qed

lemma map_of_filter_pred:
  "distinct (map fst c) \<Longrightarrow> map_of (filter (\<lambda>(k, d). P k d) c) k =
     (case map_of c k of Some d \<Rightarrow> if P k d then Some d else None | None \<Rightarrow> None)"
  by (induction c) (auto split: option.splits if_splits dest: map_of_SomeD, force+)

end
