(* ===== verification/Hashtab_Spec.thy ===== *)
theory Hashtab_Spec
  imports Hashtab_Map
begin

text \<open>
  Symbol tables satisfy the laws the hash table asks of its callbacks, so the
  operations on them are those of a finite map; the hash table is an
  instance of the interface \<open>insert_table\<close>.
\<close>

section \<open>Symbol tables\<close>

lemma symhash_less: "unat (symhash k) < 23"
  unfolding symhash_def SYMTAB_SIZE_def by (simp add: unat_mod)

lemma symcmp_zero_iff: "symcmp k k' = 0 \<longleftrightarrow> k = k'"
  by (induction k k' rule: symcmp.induct) auto

interpretation sym: hashing "\<lambda>k. unat (symhash k)" 23
  by unfold_locales (rule symhash_less)

lemma symtab_init_ok:
  assumes "symtab_init ok s = (0, s')"
  obtains h where "sym_table s' = Some h" "hashtab_ok h" "hashtab_abs h = Map.empty" "nel_ok h" "sym_nprim s' = 0"
    "hash_value h = symhash" "keycmp h = symcmp"
proof -
  let ?h = "\<lparr>htable = replicate 23 [], hsize = 23, nel = 0, hash_value = symhash, keycmp = symcmp\<rparr>"
  have "sym_table s' = Some ?h" "sym_nprim s' = 0"
    using assms by (auto simp: symtab_init_def hashtab_create_def Let_def SYMTAB_SIZE_def split: if_splits)
  moreover have "hashtab_ok ?h"
    using symcmp_zero_iff sym.hashing_axioms by (simp add: hashtab_ok_def buckets_inv_empty)
  moreover have "hashtab_abs ?h = Map.empty" using sym.map_empty by (simp add: hashtab_abs_def)
  moreover have "nel_ok ?h" by (simp add: nel_ok_def)
  ultimately show ?thesis using that [of ?h] by simp
qed

section \<open>The hash table as a table one can insert into\<close>

definition hashtab_put :: "('k, 'd) hashtab_val \<Rightarrow> 'k \<Rightarrow> 'd \<Rightarrow> ('k, 'd) hashtab_val option" where
  "hashtab_put h k d =
     (case hashtab_insert True (Some h) k d of Some (HASHTAB_SUCCESS, h') \<Rightarrow> h' | _ \<Rightarrow> None)"

interpretation hput: insert_table hashtab_ok hashtab_abs hashtab_put
proof unfold_locales
  fix h :: "('k, 'd) hashtab_val" and k :: 'k and d :: 'd
  assume ok: "hashtab_ok h"
  show "hashtab_abs h k \<noteq> None \<Longrightarrow> hashtab_put h k d = None"
    using hashtab_insert_spec(1) [OF ok] by (simp add: hashtab_put_def)
  show "hashtab_abs h k = None \<Longrightarrow>
      \<exists>h'. hashtab_put h k d = Some h' \<and> hashtab_ok h' \<and> hashtab_abs h' = (hashtab_abs h)(k \<mapsto> d)"
    using hashtab_insert_spec(3) [OF ok, of k True d] by (auto simp: hashtab_put_def)
qed

section \<open>Sequences of operations\<close>

datatype ('k, 'd) hop = Insert bool 'k 'd | Replace bool 'k 'd | Remove 'k | Search 'k
datatype 'd hres = Status hashtab_status | Found "'d option"

fun hop_step :: "('k, 'd) hop \<Rightarrow> ('k, 'd) hashtab_t \<Rightarrow> ('d hres \<times> ('k, 'd) hashtab_t) option" where
  "hop_step (Insert m k d) h = map_option (\<lambda>(r, h). (Status r, h)) (hashtab_insert m h k d)"
| "hop_step (Replace m k d) h = map_option (\<lambda>(r, h, _). (Status r, h)) (hashtab_replace m h k d None ())"
| "hop_step (Remove k) h = map_option (\<lambda>(r, h, _). (Status r, h)) (hashtab_remove h k None ())"
| "hop_step (Search k) h = map_option (\<lambda>d. (Found d, h)) (hashtab_search h k)"

fun hop_run :: "('k, 'd) hop list \<Rightarrow> ('k, 'd) hashtab_t \<Rightarrow> ('d hres list \<times> ('k, 'd) hashtab_t) option" where
  "hop_run [] h = Some ([], h)"
| "hop_run (x # xs) h = do {(r, h) \<leftarrow> hop_step x h; (rs, h) \<leftarrow> hop_run xs h; Some (r # rs, h)}"

text \<open>The same operations on a finite map.\<close>

fun map_step :: "('k, 'd) hop \<Rightarrow> ('k \<rightharpoonup> 'd) \<Rightarrow> 'd hres \<times> ('k \<rightharpoonup> 'd)" where
  "map_step (Insert m k d) f =
     (if f k \<noteq> None then (Status HASHTAB_PRESENT, f)
      else if m then (Status HASHTAB_SUCCESS, f(k \<mapsto> d)) else (Status HASHTAB_OVERFLOW, f))"
| "map_step (Replace m k d) f =
     (if f k \<noteq> None \<or> m then (Status HASHTAB_SUCCESS, f(k \<mapsto> d)) else (Status HASHTAB_OVERFLOW, f))"
| "map_step (Remove k) f =
     (if f k = None then (Status HASHTAB_MISSING, f) else (Status HASHTAB_SUCCESS, f(k := None)))"
| "map_step (Search k) f = (Found (f k), f)"

fun map_run :: "('k, 'd) hop list \<Rightarrow> ('k \<rightharpoonup> 'd) \<Rightarrow> 'd hres list \<times> ('k \<rightharpoonup> 'd)" where
  "map_run [] f = ([], f)"
| "map_run (x # xs) f = (let (r, f) = map_step x f; (rs, f) = map_run xs f in (r # rs, f))"

lemma hop_step_map:
  assumes ok: "hashtab_ok h"
  shows "\<exists>h'. hop_step x (Some h) = Some (fst (map_step x (hashtab_abs h)), Some h') \<and> hashtab_ok h' \<and>
    hashtab_abs h' = snd (map_step x (hashtab_abs h))"
proof (cases x)
  case (Insert m k d)
  show ?thesis
  proof (cases "hashtab_abs h k")
    case None
    then show ?thesis
      using hashtab_insert_spec(2,3) [OF ok None, of m d] ok by (cases m) (auto simp: Insert)
  next
    case (Some d')
    then show ?thesis using hashtab_insert_spec(1) [OF ok, of k m d] ok by (simp add: Insert)
  qed
next
  case (Replace m k d)
  show ?thesis
  proof (cases "hashtab_abs h k \<noteq> None \<or> m")
    case True
    then show ?thesis using hashtab_replace_spec(2) [OF ok True, of d None "()"] by (auto simp: Replace)
  next
    case False
    then show ?thesis using hashtab_replace_spec(1) [OF ok, of k m d None "()"] ok by (simp add: Replace)
  qed
next
  case (Remove k)
  show ?thesis
  proof (cases "hashtab_abs h k")
    case None
    then show ?thesis using hashtab_remove_spec(1) [OF ok None, of None "()"] ok by (simp add: Remove)
  next
    case (Some d')
    then show ?thesis using hashtab_remove_spec(2) [OF ok Some, of None "()"] by (auto simp: Remove)
  qed
next
  case (Search k)
  then show ?thesis using hashtab_search_abs [OF ok] ok by simp
qed

lemma hop_run_map:
  assumes "hashtab_ok h"
  shows "\<exists>h'. hop_run xs (Some h) = Some (fst (map_run xs (hashtab_abs h)), Some h') \<and> hashtab_ok h' \<and>
    hashtab_abs h' = snd (map_run xs (hashtab_abs h))"
  using assms
proof (induction xs arbitrary: h)
  case Nil
  then show ?case by simp
next
  case (Cons x xs)
  obtain h1 where h1: "hop_step x (Some h) = Some (fst (map_step x (hashtab_abs h)), Some h1)" "hashtab_ok h1"
    "hashtab_abs h1 = snd (map_step x (hashtab_abs h))" using hop_step_map [OF Cons.prems] by blast
  obtain h2 where "hop_run xs (Some h1) = Some (fst (map_run xs (hashtab_abs h1)), Some h2)" "hashtab_ok h2"
    "hashtab_abs h2 = snd (map_run xs (hashtab_abs h1))" using Cons.IH [OF h1(2)] by blast
  then show ?case using h1 by (simp add: split_def Let_def)
qed

section \<open>Properties\<close>

text \<open>C15. Symbol tables refine finite maps: any sequence of \<open>hashtab_insert\<close>,
  \<open>hashtab_replace\<close>, \<open>hashtab_remove\<close> and \<open>hashtab_search\<close> calls on a table that
  \<open>symtab_init\<close> has made, with any outcomes of the allocations, returns the statuses and
  data the same operations return on an initially empty map, never indexes outside
  the slots, and leaves a table that represents the resulting map.\<close>

theorem symtab_refines_map:
  assumes "symtab_init ok s = (0, s')"
  shows "\<exists>h'. hop_run ops (sym_table s') = Some (fst (map_run ops Map.empty), Some h') \<and> hashtab_ok h' \<and>
    hashtab_abs h' = snd (map_run ops Map.empty)"
proof -
  obtain h where "sym_table s' = Some h" "hashtab_ok h" "hashtab_abs h = Map.empty"
    using symtab_init_ok [OF assms] by metis
  then show ?thesis using hop_run_map [of h ops] by simp
qed

theorem symtab_refines_map_witness:
  "\<exists>h'. hop_run [Insert True ''user'' 1, Insert True ''user'' 2, Replace True ''user'' (3 :: nat),
       Search ''user'', Remove ''user'', Search ''user''] (hashtab_create (\<lambda>_. True) symhash symcmp SYMTAB_SIZE) =
     Some ([Status HASHTAB_SUCCESS, Status HASHTAB_PRESENT, Status HASHTAB_SUCCESS, Found (Some 3),
       Status HASHTAB_SUCCESS, Found None], Some h')"
proof -
  have "symtab_init (\<lambda>_. True) \<lparr>sym_table = None, sym_nprim = 7\<rparr> =
      (0, \<lparr>sym_table = hashtab_create (\<lambda>_. True) symhash symcmp SYMTAB_SIZE, sym_nprim = 0\<rparr>)"
    by (simp add: symtab_init_def Let_def hashtab_create_def)
  from symtab_refines_map [OF this, of "[Insert True ''user'' 1, Insert True ''user'' 2,
     Replace True ''user'' (3 :: nat), Search ''user'', Remove ''user'', Search ''user'']"]
  show ?thesis by (auto simp del: hop_run.simps)
qed

text \<open>\<open>hashtab_map\<close> calls the function on every entry of the table exactly once, in
  one fixed order, and stops at the first call that returns a nonzero code, which it
  returns.\<close>

lemma hashtab_map_visits_all:
  assumes "hashtab_ok h"
  shows "\<exists>es. distinct (map fst es) \<and> map_of es = hashtab_abs h \<and>
    (\<forall>f a. hashtab_map (Some h) f a = hashtab_map_chain f es a)"
  using hashing.entries_map [OF hashtab_okD(2,3) [OF assms]]
  by (intro exI [of _ "concat (htable h)"]) (simp add: hashtab_abs_def hashtab_map_concat [OF assms])

text \<open>C16. \<open>hashtab_map_remove_on_error\<close> with a test that does not depend on its
  argument keeps exactly the entries for which the test returns 0, and keeps the
  invariant and an exact element count.\<close>

theorem hashtab_prune_correct:
  assumes ok: "hashtab_ok h" and "nel_ok h"
    and run: "hashtab_map_remove_on_error (Some h) (\<lambda>k d a. (f k d, a)) g a = (hp, a')"
  shows "\<exists>h'. hp = Some h' \<and> hashtab_ok h' \<and> nel_ok h' \<and>
    (\<forall>k. hashtab_abs h' k = (case hashtab_abs h k of Some d \<Rightarrow> if f k d = 0 then Some d else None | None \<Rightarrow> None))"
proof -
  let ?P = "\<lambda>(k, d). f k d = 0"
  note h = hashtab_okD [OF ok]
  let ?n = "nel h - of_nat (length (filter (\<lambda>(k, d). f k d \<noteq> 0) (concat (htable h))))"
  let ?h = "h\<lparr>htable := map (filter ?P) (htable h), nel := ?n\<rparr>"
  obtain a2 where "hashtab_prune_slots (\<lambda>k d a. (f k d, a)) g (htable h) (nel h) a =
      (map (filter ?P) (htable h), ?n, a2)" using hashtab_prune_slots_filter by metis
  then have hp: "hp = Some ?h" using run h(5) by (simp add: hashtab_map_remove_on_error_def)
  have chains: "chain_ok (hhash h) i (htable h ! i)" if "i < length (htable h)" for i
    using h(3) that by (simp add: buckets_inv_def)
  then have "chain_ok (hhash h) i (filter ?P (htable h ! i))" if "i < length (htable h)" for i
    using that by (auto simp: chain_ok_def intro: distinct_map_filter)
  then have "hashtab_ok ?h" using h(1,2,5) by (simp add: hashtab_ok_def buckets_inv_def)
  moreover have "hashtab_abs ?h k =
      (case hashtab_abs h k of Some d \<Rightarrow> if f k d = 0 then Some d else None | None \<Rightarrow> None)" for k
    using chains [OF h(4), of k] h(4) [of k] map_of_filter_pred [of "htable h ! hhash h k" "\<lambda>k d. f k d = 0" k]
    by (simp add: hashtab_abs_def buckets_map_def chain_ok_def)
  moreover have "nel_ok ?h"
  proof -
    have "length es = length (filter ?P es) + length (filter (\<lambda>(k, d). f k d \<noteq> 0) es)" for es
      by (induction es) auto
    from this [of "concat (htable h)"] have "nel h = of_nat (length (filter ?P (concat (htable h)))) +
        of_nat (length (filter (\<lambda>(k, d). f k d \<noteq> 0) (concat (htable h))))"
      using \<open>nel_ok h\<close> unfolding nel_ok_def by (simp only: of_nat_add)
    then show ?thesis by (simp add: nel_ok_def filter_concat)
  qed
  ultimately show ?thesis using hp by blast
qed

theorem hashtab_prune_correct_witness:
  "\<exists>h h' :: (string, nat) hashtab_val. hashtab_abs h ''a'' = Some 5 \<and> hashtab_abs h ''b'' = Some 6 \<and>
     fst (hashtab_map_remove_on_error (Some h) (\<lambda>k d a. (if d = 5 then 1 else 0, a)) None ()) = Some h' \<and>
     hashtab_abs h' ''a'' = None \<and> hashtab_abs h' ''b'' = Some 6 \<and> nel_ok h'"
proof -
  have "symtab_init (\<lambda>_. True) \<lparr>sym_table = None, sym_nprim = 7\<rparr> =
      (0, \<lparr>sym_table = hashtab_create (\<lambda>_. True) symhash symcmp SYMTAB_SIZE, sym_nprim = 0\<rparr>)"
    by (simp add: symtab_init_def Let_def hashtab_create_def)
  then obtain h0 where h0: "hashtab_ok h0" "hashtab_abs h0 = (Map.empty :: string \<Rightarrow> nat option)" "nel_ok h0"
    by (rule symtab_init_ok)
  obtain h1 where h1: "hashtab_ok h1" "hashtab_abs h1 = [''a'' \<mapsto> 5 :: nat]" "nel_ok h1"
    using hashtab_insert_spec(3) [OF h0(1), of "''a''" True 5] h0 by auto
  obtain h2 where h2: "hashtab_ok h2" "hashtab_abs h2 = [''a'' \<mapsto> 5, ''b'' \<mapsto> 6 :: nat]" "nel_ok h2"
    using hashtab_insert_spec(3) [OF h1(1), of "''b''" True 6] h1 by auto
  obtain hp a' where run: "hashtab_map_remove_on_error (Some h2) (\<lambda>k d a. (if d = 5 then 1 else 0, a)) None () = (hp, a')"
    by (cases "hashtab_map_remove_on_error (Some h2) (\<lambda>k d a. (if d = 5 then 1 else 0, a)) None ()") blast
  from hashtab_prune_correct [OF h2(1,3) run] obtain h3 where h3: "hp = Some h3" "nel_ok h3"
    "hashtab_abs h3 k = (case hashtab_abs h2 k of Some d \<Rightarrow> if (if d = 5 then 1 else 0) = (0 :: int) then Some d else None
       | None \<Rightarrow> None)" for k by blast
  show ?thesis
    using h3(1,2) h3(3) [of "''a''"] h3(3) [of "''b''"] h2(2) run by (intro exI [of _ h2] exI [of _ h3]) simp
qed

text \<open>\<open>hashtab_replace\<close> that adds an entry does not count it: removing the entry again takes the
  element count of an empty table to the largest 32-bit number.\<close>

lemma hashtab_replace_uncounted:
  "\<exists>h h'. symtab_init (\<lambda>_. True) s = (0, s\<lparr>sym_table := Some h, sym_nprim := 0\<rparr>) \<and> nel h = 0 \<and>
     hop_run [Replace True k d, Remove k] (Some h) =
       Some ([Status HASHTAB_SUCCESS, Status HASHTAB_SUCCESS], Some h') \<and> nel h' = - 1"
proof -
  have "\<exists>s'. symtab_init (\<lambda>_. True) s = (0, s')" by (simp add: symtab_init_def Let_def hashtab_create_def)
  then obtain s' where s': "symtab_init (\<lambda>_. True) s = (0, s')" by blast
  from symtab_init_ok [OF this] obtain h where h: "sym_table s' = Some h" "hashtab_ok h"
    "hashtab_abs h = Map.empty" "nel_ok h" "sym_nprim s' = 0" by metis
  have s: "s' = s\<lparr>sym_table := Some h, sym_nprim := 0\<rparr>" and n: "nel h = 0"
    using s' h(1) by (auto simp: symtab_init_def Let_def hashtab_create_def)
  obtain h1 where h1: "hashtab_replace True (Some h) k d None () = Some (HASHTAB_SUCCESS, Some h1, ())"
    "hashtab_ok h1" "hashtab_abs h1 = (hashtab_abs h)(k \<mapsto> d)" "nel h1 = nel h"
    using hashtab_replace_spec(2) [OF h(2), of k True d None "()"] by auto
  have "hashtab_abs h1 k = Some d" using h1(3) by simp
  from hashtab_remove_spec(2) [OF h1(2) this, of None "()"] obtain h2 where
    "hashtab_remove (Some h1) k None () = Some (HASHTAB_SUCCESS, Some h2, ())" "nel h2 = nel h1 - 1" by auto
  then show ?thesis using h1 s' s n by (intro exI [of _ h] exI [of _ h2]) simp
qed

end
