(* ===== verification/Avtab.thy ===== *)
theory Avtab
  imports Buckets
begin

text \<open>
  Access vector tables (\<open>security/avtab.[ch]\<close>): a hash table of 1013 chains from a type
  pair and a class to access vectors, with its binary representation.  The
  model is that of the configuration of \<open>security/global.h\<close>, with auditing and
  notification compiled in.
\<close>

section \<open>Definitions\<close>

record avtab_key =
  source_type :: u32
  target_type :: u32
  target_class :: u32

definition AVTAB_ALLOWED :: u32 where
  "AVTAB_ALLOWED = 1"

definition AVTAB_AUDITALLOW :: u32 where
  "AVTAB_AUDITALLOW = 2"

definition AVTAB_AUDITDENY :: u32 where
  "AVTAB_AUDITDENY = 4"

definition AVTAB_NOTIFY :: u32 where
  "AVTAB_NOTIFY = 8"

definition AVTAB_TRANSITION :: u32 where
  "AVTAB_TRANSITION = 16"

record avtab_datum =
  specified :: u32
  allowed :: u32
  trans_type :: u32
  auditallow :: u32
  auditdeny :: u32
  notify :: u32

definition AVTAB_SIZE :: u32 where
  "AVTAB_SIZE = 1013"

type_synonym avtab_node = "avtab_key \<times> avtab_datum"

record avtab =
  av_htable :: "avtab_node list list"
  av_nel :: u32

definition AVTAB_HASH :: "avtab_key \<Rightarrow> nat" where
  "AVTAB_HASH k =
     unat ((target_type k + push_bit 4 (source_type k) + push_bit 8 (target_class k)) mod AVTAB_SIZE)"

definition AVTAB_EQ :: "avtab_key \<Rightarrow> avtab_key \<Rightarrow> bool" where
  "AVTAB_EQ k k' \<longleftrightarrow>
     source_type k = source_type k' \<and> target_class k = target_class k' \<and> target_type k = target_type k'"

text \<open>The node the search loop stops at and the rest of its chain.\<close>

definition avtab_cur :: "avtab \<Rightarrow> avtab_key \<Rightarrow> avtab_node list" where
  "avtab_cur h key = dropWhile (\<lambda>(k, d). \<not> AVTAB_EQ k key) (av_htable h ! AVTAB_HASH key)"

definition avtab_insert :: "bool \<Rightarrow> avtab option \<Rightarrow> avtab_key \<Rightarrow> avtab_datum \<Rightarrow> errno + avtab" where
  "avtab_insert ok hp key datum =
     (case hp of
        None \<Rightarrow> Inl ENOMEM
      | Some h \<Rightarrow>
          if avtab_cur h key \<noteq> [] then Inl EEXIST
          else if \<not> ok then Inl ENOMEM
          else
            let hvalue = AVTAB_HASH key
            in Inr (h\<lparr>av_htable := (av_htable h)[hvalue := (key, datum) # av_htable h ! hvalue],
                      av_nel := av_nel h + 1\<rparr>))"

definition avtab_search :: "avtab option \<Rightarrow> avtab_key \<Rightarrow> avtab_datum option" where
  "avtab_search hp key =
     (case hp of
        None \<Rightarrow> None
      | Some h \<Rightarrow> (case avtab_cur h key of [] \<Rightarrow> None | (k, d) # next \<Rightarrow> Some d))"

definition avtab_destroy :: "avtab \<Rightarrow> avtab" where
  "avtab_destroy h = h\<lparr>av_htable := fold (\<lambda>i t. t[i := []]) [0..<unat AVTAB_SIZE] (av_htable h)\<rparr>"

fun avtab_map_chain ::
    "(avtab_key \<Rightarrow> avtab_datum \<Rightarrow> 'a \<Rightarrow> int \<times> 'a) \<Rightarrow> avtab_node list \<Rightarrow> 'a \<Rightarrow> int \<times> 'a" where
  "avtab_map_chain apply_fn [] args = (0, args)"
| "avtab_map_chain apply_fn ((k, d) # next) args = (
     let (ret, args) = apply_fn k d args
     in if ret \<noteq> 0 then (ret, args) else avtab_map_chain apply_fn next args)"

fun avtab_map_slots ::
    "(avtab_key \<Rightarrow> avtab_datum \<Rightarrow> 'a \<Rightarrow> int \<times> 'a) \<Rightarrow> avtab_node list list \<Rightarrow> 'a \<Rightarrow> int \<times> 'a" where
  "avtab_map_slots apply_fn [] args = (0, args)"
| "avtab_map_slots apply_fn (chain # rest) args = (
     let (ret, args) = avtab_map_chain apply_fn chain args
     in if ret \<noteq> 0 then (ret, args) else avtab_map_slots apply_fn rest args)"

definition avtab_map ::
    "avtab option \<Rightarrow> (avtab_key \<Rightarrow> avtab_datum \<Rightarrow> 'a \<Rightarrow> int \<times> 'a) \<Rightarrow> 'a \<Rightarrow> int \<times> 'a" where
  "avtab_map hp apply_fn args =
     (case hp of None \<Rightarrow> (0, args) | Some h \<Rightarrow> avtab_map_slots apply_fn (av_htable h) args)"

definition avtab_init :: avtab where
  "avtab_init = \<lparr>av_htable = replicate (unat AVTAB_SIZE) [], av_nel = 0\<rparr>"

text \<open>The three numbers that \<open>avtab_hash_eval\<close> prints.\<close>

definition avtab_hash_eval :: "avtab \<Rightarrow> u32 \<times> nat \<times> nat" where
  "avtab_hash_eval h = (
     let (slots_used, max_chain_len) =
       fold (\<lambda>chain (slots_used, max_chain_len).
           if chain = [] then (slots_used, max_chain_len)
           else (slots_used + 1, if length chain > max_chain_len then length chain else max_chain_len))
         (av_htable h) (0, 0)
     in (av_nel h, slots_used, max_chain_len))"

subsection \<open>The binary representation\<close>

definition POLICYDB_CONFIG_AUDIT :: u32 where
  "POLICYDB_CONFIG_AUDIT = 2"

definition POLICYDB_CONFIG_NOTIFY :: u32 where
  "POLICYDB_CONFIG_NOTIFY = 4"

text \<open>\<open>buf[items++]\<close> for a field that is present; an absent one stays 0.\<close>

definition avtab_field :: "u32 list \<Rightarrow> bool \<Rightarrow> nat \<Rightarrow> u32 \<times> nat" where
  "avtab_field buf present items = (if present then (buf ! items, items + 1) else (0, items))"

text \<open>The decoding of an entry of \<open>items2\<close> words in \<open>buf\<close>.\<close>

definition avtab_decode :: "u32 \<Rightarrow> u32 list \<Rightarrow> nat \<Rightarrow> (avtab_key \<times> avtab_datum) option" where
  "avtab_decode config buf items2 = (
     let spec = buf ! 3;
         (al, items) = avtab_field buf (spec AND AVTAB_ALLOWED \<noteq> 0) 4;
         (tt, items) = avtab_field buf (spec AND AVTAB_TRANSITION \<noteq> 0) items;
         audit = (config AND POLICYDB_CONFIG_AUDIT \<noteq> 0);
         (aa, items) = avtab_field buf (audit \<and> spec AND AVTAB_AUDITALLOW \<noteq> 0) items;
         (ad, items) = avtab_field buf (audit \<and> spec AND AVTAB_AUDITDENY \<noteq> 0) items;
         (nt, items) = avtab_field buf
           (config AND POLICYDB_CONFIG_NOTIFY \<noteq> 0 \<and> spec AND AVTAB_NOTIFY \<noteq> 0) items
     in if items \<noteq> items2 then None
        else Some (\<lparr>source_type = buf ! 0, target_type = buf ! 1, target_class = buf ! 2\<rparr>,
          \<lparr>specified = spec, allowed = al, trans_type = tt, auditallow = aa, auditdeny = ad, notify = nt\<rparr>))"

text \<open>One round of the loop of \<open>avtab_read\<close>, up to the insertion.  The array \<open>buf\<close> keeps what
  earlier rounds have left in it.\<close>

definition avtab_read_entry ::
    "u32 \<Rightarrow> u32 list \<Rightarrow> byte list \<Rightarrow> (avtab_key \<times> avtab_datum \<times> u32 list \<times> byte list) option" where
  "avtab_read_entry config buf fp = do {
     (w, fp) \<leftarrow> fread32 fp;
     let buf = fill [w] buf;
     let items2 = unat w;
     if items2 > 32 then None
     else do {
       (ws, fp) \<leftarrow> fread32s items2 fp;
       let buf = fill ws buf;
       (avkey, avdatum) \<leftarrow> avtab_decode config buf items2;
       Some (avkey, avdatum, buf, fp)
     }
   }"

text \<open>The loop; \<open>a\<close> is the table so far.  The result is the table and, unless the code jumps to
  \<open>bad\<close>, the rest of the stream.\<close>

fun avtab_read_loop ::
    "mallocs \<Rightarrow> u32 \<Rightarrow> nat \<Rightarrow> nat \<Rightarrow> u32 list \<Rightarrow> avtab \<Rightarrow> byte list \<Rightarrow> avtab \<times> byte list option" where
  "avtab_read_loop ok config i 0 buf a fp = (a, Some fp)"
| "avtab_read_loop ok config i (Suc n) buf a fp =
     (case avtab_read_entry config buf fp of
        None \<Rightarrow> (a, None)
      | Some (key, datum, buf, fp) \<Rightarrow>
          (case avtab_insert (ok i) (Some a) key datum of
             Inl rc \<Rightarrow> (a, None)
           | Inr a \<Rightarrow> avtab_read_loop ok config (Suc i) n buf a fp))"

definition avtab_read :: "mallocs \<Rightarrow> u32 list \<Rightarrow> byte list \<Rightarrow> u32 \<Rightarrow> avtab \<times> byte list option" where
  "avtab_read ok buf fp config =
     (case fread32 fp of
        None \<Rightarrow> (avtab_destroy avtab_init, None)
      | Some (n, fp) \<Rightarrow>
          if n = 0 then (avtab_destroy avtab_init, None)
          else
            case avtab_read_loop ok config 0 (unat n) buf avtab_init fp of
              (a, None) \<Rightarrow> (avtab_destroy a, None)
            | (a, Some fp) \<Rightarrow> (a, Some fp))"

text \<open>The words that \<open>avtab_write\<close> stores behind the item count of an entry.\<close>

definition avtab_entry_words :: "avtab_node \<Rightarrow> u32 list" where
  "avtab_entry_words cur = (
     let (k, d) = cur
     in [source_type k, target_type k, target_class k, specified d]
        @ (if specified d AND AVTAB_ALLOWED \<noteq> 0 then [allowed d] else [])
        @ (if specified d AND AVTAB_TRANSITION \<noteq> 0 then [trans_type d] else [])
        @ (if specified d AND AVTAB_AUDITALLOW \<noteq> 0 then [auditallow d] else [])
        @ (if specified d AND AVTAB_AUDITDENY \<noteq> 0 then [auditdeny d] else [])
        @ (if specified d AND AVTAB_NOTIFY \<noteq> 0 then [notify d] else []))"

fun avtab_write_entries :: "(nat \<Rightarrow> bool) \<Rightarrow> nat \<Rightarrow> avtab_node list \<Rightarrow> byte list option" where
  "avtab_write_entries ok i [] = Some []"
| "avtab_write_entries ok i (cur # rest) = (
     let ws = avtab_entry_words cur
     in if \<not> ok i then None
        else do {
          out \<leftarrow> avtab_write_entries ok (Suc i) rest;
          Some (le32 (of_nat (length ws)) @ concat (map le32 ws) @ out)
        })"

definition avtab_write :: "(nat \<Rightarrow> bool) \<Rightarrow> avtab \<Rightarrow> byte list option" where
  "avtab_write ok a =
     (if \<not> ok 0 then None
      else do {
        out \<leftarrow> avtab_write_entries ok 1 (concat (av_htable a));
        Some (le32 (av_nel a) @ out)
      })"

end
