(* ===== verification/Avtab_Spec.thy ===== *)
theory Avtab_Spec
  imports Avtab
begin

text \<open>
  The access vector table as a finite map, and its binary representation: the
  table is an instance of \<open>hashing\<close> and of \<open>insert_table\<close>, and the reader is the
  insertion of the decoded entries.
\<close>

section \<open>Invariant and abstraction\<close>

lemma AVTAB_HASH_less: "AVTAB_HASH k < 1013"
  unfolding AVTAB_HASH_def AVTAB_SIZE_def by (simp add: unat_mod)

interpretation avh: hashing AVTAB_HASH 1013
  by unfold_locales (rule AVTAB_HASH_less)

definition avtab_ok :: "avtab \<Rightarrow> bool" where
  "avtab_ok a \<longleftrightarrow> buckets_inv AVTAB_HASH 1013 (av_htable a) \<and>
     av_nel a = of_nat (length (concat (av_htable a)))"

definition avtab_abs :: "avtab \<Rightarrow> avtab_key \<Rightarrow> avtab_datum option" where
  "avtab_abs a = buckets_map AVTAB_HASH (av_htable a)"

lemma AVTAB_EQ_iff [simp]: "AVTAB_EQ k k' \<longleftrightarrow> k = k'"
  by (auto simp: AVTAB_EQ_def)

lemma avtab_cur_abs: "avtab_cur a k = [] \<longleftrightarrow> avtab_abs a k = None"
  "avtab_search (Some a) k = avtab_abs a k"
proof -
  have *: "(dropWhile (\<lambda>(k', d). k' \<noteq> k) c = [] \<longleftrightarrow> map_of c k = None) \<and>
      (case dropWhile (\<lambda>(k', d). k' \<noteq> k) c of [] \<Rightarrow> None | (k', d) # r \<Rightarrow> Some d) = map_of c k"
    for c :: "avtab_node list" by (induction c) auto
  show "avtab_cur a k = [] \<longleftrightarrow> avtab_abs a k = None" "avtab_search (Some a) k = avtab_abs a k"
    using * by (simp_all add: avtab_cur_def avtab_search_def avtab_abs_def buckets_map_def)
qed

lemma avtab_init_ok: "avtab_ok avtab_init" "avtab_abs avtab_init = Map.empty"
proof -
  have "unat AVTAB_SIZE = 1013" by (simp add: AVTAB_SIZE_def)
  then have i: "av_htable avtab_init = replicate 1013 []" "av_nel avtab_init = 0"
    by (simp_all only: avtab_init_def avtab.simps)
  have "concat (replicate n []) = ([] :: avtab_node list)" for n by (induction n) simp_all
  then have "of_nat (length (concat (av_htable avtab_init))) = (0 :: u32)" by (simp only: i list.size) simp
  then show "avtab_ok avtab_init" "avtab_abs avtab_init = Map.empty"
    using avh.map_empty buckets_inv_empty [of AVTAB_HASH 1013]
    by (simp_all only: avtab_ok_def avtab_abs_def i simp_thms)
qed

lemma avtab_insert_spec:
  assumes ok: "avtab_ok a"
  shows "avtab_abs a k \<noteq> None \<Longrightarrow> avtab_insert m (Some a) k d = Inl EEXIST"
    "avtab_abs a k = None \<Longrightarrow> \<not> m \<Longrightarrow> avtab_insert m (Some a) k d = Inl ENOMEM"
    "avtab_abs a k = None \<Longrightarrow> m \<Longrightarrow> \<exists>a'. avtab_insert m (Some a) k d = Inr a' \<and> avtab_ok a' \<and>
       avtab_abs a' = (avtab_abs a)(k \<mapsto> d) \<and>
       set (concat (av_htable a')) = insert (k, d) (set (concat (av_htable a)))"
proof -
  show "avtab_abs a k \<noteq> None \<Longrightarrow> avtab_insert m (Some a) k d = Inl EEXIST"
    "avtab_abs a k = None \<Longrightarrow> \<not> m \<Longrightarrow> avtab_insert m (Some a) k d = Inl ENOMEM"
    by (simp_all add: avtab_insert_def avtab_cur_abs)
  assume new: "avtab_abs a k = None" and m
  let ?c = "av_htable a ! AVTAB_HASH k"
  let ?a = "a\<lparr>av_htable := (av_htable a)[AVTAB_HASH k := (k, d) # ?c], av_nel := av_nel a + 1\<rparr>"
  have inv: "buckets_inv AVTAB_HASH 1013 (av_htable a)" using ok by (simp add: avtab_ok_def)
  then have less: "AVTAB_HASH k < length (av_htable a)" using AVTAB_HASH_less by (simp add: buckets_inv_def)
  have "avtab_insert m (Some a) k d = Inr ?a" using new \<open>m\<close> by (simp add: avtab_insert_def avtab_cur_abs Let_def)
  moreover have "avtab_abs ?a = (avtab_abs a)(k \<mapsto> d)" "buckets_inv AVTAB_HASH 1013 (av_htable ?a)"
    using avh.map_insert [OF inv] new by (simp_all add: avtab_abs_def)
  moreover have "av_nel ?a = of_nat (length (concat (av_htable ?a)))"
    using ok concat_upd_length [OF less, of "(k, d) # ?c"] by (simp add: avtab_ok_def)
  moreover have "set (concat (av_htable ?a)) = insert (k, d) (set (concat (av_htable a)))"
    using concat_upd_set [OF less, of "(k, d)"] by simp
  ultimately show "\<exists>a'. avtab_insert m (Some a) k d = Inr a' \<and> avtab_ok a' \<and>
       avtab_abs a' = (avtab_abs a)(k \<mapsto> d) \<and>
       set (concat (av_htable a')) = insert (k, d) (set (concat (av_htable a)))"
    by (intro exI [of _ ?a]) (simp add: avtab_ok_def)
qed

definition avtab_put :: "avtab \<Rightarrow> avtab_key \<Rightarrow> avtab_datum \<Rightarrow> avtab option" where
  "avtab_put a k d = (case avtab_insert True (Some a) k d of Inl _ \<Rightarrow> None | Inr a' \<Rightarrow> Some a')"

interpretation avput: insert_table avtab_ok avtab_abs avtab_put
proof unfold_locales
  fix a k d assume ok: "avtab_ok a"
  show "avtab_abs a k \<noteq> None \<Longrightarrow> avtab_put a k d = None"
    using avtab_insert_spec(1) [OF ok] by (simp add: avtab_put_def)
  show "avtab_abs a k = None \<Longrightarrow>
      \<exists>a'. avtab_put a k d = Some a' \<and> avtab_ok a' \<and> avtab_abs a' = (avtab_abs a)(k \<mapsto> d)"
    using avtab_insert_spec(3) [OF ok, of k True d] by (auto simp: avtab_put_def)
qed

lemma avtab_ok_entries:
  assumes "avtab_ok a"
  shows "distinct (map fst (concat (av_htable a)))" "map_of (concat (av_htable a)) = avtab_abs a"
    "length (concat (av_htable a)) = card (dom (avtab_abs a))"
proof -
  have inv: "buckets_inv AVTAB_HASH 1013 (av_htable a)" using assms by (simp add: avtab_ok_def)
  show d: "distinct (map fst (concat (av_htable a)))" and m: "map_of (concat (av_htable a)) = avtab_abs a"
    using avh.entries_map [OF inv] by (simp_all only: avtab_abs_def)
  have "dom (avtab_abs a) = set (map fst (concat (av_htable a)))"
    unfolding m [symmetric] by (simp only: dom_map_of_conv_image_fst set_map)
  then show "length (concat (av_htable a)) = card (dom (avtab_abs a))"
    using distinct_card [OF d] by (simp only: length_map)
qed

lemma avtab_init_empty: "concat (av_htable avtab_init) = []" "av_nel avtab_init = 0"
  using avtab_ok_entries(3) [OF avtab_init_ok(1)] avtab_init_ok(1) unfolding avtab_ok_def
  by (simp_all only: avtab_init_ok(2)) simp_all

lemma fold_clear: "n \<le> length t \<Longrightarrow> fold (\<lambda>i t. t[i := []]) [0..<n] t = replicate n [] @ drop n t"
proof (induction n)
  case (Suc n)
  then have "(replicate n [] @ drop n t)[n := []] = replicate n [] @ [] # drop (Suc n) t"
    by (simp add: list_update_append Cons_nth_drop_Suc [symmetric])
  then show ?case using Suc by (simp add: replicate_append_same)
qed simp

lemma avtab_destroy_empty:
  assumes "avtab_ok a"
  shows "\<forall>c\<in>set (av_htable (avtab_destroy a)). c = []"
proof -
  have l: "length (av_htable a) = 1013" and n: "unat AVTAB_SIZE = 1013"
    using assms by (auto simp: avtab_ok_def buckets_inv_def AVTAB_SIZE_def)
  have sel: "av_htable (a\<lparr>av_htable := t\<rparr>) = t" for t by simp
  have "av_htable (avtab_destroy a) = fold (\<lambda>i t. t[i := []]) [0..<1013] (av_htable a)"
    unfolding avtab_destroy_def n by (rule sel)
  also have "\<dots> = replicate 1013 [] @ drop 1013 (av_htable a)" by (rule fold_clear) (simp only: l order_refl)
  finally show ?thesis by (simp only: drop_all l order_refl append_Nil2 set_replicate_conv_if) simp
qed

section \<open>Entries of the binary representation\<close>

text \<open>The fields that are not specified are 0.\<close>

definition datum_normal :: "avtab_datum \<Rightarrow> bool" where
  "datum_normal d \<longleftrightarrow>
     (specified d AND AVTAB_ALLOWED = 0 \<longrightarrow> allowed d = 0) \<and>
     (specified d AND AVTAB_TRANSITION = 0 \<longrightarrow> trans_type d = 0) \<and>
     (specified d AND AVTAB_AUDITALLOW = 0 \<longrightarrow> auditallow d = 0) \<and>
     (specified d AND AVTAB_AUDITDENY = 0 \<longrightarrow> auditdeny d = 0) \<and>
     (specified d AND AVTAB_NOTIFY = 0 \<longrightarrow> notify d = 0)"

definition full_config :: "u32 \<Rightarrow> bool" where
  "full_config config \<longleftrightarrow> config AND POLICYDB_CONFIG_AUDIT \<noteq> 0 \<and> config AND POLICYDB_CONFIG_NOTIFY \<noteq> 0"

lemma avtab_entry_words_length: "4 \<le> length (avtab_entry_words e)" "length (avtab_entry_words e) \<le> 9"
  by (simp_all add: avtab_entry_words_def Let_def split: prod.splits)

lemma avtab_decode_words:
  assumes "datum_normal d" "full_config config"
  shows "avtab_decode config (fill (avtab_entry_words (k, d)) buf) (length (avtab_entry_words (k, d))) = Some (k, d)"
proof -
  have c: "config AND POLICYDB_CONFIG_AUDIT \<noteq> 0" "config AND POLICYDB_CONFIG_NOTIFY \<noteq> 0"
    using assms(2) by (simp_all add: full_config_def)
  show ?thesis
    using assms(1) unfolding avtab_decode_def avtab_entry_words_def datum_normal_def
    by (cases "specified d AND AVTAB_ALLOWED = 0"; cases "specified d AND AVTAB_TRANSITION = 0";
        cases "specified d AND AVTAB_AUDITALLOW = 0"; cases "specified d AND AVTAB_AUDITDENY = 0";
        cases "specified d AND AVTAB_NOTIFY = 0") (simp_all add: c fill_def avtab_field_def)
qed

lemma avtab_read_entry_words:
  assumes "datum_normal d" "full_config config"
  shows "\<exists>buf'. avtab_read_entry config buf
      (le32 (of_nat (length (avtab_entry_words (k, d)))) @ concat (map le32 (avtab_entry_words (k, d))) @ rest) =
    Some (k, d, buf', rest)"
proof -
  let ?ws = "avtab_entry_words (k, d)"
  have "length ?ws \<le> 9" by (rule avtab_entry_words_length)
  then have n: "unat (of_nat (length ?ws) :: u32) = length ?ws" by (intro unat_of_nat_u32) simp
  show ?thesis
    using \<open>length ?ws \<le> 9\<close> by (simp add: avtab_read_entry_def n avtab_decode_words [OF assms])
qed

lemma avtab_field_absent: "avtab_field buf b i = (v, j) \<Longrightarrow> \<not> b \<Longrightarrow> v = 0"
  by (simp add: avtab_field_def)

lemma avtab_read_entry_normal:
  assumes "avtab_read_entry config buf fp = Some (k, d, buf', fp')"
  shows "datum_normal d"
proof -
  obtain b n where "avtab_decode config b n = Some (k, d)"
    using assms by (auto simp: avtab_read_entry_def Let_def split: bind_splits if_splits)
  then show ?thesis
    by (auto simp: avtab_decode_def datum_normal_def Let_def split: prod.splits if_splits dest: avtab_field_absent)
qed

section \<open>Reading\<close>

lemma avtab_read_loop_insert_all:
  assumes "\<forall>k d. (k, d) \<in> set es \<longrightarrow> datum_normal d" "full_config config"
    "avtab_write_entries wok j es = Some out" "avput.insert_all a es = Some a'"
  shows "avtab_read_loop (\<lambda>_. True) config i (length es) buf a (out @ rest) = (a', Some rest)"
  using assms
proof (induction es arbitrary: i j buf a out)
  case Nil
  then show ?case by simp
next
  case (Cons e es)
  obtain k d where e: "e = (k, d)" by (cases e)
  let ?ws = "avtab_entry_words (k, d)"
  obtain out' where out': "avtab_write_entries wok (Suc j) es = Some out'"
    "out = le32 (of_nat (length ?ws)) @ concat (map le32 ?ws) @ out'"
    using Cons.prems(3) by (auto simp: e Let_def split: bind_splits if_splits)
  obtain buf' where buf': "avtab_read_entry config buf (out @ rest) = Some (k, d, buf', out' @ rest)"
    using avtab_read_entry_words [of d config buf k "out' @ rest"] Cons.prems(1,2) by (auto simp: e out'(2))
  obtain a1 where a1: "avtab_insert True (Some a) k d = Inr a1" "avput.insert_all a1 es = Some a'"
    using Cons.prems(4) avput.insert_all.simps(2) [of a k d es] avtab_put_def [of a k d]
    by (auto simp: e split: bind_splits sum.splits)
  show ?case using buf' a1(1) Cons.IH [OF _ Cons.prems(2) out'(1) a1(2)] Cons.prems(1) by simp
qed

lemma avtab_read_loop_ok:
  assumes "avtab_ok a" "\<forall>k d. (k, d) \<in> set (concat (av_htable a)) \<longrightarrow> datum_normal d"
    "avtab_read_loop ok config i n buf a fp = (a', r)"
  shows "avtab_ok a' \<and> (\<forall>k d. (k, d) \<in> set (concat (av_htable a')) \<longrightarrow> datum_normal d) \<and>
    (r \<noteq> None \<longrightarrow> av_nel a' = av_nel a + of_nat n)"
  using assms
proof (induction ok config i n buf a fp rule: avtab_read_loop.induct)
  case (1 ok config i buf a fp)
  then show ?case by auto
next
  case (2 ok config i n buf a fp)
  show ?case
  proof (cases "\<exists>k d buf' fp' a1. avtab_read_entry config buf fp = Some (k, d, buf', fp') \<and>
      avtab_insert (ok i) (Some a) k d = Inr a1")
    case True
    then obtain k d buf' fp' a1 where read: "avtab_read_entry config buf fp = Some (k, d, buf', fp')"
      and ins: "avtab_insert (ok i) (Some a) k d = Inr a1" by blast
    have new: "avtab_abs a k = None" "ok i"
      using ins avtab_insert_spec(1,2) [OF "2.prems"(1), of k] by fastforce+
    have a1: "avtab_ok a1" "set (concat (av_htable a1)) = insert (k, d) (set (concat (av_htable a)))"
      "av_nel a1 = av_nel a + 1"
      using avtab_insert_spec(3) [OF "2.prems"(1) new, of d] ins by (auto simp: avtab_insert_def Let_def split: if_splits)
    have "\<forall>k d. (k, d) \<in> set (concat (av_htable a1)) \<longrightarrow> datum_normal d"
      using "2.prems"(2) avtab_read_entry_normal [OF read] unfolding a1(2) by auto
    then show ?thesis
      using "2.IH" [OF read _ _ _ ins a1(1)] "2.prems"(3) read ins a1(3) by simp
  next
    case False
    then have "a' = a" "r = None" using "2.prems"(3) by (auto split: option.splits sum.splits)
    then show ?thesis using "2.prems"(1,2) by simp
  qed
qed

section \<open>Properties\<close>

text \<open>C17. The access vector table refines a finite map from keys to data: on a valid table
  \<open>avtab_search\<close> is the map's lookup, \<open>avtab_insert\<close> refuses a key that is present and
  otherwise, if memory suffices, yields a valid table with exactly that entry added and
  an exact element count.\<close>

theorem avtab_refines_map:
  assumes "avtab_ok a"
  shows "avtab_search (Some a) = avtab_abs a \<and>
    (case avtab_insert m (Some a) k d of
       Inl e \<Rightarrow> (if avtab_abs a k \<noteq> None then e = EEXIST else \<not> m \<and> e = ENOMEM)
     | Inr a' \<Rightarrow> m \<and> avtab_abs a k = None \<and> avtab_ok a' \<and> avtab_abs a' = (avtab_abs a)(k \<mapsto> d))"
  using avtab_insert_spec [OF assms, of k m d] avtab_cur_abs(2) [of a]
  by (cases "avtab_abs a k"; cases m) (auto simp: fun_eq_iff)

theorem avtab_refines_map_witness:
  "avtab_search (Some avtab_init) = Map.empty"
  using avtab_refines_map [OF avtab_init_ok(1)] by (simp add: avtab_init_ok(2))

lemma avtab_read_back:
  assumes ok: "avtab_ok a" and n: "concat (av_htable a) \<noteq> []" "length (concat (av_htable a)) < 2 ^ 32"
    and norm: "\<forall>k d. avtab_abs a k = Some d \<longrightarrow> datum_normal d" and c: "full_config config"
    and out: "avtab_write wok a = Some out"
  shows "\<exists>a'. avtab_read (\<lambda>_. True) buf (out @ rest) config = (a', Some rest) \<and> avtab_ok a' \<and>
    avtab_abs a' = avtab_abs a \<and> av_nel a' = av_nel a"
proof -
  let ?es = "concat (av_htable a)"
  note es = avtab_ok_entries [OF ok]
  obtain body where body: "avtab_write_entries wok 1 ?es = Some body" "out = le32 (av_nel a) @ body"
    using out by (auto simp: avtab_write_def split: bind_splits if_splits)
  have norm': "\<forall>k d. (k, d) \<in> set ?es \<longrightarrow> datum_normal d"
    using norm map_of_is_SomeI [OF es(1)] by (simp only: es(2)) blast
  have "avput.insert_all avtab_init ?es \<noteq> None"
    unfolding avput.insert_all_iff(1) [OF avtab_init_ok(1)] using es(1) by (simp only: avtab_init_ok(2)) simp
  then obtain a' where a': "avput.insert_all avtab_init ?es = Some a'" by blast
  have ok': "avtab_ok a'" and abs': "avtab_abs a' = avtab_abs a"
    using avput.insert_all_iff(2) [OF avtab_init_ok(1) a'] by (simp_all add: avtab_init_ok(2) es(2))
  have nel: "av_nel a = of_nat (length ?es)" using ok by (simp add: avtab_ok_def)
  then have u: "unat (av_nel a) = length ?es" using n(2) by (simp only: unat_of_nat_u32)
  then have "av_nel a \<noteq> 0" using n(1) by (metis length_0_conv unat_0)
  moreover have "av_nel a' = of_nat (length (concat (av_htable a')))" using ok' by (simp add: avtab_ok_def)
  then have "av_nel a' = av_nel a" unfolding nel by (simp only: avtab_ok_entries(3) [OF ok'] abs' es(3))
  moreover note avtab_read_loop_insert_all [OF norm' c body(1) a', of 0 buf rest]
  ultimately show ?thesis
    using ok' abs' by (simp only: avtab_read_def body(2) append.assoc fread32_le32 option.case prod.case u if_False) simp
qed

lemma avtab_read_empty:
  assumes ok: "avtab_ok a" and n: "concat (av_htable a) = []" and out: "avtab_write wok a = Some out"
  shows "snd (avtab_read ok' buf (out @ rest) config) = None"
proof -
  have "av_nel a = 0" using ok n by (simp add: avtab_ok_def)
  then have "out = le32 0" using out unfolding avtab_write_def n by (simp split: if_splits)
  then show ?thesis by (simp add: avtab_read_def fread32_le32)
qed

text \<open>C18. Reading back what \<open>avtab_write\<close> has written, when no allocation fails and whatever the scratch array
  holds.  For a valid table of at least one and less than \<open>2 ^ 32\<close> entries whose data have no field set that is
  not specified, under a configuration word that announces the audit and notify vectors that are written: a valid
  table with the same entries and the same element count, and exactly the bytes written are
  consumed.  A table without entries is written too, but \<open>avtab_read\<close> refuses it.\<close>

theorem avtab_write_read:
  assumes ok: "avtab_ok a" and n: "length (concat (av_htable a)) < 2 ^ 32"
    and norm: "\<forall>k d. avtab_abs a k = Some d \<longrightarrow> datum_normal d" and c: "full_config config"
    and out: "avtab_write wok a = Some out"
  shows "if concat (av_htable a) = [] then snd (avtab_read (\<lambda>_. True) buf (out @ rest) config) = None
    else \<exists>a'. avtab_read (\<lambda>_. True) buf (out @ rest) config = (a', Some rest) \<and> avtab_ok a' \<and>
      avtab_abs a' = avtab_abs a \<and> av_nel a' = av_nel a"
  using avtab_read_empty [OF ok _ out] avtab_read_back [OF ok _ n norm c out] by simp

text \<open>An entry that allows one permission, the table with it, and its binary representation.\<close>

definition demo_key :: avtab_key where
  "demo_key = \<lparr>source_type = 1, target_type = 2, target_class = 3\<rparr>"

definition demo_datum :: avtab_datum where
  "demo_datum = \<lparr>specified = 1, allowed = 5, trans_type = 0, auditallow = 0, auditdeny = 0, notify = 0\<rparr>"

lemma demo_datum_normal: "datum_normal demo_datum"
  by (simp add: datum_normal_def demo_datum_def AVTAB_ALLOWED_def)

lemma demo_avtab:
  obtains a out where "avtab_ok a" "avtab_abs a = [demo_key \<mapsto> demo_datum]"
    "set (concat (av_htable a)) = {(demo_key, demo_datum)}" "length (concat (av_htable a)) = 1"
    "avtab_write (\<lambda>_. True) a = Some out"
proof -
  obtain a where a: "avtab_ok a" "avtab_abs a = (avtab_abs avtab_init)(demo_key \<mapsto> demo_datum)"
    "set (concat (av_htable a)) = insert (demo_key, demo_datum) (set (concat (av_htable avtab_init)))"
    using avtab_insert_spec(3) [OF avtab_init_ok(1), of demo_key True demo_datum] by (auto simp: avtab_init_ok(2))
  moreover have "\<exists>out. avtab_write_entries (\<lambda>_. True) i es = Some out" for i es
    by (induction es arbitrary: i) (simp_all add: Let_def, metis bind.bind_lunit)
  then obtain body where "avtab_write_entries (\<lambda>_. True) 1 (concat (av_htable a)) = Some body" by blast
  then have "\<exists>out. avtab_write (\<lambda>_. True) a = Some out" by (simp add: avtab_write_def)
  ultimately show ?thesis
    using that [of a] avtab_ok_entries(3) [OF a(1)] by (auto simp: avtab_init_ok(2) avtab_init_empty(1))
qed

theorem avtab_write_read_witness:
  "\<exists>a out a'. avtab_write (\<lambda>_. True) a = Some out \<and>
     avtab_read (\<lambda>_. True) (replicate 32 0) (out @ [7]) 6 = (a', Some [7]) \<and>
     avtab_search (Some a') demo_key = Some demo_datum"
proof -
  obtain a out where a: "avtab_ok a" "avtab_abs a = [demo_key \<mapsto> demo_datum]"
    "set (concat (av_htable a)) = {(demo_key, demo_datum)}" "length (concat (av_htable a)) = 1"
    "avtab_write (\<lambda>_. True) a = Some out" by (rule demo_avtab)
  have 1: "concat (av_htable a) \<noteq> []" "length (concat (av_htable a)) < 2 ^ 32"
    using a(4) by (metis list.size(3) zero_neq_one, simp only: a(4)) simp
  have 2: "\<forall>k d. avtab_abs a k = Some d \<longrightarrow> datum_normal d" by (simp add: a(2) demo_datum_normal)
  have 3: "full_config 6" by (simp add: full_config_def POLICYDB_CONFIG_AUDIT_def POLICYDB_CONFIG_NOTIFY_def)
  from avtab_write_read [OF a(1) 1(2) 2 3 a(5), of "replicate 32 0" "[7]", unfolded if_not_P [OF 1(1)]] obtain a' where
    "avtab_read (\<lambda>_. True) (replicate 32 0) (out @ [7]) 6 = (a', Some [7])" "avtab_abs a' = avtab_abs a" by blast
  moreover from this(2) have "avtab_search (Some a') demo_key = Some demo_datum" by (simp add: avtab_cur_abs(2) a(2))
  ultimately show ?thesis using a(5) by blast
qed

text \<open>C19. \<open>avtab_read\<close> on any stream, configuration word, content of the scratch array and
  outcomes of the allocations: a table it accepts is valid, has as many entries as the
  stream announced and no field set that is not specified; a table it refuses is left
  without nodes.\<close>

theorem avtab_read_safe:
  assumes "avtab_read ok buf fp config = (a, r)"
  shows "case r of
      None \<Rightarrow> \<forall>c\<in>set (av_htable a). c = []
    | Some fp' \<Rightarrow> avtab_ok a \<and> (\<forall>k d. avtab_abs a k = Some d \<longrightarrow> datum_normal d) \<and>
        (\<exists>fp1. fread32 fp = Some (av_nel a, fp1) \<and> av_nel a \<noteq> 0)"
proof -
  show ?thesis
  proof (cases "\<exists>n fp1. fread32 fp = Some (n, fp1) \<and> n \<noteq> 0")
    case True
    then obtain n fp1 where n: "fread32 fp = Some (n, fp1)" "n \<noteq> 0" by blast
    obtain a1 r1 where loop: "avtab_read_loop ok config 0 (unat n) buf avtab_init fp1 = (a1, r1)" by fastforce
    have "\<forall>k d. (k, d) \<in> set (concat (av_htable avtab_init)) \<longrightarrow> datum_normal d" by (simp only: avtab_init_empty) simp
    from avtab_read_loop_ok [OF avtab_init_ok(1) this loop]
    have a1: "avtab_ok a1" "\<forall>k d. (k, d) \<in> set (concat (av_htable a1)) \<longrightarrow> datum_normal d"
      "r1 \<noteq> None \<longrightarrow> av_nel a1 = n" by (simp_all add: avtab_init_empty(2))
    have "datum_normal d" if "avtab_abs a1 k = Some d" for k d
      using that a1(2) map_of_SomeD [of "concat (av_htable a1)" k d] unfolding avtab_ok_entries(2) [OF a1(1)] by blast
    then show ?thesis
      using assms n loop a1(1,3) avtab_destroy_empty [OF a1(1)] by (auto simp: avtab_read_def split: option.splits)
  next
    case False
    then show ?thesis
      using assms avtab_destroy_empty [OF avtab_init_ok(1)] by (auto simp: avtab_read_def split: option.splits if_splits)
  qed
qed

theorem avtab_read_safe_witness:
  "set (av_htable (fst (avtab_read (\<lambda>_. True) [] [1, 0, 0] 0))) \<subseteq> {[]}"
proof -
  have "avtab_read (\<lambda>_. True) [] [1, 0, 0] 0 = (fst (avtab_read (\<lambda>_. True) [] [1, 0, 0] 0), None)"
    by (simp add: avtab_read_def)
  from avtab_read_safe [OF this] show ?thesis by auto
qed

end
