(* ===== verification/Policydb.thy ===== *)
theory Policydb
  imports Sidtab Hashtab_Spec Avtab_Spec
begin

text \<open>
  The policy database (\<open>security/policydb.[ch]\<close>, \<open>security/constraint.h\<close>): its data, the
  construction of the arrays indexed by value, the validity of contexts and the loading of
  the initial identifiers, with the multi-level security checks of \<open>security/mls.c\<close>
  they call.  A pointer to a datum is the datum itself, since no operation of the model
  changes one in place; an array of pointers is a list in which \<open>None\<close> marks an element not
  written since the allocation.  Reading such an element, or accessing an array out of its
  bounds, is undefined in C and is the outcome \<open>None\<close> of an operation.
\<close>

section \<open>Data\<close>

record perm_datum =
  pd_value :: u32
  base_perms :: u32

record common_datum =
  cd_value :: u32
  cd_permissions :: "perm_datum symtab"

definition CONSTRAINT_EXPR_TYPE_NOT :: u32 where
  "CONSTRAINT_EXPR_TYPE_NOT = 1"

definition CONSTRAINT_EXPR_TYPE_AND :: u32 where
  "CONSTRAINT_EXPR_TYPE_AND = 2"

definition CONSTRAINT_EXPR_TYPE_OR :: u32 where
  "CONSTRAINT_EXPR_TYPE_OR = 3"

definition CONSTRAINT_EXPR_TYPE_SAMEUSER :: u32 where
  "CONSTRAINT_EXPR_TYPE_SAMEUSER = 4"

definition CONSTRAINT_EXPR_TYPE_TYPE_SOURCE :: u32 where
  "CONSTRAINT_EXPR_TYPE_TYPE_SOURCE = 5"

definition CONSTRAINT_EXPR_TYPE_TYPE_TARGET :: u32 where
  "CONSTRAINT_EXPR_TYPE_TYPE_TARGET = 6"

definition CONSTRAINT_EXPR_TYPE_ROLE_SOURCE :: u32 where
  "CONSTRAINT_EXPR_TYPE_ROLE_SOURCE = 7"

definition CONSTRAINT_EXPR_TYPE_ROLE_TARGET :: u32 where
  "CONSTRAINT_EXPR_TYPE_ROLE_TARGET = 8"

definition CONSTRAINT_EXPR_TYPE_ROLE_RELATION :: u32 where
  "CONSTRAINT_EXPR_TYPE_ROLE_RELATION = 9"

definition CONSTRAINT_EXPR_VALUE_RELATION_DOM :: u32 where
  "CONSTRAINT_EXPR_VALUE_RELATION_DOM = 1"

definition CONSTRAINT_EXPR_VALUE_RELATION_DOMBY :: u32 where
  "CONSTRAINT_EXPR_VALUE_RELATION_DOMBY = 2"

definition CONSTRAINT_EXPR_VALUE_RELATION_EQ :: u32 where
  "CONSTRAINT_EXPR_VALUE_RELATION_EQ = 3"

definition CONSTRAINT_EXPR_VALUE_RELATION_INCOMP :: u32 where
  "CONSTRAINT_EXPR_VALUE_RELATION_INCOMP = 4"

text \<open>An expression: its type, relation, bitmap, left and right operand (\<open>None\<close> for \<open>NULL\<close>) and
  reference count.\<close>

datatype constraint_expr =
  Expr (expr_type: u32) (relation: u32) (bitmap: ebitmap)
    (left: "constraint_expr option") (right: "constraint_expr option") (rcount: u32)

record constraint_node =
  cn_permissions :: u32
  cn_expr :: constraint_expr

record class_datum =
  cl_value :: u32
  comkey :: "string option"
  comdatum :: "common_datum option"
  cl_permissions :: "perm_datum symtab"
  constraints :: "constraint_node list"
  mlsperms :: mls_perms

record role_datum =
  rd_value :: u32
  dominates :: ebitmap
  types :: ebitmap

record type_datum =
  td_value :: u32
  td_isalias :: "8 word"

record user_datum =
  ud_value :: u32
  roles :: ebitmap
  ranges :: "mls_range list"

record level_datum =
  ld_level :: mls_level
  ld_isalias :: "8 word"

record cat_datum =
  ca_value :: u32
  ca_isalias :: "8 word"

definition TE_DEF_NONE :: u32 where
  "TE_DEF_NONE = 0"

definition TE_DEF_ALL :: u32 where
  "TE_DEF_ALL = 1"

definition TE_DEF_SELF :: u32 where
  "TE_DEF_SELF = 2"

record te_def =
  te_value :: u32
  te_exclude :: ebitmap

datatype ocontext_u =
  OName string
| OPort "8 word" "16 word" "16 word"
| ONode u32 u32

record ocontext =
  oc_u :: ocontext_u
  oc_context0 :: context_struct
  oc_context1 :: context_struct
  oc_sid0 :: u32
  oc_sid1 :: u32

record policydb =
  p_commons :: "common_datum symtab"
  p_classes :: "class_datum symtab"
  p_roles :: "role_datum symtab"
  p_types :: "type_datum symtab"
  p_users :: "user_datum symtab"
  p_levels :: "level_datum symtab"
  p_cats :: "cat_datum symtab"
  p_common_val_to_name :: "string option list"
  p_class_val_to_name :: "string option list"
  p_role_val_to_name :: "string option list"
  p_type_val_to_name :: "string option list"
  p_user_val_to_name :: "string option list"
  p_sens_val_to_name :: "string option list"
  p_cat_val_to_name :: "string option list"
  class_val_to_struct :: "class_datum option list"
  role_val_to_struct :: "role_datum option list"
  user_val_to_struct :: "user_datum option list"
  p_te_def_allowed :: te_def
  p_te_def_auditallow :: te_def
  p_te_def_auditdeny :: te_def
  p_te_def_notify :: te_def
  te_avtab :: avtab
  ocon_isid :: "ocontext list"
  ocon_fs :: "ocontext list"
  ocon_port :: "ocontext list"
  ocon_netif :: "ocontext list"
  ocon_node :: "ocontext list"
  nlevels :: u32

text \<open>Access to an array by \<open>value - 1\<close>.\<close>

definition fetch :: "'a option list \<Rightarrow> u32 \<Rightarrow> 'a option" where
  "fetch xs v = (let i = unat (v - 1) in if i < length xs then xs ! i else None)"

definition store :: "'a option list \<Rightarrow> u32 \<Rightarrow> 'a \<Rightarrow> 'a option list option" where
  "store xs v x = (let i = unat (v - 1) in if i < length xs then Some (xs[i := Some x]) else None)"

text \<open>\<open>malloc(n * sizeof(void *))\<close>: the product is taken modulo \<open>2 ^ 32\<close>.\<close>

definition ptr_array :: "u32 \<Rightarrow> 'a option list" where
  "ptr_array n = replicate (unat (n * 4) div 4) None"

section \<open>Initialisation and indexing\<close>

definition zero_symtab :: "'d symtab" where
  "zero_symtab = \<lparr>sym_table = None, sym_nprim = 0\<rparr>"

definition zero_te_def :: te_def where
  "zero_te_def = \<lparr>te_value = 0, te_exclude = ebitmap_init\<rparr>"

definition zero_policydb :: policydb where
  "zero_policydb =
     \<lparr>p_commons = zero_symtab, p_classes = zero_symtab, p_roles = zero_symtab, p_types = zero_symtab,
      p_users = zero_symtab, p_levels = zero_symtab, p_cats = zero_symtab,
      p_common_val_to_name = [], p_class_val_to_name = [], p_role_val_to_name = [], p_type_val_to_name = [],
      p_user_val_to_name = [], p_sens_val_to_name = [], p_cat_val_to_name = [],
      class_val_to_struct = [], role_val_to_struct = [], user_val_to_struct = [],
      p_te_def_allowed = zero_te_def, p_te_def_auditallow = zero_te_def, p_te_def_auditdeny = zero_te_def,
      p_te_def_notify = zero_te_def,
      te_avtab = avtab_init, ocon_isid = [], ocon_fs = [], ocon_port = [], ocon_netif = [], ocon_node = [],
      nlevels = 0\<rparr>"

text \<open>\<open>None\<close> when \<open>policydb_init\<close> returns \<open>-1\<close>.\<close>

definition policydb_init :: "allocs \<Rightarrow> policydb option" where
  "policydb_init ok = (
     let (r0, s0) = symtab_init (\<lambda>i. ok [0, i]) zero_symtab;
         (r1, s1) = symtab_init (\<lambda>i. ok [1, i]) zero_symtab;
         (r2, s2) = symtab_init (\<lambda>i. ok [2, i]) zero_symtab;
         (r3, s3) = symtab_init (\<lambda>i. ok [3, i]) zero_symtab;
         (r4, s4) = symtab_init (\<lambda>i. ok [4, i]) zero_symtab;
         (r5, s5) = symtab_init (\<lambda>i. ok [5, i]) zero_symtab;
         (r6, s6) = symtab_init (\<lambda>i. ok [6, i]) zero_symtab
     in if r0 \<noteq> 0 \<or> r1 \<noteq> 0 \<or> r2 \<noteq> 0 \<or> r3 \<noteq> 0 \<or> r4 \<noteq> 0 \<or> r5 \<noteq> 0 \<or> r6 \<noteq> 0 then None
        else Some (zero_policydb\<lparr>p_commons := s0, p_classes := s1, p_roles := s2, p_types := s3,
               p_users := s4, p_levels := s5, p_cats := s6, te_avtab := avtab_init\<rparr>))"

text \<open>The index functions are callbacks of \<open>hashtab_map\<close>; the state \<open>None\<close> records a write out of
  bounds.\<close>

definition common_index :: "string \<Rightarrow> common_datum \<Rightarrow> policydb option \<Rightarrow> int \<times> policydb option" where
  "common_index key d datap = (0, do {
     p \<leftarrow> datap;
     xs \<leftarrow> store (p_common_val_to_name p) (cd_value d) key;
     Some (p\<lparr>p_common_val_to_name := xs\<rparr>)
   })"

definition class_index :: "string \<Rightarrow> class_datum \<Rightarrow> policydb option \<Rightarrow> int \<times> policydb option" where
  "class_index key d datap = (0, do {
     p \<leftarrow> datap;
     xs \<leftarrow> store (p_class_val_to_name p) (cl_value d) key;
     ys \<leftarrow> store (class_val_to_struct p) (cl_value d) d;
     Some (p\<lparr>p_class_val_to_name := xs, class_val_to_struct := ys\<rparr>)
   })"

definition role_index :: "string \<Rightarrow> role_datum \<Rightarrow> policydb option \<Rightarrow> int \<times> policydb option" where
  "role_index key d datap = (0, do {
     p \<leftarrow> datap;
     xs \<leftarrow> store (p_role_val_to_name p) (rd_value d) key;
     ys \<leftarrow> store (role_val_to_struct p) (rd_value d) d;
     Some (p\<lparr>p_role_val_to_name := xs, role_val_to_struct := ys\<rparr>)
   })"

definition type_index :: "string \<Rightarrow> type_datum \<Rightarrow> policydb option \<Rightarrow> int \<times> policydb option" where
  "type_index key d datap = (0, do {
     p \<leftarrow> datap;
     if td_isalias d = 0 then do {
       xs \<leftarrow> store (p_type_val_to_name p) (td_value d) key;
       Some (p\<lparr>p_type_val_to_name := xs\<rparr>)
     } else Some p
   })"

definition sens_index :: "string \<Rightarrow> level_datum \<Rightarrow> policydb option \<Rightarrow> int \<times> policydb option" where
  "sens_index key d datap = (0, do {
     p \<leftarrow> datap;
     if ld_isalias d = 0 then do {
       xs \<leftarrow> store (p_sens_val_to_name p) (sens (ld_level d)) key;
       Some (p\<lparr>p_sens_val_to_name := xs\<rparr>)
     } else Some p
   })"

definition cat_index :: "string \<Rightarrow> cat_datum \<Rightarrow> policydb option \<Rightarrow> int \<times> policydb option" where
  "cat_index key d datap = (0, do {
     p \<leftarrow> datap;
     if ca_isalias d = 0 then do {
       xs \<leftarrow> store (p_cat_val_to_name p) (ca_value d) key;
       Some (p\<lparr>p_cat_val_to_name := xs\<rparr>)
     } else Some p
   })"

definition user_index :: "string \<Rightarrow> user_datum \<Rightarrow> policydb option \<Rightarrow> int \<times> policydb option" where
  "user_index key d datap = (0, do {
     p \<leftarrow> datap;
     xs \<leftarrow> store (p_user_val_to_name p) (ud_value d) key;
     ys \<leftarrow> store (user_val_to_struct p) (ud_value d) d;
     Some (p\<lparr>p_user_val_to_name := xs, user_val_to_struct := ys\<rparr>)
   })"

text \<open>One symbol table: the walk over it with its index function.  The result \<open>Some (True, p)\<close> is the
  return value 0.\<close>

definition run_index ::
    "'d symtab \<Rightarrow> (string \<Rightarrow> 'd \<Rightarrow> policydb option \<Rightarrow> int \<times> policydb option) \<Rightarrow> policydb
     \<Rightarrow> (bool \<times> policydb) option" where
  "run_index s f p = (case hashtab_map (sym_table s) f (Some p) of (r, p') \<Rightarrow> map_option (Pair (r = 0)) p')"

definition policydb_index_classes :: "mallocs \<Rightarrow> policydb \<Rightarrow> (bool \<times> policydb) option" where
  "policydb_index_classes ok p =
     (if \<not> ok 0 then Some (False, p) else do {
        (r, p) \<leftarrow> run_index (p_commons p) common_index
          (p\<lparr>p_common_val_to_name := ptr_array (sym_nprim (p_commons p))\<rparr>);
        if \<not> r then Some (False, p)
        else if \<not> ok 1 then Some (False, p)
        else do {
          let p = p\<lparr>class_val_to_struct := ptr_array (sym_nprim (p_classes p))\<rparr>;
          if \<not> ok 2 then Some (False, p)
          else run_index (p_classes p) class_index
            (p\<lparr>p_class_val_to_name := ptr_array (sym_nprim (p_classes p))\<rparr>)
        }
      })"

text \<open>The loop over the symbol tables from \<open>SYM_ROLES\<close> on, unrolled; the numbers that the function
  prints are left out.\<close>

definition policydb_index_others :: "mallocs \<Rightarrow> policydb \<Rightarrow> (bool \<times> policydb) option" where
  "policydb_index_others ok p =
     (if \<not> ok 0 then Some (False, p) else do {
        let p = p\<lparr>role_val_to_struct := ptr_array (sym_nprim (p_roles p))\<rparr>;
        if \<not> ok 1 then Some (False, p) else do {
        let p = p\<lparr>user_val_to_struct := ptr_array (sym_nprim (p_users p))\<rparr>;
        if \<not> ok 2 then Some (False, p) else do {
        (r, p) \<leftarrow> run_index (p_roles p) role_index (p\<lparr>p_role_val_to_name := ptr_array (sym_nprim (p_roles p))\<rparr>);
        if \<not> r \<or> \<not> ok 3 then Some (False, p) else do {
        (r, p) \<leftarrow> run_index (p_types p) type_index (p\<lparr>p_type_val_to_name := ptr_array (sym_nprim (p_types p))\<rparr>);
        if \<not> r \<or> \<not> ok 4 then Some (False, p) else do {
        (r, p) \<leftarrow> run_index (p_users p) user_index (p\<lparr>p_user_val_to_name := ptr_array (sym_nprim (p_users p))\<rparr>);
        if \<not> r \<or> \<not> ok 5 then Some (False, p) else do {
        (r, p) \<leftarrow> run_index (p_levels p) sens_index (p\<lparr>p_sens_val_to_name := ptr_array (sym_nprim (p_levels p))\<rparr>);
        if \<not> r \<or> \<not> ok 6 then Some (False, p) else
        run_index (p_cats p) cat_index (p\<lparr>p_cat_val_to_name := ptr_array (sym_nprim (p_cats p))\<rparr>)
      }}}}}})"

section \<open>Initial identifiers\<close>

fun load_isids_loop :: "allocs \<Rightarrow> nat \<Rightarrow> ocontext list \<Rightarrow> sidtab \<Rightarrow> bool \<times> sidtab" where
  "load_isids_loop ok i [] s = (True, s)"
| "load_isids_loop ok i (c # cs) s =
     (if c_user (oc_context0 c) = 0 then (False, s)
      else
        case sidtab_insert (\<lambda>p. ok (i # p)) (Some s) (oc_sid0 c) (oc_context0 c) of
          Inl e \<Rightarrow> (False, s)
        | Inr s \<Rightarrow> load_isids_loop ok (Suc i) cs s)"

definition policydb_load_isids :: "allocs \<Rightarrow> policydb \<Rightarrow> bool \<times> sidtab" where
  "policydb_load_isids ok p = load_isids_loop ok 0 (ocon_isid p) sidtab_init"

section \<open>Validity of contexts\<close>

text \<open>The positions of the categories of a bitmap, in the order in which the loops over it meet
  them.\<close>

definition ebitmap_positions :: "ebitmap \<Rightarrow> nat list" where
  "ebitmap_positions e = filter (\<lambda>i. ebitmap_get_bit e (of_nat i)) [0..<unat (highbit e)]"

definition mls_level_isvalid :: "policydb \<Rightarrow> mls_level \<Rightarrow> bool option" where
  "mls_level_isvalid p l =
     (if sens l = 0 \<or> sens l > sym_nprim (p_levels p) then Some False
      else do {
        name \<leftarrow> fetch (p_sens_val_to_name p) (sens l);
        levdatum \<leftarrow> hashtab_search (sym_table (p_levels p)) name;
        case levdatum of
          None \<Rightarrow> Some False
        | Some ld \<Rightarrow>
            Some (\<forall>i\<in>set (ebitmap_positions (cat l)).
              of_nat (i + 1) \<le> sym_nprim (p_cats p) \<and> ebitmap_get_bit (cat (ld_level ld)) (of_nat i))
      })"

definition mls_context_isvalid :: "policydb \<Rightarrow> context_struct \<Rightarrow> bool option" where
  "mls_context_isvalid p c =
     (if mls_level_relation (hi (c_range c)) (lo (c_range c)) AND (MLS_RELATION_DOM OR MLS_RELATION_EQ) = 0
      then Some False
      else do {
        v0 \<leftarrow> mls_level_isvalid p (lo (c_range c));
        if \<not> v0 then Some False
        else do {
          v1 \<leftarrow> mls_level_isvalid p (hi (c_range c));
          if \<not> v1 then Some False
          else if c_user c = 0 \<or> c_user c > sym_nprim (p_users p) then Some False
          else do {
            usrdatum \<leftarrow> fetch (user_val_to_struct p) (c_user c);
            Some (\<exists>r\<in>set (ranges usrdatum). mls_range_contains r (c_range c))
          }
        }
      })"

text \<open>The test of \<open>usrdatum\<close> for \<open>NULL\<close> is left out: the index functions store only datums.\<close>

definition policydb_context_isvalid :: "policydb \<Rightarrow> context_struct \<Rightarrow> bool option" where
  "policydb_context_isvalid p c =
     (if c_role c = 0 \<or> c_role c > sym_nprim (p_roles p) then Some False
      else do {
        role \<leftarrow> fetch (role_val_to_struct p) (c_role c);
        if \<not> ebitmap_get_bit (types role) (c_type c - 1) then Some False
        else if c_user c = 0 \<or> c_user c > sym_nprim (p_users p) then Some False
        else do {
          usrdatum \<leftarrow> fetch (user_val_to_struct p) (c_user c);
          if \<not> ebitmap_get_bit (roles usrdatum) (c_role c - 1) then Some False
          else mls_context_isvalid p c
        }
      })"

end
