(* ===== verification/Mls.thy ===== *)
theory Mls
  imports Policydb
begin

text \<open>
  The multi-level security policy (\<open>security/mls.c\<close>): access decisions, the string form of a
  range and its parser, the conversion between policies and the binary form.  A block of
  memory that a string is written to is a list of characters of its size; a write outside
  of it is undefined and gives \<open>None\<close>.  A string that is parsed is the list of its
  characters before the terminating \<open>NUL\<close>; the \<open>NUL\<close>s which the parser stores in place only end
  tokens that it has already delimited.
\<close>

section \<open>Access decisions\<close>

definition mls_compute_av ::
    "context_struct \<Rightarrow> context_struct \<Rightarrow> class_datum \<Rightarrow> u32 \<Rightarrow> u32" where
  "mls_compute_av scontext tcontext tclass av = (
     let s = c_range scontext; t = c_range tcontext;
         rel0 = mls_level_relation (lo s) (lo t);
         rel1 = mls_level_relation (hi s) (hi t);
         av =
           (if rel1 \<noteq> MLS_RELATION_EQ then
              let av =
                    (if rel1 \<noteq> MLS_RELATION_DOM then av AND NOT (mread (mlsperms tclass)) else av)
              in if rel1 \<noteq> MLS_RELATION_DOMBY then av AND NOT (mreadby (mlsperms tclass)) else av
            else av);
         av =
           (if (rel0 \<noteq> MLS_RELATION_DOMBY \<and> rel0 \<noteq> MLS_RELATION_EQ) \<or>
               (\<not> mls_level_eq (lo t) (hi t) \<and> rel1 \<noteq> MLS_RELATION_DOM \<and> rel1 \<noteq> MLS_RELATION_EQ)
            then av AND NOT (mwrite (mlsperms tclass)) else av)
     in if (rel0 \<noteq> MLS_RELATION_DOM \<and> rel0 \<noteq> MLS_RELATION_EQ) \<or>
           (\<not> mls_level_eq (lo s) (hi s) \<and> rel1 \<noteq> MLS_RELATION_DOMBY \<and> rel1 \<noteq> MLS_RELATION_EQ)
        then av AND NOT (mwriteby (mlsperms tclass)) else av)"

section \<open>The string form of a range\<close>

definition mls_level_len :: "policydb \<Rightarrow> mls_level \<Rightarrow> nat option" where
  "mls_level_len p l = do {
     name \<leftarrow> fetch (p_sens_val_to_name p) (sens l);
     names \<leftarrow> those (map (\<lambda>i. fetch (p_cat_val_to_name p) (of_nat (i + 1))) (ebitmap_positions (cat l)));
     Some (length name + 1 + sum_list (map (\<lambda>n. length n + 1) names))
   }"

definition mls_compute_context_len :: "policydb \<Rightarrow> context_struct \<Rightarrow> nat option" where
  "mls_compute_context_len p c = do {
     len \<leftarrow> mls_level_len p (lo (c_range c));
     if mls_level_relation (lo (c_range c)) (hi (c_range c)) = MLS_RELATION_EQ then Some len
     else do {
       len2 \<leftarrow> mls_level_len p (hi (c_range c));
       Some (len + len2)
     }
   }"

text \<open>\<open>buf[i] = c\<close> and \<open>strcpy(buf + i, s)\<close>.\<close>

definition bput :: "nat \<Rightarrow> char \<Rightarrow> char list \<Rightarrow> char list option" where
  "bput i c buf = (if i < length buf then Some (buf[i := c]) else None)"

definition bstrcpy :: "nat \<Rightarrow> string \<Rightarrow> char list \<Rightarrow> char list option" where
  "bstrcpy i s buf =
     (if i + length s < length buf
      then Some (take i buf @ s @ CHR 0x00 # drop (i + length s + 1) buf) else None)"

fun mls_put_cats :: "policydb \<Rightarrow> nat list \<Rightarrow> char list \<times> nat \<Rightarrow> (char list \<times> nat) option" where
  "mls_put_cats p [] st = Some st"
| "mls_put_cats p (i # is) (buf, pos) = do {
     name \<leftarrow> fetch (p_cat_val_to_name p) (of_nat (i + 1));
     buf \<leftarrow> bstrcpy pos name buf;
     let pos = pos + length name;
     buf \<leftarrow> bput pos (CHR '','') buf;
     mls_put_cats p is (buf, pos + 1)
   }"

definition mls_put_level :: "policydb \<Rightarrow> mls_level \<Rightarrow> char list \<times> nat \<Rightarrow> (char list \<times> nat) option" where
  "mls_put_level p l st = (case st of (buf, pos) \<Rightarrow> do {
     name \<leftarrow> fetch (p_sens_val_to_name p) (sens l);
     buf \<leftarrow> bstrcpy pos name buf;
     let pos = pos + length name;
     buf \<leftarrow> bput pos (CHR '':'') buf;
     mls_put_cats p (ebitmap_positions (cat l)) (buf, pos + 1)
   })"

text \<open>\<open>scontextp--; sprintf(scontextp, "-"); scontextp++\<close>\<close>

definition mls_put_dash :: "char list \<times> nat \<Rightarrow> (char list \<times> nat) option" where
  "mls_put_dash st = (case st of (buf, pos) \<Rightarrow> do {
     buf \<leftarrow> bstrcpy (pos - 1) ''-'' buf;
     Some (buf, pos)
   })"

definition mls_sid_to_context ::
    "policydb \<Rightarrow> context_struct \<Rightarrow> char list \<times> nat \<Rightarrow> (char list \<times> nat) option" where
  "mls_sid_to_context p c st = do {
     st \<leftarrow> mls_put_level p (lo (c_range c)) st;
     st \<leftarrow> (if mls_level_relation (lo (c_range c)) (hi (c_range c)) \<noteq> MLS_RELATION_EQ
           then do {
             st \<leftarrow> mls_put_dash st;
             st \<leftarrow> mls_put_level p (hi (c_range c)) st;
             mls_put_dash st
           }
           else Some st);
     let (buf, pos) = st;
     buf \<leftarrow> bput (pos - 1) (CHR 0x00) buf;
     Some (buf, pos - 1)
   }"

section \<open>Parsing the string form\<close>

text \<open>\<open>while (*p && *p != ...) p++\<close> and the step over the delimiter: the token, the delimiter (\<open>None\<close> for
  the end of the string) and what follows.\<close>

definition scan :: "char set \<Rightarrow> string \<Rightarrow> string \<times> char option \<times> string" where
  "scan stops s =
     (takeWhile (\<lambda>c. c \<notin> stops) s,
      case dropWhile (\<lambda>c. c \<notin> stops) s of [] \<Rightarrow> (None, []) | d # r \<Rightarrow> (Some d, r))"

lemma scan_length: "scan stops s = (tok, Some d, r) \<Longrightarrow> length r < length s"
  unfolding scan_def by (auto split: list.splits)
    (metis length_Cons length_dropWhile_le less_eq_Suc_le)

function mls_parse_cats ::
    "mallocs \<Rightarrow> policydb \<Rightarrow> nat \<Rightarrow> ebitmap \<Rightarrow> string \<Rightarrow> (errno + ebitmap \<times> char option \<times> string) option" where
  "mls_parse_cats ok p i e s =
     (case scan {CHR '','', CHR ''-''} s of (tok, delim, s') \<Rightarrow> do {
        catdatum \<leftarrow> hashtab_search (sym_table (p_cats p)) tok;
        case catdatum of
          None \<Rightarrow> Some (Inl EINVAL)
        | Some cd \<Rightarrow>
            (case ebitmap_set_bit (ok i) e (ca_value cd - 1) True of
               (False, e') \<Rightarrow> Some (Inl ENOMEM)
             | (True, e') \<Rightarrow>
                 if delim \<noteq> Some (CHR '','') then Some (Inr (e', delim, s'))
                 else mls_parse_cats ok p (Suc i) e' s')
      })"
  by pat_completeness auto
termination
  by (relation "measure (\<lambda>(ok, p, i, e, s). length s)") (auto dest: scan_length sym)

declare mls_parse_cats.simps [simp del]

definition mls_parse_level ::
    "mallocs \<Rightarrow> policydb \<Rightarrow> ebitmap \<Rightarrow> string \<times> char option \<times> string
     \<Rightarrow> (errno + mls_level \<times> char option \<times> string) option" where
  "mls_parse_level ok p e scanned = (case scanned of (tok, delim, s) \<Rightarrow> do {
     levdatum \<leftarrow> hashtab_search (sym_table (p_levels p)) tok;
     case levdatum of
       None \<Rightarrow> Some (Inl EINVAL)
     | Some ld \<Rightarrow>
         if delim = Some (CHR '':'') then do {
           r \<leftarrow> mls_parse_cats ok p 0 e s;
           case r of
             Inl err \<Rightarrow> Some (Inl err)
           | Inr (e, delim, s) \<Rightarrow> Some (Inr (\<lparr>sens = sens (ld_level ld), cat = e\<rparr>, delim, s))
         }
         else Some (Inr (\<lparr>sens = sens (ld_level ld), cat = e\<rparr>, delim, s))
   })"

definition mls_context_to_sid ::
    "allocs \<Rightarrow> policydb \<Rightarrow> string \<Rightarrow> context_struct \<Rightarrow> (errno + context_struct \<times> string) option" where
  "mls_context_to_sid ok p s c = do {
     r0 \<leftarrow> mls_parse_level (\<lambda>i. ok [0, i]) p (cat (lo (c_range c))) (scan {CHR '':'', CHR ''-''} s);
     case r0 of
       Inl err \<Rightarrow> Some (Inl err)
     | Inr (l0, delim, s) \<Rightarrow>
         if delim = Some (CHR ''-'') then do {
           r1 \<leftarrow> mls_parse_level (\<lambda>i. ok [1, i]) p (cat (hi (c_range c))) (scan {CHR '':''} s);
           case r1 of
             Inl err \<Rightarrow> Some (Inl err)
           | Inr (l1, delim, s) \<Rightarrow>
               let (tok, delim', s') = scan {CHR '':''} s
               in Some (Inr (c\<lparr>c_range := \<lparr>lo = l0, hi = l1\<rparr>\<rparr>,
                    if delim = Some (CHR ''-'') then s' else s))
         }
         else
           let (res, e) = ebitmap_cpy (\<lambda>i. ok [2, i]) (cat l0)
           in Some (Inr (c\<lparr>c_range := \<lparr>lo = l0, hi = \<lparr>sens = sens l0, cat = e\<rparr>\<rparr>\<rparr>, s))
   }"

section \<open>Derived and converted contexts\<close>

definition mls_member_sid :: "allocs \<Rightarrow> context_struct \<Rightarrow> context_struct \<Rightarrow> context_struct option" where
  "mls_member_sid ok newcontext scontext = (
     let (r0, cat0) = ebitmap_cpy (\<lambda>i. ok [0, i]) (cat (lo (c_range scontext)));
         (r1, cat1) = ebitmap_cpy (\<lambda>i. ok [1, i]) (cat (hi (c_range scontext)))
     in if \<not> r0 then None
        else if \<not> r1 then None
        else Some (newcontext\<lparr>c_range :=
               \<lparr>lo = \<lparr>sens = sens (lo (c_range scontext)), cat = cat0\<rparr>,
                hi = \<lparr>sens = sens (hi (c_range scontext)), cat = cat1\<rparr>\<rparr>\<rparr>))"

fun mls_convert_cats ::
    "mallocs \<Rightarrow> policydb \<Rightarrow> policydb \<Rightarrow> nat \<Rightarrow> nat list \<Rightarrow> ebitmap \<Rightarrow> (errno + ebitmap) option" where
  "mls_convert_cats ok oldp newp k [] e = Some (Inr e)"
| "mls_convert_cats ok oldp newp k (i # is) e = do {
     name \<leftarrow> fetch (p_cat_val_to_name oldp) (of_nat (i + 1));
     catdatum \<leftarrow> hashtab_search (sym_table (p_cats newp)) name;
     case catdatum of
       None \<Rightarrow> Some (Inl EINVAL)
     | Some cd \<Rightarrow>
         (case ebitmap_set_bit (ok k) e (ca_value cd - 1) True of
            (False, e') \<Rightarrow> Some (Inl ENOMEM)
          | (True, e') \<Rightarrow> mls_convert_cats ok oldp newp (Suc k) is e')
   }"

text \<open>The level is changed in place, also when an error is returned.\<close>

definition mls_convert_level ::
    "mallocs \<Rightarrow> policydb \<Rightarrow> policydb \<Rightarrow> mls_level \<Rightarrow> (errno option \<times> mls_level) option" where
  "mls_convert_level ok oldp newp l = do {
     name \<leftarrow> fetch (p_sens_val_to_name oldp) (sens l);
     levdatum \<leftarrow> hashtab_search (sym_table (p_levels newp)) name;
     case levdatum of
       None \<Rightarrow> Some (Some EINVAL, l)
     | Some ld \<Rightarrow> do {
         let l = l\<lparr>sens := sens (ld_level ld)\<rparr>;
         r \<leftarrow> mls_convert_cats ok oldp newp 0 (ebitmap_positions (cat l)) ebitmap_init;
         case r of
           Inl err \<Rightarrow> Some (Some err, l)
         | Inr e \<Rightarrow> Some (None, l\<lparr>cat := e\<rparr>)
       }
   }"

definition mls_convert_context ::
    "allocs \<Rightarrow> policydb \<Rightarrow> policydb \<Rightarrow> context_struct \<Rightarrow> (errno option \<times> context_struct) option" where
  "mls_convert_context ok oldp newp c = do {
     (err, l0) \<leftarrow> mls_convert_level (\<lambda>i. ok [0, i]) oldp newp (lo (c_range c));
     let c = c\<lparr>c_range := (c_range c)\<lparr>lo := l0\<rparr>\<rparr>;
     if err \<noteq> None then Some (err, c)
     else do {
       (err, l1) \<leftarrow> mls_convert_level (\<lambda>i. ok [1, i]) oldp newp (hi (c_range c));
       Some (err, c\<lparr>c_range := (c_range c)\<lparr>hi := l1\<rparr>\<rparr>)
     }
   }"

section \<open>The binary form\<close>

definition mls_read_level :: "allocs \<Rightarrow> byte list \<Rightarrow> (mls_level \<times> byte list) option" where
  "mls_read_level ok fp =
     (if \<not> ok [0] then None
      else do {
        (s, fp) \<leftarrow> fread32 fp;
        let (e, rest) = ebitmap_read (\<lambda>i. ok [1, i]) fp;
        fp \<leftarrow> rest;
        Some (\<lparr>sens = s, cat = e\<rparr>, fp)
      })"

text \<open>The array \<open>buf\<close> still holds the count when no sensitivity follows it.\<close>

definition mls_read_range :: "allocs \<Rightarrow> byte list \<Rightarrow> (mls_range \<times> byte list) option" where
  "mls_read_range ok fp = do {
     (w, fp) \<leftarrow> fread32 fp;
     if unat w > 3 then None
     else do {
       (ws, fp) \<leftarrow> fread32s (unat w) fp;
       let buf = fill ws [w];
       let (e0, rest) = ebitmap_read (\<lambda>i. ok [0, i]) fp;
       fp \<leftarrow> rest;
       if unat w > 1 then do {
         let (e1, rest) = ebitmap_read (\<lambda>i. ok [1, i]) fp;
         fp \<leftarrow> rest;
         Some (\<lparr>lo = \<lparr>sens = buf ! 0, cat = e0\<rparr>, hi = \<lparr>sens = buf ! 1, cat = e1\<rparr>\<rparr>, fp)
       }
       else do {
         let (res, e1) = ebitmap_cpy (\<lambda>i. ok [1, i]) e0;
         if \<not> res then None
         else Some (\<lparr>lo = \<lparr>sens = buf ! 0, cat = e0\<rparr>, hi = \<lparr>sens = buf ! 0, cat = e1\<rparr>\<rparr>, fp)
       }
     }
   }"

definition mls_read_perms :: "byte list \<Rightarrow> (mls_perms \<times> byte list) option" where
  "mls_read_perms fp = do {
     (ws, fp) \<leftarrow> fread32s 4 fp;
     Some (\<lparr>mread = ws ! 0, mreadby = ws ! 1, mwrite = ws ! 2, mwriteby = ws ! 3\<rparr>, fp)
   }"

definition mls_write_level :: "allocs \<Rightarrow> mls_level \<Rightarrow> byte list option" where
  "mls_write_level ok l =
     (if \<not> ok [0] then None
      else do {
        out \<leftarrow> ebitmap_write (\<lambda>i. ok [1, i]) (cat l);
        Some (le32 (sens l) @ out)
      })"

definition mls_write_range :: "allocs \<Rightarrow> mls_range \<Rightarrow> byte list option" where
  "mls_write_range ok r = (
     let rel = mls_level_relation (hi r) (lo r);
         ws = sens (lo r) # (if rel \<noteq> MLS_RELATION_EQ then [sens (hi r)] else [])
     in if \<not> ok [0] then None
        else do {
          out0 \<leftarrow> ebitmap_write (\<lambda>i. ok [1, i]) (cat (lo r));
          out1 \<leftarrow> (if rel \<noteq> MLS_RELATION_EQ then ebitmap_write (\<lambda>i. ok [2, i]) (cat (hi r)) else Some []);
          Some (le32 (of_nat (length ws)) @ concat (map le32 ws) @ out0 @ out1)
        })"

definition mls_write_perms :: "allocs \<Rightarrow> mls_perms \<Rightarrow> byte list option" where
  "mls_write_perms ok p =
     (if \<not> ok [0] then None
      else Some (concat (map le32 [mread p, mreadby p, mwrite p, mwriteby p])))"

end
