(* ===== verification/Mls_Lattice.thy ===== *)
theory Mls_Lattice
  imports Mls
begin

text \<open>
  The order of security levels.  On levels whose category bitmaps are well formed,
  \<open>mls_level_relation\<close> computes the product of the order of the sensitivities and the inclusion of
  the category sets, and \<open>mls_compute_av\<close> enforces the flow rules stated with it.
\<close>

section \<open>Dominance\<close>

definition level_ok :: "mls_level \<Rightarrow> bool" where
  "level_ok l \<longleftrightarrow> ebitmap_inv (cat l)"

definition range_ok :: "mls_range \<Rightarrow> bool" where
  "range_ok r \<longleftrightarrow> level_ok (lo r) \<and> level_ok (hi r)"

definition ldom :: "mls_level \<Rightarrow> mls_level \<Rightarrow> bool" where
  "ldom l1 l2 \<longleftrightarrow> sens l2 \<le> sens l1 \<and> ebits (cat l2) \<subseteq> ebits (cat l1)"

locale preorder_on =
  fixes ok :: "'a \<Rightarrow> bool" and le :: "'a \<Rightarrow> 'a \<Rightarrow> bool"
  assumes le_refl: "ok x \<Longrightarrow> le x x"
    and le_trans: "ok x \<Longrightarrow> ok y \<Longrightarrow> ok z \<Longrightarrow> le x y \<Longrightarrow> le y z \<Longrightarrow> le x z"
    and le_antisym: "ok x \<Longrightarrow> ok y \<Longrightarrow> le x y \<Longrightarrow> le y x \<Longrightarrow> x = y"
begin

text \<open>Intervals are ordered by inclusion of their end points.\<close>

lemma interval_trans:
  assumes "ok a" "ok b" "ok c" "ok a'" "ok b'" "ok c'" "le a b" "le b' a'" "le b c" "le c' b'"
  shows "le a c \<and> le c' a'"
  using le_trans [OF assms(1,2,3,7,9)] le_trans [OF assms(6,5,4,10,8)] by simp

end

lemma ebits_inj: "ebitmap_inv e \<Longrightarrow> ebitmap_inv e' \<Longrightarrow> ebits e = ebits e' \<longleftrightarrow> e = e'"
  using ebitmap_cmp_iff [of e e'] by simp

interpretation lev: preorder_on level_ok ldom
proof unfold_locales
  fix x y assume "level_ok x" "level_ok y" "ldom x y" "ldom y x"
  then show "x = y" using ebits_inj [of "cat x" "cat y"] by (auto simp: ldom_def level_ok_def)
qed (auto simp: ldom_def)

lemma mls_relation_iff:
  assumes "level_ok l1" "level_ok l2"
  shows "mls_level_relation l1 l2 = MLS_RELATION_EQ \<longleftrightarrow> l1 = l2"
    "mls_level_relation l1 l2 = MLS_RELATION_DOM \<longleftrightarrow> ldom l1 l2 \<and> l1 \<noteq> l2"
    "mls_level_relation l1 l2 = MLS_RELATION_DOMBY \<longleftrightarrow> ldom l2 l1 \<and> l1 \<noteq> l2"
    "mls_level_relation l1 l2 = MLS_RELATION_INCOMP \<longleftrightarrow> \<not> ldom l1 l2 \<and> \<not> ldom l2 l1"
proof -
  have c: "ebitmap_contains (cat l1) (cat l2) \<longleftrightarrow> ebits (cat l2) \<subseteq> ebits (cat l1)"
    "ebitmap_contains (cat l2) (cat l1) \<longleftrightarrow> ebits (cat l1) \<subseteq> ebits (cat l2)"
    using assms by (auto simp: level_ok_def ebitmap_contains_iff)
  have e: "sens l1 = sens l2 \<and> cat l1 = cat l2 \<longleftrightarrow> l1 = l2" by auto
  have as: "ldom l1 l2 \<Longrightarrow> ldom l2 l1 \<Longrightarrow> l1 = l2" by (rule lev.le_antisym [OF assms])
  have rel: "mls_level_relation l1 l2 =
      (if l1 = l2 then 4 else if ldom l1 l2 then 1 else if ldom l2 l1 then 2 else 8)"
    by (simp add: mls_level_relation_def e c ldom_def MLS_RELATION_EQ_def MLS_RELATION_DOM_def
        MLS_RELATION_DOMBY_def MLS_RELATION_INCOMP_def)
  show "mls_level_relation l1 l2 = MLS_RELATION_EQ \<longleftrightarrow> l1 = l2"
    "mls_level_relation l1 l2 = MLS_RELATION_DOM \<longleftrightarrow> ldom l1 l2 \<and> l1 \<noteq> l2"
    "mls_level_relation l1 l2 = MLS_RELATION_DOMBY \<longleftrightarrow> ldom l2 l1 \<and> l1 \<noteq> l2"
    "mls_level_relation l1 l2 = MLS_RELATION_INCOMP \<longleftrightarrow> \<not> ldom l1 l2 \<and> \<not> ldom l2 l1"
    using as lev.le_refl [OF assms(1)] unfolding rel
    by (auto simp: MLS_RELATION_EQ_def MLS_RELATION_DOM_def MLS_RELATION_DOMBY_def MLS_RELATION_INCOMP_def)
qed

lemma mls_relation_eq_iff: "mls_level_relation l1 l2 = MLS_RELATION_EQ \<longleftrightarrow> l1 = l2"
  by (auto simp: mls_level_relation_def MLS_RELATION_EQ_def MLS_RELATION_DOM_def MLS_RELATION_DOMBY_def
      MLS_RELATION_INCOMP_def)

text \<open>The tests of a relation against a mask.\<close>

lemma mls_relation_mask:
  assumes "level_ok l1" "level_ok l2"
  shows "mls_level_relation l1 l2 AND (MLS_RELATION_EQ OR MLS_RELATION_DOMBY) \<noteq> 0 \<longleftrightarrow> ldom l2 l1"
    "mls_level_relation l1 l2 AND (MLS_RELATION_EQ OR MLS_RELATION_DOM) \<noteq> 0 \<longleftrightarrow> ldom l1 l2"
    "mls_level_relation l1 l2 AND (MLS_RELATION_DOM OR MLS_RELATION_EQ) = 0 \<longleftrightarrow> \<not> ldom l1 l2"
proof -
  note rel = mls_relation_iff [OF assms]
  consider "mls_level_relation l1 l2 = MLS_RELATION_EQ" "ldom l1 l2" "ldom l2 l1"
    | "mls_level_relation l1 l2 = MLS_RELATION_DOM" "ldom l1 l2" "\<not> ldom l2 l1"
    | "mls_level_relation l1 l2 = MLS_RELATION_DOMBY" "\<not> ldom l1 l2" "ldom l2 l1"
    | "mls_level_relation l1 l2 = MLS_RELATION_INCOMP" "\<not> ldom l1 l2" "\<not> ldom l2 l1"
    using rel lev.le_antisym [OF assms] lev.le_refl [OF assms(1)] by blast
  then show "mls_level_relation l1 l2 AND (MLS_RELATION_EQ OR MLS_RELATION_DOMBY) \<noteq> 0 \<longleftrightarrow> ldom l2 l1"
    "mls_level_relation l1 l2 AND (MLS_RELATION_EQ OR MLS_RELATION_DOM) \<noteq> 0 \<longleftrightarrow> ldom l1 l2"
    "mls_level_relation l1 l2 AND (MLS_RELATION_DOM OR MLS_RELATION_EQ) = 0 \<longleftrightarrow> \<not> ldom l1 l2"
    by (cases; simp add: MLS_RELATION_EQ_def MLS_RELATION_DOM_def MLS_RELATION_DOMBY_def MLS_RELATION_INCOMP_def)+
qed

lemma mls_range_contains_iff:
  "range_ok r1 \<Longrightarrow> range_ok r2 \<Longrightarrow> mls_range_contains r1 r2 \<longleftrightarrow> ldom (lo r2) (lo r1) \<and> ldom (hi r1) (hi r2)"
  unfolding mls_range_contains_def range_ok_def using mls_relation_mask by blast

lemma mls_range_contains_trans:
  assumes "range_ok r1" "range_ok r2" "range_ok r3" "mls_range_contains r1 r2" "mls_range_contains r2 r3"
  shows "mls_range_contains r1 r3"
  using assms lev.interval_trans [of "hi r1" "hi r2" "hi r3" "lo r1" "lo r2" "lo r3"]
  by (auto simp: mls_range_contains_iff) (auto simp: range_ok_def)

section \<open>Flow rules\<close>

text \<open>The four base permissions: what they require of the ranges of the source and the
  target.\<close>

definition may_read :: "mls_range \<Rightarrow> mls_range \<Rightarrow> bool" where
  "may_read s t \<longleftrightarrow> ldom (hi s) (hi t)"

definition may_write :: "mls_range \<Rightarrow> mls_range \<Rightarrow> bool" where
  "may_write s t \<longleftrightarrow> ldom (lo t) (lo s) \<and> (lo t = hi t \<or> ldom (hi s) (hi t))"

lemma mls_rules:
  assumes "range_ok s" "range_ok t"
  shows "may_read s t \<longleftrightarrow> mls_level_relation (hi s) (hi t) = MLS_RELATION_EQ \<or> mls_level_relation (hi s) (hi t) = MLS_RELATION_DOM"
    "may_read t s \<longleftrightarrow> mls_level_relation (hi s) (hi t) = MLS_RELATION_EQ \<or> mls_level_relation (hi s) (hi t) = MLS_RELATION_DOMBY"
    "may_write s t \<longleftrightarrow> (mls_level_relation (lo s) (lo t) = MLS_RELATION_DOMBY \<or> mls_level_relation (lo s) (lo t) = MLS_RELATION_EQ) \<and>
       (lo t = hi t \<or> mls_level_relation (hi s) (hi t) = MLS_RELATION_DOM \<or> mls_level_relation (hi s) (hi t) = MLS_RELATION_EQ)"
    "may_write t s \<longleftrightarrow> (mls_level_relation (lo s) (lo t) = MLS_RELATION_DOM \<or> mls_level_relation (lo s) (lo t) = MLS_RELATION_EQ) \<and>
       (lo s = hi s \<or> mls_level_relation (hi s) (hi t) = MLS_RELATION_DOMBY \<or> mls_level_relation (hi s) (hi t) = MLS_RELATION_EQ)"
  using assms lev.le_refl by (auto simp: may_read_def may_write_def range_ok_def mls_relation_iff)

lemma mls_compute_av_bit:
  fixes scontext tcontext :: context_struct and cl :: class_datum
  assumes "range_ok (c_range scontext)" "range_ok (c_range tcontext)"
  defines "s \<equiv> c_range scontext" and "t \<equiv> c_range tcontext" and "m \<equiv> mlsperms cl"
  shows "bit (mls_compute_av scontext tcontext cl av) k \<longleftrightarrow> bit av k \<and>
    (bit (mread m) k \<longrightarrow> may_read s t) \<and> (bit (mreadby m) k \<longrightarrow> may_read t s) \<and>
    (bit (mwrite m) k \<longrightarrow> may_write s t) \<and> (bit (mwriteby m) k \<longrightarrow> may_write t s)"
proof -
  have clear: "bit (x AND NOT y) k \<longleftrightarrow> bit x k \<and> \<not> bit y k" for x y :: u32
    using bit_imp_le_length [of x k] by (auto simp: bit_simps)
  note rules = mls_rules [OF assms(1,2), folded s_def t_def]
  define rel0 where "rel0 = mls_level_relation (lo s) (lo t)"
  define rel1 where "rel1 = mls_level_relation (hi s) (hi t)"
  note rules = rules [folded rel0_def rel1_def]
  have ne: "MLS_RELATION_EQ \<noteq> MLS_RELATION_DOM" "MLS_RELATION_EQ \<noteq> MLS_RELATION_DOMBY"
    "MLS_RELATION_DOM \<noteq> MLS_RELATION_DOMBY"
    by (simp_all add: MLS_RELATION_EQ_def MLS_RELATION_DOM_def MLS_RELATION_DOMBY_def)
  show ?thesis
    unfolding mls_compute_av_def Let_def s_def [symmetric] t_def [symmetric] m_def [symmetric]
      rel0_def [symmetric] rel1_def [symmetric] rules
    by (auto simp: clear ne split: if_splits)
qed

end
