(* ===== verification/Mls_String.thy ===== *)
theory Mls_String
  imports Mls_Lattice
begin

text \<open>
  The string form of a range: what \<open>mls_sid_to_context\<close> writes, how much room it needs, and that
  the parser reads it back.
\<close>

section \<open>Positions and names\<close>

lemma ebitmap_bit_bound:
  assumes "ebitmap_inv e" "b \<in> ebits e"
  shows "b < unat (highbit e)" "b + 64 < 2 ^ 32"
proof -
  have ok: "nodes_ok (nodes e)" and hb: "highbit e = top_bit (nodes e)" using assms(1) by (auto simp: ebitmap_inv_def)
  show lt: "b < unat (highbit e)" using nodes_bits_top [OF ok] assms(2) by (simp add: hb ebits_def)
  obtain n where "n \<in> set (nodes e)" using assms(2) by (auto simp: ebits_def nodes_bits_def)
  then have "64 dvd unat (highbit e)" using top_bit_ge(3) [OF ok] by (simp add: hb)
  then obtain k where "unat (highbit e) = 64 * k" by (auto elim: dvdE)
  moreover have "unat (highbit e) < 2 ^ 32" by simp
  ultimately have "unat (highbit e) + 64 \<le> 2 ^ 32" by auto
  then show "b + 64 < 2 ^ 32" using lt by linarith
qed

lemma ebitmap_positions_set:
  assumes "ebitmap_inv e"
  shows "set (ebitmap_positions e) = ebits e"
proof -
  have "unat (of_nat i :: u32) = i" if "i < unat (highbit e)" for i
    using that by (intro unat_of_nat_u32) (rule le_unat_less [OF less_imp_le])
  then show ?thesis
    using ebitmap_bit_bound(1) [OF assms] by (auto simp: ebitmap_positions_def ebitmap_get_bit_iff [OF assms])
qed

text \<open>Each value has a name, which the symbol table maps back to the value and which contains none of
  the delimiters.\<close>

definition named :: "'d symtab \<Rightarrow> string option list \<Rightarrow> ('d \<Rightarrow> u32) \<Rightarrow> char set \<Rightarrow> bool" where
  "named s xs val stops \<longleftrightarrow> (\<forall>v. 0 < v \<and> v \<le> sym_nprim s \<longrightarrow> (\<exists>n d. fetch xs v = Some n \<and>
     hashtab_search (sym_table s) n = Some (Some d) \<and> val d = v \<and> set n \<inter> stops = {}))"

lemma namedE:
  assumes "named s xs val stops" "0 < v" "v \<le> sym_nprim s"
  obtains n d where "fetch xs v = Some n" "hashtab_search (sym_table s) n = Some (Some d)" "val d = v"
    "set n \<inter> stops = {}"
  using assms unfolding named_def by blast

abbreviation mls_stops :: "char set" where
  "mls_stops \<equiv> {CHR '':'', CHR '','', CHR ''-'', CHR 0x00}"

definition mls_named :: "policydb \<Rightarrow> bool" where
  "mls_named p \<longleftrightarrow> named (p_levels p) (p_sens_val_to_name p) (\<lambda>d. sens (ld_level d)) mls_stops \<and>
     named (p_cats p) (p_cat_val_to_name p) ca_value mls_stops"

definition level_in :: "policydb \<Rightarrow> mls_level \<Rightarrow> bool" where
  "level_in p l \<longleftrightarrow> level_ok l \<and> 0 < sens l \<and> sens l \<le> sym_nprim (p_levels p) \<and>
     (\<forall>i\<in>ebits (cat l). i < unat (sym_nprim (p_cats p)))"

text \<open>The names of a level: of its sensitivity and of its categories.\<close>

definition level_names :: "policydb \<Rightarrow> mls_level \<Rightarrow> string \<Rightarrow> string list \<Rightarrow> bool" where
  "level_names p l n ns \<longleftrightarrow>
     (\<exists>ld. fetch (p_sens_val_to_name p) (sens l) = Some n \<and>
        hashtab_search (sym_table (p_levels p)) n = Some (Some ld) \<and> sens (ld_level ld) = sens l) \<and>
     list_all2 (\<lambda>i m. \<exists>d. fetch (p_cat_val_to_name p) (of_nat (i + 1)) = Some m \<and>
        hashtab_search (sym_table (p_cats p)) m = Some (Some d) \<and> ca_value d = of_nat (i + 1))
       (ebitmap_positions (cat l)) ns \<and>
     (\<forall>m\<in>set (n # ns). set m \<inter> mls_stops = {})"

lemma cat_value_bounds:
  assumes "i < unat (k :: u32)"
  shows "0 < (of_nat (i + 1) :: u32)" "(of_nat (i + 1) :: u32) \<le> k" "unat (of_nat (i + 1) - 1 :: u32) = i"
proof -
  have "i + 1 < 4294967296" using assms unat_u32_less [of k] by linarith
  then have "i + 1 < 2 ^ 32" by simp
  then have u: "unat (of_nat (i + 1) :: u32) = i + 1" "unat (of_nat i :: u32) = i" by (simp_all only: unat_of_nat_u32)
  show "0 < (of_nat (i + 1) :: u32)" "(of_nat (i + 1) :: u32) \<le> k"
    using assms u by (simp_all only: word_less_nat_alt word_le_nat_alt unat_0)
  show "unat (of_nat (i + 1) - 1 :: u32) = i" using u(2) by simp
qed

lemma level_names_ex:
  assumes "mls_named p" "level_in p l"
  shows "\<exists>n ns. level_names p l n ns"
proof -
  have pos: "set (ebitmap_positions (cat l)) = ebits (cat l)"
    using assms(2) by (simp add: level_in_def level_ok_def ebitmap_positions_set)
  obtain n ld where n: "fetch (p_sens_val_to_name p) (sens l) = Some n"
    "hashtab_search (sym_table (p_levels p)) n = Some (Some ld)" "sens (ld_level ld) = sens l" "set n \<inter> mls_stops = {}"
    using assms unfolding mls_named_def level_in_def by (auto elim: namedE)
  let ?P = "\<lambda>i m. (\<exists>d. fetch (p_cat_val_to_name p) (of_nat (i + 1)) = Some m \<and>
        hashtab_search (sym_table (p_cats p)) m = Some (Some d) \<and> ca_value d = of_nat (i + 1)) \<and> set m \<inter> mls_stops = {}"
  have "\<exists>m. ?P i m" if "i \<in> set (ebitmap_positions (cat l))" for i
  proof -
    have "i < unat (sym_nprim (p_cats p))" using that assms(2) pos by (simp add: level_in_def)
    from cat_value_bounds(1,2) [OF this] show ?thesis
      using assms(1) unfolding mls_named_def by (metis namedE)
  qed
  then obtain f where f: "\<And>i. i \<in> set (ebitmap_positions (cat l)) \<Longrightarrow> ?P i (f i)" by metis
  have "list_all2 (\<lambda>i m. \<exists>d. fetch (p_cat_val_to_name p) (of_nat (i + 1)) = Some m \<and>
        hashtab_search (sym_table (p_cats p)) m = Some (Some d) \<and> ca_value d = of_nat (i + 1))
      (ebitmap_positions (cat l)) (map f (ebitmap_positions (cat l)))"
    unfolding list_all2_map2 by (rule list.rel_refl_strong) (use f in blast)
  moreover have "\<forall>m\<in>set (n # map f (ebitmap_positions (cat l))). set m \<inter> mls_stops = {}" using n(4) f by auto
  ultimately show ?thesis using n(1-3) unfolding level_names_def by blast
qed

section \<open>Writing\<close>

text \<open>What the loop writes for a level: each name is followed by a separator.\<close>

definition level_raw :: "string \<Rightarrow> string list \<Rightarrow> string" where
  "level_raw n ns = n @ CHR '':'' # concat (map (\<lambda>m. m @ [CHR '','']) ns)"

lemma sep_length [simp]: "length (concat (map (\<lambda>m. m @ [c]) ns)) = sum_list (map (\<lambda>m. Suc (length m)) ns)"
  by (induction ns) simp_all

lemma level_raw_length: "length (level_raw n ns) = length n + 1 + sum_list (map (\<lambda>m. length m + 1) ns)"
  by (simp add: level_raw_def)

lemma mls_level_len_raw: "level_names p l n ns \<Longrightarrow> mls_level_len p l = Some (length (level_raw n ns))"
proof -
  have "those (map (\<lambda>i. fetch xs (of_nat (i + 1))) ix) = Some ns"
    if "list_all2 (\<lambda>i m. \<exists>d. fetch xs (of_nat (i + 1)) = Some m \<and> P m d \<and> Q i d) ix ns"
    for xs :: "string option list" and ix ns and P :: "string \<Rightarrow> 'q \<Rightarrow> bool" and Q :: "nat \<Rightarrow> 'q \<Rightarrow> bool"
    using that by (induction rule: list_all2_induct) auto
  then show "level_names p l n ns \<Longrightarrow> mls_level_len p l = Some (length (level_raw n ns))"
    unfolding level_names_def by (fastforce simp: mls_level_len_def level_raw_length)
qed

lemma bput_at: "junk \<noteq> [] \<Longrightarrow> bput (length tx) c (tx @ junk) = Some ((tx @ [c]) @ tl junk)"
  by (cases junk) (simp_all add: bput_def list_update_append)

lemma bstrcpy_at:
  "length s < length junk \<Longrightarrow>
     bstrcpy (length tx) s (tx @ junk) = Some ((tx @ s) @ CHR 0x00 # drop (Suc (length s)) junk)"
  by (simp add: bstrcpy_def)

lemma put_token:
  assumes "length s < length junk"
  shows "bstrcpy (length tx) s (tx @ junk) \<bind> (\<lambda>buf. bput (length tx + length s) c buf \<bind> f) =
    f ((tx @ s @ [c]) @ drop (Suc (length s)) junk)"
  using bput_at [of "CHR 0x00 # drop (Suc (length s)) junk" "tx @ s" c] by (simp add: bstrcpy_at [OF assms])

lemma mls_put_cats_at:
  assumes "list_all2 (\<lambda>i m. fetch (p_cat_val_to_name p) (of_nat (i + 1)) = Some m) ix ns"
    "sum_list (map (\<lambda>m. length m + 1) ns) \<le> length junk"
  shows "\<exists>junk'. mls_put_cats p ix (tx @ junk, length tx) =
      Some ((tx @ concat (map (\<lambda>m. m @ [CHR '','']) ns)) @ junk', length (tx @ concat (map (\<lambda>m. m @ [CHR '','']) ns))) \<and>
    length junk' + sum_list (map (\<lambda>m. length m + 1) ns) = length junk"
  using assms
proof (induction ix ns arbitrary: tx junk rule: list_all2_induct)
  case Nil
  then show ?case by simp
next
  case (Cons i ix m ns)
  have lt: "length m < length junk" using Cons.prems by simp
  obtain junk' where "mls_put_cats p ix ((tx @ m @ [CHR '','']) @ drop (Suc (length m)) junk, length (tx @ m @ [CHR '',''])) =
      Some (((tx @ m @ [CHR '','']) @ concat (map (\<lambda>m. m @ [CHR '','']) ns)) @ junk',
        length ((tx @ m @ [CHR '','']) @ concat (map (\<lambda>m. m @ [CHR '','']) ns))) \<and>
      length junk' + sum_list (map (\<lambda>m. length m + 1) ns) = length (drop (Suc (length m)) junk)"
    using Cons.IH [of "drop (Suc (length m)) junk" "tx @ m @ [CHR '','']"] Cons.prems by fastforce
  then show ?case
    using Cons.hyps(1) lt put_token [OF lt, of tx "CHR '',''" "\<lambda>buf. mls_put_cats p ix (buf, Suc (length tx + length m))"]
    by (auto simp: Let_def)
qed

lemma level_names_cats:
  "level_names p l n ns \<Longrightarrow>
     list_all2 (\<lambda>i m. fetch (p_cat_val_to_name p) (of_nat (i + 1)) = Some m) (ebitmap_positions (cat l)) ns"
  unfolding level_names_def by (auto elim: list.rel_mono_strong)

lemma mls_put_level_at:
  assumes n: "level_names p l n ns" and room: "length (level_raw n ns) \<le> length junk"
  shows "\<exists>junk'. mls_put_level p l (tx @ junk, length tx) =
      Some ((tx @ level_raw n ns) @ junk', length (tx @ level_raw n ns)) \<and>
    length junk' + length (level_raw n ns) = length junk"
proof -
  have lt: "length n < length junk" using room by (simp add: level_raw_length)
  have room': "sum_list (map (\<lambda>m. length m + 1) ns) \<le> length (drop (Suc (length n)) junk)"
    using room unfolding level_raw_length by simp
  obtain junk' where "mls_put_cats p (ebitmap_positions (cat l))
        ((tx @ n @ [CHR '':'']) @ drop (Suc (length n)) junk, length (tx @ n @ [CHR '':''])) =
      Some (((tx @ n @ [CHR '':'']) @ concat (map (\<lambda>m. m @ [CHR '','']) ns)) @ junk',
        length ((tx @ n @ [CHR '':'']) @ concat (map (\<lambda>m. m @ [CHR '','']) ns)))"
    "length junk' + sum_list (map (\<lambda>m. length m + 1) ns) = length (drop (Suc (length n)) junk)"
    using mls_put_cats_at [OF level_names_cats [OF n] room'] by blast
  moreover have "fetch (p_sens_val_to_name p) (sens l) = Some n" using n by (auto simp: level_names_def)
  ultimately show ?thesis
    using lt put_token [OF lt, of tx "CHR '':''" "\<lambda>buf. mls_put_cats p (ebitmap_positions (cat l)) (buf, length tx + length n + 1)"]
    by (intro exI [of _ junk']) (auto simp: mls_put_level_def Let_def level_raw_def)
qed

text \<open>The dash replaces the last separator, and its terminator needs one more byte.\<close>

lemma mls_put_dash_at:
  "junk \<noteq> [] \<Longrightarrow> \<exists>junk'. mls_put_dash (((tx @ [c]) @ junk), length (tx @ [c])) =
     Some ((tx @ ''-'') @ junk', length (tx @ ''-'')) \<and> length junk' = length junk"
  "mls_put_dash (tx @ [c], length (tx @ [c])) = None"
proof -
  assume "junk \<noteq> []"
  then show "\<exists>junk'. mls_put_dash (((tx @ [c]) @ junk), length (tx @ [c])) =
     Some ((tx @ ''-'') @ junk', length (tx @ ''-'')) \<and> length junk' = length junk"
    using bstrcpy_at [of "''-''" "c # junk" tx] by (cases junk) (simp_all add: mls_put_dash_def)
qed (simp add: mls_put_dash_def bstrcpy_def)

lemma level_raw_last: "level_raw n ns \<noteq> []"
  by (simp add: level_raw_def)

text \<open>The string of a range from the names of its levels.\<close>

definition range_text :: "mls_range \<Rightarrow> string \<times> string list \<Rightarrow> string \<times> string list \<Rightarrow> string" where
  "range_text r = (\<lambda>(n0, ns0) (n1, ns1).
     butlast (level_raw n0 ns0) @ (if lo r = hi r then [] else CHR ''-'' # butlast (level_raw n1 ns1)))"

lemma bput_last:
  assumes "r \<noteq> []"
  shows "bput (length (tx @ r) - 1) c ((tx @ r) @ junk) = Some ((tx @ butlast r) @ c # junk)"
proof -
  have r: "r = butlast r @ [last r]" using assms by simp
  have "bput (length (tx @ butlast r)) c ((tx @ butlast r) @ last r # junk) = Some ((tx @ butlast r) @ c # junk)"
    using bput_at [of "last r # junk" "tx @ butlast r" c] by simp
  moreover have "length (tx @ r) - 1 = length (tx @ butlast r)" "(tx @ r) @ junk = (tx @ butlast r) @ last r # junk"
    using assms by (simp_all add: Suc_leI)
  ultimately show ?thesis by (simp only:)
qed

lemma mls_put_both_at:
  assumes n0: "level_names p l0 n0 ns0" and n1: "level_names p l1 n1 ns1"
  defines "r0 \<equiv> level_raw n0 ns0" and "r1 \<equiv> level_raw n1 ns1"
  assumes room: "length r0 + length r1 \<le> length junk"
  shows "\<exists>junk'. (mls_put_level p l0 (tx @ junk, length tx) \<bind> mls_put_dash \<bind> mls_put_level p l1) =
      Some ((tx @ butlast r0 @ ''-'' @ r1) @ junk', length (tx @ butlast r0 @ ''-'' @ r1)) \<and>
    length junk' + length r0 + length r1 = length junk"
proof -
  have pos: "0 < length r1" "r0 \<noteq> []" using level_raw_last by (auto simp: r0_def r1_def)
  obtain j0 where j0: "mls_put_level p l0 (tx @ junk, length tx) = Some ((tx @ r0) @ j0, length (tx @ r0))"
    "length j0 + length r0 = length junk" using mls_put_level_at [OF n0, of junk tx] room by (auto simp: r0_def)
  have "j0 \<noteq> []" using j0(2) room pos by auto
  from mls_put_dash_at(1) [OF this, of "tx @ butlast r0" "last r0"]
  obtain j1 where j1: "mls_put_dash ((tx @ r0) @ j0, length (tx @ r0)) =
      Some ((tx @ butlast r0 @ ''-'') @ j1, length (tx @ butlast r0 @ ''-''))" "length j1 = length j0"
    using pos(2) by auto
  obtain j2 where "mls_put_level p l1 ((tx @ butlast r0 @ ''-'') @ j1, length (tx @ butlast r0 @ ''-'')) =
      Some (((tx @ butlast r0 @ ''-'') @ r1) @ j2, length ((tx @ butlast r0 @ ''-'') @ r1))" "length j2 + length r1 = length j1"
    using mls_put_level_at [OF n1, of j1 "tx @ butlast r0 @ ''-''"] room j0(2) j1(2) by (auto simp: r1_def)
  then show ?thesis using j0 j1 by simp
qed

lemma mls_sid_to_context_at:
  assumes n0: "level_names p (lo (c_range c)) n0 ns0" and n1: "level_names p (hi (c_range c)) n1 ns1"
    and len: "mls_compute_context_len p c = Some len"
  shows "len + (if lo (c_range c) = hi (c_range c) then 0 else 1) \<le> length junk \<Longrightarrow>
      \<exists>junk'. mls_sid_to_context p c (tx @ junk, length tx) =
        Some ((tx @ range_text (c_range c) (n0, ns0) (n1, ns1)) @ CHR 0x00 # junk',
          length (tx @ range_text (c_range c) (n0, ns0) (n1, ns1))) \<and> length junk' + len = length junk" (is "_ \<Longrightarrow> ?fits")
    "lo (c_range c) \<noteq> hi (c_range c) \<Longrightarrow> length junk = len \<Longrightarrow> mls_sid_to_context p c (tx @ junk, length tx) = None"
    "length (range_text (c_range c) (n0, ns0) (n1, ns1)) + 1 = len"
proof -
  let ?r0 = "level_raw n0 ns0" let ?r1 = "level_raw n1 ns1"
  let ?eq = "lo (c_range c) = hi (c_range c)"
  have lens: "len = length ?r0 + (if ?eq then 0 else length ?r1)"
    using len by (auto simp: mls_compute_context_len_def mls_level_len_raw [OF n0] mls_level_len_raw [OF n1] mls_relation_eq_iff)
  have ne: "?r0 \<noteq> []" "?r1 \<noteq> []" by (rule level_raw_last)+
  then have pos: "0 < length ?r0" "0 < length ?r1" by auto
  then show "length (range_text (c_range c) (n0, ns0) (n1, ns1)) + 1 = len" by (simp add: range_text_def lens)
  note both = mls_put_both_at [OF n0 n1, of junk tx]
  let ?t = "tx @ butlast ?r0 @ ''-'' @ butlast ?r1" let ?c = "last ?r1"
  have ends: "tx @ butlast ?r0 @ ''-'' @ ?r1 = ?t @ [?c]" using ne(2) by simp
  show "mls_sid_to_context p c (tx @ junk, length tx) = None" if "\<not> ?eq" "length junk = len"
  proof -
    have "mls_put_level p (lo (c_range c)) (tx @ junk, length tx) \<bind> mls_put_dash \<bind> mls_put_level p (hi (c_range c)) =
        Some (?t @ [?c], length (?t @ [?c]))" using both that lens unfolding ends by auto
    then show ?thesis
      using mls_put_dash_at(2) [of ?t ?c] that(1) by (auto simp: mls_sid_to_context_def mls_relation_eq_iff split: bind_splits)
  qed
  assume room: "len + (if ?eq then 0 else 1) \<le> length junk"
  show ?fits
  proof (cases ?eq)
    case True
    obtain j where j: "mls_put_level p (lo (c_range c)) (tx @ junk, length tx) = Some ((tx @ ?r0) @ j, length (tx @ ?r0))"
      "length j + length ?r0 = length junk" using mls_put_level_at [OF n0, of junk tx] room lens True by auto
    then show ?thesis
      using bput_last [OF ne(1), of tx "CHR 0x00" j] pos True lens
      by (auto simp: mls_sid_to_context_def mls_relation_eq_iff range_text_def) (cases ?r0; simp)
  next
    case False
    then obtain j where j: "mls_put_level p (lo (c_range c)) (tx @ junk, length tx) \<bind> mls_put_dash \<bind> mls_put_level p (hi (c_range c)) =
        Some ((?t @ [?c]) @ j, length (?t @ [?c]))" "length j + len = length junk"
      using both room lens unfolding ends by auto
    have "j \<noteq> []" using j(2) room False by auto
    from mls_put_dash_at(1) [OF this, of ?t ?c] obtain j' where
      j': "mls_put_dash ((?t @ [?c]) @ j, length (?t @ [?c])) = Some ((?t @ ''-'') @ j', length (?t @ ''-''))" "length j' = length j"
      by blast
    have "mls_sid_to_context p c (tx @ junk, length tx) = Some ((?t @ butlast ''-'') @ CHR 0x00 # j', length (?t @ ''-'') - 1)"
      using j(1) j'(1) bput_last [of "''-''" ?t "CHR 0x00" j'] False
      by (auto simp: mls_sid_to_context_def mls_relation_eq_iff split: bind_splits)
    then show ?thesis using False j(2) j'(2) by (simp add: range_text_def)
  qed
qed

section \<open>Parsing\<close>

definition after :: "string \<Rightarrow> char option \<times> string" where
  "after t = (case t of [] \<Rightarrow> (None, []) | d # r \<Rightarrow> (Some d, r))"

lemma scan_token:
  assumes "set tok \<inter> S = {}" "t = [] \<or> hd t \<in> S"
  shows "scan S (tok @ t) = (tok, after t)"
proof -
  have "\<forall>c\<in>set tok. c \<notin> S" using assms(1) by blast
  then have "takeWhile (\<lambda>c. c \<notin> S) (tok @ t) = tok @ takeWhile (\<lambda>c. c \<notin> S) t"
    "dropWhile (\<lambda>c. c \<notin> S) (tok @ t) = dropWhile (\<lambda>c. c \<notin> S) t" by (simp_all add: takeWhile_append2 dropWhile_append2)
  moreover have "takeWhile (\<lambda>c. c \<notin> S) t = []" "dropWhile (\<lambda>c. c \<notin> S) t = t" using assms(2) by (cases t; simp)+
  ultimately show ?thesis unfolding scan_def after_def by (simp only: append_Nil2)
qed

definition cats_text :: "string list \<Rightarrow> string" where
  "cats_text ns = butlast (concat (map (\<lambda>m. m @ [CHR '','']) ns))"

lemma cats_text_Cons: "cats_text (m # ns) = m @ (if ns = [] then [] else CHR '','' # cats_text ns)"
  by (cases ns) (simp_all add: cats_text_def butlast_append)

lemma level_raw_text: "butlast (level_raw n ns) = n @ (if ns = [] then [] else CHR '':'' # cats_text ns)"
  by (cases ns) (simp_all add: level_raw_def cats_text_def butlast_append)

lemma mls_parse_cats_text:
  assumes "list_all2 (\<lambda>i m. (\<exists>d. hashtab_search (sym_table (p_cats p)) m = Some (Some d) \<and> ca_value d = of_nat (i + 1)) \<and>
      set m \<inter> mls_stops = {} \<and> i + 64 < 2 ^ 32) ix ns"
    and "ns \<noteq> []" "ebitmap_inv e" "t = [] \<or> hd t = CHR ''-''" and ok: "\<And>j. ok j"
  shows "\<exists>e'. mls_parse_cats ok p k e (cats_text ns @ t) = Some (Inr (e', after t)) \<and> ebitmap_inv e' \<and>
    ebits e' = ebits e \<union> set ix"
  using assms(1-3)
proof (induction ix ns arbitrary: k e rule: list_all2_induct)
  case Nil
  then show ?case by simp
next
  case (Cons i ix m ns)
  obtain d where d: "hashtab_search (sym_table (p_cats p)) m = Some (Some d)" "ca_value d = of_nat (i + 1)"
    and m: "set m \<inter> {CHR '','', CHR ''-''} = {}" and i: "i + 64 < 2 ^ 32" using Cons.hyps(1) by auto
  have u: "unat (of_nat i :: u32) = i" using i by (intro unat_of_nat_u32) simp
  then have v: "ca_value d - 1 = of_nat i" "unat (of_nat i :: u32) + 64 < 2 ^ 32" using d(2) i by simp_all
  obtain res e1 where set: "ebitmap_set_bit (ok k) e (of_nat i) True = (res, e1)" by fastforce
  note spec = ebitmap_set_bit_spec [OF Cons.prems(2) v(2) set]
  have res: "res" using spec(1) ok by simp
  then have e1: "ebitmap_inv e1" "ebits e1 = insert i (ebits e)" using spec(2,3) by (simp_all add: bits_upd_def u)
  let ?t = "if ns = [] then t else CHR '','' # cats_text ns @ t"
  have "scan {CHR '','', CHR ''-''} (m @ ?t) = (m, after ?t)"
    by (rule scan_token [OF m]) (use assms(4) in auto)
  moreover have "cats_text (m # ns) @ t = m @ ?t" by (simp add: cats_text_Cons)
  ultimately have scan: "scan {CHR '','', CHR ''-''} (cats_text (m # ns) @ t) = (m, after ?t)" by (simp only:)
  show ?case
  proof (cases "ns = []")
    case True
    then have "after ?t = after t" "ix = []" "fst (after t) \<noteq> Some (CHR '','')"
      using Cons.hyps(2) assms(4) by (auto simp: after_def split: list.splits)
    then show ?thesis
      using scan d(1) v(1) set res e1 by (cases "after t") (simp add: mls_parse_cats.simps [of _ _ _ _ "cats_text _ @ _"])
  next
    case False
    obtain e' where e': "mls_parse_cats ok p (Suc k) e1 (cats_text ns @ t) = Some (Inr (e', after t))"
      "ebitmap_inv e'" "ebits e' = ebits e1 \<union> set ix" using Cons.IH [OF False e1(1)] by blast
    have "after ?t = (Some (CHR '',''), cats_text ns @ t)" using False by (simp add: after_def)
    then show ?thesis
      using scan d(1) v(1) set res e1 e' by (simp add: mls_parse_cats.simps [of _ _ k])
  qed
qed

lemma mls_parse_level_text:
  assumes l: "level_ok l" and n: "level_names p l n ns" and ok: "\<And>j. ok j"
    and S: "CHR '':'' \<in> S" "S \<subseteq> mls_stops" and t: "t = [] \<or> hd t = CHR ''-'' \<and> CHR ''-'' \<in> S"
  shows "mls_parse_level ok p ebitmap_init (scan S (butlast (level_raw n ns) @ t)) = Some (Inr (l, after t))"
proof -
  obtain ld where ld: "hashtab_search (sym_table (p_levels p)) n = Some (Some ld)" "sens (ld_level ld) = sens l"
    using n by (auto simp: level_names_def)
  have clean: "set m \<inter> mls_stops = {}" if "m \<in> set (n # ns)" for m using n that by (auto simp: level_names_def)
  have inv: "ebitmap_inv (cat l)" using l by (simp add: level_ok_def)
  have init: "ebitmap_inv ebitmap_init" "ebits ebitmap_init = {}"
    by (simp_all add: ebitmap_inv_def ebitmap_init_def nodes_ok_def top_bit_def ebits_def)
  have nS: "set n \<inter> S = {}" using clean [of n] S(2) by auto
  have len: "length ns = length (ebitmap_positions (cat l))" using n by (auto simp: level_names_def dest: list_all2_lengthD)
  show ?thesis
  proof (cases "ns = []")
    case True
    then have "ebits (cat l) = {}" using len ebitmap_positions_set [OF inv] by simp
    then have "cat l = ebitmap_init" using ebits_inj [OF inv init(1)] init(2) by simp
    moreover have "scan S (n @ t) = (n, after t)" by (rule scan_token [OF nS]) (use t in auto)
    moreover have "fst (after t) \<noteq> Some (CHR '':'')" using t by (auto simp: after_def split: list.splits)
    moreover from calculation(1) have "\<lparr>sens = sens l, cat = ebitmap_init\<rparr> = l" by (cases l) simp
    ultimately show ?thesis
      using ld True by (cases "after t") (simp add: mls_parse_level_def level_raw_text)
  next
    case False
    have "list_all2 (\<lambda>i m. (\<exists>d. hashtab_search (sym_table (p_cats p)) m = Some (Some d) \<and> ca_value d = of_nat (i + 1)) \<and>
      set m \<inter> mls_stops = {} \<and> i + 64 < 2 ^ 32) (ebitmap_positions (cat l)) ns"
      using n clean ebitmap_bit_bound(2) [OF inv] ebitmap_positions_set [OF inv]
      unfolding level_names_def by (auto elim!: list.rel_mono_strong)
    from mls_parse_cats_text [where t = t and k = 0 and ok = ok, OF this False init(1)] t ok
    obtain e' where e': "mls_parse_cats ok p 0 ebitmap_init (cats_text ns @ t) = Some (Inr (e', after t))"
      "ebitmap_inv e'" "ebits e' = ebits (cat l)" using ebitmap_positions_set [OF inv] init(2) by auto
    then have "e' = cat l" using ebits_inj [OF e'(2) inv] by simp
    moreover have "scan S (n @ CHR '':'' # cats_text ns @ t) = (n, Some (CHR '':''), cats_text ns @ t)"
      using scan_token [OF nS, of "CHR '':'' # cats_text ns @ t"] S(1) by (simp add: after_def)
    ultimately show ?thesis
      using ld e'(1) False by (cases "after t") (simp add: mls_parse_level_def level_raw_text)
  qed
qed

lemma mls_context_to_sid_text:
  assumes r: "range_ok r" and n0: "level_names p (lo r) n0 ns0" and n1: "level_names p (hi r) n1 ns1" and ok: "\<And>q. ok q"
    and c: "cat (lo (c_range c)) = ebitmap_init" "cat (hi (c_range c)) = ebitmap_init"
  shows "mls_context_to_sid ok p (range_text r (n0, ns0) (n1, ns1)) c = Some (Inr (c\<lparr>c_range := r\<rparr>, []))"
proof -
  let ?t = "if lo r = hi r then [] else CHR ''-'' # butlast (level_raw n1 ns1)"
  have lo: "mls_parse_level (\<lambda>i. ok [0, i]) p ebitmap_init (scan {CHR '':'', CHR ''-''} (butlast (level_raw n0 ns0) @ ?t)) =
      Some (Inr (lo r, after ?t))"
    by (rule mls_parse_level_text [OF _ n0]) (use r ok in \<open>auto simp: range_ok_def\<close>)
  have hi: "mls_parse_level (\<lambda>i. ok [1, i]) p ebitmap_init (scan {CHR '':''} (butlast (level_raw n1 ns1) @ [])) =
      Some (Inr (hi r, after []))"
    by (rule mls_parse_level_text [OF _ n1]) (use r ok in \<open>auto simp: range_ok_def\<close>)
  obtain res e where cpy: "ebitmap_cpy (\<lambda>i. ok [2, i]) (cat (lo r)) = (res, e)" by fastforce
  then have "e = cat (lo r)" using ebitmap_cpy_spec [OF cpy] ok by simp
  then show ?thesis
    using lo hi c cpy unfolding range_text_def mls_context_to_sid_def
    by (cases "lo r = hi r") (simp_all add: after_def)
qed

end
