(* ===== verification/Services.thy ===== *)
theory Services
  imports Mls_String
begin

text \<open>
  The security services (\<open>security/services.c\<close>) over the security server's state: the active
  policy, the table of identifiers, the initialisation flag and the sequence number.  The
  numbers and names that the build generates from \<open>flask/security_classes\<close> and
  \<open>flask/initial_sids\<close> are the parameter \<open>fl\<close>.  The lock macros only clear the lock word, so the
  locked services are the unlocked ones.  Undefined behaviour and
  \<open>panic\<close> are \<open>None\<close>; an error code is \<open>Inl\<close>.
\<close>

section \<open>State\<close>

record flask =
  secclass_process :: "16 word"
  secclass_files :: "16 word list"
  secinitsid_num :: u32
  initial_sid_to_string :: "string list"
  secinitsid_fs :: u32
  secinitsid_file :: u32
  secinitsid_port :: u32
  secinitsid_netif :: u32
  secinitsid_netmsg :: u32
  secinitsid_node :: u32
  af_inet :: "16 word"

record ss =
  ss_sidtab :: sidtab
  ss_policydb :: policydb
  ss_initialized :: bool
  latest_granting :: u32

section \<open>Access decisions\<close>

fun constraint_expr_eval ::
    "policydb \<Rightarrow> context_struct \<Rightarrow> context_struct \<Rightarrow> constraint_expr \<Rightarrow> bool option" where
  "constraint_expr_eval p s t (Expr ty rel bm l r n) =
     (if ty = CONSTRAINT_EXPR_TYPE_NOT then
        (case l of None \<Rightarrow> None | Some e \<Rightarrow> map_option Not (constraint_expr_eval p s t e))
      else if ty = CONSTRAINT_EXPR_TYPE_AND then
        (case l of None \<Rightarrow> None | Some e \<Rightarrow> do {
           b \<leftarrow> constraint_expr_eval p s t e;
           if \<not> b then Some False
           else case r of None \<Rightarrow> None | Some e' \<Rightarrow> constraint_expr_eval p s t e'
         })
      else if ty = CONSTRAINT_EXPR_TYPE_OR then
        (case l of None \<Rightarrow> None | Some e \<Rightarrow> do {
           b \<leftarrow> constraint_expr_eval p s t e;
           if b then Some True
           else case r of None \<Rightarrow> None | Some e' \<Rightarrow> constraint_expr_eval p s t e'
         })
      else if ty = CONSTRAINT_EXPR_TYPE_SAMEUSER then Some (c_user s = c_user t)
      else if ty = CONSTRAINT_EXPR_TYPE_TYPE_SOURCE then Some (ebitmap_get_bit bm (c_type s - 1))
      else if ty = CONSTRAINT_EXPR_TYPE_TYPE_TARGET then Some (ebitmap_get_bit bm (c_type t - 1))
      else if ty = CONSTRAINT_EXPR_TYPE_ROLE_SOURCE then Some (ebitmap_get_bit bm (c_role s - 1))
      else if ty = CONSTRAINT_EXPR_TYPE_ROLE_TARGET then Some (ebitmap_get_bit bm (c_role t - 1))
      else if ty = CONSTRAINT_EXPR_TYPE_ROLE_RELATION then do {
        srole \<leftarrow> fetch (role_val_to_struct p) (c_role s);
        trole \<leftarrow> fetch (role_val_to_struct p) (c_role t);
        Some (
          if rel = CONSTRAINT_EXPR_VALUE_RELATION_DOM
          then c_role s \<noteq> c_role t \<and> ebitmap_get_bit (dominates srole) (c_role t - 1)
          else if rel = CONSTRAINT_EXPR_VALUE_RELATION_DOMBY
          then c_role s \<noteq> c_role t \<and> ebitmap_get_bit (dominates trole) (c_role s - 1)
          else if rel = CONSTRAINT_EXPR_VALUE_RELATION_EQ then c_role s = c_role t
          else if rel = CONSTRAINT_EXPR_VALUE_RELATION_INCOMP
          then c_role s \<noteq> c_role t \<and> \<not> ebitmap_get_bit (dominates srole) (c_role t - 1) \<and>
               \<not> ebitmap_get_bit (dominates trole) (c_role s - 1)
          else False)
      }
      else Some False)"

definition set_te_def :: "te_def \<Rightarrow> context_struct \<Rightarrow> context_struct \<Rightarrow> 16 word \<Rightarrow> u32 \<Rightarrow> u32 \<Rightarrow> u32" where
  "set_te_def d scontext tcontext tclass self notself =
     (if \<not> ebitmap_get_bit (te_exclude d) (ucast tclass - 1) then
        if te_value d = TE_DEF_ALL then 0xffffffff
        else if te_value d = TE_DEF_SELF then (if c_type scontext = c_type tcontext then self else notself)
        else 0
      else 0)"

fun apply_constraints ::
    "policydb \<Rightarrow> context_struct \<Rightarrow> context_struct \<Rightarrow> constraint_node list \<Rightarrow> u32 \<Rightarrow> u32 option" where
  "apply_constraints p s t [] av = Some av"
| "apply_constraints p s t (c # cs) av =
     (if cn_permissions c AND av \<noteq> 0 then do {
        b \<leftarrow> constraint_expr_eval p s t (cn_expr c);
        apply_constraints p s t cs (if \<not> b then av AND NOT (cn_permissions c) else av)
      }
      else apply_constraints p s t cs av)"

record decision =
  d_allowed :: u32
  d_decided :: u32
  d_auditallow :: u32
  d_auditdeny :: u32
  d_notify :: u32
  d_seqno :: u32

definition unlocked_security_compute_av ::
    "ss \<Rightarrow> u32 \<Rightarrow> u32 \<Rightarrow> 16 word \<Rightarrow> u32 \<Rightarrow> (errno + decision) option" where
  "unlocked_security_compute_av st ssid tsid tclass requested =
     (if \<not> ss_initialized st then
        Some (Inr \<lparr>d_allowed = requested, d_decided = requested, d_auditallow = 0, d_auditdeny = 0xffffffff,
                   d_notify = 0, d_seqno = latest_granting st\<rparr>)
      else
        let p = ss_policydb st
        in case sidtab_search (Some (ss_sidtab st)) ssid of None \<Rightarrow> Some (Inl EINVAL) | Some scontext \<Rightarrow>
           case sidtab_search (Some (ss_sidtab st)) tsid of None \<Rightarrow> Some (Inl EINVAL) | Some tcontext \<Rightarrow>
           if tclass = 0 \<or> ucast tclass > sym_nprim (p_classes p) then Some (Inl EINVAL)
           else do {
             tclass_datum \<leftarrow> fetch (class_val_to_struct p) (ucast tclass);
             let al = set_te_def (p_te_def_allowed p) scontext tcontext tclass 0xffffffff 0;
             let aa = set_te_def (p_te_def_auditallow p) scontext tcontext tclass 0 0xffffffff;
             let ad = set_te_def (p_te_def_auditdeny p) scontext tcontext tclass 0 0xffffffff;
             let nt = set_te_def (p_te_def_notify p) scontext tcontext tclass 0 0xffffffff;
             let (al, aa, ad, nt) =
               (case avtab_search (Some (te_avtab p))
                  \<lparr>source_type = c_type scontext, target_type = c_type tcontext, target_class = ucast tclass\<rparr> of
                  None \<Rightarrow> (al, aa, ad, nt)
                | Some d \<Rightarrow>
                    (if specified d AND AVTAB_ALLOWED \<noteq> 0 then allowed d else al,
                     if specified d AND AVTAB_AUDITALLOW \<noteq> 0 then auditallow d else aa,
                     if specified d AND AVTAB_AUDITDENY \<noteq> 0 then auditdeny d else ad,
                     if specified d AND AVTAB_NOTIFY \<noteq> 0 then notify d else nt));
             let al = mls_compute_av scontext tcontext tclass_datum al;
             al \<leftarrow> apply_constraints p scontext tcontext (constraints tclass_datum) al;
             Some (Inr \<lparr>d_allowed = al, d_decided = 0xffffffff, d_auditallow = aa, d_auditdeny = ad,
                        d_notify = nt, d_seqno = latest_granting st\<rparr>)
           })"

definition security_compute_av ::
    "ss \<Rightarrow> u32 \<Rightarrow> u32 \<Rightarrow> 16 word \<Rightarrow> u32 \<Rightarrow> (errno + decision) option" where
  "security_compute_av st ssid tsid tclass requested = unlocked_security_compute_av st ssid tsid tclass requested"

section \<open>Contexts as strings\<close>

text \<open>\<open>alloc n\<close> is the block that \<open>malloc(n)\<close> returns, with whatever it contains, or \<open>None\<close> for \<open>NULL\<close>.\<close>

definition context_struct_to_string ::
    "(nat \<Rightarrow> char list option) \<Rightarrow> policydb \<Rightarrow> context_struct \<Rightarrow> (errno + char list \<times> nat) option" where
  "context_struct_to_string alloc p c = do {
     u \<leftarrow> fetch (p_user_val_to_name p) (c_user c);
     r \<leftarrow> fetch (p_role_val_to_name p) (c_role c);
     t \<leftarrow> fetch (p_type_val_to_name p) (c_type c);
     mlen \<leftarrow> mls_compute_context_len p c;
     let len = (length u + 1) + (length r + 1) + (length t + 1) + mlen;
     case alloc len of
       None \<Rightarrow> Some (Inl ENOMEM)
     | Some buf \<Rightarrow> do {
         buf \<leftarrow> bstrcpy 0 (u @ '':'' @ r @ '':'' @ t @ '':'') buf;
         (buf, pos) \<leftarrow> mls_sid_to_context p c (buf, length u + 1 + length r + 1 + length t + 1);
         Some (Inr (buf, len))
       }
   }"

text \<open>Before initialisation the block is used without a test for \<open>NULL\<close>.\<close>

definition unlocked_security_sid_to_context ::
    "flask \<Rightarrow> (nat \<Rightarrow> char list option) \<Rightarrow> ss \<Rightarrow> u32 \<Rightarrow> (errno + char list \<times> nat) option" where
  "unlocked_security_sid_to_context fl alloc st sid =
     (if \<not> ss_initialized st then
        if sid \<le> secinitsid_num fl then
          if unat sid < length (initial_sid_to_string fl) then do {
            let name = initial_sid_to_string fl ! unat sid;
            let len = length name + 1;
            buf \<leftarrow> alloc len;
            buf \<leftarrow> bstrcpy 0 name buf;
            Some (Inr (buf, len))
          } else None
        else None
      else
        case sidtab_search (Some (ss_sidtab st)) sid of
          None \<Rightarrow> Some (Inl EINVAL)
        | Some context \<Rightarrow> context_struct_to_string alloc (ss_policydb st) context)"

definition security_sid_to_context ::
    "flask \<Rightarrow> (nat \<Rightarrow> char list option) \<Rightarrow> ss \<Rightarrow> u32 \<Rightarrow> (errno + char list \<times> nat) option" where
  "security_sid_to_context fl alloc st sid = unlocked_security_sid_to_context fl alloc st sid"

text \<open>The search for the name of an initial identifier, up to but not including \<open>SECINITSID_NUM\<close>.\<close>

definition initial_sid_lookup :: "flask \<Rightarrow> string \<Rightarrow> u32 option" where
  "initial_sid_lookup fl s =
     map_option of_nat (find (\<lambda>i. initial_sid_to_string fl ! i = s) [1..<unat (secinitsid_num fl)])"

text \<open>\<open>scontext\<close> is the buffer of \<open>scontext_len\<close> characters.  The parser works on the characters before the
  first \<open>NUL\<close>.\<close>

definition parse_context ::
    "allocs \<Rightarrow> policydb \<Rightarrow> string \<Rightarrow> (errno + context_struct) option" where
  "parse_context ok p s = (
     let (tok, delim, s) = scan {CHR '':''} s
     in if delim = None then Some (Inl EINVAL) else do {
     usrdatum \<leftarrow> hashtab_search (sym_table (p_users p)) tok;
     case usrdatum of None \<Rightarrow> Some (Inl EINVAL) | Some ud \<Rightarrow>
     let context = context_init\<lparr>c_user := ud_value ud\<rparr>;
         (tok, delim, s) = scan {CHR '':''} s
     in if delim = None then Some (Inl EINVAL) else do {
     role \<leftarrow> hashtab_search (sym_table (p_roles p)) tok;
     case role of None \<Rightarrow> Some (Inl EINVAL) | Some rd \<Rightarrow>
     let context = context\<lparr>c_role := rd_value rd\<rparr>;
         (tok, delim, s) = scan {CHR '':''} s
     in do {
     typdatum \<leftarrow> hashtab_search (sym_table (p_types p)) tok;
     case typdatum of None \<Rightarrow> Some (Inl EINVAL) | Some td \<Rightarrow>
     let context = context\<lparr>c_type := td_value td\<rparr>
     in if delim = None then Some (Inl EINVAL) else do {
     rc \<leftarrow> mls_context_to_sid ok p s context;
     case rc of Inl e \<Rightarrow> Some (Inl e) | Inr (context, s) \<Rightarrow> do {
     v \<leftarrow> policydb_context_isvalid p context;
     if \<not> v then Some (Inl EINVAL) else Some (Inr context)
   }}}}})"

definition unlocked_security_context_to_sid ::
    "flask \<Rightarrow> allocs \<Rightarrow> ss \<Rightarrow> char list \<Rightarrow> ((errno + u32) \<times> ss) option" where
  "unlocked_security_context_to_sid fl ok st scontext =
     (if \<not> ss_initialized st then
        (case initial_sid_lookup fl (takeWhile (\<lambda>c. c \<noteq> CHR 0x00) scontext) of
           Some sid \<Rightarrow> Some (Inr sid, st)
         | None \<Rightarrow> None)
      else if \<not> ok [0] then Some (Inl ENOMEM, st)
      else if scontext = [] then None
      else if last scontext \<noteq> CHR 0x00 then Some (Inl EINVAL, st)
      else do {
        r \<leftarrow> parse_context (\<lambda>q. ok (1 # q)) (ss_policydb st) (takeWhile (\<lambda>c. c \<noteq> CHR 0x00) scontext);
        case r of
          Inl e \<Rightarrow> Some (Inl e, st)
        | Inr context \<Rightarrow>
            (case sidtab_context_to_sid (\<lambda>q. ok (2 # q)) (ss_sidtab st) context of
               (res, sid, sd) \<Rightarrow>
                 Some (if res then Inr sid else Inl ENOMEM, st\<lparr>ss_sidtab := sd\<rparr>))
      })"

definition security_context_to_sid ::
    "flask \<Rightarrow> allocs \<Rightarrow> ss \<Rightarrow> char list \<Rightarrow> ((errno + u32) \<times> ss) option" where
  "security_context_to_sid fl ok st scontext = unlocked_security_context_to_sid fl ok st scontext"

section \<open>Labels of new objects\<close>

definition default_transition ::
    "flask \<Rightarrow> u32 \<Rightarrow> u32 \<Rightarrow> 16 word \<Rightarrow> errno + u32" where
  "default_transition fl ssid tsid tclass =
     (if tclass = secclass_process fl then Inr ssid
      else if tclass \<in> set (secclass_files fl) then Inr tsid
      else Inl EINVAL)"

text \<open>From the check of the new context on.\<close>

definition transition_finish ::
    "flask \<Rightarrow> allocs \<Rightarrow> ss \<Rightarrow> u32 \<Rightarrow> u32 \<Rightarrow> 16 word \<Rightarrow> context_struct \<Rightarrow> ((errno + u32) \<times> ss) option" where
  "transition_finish fl ok st ssid tsid tclass newcontext = do {
     v \<leftarrow> policydb_context_isvalid (ss_policydb st) newcontext;
     if \<not> v then Some (default_transition fl ssid tsid tclass, st)
     else
       case sidtab_context_to_sid ok (ss_sidtab st) newcontext of
         (res, sid, sd) \<Rightarrow> Some (if res then Inr sid else Inl ENOMEM, st\<lparr>ss_sidtab := sd\<rparr>)
   }"

definition unlocked_security_transition_sid ::
    "flask \<Rightarrow> allocs \<Rightarrow> ss \<Rightarrow> u32 \<Rightarrow> u32 \<Rightarrow> 16 word \<Rightarrow> ((errno + u32) \<times> ss) option" where
  "unlocked_security_transition_sid fl ok st ssid tsid tclass =
     (if \<not> ss_initialized st then Some (default_transition fl ssid tsid tclass, st)
      else
        case sidtab_search (Some (ss_sidtab st)) ssid of None \<Rightarrow> Some (Inl EINVAL, st) | Some scontext \<Rightarrow>
        case sidtab_search (Some (ss_sidtab st)) tsid of None \<Rightarrow> Some (Inl EINVAL, st) | Some tcontext \<Rightarrow>
        let avdatum = avtab_search (Some (te_avtab (ss_policydb st)))
              \<lparr>source_type = c_type scontext, target_type = c_type tcontext, target_class = ucast tclass\<rparr>;
            trans = (case avdatum of None \<Rightarrow> None
                     | Some d \<Rightarrow> if specified d AND AVTAB_TRANSITION \<noteq> 0 then Some (trans_type d) else None);
            retype = (\<lambda>c. case trans of None \<Rightarrow> c | Some t \<Rightarrow> c\<lparr>c_type := t\<rparr>)
        in if tclass = secclass_process fl then
             if trans = None then Some (Inr ssid, st)
             else case context_cpy (\<lambda>q. ok (0 # q)) context_init scontext of
               None \<Rightarrow> Some (Inl ENOMEM, st)
             | Some c \<Rightarrow> transition_finish fl (\<lambda>q. ok (1 # q)) st ssid tsid tclass (retype c)
           else if tclass \<in> set (secclass_files fl) then
             if trans = None \<and> c_user scontext = c_user tcontext then Some (Inr tsid, st)
             else case context_cpy (\<lambda>q. ok (0 # q)) context_init tcontext of
               None \<Rightarrow> Some (Inl ENOMEM, st)
             | Some c \<Rightarrow>
                 transition_finish fl (\<lambda>q. ok (1 # q)) st ssid tsid tclass (retype (c\<lparr>c_user := c_user scontext\<rparr>))
           else Some (Inl EINVAL, st))"

definition security_transition_sid ::
    "flask \<Rightarrow> allocs \<Rightarrow> ss \<Rightarrow> u32 \<Rightarrow> u32 \<Rightarrow> 16 word \<Rightarrow> ((errno + u32) \<times> ss) option" where
  "security_transition_sid fl ok st ssid tsid tclass = unlocked_security_transition_sid fl ok st ssid tsid tclass"

definition unlocked_security_member_sid ::
    "allocs \<Rightarrow> ss \<Rightarrow> u32 \<Rightarrow> u32 \<Rightarrow> 16 word \<Rightarrow> ((errno + u32) \<times> ss) option" where
  "unlocked_security_member_sid ok st ssid tsid tclass =
     (if \<not> ss_initialized st then Some (Inr tsid, st)
      else
        case sidtab_search (Some (ss_sidtab st)) ssid of None \<Rightarrow> Some (Inl EINVAL, st) | Some scontext \<Rightarrow>
        case sidtab_search (Some (ss_sidtab st)) tsid of None \<Rightarrow> Some (Inl EINVAL, st) | Some tcontext \<Rightarrow>
        case mls_member_sid (\<lambda>q. ok (0 # q)) context_init scontext of
          None \<Rightarrow> Some (Inl EINVAL, st)
        | Some newcontext \<Rightarrow> do {
            let newcontext = newcontext\<lparr>c_role := c_role tcontext, c_type := c_type tcontext, c_user := c_user tcontext\<rparr>;
            v \<leftarrow> policydb_context_isvalid (ss_policydb st) newcontext;
            if \<not> v then Some (Inl EINVAL, st)
            else
              case sidtab_context_to_sid (\<lambda>q. ok (1 # q)) (ss_sidtab st) newcontext of
                (res, sid, sd) \<Rightarrow> Some (if res then Inr sid else Inl ENOMEM, st\<lparr>ss_sidtab := sd\<rparr>)
          })"

definition security_member_sid ::
    "allocs \<Rightarrow> ss \<Rightarrow> u32 \<Rightarrow> u32 \<Rightarrow> 16 word \<Rightarrow> ((errno + u32) \<times> ss) option" where
  "security_member_sid ok st ssid tsid tclass = unlocked_security_member_sid ok st ssid tsid tclass"

section \<open>Labels of unlabelled objects\<close>

text \<open>The loops over a list of object contexts stop at the first match, whose identifiers are
  filled in on first use.  The result holds the two identifiers, if there is a match and
  memory suffices; \<open>two\<close> says whether the entry has a second context.\<close>

fun ocontext_sids ::
    "bool \<Rightarrow> allocs \<Rightarrow> sidtab \<Rightarrow> (ocontext_u \<Rightarrow> bool) \<Rightarrow> ocontext list
     \<Rightarrow> (errno + (u32 \<times> u32) option) \<times> sidtab \<times> ocontext list" where
  "ocontext_sids two ok s match [] = (Inr None, s, [])"
| "ocontext_sids two ok s match (c # cs) =
     (if match (oc_u c) then
        if oc_sid0 c = 0 \<or> two \<and> oc_sid1 c = 0 then
          let (res0, sid0, s) = sidtab_context_to_sid (\<lambda>q. ok (0 # q)) s (oc_context0 c);
              c = c\<lparr>oc_sid0 := sid0\<rparr>
          in if \<not> res0 then (Inl ENOMEM, s, c # cs)
             else if \<not> two then (Inr (Some (sid0, oc_sid1 c)), s, c # cs)
             else
               let (res1, sid1, s) = sidtab_context_to_sid (\<lambda>q. ok (1 # q)) s (oc_context1 c);
                   c = c\<lparr>oc_sid1 := sid1\<rparr>
               in if \<not> res1 then (Inl ENOMEM, s, c # cs)
                  else (Inr (Some (sid0, sid1)), s, c # cs)
        else (Inr (Some (oc_sid0 c, oc_sid1 c)), s, c # cs)
      else
        let (r, s, cs) = ocontext_sids two ok s match cs in (r, s, c # cs))"

definition name_match :: "string \<Rightarrow> ocontext_u \<Rightarrow> bool" where
  "name_match name u = (case u of OName n \<Rightarrow> n = name | _ \<Rightarrow> False)"

definition security_fs_sid :: "flask \<Rightarrow> allocs \<Rightarrow> ss \<Rightarrow> string \<Rightarrow> (errno + u32 \<times> u32) \<times> ss" where
  "security_fs_sid fl ok st name = (
     let (r, s, cs) = ocontext_sids True ok (ss_sidtab st) (name_match name) (ocon_fs (ss_policydb st));
         st = st\<lparr>ss_sidtab := s, ss_policydb := (ss_policydb st)\<lparr>ocon_fs := cs\<rparr>\<rparr>
     in (case r of
           Inl e \<Rightarrow> Inl e
         | Inr (Some sids) \<Rightarrow> Inr sids
         | Inr None \<Rightarrow> Inr (secinitsid_fs fl, secinitsid_file fl), st))"

definition port_match :: "8 word \<Rightarrow> 16 word \<Rightarrow> ocontext_u \<Rightarrow> bool" where
  "port_match protocol port u =
     (case u of OPort pr low high \<Rightarrow> pr = protocol \<and> low \<le> port \<and> high \<ge> port | _ \<Rightarrow> False)"

definition security_port_sid ::
    "flask \<Rightarrow> allocs \<Rightarrow> ss \<Rightarrow> 8 word \<Rightarrow> 16 word \<Rightarrow> (errno + u32) \<times> ss" where
  "security_port_sid fl ok st protocol port = (
     let (r, s, cs) = ocontext_sids False ok (ss_sidtab st) (port_match protocol port) (ocon_port (ss_policydb st));
         st = st\<lparr>ss_sidtab := s, ss_policydb := (ss_policydb st)\<lparr>ocon_port := cs\<rparr>\<rparr>
     in (case r of
           Inl e \<Rightarrow> Inl e
         | Inr (Some sids) \<Rightarrow> Inr (fst sids)
         | Inr None \<Rightarrow> Inr (secinitsid_port fl), st))"

definition security_netif_sid :: "flask \<Rightarrow> allocs \<Rightarrow> ss \<Rightarrow> string \<Rightarrow> (errno + u32 \<times> u32) \<times> ss" where
  "security_netif_sid fl ok st name = (
     let (r, s, cs) = ocontext_sids True ok (ss_sidtab st) (name_match name) (ocon_netif (ss_policydb st));
         st = st\<lparr>ss_sidtab := s, ss_policydb := (ss_policydb st)\<lparr>ocon_netif := cs\<rparr>\<rparr>
     in (case r of
           Inl e \<Rightarrow> Inl e
         | Inr (Some sids) \<Rightarrow> Inr sids
         | Inr None \<Rightarrow> Inr (secinitsid_netif fl, secinitsid_netmsg fl), st))"

definition node_match :: "u32 \<Rightarrow> ocontext_u \<Rightarrow> bool" where
  "node_match addr u = (case u of ONode a m \<Rightarrow> a = addr AND m | _ \<Rightarrow> False)"

definition security_node_sid ::
    "flask \<Rightarrow> allocs \<Rightarrow> ss \<Rightarrow> 16 word \<Rightarrow> u32 \<Rightarrow> u32 \<Rightarrow> (errno + u32) \<times> ss" where
  "security_node_sid fl ok st domain addr addrlen =
     (if domain \<noteq> af_inet fl \<or> addrlen \<noteq> 4 then (Inr (secinitsid_node fl), st)
      else
        let (r, s, cs) = ocontext_sids False ok (ss_sidtab st) (node_match addr) (ocon_node (ss_policydb st));
            st = st\<lparr>ss_sidtab := s, ss_policydb := (ss_policydb st)\<lparr>ocon_node := cs\<rparr>\<rparr>
        in (case r of
              Inl e \<Rightarrow> Inl e
            | Inr (Some sids) \<Rightarrow> Inr (fst sids)
            | Inr None \<Rightarrow> Inr (secinitsid_node fl), st))"

end
