(* ===== verification/Services_Inv.thy ===== *)
theory Services_Inv
  imports Services
begin

text \<open>
  Lemmas for the security services: the access decision bit by bit, the string form of a
  context, and the effect of the services on the table of identifiers.
\<close>

section \<open>Decisions\<close>

lemma bit_clear: "bit (x AND NOT y) k \<longleftrightarrow> bit x k \<and> \<not> bit y k" for x y :: u32
  using bit_imp_le_length [of x k] by (auto simp: bit_simps)

lemma and_nonzero: "bit x k \<Longrightarrow> bit y k \<Longrightarrow> x AND y \<noteq> 0" for x y :: u32
  by (metis bit_and_iff bit_0_eq bot_apply bot_bool_def)

text \<open>The constraints are tried in order on what is left of the vector, which amounts to all of them
  at once.\<close>

lemma apply_constraints_bit:
  assumes "apply_constraints p s t cs av = Some av'"
  shows "bit av' k \<longleftrightarrow> bit av k \<and>
    (\<forall>c\<in>set cs. bit (cn_permissions c) k \<longrightarrow> constraint_expr_eval p s t (cn_expr c) = Some True)"
  using assms
proof (induction cs arbitrary: av)
  case Nil
  then show ?case by simp
next
  case (Cons c cs)
  show ?case
  proof (cases "cn_permissions c AND av = 0")
    case True
    then have "\<not> (bit av k \<and> bit (cn_permissions c) k)" using and_nonzero by blast
    then show ?thesis using Cons.prems True Cons.IH by auto
  next
    case False
    then obtain b where b: "constraint_expr_eval p s t (cn_expr c) = Some b"
      "apply_constraints p s t cs (if \<not> b then av AND NOT (cn_permissions c) else av) = Some av'"
      using Cons.prems by (auto split: bind_splits)
    then show ?thesis using Cons.IH [OF b(2)] by (cases b) (auto simp: bit_clear)
  qed
qed

text \<open>The decision of the type enforcement tables.\<close>

definition te_allowed :: "policydb \<Rightarrow> context_struct \<Rightarrow> context_struct \<Rightarrow> 16 word \<Rightarrow> u32" where
  "te_allowed p s t tclass =
     (case avtab_search (Some (te_avtab p))
        \<lparr>source_type = c_type s, target_type = c_type t, target_class = ucast tclass\<rparr> of
        Some d \<Rightarrow> if specified d AND AVTAB_ALLOWED \<noteq> 0 then allowed d
                 else set_te_def (p_te_def_allowed p) s t tclass 0xffffffff 0
      | None \<Rightarrow> set_te_def (p_te_def_allowed p) s t tclass 0xffffffff 0)"

lemma security_compute_av_cases:
  assumes "ss_initialized st" "security_compute_av st ssid tsid tclass requested = Some (Inr d)"
  obtains s t cl where "sidtab_abs (ss_sidtab st) ssid = Some s" "sidtab_abs (ss_sidtab st) tsid = Some t"
    "tclass \<noteq> 0" "ucast tclass \<le> sym_nprim (p_classes (ss_policydb st))"
    "fetch (class_val_to_struct (ss_policydb st)) (ucast tclass) = Some cl" "d_seqno d = latest_granting st"
    "apply_constraints (ss_policydb st) s t (constraints cl)
       (mls_compute_av s t cl (te_allowed (ss_policydb st) s t tclass)) = Some (d_allowed d)"
proof -
  let ?p = "ss_policydb st"
  obtain s t where s: "sidtab_abs (ss_sidtab st) ssid = Some s" and t: "sidtab_abs (ss_sidtab st) tsid = Some t"
    and cls: "\<not> (tclass = 0 \<or> ucast tclass > sym_nprim (p_classes ?p))"
    using assms unfolding security_compute_av_def unlocked_security_compute_av_def sidtab_walk(2) Let_def
    by (auto split: option.splits if_splits)
  note run = assms(2) [unfolded security_compute_av_def unlocked_security_compute_av_def Let_def sidtab_walk(2) s t option.case if_not_P [OF cls]]
  obtain cl where cl: "fetch (class_val_to_struct ?p) (ucast tclass) = Some cl"
    using run assms(1) by (auto split: bind_splits)
  show ?thesis
  proof (rule that [OF s t _ _ cl])
    show "tclass \<noteq> 0" "ucast tclass \<le> sym_nprim (p_classes ?p)" using cls by auto
    show "d_seqno d = latest_granting st" "apply_constraints ?p s t (constraints cl)
        (mls_compute_av s t cl (te_allowed ?p s t tclass)) = Some (d_allowed d)"
      using run assms(1) unfolding te_allowed_def cl
      by (cases "avtab_search (Some (te_avtab ?p))
            \<lparr>source_type = c_type s, target_type = c_type t, target_class = ucast tclass\<rparr>"; auto split: bind_splits)+
  qed
qed

section \<open>Contexts as strings\<close>

definition policy_named :: "policydb \<Rightarrow> bool" where
  "policy_named p \<longleftrightarrow> mls_named p \<and>
     named (p_users p) (p_user_val_to_name p) ud_value {CHR '':'', CHR 0x00} \<and>
     named (p_roles p) (p_role_val_to_name p) rd_value {CHR '':'', CHR 0x00} \<and>
     named (p_types p) (p_type_val_to_name p) td_value {CHR '':'', CHR 0x00}"

lemma isvalid_levels:
  assumes "policydb_context_isvalid p c = Some True" "range_ok (c_range c)"
  shows "0 < c_role c" "c_role c \<le> sym_nprim (p_roles p)" "0 < c_user c" "c_user c \<le> sym_nprim (p_users p)"
    "level_in p (lo (c_range c))" "level_in p (hi (c_range c))" "ldom (hi (c_range c)) (lo (c_range c))"
proof -
  have v: "0 < c_role c \<and> c_role c \<le> sym_nprim (p_roles p) \<and> 0 < c_user c \<and> c_user c \<le> sym_nprim (p_users p) \<and>
      mls_context_isvalid p c = Some True"
    using assms(1) by (auto simp: policydb_context_isvalid_def word_gt_0 split: if_splits bind_splits)
  then show "0 < c_role c" "c_role c \<le> sym_nprim (p_roles p)" "0 < c_user c" "c_user c \<le> sym_nprim (p_users p)" by auto
  have lv: "mls_level_isvalid p (lo (c_range c)) = Some True" "mls_level_isvalid p (hi (c_range c)) = Some True"
    and rel: "\<not> mls_level_relation (hi (c_range c)) (lo (c_range c)) AND (MLS_RELATION_DOM OR MLS_RELATION_EQ) = 0"
    using v by (auto simp: mls_context_isvalid_def split: if_splits bind_splits)
  show "ldom (hi (c_range c)) (lo (c_range c))" 
    using rel mls_relation_mask(3) [of "hi (c_range c)" "lo (c_range c)"] assms(2) unfolding range_ok_def by satx
  have "level_in p l" if l: "mls_level_isvalid p l = Some True" and ok: "level_ok l" for l
  proof -
    have inv: "ebitmap_inv (cat l)" using ok by (simp add: level_ok_def)
    have s: "0 < sens l" "sens l \<le> sym_nprim (p_levels p)"
      "\<forall>i\<in>ebits (cat l). of_nat (i + 1) \<le> sym_nprim (p_cats p)"
      using l by (auto simp: mls_level_isvalid_def word_gt_0 ebitmap_positions_set [OF inv] split: if_splits bind_splits option.splits)
    have "i < unat (sym_nprim (p_cats p))" if "i \<in> ebits (cat l)" for i
    proof -
      have "unat (of_nat (i + 1) :: u32) = i + 1"
        using ebitmap_bit_bound(2) [OF inv that] by (intro unat_of_nat_u32) simp
      then show ?thesis using s(3) that by (metis Suc_eq_plus1 Suc_le_lessD word_le_nat_alt)
    qed
    then show ?thesis using s ok by (simp add: level_in_def)
  qed
  then show "level_in p (lo (c_range c))" "level_in p (hi (c_range c))" using lv assms(2) by (auto simp: range_ok_def)
qed

lemma range_text_no_nul:
  assumes "\<forall>m\<in>set (n0 # ns0 @ n1 # ns1). CHR 0x00 \<notin> set m"
  shows "CHR 0x00 \<notin> set (range_text r (n0, ns0) (n1, ns1))"
  using assms by (auto simp: range_text_def level_raw_def split: if_splits dest!: in_set_butlastD)

text \<open>The string of a context from its names.\<close>

definition context_text ::
    "context_struct \<Rightarrow> string \<Rightarrow> string \<Rightarrow> string \<Rightarrow> string \<times> string list \<Rightarrow> string \<times> string list \<Rightarrow> string" where
  "context_text c u r t ns0 ns1 =
     u @ CHR '':'' # r @ CHR '':'' # t @ CHR '':'' # range_text (c_range c) ns0 ns1"

definition context_names ::
    "policydb \<Rightarrow> context_struct \<Rightarrow> string \<Rightarrow> string \<Rightarrow> string \<Rightarrow> string \<times> string list \<Rightarrow> string \<times> string list \<Rightarrow> bool" where
  "context_names p c u r t ns0 ns1 \<longleftrightarrow>
     (\<exists>ud. fetch (p_user_val_to_name p) (c_user c) = Some u \<and>
        hashtab_search (sym_table (p_users p)) u = Some (Some ud) \<and> ud_value ud = c_user c) \<and>
     (\<exists>rd. fetch (p_role_val_to_name p) (c_role c) = Some r \<and>
        hashtab_search (sym_table (p_roles p)) r = Some (Some rd) \<and> rd_value rd = c_role c) \<and>
     (\<exists>td. fetch (p_type_val_to_name p) (c_type c) = Some t \<and>
        hashtab_search (sym_table (p_types p)) t = Some (Some td) \<and> td_value td = c_type c) \<and>
     level_names p (lo (c_range c)) (fst ns0) (snd ns0) \<and> level_names p (hi (c_range c)) (fst ns1) (snd ns1) \<and>
     (\<forall>m\<in>{u, r, t}. set m \<inter> {CHR '':'', CHR 0x00} = {})"

lemma context_names_ex:
  assumes "policy_named p" "policydb_context_isvalid p c = Some True" "range_ok (c_range c)"
    "0 < c_type c" "c_type c \<le> sym_nprim (p_types p)"
  shows "\<exists>u r t ns0 ns1. context_names p c u r t ns0 ns1"
proof -
  note v = isvalid_levels [OF assms(2,3)]
  obtain n0 ns0 n1 ns1 where ns: "level_names p (lo (c_range c)) n0 ns0" "level_names p (hi (c_range c)) n1 ns1"
    using level_names_ex v(5,6) assms(1) unfolding policy_named_def by metis
  have nm: "named (p_users p) (p_user_val_to_name p) ud_value {CHR '':'', CHR 0x00}"
    "named (p_roles p) (p_role_val_to_name p) rd_value {CHR '':'', CHR 0x00}"
    "named (p_types p) (p_type_val_to_name p) td_value {CHR '':'', CHR 0x00}"
    using assms(1) by (simp_all add: policy_named_def)
  obtain u ud where "fetch (p_user_val_to_name p) (c_user c) = Some u" "hashtab_search (sym_table (p_users p)) u = Some (Some ud)"
    "ud_value ud = c_user c" "set u \<inter> {CHR '':'', CHR 0x00} = {}" by (rule namedE [OF nm(1) v(3,4)])
  moreover obtain r rd where
    "fetch (p_role_val_to_name p) (c_role c) = Some r" "hashtab_search (sym_table (p_roles p)) r = Some (Some rd)"
    "rd_value rd = c_role c" "set r \<inter> {CHR '':'', CHR 0x00} = {}" by (rule namedE [OF nm(2) v(1,2)])
  moreover obtain t td where
    "fetch (p_type_val_to_name p) (c_type c) = Some t" "hashtab_search (sym_table (p_types p)) t = Some (Some td)"
    "td_value td = c_type c" "set t \<inter> {CHR '':'', CHR 0x00} = {}" by (rule namedE [OF nm(3) assms(4,5)])
  ultimately have "context_names p c u r t (n0, ns0) (n1, ns1)" using ns unfolding context_names_def by auto
  then show ?thesis by blast
qed

lemma context_text_no_nul:
  assumes "context_names p c u r t ns0 ns1"
  shows "CHR 0x00 \<notin> set (context_text c u r t ns0 ns1)"
proof -
  obtain n0 m0 n1 m1 where ns: "ns0 = (n0, m0)" "ns1 = (n1, m1)" by (cases ns0; cases ns1)
  have "\<forall>m\<in>set (n0 # m0 @ n1 # m1). CHR 0x00 \<notin> set m"
    using assms unfolding context_names_def level_names_def ns by fastforce
  from range_text_no_nul [OF this] show ?thesis
    using assms unfolding context_text_def context_names_def ns by fastforce
qed

lemma context_struct_to_string_at:
  assumes n: "context_names p c u r t ns0 ns1" and alloc: "alloc (length (context_text c u r t ns0 ns1) + 1) = Some buf"
  shows "length (context_text c u r t ns0 ns1) + 1 + (if lo (c_range c) = hi (c_range c) then 0 else 1) \<le> length buf \<Longrightarrow>
      \<exists>junk. context_struct_to_string alloc p c = Some (Inr (context_text c u r t ns0 ns1 @ CHR 0x00 # junk,
        length (context_text c u r t ns0 ns1) + 1))"
    "lo (c_range c) \<noteq> hi (c_range c) \<Longrightarrow> length buf = length (context_text c u r t ns0 ns1) + 1 \<Longrightarrow>
      context_struct_to_string alloc p c = None"
proof -
  obtain n0 m0 n1 m1 where ns: "ns0 = (n0, m0)" "ns1 = (n1, m1)" by (cases ns0; cases ns1)
  have f: "fetch (p_user_val_to_name p) (c_user c) = Some u" "fetch (p_role_val_to_name p) (c_role c) = Some r"
    "fetch (p_type_val_to_name p) (c_type c) = Some t" and l: "level_names p (lo (c_range c)) n0 m0" "level_names p (hi (c_range c)) n1 m1"
    using n by (auto simp: context_names_def ns)
  have "\<exists>mlen. mls_compute_context_len p c = Some mlen"
    unfolding mls_compute_context_len_def mls_level_len_raw [OF l(1)] mls_level_len_raw [OF l(2)] by simp
  then obtain mlen where mlen: "mls_compute_context_len p c = Some mlen" by blast
  note at = mls_sid_to_context_at [OF l mlen]
  let ?pre = "u @ '':'' @ r @ '':'' @ t @ '':''" let ?txt = "context_text c u r t ns0 ns1"
  have len: "length u + 1 + (length r + 1) + (length t + 1) + mlen = length ?txt + 1"
    using at(3) by (simp add: context_text_def ns)
  have pre: "bstrcpy 0 ?pre buf = Some (?pre @ CHR 0x00 # drop (Suc (length ?pre)) buf)" if "length ?pre < length buf"
    using that by (simp add: bstrcpy_def)
  have run: "context_struct_to_string alloc p c = bstrcpy 0 ?pre buf \<bind> (\<lambda>buf. mls_sid_to_context p c (buf, length ?pre) \<bind>
      (\<lambda>(buf, pos). Some (Inr (buf, length ?txt + 1))))"
    unfolding context_struct_to_string_def f mlen bind.bind_lunit Let_def len alloc option.case by (simp add: add.assoc)
  let ?junk = "CHR 0x00 # drop (Suc (length ?pre)) buf"
  have eq: "?txt = ?pre @ range_text (c_range c) (n0, m0) (n1, m1)" by (simp add: context_text_def ns)
  show "\<exists>junk. context_struct_to_string alloc p c = Some (Inr (?txt @ CHR 0x00 # junk, length ?txt + 1))"
    if room: "length ?txt + 1 + (if lo (c_range c) = hi (c_range c) then 0 else 1) \<le> length buf"
  proof -
    have "length ?pre < length buf" "mlen + (if lo (c_range c) = hi (c_range c) then 0 else 1) \<le> length ?junk"
      using room at(3) len by auto
    then show ?thesis using run pre at(1) [of ?junk ?pre] unfolding eq by auto
  qed
  show "context_struct_to_string alloc p c = None"
    if "lo (c_range c) \<noteq> hi (c_range c)" "length buf = length ?txt + 1"
  proof -
    have "length ?pre < length buf" "length ?junk = mlen" using that(2) len at(3) by auto
    then show ?thesis using run pre at(2) [OF that(1), of ?junk ?pre] by simp
  qed
qed

lemma context_struct_to_string_no_memory:
  assumes n: "context_names p c u r t ns0 ns1" and alloc: "alloc (length (context_text c u r t ns0 ns1) + 1) = None"
  shows "context_struct_to_string alloc p c = Some (Inl ENOMEM)"
proof -
  obtain n0 m0 n1 m1 where ns: "ns0 = (n0, m0)" "ns1 = (n1, m1)" by (cases ns0; cases ns1)
  have f: "fetch (p_user_val_to_name p) (c_user c) = Some u" "fetch (p_role_val_to_name p) (c_role c) = Some r"
    "fetch (p_type_val_to_name p) (c_type c) = Some t" and l: "level_names p (lo (c_range c)) n0 m0" "level_names p (hi (c_range c)) n1 m1"
    using n by (auto simp: context_names_def ns)
  have "\<exists>mlen. mls_compute_context_len p c = Some mlen"
    unfolding mls_compute_context_len_def mls_level_len_raw [OF l(1)] mls_level_len_raw [OF l(2)] by simp
  then obtain mlen where mlen: "mls_compute_context_len p c = Some mlen" by blast
  have len: "length u + 1 + (length r + 1) + (length t + 1) + mlen = length (context_text c u r t ns0 ns1) + 1"
    using mls_sid_to_context_at(3) [OF l mlen] by (simp add: context_text_def ns)
  show ?thesis unfolding context_struct_to_string_def f mlen bind.bind_lunit Let_def len alloc by simp
qed

lemma parse_context_text:
  assumes n: "context_names p c u r t ns0 ns1" and c: "range_ok (c_range c)" and v: "policydb_context_isvalid p c = Some True"
    and ok: "\<And>q. ok q"
  shows "parse_context ok p (context_text c u r t ns0 ns1) = Some (Inr c)"
proof -
  obtain n0 m0 n1 m1 where ns: "ns0 = (n0, m0)" "ns1 = (n1, m1)" by (cases ns0; cases ns1)
  have sc: "scan {CHR '':''} (m @ CHR '':'' # rest) = (m, Some (CHR '':''), rest)" if "set m \<inter> {CHR '':'', CHR 0x00} = {}" for m rest
    using scan_token [of m "{CHR '':''}" "CHR '':'' # rest"] that by (auto simp: after_def)
  have clean: "set u \<inter> {CHR '':'', CHR 0x00} = {}" "set r \<inter> {CHR '':'', CHR 0x00} = {}" "set t \<inter> {CHR '':'', CHR 0x00} = {}"
    using n by (auto simp: context_names_def)
  obtain ud rd td where d: "hashtab_search (sym_table (p_users p)) u = Some (Some ud)" "ud_value ud = c_user c"
    "hashtab_search (sym_table (p_roles p)) r = Some (Some rd)" "rd_value rd = c_role c"
    "hashtab_search (sym_table (p_types p)) t = Some (Some td)" "td_value td = c_type c"
    using n by (auto simp: context_names_def)
  let ?c = "context_init\<lparr>c_user := c_user c, c_role := c_role c, c_type := c_type c\<rparr>"
  have "cat (lo (c_range ?c)) = ebitmap_init" "cat (hi (c_range ?c)) = ebitmap_init"
    by (simp_all add: context_init_def zero_level_def)
  then have "mls_context_to_sid ok p (range_text (c_range c) (n0, m0) (n1, m1)) ?c = Some (Inr (?c\<lparr>c_range := c_range c\<rparr>, []))"
    using n ok by (intro mls_context_to_sid_text [OF c]) (auto simp: context_names_def ns)
  moreover have "?c\<lparr>c_range := c_range c\<rparr> = c" by simp
  ultimately show ?thesis
    using d v by (simp add: context_text_def parse_context_def ns sc [OF clean(1)] sc [OF clean(2)] sc [OF clean(3)])
qed

end
