(* ===== verification/Services_Step.thy ===== *)
theory Services_Step
  imports Services_Inv
begin

text \<open>
  The security server as a transition system: each service that may create an identifier is a
  step.  The table of identifiers only grows, its contexts stay valid, and what
  decisions depend on does not change.
\<close>

section \<open>Steps\<close>

inductive ss_step :: "flask \<Rightarrow> ss \<Rightarrow> ss \<Rightarrow> bool" for fl where
  to_sid: "security_context_to_sid fl ok st s = Some (r, st') \<Longrightarrow> ss_step fl st st'"
| transition: "security_transition_sid fl ok st ssid tsid tclass = Some (r, st') \<Longrightarrow> ss_step fl st st'"
| member: "security_member_sid ok st ssid tsid tclass = Some (r, st') \<Longrightarrow> ss_step fl st st'"
| fs: "security_fs_sid fl ok st name = (r2, st') \<Longrightarrow> ss_step fl st st'"
| port: "security_port_sid fl ok st proto pt = (r, st') \<Longrightarrow> ss_step fl st st'"
| netif: "security_netif_sid fl ok st name = (r2, st') \<Longrightarrow> ss_step fl st st'"
| node: "security_node_sid fl ok st domain addr len = (r, st') \<Longrightarrow> ss_step fl st st'"

inductive ss_steps :: "flask \<Rightarrow> ss \<Rightarrow> ss \<Rightarrow> bool" for fl where
  refl: "ss_steps fl st st"
| step: "ss_steps fl st st1 \<Longrightarrow> ss_step fl st1 st2 \<Longrightarrow> ss_steps fl st st2"

section \<open>Invariant\<close>

definition ctx_ok :: "policydb \<Rightarrow> context_struct \<Rightarrow> bool" where
  "ctx_ok p c \<longleftrightarrow> policydb_context_isvalid p c = Some True \<and> range_ok (c_range c)"

definition ocon_ok :: "policydb \<Rightarrow> bool" where
  "ocon_ok p \<longleftrightarrow>
     (\<forall>c\<in>set (ocon_fs p) \<union> set (ocon_netif p). ctx_ok p (oc_context0 c) \<and> ctx_ok p (oc_context1 c)) \<and>
     (\<forall>c\<in>set (ocon_port p) \<union> set (ocon_node p). ctx_ok p (oc_context0 c))"

definition cats_ok :: "policydb \<Rightarrow> bool" where
  "cats_ok p \<longleftrightarrow> (\<forall>n d. hashtab_search (sym_table (p_cats p)) n = Some (Some d) \<longrightarrow> unat (ca_value d - 1) + 64 < 2 ^ 32)"

definition ss_ok :: "ss \<Rightarrow> bool" where
  "ss_ok st \<longleftrightarrow> sidtab_ok (ss_sidtab st) \<and> cats_ok (ss_policydb st) \<and> ocon_ok (ss_policydb st) \<and>
     (\<forall>c\<in>ran (sidtab_abs (ss_sidtab st)). ctx_ok (ss_policydb st) c)"

text \<open>The policy apart from the identifiers cached in the object contexts.\<close>

definition same_rules :: "policydb \<Rightarrow> policydb \<Rightarrow> bool" where
  "same_rules p p' \<longleftrightarrow> (\<exists>a b c d. p' = p\<lparr>ocon_fs := a, ocon_port := b, ocon_netif := c, ocon_node := d\<rparr>)"

lemma same_rules_fields:
  assumes "same_rules p p'"
  shows "role_val_to_struct p' = role_val_to_struct p" "class_val_to_struct p' = class_val_to_struct p"
    "te_avtab p' = te_avtab p" "p_te_def_allowed p' = p_te_def_allowed p" "p_te_def_auditallow p' = p_te_def_auditallow p"
    "p_te_def_auditdeny p' = p_te_def_auditdeny p" "p_te_def_notify p' = p_te_def_notify p" "p_classes p' = p_classes p"
    "p_cats p' = p_cats p" "policydb_context_isvalid p' c = policydb_context_isvalid p c"
proof -
  obtain x y z w where p': "p' = p\<lparr>ocon_fs := x, ocon_port := y, ocon_netif := z, ocon_node := w\<rparr>"
    using assms unfolding same_rules_def by blast
  then show roles: "role_val_to_struct p' = role_val_to_struct p" and "class_val_to_struct p' = class_val_to_struct p"
    "te_avtab p' = te_avtab p" "p_te_def_allowed p' = p_te_def_allowed p" "p_te_def_auditallow p' = p_te_def_auditallow p"
    "p_te_def_auditdeny p' = p_te_def_auditdeny p" "p_te_def_notify p' = p_te_def_notify p" "p_classes p' = p_classes p"
    and cats: "p_cats p' = p_cats p"
    by simp_all
  have f: "p_levels p' = p_levels p" "p_sens_val_to_name p' = p_sens_val_to_name p" "p_users p' = p_users p"
    "user_val_to_struct p' = user_val_to_struct p" "p_roles p' = p_roles p" using p' by simp_all
  show "policydb_context_isvalid p' c = policydb_context_isvalid p c"
    unfolding policydb_context_isvalid_def mls_context_isvalid_def mls_level_isvalid_def f roles cats by simp
qed

text \<open>Of the policy, constraints look only at the roles.\<close>

lemma roles_eval:
  assumes "role_val_to_struct p' = role_val_to_struct p"
  shows "constraint_expr_eval p' s t e = constraint_expr_eval p s t e"
proof (induction e)
  case (Expr ty rel bm l r n)
  then show ?case by (cases l; cases r) (simp_all add: assms cong: if_cong)
qed

lemma roles_constraints:
  assumes "role_val_to_struct p' = role_val_to_struct p"
  shows "apply_constraints p' s t cs av = apply_constraints p s t cs av"
  by (induction cs arbitrary: av) (simp_all add: roles_eval [OF assms] cong: if_cong)

lemmas same_rules_constraints = roles_constraints [OF same_rules_fields(1)]

lemma same_rules_refl: "same_rules p p"
  unfolding same_rules_def
  by (rule exI [of _ "ocon_fs p"], rule exI [of _ "ocon_port p"], rule exI [of _ "ocon_netif p"],
      rule exI [of _ "ocon_node p"]) simp

lemma same_rules_trans: "same_rules p p' \<Longrightarrow> same_rules p' p'' \<Longrightarrow> same_rules p p''"
  unfolding same_rules_def by (elim exE) (simp, blast)

text \<open>How a step may change the table of identifiers: entries are added, with contexts from \<open>X\<close>.\<close>

definition grows :: "context_struct set \<Rightarrow> sidtab \<Rightarrow> sidtab \<Rightarrow> bool" where
  "grows X s s' \<longleftrightarrow> sidtab_ok s' \<and> sidtab_abs s \<subseteq>\<^sub>m sidtab_abs s' \<and> ran (sidtab_abs s') \<subseteq> ran (sidtab_abs s) \<union> X \<and>
     (sidtab_distinct s \<longrightarrow> sidtab_distinct s')"

lemma grows_refl: "sidtab_ok s \<Longrightarrow> grows X s s"
  by (simp add: grows_def)

lemma grows_trans: "grows X s s1 \<Longrightarrow> grows X s1 s2 \<Longrightarrow> grows X s s2"
  unfolding grows_def using map_le_trans by blast

lemma grows_context:
  assumes "sidtab_ok s" "sidtab_context_to_sid al s c = (res, sid, s')" "c \<in> X"
  shows "grows X s s'"
proof (cases res)
  case True
  note spec = sidtab_context_to_sid_spec [OF assms(1,2)]
  have "sidtab_abs s' = (sidtab_abs s)(sid \<mapsto> c)" using spec(2) [OF True] by blast
  moreover have "sidtab_abs s \<subseteq>\<^sub>m sidtab_abs s'"
    using calculation spec(2) [OF True] by (auto simp: map_le_def)
  ultimately show ?thesis
    using spec(1) assms(3) sidtab_context_to_sid_distinct [OF assms(1,2)] by (auto simp: grows_def ran_def split: if_splits)
next
  case False
  then have "s' = s" using sidtab_context_to_sid_spec(4) [OF assms(1,2)] by blast
  then show ?thesis using assms(1) by (simp add: grows_refl)
qed

section \<open>Contexts from strings\<close>

lemma mls_parse_cats_inv:
  "mls_parse_cats ok p i e s = Some (Inr (e', delim, r)) \<Longrightarrow> cats_ok p \<Longrightarrow> ebitmap_inv e \<Longrightarrow> ebitmap_inv e'"
proof (induction s arbitrary: i e rule: measure_induct_rule [of length])
  case (less s)
  note run = less.prems(1) [unfolded mls_parse_cats.simps [of ok p i e s]]
  obtain tok d1 s1 where sc: "scan {CHR '','', CHR ''-''} s = (tok, d1, s1)" by (cases "scan {CHR '','', CHR ''-''} s") auto
  obtain cd where cd: "hashtab_search (sym_table (p_cats p)) tok = Some (Some cd)"
    using run sc by (auto split: bind_splits option.splits)
  have small: "unat (ca_value cd - 1) + 64 < 2 ^ 32" using less.prems(2) cd unfolding cats_ok_def by blast
  obtain e1 where set: "ebitmap_set_bit (ok i) e (ca_value cd - 1) True = (True, e1)"
    using run sc cd by (cases "ebitmap_set_bit (ok i) e (ca_value cd - 1) True") (auto split: bool.splits)
  have e1: "ebitmap_inv e1" by (rule ebitmap_set_bit_spec(2) [OF less.prems(3) small set])
  show ?case
  proof (cases "d1 = Some (CHR '','')")
    case True
    then have "mls_parse_cats ok p (Suc i) e1 s1 = Some (Inr (e', delim, r))" using run sc cd set by simp
    then show ?thesis using less.IH [of s1 "Suc i" e1] scan_length [of _ s tok "CHR '',''" s1] sc True less.prems(2) e1 by simp
  next
    case False
    then show ?thesis using run sc cd set e1 by simp
  qed
qed

lemma mls_parse_level_inv:
  assumes "mls_parse_level ok p e sc = Some (Inr (l, delim, r))" "cats_ok p" "ebitmap_inv e"
  shows "level_ok l"
  using assms mls_parse_cats_inv [OF _ assms(2,3)]
  by (auto simp: mls_parse_level_def level_ok_def split: prod.splits bind_splits option.splits if_splits sum.splits)

lemma ebitmap_init_inv: "ebitmap_inv ebitmap_init"
  by (simp add: ebitmap_inv_def ebitmap_init_def nodes_ok_def top_bit_def)

lemma mls_context_to_sid_inv:
  assumes run: "mls_context_to_sid ok p s c = Some (Inr (c', r))" and p: "cats_ok p" and c: "range_ok (c_range c)"
  shows "range_ok (c_range c')"
proof -
  have e: "ebitmap_inv (cat (lo (c_range c)))" "ebitmap_inv (cat (hi (c_range c)))"
    using c by (auto simp: range_ok_def level_ok_def)
  obtain l0 d0 s0 where l0: "mls_parse_level (\<lambda>i. ok [0, i]) p (cat (lo (c_range c))) (scan {CHR '':'', CHR ''-''} s) = Some (Inr (l0, d0, s0))"
    using run by (auto simp: mls_context_to_sid_def split: bind_splits sum.splits)
  have ok0: "level_ok l0" by (rule mls_parse_level_inv [OF l0 p e(1)])
  show ?thesis
  proof (cases "d0 = Some (CHR ''-'')")
    case True
    then obtain l1 d1 s1 where l1: "mls_parse_level (\<lambda>i. ok [1, i]) p (cat (hi (c_range c))) (scan {CHR '':''} s0) = Some (Inr (l1, d1, s1))"
      using run l0 by (auto simp: mls_context_to_sid_def split: bind_splits sum.splits)
    then have "c_range c' = \<lparr>lo = l0, hi = l1\<rparr>" using run l0 True by (auto simp: mls_context_to_sid_def Let_def split: prod.splits)
    then show ?thesis using ok0 mls_parse_level_inv [OF l1 p e(2)] by (simp add: range_ok_def)
  next
    case False
    obtain res e1 where cpy: "ebitmap_cpy (\<lambda>i. ok [2, i]) (cat l0) = (res, e1)" by fastforce
    then have "c_range c' = \<lparr>lo = l0, hi = \<lparr>sens = sens l0, cat = e1\<rparr>\<rparr>"
      using run l0 False by (auto simp: mls_context_to_sid_def Let_def)
    moreover have "ebitmap_inv e1" using ebitmap_cpy_spec(1) [OF cpy] ok0 ebitmap_init_inv by (simp add: level_ok_def)
    ultimately show ?thesis using ok0 by (simp add: range_ok_def level_ok_def)
  qed
qed

lemma parse_context_ok:
  assumes "parse_context ok p s = Some (Inr c)" "cats_ok p"
  shows "ctx_ok p c"
proof -
  obtain s' c' r where mls: "mls_context_to_sid ok p s' c' = Some (Inr (c, r))" and "c_range c' = c_range context_init"
    and v: "policydb_context_isvalid p c = Some True"
    using assms(1) unfolding parse_context_def
    by (auto simp: Let_def split: prod.splits if_splits bind_splits option.splits sum.splits)
  then have "range_ok (c_range c')" by (simp add: context_init_def zero_level_def range_ok_def level_ok_def ebitmap_init_inv)
  then show ?thesis using mls_context_to_sid_inv [OF mls assms(2)] v by (simp add: ctx_ok_def)
qed

section \<open>Every step keeps the invariant\<close>

definition step_ok :: "ss \<Rightarrow> ss \<Rightarrow> bool" where
  "step_ok st st' \<longleftrightarrow> grows {c. ctx_ok (ss_policydb st) c} (ss_sidtab st) (ss_sidtab st') \<and>
     same_rules (ss_policydb st) (ss_policydb st') \<and> ocon_ok (ss_policydb st') \<and>
     ss_initialized st' = ss_initialized st \<and> latest_granting st' = latest_granting st"

lemma step_ok_sidtab:
  assumes "ss_ok st" "sidtab_context_to_sid ok (ss_sidtab st) c = (res, sid, sd)" "ctx_ok (ss_policydb st) c"
  shows "step_ok st (st\<lparr>ss_sidtab := sd\<rparr>)"
  using assms grows_context [OF _ assms(2), of "{c. ctx_ok (ss_policydb st) c}"]
  by (simp add: step_ok_def ss_ok_def same_rules_refl)

lemma step_ok_refl: "ss_ok st \<Longrightarrow> step_ok st st"
  by (simp add: step_ok_def ss_ok_def same_rules_refl grows_refl)

lemma ss_ok_ctx: "ss_ok st \<Longrightarrow> sidtab_search (Some (ss_sidtab st)) sid = Some c \<Longrightarrow> ctx_ok (ss_policydb st) c"
  by (auto simp: ss_ok_def sidtab_walk(2) ran_def)

lemma step_ok_ss_ok:
  assumes "ss_ok st" "step_ok st st'"
  shows "ss_ok st'"
proof -
  have r: "same_rules (ss_policydb st) (ss_policydb st')" using assms(2) by (simp add: step_ok_def)
  have "ctx_ok (ss_policydb st') c = ctx_ok (ss_policydb st) c" for c by (simp add: ctx_ok_def same_rules_fields(10) [OF r])
  moreover have "cats_ok (ss_policydb st')" using assms(1) by (simp add: ss_ok_def cats_ok_def same_rules_fields(9) [OF r])
  ultimately show ?thesis using assms by (auto simp: ss_ok_def step_ok_def grows_def)
qed

lemma step_ok_trans:
  assumes "step_ok st st1" "step_ok st1 st2"
  shows "step_ok st st2"
proof -
  have r: "same_rules (ss_policydb st) (ss_policydb st1)" using assms(1) by (simp add: step_ok_def)
  have "ctx_ok (ss_policydb st1) c = ctx_ok (ss_policydb st) c" for c by (simp add: ctx_ok_def same_rules_fields(10) [OF r])
  then show ?thesis using assms by (auto simp: step_ok_def intro: grows_trans same_rules_trans)
qed

lemma transition_finish_ok:
  assumes "ss_ok st" "transition_finish fl ok st ssid tsid tclass c = Some (r, st')" "range_ok (c_range c)"
  shows "step_ok st st'"
  using assms step_ok_refl [OF assms(1)] step_ok_sidtab [OF assms(1)]
  by (auto simp: transition_finish_def ctx_ok_def split: bind_splits if_splits prod.splits)

lemma transition_ok:
  assumes ok: "ss_ok st" and run: "security_transition_sid fl al st ssid tsid tclass = Some (r, st')"
  shows "step_ok st st'"
proof -
  have fin: "step_ok st st'" if "transition_finish fl q' st ssid tsid tclass c'' = Some (r, st')"
    "context_cpy q context_init c = Some c'" "sidtab_search (Some (ss_sidtab st)) sid = Some c" "c_range c'' = c_range c'"
    for q c c' c'' sid q'
    using transition_finish_ok [OF ok that(1)] ss_ok_ctx [OF ok that(3)] context_cpy_id [OF that(2)] that(4)
    by (simp add: ctx_ok_def)
  show ?thesis
    using run step_ok_refl [OF ok]
    by (auto simp: security_transition_sid_def unlocked_security_transition_sid_def Let_def split: if_splits option.splits)
      (rule fin, simp, assumption, assumption, simp)+
qed

lemma member_ok:
  assumes ok: "ss_ok st" and run: "security_member_sid al st ssid tsid tclass = Some (r, st')"
  shows "step_ok st st'"
proof (cases "st' = st")
  case True
  then show ?thesis using step_ok_refl [OF ok] by simp
next
  case False
  then obtain sc c res sid sd where sc: "sidtab_search (Some (ss_sidtab st)) ssid = Some sc"
    and c: "mls_member_sid (\<lambda>q. al (0 # q)) context_init sc = Some c"
    and fin: "\<exists>c'. c_range c' = c_range c \<and> policydb_context_isvalid (ss_policydb st) c' = Some True \<and>
      sidtab_context_to_sid (\<lambda>q. al (1 # q)) (ss_sidtab st) c' = (res, sid, sd)" "st' = st\<lparr>ss_sidtab := sd\<rparr>"
    using run by (fastforce simp: security_member_sid_def unlocked_security_member_sid_def Let_def split: if_splits option.splits bind_splits prod.splits)
  have "c_range c = c_range sc"
    using c by (auto simp: mls_member_sid_def Let_def split: prod.splits if_splits dest!: ebitmap_cpy_spec(1))
  then have "range_ok (c_range c)" using ss_ok_ctx [OF ok sc] by (simp add: ctx_ok_def)
  then show ?thesis using fin step_ok_sidtab [OF ok] by (auto simp: ctx_ok_def)
qed

lemma to_sid_ok:
  assumes ok: "ss_ok st" and run: "security_context_to_sid fl al st s = Some (r, st')"
  shows "step_ok st st'"
proof (cases "st' = st")
  case True
  then show ?thesis using step_ok_refl [OF ok] by simp
next
  case False
  then obtain q c s' res sid sd where "parse_context q (ss_policydb st) s' = Some (Inr c)"
    "sidtab_context_to_sid (\<lambda>q. al (2 # q)) (ss_sidtab st) c = (res, sid, sd)" "st' = st\<lparr>ss_sidtab := sd\<rparr>"
    using run by (auto simp: security_context_to_sid_def unlocked_security_context_to_sid_def split: if_splits option.splits bind_splits sum.splits prod.splits)
  moreover have "cats_ok (ss_policydb st)" using ok by (simp add: ss_ok_def)
  ultimately show ?thesis using parse_context_ok step_ok_sidtab [OF ok] by blast
qed

lemma ocontext_sids_ok:
  assumes "sidtab_ok s" "\<forall>c\<in>set cs. oc_context0 c \<in> X \<and> (two \<longrightarrow> oc_context1 c \<in> X)"
    "ocontext_sids two al s m cs = (r, s', cs')"
  shows "grows X s s' \<and> map oc_context0 cs' = map oc_context0 cs \<and> map oc_context1 cs' = map oc_context1 cs"
  using assms
proof (induction cs arbitrary: cs')
  case Nil
  then show ?case by (simp add: grows_refl)
next
  case (Cons c cs)
  show ?case
  proof (cases "m (oc_u c)")
    case True
    obtain res0 sid0 s0 where 0: "sidtab_context_to_sid (\<lambda>q. al (0 # q)) s (oc_context0 c) = (res0, sid0, s0)"
      by (cases "sidtab_context_to_sid (\<lambda>q. al (0 # q)) s (oc_context0 c)") auto
    obtain res1 sid1 s1 where 1: "sidtab_context_to_sid (\<lambda>q. al (1 # q)) s0 (oc_context1 c) = (res1, sid1, s1)"
      by (cases "sidtab_context_to_sid (\<lambda>q. al (1 # q)) s0 (oc_context1 c)") auto
    have g0: "grows X s s0" using grows_context [OF Cons.prems(1) 0] Cons.prems(2) by simp
    then have "sidtab_ok s0" by (simp add: grows_def)
    then have g1: "two \<Longrightarrow> grows X s s1" using grows_context [OF _ 1] Cons.prems(2) grows_trans [OF g0] by simp
    show ?thesis
      using Cons.prems(3) True 0 1 g0 g1 grows_refl [OF Cons.prems(1)] by (auto simp: Let_def split: if_splits)
  next
    case False
    obtain r1 s1 cs1 where "ocontext_sids two al s m cs = (r1, s1, cs1)" by (cases "ocontext_sids two al s m cs") auto
    then show ?thesis using Cons.IH [of cs1] Cons.prems False by auto
  qed
qed

lemma ocontext_step_ok:
  assumes ok: "ss_ok st" and run: "ocontext_sids two al (ss_sidtab st) m cs = (r, s', cs')"
    and st': "ss_sidtab st' = s'" "same_rules (ss_policydb st) (ss_policydb st')" "ss_initialized st' = ss_initialized st"
    "latest_granting st' = latest_granting st"
    and cs: "\<forall>c\<in>set cs. ctx_ok (ss_policydb st) (oc_context0 c) \<and> (two \<longrightarrow> ctx_ok (ss_policydb st) (oc_context1 c))"
    and ocon: "(\<forall>c\<in>set cs'. ctx_ok (ss_policydb st') (oc_context0 c) \<and> (two \<longrightarrow> ctx_ok (ss_policydb st') (oc_context1 c))) \<Longrightarrow>
      ocon_ok (ss_policydb st')"
  shows "step_ok st st'"
proof -
  have g: "grows {c. ctx_ok (ss_policydb st) c} (ss_sidtab st) s' \<and> map oc_context0 cs' = map oc_context0 cs \<and>
      map oc_context1 cs' = map oc_context1 cs"
    by (rule ocontext_sids_ok [OF _ _ run]) (use ok cs in \<open>auto simp: ss_ok_def\<close>)
  have "length cs' = length cs" using g by (metis length_map)
  then have "ctx_ok (ss_policydb st) (oc_context0 c) \<and> (two \<longrightarrow> ctx_ok (ss_policydb st) (oc_context1 c))" if "c \<in> set cs'" for c
    using that cs g by (metis (no_types, lifting) in_set_conv_nth nth_map)
  moreover have "ctx_ok (ss_policydb st') c = ctx_ok (ss_policydb st) c" for c
    by (simp add: ctx_ok_def same_rules_fields(10) [OF st'(2)])
  ultimately show ?thesis using g st' ocon by (simp add: step_ok_def)
qed

lemma same_rules_upd:
  "same_rules p (p\<lparr>ocon_fs := x\<rparr>)" "same_rules p (p\<lparr>ocon_port := x\<rparr>)"
  "same_rules p (p\<lparr>ocon_netif := x\<rparr>)" "same_rules p (p\<lparr>ocon_node := x\<rparr>)"
proof -
  have *: "same_rules p (p\<lparr>ocon_fs := a, ocon_port := b, ocon_netif := c, ocon_node := d\<rparr>)" for a b c d
    unfolding same_rules_def by blast
  show "same_rules p (p\<lparr>ocon_fs := x\<rparr>)" using * [of "ocon_node p" "ocon_netif p" "ocon_port p" x] by simp
  show "same_rules p (p\<lparr>ocon_port := x\<rparr>)" using * [of "ocon_node p" "ocon_netif p" x "ocon_fs p"] by simp
  show "same_rules p (p\<lparr>ocon_netif := x\<rparr>)" using * [of "ocon_node p" x "ocon_port p" "ocon_fs p"] by simp
  show "same_rules p (p\<lparr>ocon_node := x\<rparr>)" using * [of x "ocon_netif p" "ocon_port p" "ocon_fs p"] by simp
qed

lemma ss_step_ok:
  assumes "ss_step fl st st'" "ss_ok st"
  shows "step_ok st st'"
  using assms
proof (cases rule: ss_step.cases)
  case (fs al name r2)
  obtain r s' cs' where run: "ocontext_sids True al (ss_sidtab st) (name_match name) (ocon_fs (ss_policydb st)) = (r, s', cs')"
    by (cases "ocontext_sids True al (ss_sidtab st) (name_match name) (ocon_fs (ss_policydb st))") auto
  show ?thesis
    by (rule ocontext_step_ok [OF assms(2) run]) (use fs run assms(2) same_rules_fields(10) [OF same_rules_upd(1)] same_rules_upd in
      \<open>auto simp: security_fs_sid_def ss_ok_def ocon_ok_def ctx_ok_def\<close>)
next
  case (port al proto pt r)
  obtain r' s' cs' where run: "ocontext_sids False al (ss_sidtab st) (port_match proto pt) (ocon_port (ss_policydb st)) = (r', s', cs')"
    by (cases "ocontext_sids False al (ss_sidtab st) (port_match proto pt) (ocon_port (ss_policydb st))") auto
  show ?thesis
    by (rule ocontext_step_ok [OF assms(2) run]) (use port run assms(2) same_rules_fields(10) [OF same_rules_upd(2)] same_rules_upd in
      \<open>auto simp: security_port_sid_def ss_ok_def ocon_ok_def ctx_ok_def\<close>)
next
  case (netif al name r2)
  obtain r' s' cs' where run: "ocontext_sids True al (ss_sidtab st) (name_match name) (ocon_netif (ss_policydb st)) = (r', s', cs')"
    by (cases "ocontext_sids True al (ss_sidtab st) (name_match name) (ocon_netif (ss_policydb st))") auto
  show ?thesis
    by (rule ocontext_step_ok [OF assms(2) run]) (use netif run assms(2) same_rules_fields(10) [OF same_rules_upd(3)] same_rules_upd in
      \<open>auto simp: security_netif_sid_def ss_ok_def ocon_ok_def ctx_ok_def\<close>)
next
  case (node al domain addr len r)
  show ?thesis
  proof (cases "domain \<noteq> af_inet fl \<or> len \<noteq> 4")
    case True
    then show ?thesis using node step_ok_refl [OF assms(2)] by (simp add: security_node_sid_def)
  next
    case False
    obtain r' s' cs' where run: "ocontext_sids False al (ss_sidtab st) (node_match addr) (ocon_node (ss_policydb st)) = (r', s', cs')"
      by (cases "ocontext_sids False al (ss_sidtab st) (node_match addr) (ocon_node (ss_policydb st))") auto
    show ?thesis
      by (rule ocontext_step_ok [OF assms(2) run]) (use node False run assms(2) same_rules_fields(10) [OF same_rules_upd(4)] same_rules_upd in
        \<open>auto simp: security_node_sid_def ss_ok_def ocon_ok_def ctx_ok_def\<close>)
  qed
qed (auto intro: to_sid_ok transition_ok member_ok)

lemma ss_steps_ok:
  assumes "ss_steps fl st st'" "ss_ok st"
  shows "step_ok st st' \<and> ss_ok st'"
  using assms
proof (induction rule: ss_steps.induct)
  case (refl st)
  then show ?case by (simp add: step_ok_refl)
next
  case (step st st1 st2)
  then show ?case using ss_step_ok step_ok_trans step_ok_ss_ok by blast
qed

lemma same_rules_decision:
  assumes r: "same_rules (ss_policydb st) (ss_policydb st')" and i: "ss_initialized st' = ss_initialized st"
    "latest_granting st' = latest_granting st"
    and sid: "sidtab_search (Some (ss_sidtab st')) ssid = sidtab_search (Some (ss_sidtab st)) ssid"
    "sidtab_search (Some (ss_sidtab st')) tsid = sidtab_search (Some (ss_sidtab st)) tsid"
  shows "security_compute_av st' ssid tsid tclass req = security_compute_av st ssid tsid tclass req"
  unfolding security_compute_av_def unlocked_security_compute_av_def Let_def i sid same_rules_fields(1-8) [OF r] same_rules_constraints [OF r] by simp


end
