(* ===== verification/Services_Demo.thy ===== *)
theory Services_Demo
  imports Services_Step
begin

text \<open>
  A small security server on which the properties of the services are applied: one user, role,
  type, class, sensitivity and category, and one context whose high level has the category.
\<close>

definition bit0_map :: ebitmap where
  "bit0_map = \<lparr>nodes = [\<lparr>startbit = 0, nmap = 1\<rparr>], highbit = 64\<rparr>"

lemma bit0_map_inv: "ebitmap_inv bit0_map"
  by (simp add: bit0_map_def ebitmap_inv_def nodes_ok_Cons bnode_ok_def top_bit_def MAPSIZE_def)

lemma bit0_map_positions: "ebitmap_positions bit0_map = [0]" "ebitmap_positions ebitmap_init = []"
  by code_simp+

lemma bit0_map_get: "ebitmap_get_bit bit0_map 0" "ebitmap_get_bit bit0_map 0 = True"
  by (simp_all add: bit0_map_def ebitmap_get_bit_def MAPSIZE_def MAPBIT_def)

text \<open>A symbol table with one entry.\<close>

definition demo_tab :: "string \<Rightarrow> 'd \<Rightarrow> 'd symtab" where
  "demo_tab n d = (case hashtab_insert True (hashtab_create (\<lambda>_. True) symhash symcmp SYMTAB_SIZE) n d of
     Some (s, h) \<Rightarrow> \<lparr>sym_table = h, sym_nprim = 1\<rparr>)"

lemma demo_tab_search:
  fixes d :: 'd
  shows "hashtab_search (sym_table (demo_tab n d)) m = Some (if m = n then Some d else None)" "sym_nprim (demo_tab n d) = 1"
proof -
  have "symtab_init (\<lambda>_. True) (zero_symtab :: 'd symtab) =
      (0, \<lparr>sym_table = hashtab_create (\<lambda>_. True) symhash symcmp SYMTAB_SIZE, sym_nprim = 0\<rparr>)"
    by (simp add: symtab_init_def Let_def hashtab_create_def zero_symtab_def)
  then obtain h :: "(string, 'd) hashtab_val" where h: "hashtab_create (\<lambda>_. True) symhash symcmp SYMTAB_SIZE = Some h"
    "hashtab_ok h" "hashtab_abs h = Map.empty" by (rule symtab_init_ok) simp
  obtain h' where h': "hashtab_insert True (Some h) n d = Some (HASHTAB_SUCCESS, Some h')" "hashtab_ok h'" "hashtab_abs h' = [n \<mapsto> d]"
    using hashtab_insert_spec(3) [OF h(2), of n True d] h(3) by auto
  have "demo_tab n d = \<lparr>sym_table = Some h', sym_nprim = 1\<rparr>" by (simp add: demo_tab_def h(1) h'(1))
  then show "hashtab_search (sym_table (demo_tab n d)) m = Some (if m = n then Some d else None)" "sym_nprim (demo_tab n d) = 1"
    by (simp_all add: hashtab_search_abs [OF h'(2)] h'(3))
qed

definition demo_low :: mls_level where
  "demo_low = \<lparr>sens = 1, cat = ebitmap_init\<rparr>"

definition demo_high :: mls_level where
  "demo_high = \<lparr>sens = 1, cat = bit0_map\<rparr>"

definition demo_range :: mls_range where
  "demo_range = \<lparr>lo = demo_low, hi = demo_high\<rparr>"

definition demo_context :: context_struct where
  "demo_context = \<lparr>c_user = 1, c_role = 1, c_type = 1, c_range = demo_range\<rparr>"

definition demo_user :: user_datum where
  "demo_user = \<lparr>ud_value = 1, roles = bit0_map, ranges = [demo_range]\<rparr>"

definition demo_role :: role_datum where
  "demo_role = \<lparr>rd_value = 1, dominates = bit0_map, types = bit0_map\<rparr>"

text \<open>One class: permission 0 is a read, permission 1 a write, permission 2 is constrained to the same
  user.\<close>

definition demo_class :: class_datum where
  "demo_class = \<lparr>cl_value = 1, comkey = None, comdatum = None, cl_permissions = zero_symtab,
     constraints = [\<lparr>cn_permissions = 4, cn_expr = Expr CONSTRAINT_EXPR_TYPE_SAMEUSER 0 ebitmap_init None None 1\<rparr>],
     mlsperms = \<lparr>mread = 1, mreadby = 0, mwrite = 2, mwriteby = 0\<rparr>\<rparr>"

definition demo_policy :: policydb where
  "demo_policy = zero_policydb\<lparr>
     p_classes := demo_tab ''file'' demo_class,
     p_roles := demo_tab ''r'' demo_role,
     p_types := demo_tab ''t'' \<lparr>td_value = 1, td_isalias = 0\<rparr>,
     p_users := demo_tab ''u'' demo_user,
     p_levels := demo_tab ''s'' \<lparr>ld_level = demo_high, ld_isalias = 0\<rparr>,
     p_cats := demo_tab ''c'' \<lparr>ca_value = 1, ca_isalias = 0\<rparr>,
     p_role_val_to_name := [Some ''r''], p_type_val_to_name := [Some ''t''], p_user_val_to_name := [Some ''u''],
     p_sens_val_to_name := [Some ''s''], p_cat_val_to_name := [Some ''c''],
     class_val_to_struct := [Some demo_class], role_val_to_struct := [Some demo_role], user_val_to_struct := [Some demo_user],
     p_te_def_allowed := \<lparr>te_value = TE_DEF_ALL, te_exclude = ebitmap_init\<rparr>,
     ocon_fs := [\<lparr>oc_u = OName ''disk'', oc_context0 = demo_context, oc_context1 = demo_context, oc_sid0 = 0, oc_sid1 = 0\<rparr>]\<rparr>"

lemma demo_policy_simps [simp]:
  "p_roles demo_policy = demo_tab ''r'' demo_role" "p_types demo_policy = demo_tab ''t'' \<lparr>td_value = 1, td_isalias = 0\<rparr>"
  "p_users demo_policy = demo_tab ''u'' demo_user" "p_levels demo_policy = demo_tab ''s'' \<lparr>ld_level = demo_high, ld_isalias = 0\<rparr>"
  "p_cats demo_policy = demo_tab ''c'' \<lparr>ca_value = 1, ca_isalias = 0\<rparr>" "p_classes demo_policy = demo_tab ''file'' demo_class"
  "p_role_val_to_name demo_policy = [Some ''r'']" "p_type_val_to_name demo_policy = [Some ''t'']"
  "p_user_val_to_name demo_policy = [Some ''u'']" "p_sens_val_to_name demo_policy = [Some ''s'']"
  "p_cat_val_to_name demo_policy = [Some ''c'']" "class_val_to_struct demo_policy = [Some demo_class]"
  "role_val_to_struct demo_policy = [Some demo_role]" "user_val_to_struct demo_policy = [Some demo_user]"
  "p_te_def_allowed demo_policy = \<lparr>te_value = TE_DEF_ALL, te_exclude = ebitmap_init\<rparr>" "te_avtab demo_policy = avtab_init"
  "ocon_fs demo_policy = [\<lparr>oc_u = OName ''disk'', oc_context0 = demo_context, oc_context1 = demo_context, oc_sid0 = 0, oc_sid1 = 0\<rparr>]"
  "ocon_port demo_policy = []" "ocon_netif demo_policy = []" "ocon_node demo_policy = []"
  by (simp_all add: demo_policy_def zero_policydb_def)

lemma demo_range_ok: "range_ok demo_range" "lo demo_range = demo_low" "hi demo_range = demo_high" "demo_low \<noteq> demo_high"
  using bit0_map_inv ebitmap_init_inv
  by (simp_all add: demo_range_def range_ok_def level_ok_def demo_low_def demo_high_def bit0_map_def ebitmap_init_def)

lemma demo_ldom: "ldom demo_high demo_low" "ldom demo_high demo_high" "ldom demo_low demo_low"
  by (simp_all add: ldom_def demo_high_def demo_low_def ebits_def ebitmap_init_def)

lemma fetch_one [simp]: "fetch [x] 1 = x"
  by (simp add: fetch_def)

lemma demo_levels_valid: "mls_level_isvalid demo_policy demo_low = Some True" "mls_level_isvalid demo_policy demo_high = Some True"
  using bit0_map_get by (simp_all add: mls_level_isvalid_def demo_tab_search demo_low_def demo_high_def bit0_map_positions)

lemma demo_valid: "policydb_context_isvalid demo_policy demo_context = Some True"
proof -
  have lv: "level_ok demo_low" "level_ok demo_high" using demo_range_ok by (simp_all add: range_ok_def)
  have "mls_range_contains demo_range demo_range"
    using mls_range_contains_iff [OF demo_range_ok(1,1)] demo_ldom by (simp add: demo_range_ok)
  moreover have "\<not> mls_level_relation demo_high demo_low AND (MLS_RELATION_DOM OR MLS_RELATION_EQ) = 0"
    using mls_relation_mask(3) [OF lv(2,1)] demo_ldom by satx
  ultimately have "mls_context_isvalid demo_policy demo_context = Some True"
    unfolding mls_context_isvalid_def
    by (simp add: demo_context_def demo_range_ok demo_levels_valid demo_tab_search demo_user_def)
  then show ?thesis
    using bit0_map_get(1) unfolding policydb_context_isvalid_def
    by (simp add: demo_tab_search demo_context_def demo_role_def demo_user_def)
qed

lemma demo_tab_named: "f d = 1 \<Longrightarrow> set n \<inter> stops = {} \<Longrightarrow> named (demo_tab n d) [Some n] f stops"
proof -
  have "0 < v \<and> v \<le> 1 \<longleftrightarrow> v = 1" for v :: u32
    by (auto simp: word_less_nat_alt word_le_nat_alt u32_eq_iff_unat)
  then show "f d = 1 \<Longrightarrow> set n \<inter> stops = {} \<Longrightarrow> named (demo_tab n d) [Some n] f stops"
    unfolding named_def by (auto simp: demo_tab_search)
qed

lemma demo_policy_named: "policy_named demo_policy"
  by (simp add: policy_named_def mls_named_def demo_role_def demo_user_def demo_high_def demo_tab_named)

definition demo_sidtab :: sidtab where
  "demo_sidtab = snd (snd (sidtab_context_to_sid (\<lambda>_. True) sidtab_init demo_context))"

lemma demo_sidtab_ok: "sidtab_ok demo_sidtab" "sidtab_abs demo_sidtab = [1 \<mapsto> demo_context]" "sidtab_distinct demo_sidtab"
proof -
  obtain res sid s where run: "sidtab_context_to_sid (\<lambda>_. True) sidtab_init demo_context = (res, sid, s)"
    by (cases "sidtab_context_to_sid (\<lambda>_. True) sidtab_init demo_context") auto
  note spec = sidtab_context_to_sid_spec [OF sidtab_init_ok(1) run]
  have n: "sd_nel sidtab_init = 0" by (simp add: sidtab_init_def)
  then have res using spec(5) by simp
  then show "sidtab_ok demo_sidtab" "sidtab_abs demo_sidtab = [1 \<mapsto> demo_context]" "sidtab_distinct demo_sidtab"
    using spec(1,2) n by (simp_all add: demo_sidtab_def run sidtab_init_ok(2) sidtab_distinct_def)
qed

definition demo_ss :: ss where
  "demo_ss = \<lparr>ss_sidtab = demo_sidtab, ss_policydb = demo_policy, ss_initialized = True, latest_granting = 0\<rparr>"

lemma demo_ss_ok: "ss_ok demo_ss"
proof -
  have c: "ctx_ok demo_policy demo_context" using demo_valid demo_range_ok by (simp add: ctx_ok_def demo_context_def)
  then show ?thesis
    using demo_sidtab_ok by (simp add: ss_ok_def demo_ss_def cats_ok_def ocon_ok_def demo_tab_search)
qed

definition demo_flask :: flask where
  "demo_flask = \<lparr>secclass_process = 2, secclass_files = [1], secinitsid_num = 2,
     initial_sid_to_string = [''null'', ''kernel'', ''file''], secinitsid_fs = 1, secinitsid_file = 2,
     secinitsid_port = 1, secinitsid_netif = 1, secinitsid_netmsg = 1, secinitsid_node = 1, af_inet = 2\<rparr>"

end
