(* ===== verification/Services_Spec.thy ===== *)
theory Services_Spec
  imports Services_Demo
begin

text \<open>The properties of the security server.\<close>

section \<open>Decisions\<close>

text \<open>C20. The access decision of an initialised server: a permission is allowed exactly when the type
  enforcement rule (or default) allows it, the flow rules of the multi-level policy hold
  for every base permission it is mapped to, and every constraint of the class that
  names it evaluates to true on the two contexts.  So nothing is allowed that any of
  the three policies denies, in whatever order the code applies them.\<close>

theorem security_decision:
  assumes "ss_ok st" "ss_initialized st" "security_compute_av st ssid tsid tclass requested = Some (Inr d)"
  shows "\<exists>s t cl. sidtab_abs (ss_sidtab st) ssid = Some s \<and> sidtab_abs (ss_sidtab st) tsid = Some t \<and>
    fetch (class_val_to_struct (ss_policydb st)) (ucast tclass) = Some cl \<and>
    (\<forall>k. bit (d_allowed d) k \<longleftrightarrow> bit (te_allowed (ss_policydb st) s t tclass) k \<and>
      (bit (mread (mlsperms cl)) k \<longrightarrow> may_read (c_range s) (c_range t)) \<and>
      (bit (mreadby (mlsperms cl)) k \<longrightarrow> may_read (c_range t) (c_range s)) \<and>
      (bit (mwrite (mlsperms cl)) k \<longrightarrow> may_write (c_range s) (c_range t)) \<and>
      (bit (mwriteby (mlsperms cl)) k \<longrightarrow> may_write (c_range t) (c_range s)) \<and>
      (\<forall>c\<in>set (constraints cl). bit (cn_permissions c) k \<longrightarrow>
        constraint_expr_eval (ss_policydb st) s t (cn_expr c) = Some True))"
  using assms(2,3)
proof (rule security_compute_av_cases)
  fix s t cl
  assume s: "sidtab_abs (ss_sidtab st) ssid = Some s" and t: "sidtab_abs (ss_sidtab st) tsid = Some t"
    and cl: "fetch (class_val_to_struct (ss_policydb st)) (ucast tclass) = Some cl"
    and run: "apply_constraints (ss_policydb st) s t (constraints cl)
       (mls_compute_av s t cl (te_allowed (ss_policydb st) s t tclass)) = Some (d_allowed d)"
  have "ctx_ok (ss_policydb st) s" "ctx_ok (ss_policydb st) t"
    using ss_ok_ctx [OF assms(1)] s t by (simp_all add: sidtab_walk(2))
  then have "range_ok (c_range s)" "range_ok (c_range t)" by (simp_all add: ctx_ok_def)
  then show ?thesis
    using s t cl unfolding apply_constraints_bit [OF run] mls_compute_av_bit [OF \<open>range_ok (c_range s)\<close> \<open>range_ok (c_range t)\<close>]
    by blast
qed

theorem security_decision_witness:
  "\<exists>d. security_compute_av demo_ss 1 1 1 0 = Some (Inr d) \<and> bit (d_allowed d) 0"
proof -
  have s: "sidtab_search (Some demo_sidtab) 1 = Some demo_context" by (simp add: sidtab_walk(2) demo_sidtab_ok)
  have "constraints demo_class =
      [\<lparr>cn_permissions = 4, cn_expr = Expr CONSTRAINT_EXPR_TYPE_SAMEUSER 0 ebitmap_init None None 1\<rparr>]"
    by (simp add: demo_class_def)
  then have "\<exists>av. apply_constraints demo_policy demo_context demo_context (constraints demo_class) x = Some av" for x
    by (simp add: CONSTRAINT_EXPR_TYPE_SAMEUSER_def CONSTRAINT_EXPR_TYPE_NOT_def CONSTRAINT_EXPR_TYPE_AND_def
        CONSTRAINT_EXPR_TYPE_OR_def)
  then obtain f where "apply_constraints demo_policy demo_context demo_context (constraints demo_class) x = Some (f x)" for x
    by metis
  then have "\<exists>d. security_compute_av demo_ss 1 1 1 0 = Some (Inr d)"
    by (simp add: security_compute_av_def unlocked_security_compute_av_def demo_ss_def s demo_tab_search avtab_cur_abs(2) avtab_init_ok(2) Let_def)
  then obtain d where d: "security_compute_av demo_ss 1 1 1 0 = Some (Inr d)" by blast
  have i: "ss_initialized demo_ss" "ss_policydb demo_ss = demo_policy" "sidtab_abs (ss_sidtab demo_ss) 1 = Some demo_context"
    by (simp_all add: demo_ss_def demo_sidtab_ok)
  have e: "c_range demo_context = demo_range" "may_read demo_range demo_range"
    using demo_ldom by (simp_all add: demo_context_def may_read_def demo_range_ok)
  have te: "te_allowed demo_policy demo_context demo_context 1 = 0xffffffff"
    by (simp add: te_allowed_def avtab_cur_abs(2) avtab_init_ok(2) set_te_def_def ebitmap_get_bit_def ebitmap_init_def)
  have cl: "fetch (class_val_to_struct demo_policy) (ucast (1 :: 16 word)) = Some demo_class" by simp
  from security_decision [OF demo_ss_ok i(1) d, unfolded i(2)] have
    "bit (d_allowed d) 0 \<longleftrightarrow> bit (te_allowed demo_policy demo_context demo_context 1) 0 \<and>
      (bit (mread (mlsperms demo_class)) 0 \<longrightarrow> may_read demo_range demo_range) \<and>
      (bit (mreadby (mlsperms demo_class)) 0 \<longrightarrow> may_read demo_range demo_range) \<and>
      (bit (mwrite (mlsperms demo_class)) 0 \<longrightarrow> may_write demo_range demo_range) \<and>
      (bit (mwriteby (mlsperms demo_class)) 0 \<longrightarrow> may_write demo_range demo_range) \<and>
      (\<forall>c\<in>set (constraints demo_class). bit (cn_permissions c) 0 \<longrightarrow>
        constraint_expr_eval demo_policy demo_context demo_context (cn_expr c) = Some True)"
    unfolding i(3) cl option.inject e(1) [symmetric] by blast
  then have "bit (d_allowed d) 0"
    using e te by (simp add: demo_class_def bit_0 del: constraint_expr_eval.simps)
  then show ?thesis using d by blast
qed

section \<open>Identifiers and strings\<close>

text \<open>C21. Contexts survive the way through their string form.  In an initialised server whose invariant holds and whose
  policy gives every value a name free of separators, take an identifier whose type is a primary value.
  \<open>security_sid_to_context\<close> asks \<open>malloc\<close> for the length of the string and its \<open>NUL\<close> and reports
  \<open>ENOMEM\<close> when it gets no block.  With a block of at least that length it runs over the end exactly when the low and
  high level differ and the block has no byte to spare.  Otherwise it returns a buffer with the string, ended by a
  \<open>NUL\<close> and of the announced length, and \<open>security_context_to_sid\<close> maps the string to an identifier of the
  same context and leaves the server unchanged.  It is the same identifier when no two identifiers share a context.\<close>

theorem security_context_roundtrip:
  assumes ok: "ss_ok st" and i: "ss_initialized st" and named: "policy_named (ss_policydb st)"
    and c: "sidtab_abs (ss_sidtab st) sid = Some c" "0 < c_type c" "c_type c \<le> sym_nprim (p_types (ss_policydb st))"
    and alloc: "\<And>n b. alloc n = Some b \<Longrightarrow> n \<le> length b"
  shows "\<exists>len. case alloc len of
      None \<Rightarrow> security_sid_to_context fl alloc st sid = Some (Inl ENOMEM)
    | Some b \<Rightarrow>
        if lo (c_range c) \<noteq> hi (c_range c) \<and> length b = len then security_sid_to_context fl alloc st sid = None
        else \<exists>buf sid'. security_sid_to_context fl alloc st sid = Some (Inr (buf, len)) \<and> len \<le> length buf \<and>
          length (takeWhile (\<lambda>c. c \<noteq> CHR 0x00) buf) + 1 = len \<and>
          security_context_to_sid fl (\<lambda>_. True) st (take len buf) = Some (Inr sid', st) \<and>
          sidtab_abs (ss_sidtab st) sid' = Some c \<and> (sidtab_distinct (ss_sidtab st) \<longrightarrow> sid' = sid)"
proof -
  let ?p = "ss_policydb st"
  have v: "policydb_context_isvalid ?p c = Some True" "range_ok (c_range c)"
    using ss_ok_ctx [OF ok, of sid c] c(1) by (auto simp: sidtab_walk(2) ctx_ok_def)
  obtain u r t ns0 ns1 where n: "context_names ?p c u r t ns0 ns1"
    using context_names_ex [OF named v c(2,3)] by blast
  let ?t = "context_text c u r t ns0 ns1" and ?n = "length (context_text c u r t ns0 ns1) + 1"
  have run: "security_sid_to_context fl alloc st sid = context_struct_to_string alloc ?p c"
    using i c(1) by (simp add: security_sid_to_context_def unlocked_security_sid_to_context_def sidtab_walk(2))
  obtain sid' where known: "sidtab_context_to_sid (\<lambda>q. True) (ss_sidtab st) c = (True, sid', ss_sidtab st)"
    "sidtab_abs (ss_sidtab st) sid' = Some c" "sidtab_distinct (ss_sidtab st) \<longrightarrow> sid' = sid"
    using sidtab_context_to_sid_known [of "ss_sidtab st" sid c] ok c(1) by (auto simp: ss_ok_def)
  have no: "takeWhile (\<lambda>c. c \<noteq> CHR 0x00) (?t @ CHR 0x00 # x) = ?t" for x
    using context_text_no_nul [OF n] by (subst takeWhile_append2) auto
  have "parse_context (\<lambda>q. True) ?p ?t = Some (Inr c)" by (rule parse_context_text [OF n v(2,1)]) simp
  then have parse: "security_context_to_sid fl (\<lambda>_. True) st (?t @ [CHR 0x00]) = Some (Inr sid', st)"
    using i known(1) no [of "[]"] by (simp add: security_context_to_sid_def unlocked_security_context_to_sid_def)
  show ?thesis
  proof (cases "alloc ?n")
    case None
    then show ?thesis using context_struct_to_string_no_memory [OF n] run by (intro exI [of _ ?n]) simp
  next
    case (Some b)
    show ?thesis
    proof (cases "lo (c_range c) \<noteq> hi (c_range c) \<and> length b = ?n")
      case True
      then show ?thesis using Some run context_struct_to_string_at(2) [where alloc = alloc, OF n Some] by (intro exI [of _ ?n]) simp
    next
      case False
      then have "?n + (if lo (c_range c) = hi (c_range c) then 0 else 1) \<le> length b" using alloc [OF Some] by auto
      then obtain junk where w: "context_struct_to_string alloc ?p c = Some (Inr (?t @ CHR 0x00 # junk, ?n))"
        using context_struct_to_string_at(1) [where alloc = alloc, OF n Some] by blast
      have "\<exists>buf sid'. security_sid_to_context fl alloc st sid = Some (Inr (buf, ?n)) \<and> ?n \<le> length buf \<and>
          length (takeWhile (\<lambda>c. c \<noteq> CHR 0x00) buf) + 1 = ?n \<and>
          security_context_to_sid fl (\<lambda>_. True) st (take ?n buf) = Some (Inr sid', st) \<and>
          sidtab_abs (ss_sidtab st) sid' = Some c \<and> (sidtab_distinct (ss_sidtab st) \<longrightarrow> sid' = sid)"
        using run w no parse known(2,3) by (intro exI [of _ "?t @ CHR 0x00 # junk"] exI [of _ sid']) simp
      then show ?thesis using Some False by (intro exI [of _ ?n]) (simp only: option.case if_False)
    qed
  qed
qed

text \<open>Both kinds of block: with a spare byte the string comes back, with none the string overruns it.\<close>

theorem security_context_roundtrip_witness:
  "\<exists>buf len. security_sid_to_context demo_flask (\<lambda>n. Some (replicate (n + 1) CHR ''x'')) demo_ss 1 = Some (Inr (buf, len)) \<and>
    security_context_to_sid demo_flask (\<lambda>_. True) demo_ss (take len buf) = Some (Inr 1, demo_ss)"
proof -
  have "ss_initialized demo_ss" "policy_named (ss_policydb demo_ss)" "sidtab_abs (ss_sidtab demo_ss) 1 = Some demo_context"
    "0 < c_type demo_context" "c_type demo_context \<le> sym_nprim (p_types (ss_policydb demo_ss))"
    using demo_policy_named by (simp_all add: demo_ss_def demo_sidtab_ok demo_context_def demo_tab_search)
  moreover have "n \<le> length b" if "Some (replicate (n + 1) CHR ''x'') = Some b" for n b
    using that by (simp add: option.inject del: replicate.simps) (metis length_replicate le_SucI order_refl)
  moreover have "sidtab_distinct (ss_sidtab demo_ss)" by (simp add: demo_ss_def demo_sidtab_ok)
  ultimately show ?thesis
    using security_context_roundtrip [OF demo_ss_ok, of 1 demo_context "\<lambda>n. Some (replicate (n + 1) CHR ''x'')" demo_flask]
    by (simp del: replicate.simps) blast
qed

text \<open>C22. With a block of exactly the requested size the conversion of a context whose low and high
  levels differ writes one byte past its end: \<open>mls_sid_to_context\<close> stores a dash and a
  terminator also behind the last level.\<close>

theorem security_context_overflow:
  assumes ok: "ss_ok st" and i: "ss_initialized st" and named: "policy_named (ss_policydb st)"
    and c: "sidtab_abs (ss_sidtab st) sid = Some c" "0 < c_type c" "c_type c \<le> sym_nprim (p_types (ss_policydb st))"
    and lev: "lo (c_range c) \<noteq> hi (c_range c)" and alloc: "\<And>n. \<exists>b. alloc n = Some b \<and> length b = n"
  shows "security_sid_to_context fl alloc st sid = None"
proof -
  let ?p = "ss_policydb st"
  have v: "policydb_context_isvalid ?p c = Some True" "range_ok (c_range c)"
    using ss_ok_ctx [OF ok, of sid c] c(1) by (auto simp: sidtab_walk(2) ctx_ok_def)
  obtain u r t ns0 ns1 where n: "context_names ?p c u r t ns0 ns1"
    using context_names_ex [OF named v c(2,3)] by blast
  obtain b where "alloc (length (context_text c u r t ns0 ns1) + 1) = Some b" "length b = length (context_text c u r t ns0 ns1) + 1"
    using alloc by blast
  then have "context_struct_to_string alloc ?p c = None" by (rule context_struct_to_string_at(2) [OF n _ lev])
  then show ?thesis using i c(1) by (simp add: security_sid_to_context_def unlocked_security_sid_to_context_def sidtab_walk(2))
qed

theorem security_context_overflow_witness:
  "security_sid_to_context demo_flask (\<lambda>n. Some (replicate n CHR ''x'')) demo_ss 1 = None"
proof -
  have "ss_initialized demo_ss" "policy_named (ss_policydb demo_ss)" "sidtab_abs (ss_sidtab demo_ss) 1 = Some demo_context"
    "0 < c_type demo_context" "c_type demo_context \<le> sym_nprim (p_types (ss_policydb demo_ss))"
    "lo (c_range demo_context) \<noteq> hi (c_range demo_context)"
    using demo_policy_named demo_range_ok by (simp_all add: demo_ss_def demo_sidtab_ok demo_context_def demo_tab_search)
  from security_context_overflow [OF demo_ss_ok this, of "\<lambda>n. Some (replicate n CHR ''x'')" demo_flask]
  show ?thesis by simp
qed

text \<open>C23. The server over time: whatever services run, in any order and with any outcomes of the
  allocations, every identifier keeps its context, no two identifiers come to have the same one,
  every context in the table is valid under the policy, and every decision about
  identifiers already in use stays the same.\<close>

theorem security_server_stable:
  assumes "ss_steps fl st st'" "ss_ok st"
  shows "ss_ok st' \<and> (sidtab_distinct (ss_sidtab st) \<longrightarrow> sidtab_distinct (ss_sidtab st')) \<and>
    sidtab_abs (ss_sidtab st) \<subseteq>\<^sub>m sidtab_abs (ss_sidtab st') \<and>
    (\<forall>ssid\<in>dom (sidtab_abs (ss_sidtab st)). \<forall>tsid\<in>dom (sidtab_abs (ss_sidtab st)). \<forall>tclass requested.
      security_compute_av st' ssid tsid tclass requested = security_compute_av st ssid tsid tclass requested)"
proof -
  have ok: "ss_ok st'" and s: "step_ok st st'" using ss_steps_ok [OF assms] by blast+
  have le: "sidtab_abs (ss_sidtab st) \<subseteq>\<^sub>m sidtab_abs (ss_sidtab st')"
    and d: "sidtab_distinct (ss_sidtab st) \<longrightarrow> sidtab_distinct (ss_sidtab st')" using s by (simp_all add: step_ok_def grows_def)
  then have "sidtab_search (Some (ss_sidtab st')) k = sidtab_search (Some (ss_sidtab st)) k" if "k \<in> dom (sidtab_abs (ss_sidtab st))" for k
    using that by (simp add: sidtab_walk(2) map_le_def)
  then show ?thesis using ok le d same_rules_decision [of st st'] s unfolding step_ok_def by blast
qed

theorem security_server_stable_witness:
  "\<exists>st'. ss_steps demo_flask demo_ss st' \<and> snd (security_fs_sid demo_flask (\<lambda>_. True) demo_ss ''disk'') = st' \<and>
     security_compute_av st' 1 1 1 5 = security_compute_av demo_ss 1 1 1 5"
proof -
  obtain r st' where run: "security_fs_sid demo_flask (\<lambda>_. True) demo_ss ''disk'' = (r, st')" by fastforce
  then have steps: "ss_steps demo_flask demo_ss st'" by (blast intro: ss_steps.intros ss_step.fs)
  have "1 \<in> dom (sidtab_abs (ss_sidtab demo_ss))" by (simp add: demo_ss_def demo_sidtab_ok)
  then show ?thesis using security_server_stable [OF steps demo_ss_ok] steps run by auto
qed

text \<open>C24. Before initialisation the name of the last initial identifier, which
  \<open>security_sid_to_context\<close> returns for it, is not recognised by \<open>security_context_to_sid\<close>, which then
  panics: its loop stops before \<open>SECINITSID_NUM\<close>.\<close>

theorem security_last_initial_sid:
  assumes "\<not> ss_initialized st" and len: "length (initial_sid_to_string fl) = unat (secinitsid_num fl) + 1"
    and d: "distinct (initial_sid_to_string fl)" and s: "initial_sid_to_string fl ! unat (secinitsid_num fl) = name"
    and "CHR 0x00 \<notin> set name" and alloc: "\<And>n. \<exists>b. alloc n = Some b \<and> length b = n"
  shows "\<exists>buf n. security_sid_to_context fl alloc st (secinitsid_num fl) = Some (Inr (buf, n)) \<and>
    takeWhile (\<lambda>c. c \<noteq> CHR 0x00) buf = name \<and> security_context_to_sid fl ok st buf = None"
proof -
  obtain b where b: "alloc (length name + 1) = Some b" "length b = length name + 1" using alloc by blast
  have "security_sid_to_context fl alloc st (secinitsid_num fl) = Some (Inr (name @ [CHR 0x00], length name + 1))"
    using assms(1) len s b by (simp add: security_sid_to_context_def unlocked_security_sid_to_context_def bstrcpy_def)
  moreover have t: "takeWhile (\<lambda>c. c \<noteq> CHR 0x00) (name @ [CHR 0x00]) = name"
    using assms(5) by (subst takeWhile_append2) auto
  moreover have "find (\<lambda>i. initial_sid_to_string fl ! i = name) [1..<unat (secinitsid_num fl)] = None"
    using d len s by (auto simp: find_None_iff nth_eq_iff_index_eq)
  ultimately show ?thesis
    using assms(1) by (intro exI [of _ "name @ [CHR 0x00]"] exI [of _ "length name + 1"])
      (simp add: security_context_to_sid_def unlocked_security_context_to_sid_def initial_sid_lookup_def)
qed

theorem security_last_initial_sid_witness:
  "\<exists>buf n. security_sid_to_context demo_flask (\<lambda>n. Some (replicate n CHR ''x'')) (demo_ss\<lparr>ss_initialized := False\<rparr>) 2 = Some (Inr (buf, n)) \<and>
    security_context_to_sid demo_flask (\<lambda>_. True) (demo_ss\<lparr>ss_initialized := False\<rparr>) buf = None"
proof -
  have fl: "secinitsid_num demo_flask = 2" "initial_sid_to_string demo_flask = [''null'', ''kernel'', ''file'']"
    by (simp_all add: demo_flask_def)
  have "\<exists>buf n. security_sid_to_context demo_flask (\<lambda>n. Some (replicate n CHR ''x'')) (demo_ss\<lparr>ss_initialized := False\<rparr>)
        (secinitsid_num demo_flask) = Some (Inr (buf, n)) \<and> takeWhile (\<lambda>c. c \<noteq> CHR 0x00) buf = ''file'' \<and>
      security_context_to_sid demo_flask (\<lambda>_. True) (demo_ss\<lparr>ss_initialized := False\<rparr>) buf = None"
    by (rule security_last_initial_sid) (simp_all add: fl)
  then show ?thesis unfolding fl by blast
qed

section \<open>Levels\<close>

text \<open>C25. \<open>mls_level_relation\<close> decides a partial order: on levels with well-formed categories it answers
  "equal" exactly on equal levels, "dominates" and "dominated by" exactly for the strict
  order of sensitivities and category sets in the two directions and "incomparable"
  otherwise; and \<open>mls_range_contains\<close> is transitive.\<close>

theorem mls_relation_order:
  assumes "range_ok r1" "range_ok r2" "range_ok r3"
  shows "(mls_level_relation (lo r1) (lo r2) = MLS_RELATION_EQ \<longleftrightarrow> lo r1 = lo r2) \<and>
    (mls_level_relation (lo r1) (lo r2) = MLS_RELATION_DOM \<longleftrightarrow> ldom (lo r1) (lo r2) \<and> lo r1 \<noteq> lo r2) \<and>
    (mls_level_relation (lo r1) (lo r2) = MLS_RELATION_DOMBY \<longleftrightarrow> ldom (lo r2) (lo r1) \<and> lo r1 \<noteq> lo r2) \<and>
    (mls_level_relation (lo r1) (lo r2) = MLS_RELATION_INCOMP \<longleftrightarrow> \<not> ldom (lo r1) (lo r2) \<and> \<not> ldom (lo r2) (lo r1)) \<and>
    (mls_range_contains r1 r2 \<longrightarrow> mls_range_contains r2 r3 \<longrightarrow> mls_range_contains r1 r3)"
  using mls_relation_iff [of "lo r1" "lo r2"] mls_range_contains_trans [OF assms] assms unfolding range_ok_def by blast

theorem mls_relation_order_witness:
  "mls_level_relation demo_low demo_low = MLS_RELATION_EQ \<and> mls_level_relation demo_low demo_high = MLS_RELATION_DOMBY"
proof -
  have r: "range_ok \<lparr>lo = demo_high, hi = demo_high\<rparr>" using demo_range_ok by (simp add: range_ok_def)
  from mls_relation_order [OF demo_range_ok(1,1,1)] mls_relation_order [OF demo_range_ok(1) r demo_range_ok(1)]
  show ?thesis using demo_ldom demo_range_ok by simp
qed

end
