(* ===== verification/Policydb_Read.thy ===== *)
theory Policydb_Read
  imports Mls
begin

text \<open>
  Reading a policy database from its binary form and freeing it (\<open>security/policydb.c\<close>).

  A function that reads has three outcomes: \<open>None\<close> is undefined behaviour, \<open>Some None\<close> the return
  value \<open>-1\<close> and \<open>Some (Some (x, fp))\<close> a value together with the rest of the stream.  The
  \<open>bad\<close> labels free what has been read so far, which nothing refers to any more; only \<open>sens_read\<close> frees
  through a pointer that may be \<open>NULL\<close>.  The functions that free count the blocks they give back.
\<close>

type_synonym 'a outcome = "('a \<times> byte list) option option"

text \<open>A step that fails goes to \<open>bad\<close>.\<close>

definition or_bad :: "'a option \<Rightarrow> ('a \<Rightarrow> 'b option option) \<Rightarrow> 'b option option" where
  "or_bad r k = (case r of None \<Rightarrow> Some None | Some x \<Rightarrow> k x)"

lemma or_bad_mono [partial_function_mono]:
  "(\<And>x. mono_option (\<lambda>f. k f x)) \<Longrightarrow> mono_option (\<lambda>f. or_bad r (k f))"
  unfolding or_bad_def by (cases r) (auto simp: monotone_def flat_ord_def)

section \<open>Destruction\<close>

definition perm_destroy :: "string option \<Rightarrow> perm_datum \<Rightarrow> nat \<Rightarrow> int \<times> nat" where
  "perm_destroy key datum n = (0, n + (if key \<noteq> None then 1 else 0) + 1)"

definition free_ebitmap :: "ebitmap \<Rightarrow> nat \<Rightarrow> nat" where
  "free_ebitmap e n = n + length (nodes e)"

text \<open>\<open>hashtab_map\<close> with a function that frees, then \<open>hashtab_destroy\<close>: the nodes, the array and the
  table itself.\<close>

definition free_table ::
    "(string option \<Rightarrow> 'd \<Rightarrow> nat \<Rightarrow> int \<times> nat) \<Rightarrow> (string, 'd) hashtab_t \<Rightarrow> nat \<Rightarrow> nat" where
  "free_table destroy t n = (
     let n = snd (hashtab_map t (\<lambda>k. destroy (Some k)) n)
     in case t of None \<Rightarrow> n | Some h \<Rightarrow> n + length (concat (take (unat (hsize h)) (htable h))) + 2)"

definition common_destroy :: "string option \<Rightarrow> common_datum \<Rightarrow> nat \<Rightarrow> int \<times> nat" where
  "common_destroy key datum n = (
     let n = n + (if key \<noteq> None then 1 else 0)
     in (0, free_table perm_destroy (sym_table (cd_permissions datum)) n + 1))"

fun constraint_expr_destroy :: "constraint_expr \<Rightarrow> nat \<Rightarrow> nat" where
  "constraint_expr_destroy (Expr ty rel e l r c) n =
     (if c - 1 = 0 then
        let n = free_ebitmap e n;
            n = (case l of None \<Rightarrow> n | Some l \<Rightarrow> constraint_expr_destroy l n);
            n = (case r of None \<Rightarrow> n | Some r \<Rightarrow> constraint_expr_destroy r n)
        in n + 1
      else n)"

definition class_destroy :: "string option \<Rightarrow> class_datum \<Rightarrow> nat \<Rightarrow> int \<times> nat" where
  "class_destroy key datum n = (
     let n = n + (if key \<noteq> None then 1 else 0);
         n = free_table perm_destroy (sym_table (cl_permissions datum)) n;
         n = fold (\<lambda>c n. constraint_expr_destroy (cn_expr c) n + 1) (constraints datum) n;
         n = n + (if comkey datum \<noteq> None then 1 else 0)
     in (0, n + 1))"

definition role_destroy :: "string option \<Rightarrow> role_datum \<Rightarrow> nat \<Rightarrow> int \<times> nat" where
  "role_destroy key datum n = (
     let n = n + (if key \<noteq> None then 1 else 0)
     in (0, free_ebitmap (types datum) (free_ebitmap (dominates datum) n) + 1))"

definition type_destroy :: "string option \<Rightarrow> type_datum \<Rightarrow> nat \<Rightarrow> int \<times> nat" where
  "type_destroy key datum n = (0, n + (if key \<noteq> None then 1 else 0) + 1)"

text \<open>A sensitivity that has been read has a level; \<open>sens_read\<close> below says what happens to one that
  has not.\<close>

definition sens_destroy :: "string option \<Rightarrow> level_datum \<Rightarrow> nat \<Rightarrow> int \<times> nat" where
  "sens_destroy key datum n = (
     let n = n + (if key \<noteq> None then 1 else 0);
         n = (if ld_isalias datum = 0 then free_ebitmap (cat (ld_level datum)) n + 1 else n)
     in (0, n + 1))"

definition cat_destroy :: "string option \<Rightarrow> cat_datum \<Rightarrow> nat \<Rightarrow> int \<times> nat" where
  "cat_destroy key datum n = (0, n + (if key \<noteq> None then 1 else 0) + 1)"

definition free_range :: "mls_range \<Rightarrow> nat \<Rightarrow> nat" where
  "free_range r n = free_ebitmap (cat (hi r)) (free_ebitmap (cat (lo r)) n)"

definition user_destroy :: "string option \<Rightarrow> user_datum \<Rightarrow> nat \<Rightarrow> int \<times> nat" where
  "user_destroy key datum n = (
     let n = n + (if key \<noteq> None then 1 else 0);
         n = free_ebitmap (roles datum) n;
         n = fold (\<lambda>r n. free_range r n + 1) (ranges datum) n
     in (0, n + 1))"

text \<open>An array that was never allocated is empty.\<close>

definition free_array :: "'a list \<Rightarrow> nat \<Rightarrow> nat" where
  "free_array xs n = (if xs \<noteq> [] then n + 1 else n)"

definition free_ocontexts :: "ocontext list \<Rightarrow> nat \<Rightarrow> nat" where
  "free_ocontexts cs n = fold (\<lambda>c n.
     let n = free_range (c_range (oc_context0 c)) n;
         n = free_range (c_range (oc_context1 c)) n;
         n = (case oc_u c of OName s \<Rightarrow> n + 1 | _ \<Rightarrow> n)
     in n + 1) cs n"

definition policydb_destroy :: "policydb \<Rightarrow> nat" where
  "policydb_destroy p = (
     let n = free_table common_destroy (sym_table (p_commons p)) 0;
         n = free_table class_destroy (sym_table (p_classes p)) n;
         n = free_table role_destroy (sym_table (p_roles p)) n;
         n = free_table type_destroy (sym_table (p_types p)) n;
         n = free_table user_destroy (sym_table (p_users p)) n;
         n = free_table sens_destroy (sym_table (p_levels p)) n;
         n = free_table cat_destroy (sym_table (p_cats p)) n;
         n = free_array (p_common_val_to_name p) n;
         n = free_array (p_class_val_to_name p) n;
         n = free_array (p_role_val_to_name p) n;
         n = free_array (p_type_val_to_name p) n;
         n = free_array (p_user_val_to_name p) n;
         n = free_array (p_sens_val_to_name p) n;
         n = free_array (p_cat_val_to_name p) n;
         n = free_array (class_val_to_struct p) n;
         n = free_array (role_val_to_struct p) n;
         n = free_array (user_val_to_struct p) n;
         n = free_ebitmap (te_exclude (p_te_def_allowed p)) n;
         n = free_ebitmap (te_exclude (p_te_def_auditallow p)) n;
         n = free_ebitmap (te_exclude (p_te_def_auditdeny p)) n;
         n = free_ebitmap (te_exclude (p_te_def_notify p)) n;
         n = n + length (concat (av_htable (te_avtab p)));
         n = free_ocontexts (ocon_isid p) n;
         n = free_ocontexts (ocon_fs p) n;
         n = free_ocontexts (ocon_port p) n;
         n = free_ocontexts (ocon_netif p) n
     in free_ocontexts (ocon_node p) n)"

section \<open>Strings and loops\<close>

text \<open>\<open>fread(p, 1, n, fp)\<close>, which succeeds when all bytes are there.\<close>

definition freads :: "nat \<Rightarrow> byte list \<Rightarrow> (byte list \<times> byte list) option" where
  "freads n fp = (if n \<le> length fp then Some (take n fp, drop n fp) else None)"

text \<open>The string that begins a block of bytes behind which a \<open>NUL\<close> has been stored.\<close>

definition cstring :: "byte list \<Rightarrow> string" where
  "cstring bs = takeWhile (\<lambda>c. c \<noteq> CHR 0x00) (map (\<lambda>b. char_of (unat b)) bs)"

text \<open>\<open>malloc(len + 1)\<close>, \<open>fread\<close> and the terminating \<open>NUL\<close>.  For the largest \<open>len\<close> the block has no
  byte, and reading into it overruns it.\<close>

definition read_key :: "bool \<Rightarrow> u32 \<Rightarrow> byte list \<Rightarrow> string outcome" where
  "read_key ok len fp =
     (if \<not> ok then Some None
      else if len + 1 = 0 \<and> fp \<noteq> [] then None
      else Some (map_option (\<lambda>(bs, fp). (cstring bs, fp)) (freads (unat len) fp)))"

definition insert_datum ::
    "bool \<Rightarrow> (string, 'd) hashtab_t \<Rightarrow> string \<Rightarrow> 'd \<Rightarrow> byte list \<Rightarrow> (string, 'd) hashtab_t outcome" where
  "insert_datum ok h key datum fp = do {
     (st, h) \<leftarrow> hashtab_insert ok h key datum;
     Some (if st = HASHTAB_SUCCESS then Some (h, fp) else None)
   }"

fun read_loop :: "(nat \<Rightarrow> 't \<Rightarrow> byte list \<Rightarrow> 't outcome) \<Rightarrow> nat \<Rightarrow> nat \<Rightarrow> 't \<Rightarrow> byte list \<Rightarrow> 't outcome" where
  "read_loop f i 0 h fp = Some (Some (h, fp))"
| "read_loop f i (Suc n) h fp = do {
     r \<leftarrow> f i h fp;
     or_bad r (\<lambda>(h, fp). read_loop f (Suc i) n h fp)
   }"

fun read_list :: "(nat \<Rightarrow> byte list \<Rightarrow> 'a outcome) \<Rightarrow> nat \<Rightarrow> nat \<Rightarrow> byte list \<Rightarrow> 'a list outcome" where
  "read_list f i 0 fp = Some (Some ([], fp))"
| "read_list f i (Suc n) fp = do {
     r \<leftarrow> f i fp;
     or_bad r (\<lambda>(x, fp). do {
       rs \<leftarrow> read_list f (Suc i) n fp;
       or_bad rs (\<lambda>(xs, fp). Some (Some (x # xs, fp)))
     })
   }"

definition read_bitmap :: "mallocs \<Rightarrow> byte list \<Rightarrow> (ebitmap \<times> byte list) option" where
  "read_bitmap ok fp = (case ebitmap_read ok fp of (e, rest) \<Rightarrow> map_option (Pair e) rest)"

section \<open>Symbols\<close>

definition perm_read :: "allocs \<Rightarrow> (string, perm_datum) hashtab_t \<Rightarrow> byte list \<Rightarrow> (string, perm_datum) hashtab_t outcome" where
  "perm_read ok h fp =
     (if \<not> ok [0] then Some None
      else or_bad (fread32s 3 fp) (\<lambda>(buf, fp). do {
        r \<leftarrow> read_key (ok [1]) (buf ! 0) fp;
        or_bad r (\<lambda>(key, fp).
          insert_datum (ok [2]) h key \<lparr>pd_value = buf ! 1, base_perms = buf ! 2\<rparr> fp)
      }))"

definition common_read :: "allocs \<Rightarrow> (string, common_datum) hashtab_t \<Rightarrow> byte list \<Rightarrow> (string, common_datum) hashtab_t outcome" where
  "common_read ok h fp =
     (if \<not> ok [0] then Some None
      else or_bad (fread32s 4 fp) (\<lambda>(buf, fp). do {
        let (rc, permissions) = symtab_init (\<lambda>i. ok [1, i]) zero_symtab;
        if rc \<noteq> 0 then Some None
        else do {
          r \<leftarrow> read_key (ok [2]) (buf ! 0) fp;
          or_bad r (\<lambda>(key, fp). do {
            r \<leftarrow> read_loop (\<lambda>i. perm_read (\<lambda>q. ok (3 # i # q))) 0 (unat (buf ! 3)) (sym_table permissions) fp;
            or_bad r (\<lambda>(t, fp).
              insert_datum (ok [4]) h key
                \<lparr>cd_value = buf ! 1, cd_permissions = \<lparr>sym_table = t, sym_nprim = buf ! 2\<rparr>\<rparr> fp)
          })
        }
      }))"

text \<open>Each recursive call consumes bytes of the stream, so the recursion ends.\<close>

partial_function (option) constraint_expr_read :: "allocs \<Rightarrow> byte list \<Rightarrow> constraint_expr outcome" where
  "constraint_expr_read ok fp =
     (if \<not> ok [0] then Some None
      else or_bad (fread32 fp) (\<lambda>(ty, fp).
        or_bad (if ty = CONSTRAINT_EXPR_TYPE_ROLE_RELATION then fread32 fp else Some (0, fp)) (\<lambda>(rel, fp).
          if ty = CONSTRAINT_EXPR_TYPE_TYPE_SOURCE \<or> ty = CONSTRAINT_EXPR_TYPE_TYPE_TARGET \<or>
             ty = CONSTRAINT_EXPR_TYPE_ROLE_SOURCE \<or> ty = CONSTRAINT_EXPR_TYPE_ROLE_TARGET then
            or_bad (read_bitmap (\<lambda>i. ok [1, i]) fp) (\<lambda>(e, fp). Some (Some (Expr ty rel e None None 1, fp)))
          else if ty = CONSTRAINT_EXPR_TYPE_AND \<or> ty = CONSTRAINT_EXPR_TYPE_OR then do {
            r \<leftarrow> constraint_expr_read (\<lambda>q. ok (2 # q)) fp;
            or_bad r (\<lambda>(left, fp). do {
              r \<leftarrow> constraint_expr_read (\<lambda>q. ok (3 # q)) fp;
              or_bad r (\<lambda>(right, fp). Some (Some (Expr ty rel ebitmap_init (Some left) (Some right) 1, fp)))
            })
          }
          else if ty = CONSTRAINT_EXPR_TYPE_NOT then do {
            r \<leftarrow> constraint_expr_read (\<lambda>q. ok (2 # q)) fp;
            or_bad r (\<lambda>(left, fp). Some (Some (Expr ty rel ebitmap_init (Some left) None 1, fp)))
          }
          else Some (Some (Expr ty rel ebitmap_init None None 1, fp)))))"

definition constraint_read :: "allocs \<Rightarrow> byte list \<Rightarrow> constraint_node outcome" where
  "constraint_read ok fp =
     (if \<not> ok [0] then Some None
      else or_bad (fread32 fp) (\<lambda>(w, fp). do {
        r \<leftarrow> constraint_expr_read (\<lambda>q. ok (1 # q)) fp;
        or_bad r (\<lambda>(e, fp). Some (Some (\<lparr>cn_permissions = w, cn_expr = e\<rparr>, fp)))
      }))"

text \<open>The common prefix of a class: its name and its datum, or neither.\<close>

definition class_read_common ::
    "bool \<Rightarrow> common_datum symtab \<Rightarrow> u32 \<Rightarrow> byte list \<Rightarrow> (string option \<times> common_datum option) outcome" where
  "class_read_common ok commons len2 fp =
     (if len2 = 0 then Some (Some ((None, None), fp))
      else do {
        r \<leftarrow> read_key ok len2 fp;
        or_bad r (\<lambda>(key, fp). do {
          d \<leftarrow> hashtab_search (sym_table commons) key;
          Some (map_option (\<lambda>d. ((Some key, Some d), fp)) d)
        })
      })"

definition class_read ::
    "allocs \<Rightarrow> common_datum symtab \<Rightarrow> (string, class_datum) hashtab_t \<Rightarrow> byte list
     \<Rightarrow> (string, class_datum) hashtab_t outcome" where
  "class_read ok commons h fp =
     (if \<not> ok [0] then Some None
      else or_bad (fread32s 6 fp) (\<lambda>(buf, fp). do {
        let (rc, permissions) = symtab_init (\<lambda>i. ok [1, i]) zero_symtab;
        if rc \<noteq> 0 then Some None
        else do {
          r \<leftarrow> read_key (ok [2]) (buf ! 0) fp;
          or_bad r (\<lambda>(key, fp). do {
            r \<leftarrow> class_read_common (ok [3]) commons (buf ! 1) fp;
            or_bad r (\<lambda>((ck, cd), fp). do {
              r \<leftarrow> read_loop (\<lambda>i. perm_read (\<lambda>q. ok (4 # i # q))) 0 (unat (buf ! 4)) (sym_table permissions) fp;
              or_bad r (\<lambda>(t, fp). do {
                r \<leftarrow> read_list (\<lambda>i. constraint_read (\<lambda>q. ok (5 # i # q))) 0 (unat (buf ! 5)) fp;
                or_bad r (\<lambda>(cs, fp).
                  or_bad (mls_read_perms fp) (\<lambda>(mp, fp).
                    insert_datum (ok [6]) h key
                      \<lparr>cl_value = buf ! 2, comkey = ck, comdatum = cd,
                       cl_permissions = \<lparr>sym_table = t, sym_nprim = buf ! 3\<rparr>, constraints = cs, mlsperms = mp\<rparr> fp))
              })
            })
          })
        }
      }))"

definition role_read :: "allocs \<Rightarrow> (string, role_datum) hashtab_t \<Rightarrow> byte list \<Rightarrow> (string, role_datum) hashtab_t outcome" where
  "role_read ok h fp =
     (if \<not> ok [0] then Some None
      else or_bad (fread32s 2 fp) (\<lambda>(buf, fp). do {
        r \<leftarrow> read_key (ok [1]) (buf ! 0) fp;
        or_bad r (\<lambda>(key, fp).
          or_bad (read_bitmap (\<lambda>i. ok [2, i]) fp) (\<lambda>(dom, fp).
            or_bad (read_bitmap (\<lambda>i. ok [3, i]) fp) (\<lambda>(ty, fp).
              insert_datum (ok [4]) h key \<lparr>rd_value = buf ! 1, dominates = dom, types = ty\<rparr> fp)))
      }))"

definition type_read :: "allocs \<Rightarrow> (string, type_datum) hashtab_t \<Rightarrow> byte list \<Rightarrow> (string, type_datum) hashtab_t outcome" where
  "type_read ok h fp =
     (if \<not> ok [0] then Some None
      else or_bad (fread32s 3 fp) (\<lambda>(buf, fp). do {
        r \<leftarrow> read_key (ok [1]) (buf ! 0) fp;
        or_bad r (\<lambda>(key, fp).
          insert_datum (ok [2]) h key \<lparr>td_value = buf ! 1, td_isalias = ucast (buf ! 2)\<rparr> fp)
      }))"

text \<open>Up to the reading of the level, \<open>bad\<close> is reached with \<open>level\<close> still \<open>NULL\<close>, and \<open>sens_destroy\<close>
  follows it unless the datum is marked as an alias.\<close>

definition sens_bad :: "byte \<Rightarrow> 'a option \<Rightarrow> ('a \<Rightarrow> 'b option option) \<Rightarrow> 'b option option" where
  "sens_bad isalias r k =
     (case r of None \<Rightarrow> if isalias = 0 then None else Some None | Some x \<Rightarrow> k x)"

definition sens_read :: "allocs \<Rightarrow> (string, level_datum) hashtab_t \<Rightarrow> byte list \<Rightarrow> (string, level_datum) hashtab_t outcome" where
  "sens_read ok h fp =
     (if \<not> ok [0] then Some None
      else sens_bad 0 (fread32s 2 fp) (\<lambda>(buf, fp). do {
        let isalias = ucast (buf ! 1);
        r \<leftarrow> read_key (ok [1]) (buf ! 0) fp;
        sens_bad isalias r (\<lambda>(key, fp).
          sens_bad isalias (mls_read_level (\<lambda>q. ok (2 # q)) fp) (\<lambda>(l, fp).
            insert_datum (ok [3]) h key \<lparr>ld_level = l, ld_isalias = isalias\<rparr> fp))
      }))"

definition cat_read :: "allocs \<Rightarrow> (string, cat_datum) hashtab_t \<Rightarrow> byte list \<Rightarrow> (string, cat_datum) hashtab_t outcome" where
  "cat_read ok h fp =
     (if \<not> ok [0] then Some None
      else or_bad (fread32s 3 fp) (\<lambda>(buf, fp). do {
        r \<leftarrow> read_key (ok [1]) (buf ! 0) fp;
        or_bad r (\<lambda>(key, fp).
          insert_datum (ok [2]) h key \<lparr>ca_value = buf ! 1, ca_isalias = ucast (buf ! 2)\<rparr> fp)
      }))"

definition user_read_range :: "allocs \<Rightarrow> byte list \<Rightarrow> mls_range outcome" where
  "user_read_range ok fp = (if \<not> ok [0] then Some None else Some (mls_read_range (\<lambda>q. ok (1 # q)) fp))"

definition user_read :: "allocs \<Rightarrow> (string, user_datum) hashtab_t \<Rightarrow> byte list \<Rightarrow> (string, user_datum) hashtab_t outcome" where
  "user_read ok h fp =
     (if \<not> ok [0] then Some None
      else or_bad (fread32s 2 fp) (\<lambda>(buf, fp). do {
        r \<leftarrow> read_key (ok [1]) (buf ! 0) fp;
        or_bad r (\<lambda>(key, fp).
          or_bad (read_bitmap (\<lambda>i. ok [2, i]) fp) (\<lambda>(rs, fp).
            or_bad (fread32 fp) (\<lambda>(n, fp). do {
              r \<leftarrow> read_list (\<lambda>i. user_read_range (\<lambda>q. ok (3 # i # q))) 0 (unat n) fp;
              or_bad r (\<lambda>(l, fp).
                insert_datum (ok [4]) h key \<lparr>ud_value = buf ! 1, roles = rs, ranges = l\<rparr> fp)
            })))
      }))"

section \<open>Contexts\<close>

definition context_read_and_validate :: "allocs \<Rightarrow> policydb \<Rightarrow> byte list \<Rightarrow> context_struct outcome" where
  "context_read_and_validate ok p fp =
     or_bad (fread32s 3 fp) (\<lambda>(buf, fp).
       or_bad (mls_read_range ok fp) (\<lambda>(r, fp). do {
         let c = \<lparr>c_user = buf ! 0, c_role = buf ! 1, c_type = buf ! 2, c_range = r\<rparr>;
         v \<leftarrow> policydb_context_isvalid p c;
         Some (if v then Some (c, fp) else None)
       }))"

text \<open>An \<open>ocontext\<close> filled with zeros.\<close>

definition zero_ocontext :: ocontext where
  "zero_ocontext = \<lparr>oc_u = ONode 0 0, oc_context0 = context_init, oc_context1 = context_init, oc_sid0 = 0, oc_sid1 = 0\<rparr>"

definition read_isid :: "allocs \<Rightarrow> policydb \<Rightarrow> byte list \<Rightarrow> ocontext outcome" where
  "read_isid ok p fp =
     (if \<not> ok [0] then Some None
      else or_bad (fread32 fp) (\<lambda>(sid, fp). do {
        r \<leftarrow> context_read_and_validate (\<lambda>q. ok (1 # q)) p fp;
        or_bad r (\<lambda>(c, fp). Some (Some (zero_ocontext\<lparr>oc_sid0 := sid, oc_context0 := c\<rparr>, fp)))
      }))"

definition read_named :: "allocs \<Rightarrow> policydb \<Rightarrow> byte list \<Rightarrow> ocontext outcome" where
  "read_named ok p fp =
     (if \<not> ok [0] then Some None
      else or_bad (fread32 fp) (\<lambda>(len, fp). do {
        r \<leftarrow> read_key (ok [1]) len fp;
        or_bad r (\<lambda>(name, fp). do {
          r \<leftarrow> context_read_and_validate (\<lambda>q. ok (2 # q)) p fp;
          or_bad r (\<lambda>(c0, fp). do {
            r \<leftarrow> context_read_and_validate (\<lambda>q. ok (3 # q)) p fp;
            or_bad r (\<lambda>(c1, fp).
              Some (Some (zero_ocontext\<lparr>oc_u := OName name, oc_context0 := c0, oc_context1 := c1\<rparr>, fp)))
          })
        })
      }))"

definition read_port :: "allocs \<Rightarrow> policydb \<Rightarrow> byte list \<Rightarrow> ocontext outcome" where
  "read_port ok p fp =
     (if \<not> ok [0] then Some None
      else or_bad (fread32s 3 fp) (\<lambda>(buf, fp). do {
        r \<leftarrow> context_read_and_validate (\<lambda>q. ok (1 # q)) p fp;
        or_bad r (\<lambda>(c, fp).
          Some (Some (zero_ocontext\<lparr>oc_u := OPort (ucast (buf ! 0)) (ucast (buf ! 1)) (ucast (buf ! 2)), oc_context0 := c\<rparr>, fp)))
      }))"

definition read_node :: "allocs \<Rightarrow> policydb \<Rightarrow> byte list \<Rightarrow> ocontext outcome" where
  "read_node ok p fp =
     (if \<not> ok [0] then Some None
      else or_bad (fread32s 2 fp) (\<lambda>(buf, fp). do {
        r \<leftarrow> context_read_and_validate (\<lambda>q. ok (1 # q)) p fp;
        or_bad r (\<lambda>(c, fp). Some (Some (zero_ocontext\<lparr>oc_u := ONode (buf ! 0) (buf ! 1), oc_context0 := c\<rparr>, fp)))
      }))"

section \<open>The database\<close>

definition POLICYDB_VERSION :: u32 where
  "POLICYDB_VERSION = 1"

definition POLICYDB_CONFIG_MLS :: u32 where
  "POLICYDB_CONFIG_MLS = 1"

definition SYM_NUM :: u32 where
  "SYM_NUM = 7"

definition TED_NUM :: u32 where
  "TED_NUM = 4"

definition OCON_NUM :: u32 where
  "OCON_NUM = 5"

definition my_config :: u32 where
  "my_config = POLICYDB_CONFIG_MLS OR POLICYDB_CONFIG_AUDIT OR POLICYDB_CONFIG_NOTIFY"

text \<open>The header: the configuration of the file and the number of levels.\<close>

definition read_header :: "byte list \<Rightarrow> (u32 \<times> u32 \<times> byte list) option" where
  "read_header fp = do {
     (buf, fp) \<leftarrow> fread32s 5 fp;
     if buf ! 0 \<noteq> POLICYDB_VERSION then None
     else if buf ! 1 \<noteq> my_config \<and> buf ! 1 AND POLICYDB_CONFIG_MLS \<noteq> my_config AND POLICYDB_CONFIG_MLS then None
     else if buf ! 2 \<noteq> SYM_NUM \<or> buf ! 3 \<noteq> TED_NUM \<or> buf ! 4 \<noteq> OCON_NUM then None
     else do {
       (w, fp) \<leftarrow> fread32 fp;
       Some (buf ! 1, w, fp)
     }
   }"

definition read_symtab ::
    "allocs \<Rightarrow> (allocs \<Rightarrow> (string, 'd) hashtab_t \<Rightarrow> byte list \<Rightarrow> (string, 'd) hashtab_t outcome) \<Rightarrow> byte list
     \<Rightarrow> 'd symtab outcome" where
  "read_symtab ok read_f fp = do {
     let (rc, s) = symtab_init (\<lambda>i. ok [0, i]) zero_symtab;
     if rc \<noteq> 0 then Some None
     else or_bad (fread32s 2 fp) (\<lambda>(buf, fp). do {
       r \<leftarrow> read_loop (\<lambda>j. read_f (\<lambda>q. ok (1 # j # q))) 0 (unat (buf ! 1)) (sym_table s) fp;
       or_bad r (\<lambda>(t, fp). Some (Some (\<lparr>sym_table = t, sym_nprim = buf ! 0\<rparr>, fp)))
     })
   }"

definition read_symtabs :: "allocs \<Rightarrow> policydb \<Rightarrow> byte list \<Rightarrow> policydb outcome" where
  "read_symtabs ok p fp = do {
     r \<leftarrow> read_symtab (\<lambda>q. ok (0 # q)) common_read fp;
     or_bad r (\<lambda>(s0, fp). do {
     r \<leftarrow> read_symtab (\<lambda>q. ok (1 # q)) (\<lambda>ok. class_read ok s0) fp;
     or_bad r (\<lambda>(s1, fp). do {
     r \<leftarrow> read_symtab (\<lambda>q. ok (2 # q)) role_read fp;
     or_bad r (\<lambda>(s2, fp). do {
     r \<leftarrow> read_symtab (\<lambda>q. ok (3 # q)) type_read fp;
     or_bad r (\<lambda>(s3, fp). do {
     r \<leftarrow> read_symtab (\<lambda>q. ok (4 # q)) user_read fp;
     or_bad r (\<lambda>(s4, fp). do {
     r \<leftarrow> read_symtab (\<lambda>q. ok (5 # q)) sens_read fp;
     or_bad r (\<lambda>(s5, fp). do {
     r \<leftarrow> read_symtab (\<lambda>q. ok (6 # q)) cat_read fp;
     or_bad r (\<lambda>(s6, fp). Some (Some (p\<lparr>p_commons := s0, p_classes := s1, p_roles := s2, p_types := s3,
       p_users := s4, p_levels := s5, p_cats := s6\<rparr>, fp)))
   })})})})})})}"

definition read_te_def :: "mallocs \<Rightarrow> byte list \<Rightarrow> (te_def \<times> byte list) option" where
  "read_te_def ok fp = do {
     (w, fp) \<leftarrow> fread32 fp;
     (e, fp) \<leftarrow> read_bitmap ok fp;
     Some (\<lparr>te_value = w, te_exclude = e\<rparr>, fp)
   }"

definition read_te :: "allocs \<Rightarrow> u32 list \<Rightarrow> u32 \<Rightarrow> policydb \<Rightarrow> byte list \<Rightarrow> (policydb \<times> byte list) option" where
  "read_te ok buf config p fp = do {
     (d0, fp) \<leftarrow> read_te_def (\<lambda>i. ok [0, i]) fp;
     (d1, fp) \<leftarrow> read_te_def (\<lambda>i. ok [1, i]) fp;
     (d2, fp) \<leftarrow> read_te_def (\<lambda>i. ok [2, i]) fp;
     (d3, fp) \<leftarrow> read_te_def (\<lambda>i. ok [3, i]) fp;
     let (av, rest) = avtab_read (\<lambda>i. ok [4, i]) buf fp config;
     fp \<leftarrow> rest;
     Some (p\<lparr>p_te_def_allowed := d0, p_te_def_auditallow := d1, p_te_def_auditdeny := d2, p_te_def_notify := d3,
             te_avtab := av\<rparr>, fp)
   }"

definition index_symtabs :: "allocs \<Rightarrow> policydb \<Rightarrow> policydb option option" where
  "index_symtabs ok p = do {
     (r, p) \<leftarrow> policydb_index_classes (\<lambda>i. ok [0, i]) p;
     if \<not> r then Some None
     else do {
       (r, p) \<leftarrow> policydb_index_others (\<lambda>i. ok [1, i]) p;
       Some (if r then Some p else None)
     }
   }"

definition read_ocons :: "(nat \<Rightarrow> byte list \<Rightarrow> ocontext outcome) \<Rightarrow> byte list \<Rightarrow> ocontext list outcome" where
  "read_ocons f fp = or_bad (fread32 fp) (\<lambda>(n, fp). read_list f 0 (unat n) fp)"

definition read_ocontexts :: "allocs \<Rightarrow> policydb \<Rightarrow> byte list \<Rightarrow> policydb outcome" where
  "read_ocontexts ok p fp = do {
     r \<leftarrow> read_ocons (\<lambda>j. read_isid (\<lambda>q. ok (0 # j # q)) p) fp;
     or_bad r (\<lambda>(c0, fp). do {
     r \<leftarrow> read_ocons (\<lambda>j. read_named (\<lambda>q. ok (1 # j # q)) p) fp;
     or_bad r (\<lambda>(c1, fp). do {
     r \<leftarrow> read_ocons (\<lambda>j. read_port (\<lambda>q. ok (2 # j # q)) p) fp;
     or_bad r (\<lambda>(c2, fp). do {
     r \<leftarrow> read_ocons (\<lambda>j. read_named (\<lambda>q. ok (3 # j # q)) p) fp;
     or_bad r (\<lambda>(c3, fp). do {
     r \<leftarrow> read_ocons (\<lambda>j. read_node (\<lambda>q. ok (4 # j # q)) p) fp;
     or_bad r (\<lambda>(c4, fp). Some (Some (p\<lparr>ocon_isid := c0, ocon_fs := c1, ocon_port := c2, ocon_netif := c3,
       ocon_node := c4\<rparr>, fp)))
   })})})})}"

text \<open>\<open>scratch\<close> is the uninitialised array of \<open>avtab_read\<close>.\<close>

definition policydb_read :: "allocs \<Rightarrow> u32 list \<Rightarrow> byte list \<Rightarrow> policydb outcome" where
  "policydb_read ok scratch fp =
     or_bad (read_header fp) (\<lambda>(config, nl, fp). do {
       r \<leftarrow> read_symtabs (\<lambda>q. ok (0 # q)) (zero_policydb\<lparr>nlevels := nl\<rparr>) fp;
       or_bad r (\<lambda>(p, fp).
         or_bad (read_te (\<lambda>q. ok (1 # q)) scratch config p fp) (\<lambda>(p, fp). do {
           r \<leftarrow> index_symtabs (\<lambda>q. ok (2 # q)) p;
           or_bad r (\<lambda>p. read_ocontexts (\<lambda>q. ok (3 # q)) p fp)
         }))
     })"

section \<open>The reader in the server\<close>

text \<open>The code above is compiled twice.  In \<open>checkpolicy\<close>, a program of the host, \<open>fread\<close> is the one of the C library, which
  returns the number of items.  In the library with the security server (\<open>-D__KERNEL__\<close>) it is the inline function of
  \<open>global.h\<close>, which returns the number of bytes.  Here \<open>fp\<close> is a file that gives as many of the bytes asked for as it still
  has, and \<open>buf\<close> the bytes of the array.  An error of the file, for which the function returns -1, passes no test either.\<close>

definition fread_bytes :: "nat \<Rightarrow> nat \<Rightarrow> byte list \<Rightarrow> byte list \<Rightarrow> nat \<times> byte list \<times> byte list" where
  "fread_bytes sz nitems buf fp =
     (let bs = take (nitems * sz) fp in (length bs, bs @ drop (length bs) buf, drop (nitems * sz) fp))"

definition read_header_bytes :: "byte list \<Rightarrow> byte list \<Rightarrow> (u32 \<times> u32 \<times> byte list) option" where
  "read_header_bytes buf fp = (
     let (items, buf, fp) = fread_bytes 4 5 buf fp
     in if items \<noteq> 5 then None
        else do {
          (ws, b) \<leftarrow> fread32s 5 buf;
          if ws ! 0 \<noteq> POLICYDB_VERSION then None
          else if ws ! 1 \<noteq> my_config \<and> ws ! 1 AND POLICYDB_CONFIG_MLS \<noteq> my_config AND POLICYDB_CONFIG_MLS then None
          else if ws ! 2 \<noteq> SYM_NUM \<or> ws ! 3 \<noteq> TED_NUM \<or> ws ! 4 \<noteq> OCON_NUM then None
          else
            let (items, buf, fp) = fread_bytes 4 1 buf fp
            in if items \<noteq> 1 then None
               else do {
                 (w, b) \<leftarrow> fread32 buf;
                 Some (ws ! 1, w, fp)
               }
        })"

text \<open>The first call passes the test only when exactly five bytes are left, and then the next one finds none.  So the rest
  of the function, for which the definition names the readers above, is not reached.\<close>

lemma read_header_bytes_fails: "read_header_bytes buf fp = None"
proof -
  have "drop 20 fp = []" if "length (take 20 fp) = 5" using that by (simp add: min_def split: if_splits)
  then show ?thesis by (auto simp: read_header_bytes_def fread_bytes_def Let_def split: bind_splits)
qed

definition policydb_read_bytes :: "allocs \<Rightarrow> u32 list \<Rightarrow> byte list \<Rightarrow> byte list \<Rightarrow> policydb outcome" where
  "policydb_read_bytes ok scratch buf fp =
     or_bad (read_header_bytes buf fp) (\<lambda>(config, nl, fp). do {
       r \<leftarrow> read_symtabs (\<lambda>q. ok (0 # q)) (zero_policydb\<lparr>nlevels := nl\<rparr>) fp;
       or_bad r (\<lambda>(p, fp).
         or_bad (read_te (\<lambda>q. ok (1 # q)) scratch config p fp) (\<lambda>(p, fp). do {
           r \<leftarrow> index_symtabs (\<lambda>q. ok (2 # q)) p;
           or_bad r (\<lambda>p. read_ocontexts (\<lambda>q. ok (3 # q)) p fp)
         }))
     })"

lemma policydb_read_bytes_fails [simp]: "policydb_read_bytes ok scratch buf fp = Some None"
  by (simp add: policydb_read_bytes_def read_header_bytes_fails or_bad_def)

text \<open>The reader for either \<open>fread\<close>.\<close>

datatype fread_kind = Items | Bytes "byte list"

fun policydb_read_by :: "fread_kind \<Rightarrow> allocs \<Rightarrow> u32 list \<Rightarrow> byte list \<Rightarrow> policydb outcome" where
  "policydb_read_by Items ok scratch fp = policydb_read ok scratch fp"
| "policydb_read_by (Bytes buf) ok scratch fp = policydb_read_bytes ok scratch buf fp"

end
