(* ===== verification/Policydb_Write.thy ===== *)
theory Policydb_Write
  imports Policydb_Read
begin

text \<open>
  Writing a policy database (\<open>security/policydb.c\<close>).  A function that writes gives the bytes it adds
  to the stream, or \<open>None\<close> when a \<open>fwrite\<close> fails (or a table is \<open>NULL\<close>).  The argument \<open>ok\<close> says which
  calls of \<open>fwrite\<close> succeed.
\<close>

definition cbytes :: "string \<Rightarrow> byte list" where
  "cbytes s = map (\<lambda>c. of_nat (of_char c)) s"

definition strlen :: "string \<Rightarrow> u32" where
  "strlen s = of_nat (length s)"

definition write_key :: "string \<Rightarrow> byte list" where
  "write_key key = take (unat (strlen key)) (cbytes key)"

text \<open>The walk of \<open>hashtab_map\<close> over a table with a function that writes: the state is the number of
  entries and the bytes written so far.\<close>

definition write_apply ::
    "(allocs \<Rightarrow> string \<Rightarrow> 'd \<Rightarrow> byte list option) \<Rightarrow> allocs \<Rightarrow> string \<Rightarrow> 'd \<Rightarrow> nat \<times> byte list \<Rightarrow> int \<times> nat \<times> byte list" where
  "write_apply f ok key d = (\<lambda>(i, out).
     case f (\<lambda>q. ok (i # q)) key d of None \<Rightarrow> (-1, i, out) | Some bs \<Rightarrow> (0, Suc i, out @ bs))"

definition write_table ::
    "allocs \<Rightarrow> (allocs \<Rightarrow> string \<Rightarrow> 'd \<Rightarrow> byte list option) \<Rightarrow> (string, 'd) hashtab_t \<Rightarrow> byte list option" where
  "write_table ok f t =
     (case hashtab_map t (write_apply f ok) (0, []) of (r, i, out) \<Rightarrow> if r \<noteq> 0 then None else Some out)"

fun write_list :: "(nat \<Rightarrow> 'a \<Rightarrow> byte list option) \<Rightarrow> nat \<Rightarrow> 'a list \<Rightarrow> byte list option" where
  "write_list f i [] = Some []"
| "write_list f i (x # xs) = do {
     b \<leftarrow> f i x;
     bs \<leftarrow> write_list f (Suc i) xs;
     Some (b @ bs)
   }"

section \<open>Symbols\<close>

definition context_write :: "allocs \<Rightarrow> context_struct \<Rightarrow> byte list option" where
  "context_write ok c =
     (if \<not> ok [0] then None
      else do {
        r \<leftarrow> mls_write_range (\<lambda>q. ok (1 # q)) (c_range c);
        Some (concat (map le32 [c_user c, c_role c, c_type c]) @ r)
      })"

definition perm_write :: "allocs \<Rightarrow> string \<Rightarrow> perm_datum \<Rightarrow> byte list option" where
  "perm_write ok key d =
     (if \<not> ok [0] \<or> \<not> ok [1] then None
      else Some (concat (map le32 [strlen key, pd_value d, base_perms d]) @ write_key key))"

definition common_write :: "allocs \<Rightarrow> string \<Rightarrow> common_datum \<Rightarrow> byte list option" where
  "common_write ok key d = do {
     t \<leftarrow> sym_table (cd_permissions d);
     if \<not> ok [0] \<or> \<not> ok [1] then None
     else do {
       ps \<leftarrow> write_table (\<lambda>q. ok (2 # q)) perm_write (Some t);
       Some (concat (map le32 [strlen key, cd_value d, sym_nprim (cd_permissions d), nel t]) @ write_key key @ ps)
     }
   }"

fun constraint_expr_write :: "allocs \<Rightarrow> constraint_expr \<Rightarrow> byte list option" where
  "constraint_expr_write ok (Expr ty rel e l r c) =
     (if \<not> ok [0] then None
      else do {
        b \<leftarrow> (if ty = CONSTRAINT_EXPR_TYPE_TYPE_SOURCE \<or> ty = CONSTRAINT_EXPR_TYPE_TYPE_TARGET \<or>
                 ty = CONSTRAINT_EXPR_TYPE_ROLE_SOURCE \<or> ty = CONSTRAINT_EXPR_TYPE_ROLE_TARGET
              then ebitmap_write (\<lambda>i. ok [1, i]) e else Some []);
        bl \<leftarrow> (case l of None \<Rightarrow> Some [] | Some x \<Rightarrow> constraint_expr_write (\<lambda>q. ok (2 # q)) x);
        br \<leftarrow> (case r of None \<Rightarrow> Some [] | Some x \<Rightarrow> constraint_expr_write (\<lambda>q. ok (3 # q)) x);
        Some (concat (map le32 (ty # (if ty = CONSTRAINT_EXPR_TYPE_ROLE_RELATION then [rel] else []))) @ b @ bl @ br)
      })"

definition constraint_write :: "allocs \<Rightarrow> constraint_node \<Rightarrow> byte list option" where
  "constraint_write ok c =
     (if \<not> ok [0] then None
      else do {
        e \<leftarrow> constraint_expr_write (\<lambda>q. ok (1 # q)) (cn_expr c);
        Some (le32 (cn_permissions c) @ e)
      })"

definition class_write :: "allocs \<Rightarrow> string \<Rightarrow> class_datum \<Rightarrow> byte list option" where
  "class_write ok key d = do {
     t \<leftarrow> sym_table (cl_permissions d);
     let len2 = (case comkey d of None \<Rightarrow> 0 | Some s \<Rightarrow> strlen s);
     if \<not> ok [0] \<or> \<not> ok [1] then None
     else do {
       ck \<leftarrow> (case comkey d of None \<Rightarrow> Some [] | Some s \<Rightarrow> if ok [2] then Some (write_key s) else None);
       ps \<leftarrow> write_table (\<lambda>q. ok (3 # q)) perm_write (Some t);
       cs \<leftarrow> write_list (\<lambda>i. constraint_write (\<lambda>q. ok (4 # i # q))) 0 (constraints d);
       mp \<leftarrow> mls_write_perms (\<lambda>q. ok (5 # q)) (mlsperms d);
       Some (concat (map le32 [strlen key, len2, cl_value d, sym_nprim (cl_permissions d), nel t,
         of_nat (length (constraints d))]) @ write_key key @ ck @ ps @ cs @ mp)
     }
   }"

definition role_write :: "allocs \<Rightarrow> string \<Rightarrow> role_datum \<Rightarrow> byte list option" where
  "role_write ok key d =
     (if \<not> ok [0] \<or> \<not> ok [1] then None
      else do {
        b0 \<leftarrow> ebitmap_write (\<lambda>i. ok [2, i]) (dominates d);
        b1 \<leftarrow> ebitmap_write (\<lambda>i. ok [3, i]) (types d);
        Some (concat (map le32 [strlen key, rd_value d]) @ write_key key @ b0 @ b1)
      })"

definition type_write :: "allocs \<Rightarrow> string \<Rightarrow> type_datum \<Rightarrow> byte list option" where
  "type_write ok key d =
     (if \<not> ok [0] \<or> \<not> ok [1] then None
      else Some (concat (map le32 [strlen key, td_value d, ucast (td_isalias d)]) @ write_key key))"

definition sens_write :: "allocs \<Rightarrow> string \<Rightarrow> level_datum \<Rightarrow> byte list option" where
  "sens_write ok key d =
     (if \<not> ok [0] \<or> \<not> ok [1] then None
      else do {
        l \<leftarrow> mls_write_level (\<lambda>q. ok (2 # q)) (ld_level d);
        Some (concat (map le32 [strlen key, ucast (ld_isalias d)]) @ write_key key @ l)
      })"

definition cat_write :: "allocs \<Rightarrow> string \<Rightarrow> cat_datum \<Rightarrow> byte list option" where
  "cat_write ok key d =
     (if \<not> ok [0] \<or> \<not> ok [1] then None
      else Some (concat (map le32 [strlen key, ca_value d, ucast (ca_isalias d)]) @ write_key key))"

definition user_write :: "allocs \<Rightarrow> string \<Rightarrow> user_datum \<Rightarrow> byte list option" where
  "user_write ok key d =
     (if \<not> ok [0] \<or> \<not> ok [1] then None
      else do {
        b \<leftarrow> ebitmap_write (\<lambda>i. ok [2, i]) (roles d);
        if \<not> ok [3] then None
        else do {
          rs \<leftarrow> write_list (\<lambda>i. mls_write_range (\<lambda>q. ok (4 # i # q))) 0 (ranges d);
          Some (concat (map le32 [strlen key, ud_value d]) @ write_key key @ b @
            le32 (of_nat (length (ranges d))) @ rs)
        }
      })"

section \<open>The database\<close>

definition write_symtab ::
    "allocs \<Rightarrow> (allocs \<Rightarrow> string \<Rightarrow> 'd \<Rightarrow> byte list option) \<Rightarrow> 'd symtab \<Rightarrow> byte list option" where
  "write_symtab ok f s = do {
     t \<leftarrow> sym_table s;
     if \<not> ok [0] then None
     else do {
       bs \<leftarrow> write_table (\<lambda>q. ok (1 # q)) f (Some t);
       Some (concat (map le32 [sym_nprim s, nel t]) @ bs)
     }
   }"

definition write_te_def :: "allocs \<Rightarrow> te_def \<Rightarrow> byte list option" where
  "write_te_def ok d =
     (if \<not> ok [0] then None
      else do {
        b \<leftarrow> ebitmap_write (\<lambda>i. ok [1, i]) (te_exclude d);
        Some (le32 (te_value d) @ b)
      })"

definition write_isid :: "allocs \<Rightarrow> ocontext \<Rightarrow> byte list option" where
  "write_isid ok c =
     (if \<not> ok [0] then None
      else do {
        b \<leftarrow> context_write (\<lambda>q. ok (1 # q)) (oc_context0 c);
        Some (le32 (oc_sid0 c) @ b)
      })"

text \<open>The name, port and node members of the union; \<open>None\<close> when another member was stored.\<close>

definition write_named :: "allocs \<Rightarrow> ocontext \<Rightarrow> byte list option" where
  "write_named ok c =
     (case oc_u c of
        OName name \<Rightarrow>
          if \<not> ok [0] \<or> \<not> ok [1] then None
          else do {
            b0 \<leftarrow> context_write (\<lambda>q. ok (2 # q)) (oc_context0 c);
            b1 \<leftarrow> context_write (\<lambda>q. ok (3 # q)) (oc_context1 c);
            Some (le32 (strlen name) @ write_key name @ b0 @ b1)
          }
      | _ \<Rightarrow> None)"

definition write_port :: "allocs \<Rightarrow> ocontext \<Rightarrow> byte list option" where
  "write_port ok c =
     (case oc_u c of
        OPort protocol low high \<Rightarrow>
          if \<not> ok [0] then None
          else do {
            b \<leftarrow> context_write (\<lambda>q. ok (1 # q)) (oc_context0 c);
            Some (concat (map le32 [ucast protocol, ucast low, ucast high]) @ b)
          }
      | _ \<Rightarrow> None)"

definition write_node :: "allocs \<Rightarrow> ocontext \<Rightarrow> byte list option" where
  "write_node ok c =
     (case oc_u c of
        ONode addr msk \<Rightarrow>
          if \<not> ok [0] then None
          else do {
            b \<leftarrow> context_write (\<lambda>q. ok (1 # q)) (oc_context0 c);
            Some (concat (map le32 [addr, msk]) @ b)
          }
      | _ \<Rightarrow> None)"

definition write_ocons ::
    "allocs \<Rightarrow> (allocs \<Rightarrow> ocontext \<Rightarrow> byte list option) \<Rightarrow> ocontext list \<Rightarrow> byte list option" where
  "write_ocons ok f cs =
     (if \<not> ok [0] then None
      else do {
        bs \<leftarrow> write_list (\<lambda>i. f (\<lambda>q. ok (1 # i # q))) 0 cs;
        Some (le32 (of_nat (length cs)) @ bs)
      })"

definition write_header :: "policydb \<Rightarrow> byte list" where
  "write_header p = concat (map le32 [POLICYDB_VERSION, my_config, SYM_NUM, TED_NUM, OCON_NUM]) @ le32 (nlevels p)"

definition write_symtabs :: "allocs \<Rightarrow> policydb \<Rightarrow> byte list option" where
  "write_symtabs ok p = do {
     s0 \<leftarrow> write_symtab (\<lambda>q. ok (0 # q)) common_write (p_commons p);
     s1 \<leftarrow> write_symtab (\<lambda>q. ok (1 # q)) class_write (p_classes p);
     s2 \<leftarrow> write_symtab (\<lambda>q. ok (2 # q)) role_write (p_roles p);
     s3 \<leftarrow> write_symtab (\<lambda>q. ok (3 # q)) type_write (p_types p);
     s4 \<leftarrow> write_symtab (\<lambda>q. ok (4 # q)) user_write (p_users p);
     s5 \<leftarrow> write_symtab (\<lambda>q. ok (5 # q)) sens_write (p_levels p);
     s6 \<leftarrow> write_symtab (\<lambda>q. ok (6 # q)) cat_write (p_cats p);
     Some (s0 @ s1 @ s2 @ s3 @ s4 @ s5 @ s6)
   }"

definition write_te :: "allocs \<Rightarrow> policydb \<Rightarrow> byte list option" where
  "write_te ok p = do {
     d0 \<leftarrow> write_te_def (\<lambda>q. ok (0 # q)) (p_te_def_allowed p);
     d1 \<leftarrow> write_te_def (\<lambda>q. ok (1 # q)) (p_te_def_auditallow p);
     d2 \<leftarrow> write_te_def (\<lambda>q. ok (2 # q)) (p_te_def_auditdeny p);
     d3 \<leftarrow> write_te_def (\<lambda>q. ok (3 # q)) (p_te_def_notify p);
     av \<leftarrow> avtab_write (\<lambda>i. ok [4, i]) (te_avtab p);
     Some (d0 @ d1 @ d2 @ d3 @ av)
   }"

definition write_ocontexts :: "allocs \<Rightarrow> policydb \<Rightarrow> byte list option" where
  "write_ocontexts ok p = do {
     c0 \<leftarrow> write_ocons (\<lambda>q. ok (0 # q)) write_isid (ocon_isid p);
     c1 \<leftarrow> write_ocons (\<lambda>q. ok (1 # q)) write_named (ocon_fs p);
     c2 \<leftarrow> write_ocons (\<lambda>q. ok (2 # q)) write_port (ocon_port p);
     c3 \<leftarrow> write_ocons (\<lambda>q. ok (3 # q)) write_named (ocon_netif p);
     c4 \<leftarrow> write_ocons (\<lambda>q. ok (4 # q)) write_node (ocon_node p);
     Some (c0 @ c1 @ c2 @ c3 @ c4)
   }"

definition policydb_write :: "allocs \<Rightarrow> policydb \<Rightarrow> byte list option" where
  "policydb_write ok p =
     (if \<not> ok [0] \<or> \<not> ok [1] then None
      else do {
        s \<leftarrow> write_symtabs (\<lambda>q. ok (2 # q)) p;
        t \<leftarrow> write_te (\<lambda>q. ok (3 # q)) p;
        c \<leftarrow> write_ocontexts (\<lambda>q. ok (4 # q)) p;
        Some (write_header p @ s @ t @ c)
      })"

end
