(* ===== verification/Policydb_Codec.thy ===== *)
theory Policydb_Codec
  imports Policydb_Write Mls_Lattice
begin

text \<open>
  Reading back what was written: strings, lists and symbol tables.  A kind of symbol is a
  codec, a function that writes one and a function that reads one and inserts it;
  what is read back may differ from what was written in the order of the chains of the
  tables inside of it, so a codec comes with a relation between data.
\<close>

section \<open>Strings\<close>

definition key_ok :: "string \<Rightarrow> bool" where
  "key_ok s \<longleftrightarrow> CHR 0x00 \<notin> set s \<and> length s < 2 ^ 32 - 1"

lemma char_byte [simp]: "char_of (unat (of_nat (of_char c) :: byte)) = c"
proof -
  have "(of_char c :: nat) < 256" by simp
  then have "unat (of_nat (of_char c) :: byte) = of_char c" by (simp add: unat_of_nat)
  then show ?thesis by simp
qed

lemma cstring_cbytes: "CHR 0x00 \<notin> set s \<Longrightarrow> cstring (cbytes s) = s"
  by (induction s) (auto simp: cstring_def cbytes_def)

lemma strlen_unat: "length s < 2 ^ 32 \<Longrightarrow> unat (strlen s) = length s"
  by (simp add: strlen_def unat_of_nat_u32)

lemma minus_one_u32: "unat (- 1 :: u32) = 2 ^ 32 - 1"
  by (simp add: unsigned_minus_1_eq_mask mask_eq_exp_minus_1)

lemma read_write_key:
  assumes "key_ok s"
  shows "read_key True (strlen s) (write_key s @ rest) = Some (Some (s, rest))"
proof -
  have l: "unat (strlen s) = length s" "length (cbytes s) = length s" "CHR 0x00 \<notin> set s"
    using assms by (simp_all add: key_ok_def strlen_unat cbytes_def)
  have "strlen s + 1 \<noteq> 0"
  proof
    assume "strlen s + 1 = 0"
    then have "strlen s = - 1" by (simp add: eq_neg_iff_add_eq_0)
    then have "unat (strlen s) = 2 ^ 32 - 1" using minus_one_u32 by simp
    then show False using l(1) assms by (simp add: key_ok_def)
  qed
  then show ?thesis using l by (simp add: read_key_def write_key_def freads_def cstring_cbytes)
qed

lemma write_key_length: "key_ok s \<Longrightarrow> unat (strlen s) = length s"
  by (simp add: key_ok_def strlen_unat)

section \<open>Words, bitmaps and lists\<close>

lemma or_bad_simps [simp]: "or_bad None k = Some None" "or_bad (Some x) k = k x"
  by (simp_all add: or_bad_def)

lemma fread32s_take [simp]: "length ws = n \<Longrightarrow> fread32s n (concat (map le32 ws) @ rest) = Some (ws, rest)"
  using fread32s_le32 [of ws rest] by simp

lemma read_write_bitmap:
  assumes "ebitmap_inv e" "ebitmap_write w e = Some out"
  shows "read_bitmap (\<lambda>_. True) (out @ rest) = Some (e, rest)"
  using ebitmap_read_write [OF assms, of "\<lambda>_. True" rest] by (simp add: read_bitmap_def)

text \<open>\<open>kept\<close> is what the binary form keeps of an element.\<close>

lemma read_write_list_kept:
  assumes "write_list f i xs = Some out"
    "\<And>i x out rest. x \<in> set xs \<Longrightarrow> f i x = Some out \<Longrightarrow> g (out @ rest) = Some (Some (kept x, rest))"
  shows "read_list (\<lambda>_. g) j (length xs) (out @ rest) = Some (Some (map kept xs, rest))"
  using assms
proof (induction xs arbitrary: i j out)
  case (Cons x xs)
  obtain b bs where b: "f i x = Some b" "write_list f (Suc i) xs = Some bs" "out = b @ bs"
    using Cons.prems(1) by (auto split: bind_splits)
  have "g (b @ bs @ rest) = Some (Some (kept x, bs @ rest))" using Cons.prems(2) [of x i b "bs @ rest"] b(1) by simp
  moreover have "read_list (\<lambda>_. g) (Suc j) (length xs) (bs @ rest) = Some (Some (map kept xs, rest))"
    using Cons.IH [OF b(2)] Cons.prems(2) by simp
  ultimately show ?case using b(3) by simp
qed simp

lemma read_write_list32:
  assumes "write_list f i xs = Some out" "\<And>i x out rest. x \<in> set xs \<Longrightarrow> f i x = Some out \<Longrightarrow> g (out @ rest) = Some (Some (x, rest))"
    "length xs < 2 ^ 32"
  shows "read_list (\<lambda>_. g) j (unat (of_nat (length xs) :: u32)) (out @ rest) = Some (Some (xs, rest))"
  using read_write_list_kept [OF assms(1), of g "\<lambda>x. x"] assms(2,3) by (simp add: unat_of_nat_u32)

section \<open>Levels and ranges\<close>

lemma read_write_level:
  assumes "level_ok l" "mls_write_level w l = Some out"
  shows "mls_read_level (\<lambda>_. True) (out @ rest) = Some (l, rest)"
proof -
  obtain b where b: "ebitmap_write (\<lambda>i. w [1, i]) (cat l) = Some b" "out = le32 (sens l) @ b"
    using assms(2) by (auto simp: mls_write_level_def split: bind_splits if_splits)
  have "ebitmap_read (\<lambda>_. True) (b @ rest) = (cat l, Some rest)"
    using ebitmap_read_write [OF _ b(1)] assms(1) by (simp add: level_ok_def)
  then show ?thesis using b(2) by (simp add: mls_read_level_def)
qed

lemma relation_eq_iff: "mls_level_relation l1 l2 = MLS_RELATION_EQ \<longleftrightarrow> l1 = l2"
  by (auto simp: mls_level_relation_def MLS_RELATION_EQ_def MLS_RELATION_DOM_def MLS_RELATION_DOMBY_def MLS_RELATION_INCOMP_def split: if_splits)

lemma read_write_range:
  assumes "range_ok r" "mls_write_range w r = Some out"
  shows "mls_read_range (\<lambda>_. True) (out @ rest) = Some (r, rest)"
proof -
  obtain b0 where b0: "ebitmap_write (\<lambda>i. w [1, i]) (cat (lo r)) = Some b0"
    using assms(2) by (auto simp: mls_write_range_def Let_def split: bind_splits if_splits)
  have r0: "ebitmap_read (\<lambda>_. True) (b0 @ fp) = (cat (lo r), Some fp)" for fp
    using ebitmap_read_write [OF _ b0] assms(1) by (simp add: level_ok_def range_ok_def)
  have one: "unat (1 :: u32) = 1" "unat (2 :: u32) = 2" by simp_all
  show ?thesis
  proof (cases "hi r = lo r")
    case True
    then have out: "out = le32 1 @ le32 (sens (lo r)) @ b0"
      using assms(2) b0 relation_eq_iff by (auto simp: mls_write_range_def Let_def split: bind_splits if_splits)
    obtain res e1 where cpy: "ebitmap_cpy (\<lambda>_. True) (cat (lo r)) = (res, e1)" by fastforce
    then have "res" "e1 = cat (lo r)" using ebitmap_cpy_spec [OF cpy] by auto
    then show ?thesis using True cpy r0 by (cases r; cases "lo r") (simp add: out mls_read_range_def fill_def)
  next
    case False
    then obtain b1 where b1: "ebitmap_write (\<lambda>i. w [2, i]) (cat (hi r)) = Some b1"
      and out: "out = le32 2 @ le32 (sens (lo r)) @ le32 (sens (hi r)) @ b0 @ b1"
      using assms(2) b0 relation_eq_iff [of "hi r" "lo r"] by (auto simp: mls_write_range_def Let_def split: bind_splits if_splits)
    have "ebitmap_read (\<lambda>_. True) (b1 @ rest) = (cat (hi r), Some rest)"
      using ebitmap_read_write [OF _ b1] assms(1) by (simp add: level_ok_def range_ok_def)
    moreover have "fread32s 2 (le32 (sens (lo r)) @ le32 (sens (hi r)) @ b0 @ b1 @ rest) = Some ([sens (lo r), sens (hi r)], b0 @ b1 @ rest)"
      using fread32s_take [of "[sens (lo r), sens (hi r)]" 2 "b0 @ b1 @ rest"] by simp
    ultimately show ?thesis using r0 one by (cases r; cases "lo r"; cases "hi r") (simp add: out mls_read_range_def fill_def)
  qed
qed

section \<open>Constraints\<close>

fun expr_ok :: "constraint_expr \<Rightarrow> bool" where
  "expr_ok (Expr ty rel e l r c) \<longleftrightarrow>
     c = 1 \<and> (ty \<noteq> CONSTRAINT_EXPR_TYPE_ROLE_RELATION \<longrightarrow> rel = 0) \<and>
     (if ty = CONSTRAINT_EXPR_TYPE_TYPE_SOURCE \<or> ty = CONSTRAINT_EXPR_TYPE_TYPE_TARGET \<or>
         ty = CONSTRAINT_EXPR_TYPE_ROLE_SOURCE \<or> ty = CONSTRAINT_EXPR_TYPE_ROLE_TARGET
      then ebitmap_inv e \<and> l = None \<and> r = None
      else e = ebitmap_init \<and>
        (if ty = CONSTRAINT_EXPR_TYPE_AND \<or> ty = CONSTRAINT_EXPR_TYPE_OR
         then (case l of None \<Rightarrow> False | Some x \<Rightarrow> expr_ok x) \<and> (case r of None \<Rightarrow> False | Some x \<Rightarrow> expr_ok x)
         else if ty = CONSTRAINT_EXPR_TYPE_NOT
         then (case l of None \<Rightarrow> False | Some x \<Rightarrow> expr_ok x) \<and> r = None
         else l = None \<and> r = None))"

lemma read_write_expr:
  assumes "constraint_expr_write w x = Some out" "expr_ok x"
  shows "constraint_expr_read (\<lambda>_. True) (out @ rest) = Some (Some (x, rest))"
  using assms
proof (induction w x arbitrary: out rest rule: constraint_expr_write.induct)
  case (1 w ty rel e l r c)
  let ?bits = "ty = CONSTRAINT_EXPR_TYPE_TYPE_SOURCE \<or> ty = CONSTRAINT_EXPR_TYPE_TYPE_TARGET \<or>
      ty = CONSTRAINT_EXPR_TYPE_ROLE_SOURCE \<or> ty = CONSTRAINT_EXPR_TYPE_ROLE_TARGET"
  let ?bin = "ty = CONSTRAINT_EXPR_TYPE_AND \<or> ty = CONSTRAINT_EXPR_TYPE_OR"
  obtain b bl br where w: "w [0]" "(if ?bits then ebitmap_write (\<lambda>i. w [1, i]) e else Some []) = Some b"
      "(case l of None \<Rightarrow> Some [] | Some x \<Rightarrow> constraint_expr_write (\<lambda>q. w (2 # q)) x) = Some bl"
      "(case r of None \<Rightarrow> Some [] | Some x \<Rightarrow> constraint_expr_write (\<lambda>q. w (3 # q)) x) = Some br"
    and out: "out = concat (map le32 (ty # (if ty = CONSTRAINT_EXPR_TYPE_ROLE_RELATION then [rel] else []))) @ b @ bl @ br"
    using "1.prems"(1) by (auto split: bind_splits if_splits)
  have ok: "c = 1" "ty \<noteq> CONSTRAINT_EXPR_TYPE_ROLE_RELATION \<Longrightarrow> rel = 0" using "1.prems"(2) by simp_all
  let ?fp = "b @ bl @ br @ rest"
  have rel: "or_bad (fread32 (out @ rest)) (\<lambda>(ty, fp). or_bad (if ty = CONSTRAINT_EXPR_TYPE_ROLE_RELATION then fread32 fp else Some (0, fp)) (k ty)) = k ty (rel, ?fp)" for k :: "u32 \<Rightarrow> u32 \<times> byte list \<Rightarrow> constraint_expr outcome"
    using ok(2) out by simp
  have run: "constraint_expr_read (\<lambda>_. True) (out @ rest) = (\<lambda>(rel, fp).
      if ?bits then or_bad (read_bitmap (\<lambda>_. True) fp) (\<lambda>(e, fp). Some (Some (Expr ty rel e None None 1, fp)))
      else if ?bin then do {
        r \<leftarrow> constraint_expr_read (\<lambda>_. True) fp;
        or_bad r (\<lambda>(left, fp). do {
          r \<leftarrow> constraint_expr_read (\<lambda>_. True) fp;
          or_bad r (\<lambda>(right, fp). Some (Some (Expr ty rel ebitmap_init (Some left) (Some right) 1, fp)))
        })
      }
      else if ty = CONSTRAINT_EXPR_TYPE_NOT then do {
        r \<leftarrow> constraint_expr_read (\<lambda>_. True) fp;
        or_bad r (\<lambda>(left, fp). Some (Some (Expr ty rel ebitmap_init (Some left) None 1, fp)))
      }
      else Some (Some (Expr ty rel ebitmap_init None None 1, fp))) (rel, ?fp)"
    by (subst constraint_expr_read.simps) (simp only: not_True_eq_False if_False rel)
  have left: "constraint_expr_read (\<lambda>_. True) (bl @ fp) = Some (Some (x, fp))" if "l = Some x" "expr_ok x" for x fp
    using "1.IH"(1) [OF _ w(2) that(1) _ that(2)] w(1,3) that(1) by simp
  have right: "constraint_expr_read (\<lambda>_. True) (br @ fp) = Some (Some (x, fp))" if "r = Some x" "expr_ok x" for x fp
    using "1.IH"(2) [OF _ w(2,3) that(1) _ that(2)] w(1,4) that(1) by simp
  consider ?bits | "\<not> ?bits" ?bin | "\<not> ?bits" "\<not> ?bin" "ty = CONSTRAINT_EXPR_TYPE_NOT" | "\<not> ?bits" "\<not> ?bin" "ty \<noteq> CONSTRAINT_EXPR_TYPE_NOT" by blast
  then show ?case
  proof cases
    case 1
    then have x: "ebitmap_inv e" "l = None" "r = None" "ebitmap_write (\<lambda>i. w [1, i]) e = Some b" using "1.prems"(2) w(2) by auto
    have "read_bitmap (\<lambda>_. True) (b @ fp) = Some (e, fp)" for fp using read_write_bitmap [OF x(1,4)] .
    then show ?thesis using run 1 x w(3,4) ok(1) by simp
  next
    case 2
    then obtain x y where x: "l = Some x" "r = Some y" "expr_ok x" "expr_ok y" "b = []" "e = ebitmap_init"
      using "1.prems"(2) w(2) by (auto split: option.splits if_splits)
    show ?thesis using run 2 left [OF x(1,3)] right [OF x(2,4)] x ok(1) by simp
  next
    case 3
    then obtain x where x: "l = Some x" "r = None" "expr_ok x" "b = []" "e = ebitmap_init"
      using "1.prems"(2) w(2) by (auto split: option.splits if_splits)
    show ?thesis using run 3 left [OF x(1,3)] x w(4) ok(1) by simp
  next
    case 4
    then have x: "l = None" "r = None" "b = []" "e = ebitmap_init"
      using "1.prems"(2) w(2) by (auto split: if_splits)
    show ?thesis using run 4 x w(3,4) ok(1) by simp
  qed
qed

end
