(* ===== verification/Policydb_Symbols.thy ===== *)
theory Policydb_Symbols
  imports Policydb_Codec
begin

text \<open>
  The contract of a kind of symbol, what it gives for a whole symbol table, and the seven kinds.
\<close>

section \<open>Tables of symbols\<close>

definition table_same :: "('d \<Rightarrow> 'd \<Rightarrow> bool) \<Rightarrow> (string, 'd) hashtab_t \<Rightarrow> (string, 'd) hashtab_t \<Rightarrow> bool" where
  "table_same same t t' \<longleftrightarrow> (\<exists>h h'. t = Some h \<and> t' = Some h' \<and> hashtab_ok h \<and> hashtab_ok h' \<and> nel h' = nel h \<and>
     (\<forall>k. rel_option same (hashtab_abs h k) (hashtab_abs h' k)))"

definition table_normal :: "('d \<Rightarrow> bool) \<Rightarrow> (string, 'd) hashtab_t \<Rightarrow> bool" where
  "table_normal normal t \<longleftrightarrow> (\<exists>h. t = Some h \<and> hashtab_ok h \<and> nel_ok h \<and> length (concat (htable h)) < 2 ^ 32 \<and>
     (\<forall>k d. hashtab_abs h k = Some d \<longrightarrow> key_ok k \<and> normal d))"

lemma entries_abs:
  assumes "hashtab_ok h"
  shows "distinct (map fst (concat (htable h)))" "map_of (concat (htable h)) = hashtab_abs h"
  using hashing.entries_map [OF hashtab_okD(2,3) [OF assms]] by (simp_all add: hashtab_abs_def)

lemma insert_datum_new:
  assumes "hashtab_ok h" "hashtab_abs h key = None"
  obtains h' where "insert_datum True (Some h) key d fp = Some (Some (Some h', fp))" "hashtab_ok h'"
    "hashtab_abs h' = (hashtab_abs h)(key \<mapsto> d)" "nel h' = nel h + 1" "nel_ok h \<Longrightarrow> nel_ok h'"
  using hashtab_insert_spec(3) [OF assms, of True d] that by (auto simp: insert_datum_def)

lemma write_apply_eq:
  "write_apply f ok key d (i, out) = (case f (\<lambda>q. ok (i # q)) key d of None \<Rightarrow> (-1, i, out) | Some bs \<Rightarrow> (0, Suc i, out @ bs))"
  by (simp add: write_apply_def)

locale symbol_codec =
  fixes wr :: "allocs \<Rightarrow> string \<Rightarrow> 'd \<Rightarrow> byte list option"
    and rd :: "allocs \<Rightarrow> (string, 'd) hashtab_t \<Rightarrow> byte list \<Rightarrow> (string, 'd) hashtab_t outcome"
    and same :: "'d \<Rightarrow> 'd \<Rightarrow> bool"
    and normal :: "'d \<Rightarrow> bool"
  assumes read_written: "wr w key d = Some out \<Longrightarrow> key_ok key \<Longrightarrow> normal d \<Longrightarrow>
    \<exists>d'. same d d' \<and> (\<forall>h rest. rd (\<lambda>_. True) h (out @ rest) = insert_datum True h key d' rest)"
begin

lemma read_entries:
  assumes "hashtab_map_chain (write_apply wr w) es (i, pre) = (0, i', out)"
    "\<forall>(k, d)\<in>set es. key_ok k \<and> normal d" "distinct (map fst es)" "fst ` set es \<inter> dom (hashtab_abs h0) = {}"
    "hashtab_ok h0" "nel_ok h0"
  shows "\<exists>bs h'. out = pre @ bs \<and>
    (\<forall>rest. read_loop (\<lambda>_. rd (\<lambda>_. True)) j (length es) (Some h0) (bs @ rest) = Some (Some (Some h', rest))) \<and>
    hashtab_ok h' \<and> nel_ok h' \<and> nel h' = nel h0 + of_nat (length es) \<and>
    (\<forall>k. if k \<in> fst ` set es then rel_option same (map_of es k) (hashtab_abs h' k) else hashtab_abs h' k = hashtab_abs h0 k)"
  using assms
proof (induction es arbitrary: i pre h0 j)
  case Nil
  then show ?case by (intro exI [of _ "[]"] exI [of _ h0]) simp
next
  case (Cons e es)
  obtain k d where e: "e = (k, d)" by (cases e)
  obtain b where b: "wr (\<lambda>q. w (i # q)) k d = Some b"
    and rest: "hashtab_map_chain (write_apply wr w) es (Suc i, pre @ b) = (0, i', out)"
    using Cons.prems(1) e by (auto simp: write_apply_eq split: option.splits)
  obtain d' where d': "same d d'" "\<And>h rest. rd (\<lambda>_. True) h (b @ rest) = insert_datum True h k d' rest"
    using read_written [OF b] Cons.prems(2) e by auto
  have new: "hashtab_abs h0 k = None" using Cons.prems(4) e by auto
  obtain h1 where h1: "\<And>fp. insert_datum True (Some h0) k d' fp = Some (Some (Some h1, fp))" "hashtab_ok h1"
    "hashtab_abs h1 = (hashtab_abs h0)(k \<mapsto> d')" "nel h1 = nel h0 + 1" "nel_ok h1"
  proof -
    obtain h1 where "insert_datum True (Some h0) k d' [] = Some (Some (Some h1, []))" "hashtab_ok h1"
      "hashtab_abs h1 = (hashtab_abs h0)(k \<mapsto> d')" "nel h1 = nel h0 + 1" "nel_ok h1"
      using insert_datum_new [OF Cons.prems(5) new] Cons.prems(6) by metis
    then show ?thesis using that by (auto simp: insert_datum_def split: bind_splits if_splits)
  qed
  have "\<forall>(k, d)\<in>set es. key_ok k \<and> normal d" "distinct (map fst es)" "fst ` set es \<inter> dom (hashtab_abs h1) = {}"
    using Cons.prems(2-4) e h1(3) by auto
  from Cons.IH [OF rest this h1(2,5), of "Suc j"] obtain bs h' where
    IH: "out = (pre @ b) @ bs" "\<And>rest. read_loop (\<lambda>_. rd (\<lambda>_. True)) (Suc j) (length es) (Some h1) (bs @ rest) = Some (Some (Some h', rest))"
    "hashtab_ok h'" "nel_ok h'" "nel h' = nel h1 + of_nat (length es)"
    "\<And>k. if k \<in> fst ` set es then rel_option same (map_of es k) (hashtab_abs h' k) else hashtab_abs h' k = hashtab_abs h1 k"
    by metis
  have kn: "k \<notin> fst ` set es" using Cons.prems(3) e by simp
  have "rel_option same (map_of (e # es) k') (hashtab_abs h' k')" if "k' \<in> fst ` set (e # es)" for k'
    using IH(6) [of k'] kn that d'(1) h1(3) e by (cases "k' = k") auto
  moreover have "hashtab_abs h' k' = hashtab_abs h0 k'" if "k' \<notin> fst ` set (e # es)" for k'
    using IH(6) [of k'] that h1(3) e by auto
  moreover have "read_loop (\<lambda>_. rd (\<lambda>_. True)) j (length (e # es)) (Some h0) ((b @ bs) @ rest) = Some (Some (Some h', rest))" for rest
    using d'(2) h1(1) IH(2) by simp
  ultimately show ?case using IH(1,3-5) h1(4) by (intro exI [of _ "b @ bs"] exI [of _ h']) (simp add: ac_simps)
qed

lemma read_table:
  assumes w: "write_table w wr (Some h) = Some out" and n: "table_normal normal (Some h)"
    and h0: "hashtab_ok h0" "nel_ok h0" "hashtab_abs h0 = Map.empty" "nel h0 = 0"
  obtains t' where "\<And>rest. read_loop (\<lambda>_. rd (\<lambda>_. True)) 0 (unat (nel h)) (Some h0) (out @ rest) = Some (Some (t', rest))"
    "table_same same (Some h) t'"
proof -
  have ok: "hashtab_ok h" "nel_ok h" "length (concat (htable h)) < 2 ^ 32" "\<And>k d. hashtab_abs h k = Some d \<Longrightarrow> key_ok k \<and> normal d"
    using n by (auto simp: table_normal_def)
  let ?es = "concat (htable h)"
  note es = entries_abs [OF ok(1)]
  obtain i' where "hashtab_map_chain (write_apply wr w) ?es (0, []) = (0, i', out)"
    using w by (auto simp: write_table_def hashtab_map_concat [OF ok(1)] split: prod.splits if_splits)
  moreover have "\<forall>(k, d)\<in>set ?es. key_ok k \<and> normal d" using ok(4) es map_of_is_SomeI by fastforce
  ultimately obtain h' where h': "\<And>rest. read_loop (\<lambda>_. rd (\<lambda>_. True)) 0 (length ?es) (Some h0) (out @ rest) = Some (Some (Some h', rest))"
    "hashtab_ok h'" "nel h' = of_nat (length ?es)"
    "\<And>k. if k \<in> fst ` set ?es then rel_option same (map_of ?es k) (hashtab_abs h' k) else hashtab_abs h' k = None"
    using read_entries [OF _ _ es(1) _ h0(1,2), of w 0 "[]" i' out 0] h0(3,4) by auto
  have "rel_option same (hashtab_abs h k) (hashtab_abs h' k)" for k
    using h'(4) [of k] unfolding es(2) by (auto simp: es(2) [symmetric] map_of_eq_None_iff split: if_splits)
  moreover have nl: "nel h = of_nat (length ?es)" using ok(2) by (simp add: nel_ok_def)
  ultimately have "table_same same (Some h) (Some h')" using ok(1) h'(2,3) by (simp add: table_same_def)
  moreover have "unat (nel h) = length ?es" using nl ok(3) by (simp add: unat_of_nat_u32)
  ultimately show ?thesis using that [of "Some h'"] h'(1) by simp
qed

lemma read_symbols:
  assumes w: "write_symtab w wr s = Some out" and n: "table_normal normal (sym_table s)"
  obtains s' where "\<And>rest. read_symtab (\<lambda>_. True) rd (out @ rest) = Some (Some (s', rest))" "sym_nprim s' = sym_nprim s"
    "table_same same (sym_table s) (sym_table s')"
proof -
  obtain h bs where h: "sym_table s = Some h" "write_table (\<lambda>q. w (1 # q)) wr (Some h) = Some bs"
    "out = concat (map le32 [sym_nprim s, nel h]) @ bs"
    using w by (auto simp: write_symtab_def split: bind_splits if_splits)
  obtain s0 where s0: "symtab_init (\<lambda>_. True) zero_symtab = (0, s0 :: 'd symtab)"
    by (simp add: symtab_init_def hashtab_create_def)
  from symtab_init_ok [OF s0] obtain h0 where h0: "sym_table s0 = Some h0" "hashtab_ok h0" "hashtab_abs h0 = Map.empty" "nel_ok h0"
    by metis
  have "nel h0 = 0" using s0 h0(1) by (auto simp: symtab_init_def hashtab_create_def)
  with read_table [OF h(2) _ h0(2,4,3)] n h(1) obtain t' where
    t': "\<And>rest. read_loop (\<lambda>_. rd (\<lambda>_. True)) 0 (unat (nel h)) (Some h0) (bs @ rest) = Some (Some (t', rest))" "table_same same (Some h) t'"
    by metis
  have f: "fread32s 2 (out @ rest) = Some ([sym_nprim s, nel h], bs @ rest)" for rest
    using fread32s_take [of "[sym_nprim s, nel h]" 2 "bs @ rest"] h(3) by simp
  have "read_symtab (\<lambda>_. True) rd (out @ rest) = Some (Some (\<lparr>sym_table = t', sym_nprim = sym_nprim s\<rparr>, rest))" for rest
    by (simp add: read_symtab_def s0 f h0(1) t'(1))
  then show ?thesis using that [of "\<lparr>sym_table = t', sym_nprim = sym_nprim s\<rparr>"] t'(2) h(1) by simp
qed

end

section \<open>The kinds of symbols\<close>

lemma datum_eta [simp]:
  "\<lparr>pd_value = pd_value d0, base_perms = base_perms d0\<rparr> = d0"
  "\<lparr>rd_value = rd_value d1, dominates = dominates d1, types = types d1\<rparr> = d1"
  "\<lparr>td_value = td_value d2, td_isalias = td_isalias d2\<rparr> = d2"
  "\<lparr>ca_value = ca_value d3, ca_isalias = ca_isalias d3\<rparr> = d3"
  "\<lparr>ld_level = ld_level d4, ld_isalias = ld_isalias d4\<rparr> = d4"
  "\<lparr>ud_value = ud_value d5, roles = roles d5, ranges = ranges d5\<rparr> = d5"
  by simp_all

lemma ucast_up_down [simp]: "ucast (ucast b :: u32) = b" for b :: byte
  by (rule bit_word_eqI) (simp add: bit_simps)

interpretation perm_sym: symbol_codec perm_write perm_read "(=)" "\<lambda>_. True"
  by unfold_locales
    (auto simp: perm_write_def perm_read_def eval_nat_numeral read_write_key split: if_splits)

definition common_same :: "common_datum \<Rightarrow> common_datum \<Rightarrow> bool" where
  "common_same d d' \<longleftrightarrow> cd_value d' = cd_value d \<and> sym_nprim (cd_permissions d') = sym_nprim (cd_permissions d) \<and>
     table_same (=) (sym_table (cd_permissions d)) (sym_table (cd_permissions d'))"

definition common_normal :: "common_datum \<Rightarrow> bool" where
  "common_normal d \<longleftrightarrow> table_normal (\<lambda>_. True) (sym_table (cd_permissions d))"

text \<open>The permissions of a common prefix or of a class.\<close>

lemma read_perms:
  assumes "write_table w perm_write (Some h) = Some out" "table_normal (\<lambda>_. True) (Some h)"
  obtains s0 t' where "symtab_init (\<lambda>_. True) zero_symtab = (0, s0)"
    "\<And>rest. read_loop (\<lambda>_. perm_read (\<lambda>_. True)) 0 (unat (nel h)) (sym_table s0) (out @ rest) = Some (Some (t', rest))"
    "table_same (=) (Some h) t'"
proof -
  obtain s0 where s0: "symtab_init (\<lambda>_. True) zero_symtab = (0, s0 :: perm_datum symtab)"
    by (simp add: symtab_init_def hashtab_create_def)
  from symtab_init_ok [OF s0] obtain h0 where h0: "sym_table s0 = Some h0" "hashtab_ok h0" "hashtab_abs h0 = Map.empty" "nel_ok h0"
    by metis
  have "nel h0 = 0" using s0 h0(1) by (auto simp: symtab_init_def hashtab_create_def)
  with perm_sym.read_table [OF assms h0(2,4,3)] obtain t' where
    "\<And>rest. read_loop (\<lambda>_. perm_read (\<lambda>_. True)) 0 (unat (nel h)) (Some h0) (out @ rest) = Some (Some (t', rest))" "table_same (=) (Some h) t'"
    by metis
  then show ?thesis using that [OF s0] h0(1) by simp
qed

interpretation common_sym: symbol_codec common_write common_read common_same common_normal
proof
  fix w key d out
  assume w: "common_write w key d = Some out" and k: "key_ok key" and n: "common_normal d"
  obtain h ps where h: "sym_table (cd_permissions d) = Some h" "write_table (\<lambda>q. w (2 # q)) perm_write (Some h) = Some ps"
    "out = concat (map le32 [strlen key, cd_value d, sym_nprim (cd_permissions d), nel h]) @ write_key key @ ps"
    using w by (auto simp: common_write_def split: bind_splits if_splits)
  obtain s0 t' where t': "symtab_init (\<lambda>_. True) zero_symtab = (0, s0)"
    "\<And>rest. read_loop (\<lambda>_. perm_read (\<lambda>_. True)) 0 (unat (nel h)) (sym_table s0) (ps @ rest) = Some (Some (t', rest))"
    "table_same (=) (Some h) t'"
    using read_perms [OF h(2)] n h(1) unfolding common_normal_def by metis
  let ?d = "\<lparr>cd_value = cd_value d, cd_permissions = \<lparr>sym_table = t', sym_nprim = sym_nprim (cd_permissions d)\<rparr>\<rparr>"
  have "common_read (\<lambda>_. True) t (out @ rest) = insert_datum True t key ?d rest" for t rest
    using t'(1,2) by (simp add: common_read_def h(3) eval_nat_numeral read_write_key [OF k])
  moreover have "common_same d ?d" using t'(3) h(1) by (simp add: common_same_def)
  ultimately show "\<exists>d'. common_same d d' \<and> (\<forall>h rest. common_read (\<lambda>_. True) h (out @ rest) = insert_datum True h key d' rest)" by blast
qed

definition constraint_ok :: "constraint_node \<Rightarrow> bool" where
  "constraint_ok c \<longleftrightarrow> expr_ok (cn_expr c)"

lemma read_write_constraint:
  assumes "constraint_ok c" "constraint_write w c = Some out"
  shows "constraint_read (\<lambda>_. True) (out @ rest) = Some (Some (c, rest))"
proof -
  obtain b where b: "constraint_expr_write (\<lambda>q. w (1 # q)) (cn_expr c) = Some b" "out = le32 (cn_permissions c) @ b"
    using assms(2) by (auto simp: constraint_write_def split: bind_splits if_splits)
  then show ?thesis using read_write_expr [OF b(1)] assms(1) by (simp add: constraint_read_def constraint_ok_def)
qed

definition class_same :: "class_datum \<Rightarrow> class_datum \<Rightarrow> bool" where
  "class_same d d' \<longleftrightarrow> cl_value d' = cl_value d \<and> comkey d' = comkey d \<and> rel_option common_same (comdatum d) (comdatum d') \<and>
     sym_nprim (cl_permissions d') = sym_nprim (cl_permissions d) \<and>
     table_same (=) (sym_table (cl_permissions d)) (sym_table (cl_permissions d')) \<and>
     constraints d' = constraints d \<and> mlsperms d' = mlsperms d"

text \<open>A class that inherits from a common prefix in the table \<open>commons\<close>.\<close>

definition class_normal :: "common_datum symtab \<Rightarrow> class_datum \<Rightarrow> bool" where
  "class_normal commons d \<longleftrightarrow>
     (case comkey d of
        None \<Rightarrow> comdatum d = None
      | Some ck \<Rightarrow> ck \<noteq> [] \<and> key_ok ck \<and>
          (\<exists>cd cd'. comdatum d = Some cd \<and> hashtab_search (sym_table commons) ck = Some (Some cd') \<and> common_same cd cd')) \<and>
     table_normal (\<lambda>_. True) (sym_table (cl_permissions d)) \<and>
     list_all constraint_ok (constraints d) \<and> length (constraints d) < 2 ^ 32"

lemma read_class_common:
  assumes "class_normal commons d"
  obtains cd' where "rel_option common_same (comdatum d) cd'"
    "\<And>rest. class_read_common True commons (case comkey d of None \<Rightarrow> 0 | Some s \<Rightarrow> strlen s)
       ((case comkey d of None \<Rightarrow> [] | Some s \<Rightarrow> write_key s) @ rest) = Some (Some ((comkey d, cd'), rest))"
proof (cases "comkey d")
  case None
  then show ?thesis using that [of None] assms by (simp add: class_normal_def class_read_common_def)
next
  case (Some ck)
  then obtain cd cd' where cd: "comdatum d = Some cd" "hashtab_search (sym_table commons) ck = Some (Some cd')" "common_same cd cd'"
    and ck: "ck \<noteq> []" "key_ok ck"
    using assms by (auto simp: class_normal_def)
  have "unat (strlen ck) \<noteq> 0" using ck write_key_length [OF ck(2)] by simp
  then have "strlen ck \<noteq> 0" by auto
  then show ?thesis
    using that [of "Some cd'"] cd Some read_write_key [OF ck(2)] by (simp add: class_read_common_def)
qed

interpretation class_sym: symbol_codec class_write "\<lambda>ok. class_read ok commons" class_same "class_normal commons" for commons
proof
  fix w key d out
  assume w: "class_write w key d = Some out" and k: "key_ok key" and n: "class_normal commons d"
  let ?len2 = "case comkey d of None \<Rightarrow> 0 | Some s \<Rightarrow> strlen s" and ?ck = "case comkey d of None \<Rightarrow> [] | Some s \<Rightarrow> write_key s"
  obtain h ck ps cs mp where h: "sym_table (cl_permissions d) = Some h" "write_table (\<lambda>q. w (3 # q)) perm_write (Some h) = Some ps"
    "write_list (\<lambda>i. constraint_write (\<lambda>q. w (4 # i # q))) 0 (constraints d) = Some cs"
    "mls_write_perms (\<lambda>q. w (5 # q)) (mlsperms d) = Some mp"
    and ck: "(case comkey d of None \<Rightarrow> Some [] | Some s \<Rightarrow> if w [2] then Some (write_key s) else None) = Some ck"
    and out: "out = concat (map le32 [strlen key, ?len2, cl_value d,
        sym_nprim (cl_permissions d), nel h, of_nat (length (constraints d))]) @ write_key key @ ck @ ps @ cs @ mp"
    using w unfolding class_write_def Let_def by (auto split: bind_splits if_split_asm)
  have "ck = ?ck" using ck by (auto split: option.splits if_splits)
  note out = out [unfolded this]
  have "table_normal (\<lambda>_. True) (Some h)" using n h(1) by (simp add: class_normal_def)
  then obtain s0 t' where t': "symtab_init (\<lambda>_. True) zero_symtab = (0, s0)"
    "\<And>rest. read_loop (\<lambda>_. perm_read (\<lambda>_. True)) 0 (unat (nel h)) (sym_table s0) (ps @ rest) = Some (Some (t', rest))"
    "table_same (=) (Some h) t'"
    by (rule read_perms [OF h(2)]) (rule that)
  obtain cd' where cd': "rel_option common_same (comdatum d) cd'"
    "\<And>rest. class_read_common True commons (case comkey d of None \<Rightarrow> 0 | Some s \<Rightarrow> strlen s)
       ((case comkey d of None \<Rightarrow> [] | Some s \<Rightarrow> write_key s) @ rest) = Some (Some ((comkey d, cd'), rest))"
    by (rule read_class_common [OF n]) (rule that)
  have cs: "read_list (\<lambda>_. constraint_read (\<lambda>_. True)) 0 (unat (of_nat (length (constraints d)) :: u32)) (cs @ rest) =
      Some (Some (constraints d, rest))" for rest
    using n by (intro read_write_list32 [OF h(3)]) (auto simp: class_normal_def list_all_iff intro: read_write_constraint)
  have mp: "mls_read_perms (mp @ rest) = Some (mlsperms d, rest)" for rest
    using h(4) by (auto simp: mls_write_perms_def mls_read_perms_def eval_nat_numeral split: if_splits)
  let ?d = "\<lparr>cl_value = cl_value d, comkey = comkey d, comdatum = cd', cl_permissions = \<lparr>sym_table = t', sym_nprim = sym_nprim (cl_permissions d)\<rparr>,
    constraints = constraints d, mlsperms = mlsperms d\<rparr>"
  have "class_read (\<lambda>_. True) commons t (out @ rest) = insert_datum True t key ?d rest" for t rest
    using t'(1) by (simp add: class_read_def out eval_nat_numeral read_write_key [OF k] cd'(2) t'(2) cs mp)
  moreover have "class_same d ?d" using t'(3) cd'(1) h(1) by (simp add: class_same_def)
  ultimately show "\<exists>d'. class_same d d' \<and> (\<forall>h rest. class_read (\<lambda>_. True) commons h (out @ rest) = insert_datum True h key d' rest)" by blast
qed

definition role_normal :: "role_datum \<Rightarrow> bool" where
  "role_normal d \<longleftrightarrow> ebitmap_inv (dominates d) \<and> ebitmap_inv (types d)"

interpretation role_sym: symbol_codec role_write role_read "(=)" role_normal
proof
  fix w key d out
  assume w: "role_write w key d = Some out" and k: "key_ok key" and n: "role_normal d"
  obtain b0 b1 where b: "ebitmap_write (\<lambda>i. w [2, i]) (dominates d) = Some b0" "ebitmap_write (\<lambda>i. w [3, i]) (types d) = Some b1"
    "out = concat (map le32 [strlen key, rd_value d]) @ write_key key @ b0 @ b1"
    using w by (auto simp: role_write_def split: bind_splits if_splits)
  have "role_read (\<lambda>_. True) t (out @ rest) = insert_datum True t key d rest" for t rest
    using n read_write_bitmap [OF _ b(1)] read_write_bitmap [OF _ b(2)]
    by (simp add: role_read_def role_normal_def b(3) eval_nat_numeral read_write_key [OF k])
  then show "\<exists>d'. d = d' \<and> (\<forall>h rest. role_read (\<lambda>_. True) h (out @ rest) = insert_datum True h key d' rest)" by blast
qed

interpretation type_sym: symbol_codec type_write type_read "(=)" "\<lambda>_. True"
  by unfold_locales
    (auto simp: type_write_def type_read_def eval_nat_numeral read_write_key split: if_splits)

interpretation cat_sym: symbol_codec cat_write cat_read "(=)" "\<lambda>_. True"
  by unfold_locales
    (auto simp: cat_write_def cat_read_def eval_nat_numeral read_write_key split: if_splits)

definition sens_normal :: "level_datum \<Rightarrow> bool" where
  "sens_normal d \<longleftrightarrow> level_ok (ld_level d)"

interpretation sens_sym: symbol_codec sens_write sens_read "(=)" sens_normal
proof
  fix w key d out
  assume w: "sens_write w key d = Some out" and k: "key_ok key" and n: "sens_normal d"
  obtain l where l: "mls_write_level (\<lambda>q. w (2 # q)) (ld_level d) = Some l"
    "out = concat (map le32 [strlen key, ucast (ld_isalias d)]) @ write_key key @ l"
    using w by (auto simp: sens_write_def split: bind_splits if_splits)
  have "sens_read (\<lambda>_. True) t (out @ rest) = insert_datum True t key d rest" for t rest
    using n read_write_level [OF _ l(1)]
    by (simp add: sens_read_def sens_bad_def sens_normal_def l(2) eval_nat_numeral read_write_key [OF k])
  then show "\<exists>d'. d = d' \<and> (\<forall>h rest. sens_read (\<lambda>_. True) h (out @ rest) = insert_datum True h key d' rest)" by blast
qed

definition user_normal :: "user_datum \<Rightarrow> bool" where
  "user_normal d \<longleftrightarrow> ebitmap_inv (roles d) \<and> list_all range_ok (ranges d) \<and> length (ranges d) < 2 ^ 32"

interpretation user_sym: symbol_codec user_write user_read "(=)" user_normal
proof
  fix w key d out
  assume w: "user_write w key d = Some out" and k: "key_ok key" and n: "user_normal d"
  obtain b rs where b: "ebitmap_write (\<lambda>i. w [2, i]) (roles d) = Some b"
    "write_list (\<lambda>i. mls_write_range (\<lambda>q. w (4 # i # q))) 0 (ranges d) = Some rs"
    "out = concat (map le32 [strlen key, ud_value d]) @ write_key key @ b @ le32 (of_nat (length (ranges d))) @ rs"
    using w by (auto simp: user_write_def split: bind_splits if_splits)
  have rs: "read_list (\<lambda>_. user_read_range (\<lambda>_. True)) 0 (unat (of_nat (length (ranges d)) :: u32)) (rs @ rest) =
      Some (Some (ranges d, rest))" for rest
    using n by (intro read_write_list32 [OF b(2)]) (auto simp: user_normal_def list_all_iff user_read_range_def read_write_range)
  have "ebitmap_inv (roles d)" using n by (simp add: user_normal_def)
  note e = read_write_bitmap [OF this b(1)]
  have "user_read (\<lambda>_. True) t (out @ rest) = insert_datum True t key d rest" for t rest
    by (simp add: user_read_def b(3) eval_nat_numeral read_write_key [OF k] e rs)
  then show "\<exists>d'. d = d' \<and> (\<forall>h rest. user_read (\<lambda>_. True) h (out @ rest) = insert_datum True h key d' rest)" by blast
qed

end
