(* ===== verification/Policydb_Index.thy ===== *)
theory Policydb_Index
  imports Policydb_Symbols
begin

text \<open>
  The arrays indexed by value.  An array indexes a table if its element number \<open>v - 1\<close> is what
  the entry with value \<open>v\<close> contributes, and the index functions build such arrays when no two entries that
  are not aliases have the same value and every value is in range.
\<close>

section \<open>Arrays and tables\<close>

definition indexes :: "(string \<Rightarrow> 'd option) \<Rightarrow> ('d \<Rightarrow> bool) \<Rightarrow> ('d \<Rightarrow> u32) \<Rightarrow> (string \<Rightarrow> 'd \<Rightarrow> 'x) \<Rightarrow> u32 \<Rightarrow> 'x option list \<Rightarrow> bool" where
  "indexes m pr v f n arr \<longleftrightarrow> length arr = unat n \<and>
     (\<forall>i<length arr. \<forall>x. arr ! i = Some x \<longleftrightarrow> (\<exists>k d. m k = Some d \<and> pr d \<and> unat (v d - 1) = i \<and> x = f k d))"

definition values_ok :: "(string \<Rightarrow> 'd option) \<Rightarrow> ('d \<Rightarrow> bool) \<Rightarrow> ('d \<Rightarrow> u32) \<Rightarrow> u32 \<Rightarrow> bool" where
  "values_ok m pr v n \<longleftrightarrow> unat n < 2 ^ 30 \<and>
     (\<forall>k d. m k = Some d \<and> pr d \<longrightarrow> unat (v d - 1) < unat n) \<and>
     (\<forall>k k' d d'. m k = Some d \<and> m k' = Some d' \<and> pr d \<and> pr d' \<and> v d = v d' \<longrightarrow> k = k')"

fun index_fold :: "('d \<Rightarrow> bool) \<Rightarrow> ('d \<Rightarrow> u32) \<Rightarrow> (string \<Rightarrow> 'd \<Rightarrow> 'x) \<Rightarrow> (string \<times> 'd) list \<Rightarrow> 'x option list \<Rightarrow> 'x option list option" where
  "index_fold pr v f [] arr = Some arr"
| "index_fold pr v f ((k, d) # es) arr = do {
     arr \<leftarrow> (if pr d then store arr (v d) (f k d) else Some arr);
     index_fold pr v f es arr
   }"

lemma ptr_array_length: "unat n < 2 ^ 30 \<Longrightarrow> length (ptr_array n) = unat n"
  by (simp add: ptr_array_def unat_word_ariths)

lemma ptr_array_nth: "i < length (ptr_array n) \<Longrightarrow> ptr_array n ! i = None"
  by (simp add: ptr_array_def)

lemma index_fold_spec:
  assumes "distinct (map fst es)" "\<forall>(k, d)\<in>set es. pr d \<longrightarrow> unat (v d - 1) < length arr"
    "\<forall>(k, d)\<in>set es. \<forall>(k', d')\<in>set es. pr d \<and> pr d' \<and> v d = v d' \<longrightarrow> k = k'"
  shows "\<exists>arr'. index_fold pr v f es arr = Some arr' \<and> length arr' = length arr \<and>
    (\<forall>i<length arr. \<forall>x. arr' ! i = Some x \<longleftrightarrow> (\<exists>(k, d)\<in>set es. pr d \<and> unat (v d - 1) = i \<and> x = f k d) \<or>
       arr ! i = Some x \<and> \<not> (\<exists>(k, d)\<in>set es. pr d \<and> unat (v d - 1) = i))"
  using assms
proof (induction es arbitrary: arr)
  case (Cons e es)
  obtain k d where e: "e = (k, d)" by (cases e)
  let ?arr = "if pr d then arr[unat (v d - 1) := Some (f k d)] else arr"
  have st: "(if pr d then store arr (v d) (f k d) else Some arr) = Some ?arr" using Cons.prems(2) e by (simp add: store_def)
  have "distinct (map fst es)" "\<forall>(k, d)\<in>set es. pr d \<longrightarrow> unat (v d - 1) < length ?arr"
    "\<forall>(k, d)\<in>set es. \<forall>(k', d')\<in>set es. pr d \<and> pr d' \<and> v d = v d' \<longrightarrow> k = k'"
    using Cons.prems e by auto
  from Cons.IH [OF this] obtain arr' where IH: "index_fold pr v f es ?arr = Some arr'" "length arr' = length arr"
    "\<And>i x. i < length arr \<Longrightarrow> arr' ! i = Some x \<longleftrightarrow> (\<exists>(k, d)\<in>set es. pr d \<and> unat (v d - 1) = i \<and> x = f k d) \<or>
       ?arr ! i = Some x \<and> \<not> (\<exists>(k, d)\<in>set es. pr d \<and> unat (v d - 1) = i)" by auto
  have other: "\<not> (\<exists>(k', d')\<in>set es. pr d' \<and> unat (v d' - 1) = unat (v d - 1))" if "pr d"
  proof
    assume "\<exists>(k', d')\<in>set es. pr d' \<and> unat (v d' - 1) = unat (v d - 1)"
    then obtain k' d' where kd: "(k', d') \<in> set es" "pr d'" "unat (v d' - 1) = unat (v d - 1)" by auto
    then have "v d' - 1 = v d - 1" by (simp add: unsigned_word_eqI)
    then have "v d' = v d" by simp
    then have "k = k'" using Cons.prems(3) kd(1,2) e that by fastforce
    then show False using Cons.prems(1) kd(1) e by (force simp: image_iff)
  qed
  have "arr' ! i = Some x \<longleftrightarrow> (\<exists>(k, d)\<in>set (e # es). pr d \<and> unat (v d - 1) = i \<and> x = f k d) \<or>
       arr ! i = Some x \<and> \<not> (\<exists>(k, d)\<in>set (e # es). pr d \<and> unat (v d - 1) = i)" if i: "i < length arr" for i x
  proof (cases "pr d \<and> unat (v d - 1) = i")
    case True
    then have "?arr ! i = Some (f k d)" using i by simp
    then show ?thesis using IH(3) [OF i, of x] other True e by auto
  next
    case False
    then have "?arr ! i = arr ! i" by auto
    then show ?thesis using IH(3) [OF i, of x] False e by auto
  qed
  then show ?case using st IH(1,2) e by auto
qed auto

lemma index_table:
  fixes f :: "string \<Rightarrow> 'd \<Rightarrow> 'x"
  assumes h: "hashtab_ok h" and v: "values_ok (hashtab_abs h) pr v n"
  obtains arr where "index_fold pr v f (concat (htable h)) (ptr_array n) = Some arr" "indexes (hashtab_abs h) pr v f n arr"
proof -
  let ?es = "concat (htable h)"
  note es = entries_abs [OF h]
  have mem: "(k, d) \<in> set ?es \<longleftrightarrow> hashtab_abs h k = Some d" for k d
    using es map_of_eq_Some_iff [OF es(1)] by metis
  have n: "length (ptr_array n :: 'x option list) = unat n" using ptr_array_length v by (auto simp: values_ok_def)
  have "\<forall>(k, d)\<in>set ?es. pr d \<longrightarrow> unat (v d - 1) < length (ptr_array n :: 'x option list)"
    "\<forall>(k, d)\<in>set ?es. \<forall>(k', d')\<in>set ?es. pr d \<and> pr d' \<and> v d = v d' \<longrightarrow> k = k'"
    using v unfolding values_ok_def n by (auto simp: mem simp del: set_concat)
  moreover have z: "ptr_array n ! i = (None :: 'x option)" if "i < unat n" for i
    using that n ptr_array_nth [of i n, where 'a = 'x] by simp
  ultimately have "\<exists>arr. index_fold pr v f ?es (ptr_array n) = Some arr \<and> length arr = unat n \<and>
      (\<forall>i<unat n. \<forall>x. arr ! i = Some x \<longleftrightarrow> (\<exists>(k, d)\<in>set ?es. pr d \<and> unat (v d - 1) = i \<and> x = f k d))"
    using index_fold_spec [OF es(1), of pr v "ptr_array n" f] n by (simp del: set_concat)
  then obtain arr where arr: "index_fold pr v f ?es (ptr_array n) = Some arr" "length arr = unat n"
    "\<And>i x. i < unat n \<Longrightarrow> arr ! i = Some x \<longleftrightarrow> (\<exists>(k, d)\<in>set ?es. pr d \<and> unat (v d - 1) = i \<and> x = f k d)"
    by blast
  have "indexes (hashtab_abs h) pr v f n arr" unfolding indexes_def using arr(2,3) mem by fastforce
  then show ?thesis using that arr(1) by blast
qed

text \<open>Tables with the same entries have the same arrays.\<close>

lemma indexes_same:
  assumes "indexes m pr v f n arr" "indexes m' pr v f' n arr'" "\<And>k. rel_option same (m k) (m' k)"
    "\<And>d d'. same d d' \<Longrightarrow> pr d' = pr d \<and> v d' = v d" "\<And>k d d'. same d d' \<Longrightarrow> R (f k d) (f' k d')"
    "values_ok m pr v n"
  shows "list_all2 (rel_option R) arr arr'"
proof (rule list_all2_all_nthI)
  show "length arr = length arr'" using assms(1,2) by (simp add: indexes_def)
  fix i assume i: "i < length arr"
  then have i': "i < length arr'" using assms(1,2) by (simp add: indexes_def)
  have a: "arr ! i = Some x \<longleftrightarrow> (\<exists>k d. m k = Some d \<and> pr d \<and> unat (v d - 1) = i \<and> x = f k d)" for x
    using assms(1) i by (simp add: indexes_def)
  have a': "arr' ! i = Some x \<longleftrightarrow> (\<exists>k d. m' k = Some d \<and> pr d \<and> unat (v d - 1) = i \<and> x = f' k d)" for x
    using assms(2) i' by (simp add: indexes_def)
  show "rel_option R (arr ! i) (arr' ! i)"
  proof (cases "arr ! i")
    case None
    have "arr' ! i = None"
    proof (rule ccontr)
      assume "arr' ! i \<noteq> None"
      then obtain k d' where k: "m' k = Some d'" "pr d'" "unat (v d' - 1) = i" using a' by auto
      then obtain d where "m k = Some d" "same d d'" using assms(3) [of k] by (cases "m k") auto
      then have "arr ! i = Some (f k d)" using a k assms(4) by metis
      then show False using None by simp
    qed
    then show ?thesis using None by simp
  next
    case (Some x)
    then obtain k d where k: "m k = Some d" "pr d" "unat (v d - 1) = i" "x = f k d" using a by blast
    then obtain d' where d': "m' k = Some d'" "same d d'" using assms(3) [of k] by (cases "m' k") auto
    then have "arr' ! i = Some (f' k d')" using a' k assms(4) by metis
    then show ?thesis using Some k(4) assms(5) [OF d'(2)] by simp
  qed
qed

lemma indexes_eq:
  assumes "indexes m pr v f n arr" "indexes m' pr v f n arr'" "\<And>k. rel_option same (m k) (m' k)"
    "\<And>d d'. same d d' \<Longrightarrow> pr d' = pr d \<and> v d' = v d" "\<And>k d d'. same d d' \<Longrightarrow> f k d = f k d'"
    "values_ok m pr v n"
  shows "arr' = arr"
proof -
  have "list_all2 (rel_option (=)) arr arr'" by (rule indexes_same [OF assms(1,2), where same = same]) (use assms(3-6) in auto)
  then show ?thesis by (simp add: option.rel_eq list.rel_eq)
qed

lemma values_same:
  assumes "values_ok m pr v n" "\<And>k. rel_option same (m k) (m' k)" "\<And>d d'. same d d' \<Longrightarrow> pr d' = pr d \<and> v d' = v d"
  shows "values_ok m' pr v n"
proof -
  have orig: "\<exists>d. m k = Some d \<and> pr d = pr d' \<and> v d = v d'" if "m' k = Some d'" for k d'
    using assms(2) [of k] assms(3) that by (cases "m k") auto
  show ?thesis unfolding values_ok_def
  proof (intro conjI allI impI)
    show "unat n < 2 ^ 30" using assms(1) by (simp add: values_ok_def)
    show "unat (v d - 1) < unat n" if "m' k = Some d \<and> pr d" for k d
      using orig [of k d] that assms(1) unfolding values_ok_def by metis
    show "k = k'" if "m' k = Some d \<and> m' k' = Some d' \<and> pr d \<and> pr d' \<and> v d = v d'" for k k' d d'
      using orig [of k d] orig [of k' d'] that assms(1) unfolding values_ok_def by metis
  qed
qed

section \<open>The index functions\<close>

abbreviation all_of :: "'d \<Rightarrow> bool" where
  "all_of \<equiv> \<lambda>_. True"

abbreviation name_of :: "string \<Rightarrow> 'd \<Rightarrow> string" where
  "name_of \<equiv> \<lambda>k _. k"

abbreviation self_of :: "string \<Rightarrow> 'd \<Rightarrow> 'd" where
  "self_of \<equiv> \<lambda>_ d. d"

lemma run_index_walk:
  "hashtab_ok h \<Longrightarrow> sym_table s = Some h \<Longrightarrow>
   run_index s f p = (case hashtab_map_chain f (concat (htable h)) (Some p) of (r, p') \<Rightarrow> map_option (Pair (r = 0)) p')"
  by (simp add: run_index_def hashtab_map_concat)

lemma common_index_walk:
  "hashtab_map_chain common_index es p = (0, do {p \<leftarrow> p; xs \<leftarrow> index_fold all_of cd_value name_of es (p_common_val_to_name p); Some (p\<lparr>p_common_val_to_name := xs\<rparr>)})"
  by (induction es arbitrary: p) (auto simp: common_index_def split: bind_splits option.splits)

lemma class_index_walk:
  "hashtab_map_chain class_index es p = (0, do {p \<leftarrow> p; xs \<leftarrow> index_fold all_of cl_value name_of es (p_class_val_to_name p);
     ys \<leftarrow> index_fold all_of cl_value self_of es (class_val_to_struct p); Some (p\<lparr>p_class_val_to_name := xs, class_val_to_struct := ys\<rparr>)})"
  by (induction es arbitrary: p) (auto simp: class_index_def split: bind_splits option.splits)

lemma role_index_walk:
  "hashtab_map_chain role_index es p = (0, do {p \<leftarrow> p; xs \<leftarrow> index_fold all_of rd_value name_of es (p_role_val_to_name p);
     ys \<leftarrow> index_fold all_of rd_value self_of es (role_val_to_struct p); Some (p\<lparr>p_role_val_to_name := xs, role_val_to_struct := ys\<rparr>)})"
  by (induction es arbitrary: p) (auto simp: role_index_def split: bind_splits option.splits)

lemma user_index_walk:
  "hashtab_map_chain user_index es p = (0, do {p \<leftarrow> p; xs \<leftarrow> index_fold all_of ud_value name_of es (p_user_val_to_name p);
     ys \<leftarrow> index_fold all_of ud_value self_of es (user_val_to_struct p); Some (p\<lparr>p_user_val_to_name := xs, user_val_to_struct := ys\<rparr>)})"
  by (induction es arbitrary: p) (auto simp: user_index_def split: bind_splits option.splits)

lemma type_index_walk:
  "hashtab_map_chain type_index es p = (0, do {p \<leftarrow> p; xs \<leftarrow> index_fold (\<lambda>d. td_isalias d = 0) td_value name_of es (p_type_val_to_name p);
     Some (p\<lparr>p_type_val_to_name := xs\<rparr>)})"
  by (induction es arbitrary: p) (auto simp: type_index_def split: bind_splits if_splits)

lemma sens_index_walk:
  "hashtab_map_chain sens_index es p = (0, do {p \<leftarrow> p; xs \<leftarrow> index_fold (\<lambda>d. ld_isalias d = 0) (\<lambda>d. sens (ld_level d)) name_of es (p_sens_val_to_name p);
     Some (p\<lparr>p_sens_val_to_name := xs\<rparr>)})"
  by (induction es arbitrary: p) (auto simp: sens_index_def split: bind_splits if_splits)

lemma cat_index_walk:
  "hashtab_map_chain cat_index es p = (0, do {p \<leftarrow> p; xs \<leftarrow> index_fold (\<lambda>d. ca_isalias d = 0) ca_value name_of es (p_cat_val_to_name p);
     Some (p\<lparr>p_cat_val_to_name := xs\<rparr>)})"
  by (induction es arbitrary: p) (auto simp: cat_index_def split: bind_splits if_splits)

section \<open>All symbol tables\<close>

definition sym_abs :: "'d symtab \<Rightarrow> string \<Rightarrow> 'd option" where
  "sym_abs s = (case sym_table s of None \<Rightarrow> Map.empty | Some h \<Rightarrow> hashtab_abs h)"

definition sym_valued :: "('d \<Rightarrow> bool) \<Rightarrow> ('d \<Rightarrow> u32) \<Rightarrow> 'd symtab \<Rightarrow> bool" where
  "sym_valued pr v s \<longleftrightarrow> (\<exists>h. sym_table s = Some h \<and> hashtab_ok h) \<and> values_ok (sym_abs s) pr v (sym_nprim s)"

definition sym_indexes :: "('d \<Rightarrow> bool) \<Rightarrow> ('d \<Rightarrow> u32) \<Rightarrow> (string \<Rightarrow> 'd \<Rightarrow> 'x) \<Rightarrow> 'd symtab \<Rightarrow> 'x option list \<Rightarrow> bool" where
  "sym_indexes pr v f s arr \<longleftrightarrow> indexes (sym_abs s) pr v f (sym_nprim s) arr"

lemma index_symtab:
  assumes "sym_valued pr v s"
  obtains h arr where "sym_table s = Some h" "hashtab_ok h" "index_fold pr v f (concat (htable h)) (ptr_array (sym_nprim s)) = Some arr"
    "sym_indexes pr v f s arr"
proof -
  obtain h where h: "sym_table s = Some h" "hashtab_ok h" using assms by (auto simp: sym_valued_def)
  then have "values_ok (hashtab_abs h) pr v (sym_nprim s)" using assms by (simp add: sym_valued_def sym_abs_def)
  from index_table [OF h(2) this, of f] show ?thesis using that h by (metis sym_indexes_def sym_abs_def option.simps(5))
qed

definition policydb_valued :: "policydb \<Rightarrow> bool" where
  "policydb_valued p \<longleftrightarrow>
     sym_valued all_of cd_value (p_commons p) \<and> sym_valued all_of cl_value (p_classes p) \<and>
     sym_valued all_of rd_value (p_roles p) \<and> sym_valued (\<lambda>d. td_isalias d = 0) td_value (p_types p) \<and>
     sym_valued all_of ud_value (p_users p) \<and> sym_valued (\<lambda>d. ld_isalias d = 0) (\<lambda>d. sens (ld_level d)) (p_levels p) \<and>
     sym_valued (\<lambda>d. ca_isalias d = 0) ca_value (p_cats p)"

definition policydb_indexed :: "policydb \<Rightarrow> bool" where
  "policydb_indexed p \<longleftrightarrow>
     sym_indexes all_of cd_value name_of (p_commons p) (p_common_val_to_name p) \<and>
     sym_indexes all_of cl_value name_of (p_classes p) (p_class_val_to_name p) \<and>
     sym_indexes all_of cl_value self_of (p_classes p) (class_val_to_struct p) \<and>
     sym_indexes all_of rd_value name_of (p_roles p) (p_role_val_to_name p) \<and>
     sym_indexes all_of rd_value self_of (p_roles p) (role_val_to_struct p) \<and>
     sym_indexes (\<lambda>d. td_isalias d = 0) td_value name_of (p_types p) (p_type_val_to_name p) \<and>
     sym_indexes all_of ud_value name_of (p_users p) (p_user_val_to_name p) \<and>
     sym_indexes all_of ud_value self_of (p_users p) (user_val_to_struct p) \<and>
     sym_indexes (\<lambda>d. ld_isalias d = 0) (\<lambda>d. sens (ld_level d)) name_of (p_levels p) (p_sens_val_to_name p) \<and>
     sym_indexes (\<lambda>d. ca_isalias d = 0) ca_value name_of (p_cats p) (p_cat_val_to_name p)"

lemma index_classes:
  assumes "policydb_valued p"
  obtains a0 a1 s1 where "policydb_index_classes (\<lambda>_. True) p =
      Some (True, p\<lparr>p_common_val_to_name := a0, class_val_to_struct := s1, p_class_val_to_name := a1\<rparr>)"
    "sym_indexes all_of cd_value name_of (p_commons p) a0" "sym_indexes all_of cl_value name_of (p_classes p) a1"
    "sym_indexes all_of cl_value self_of (p_classes p) s1"
proof -
  have v: "sym_valued all_of cd_value (p_commons p)" "sym_valued all_of cl_value (p_classes p)" using assms by (simp_all add: policydb_valued_def)
  obtain h0 a0 where 0: "sym_table (p_commons p) = Some h0" "hashtab_ok h0"
    "index_fold all_of cd_value name_of (concat (htable h0)) (ptr_array (sym_nprim (p_commons p))) = Some a0"
    "sym_indexes all_of cd_value name_of (p_commons p) a0" by (rule index_symtab [OF v(1)])
  obtain h1 a1 where 1: "sym_table (p_classes p) = Some h1" "hashtab_ok h1"
    "index_fold all_of cl_value name_of (concat (htable h1)) (ptr_array (sym_nprim (p_classes p))) = Some a1"
    "sym_indexes all_of cl_value name_of (p_classes p) a1" by (rule index_symtab [OF v(2)])
  obtain h2 s1 where "sym_table (p_classes p) = Some h2"
    "index_fold all_of cl_value self_of (concat (htable h2)) (ptr_array (sym_nprim (p_classes p))) = Some s1"
    "sym_indexes all_of cl_value self_of (p_classes p) s1" by (rule index_symtab [OF v(2)])
  then have 2: "index_fold all_of cl_value self_of (concat (htable h1)) (ptr_array (sym_nprim (p_classes p))) = Some s1"
    "sym_indexes all_of cl_value self_of (p_classes p) s1" using 1(1) by auto
  have "policydb_index_classes (\<lambda>_. True) p =
      Some (True, p\<lparr>p_common_val_to_name := a0, class_val_to_struct := s1, p_class_val_to_name := a1\<rparr>)"
    by (simp add: policydb_index_classes_def run_index_walk [OF 0(2,1)] run_index_walk [OF 1(2,1)] common_index_walk class_index_walk
      0(3) 1(3) 2(1))
  then show ?thesis using that 0(4) 1(4) 2(2) by blast
qed

lemma index_others:
  assumes "policydb_valued p"
  obtains a2 s2 a3 a4 s4 a5 a6 where "policydb_index_others (\<lambda>_. True) p =
      Some (True, p\<lparr>role_val_to_struct := s2, user_val_to_struct := s4, p_role_val_to_name := a2, p_type_val_to_name := a3,
        p_user_val_to_name := a4, p_sens_val_to_name := a5, p_cat_val_to_name := a6\<rparr>)"
    "sym_indexes all_of rd_value name_of (p_roles p) a2" "sym_indexes all_of rd_value self_of (p_roles p) s2"
    "sym_indexes (\<lambda>d. td_isalias d = 0) td_value name_of (p_types p) a3"
    "sym_indexes all_of ud_value name_of (p_users p) a4" "sym_indexes all_of ud_value self_of (p_users p) s4"
    "sym_indexes (\<lambda>d. ld_isalias d = 0) (\<lambda>d. sens (ld_level d)) name_of (p_levels p) a5"
    "sym_indexes (\<lambda>d. ca_isalias d = 0) ca_value name_of (p_cats p) a6"
proof -
  have v: "sym_valued all_of rd_value (p_roles p)" "sym_valued (\<lambda>d. td_isalias d = 0) td_value (p_types p)"
     "sym_valued all_of ud_value (p_users p)" "sym_valued (\<lambda>d. ld_isalias d = 0) (\<lambda>d. sens (ld_level d)) (p_levels p)"
     "sym_valued (\<lambda>d. ca_isalias d = 0) ca_value (p_cats p)" using assms by (simp_all add: policydb_valued_def)
  obtain h2 a2 where 2: "sym_table (p_roles p) = Some h2" "hashtab_ok h2"
    "index_fold all_of rd_value name_of (concat (htable h2)) (ptr_array (sym_nprim (p_roles p))) = Some a2"
    "sym_indexes all_of rd_value name_of (p_roles p) a2" by (rule index_symtab [OF v(1)])
  obtain h2' s2 where "sym_table (p_roles p) = Some h2'"
    "index_fold all_of rd_value self_of (concat (htable h2')) (ptr_array (sym_nprim (p_roles p))) = Some s2"
    "sym_indexes all_of rd_value self_of (p_roles p) s2" by (rule index_symtab [OF v(1)])
  then have S2: "index_fold all_of rd_value self_of (concat (htable h2)) (ptr_array (sym_nprim (p_roles p))) = Some s2"
    "sym_indexes all_of rd_value self_of (p_roles p) s2" using 2(1) by auto
  obtain h3 a3 where 3: "sym_table (p_types p) = Some h3" "hashtab_ok h3"
    "index_fold (\<lambda>d. td_isalias d = 0) td_value name_of (concat (htable h3)) (ptr_array (sym_nprim (p_types p))) = Some a3"
    "sym_indexes (\<lambda>d. td_isalias d = 0) td_value name_of (p_types p) a3" by (rule index_symtab [OF v(2)])
  obtain h4 a4 where 4: "sym_table (p_users p) = Some h4" "hashtab_ok h4"
    "index_fold all_of ud_value name_of (concat (htable h4)) (ptr_array (sym_nprim (p_users p))) = Some a4"
    "sym_indexes all_of ud_value name_of (p_users p) a4" by (rule index_symtab [OF v(3)])
  obtain h4' s4 where "sym_table (p_users p) = Some h4'"
    "index_fold all_of ud_value self_of (concat (htable h4')) (ptr_array (sym_nprim (p_users p))) = Some s4"
    "sym_indexes all_of ud_value self_of (p_users p) s4" by (rule index_symtab [OF v(3)])
  then have S4: "index_fold all_of ud_value self_of (concat (htable h4)) (ptr_array (sym_nprim (p_users p))) = Some s4"
    "sym_indexes all_of ud_value self_of (p_users p) s4" using 4(1) by auto
  obtain h5 a5 where 5: "sym_table (p_levels p) = Some h5" "hashtab_ok h5"
    "index_fold (\<lambda>d. ld_isalias d = 0) (\<lambda>d. sens (ld_level d)) name_of (concat (htable h5)) (ptr_array (sym_nprim (p_levels p))) = Some a5"
    "sym_indexes (\<lambda>d. ld_isalias d = 0) (\<lambda>d. sens (ld_level d)) name_of (p_levels p) a5" by (rule index_symtab [OF v(4)])
  obtain h6 a6 where 6: "sym_table (p_cats p) = Some h6" "hashtab_ok h6"
    "index_fold (\<lambda>d. ca_isalias d = 0) ca_value name_of (concat (htable h6)) (ptr_array (sym_nprim (p_cats p))) = Some a6"
    "sym_indexes (\<lambda>d. ca_isalias d = 0) ca_value name_of (p_cats p) a6" by (rule index_symtab [OF v(5)])
  have "policydb_index_others (\<lambda>_. True) p =
      Some (True, p\<lparr>role_val_to_struct := s2, user_val_to_struct := s4, p_role_val_to_name := a2, p_type_val_to_name := a3,
        p_user_val_to_name := a4, p_sens_val_to_name := a5, p_cat_val_to_name := a6\<rparr>)"
    by (simp add: policydb_index_others_def run_index_walk [OF 2(2,1)] run_index_walk [OF 3(2,1)] run_index_walk [OF 4(2,1)]
      run_index_walk [OF 5(2,1)] run_index_walk [OF 6(2,1)] role_index_walk type_index_walk user_index_walk sens_index_walk cat_index_walk
      2(3) S2(1) 3(3) 4(3) S4(1) 5(3) 6(3))
  then show ?thesis using that 2(4) S2(2) 3(4) 4(4) S4(2) 5(4) 6(4) by blast
qed

lemma index_symtabs_spec:
  assumes "policydb_valued p"
  obtains a0 a1 s1 a2 s2 a3 a4 s4 a5 a6 where "index_symtabs (\<lambda>_. True) p =
      Some (Some (p\<lparr>p_common_val_to_name := a0, class_val_to_struct := s1, p_class_val_to_name := a1,
        role_val_to_struct := s2, user_val_to_struct := s4, p_role_val_to_name := a2, p_type_val_to_name := a3,
        p_user_val_to_name := a4, p_sens_val_to_name := a5, p_cat_val_to_name := a6\<rparr>))"
    "policydb_indexed (p\<lparr>p_common_val_to_name := a0, class_val_to_struct := s1, p_class_val_to_name := a1,
        role_val_to_struct := s2, user_val_to_struct := s4, p_role_val_to_name := a2, p_type_val_to_name := a3,
        p_user_val_to_name := a4, p_sens_val_to_name := a5, p_cat_val_to_name := a6\<rparr>)"
proof -
  obtain a0 a1 s1 where 1: "policydb_index_classes (\<lambda>_. True) p =
      Some (True, p\<lparr>p_common_val_to_name := a0, class_val_to_struct := s1, p_class_val_to_name := a1\<rparr>)"
    "sym_indexes all_of cd_value name_of (p_commons p) a0" "sym_indexes all_of cl_value name_of (p_classes p) a1"
    "sym_indexes all_of cl_value self_of (p_classes p) s1"
    by (rule index_classes [OF assms])
  let ?p = "p\<lparr>p_common_val_to_name := a0, class_val_to_struct := s1, p_class_val_to_name := a1\<rparr>"
  have v: "policydb_valued ?p" using assms by (simp add: policydb_valued_def)
  show ?thesis
    by (rule index_others [OF v], rule that) (use 1 in \<open>auto simp: index_symtabs_def policydb_indexed_def\<close>)
qed

end
