(* ===== verification/Policydb_Roundtrip.thy ===== *)
theory Policydb_Roundtrip
  imports Policydb_Index
begin

text \<open>
  A whole policy database, written and read back.
\<close>

section \<open>Contexts\<close>

definition context_normal :: "policydb \<Rightarrow> context_struct \<Rightarrow> bool" where
  "context_normal p c \<longleftrightarrow> range_ok (c_range c) \<and> policydb_context_isvalid p c = Some True"

lemma read_write_context:
  assumes "context_normal p c" "context_write w c = Some out"
  shows "context_read_and_validate (\<lambda>_. True) p (out @ rest) = Some (Some (c, rest))"
proof -
  obtain r where r: "mls_write_range (\<lambda>q. w (1 # q)) (c_range c) = Some r" "out = concat (map le32 [c_user c, c_role c, c_type c]) @ r"
    using assms(2) by (auto simp: context_write_def split: bind_splits if_splits)
  have "mls_read_range (\<lambda>_. True) (r @ rest) = Some (c_range c, rest)"
    using read_write_range [OF _ r(1)] assms(1) by (simp add: context_normal_def)
  then show ?thesis
    using assms(1) by (cases c) (simp add: r(2) context_read_and_validate_def context_normal_def eval_nat_numeral Let_def)
qed

definition isid_kept :: "ocontext \<Rightarrow> ocontext" where
  "isid_kept c = zero_ocontext\<lparr>oc_sid0 := oc_sid0 c, oc_context0 := oc_context0 c\<rparr>"

definition named_kept :: "ocontext \<Rightarrow> ocontext" where
  "named_kept c = zero_ocontext\<lparr>oc_u := oc_u c, oc_context0 := oc_context0 c, oc_context1 := oc_context1 c\<rparr>"

definition other_kept :: "ocontext \<Rightarrow> ocontext" where
  "other_kept c = zero_ocontext\<lparr>oc_u := oc_u c, oc_context0 := oc_context0 c\<rparr>"

definition isid_normal :: "policydb \<Rightarrow> ocontext \<Rightarrow> bool" where
  "isid_normal p c \<longleftrightarrow> context_normal p (oc_context0 c)"

definition named_normal :: "policydb \<Rightarrow> ocontext \<Rightarrow> bool" where
  "named_normal p c \<longleftrightarrow> context_normal p (oc_context0 c) \<and> context_normal p (oc_context1 c) \<and>
     (\<exists>name. oc_u c = OName name \<and> key_ok name)"

definition port_normal :: "policydb \<Rightarrow> ocontext \<Rightarrow> bool" where
  "port_normal p c \<longleftrightarrow> context_normal p (oc_context0 c) \<and> (\<exists>protocol low high. oc_u c = OPort protocol low high)"

definition node_normal :: "policydb \<Rightarrow> ocontext \<Rightarrow> bool" where
  "node_normal p c \<longleftrightarrow> context_normal p (oc_context0 c) \<and> (\<exists>addr msk. oc_u c = ONode addr msk)"

lemma read_write_isid:
  assumes "isid_normal p c" "write_isid w c = Some out"
  shows "read_isid (\<lambda>_. True) p (out @ rest) = Some (Some (isid_kept c, rest))"
proof -
  obtain b where b: "context_write (\<lambda>q. w (1 # q)) (oc_context0 c) = Some b" "out = le32 (oc_sid0 c) @ b"
    using assms(2) by (auto simp: write_isid_def split: bind_splits if_splits)
  show ?thesis using read_write_context [OF _ b(1)] assms(1) by (simp add: b(2) read_isid_def isid_normal_def isid_kept_def)
qed

lemma read_write_named:
  assumes "named_normal p c" "write_named w c = Some out"
  shows "read_named (\<lambda>_. True) p (out @ rest) = Some (Some (named_kept c, rest))"
proof -
  obtain name b0 b1 where b: "oc_u c = OName name" "context_write (\<lambda>q. w (2 # q)) (oc_context0 c) = Some b0"
    "context_write (\<lambda>q. w (3 # q)) (oc_context1 c) = Some b1" "out = le32 (strlen name) @ write_key name @ b0 @ b1"
    using assms(2) by (auto simp: write_named_def split: bind_splits if_splits ocontext_u.splits)
  have "key_ok name" using assms(1) b(1) by (simp add: named_normal_def)
  then show ?thesis using read_write_context [OF _ b(2)] read_write_context [OF _ b(3)] read_write_key assms(1)
    by (simp add: b(1,4) read_named_def named_normal_def named_kept_def)
qed

lemma ucast_port [simp]: "ucast (ucast b :: u32) = b" for b :: "16 word"
  by (rule bit_word_eqI) (simp add: bit_simps)

lemma read_write_port:
  assumes "port_normal p c" "write_port w c = Some out"
  shows "read_port (\<lambda>_. True) p (out @ rest) = Some (Some (other_kept c, rest))"
proof -
  obtain pr l h b where b: "oc_u c = OPort pr l h" "context_write (\<lambda>q. w (1 # q)) (oc_context0 c) = Some b"
    "out = concat (map le32 [ucast pr, ucast l, ucast h]) @ b"
    using assms(2) by (auto simp: write_port_def split: bind_splits if_splits ocontext_u.splits)
  show ?thesis using read_write_context [OF _ b(2)] assms(1)
    by (simp add: b(1,3) read_port_def port_normal_def other_kept_def eval_nat_numeral)
qed

lemma read_write_node:
  assumes "node_normal p c" "write_node w c = Some out"
  shows "read_node (\<lambda>_. True) p (out @ rest) = Some (Some (other_kept c, rest))"
proof -
  obtain ad m b where b: "oc_u c = ONode ad m" "context_write (\<lambda>q. w (1 # q)) (oc_context0 c) = Some b"
    "out = concat (map le32 [ad, m]) @ b"
    using assms(2) by (auto simp: write_node_def split: bind_splits if_splits ocontext_u.splits)
  show ?thesis using read_write_context [OF _ b(2)] assms(1)
    by (simp add: b(1,3) read_node_def node_normal_def other_kept_def eval_nat_numeral)
qed

lemma read_write_ocons:
  assumes w: "write_ocons w f cs = Some out" and n: "length cs < 2 ^ 32"
    and f: "\<And>w c out rest. c \<in> set cs \<Longrightarrow> f w c = Some out \<Longrightarrow> g (out @ rest) = Some (Some (kept c, rest))"
  shows "read_ocons (\<lambda>_. g) (out @ rest) = Some (Some (map kept cs, rest))"
proof -
  obtain bs where bs: "write_list (\<lambda>i. f (\<lambda>q. w (1 # i # q))) 0 cs = Some bs" "out = le32 (of_nat (length cs)) @ bs"
    using w by (auto simp: write_ocons_def split: bind_splits if_splits)
  have "read_list (\<lambda>_. g) 0 (length cs) (bs @ rest) = Some (Some (map kept cs, rest))"
    by (rule read_write_list_kept [OF bs(1)]) (rule f)
  then show ?thesis using n by (simp add: bs(2) read_ocons_def unat_of_nat_u32)
qed

definition ocons_normal :: "policydb \<Rightarrow> policydb \<Rightarrow> bool" where
  "ocons_normal q p \<longleftrightarrow> list_all (isid_normal q) (ocon_isid p) \<and> list_all (named_normal q) (ocon_fs p) \<and>
     list_all (port_normal q) (ocon_port p) \<and> list_all (named_normal q) (ocon_netif p) \<and> list_all (node_normal q) (ocon_node p) \<and>
     length (ocon_isid p) < 2 ^ 32 \<and> length (ocon_fs p) < 2 ^ 32 \<and> length (ocon_port p) < 2 ^ 32 \<and>
     length (ocon_netif p) < 2 ^ 32 \<and> length (ocon_node p) < 2 ^ 32"

lemma read_write_ocontexts:
  assumes w: "write_ocontexts w p = Some out" and n: "ocons_normal q p"
  shows "read_ocontexts (\<lambda>_. True) q (out @ rest) =
    Some (Some (q\<lparr>ocon_isid := map isid_kept (ocon_isid p), ocon_fs := map named_kept (ocon_fs p),
      ocon_port := map other_kept (ocon_port p), ocon_netif := map named_kept (ocon_netif p), ocon_node := map other_kept (ocon_node p)\<rparr>, rest))"
proof -
  obtain c0 c1 c2 c3 c4 where c: "write_ocons (\<lambda>q. w (0 # q)) write_isid (ocon_isid p) = Some c0"
    "write_ocons (\<lambda>q. w (1 # q)) write_named (ocon_fs p) = Some c1" "write_ocons (\<lambda>q. w (2 # q)) write_port (ocon_port p) = Some c2"
    "write_ocons (\<lambda>q. w (3 # q)) write_named (ocon_netif p) = Some c3" "write_ocons (\<lambda>q. w (4 # q)) write_node (ocon_node p) = Some c4"
    "out = c0 @ c1 @ c2 @ c3 @ c4"
    using w by (auto simp: write_ocontexts_def split: bind_splits)
  have r0: "read_ocons (\<lambda>_. read_isid (\<lambda>_. True) q) (c0 @ fp) = Some (Some (map isid_kept (ocon_isid p), fp))" for fp
    by (rule read_write_ocons [OF c(1)]) (use n in \<open>auto simp: ocons_normal_def list_all_iff intro: read_write_isid\<close>)
  have r1: "read_ocons (\<lambda>_. read_named (\<lambda>_. True) q) (c1 @ fp) = Some (Some (map named_kept (ocon_fs p), fp))" for fp
    by (rule read_write_ocons [OF c(2)]) (use n in \<open>auto simp: ocons_normal_def list_all_iff intro: read_write_named\<close>)
  have r2: "read_ocons (\<lambda>_. read_port (\<lambda>_. True) q) (c2 @ fp) = Some (Some (map other_kept (ocon_port p), fp))" for fp
    by (rule read_write_ocons [OF c(3)]) (use n in \<open>auto simp: ocons_normal_def list_all_iff intro: read_write_port\<close>)
  have r3: "read_ocons (\<lambda>_. read_named (\<lambda>_. True) q) (c3 @ fp) = Some (Some (map named_kept (ocon_netif p), fp))" for fp
    by (rule read_write_ocons [OF c(4)]) (use n in \<open>auto simp: ocons_normal_def list_all_iff intro: read_write_named\<close>)
  have r4: "read_ocons (\<lambda>_. read_node (\<lambda>_. True) q) (c4 @ fp) = Some (Some (map other_kept (ocon_node p), fp))" for fp
    by (rule read_write_ocons [OF c(5)]) (use n in \<open>auto simp: ocons_normal_def list_all_iff intro: read_write_node\<close>)
  show ?thesis by (simp add: read_ocontexts_def c(6) r0 r1 r2 r3 r4)
qed

section \<open>Type enforcement\<close>

lemma read_write_te_def:
  assumes "ebitmap_inv (te_exclude d)" "write_te_def w d = Some out"
  shows "read_te_def (\<lambda>_. True) (out @ rest) = Some (d, rest)"
proof -
  obtain b where b: "ebitmap_write (\<lambda>i. w [1, i]) (te_exclude d) = Some b" "out = le32 (te_value d) @ b"
    using assms(2) by (auto simp: write_te_def_def split: bind_splits if_splits)
  show ?thesis using read_write_bitmap [OF assms(1) b(1)] by (simp add: b(2) read_te_def_def)
qed

definition te_normal :: "policydb \<Rightarrow> bool" where
  "te_normal p \<longleftrightarrow> ebitmap_inv (te_exclude (p_te_def_allowed p)) \<and> ebitmap_inv (te_exclude (p_te_def_auditallow p)) \<and>
     ebitmap_inv (te_exclude (p_te_def_auditdeny p)) \<and> ebitmap_inv (te_exclude (p_te_def_notify p)) \<and>
     avtab_ok (te_avtab p) \<and> concat (av_htable (te_avtab p)) \<noteq> [] \<and> length (concat (av_htable (te_avtab p))) < 2 ^ 32 \<and>
     (\<forall>k d. avtab_abs (te_avtab p) k = Some d \<longrightarrow> datum_normal d)"

lemma my_config_full: "full_config my_config"
  unfolding full_config_def my_config_def POLICYDB_CONFIG_AUDIT_def POLICYDB_CONFIG_NOTIFY_def POLICYDB_CONFIG_MLS_def by code_simp


lemma read_write_te:
  assumes n: "te_normal p" and w: "write_te w p = Some out"
  obtains av where "\<And>buf q rest. read_te (\<lambda>_. True) buf my_config q (out @ rest) = Some (q\<lparr>p_te_def_allowed := p_te_def_allowed p,
      p_te_def_auditallow := p_te_def_auditallow p, p_te_def_auditdeny := p_te_def_auditdeny p, p_te_def_notify := p_te_def_notify p,
      te_avtab := av buf rest\<rparr>, rest)"
    "\<And>buf rest. avtab_ok (av buf rest) \<and> avtab_abs (av buf rest) = avtab_abs (te_avtab p)"
proof -
  obtain d0 d1 d2 d3 a where d: "write_te_def (\<lambda>q. w (0 # q)) (p_te_def_allowed p) = Some d0"
    "write_te_def (\<lambda>q. w (1 # q)) (p_te_def_auditallow p) = Some d1" "write_te_def (\<lambda>q. w (2 # q)) (p_te_def_auditdeny p) = Some d2"
    "write_te_def (\<lambda>q. w (3 # q)) (p_te_def_notify p) = Some d3" "avtab_write (\<lambda>i. w [4, i]) (te_avtab p) = Some a"
    "out = d0 @ d1 @ d2 @ d3 @ a"
    using w by (auto simp: write_te_def split: bind_splits)
  have e: "ebitmap_inv (te_exclude (p_te_def_allowed p))" "ebitmap_inv (te_exclude (p_te_def_auditallow p))"
    "ebitmap_inv (te_exclude (p_te_def_auditdeny p))" "ebitmap_inv (te_exclude (p_te_def_notify p))"
    and t: "avtab_ok (te_avtab p)" "concat (av_htable (te_avtab p)) \<noteq> []" "length (concat (av_htable (te_avtab p))) < 2 ^ 32"
    "\<forall>k d. avtab_abs (te_avtab p) k = Some d \<longrightarrow> datum_normal d"
    using n unfolding te_normal_def by blast+
  have "\<forall>b. \<exists>av. avtab_read (\<lambda>_. True) (fst b) (a @ snd b) my_config = (av, Some (snd b)) \<and> avtab_ok av \<and> avtab_abs av = avtab_abs (te_avtab p)"
    using avtab_read_back [OF t my_config_full d(5)] by blast
  then obtain f where f: "\<And>b. avtab_read (\<lambda>_. True) (fst b) (a @ snd b) my_config = (f b, Some (snd b)) \<and> avtab_ok (f b) \<and>
      avtab_abs (f b) = avtab_abs (te_avtab p)" by metis
  have av: "avtab_read (\<lambda>_. True) buf (a @ rest) my_config = (f (buf, rest), Some rest)"
    "avtab_ok (f (buf, rest)) \<and> avtab_abs (f (buf, rest)) = avtab_abs (te_avtab p)" for buf rest
    using f [of "(buf, rest)"] by auto
  show ?thesis
    using that [of "\<lambda>buf rest. f (buf, rest)"] av
    by (simp add: read_te_def d(6) read_write_te_def [OF e(1) d(1)] read_write_te_def [OF e(2) d(2)]
      read_write_te_def [OF e(3) d(3)] read_write_te_def [OF e(4) d(4)])
qed

section \<open>Symbol tables\<close>

definition sym_same :: "('d \<Rightarrow> 'd \<Rightarrow> bool) \<Rightarrow> 'd symtab \<Rightarrow> 'd symtab \<Rightarrow> bool" where
  "sym_same same s s' \<longleftrightarrow> sym_nprim s' = sym_nprim s \<and> table_same same (sym_table s) (sym_table s')"

lemma sym_same_abs:
  assumes "sym_same same s s'"
  shows "rel_option same (sym_abs s k) (sym_abs s' k)" "sym_nprim s' = sym_nprim s"
    "\<exists>h. sym_table s' = Some h \<and> hashtab_ok h"
    "hashtab_search (sym_table s) k = Some (sym_abs s k)" "hashtab_search (sym_table s') k = Some (sym_abs s' k)"
  using assms by (auto simp: sym_same_def table_same_def sym_abs_def hashtab_search_abs)

lemma sym_same_eq:
  assumes "sym_same (=) s s'"
  shows "sym_abs s' = sym_abs s" "hashtab_search (sym_table s') = hashtab_search (sym_table s)"
proof -
  show eq: "sym_abs s' = sym_abs s" using sym_same_abs(1) [OF assms] by (auto simp: option.rel_eq)
  then show "hashtab_search (sym_table s') = hashtab_search (sym_table s)" using sym_same_abs(4,5) [OF assms] by auto
qed

lemma common_same_trans: "common_same a b \<Longrightarrow> common_same b c \<Longrightarrow> common_same a c"
  by (auto simp: common_same_def table_same_def option.rel_eq)

lemma class_normal_same:
  assumes s: "sym_same common_same s s'" and n: "class_normal s d"
  shows "class_normal s' d"
proof -
  have "\<exists>cd''. hashtab_search (sym_table s') k = Some (Some cd'') \<and> common_same cd cd''"
    if h: "hashtab_search (sym_table s) k = Some (Some cd')" "common_same cd cd'" for k cd cd'
  proof -
    have "sym_abs s k = Some cd'" using h(1) sym_same_abs(4) [OF s] by simp
    then obtain cd'' where "sym_abs s' k = Some cd''" "common_same cd' cd''"
      using sym_same_abs(1) [OF s, of k] by (cases "sym_abs s' k") auto
    then show ?thesis using sym_same_abs(5) [OF s] common_same_trans [OF h(2)] by auto
  qed
  then show ?thesis using n unfolding class_normal_def by (auto split: option.splits)
qed

lemma sym_same_valued:
  assumes "sym_same same s s'" "sym_valued pr v s" "\<And>d d'. same d d' \<Longrightarrow> pr d' = pr d \<and> v d' = v d"
  shows "sym_valued pr v s'"
proof -
  have "values_ok (sym_abs s) pr v (sym_nprim s)" using assms(2) by (simp add: sym_valued_def)
  from values_same [OF this sym_same_abs(1) [OF assms(1)] assms(3)] show ?thesis
    using sym_same_abs(2,3) [OF assms(1)] by (simp add: sym_valued_def)
qed

lemma sym_same_names:
  assumes "sym_same same s s'" "sym_valued pr v s" "\<And>d d'. same d d' \<Longrightarrow> pr d' = pr d \<and> v d' = v d"
    "\<And>k d d'. same d d' \<Longrightarrow> f k d = f k d'" "sym_indexes pr v f s arr" "sym_indexes pr v f s' arr'"
  shows "arr' = arr"
proof (rule indexes_eq)
  show "indexes (sym_abs s) pr v f (sym_nprim s) arr" "values_ok (sym_abs s) pr v (sym_nprim s)"
    using assms(2,5) by (simp_all add: sym_indexes_def sym_valued_def)
  show "indexes (sym_abs s') pr v f (sym_nprim s) arr'" using assms(6) sym_same_abs(2) [OF assms(1)] by (simp add: sym_indexes_def)
qed (fact sym_same_abs(1) [OF assms(1)] assms(3,4))+

definition symtabs_normal :: "policydb \<Rightarrow> bool" where
  "symtabs_normal p \<longleftrightarrow> table_normal common_normal (sym_table (p_commons p)) \<and>
     table_normal (class_normal (p_commons p)) (sym_table (p_classes p)) \<and> table_normal role_normal (sym_table (p_roles p)) \<and>
     table_normal (\<lambda>_. True) (sym_table (p_types p)) \<and> table_normal user_normal (sym_table (p_users p)) \<and>
     table_normal sens_normal (sym_table (p_levels p)) \<and> table_normal (\<lambda>_. True) (sym_table (p_cats p))"

definition symtabs_same :: "policydb \<Rightarrow> policydb \<Rightarrow> bool" where
  "symtabs_same p p' \<longleftrightarrow> sym_same common_same (p_commons p) (p_commons p') \<and> sym_same class_same (p_classes p) (p_classes p') \<and>
     sym_same (=) (p_roles p) (p_roles p') \<and> sym_same (=) (p_types p) (p_types p') \<and> sym_same (=) (p_users p) (p_users p') \<and>
     sym_same (=) (p_levels p) (p_levels p') \<and> sym_same (=) (p_cats p) (p_cats p')"


lemma table_normal_mono: "table_normal n t \<Longrightarrow> (\<And>d. n d \<Longrightarrow> n' d) \<Longrightarrow> table_normal n' t"
  by (auto simp: table_normal_def)

lemma read_write_symtabs:
  assumes n: "symtabs_normal p" and w: "write_symtabs w p = Some out"
  obtains s0 s1 s2 s3 s4 s5 s6 where
    "\<And>q rest. read_symtabs (\<lambda>_. True) q (out @ rest) = Some (Some (q\<lparr>p_commons := s0, p_classes := s1, p_roles := s2, p_types := s3,
       p_users := s4, p_levels := s5, p_cats := s6\<rparr>, rest))"
    "\<And>q. symtabs_same p (q\<lparr>p_commons := s0, p_classes := s1, p_roles := s2, p_types := s3, p_users := s4, p_levels := s5, p_cats := s6\<rparr>)"
proof -
  obtain b0 b1 b2 b3 b4 b5 b6 where b: "write_symtab (\<lambda>q. w (0 # q)) common_write (p_commons p) = Some b0"
    "write_symtab (\<lambda>q. w (1 # q)) class_write (p_classes p) = Some b1" "write_symtab (\<lambda>q. w (2 # q)) role_write (p_roles p) = Some b2"
    "write_symtab (\<lambda>q. w (3 # q)) type_write (p_types p) = Some b3" "write_symtab (\<lambda>q. w (4 # q)) user_write (p_users p) = Some b4"
    "write_symtab (\<lambda>q. w (5 # q)) sens_write (p_levels p) = Some b5" "write_symtab (\<lambda>q. w (6 # q)) cat_write (p_cats p) = Some b6"
    "out = b0 @ b1 @ b2 @ b3 @ b4 @ b5 @ b6"
    using w by (auto simp: write_symtabs_def split: bind_splits)
  have t: "table_normal common_normal (sym_table (p_commons p))" "table_normal (class_normal (p_commons p)) (sym_table (p_classes p))"
    "table_normal role_normal (sym_table (p_roles p))" "table_normal (\<lambda>_. True) (sym_table (p_types p))"
    "table_normal user_normal (sym_table (p_users p))" "table_normal sens_normal (sym_table (p_levels p))"
    "table_normal (\<lambda>_. True) (sym_table (p_cats p))"
    using n unfolding symtabs_normal_def by blast+
  obtain s0 where s0: "\<And>rest. read_symtab (\<lambda>_. True) common_read (b0 @ rest) = Some (Some (s0, rest))" "sym_same common_same (p_commons p) s0"
    using common_sym.read_symbols [OF b(1) t(1)] unfolding sym_same_def by metis
  have "table_normal (class_normal s0) (sym_table (p_classes p))"
    by (rule table_normal_mono [OF t(2)]) (rule class_normal_same [OF s0(2)])
  from class_sym.read_symbols [OF b(2) this] obtain s1 where
    s1: "\<And>rest. read_symtab (\<lambda>_. True) (\<lambda>ok. class_read ok s0) (b1 @ rest) = Some (Some (s1, rest))" "sym_same class_same (p_classes p) s1"
    unfolding sym_same_def by metis
  obtain s2 where s2: "\<And>rest. read_symtab (\<lambda>_. True) role_read (b2 @ rest) = Some (Some (s2, rest))" "sym_same (=) (p_roles p) s2"
    using role_sym.read_symbols [OF b(3) t(3)] unfolding sym_same_def by metis
  obtain s3 where s3: "\<And>rest. read_symtab (\<lambda>_. True) type_read (b3 @ rest) = Some (Some (s3, rest))" "sym_same (=) (p_types p) s3"
    using type_sym.read_symbols [OF b(4) t(4)] unfolding sym_same_def by metis
  obtain s4 where s4: "\<And>rest. read_symtab (\<lambda>_. True) user_read (b4 @ rest) = Some (Some (s4, rest))" "sym_same (=) (p_users p) s4"
    using user_sym.read_symbols [OF b(5) t(5)] unfolding sym_same_def by metis
  obtain s5 where s5: "\<And>rest. read_symtab (\<lambda>_. True) sens_read (b5 @ rest) = Some (Some (s5, rest))" "sym_same (=) (p_levels p) s5"
    using sens_sym.read_symbols [OF b(6) t(6)] unfolding sym_same_def by metis
  obtain s6 where s6: "\<And>rest. read_symtab (\<lambda>_. True) cat_read (b6 @ rest) = Some (Some (s6, rest))" "sym_same (=) (p_cats p) s6"
    using cat_sym.read_symbols [OF b(7) t(7)] unfolding sym_same_def by metis
  show ?thesis
  proof (rule that)
    show "read_symtabs (\<lambda>_. True) q (out @ rest) = Some (Some (q\<lparr>p_commons := s0, p_classes := s1, p_roles := s2, p_types := s3,
       p_users := s4, p_levels := s5, p_cats := s6\<rparr>, rest))" for q rest
      by (simp add: read_symtabs_def b(8) s0(1) s1(1) s2(1) s3(1) s4(1) s5(1) s6(1))
    show "symtabs_same p (q\<lparr>p_commons := s0, p_classes := s1, p_roles := s2, p_types := s3, p_users := s4, p_levels := s5, p_cats := s6\<rparr>)" for q
      using s0(2) s1(2) s2(2) s3(2) s4(2) s5(2) s6(2) by (simp add: symtabs_same_def)
  qed
qed

lemma symtabs_same_valued:
  assumes "symtabs_same p p'" "policydb_valued p"
  shows "policydb_valued p'"
  using assms unfolding symtabs_same_def policydb_valued_def
  by (auto intro: sym_same_valued simp: common_same_def class_same_def)

definition arrays_same :: "policydb \<Rightarrow> policydb \<Rightarrow> bool" where
  "arrays_same p p' \<longleftrightarrow> p_common_val_to_name p' = p_common_val_to_name p \<and> p_class_val_to_name p' = p_class_val_to_name p \<and>
     p_role_val_to_name p' = p_role_val_to_name p \<and> p_type_val_to_name p' = p_type_val_to_name p \<and>
     p_user_val_to_name p' = p_user_val_to_name p \<and> p_sens_val_to_name p' = p_sens_val_to_name p \<and>
     p_cat_val_to_name p' = p_cat_val_to_name p \<and> role_val_to_struct p' = role_val_to_struct p \<and>
     user_val_to_struct p' = user_val_to_struct p \<and>
     list_all2 (rel_option class_same) (class_val_to_struct p) (class_val_to_struct p')"

lemma symtabs_same_arrays:
  assumes s: "symtabs_same p p'" and v: "policydb_valued p" and i: "policydb_indexed p" "policydb_indexed p'"
  shows "arrays_same p p'"
proof -
  note sn = sym_same_names
  have "p_common_val_to_name p' = p_common_val_to_name p"
    by (rule sn [where same = common_same and pr = all_of and v = cd_value and f = name_of])
      (use assms in \<open>auto simp: symtabs_same_def policydb_valued_def policydb_indexed_def common_same_def\<close>)
  moreover have "p_class_val_to_name p' = p_class_val_to_name p"
    by (rule sn [where same = class_same and pr = all_of and v = cl_value and f = name_of])
      (use assms in \<open>auto simp: symtabs_same_def policydb_valued_def policydb_indexed_def class_same_def\<close>)
  moreover have "p_role_val_to_name p' = p_role_val_to_name p"
    by (rule sn [where same = "(=)" and pr = all_of and v = rd_value and f = name_of])
      (use assms in \<open>auto simp: symtabs_same_def policydb_valued_def policydb_indexed_def\<close>)
  moreover have "p_type_val_to_name p' = p_type_val_to_name p"
    by (rule sn [where same = "(=)" and pr = "\<lambda>d. td_isalias d = 0" and v = td_value and f = name_of])
      (use assms in \<open>auto simp: symtabs_same_def policydb_valued_def policydb_indexed_def\<close>)
  moreover have "p_user_val_to_name p' = p_user_val_to_name p"
    by (rule sn [where same = "(=)" and pr = all_of and v = ud_value and f = name_of])
      (use assms in \<open>auto simp: symtabs_same_def policydb_valued_def policydb_indexed_def\<close>)
  moreover have "p_sens_val_to_name p' = p_sens_val_to_name p"
    by (rule sn [where same = "(=)" and pr = "\<lambda>d. ld_isalias d = 0" and v = "\<lambda>d. sens (ld_level d)" and f = name_of])
      (use assms in \<open>auto simp: symtabs_same_def policydb_valued_def policydb_indexed_def\<close>)
  moreover have "p_cat_val_to_name p' = p_cat_val_to_name p"
    by (rule sn [where same = "(=)" and pr = "\<lambda>d. ca_isalias d = 0" and v = ca_value and f = name_of])
      (use assms in \<open>auto simp: symtabs_same_def policydb_valued_def policydb_indexed_def\<close>)
  moreover have "role_val_to_struct p' = role_val_to_struct p"
    by (rule sn [where same = "(=)" and pr = all_of and v = rd_value and f = self_of])
      (use assms in \<open>auto simp: symtabs_same_def policydb_valued_def policydb_indexed_def\<close>)
  moreover have "user_val_to_struct p' = user_val_to_struct p"
    by (rule sn [where same = "(=)" and pr = all_of and v = ud_value and f = self_of])
      (use assms in \<open>auto simp: symtabs_same_def policydb_valued_def policydb_indexed_def\<close>)
  moreover have "list_all2 (rel_option class_same) (class_val_to_struct p) (class_val_to_struct p')"
  proof (rule indexes_same [where same = class_same])
    have c: "sym_same class_same (p_classes p) (p_classes p')" using s by (simp add: symtabs_same_def)
    then show "rel_option class_same (sym_abs (p_classes p) k) (sym_abs (p_classes p') k)" for k by (rule sym_same_abs)
    show "indexes (sym_abs (p_classes p)) all_of cl_value self_of (sym_nprim (p_classes p)) (class_val_to_struct p)"
      "indexes (sym_abs (p_classes p')) all_of cl_value self_of (sym_nprim (p_classes p)) (class_val_to_struct p')"
      using i sym_same_abs(2) [OF c] by (simp_all add: policydb_indexed_def sym_indexes_def)
    show "values_ok (sym_abs (p_classes p)) all_of cl_value (sym_nprim (p_classes p))"
      using v by (simp add: policydb_valued_def sym_valued_def)
  qed (simp_all add: class_same_def)
  ultimately show ?thesis by (simp add: arrays_same_def)
qed


section \<open>The database\<close>

lemma read_write_header: "read_header (write_header p @ rest) = Some (my_config, nlevels p, rest)"
proof -
  have "fread32s 5 (write_header p @ rest) =
      Some ([POLICYDB_VERSION, my_config, SYM_NUM, TED_NUM, OCON_NUM], le32 (nlevels p) @ rest)"
    using fread32s_take [of "[POLICYDB_VERSION, my_config, SYM_NUM, TED_NUM, OCON_NUM]" 5 "le32 (nlevels p) @ rest"]
    by (simp add: write_header_def)
  then show ?thesis by (simp add: read_header_def eval_nat_numeral)
qed

lemma context_isvalid_same:
  assumes "symtabs_same p p'" "arrays_same p p'"
  shows "policydb_context_isvalid p' c = policydb_context_isvalid p c"
proof -
  have l: "sym_same (=) (p_levels p) (p_levels p')" and n: "sym_nprim (p_roles p') = sym_nprim (p_roles p)"
    "sym_nprim (p_users p') = sym_nprim (p_users p)" "sym_nprim (p_cats p') = sym_nprim (p_cats p)"
    using assms(1) by (simp_all add: symtabs_same_def sym_same_def)
  have a: "role_val_to_struct p' = role_val_to_struct p" "user_val_to_struct p' = user_val_to_struct p"
    "p_sens_val_to_name p' = p_sens_val_to_name p" using assms(2) by (simp_all add: arrays_same_def)
  show ?thesis
    unfolding policydb_context_isvalid_def mls_context_isvalid_def mls_level_isvalid_def n a sym_same_abs(2) [OF l] sym_same_eq(2) [OF l] by simp
qed

lemma ocons_normal_same:
  assumes "\<And>c. policydb_context_isvalid p' c = policydb_context_isvalid p c"
  shows "ocons_normal p' q = ocons_normal p q"
proof -
  have "context_normal p' = context_normal p" by (simp add: fun_eq_iff context_normal_def assms)
  then have "isid_normal p' = isid_normal p" "named_normal p' = named_normal p" "port_normal p' = port_normal p" "node_normal p' = node_normal p"
    by (simp_all add: fun_eq_iff isid_normal_def named_normal_def port_normal_def node_normal_def)
  then show ?thesis unfolding ocons_normal_def by simp
qed

text \<open>A database that can be written: its tables are valid with data that have a binary form, its arrays
  index them, its access vector table has an entry, and its object contexts are valid.\<close>

definition policydb_normal :: "policydb \<Rightarrow> bool" where
  "policydb_normal p \<longleftrightarrow> symtabs_normal p \<and> policydb_valued p \<and> policydb_indexed p \<and> te_normal p \<and> ocons_normal p p"

text \<open>Two databases with the same content: the tables have the same entries, perhaps in another order within a
  chain, and the arrays, defaults, access vectors and object contexts are the same up to the cached identifiers.\<close>

definition policydb_same :: "policydb \<Rightarrow> policydb \<Rightarrow> bool" where
  "policydb_same p p' \<longleftrightarrow> nlevels p' = nlevels p \<and> symtabs_same p p' \<and> arrays_same p p' \<and>
     p_te_def_allowed p' = p_te_def_allowed p \<and> p_te_def_auditallow p' = p_te_def_auditallow p \<and>
     p_te_def_auditdeny p' = p_te_def_auditdeny p \<and> p_te_def_notify p' = p_te_def_notify p \<and>
     avtab_ok (te_avtab p') \<and> avtab_abs (te_avtab p') = avtab_abs (te_avtab p) \<and>
     ocon_isid p' = map isid_kept (ocon_isid p) \<and> ocon_fs p' = map named_kept (ocon_fs p) \<and>
     ocon_port p' = map other_kept (ocon_port p) \<and> ocon_netif p' = map named_kept (ocon_netif p) \<and>
     ocon_node p' = map other_kept (ocon_node p)"

lemma policydb_read_back:
  assumes n: "policydb_normal p" and w: "policydb_write w p = Some out"
  shows "\<exists>p'. policydb_read (\<lambda>_. True) scratch (out @ rest) = Some (Some (p', rest)) \<and> policydb_same p p' \<and> policydb_indexed p'"
proof -
  obtain s t c where b: "write_symtabs (\<lambda>q. w (2 # q)) p = Some s" "write_te (\<lambda>q. w (3 # q)) p = Some t"
    "write_ocontexts (\<lambda>q. w (4 # q)) p = Some c" "out = write_header p @ s @ t @ c"
    using w by (auto simp: policydb_write_def split: bind_splits if_splits)
  have h: "symtabs_normal p" "policydb_valued p" "policydb_indexed p" "te_normal p" "ocons_normal p p"
    using n unfolding policydb_normal_def by blast+
  obtain s0 s1 s2 s3 s4 s5 s6 where
    S: "\<And>q rest. read_symtabs (\<lambda>_. True) q (s @ rest) = Some (Some (q\<lparr>p_commons := s0, p_classes := s1, p_roles := s2, p_types := s3,
       p_users := s4, p_levels := s5, p_cats := s6\<rparr>, rest))"
    "\<And>q. symtabs_same p (q\<lparr>p_commons := s0, p_classes := s1, p_roles := s2, p_types := s3, p_users := s4, p_levels := s5, p_cats := s6\<rparr>)"
    by (rule read_write_symtabs [OF h(1) b(1)]) (rule that)
  obtain av where T: "\<And>buf q rest. read_te (\<lambda>_. True) buf my_config q (t @ rest) = Some (q\<lparr>p_te_def_allowed := p_te_def_allowed p,
      p_te_def_auditallow := p_te_def_auditallow p, p_te_def_auditdeny := p_te_def_auditdeny p, p_te_def_notify := p_te_def_notify p,
      te_avtab := av buf rest\<rparr>, rest)"
    "\<And>buf rest. avtab_ok (av buf rest) \<and> avtab_abs (av buf rest) = avtab_abs (te_avtab p)"
    by (rule read_write_te [OF h(4) b(2)]) (rule that)
  define q where "q = (zero_policydb\<lparr>nlevels := nlevels p\<rparr>)\<lparr>p_commons := s0, p_classes := s1, p_roles := s2, p_types := s3,
       p_users := s4, p_levels := s5, p_cats := s6\<rparr>"
  define q' where "q' = q\<lparr>p_te_def_allowed := p_te_def_allowed p, p_te_def_auditallow := p_te_def_auditallow p,
      p_te_def_auditdeny := p_te_def_auditdeny p, p_te_def_notify := p_te_def_notify p, te_avtab := av scratch (c @ rest)\<rparr>"
  have "symtabs_same p q" unfolding q_def by (rule S(2))
  then have same': "symtabs_same p q'" by (simp add: symtabs_same_def q'_def)
  obtain p1 where p1: "index_symtabs (\<lambda>_. True) q' = Some (Some p1)" "policydb_indexed p1" "symtabs_same p p1" "nlevels p1 = nlevels q'"
      "p_te_def_allowed p1 = p_te_def_allowed q'" "p_te_def_auditallow p1 = p_te_def_auditallow q'"
      "p_te_def_auditdeny p1 = p_te_def_auditdeny q'" "p_te_def_notify p1 = p_te_def_notify q'" "te_avtab p1 = te_avtab q'"
    by (rule index_symtabs_spec [OF symtabs_same_valued [OF same' h(2)]], rule that, assumption, assumption) (use same' in \<open>auto simp: symtabs_same_def\<close>)
  have arr: "arrays_same p p1" by (rule symtabs_same_arrays [OF p1(3) h(2,3) p1(2)])
  have "ocons_normal p1 p" using h(5) ocons_normal_same [OF context_isvalid_same [OF p1(3) arr]] by blast
  note C = read_write_ocontexts [OF b(3) this]
  let ?p' = "p1\<lparr>ocon_isid := map isid_kept (ocon_isid p), ocon_fs := map named_kept (ocon_fs p),
      ocon_port := map other_kept (ocon_port p), ocon_netif := map named_kept (ocon_netif p), ocon_node := map other_kept (ocon_node p)\<rparr>"
  have "policydb_read (\<lambda>_. True) scratch (out @ rest) = Some (Some (?p', rest))"
    by (simp add: policydb_read_def b(4) read_write_header S(1) T(1) q_def [symmetric] q'_def [symmetric] p1(1) C)
  moreover have "policydb_same p ?p'"
    using p1(3-9) arr T(2) by (simp add: policydb_same_def symtabs_same_def arrays_same_def q'_def q_def)
  moreover have "policydb_indexed ?p'" using p1(2) by (simp add: policydb_indexed_def)
  ultimately show ?thesis by blast
qed

end
