(* ===== verification/Policydb_Total.thy ===== *)
theory Policydb_Total
  imports Policydb_Roundtrip
begin

text \<open>
  Writing never fails for a reason of its own: if every \<open>fwrite\<close> succeeds, a database that has a binary form is
  written.
\<close>

section \<open>Parts\<close>

lemma ebitmap_write_total: "\<exists>out. ebitmap_write (\<lambda>_. True) e = Some out"
proof -
  have "\<exists>out. ebitmap_write_nodes (\<lambda>_. True) i ns = Some out" for i ns
    by (induction ns arbitrary: i) (auto, metis bind.bind_lunit)
  then obtain b where "ebitmap_write_nodes (\<lambda>_. True) 1 (nodes e) = Some b" by blast
  then show ?thesis by (simp add: ebitmap_write_def)
qed

lemma write_list_total: "(\<And>i x. x \<in> set xs \<Longrightarrow> \<exists>out. f i x = Some out) \<Longrightarrow> \<exists>out. write_list f i xs = Some out"
proof (induction xs arbitrary: i)
  case (Cons x xs)
  obtain b where "f i x = Some b" using Cons.prems by fastforce
  moreover obtain bs where "write_list f (Suc i) xs = Some bs" using Cons by fastforce
  ultimately show ?case by simp
qed simp

lemma mls_write_level_total: "\<exists>out. mls_write_level (\<lambda>_. True) l = Some out"
  using ebitmap_write_total [of "cat l"] by (auto simp: mls_write_level_def)

lemma mls_write_range_total: "\<exists>out. mls_write_range (\<lambda>_. True) r = Some out"
  using ebitmap_write_total [of "cat (lo r)"] ebitmap_write_total [of "cat (hi r)"] by (auto simp: mls_write_range_def Let_def)

lemma context_write_total: "\<exists>out. context_write (\<lambda>_. True) c = Some out"
  using mls_write_range_total [of "c_range c"] by (auto simp: context_write_def)

lemma constraint_expr_write_total: "\<exists>out. constraint_expr_write (\<lambda>_. True) x = Some out"
proof (induction x)
  case (Expr ty rel e l r c)
  have l: "\<exists>out. (case l of None \<Rightarrow> Some [] | Some x \<Rightarrow> constraint_expr_write (\<lambda>_. True) x) = Some out" using Expr(1) by (cases l) auto
  have r: "\<exists>out. (case r of None \<Rightarrow> Some [] | Some x \<Rightarrow> constraint_expr_write (\<lambda>_. True) x) = Some out" using Expr(2) by (cases r) auto
  show ?case using l r ebitmap_write_total [of e] by auto
qed

lemma constraint_write_total: "\<exists>out. constraint_write (\<lambda>_. True) c = Some out"
  using constraint_expr_write_total [of "cn_expr c"] by (auto simp: constraint_write_def)

section \<open>Symbols\<close>

locale symbol_writer =
  fixes wr :: "allocs \<Rightarrow> string \<Rightarrow> 'd \<Rightarrow> byte list option"
    and normal :: "'d \<Rightarrow> bool"
  assumes written: "normal d \<Longrightarrow> \<exists>out. wr (\<lambda>_. True) key d = Some out"
begin

lemma write_entries:
  "\<forall>(k, d)\<in>set es. normal d \<Longrightarrow> \<exists>i' out. hashtab_map_chain (write_apply wr (\<lambda>_. True)) es (i, pre) = (0, i', out)"
proof (induction es arbitrary: i pre)
  case (Cons e es)
  obtain k d where e: "e = (k, d)" by (cases e)
  obtain b where "wr (\<lambda>_. True) k d = Some b" using written [of d k] Cons.prems e by auto
  then show ?case using Cons.IH [of "Suc i" "pre @ b"] Cons.prems e by (simp add: write_apply_eq)
qed simp

lemma write_table_total:
  assumes "table_normal normal t"
  shows "\<exists>h out. t = Some h \<and> write_table (\<lambda>_. True) wr t = Some out"
proof -
  obtain h where h: "t = Some h" "hashtab_ok h" "\<And>k d. hashtab_abs h k = Some d \<Longrightarrow> normal d"
    using assms by (auto simp: table_normal_def)
  have "\<forall>(k, d)\<in>set (concat (htable h)). normal d" using h(3) entries_abs [OF h(2)] map_of_is_SomeI by fastforce
  from write_entries [OF this, of 0 "[]"] show ?thesis by (auto simp: write_table_def h(1) hashtab_map_concat [OF h(2)])
qed

lemma write_symtab_total: "table_normal normal (sym_table s) \<Longrightarrow> \<exists>out. write_symtab (\<lambda>_. True) wr s = Some out"
  using write_table_total by (fastforce simp: write_symtab_def)

end

interpretation perm_writer: symbol_writer perm_write "\<lambda>_. True"
  by unfold_locales (simp add: perm_write_def)

interpretation common_writer: symbol_writer common_write common_normal
  by unfold_locales (use perm_writer.write_table_total in \<open>fastforce simp: common_write_def common_normal_def\<close>)

interpretation class_writer: symbol_writer class_write "class_normal commons" for commons
proof
  fix d key
  assume "class_normal commons d"
  then obtain h ps where "sym_table (cl_permissions d) = Some h" "write_table (\<lambda>_. True) perm_write (Some h) = Some ps"
    using perm_writer.write_table_total [of "sym_table (cl_permissions d)"] by (auto simp: class_normal_def)
  moreover obtain cs where "write_list (\<lambda>i. constraint_write (\<lambda>_. True)) 0 (constraints d) = Some cs"
    using write_list_total [of "constraints d" "\<lambda>i. constraint_write (\<lambda>_. True)" 0] constraint_write_total by auto
  ultimately show "\<exists>out. class_write (\<lambda>_. True) key d = Some out"
    by (cases "comkey d") (simp_all add: class_write_def mls_write_perms_def)
qed

interpretation role_writer: symbol_writer role_write role_normal
proof
  fix d :: role_datum and key
  show "\<exists>out. role_write (\<lambda>_. True) key d = Some out"
    using ebitmap_write_total [of "dominates d"] ebitmap_write_total [of "types d"] by (auto simp: role_write_def)
qed

interpretation type_writer: symbol_writer type_write "\<lambda>_. True"
  by unfold_locales (simp add: type_write_def)

interpretation cat_writer: symbol_writer cat_write "\<lambda>_. True"
  by unfold_locales (simp add: cat_write_def)

interpretation sens_writer: symbol_writer sens_write sens_normal
proof
  fix d :: level_datum and key
  show "\<exists>out. sens_write (\<lambda>_. True) key d = Some out"
    using mls_write_level_total [of "ld_level d"] by (auto simp: sens_write_def)
qed

interpretation user_writer: symbol_writer user_write user_normal
proof
  fix d :: user_datum and key
  obtain b rs where "ebitmap_write (\<lambda>_. True) (roles d) = Some b"
    "write_list (\<lambda>i. mls_write_range (\<lambda>_. True)) 0 (ranges d) = Some rs"
    using ebitmap_write_total write_list_total [of "ranges d" "\<lambda>i. mls_write_range (\<lambda>_. True)" 0] mls_write_range_total by metis
  then show "\<exists>out. user_write (\<lambda>_. True) key d = Some out" by (simp add: user_write_def)
qed

section \<open>The database\<close>

lemma write_symtabs_total:
  assumes "symtabs_normal p"
  shows "\<exists>out. write_symtabs (\<lambda>_. True) p = Some out"
  using assms common_writer.write_symtab_total [of "p_commons p"] class_writer.write_symtab_total [of "p_commons p" "p_classes p"]
    role_writer.write_symtab_total [of "p_roles p"] type_writer.write_symtab_total [of "p_types p"]
    user_writer.write_symtab_total [of "p_users p"] sens_writer.write_symtab_total [of "p_levels p"]
    cat_writer.write_symtab_total [of "p_cats p"]
  by (auto simp: symtabs_normal_def write_symtabs_def)

lemma write_te_total: "\<exists>out. write_te (\<lambda>_. True) p = Some out"
proof -
  have "\<exists>out. write_te_def (\<lambda>_. True) d = Some out" for d
    using ebitmap_write_total [of "te_exclude d"] by (auto simp: write_te_def_def)
  then obtain f where f: "\<And>d. write_te_def (\<lambda>_. True) d = Some (f d)" by metis
  have "\<exists>out. avtab_write_entries (\<lambda>_. True) i es = Some out" for i es
    by (induction es arbitrary: i) (simp_all add: Let_def, metis bind.bind_lunit)
  then obtain b where "avtab_write_entries (\<lambda>_. True) 1 (concat (av_htable (te_avtab p))) = Some b" by blast
  then show ?thesis by (simp add: write_te_def f avtab_write_def)
qed

lemma write_ocons_total:
  assumes "\<And>c. c \<in> set cs \<Longrightarrow> \<exists>out. f (\<lambda>_. True) c = Some out"
  shows "\<exists>out. write_ocons (\<lambda>_. True) f cs = Some out"
  using write_list_total [of cs "\<lambda>_. f (\<lambda>_. True)" 0] assms by (auto simp: write_ocons_def)

lemma write_ocontexts_total:
  assumes "ocons_normal q p"
  shows "\<exists>out. write_ocontexts (\<lambda>_. True) p = Some out"
proof -
  obtain f where f: "\<And>c. context_write (\<lambda>_. True) c = Some (f c)" using context_write_total by metis
  have "\<exists>out. write_ocons (\<lambda>_. True) write_isid (ocon_isid p) = Some out"
    by (rule write_ocons_total) (simp add: write_isid_def f)
  moreover have "\<exists>out. write_ocons (\<lambda>_. True) write_named (ocon_fs p) = Some out"
    "\<exists>out. write_ocons (\<lambda>_. True) write_named (ocon_netif p) = Some out"
    using assms by (auto intro!: write_ocons_total simp: write_named_def f ocons_normal_def list_all_iff named_normal_def)
  moreover have "\<exists>out. write_ocons (\<lambda>_. True) write_port (ocon_port p) = Some out"
    "\<exists>out. write_ocons (\<lambda>_. True) write_node (ocon_node p) = Some out"
    using assms by (auto intro!: write_ocons_total simp: write_port_def write_node_def f ocons_normal_def list_all_iff port_normal_def node_normal_def)
  ultimately show ?thesis by (auto simp: write_ocontexts_def)
qed

lemma policydb_write_total:
  assumes "policydb_normal p"
  shows "\<exists>out. policydb_write (\<lambda>_. True) p = Some out"
proof -
  obtain s t c where "write_symtabs (\<lambda>_. True) p = Some s" "write_te (\<lambda>_. True) p = Some t" "write_ocontexts (\<lambda>_. True) p = Some c"
    using write_symtabs_total write_te_total write_ocontexts_total assms unfolding policydb_normal_def by metis
  then show ?thesis by (simp add: policydb_write_def)
qed

end
