(* ===== verification/Services_Load.thy ===== *)
theory Services_Load
  imports Services_Step Policydb_Read
begin

text \<open>
  Replacing the active policy (\<open>security_load_policy\<close> of \<open>security/services.c\<close>).  The file is a list of
  bytes; \<open>ok\<close> says which allocations succeed and \<open>alloc\<close> is the block that a string is written
  to.  Undefined behaviour is \<open>None\<close>.  \<open>policydb_destroy\<close> only frees what is no longer reachable from the
  state and has no effect here; \<open>free(NULL)\<close> has none either.
\<close>

section \<open>Classes\<close>

text \<open>Callbacks of \<open>hashtab_map\<close>; the state \<open>None\<close> records undefined behaviour.\<close>

definition validate_perm ::
    "(string, perm_datum) hashtab_t \<Rightarrow> string \<Rightarrow> perm_datum \<Rightarrow> unit option \<Rightarrow> int \<times> unit option" where
  "validate_perm h key perdatum args =
     (case args of
        None \<Rightarrow> (0, None)
      | Some u \<Rightarrow>
          case hashtab_search h key of
            None \<Rightarrow> (0, None)
          | Some None \<Rightarrow> (-1, args)
          | Some (Some perdatum2) \<Rightarrow> if pd_value perdatum \<noteq> pd_value perdatum2 then (-1, args) else (0, args))"

definition validate_class ::
    "policydb \<Rightarrow> string \<Rightarrow> class_datum \<Rightarrow> unit option \<Rightarrow> int \<times> unit option" where
  "validate_class newp key cladatum args =
     (case args of
        None \<Rightarrow> (0, None)
      | Some u \<Rightarrow>
          case hashtab_search (sym_table (p_classes newp)) key of
            None \<Rightarrow> (0, None)
          | Some None \<Rightarrow> (-1, args)
          | Some (Some cladatum2) \<Rightarrow>
              if cl_value cladatum \<noteq> cl_value cladatum2 then (-1, args)
              else if (comdatum cladatum = None) \<noteq> (comdatum cladatum2 = None) then (-1, args)
              else
                let (r, args) =
                  (case (comdatum cladatum, comdatum cladatum2) of
                     (Some cd, Some cd2) \<Rightarrow>
                       hashtab_map (sym_table (cd_permissions cd)) (validate_perm (sym_table (cd_permissions cd2))) args
                   | _ \<Rightarrow> (0, args))
                in if r \<noteq> 0 then (-1, args)
                   else
                     let (r, args) =
                       hashtab_map (sym_table (cl_permissions cladatum))
                         (validate_perm (sym_table (cl_permissions cladatum2))) args
                     in (if r \<noteq> 0 then -1 else 0, args))"

section \<open>Contexts\<close>

text \<open>The label \<open>bad\<close>: the old context is printed, under the policy that is still active.\<close>

definition convert_bad ::
    "(nat \<Rightarrow> char list option) \<Rightarrow> policydb \<Rightarrow> context_struct \<Rightarrow> context_struct \<Rightarrow> (bool \<times> context_struct) option" where
  "convert_bad alloc oldp oldc c = do {
     s \<leftarrow> context_struct_to_string alloc oldp oldc;
     Some (True, c)
   }"

text \<open>The result is whether a nonzero code is returned, and the context.  The role is used without a test for
  \<open>NULL\<close>.\<close>

definition convert_context ::
    "allocs \<Rightarrow> (nat \<Rightarrow> char list option) \<Rightarrow> policydb \<Rightarrow> policydb \<Rightarrow> context_struct \<Rightarrow> (bool \<times> context_struct) option" where
  "convert_context ok alloc oldp newp c =
     (case context_cpy (\<lambda>q. ok (0 # q)) context_init c of
        None \<Rightarrow> Some (True, c)
      | Some oldc \<Rightarrow> do {
          uname \<leftarrow> fetch (p_user_val_to_name oldp) (c_user c);
          usrdatum \<leftarrow> hashtab_search (sym_table (p_users newp)) uname;
          case usrdatum of
            None \<Rightarrow> convert_bad alloc oldp oldc c
          | Some ud \<Rightarrow> do {
              let c = c\<lparr>c_user := ud_value ud\<rparr>;
              rname \<leftarrow> fetch (p_role_val_to_name oldp) (c_role c);
              role \<leftarrow> hashtab_search (sym_table (p_roles newp)) rname;
              rd \<leftarrow> role;
              let c = c\<lparr>c_role := rd_value rd\<rparr>;
              tname \<leftarrow> fetch (p_type_val_to_name oldp) (c_type c);
              typdatum \<leftarrow> hashtab_search (sym_table (p_types newp)) tname;
              case typdatum of
                None \<Rightarrow> convert_bad alloc oldp oldc c
              | Some td \<Rightarrow> do {
                  let c = c\<lparr>c_type := td_value td\<rparr>;
                  (rc, c) \<leftarrow> mls_convert_context (\<lambda>q. ok (1 # q)) oldp newp c;
                  if rc \<noteq> None then convert_bad alloc oldp oldc c
                  else do {
                    v \<leftarrow> policydb_context_isvalid newp c;
                    if \<not> v then convert_bad alloc oldp oldc c
                    else Some (False, c)
                  }
                }
            }
        })"

section \<open>Loading\<close>

text \<open>The function up to the point where the caches are reset: the code that is returned (\<open>None\<close> for 0) and
  the new state of the server.  \<open>rd\<close> is what \<open>policydb_read\<close> gave.\<close>

definition load_read ::
    "allocs \<Rightarrow> (nat \<Rightarrow> char list option) \<Rightarrow> ss \<Rightarrow> policydb outcome \<Rightarrow> (errno option \<times> ss) option" where
  "load_read ok alloc st rd = do {
     r \<leftarrow> rd;
     case r of
       None \<Rightarrow> Some (Some EINVAL, st)
     | Some (newp, rest) \<Rightarrow> do {
         let (rc, args) = hashtab_map (sym_table (p_classes (ss_policydb st))) (validate_class newp) (Some ());
         u \<leftarrow> args;
         if rc \<noteq> 0 then Some (Some EINVAL, st)
         else do {
           (s, u) \<leftarrow> sidtab_map_remove_on_error (Some (ss_sidtab st))
             (\<lambda>sid c u. map_option (\<lambda>(bad, c). (bad, c, u))
                (convert_context (\<lambda>q. ok (1 # unat sid # q)) alloc (ss_policydb st) newp c)) ();
           sidtab \<leftarrow> s;
           Some (None, st\<lparr>ss_sidtab := sidtab, ss_policydb := newp, latest_granting := latest_granting st + 1\<rparr>)
         }
       }
   }"

text \<open>With an \<open>fread\<close> that counts items, as in the programs of the host.  \<open>scratch\<close> is the uninitialised array of
  \<open>avtab_read\<close>.\<close>

definition load_policy ::
    "allocs \<Rightarrow> (nat \<Rightarrow> char list option) \<Rightarrow> u32 list \<Rightarrow> ss \<Rightarrow> byte list \<Rightarrow> (errno option \<times> ss) option" where
  "load_policy ok alloc scratch st fp = load_read ok alloc st (policydb_read (\<lambda>q. ok (0 # q)) scratch fp)"

definition security_notify_perm :: "u32 \<Rightarrow> u32 \<Rightarrow> 16 word \<Rightarrow> u32 \<Rightarrow> int" where
  "security_notify_perm ssid tsid tclass requested = 0"

end
