(* ===== verification/Services_Convert.thy ===== *)
theory Services_Convert
  imports Services_Load Policydb_Index
begin

text \<open>
  What loading a policy does to the table of identifiers: each context is translated name by name
  into the new policy, and an identifier is dropped exactly when its context has no valid translation.
\<close>

section \<open>Translation of contexts\<close>

text \<open>The value \<open>v\<close> of the old policy, whose names are in the array \<open>names\<close>, has the value \<open>v'\<close> in the table \<open>s\<close> of
  the new one.\<close>

definition translates :: "'d symtab \<Rightarrow> string option list \<Rightarrow> ('d \<Rightarrow> u32) \<Rightarrow> u32 \<Rightarrow> u32 \<Rightarrow> bool" where
  "translates s names val v v' \<longleftrightarrow>
     (\<exists>n d. fetch names v = Some n \<and> hashtab_search (sym_table s) n = Some (Some d) \<and> v' = val d)"

abbreviation cat_translates :: "policydb \<Rightarrow> policydb \<Rightarrow> nat \<Rightarrow> u32 \<Rightarrow> bool" where
  "cat_translates oldp newp i \<equiv> translates (p_cats newp) (p_cat_val_to_name oldp) ca_value (of_nat (i + 1))"

definition level_translates :: "policydb \<Rightarrow> policydb \<Rightarrow> mls_level \<Rightarrow> mls_level \<Rightarrow> bool" where
  "level_translates oldp newp l l' \<longleftrightarrow>
     translates (p_levels newp) (p_sens_val_to_name oldp) (\<lambda>d. sens (ld_level d)) (sens l) (sens l') \<and>
     level_ok l' \<and> (\<forall>i\<in>ebits (cat l). \<exists>v. cat_translates oldp newp i v) \<and>
     ebits (cat l') = {unat (v - 1) | i v. i \<in> ebits (cat l) \<and> cat_translates oldp newp i v}"

definition context_translates :: "policydb \<Rightarrow> policydb \<Rightarrow> context_struct \<Rightarrow> context_struct \<Rightarrow> bool" where
  "context_translates oldp newp c c' \<longleftrightarrow>
     translates (p_users newp) (p_user_val_to_name oldp) ud_value (c_user c) (c_user c') \<and>
     translates (p_roles newp) (p_role_val_to_name oldp) rd_value (c_role c) (c_role c') \<and>
     translates (p_types newp) (p_type_val_to_name oldp) td_value (c_type c) (c_type c') \<and>
     level_translates oldp newp (lo (c_range c)) (lo (c_range c')) \<and>
     level_translates oldp newp (hi (c_range c)) (hi (c_range c'))"

lemma translates_fun: "translates s names val v v' \<Longrightarrow> translates s names val v v'' \<Longrightarrow> v'' = v'"
  by (auto simp: translates_def)

lemma ebitmap_ext: "ebitmap_inv e \<Longrightarrow> ebitmap_inv e' \<Longrightarrow> ebits e = ebits e' \<Longrightarrow> e = e'"
  using ebitmap_cmp_iff [of e e'] by simp

lemma level_translates_fun:
  assumes "level_translates oldp newp l l1" "level_translates oldp newp l l2"
  shows "l2 = l1"
proof -
  have "sens l2 = sens l1" using assms translates_fun unfolding level_translates_def by metis
  moreover have "cat l2 = cat l1" using assms by (intro ebitmap_ext) (simp_all add: level_translates_def level_ok_def)
  ultimately show ?thesis by simp
qed

lemma context_translates_fun:
  assumes "context_translates oldp newp c c1" "context_translates oldp newp c c2"
  shows "c2 = c1"
proof -
  have "c_user c2 = c_user c1" "c_role c2 = c_role c1" "c_type c2 = c_type c1"
    using assms translates_fun unfolding context_translates_def by metis+
  moreover have "lo (c_range c2) = lo (c_range c1)" "hi (c_range c2) = hi (c_range c1)"
    using assms level_translates_fun unfolding context_translates_def by metis+
  ultimately show ?thesis by simp
qed

lemma mls_convert_cats_spec:
  assumes "cats_ok newp" "ebitmap_inv e" "mls_convert_cats ok oldp newp k is e = Some r"
  shows "case r of
      Inr e' \<Rightarrow> ebitmap_inv e' \<and> (\<forall>i\<in>set is. \<exists>v. cat_translates oldp newp i v) \<and>
        ebits e' = ebits e \<union> {unat (v - 1) | i v. i \<in> set is \<and> cat_translates oldp newp i v}
    | Inl err \<Rightarrow> (\<forall>k. ok k) \<longrightarrow> (\<exists>i\<in>set is. \<forall>v. \<not> cat_translates oldp newp i v)"
  using assms(2,3)
proof (induction "is" arbitrary: k e)
  case Nil
  then show ?case by auto
next
  case (Cons i "is")
  obtain name cd where name: "fetch (p_cat_val_to_name oldp) (of_nat (i + 1)) = Some name"
    "hashtab_search (sym_table (p_cats newp)) name = Some cd"
    using Cons.prems(2) by (auto split: bind_splits)
  show ?case
  proof (cases cd)
    case None
    then have "\<not> cat_translates oldp newp i v" for v using name by (auto simp: translates_def)
    moreover have "r = Inl EINVAL" using Cons.prems(2) name None by simp
    ultimately show ?thesis by auto
  next
    case (Some d)
    have tr: "cat_translates oldp newp i v \<longleftrightarrow> v = ca_value d" for v using name Some by (auto simp: translates_def)
    have b: "unat (ca_value d - 1) + 64 < 2 ^ 32" using assms(1) name Some unfolding cats_ok_def by blast
    obtain res e1 where e1: "ebitmap_set_bit (ok k) e (ca_value d - 1) True = (res, e1)" by fastforce
    note set = ebitmap_set_bit_spec [OF Cons.prems(1) b e1]
    show ?thesis
    proof (cases res)
      case False
      then have "r = Inl ENOMEM" "\<not> ok k" using Cons.prems(2) name Some e1 set(1) by auto
      then show ?thesis by auto
    next
      case True
      then have run: "mls_convert_cats ok oldp newp (Suc k) is e1 = Some r" using Cons.prems(2) name Some e1 by simp
      note IH = Cons.IH [OF set(2) run]
      have "ebits e1 = insert (unat (ca_value d - 1)) (ebits e)" using set(3) True by (simp add: bits_upd_def)
      then show ?thesis using IH tr by (cases r) auto
    qed
  qed
qed

lemma mls_convert_level_spec:
  assumes "cats_ok newp" "level_ok l" "mls_convert_level ok oldp newp l = Some (err, l')"
  shows "err = None \<Longrightarrow> level_translates oldp newp l l'"
    "err \<noteq> None \<Longrightarrow> (\<And>k. ok k) \<Longrightarrow> \<not> level_translates oldp newp l l''"
proof -
  have inv: "ebitmap_inv (cat l)" using assms(2) by (simp add: level_ok_def)
  obtain name ld where name: "fetch (p_sens_val_to_name oldp) (sens l) = Some name"
    "hashtab_search (sym_table (p_levels newp)) name = Some ld"
    using assms(3) by (auto simp: mls_convert_level_def split: bind_splits)
  have "(err = None \<longrightarrow> level_translates oldp newp l l') \<and> (err \<noteq> None \<longrightarrow> (\<forall>k. ok k) \<longrightarrow> \<not> level_translates oldp newp l l'')"
  proof (cases ld)
    case None
    then show ?thesis using assms(3) name by (auto simp: mls_convert_level_def level_translates_def translates_def)
  next
    case (Some d)
    then obtain r where r: "mls_convert_cats ok oldp newp 0 (ebitmap_positions (cat l)) ebitmap_init = Some r"
      using assms(3) name by (auto simp: mls_convert_level_def Let_def split: bind_splits)
    note spec = mls_convert_cats_spec [OF assms(1) ebitmap_init_inv r, unfolded ebitmap_positions_set [OF inv]]
    show ?thesis
    proof (cases r)
      case (Inl e)
      then show ?thesis using assms(3) name Some r spec by (auto simp: mls_convert_level_def level_translates_def)
    next
      case (Inr e)
      then have l': "err = None" "l' = l\<lparr>sens := sens (ld_level d), cat := e\<rparr>"
        using assms(3) name Some r by (simp_all add: mls_convert_level_def)
      moreover have "ebits ebitmap_init = {}" by (simp add: ebits_def ebitmap_init_def)
      moreover have "translates (p_levels newp) (p_sens_val_to_name oldp) (\<lambda>d. sens (ld_level d)) (sens l) (sens (ld_level d))"
        using name Some by (auto simp: translates_def)
      ultimately show ?thesis using spec Inr by (simp add: level_translates_def level_ok_def)
    qed
  qed
  then show "err = None \<Longrightarrow> level_translates oldp newp l l'" "err \<noteq> None \<Longrightarrow> (\<And>k. ok k) \<Longrightarrow> \<not> level_translates oldp newp l l''" by blast+
qed


lemma mls_convert_context_spec:
  assumes "cats_ok newp" "range_ok (c_range c)" "mls_convert_context ok oldp newp c = Some (err, c')"
  shows "c_user c' = c_user c" "c_role c' = c_role c" "c_type c' = c_type c"
    "err = None \<Longrightarrow> level_translates oldp newp (lo (c_range c)) (lo (c_range c')) \<and> level_translates oldp newp (hi (c_range c)) (hi (c_range c'))"
    "err \<noteq> None \<Longrightarrow> (\<And>q. ok q) \<Longrightarrow> \<not> (level_translates oldp newp (lo (c_range c)) l0 \<and> level_translates oldp newp (hi (c_range c)) l1)"
proof -
  have lv: "level_ok (lo (c_range c))" "level_ok (hi (c_range c))" using assms(2) by (simp_all add: range_ok_def)
  obtain e0 m0 where m0: "mls_convert_level (\<lambda>i. ok [0, i]) oldp newp (lo (c_range c)) = Some (e0, m0)"
    using assms(3) by (auto simp: mls_convert_context_def split: bind_splits)
  note s0 = mls_convert_level_spec [OF assms(1) lv(1) m0]
  have "c_user c' = c_user c \<and> c_role c' = c_role c \<and> c_type c' = c_type c \<and>
    (err = None \<longrightarrow> level_translates oldp newp (lo (c_range c)) (lo (c_range c')) \<and> level_translates oldp newp (hi (c_range c)) (hi (c_range c'))) \<and>
    (err \<noteq> None \<longrightarrow> (\<forall>q. ok q) \<longrightarrow> \<not> (level_translates oldp newp (lo (c_range c)) l0 \<and> level_translates oldp newp (hi (c_range c)) l1))"
  proof (cases e0)
    case (Some e)
    then show ?thesis using assms(3) m0 s0(2) [of l0] by (auto simp: mls_convert_context_def Let_def)
  next
    case None
    then obtain e1 m1 where m1: "mls_convert_level (\<lambda>i. ok [1, i]) oldp newp (hi (c_range c)) = Some (e1, m1)"
      and c': "err = e1" "c' = c\<lparr>c_range := (c_range c)\<lparr>lo := m0, hi := m1\<rparr>\<rparr>"
      using assms(3) m0 by (auto simp: mls_convert_context_def Let_def split: bind_splits)
    note s1 = mls_convert_level_spec [OF assms(1) lv(2) m1]
    show ?thesis using c' None s0(1) s1(1) s1(2) [of l1] by auto
  qed
  then show "c_user c' = c_user c" "c_role c' = c_role c" "c_type c' = c_type c"
    "err = None \<Longrightarrow> level_translates oldp newp (lo (c_range c)) (lo (c_range c')) \<and> level_translates oldp newp (hi (c_range c)) (hi (c_range c'))"
    "err \<noteq> None \<Longrightarrow> (\<And>q. ok q) \<Longrightarrow> \<not> (level_translates oldp newp (lo (c_range c)) l0 \<and> level_translates oldp newp (hi (c_range c)) l1)"
    by blast+
qed

lemma convert_bad_result: "convert_bad alloc oldp oldc c = Some r \<Longrightarrow> r = (True, c)"
  by (auto simp: convert_bad_def split: bind_splits)

lemma convert_context_spec:
  assumes cats: "cats_ok newp" and range: "range_ok (c_range c)" and run: "convert_context ok alloc oldp newp c = Some (bad, c')"
  shows "\<not> bad \<Longrightarrow> context_translates oldp newp c c' \<and> ctx_ok newp c'"
    "bad \<Longrightarrow> (\<And>q. ok q) \<Longrightarrow> context_translates oldp newp c c'' \<Longrightarrow> \<not> ctx_ok newp c''"
proof -
  have "(\<not> bad \<longrightarrow> context_translates oldp newp c c' \<and> ctx_ok newp c') \<and>
    (bad \<longrightarrow> (\<forall>q. ok q) \<longrightarrow> context_translates oldp newp c c'' \<longrightarrow> \<not> ctx_ok newp c'')"
  proof (cases "context_cpy (\<lambda>q. ok (0 # q)) context_init c")
    case None
    have "\<not> (\<forall>q. ok q)"
    proof
      assume "\<forall>q. ok q"
      then show False using context_cpy_total [of "\<lambda>q. ok (0 # q)" context_init c] None by simp
    qed
    then show ?thesis using run None by (auto simp: convert_context_def)
  next
    case (Some oldc)
    note run = run [unfolded convert_context_def Some option.case]
    obtain u ud where u: "fetch (p_user_val_to_name oldp) (c_user c) = Some u" "hashtab_search (sym_table (p_users newp)) u = Some ud"
      using run by (auto split: bind_splits)
    show ?thesis
    proof (cases ud)
      case None
      then show ?thesis using run u convert_bad_result by (fastforce simp: context_translates_def translates_def)
    next
      case (Some d)
      note run = run [unfolded u Some bind.bind_lunit option.case Let_def, simplified]
      obtain rn rd where r: "fetch (p_role_val_to_name oldp) (c_role c) = Some rn"
        "hashtab_search (sym_table (p_roles newp)) rn = Some (Some rd)"
        using run by (auto split: bind_splits)
      note run = run [unfolded r bind.bind_lunit]
      obtain tn td where t: "fetch (p_type_val_to_name oldp) (c_type c) = Some tn" "hashtab_search (sym_table (p_types newp)) tn = Some td"
        using run by (auto split: bind_splits)
      note run = run [unfolded t bind.bind_lunit]
      show ?thesis
      proof (cases td)
        case None
        then show ?thesis using run t convert_bad_result by (fastforce simp: context_translates_def translates_def)
      next
        case td: (Some d')
        let ?c = "c\<lparr>c_user := ud_value d, c_role := rd_value rd, c_type := td_value d'\<rparr>"
        note run = run [unfolded td option.case]
        obtain err c1 where c1: "mls_convert_context (\<lambda>q. ok (Suc 0 # q)) oldp newp ?c = Some (err, c1)"
          using run by (auto split: bind_splits)
        have "range_ok (c_range ?c)" using range by simp
        note s = mls_convert_context_spec [OF cats this c1]
        note run = run [unfolded c1 bind.bind_lunit prod.case]
        have tr: "context_translates oldp newp c c1" if "err = None"
          using s(1-3) s(4) [OF that] u r t Some td by (auto simp: context_translates_def translates_def)
        have rk: "range_ok (c_range c1)" if "err = None" using s(4) [OF that] by (simp add: level_translates_def range_ok_def)
        show ?thesis
        proof (cases "err = None")
          case False
          then have bad: "bad" using run convert_bad_result by fastforce
          have "\<not> context_translates oldp newp c c''" if "\<forall>q. ok q"
            using s(5) [OF False, of "lo (c_range c'')" "hi (c_range c'')"] that by (simp add: context_translates_def)
          then show ?thesis using bad by blast
        next
          case True
          obtain v where v: "policydb_context_isvalid newp c1 = Some v" using run True by (auto split: bind_splits)
          show ?thesis
          proof (cases v)
            case True
            then show ?thesis using run v \<open>err = None\<close> tr rk by (auto simp: ctx_ok_def)
          next
            case False
            then have bad: "bad" using run v \<open>err = None\<close> convert_bad_result by fastforce
            have "\<not> ctx_ok newp c''" if "context_translates oldp newp c c''"
              using context_translates_fun [OF tr that] v False \<open>err = None\<close> by (simp add: ctx_ok_def)
            then show ?thesis using bad by blast
          qed
        qed
      qed
    qed
  qed
  then show "\<not> bad \<Longrightarrow> context_translates oldp newp c c' \<and> ctx_ok newp c'"
    "bad \<Longrightarrow> (\<And>q. ok q) \<Longrightarrow> context_translates oldp newp c c'' \<Longrightarrow> \<not> ctx_ok newp c''" by blast+
qed


section \<open>The table of identifiers\<close>

definition pruned :: "('k \<Rightarrow> 'c \<Rightarrow> unit \<Rightarrow> (bool \<times> 'c \<times> unit) option) \<Rightarrow> 'k \<Rightarrow> 'c option \<Rightarrow> 'c option" where
  "pruned f k x = (case x of None \<Rightarrow> None | Some c \<Rightarrow>
     (case f k c () of Some (bad, c', u) \<Rightarrow> if bad then None else Some c' | None \<Rightarrow> None))"

lemma prune_chain_spec:
  assumes "sidtab_prune_chain f ch () = Some (ch', u)" "chain_ok h i ch"
  shows "chain_ok h i ch' \<and> (\<forall>k. map_of ch' k = pruned f k (map_of ch k)) \<and> fst ` set ch' \<subseteq> fst ` set ch \<and> (\<forall>(k, c)\<in>set ch. f k c () \<noteq> None)"
  using assms
proof (induction ch arbitrary: ch' u)
  case Nil
  then show ?case by (simp add: pruned_def)
next
  case (Cons e ch)
  obtain k c where e: "e = (k, c)" by (cases e)
  obtain bad c' v n where r: "f k c () = Some (bad, c', v)" "sidtab_prune_chain f ch () = Some (n, u)"
    "ch' = (if bad then n else (k, c') # n)"
    using Cons.prems(1) e by (auto split: bind_splits)
  have ok: "h k = i" "k \<notin> fst ` set ch" "chain_ok h i ch" using Cons.prems(2) e by (simp_all add: chain_ok_Cons)
  note IH = Cons.IH [OF r(2) ok(3)]
  have kn: "k \<notin> fst ` set n" using IH ok(2) by blast
  then have nk: "map_of n k = None" by (simp add: map_of_eq_None_iff)
  have pk: "pruned f k (Some c) = (if bad then None else Some c')" by (simp add: pruned_def r(1))
  have "chain_ok h i ch'" using IH kn ok(1) by (simp add: r(3) chain_ok_Cons)
  moreover have "map_of ch' k' = pruned f k' (map_of (e # ch) k')" for k'
    using IH nk pk by (simp add: r(3) e)
  moreover have "fst ` set ch' \<subseteq> fst ` set (e # ch)" using IH by (auto simp: r(3) e)
  moreover have "\<forall>(k, c)\<in>set (e # ch). f k c () \<noteq> None" using IH r(1) by (simp add: e)
  ultimately show ?case by blast
qed

lemma prune_slots_spec:
  assumes "sidtab_prune_slots f tab () = Some (tab', u)" "\<forall>i<length tab. chain_ok h (m + i) (tab ! i)"
  shows "length tab' = length tab \<and> (\<forall>i<length tab. chain_ok h (m + i) (tab' ! i) \<and> (\<forall>k. map_of (tab' ! i) k = pruned f k (map_of (tab ! i) k)) \<and>
     (\<forall>(k, c)\<in>set (tab ! i). f k c () \<noteq> None))"
  using assms
proof (induction tab arbitrary: tab' u m)
  case Nil
  then show ?case by simp
next
  case (Cons ch tab)
  obtain c1 t1 where r: "sidtab_prune_chain f ch () = Some (c1, ())" "sidtab_prune_slots f tab () = Some (t1, u)" "tab' = c1 # t1"
    using Cons.prems(1) by (auto split: bind_splits)
  have c: "chain_ok h m ch" using Cons.prems(2) by (auto dest: spec [of _ 0])
  have "\<forall>i<length tab. chain_ok h (Suc m + i) (tab ! i)" using Cons.prems(2) by (auto dest: spec [of _ "Suc _"])
  note IH = Cons.IH [OF r(2) this]
  note ch = prune_chain_spec [OF r(1) c]
  have "chain_ok h (m + i) (tab' ! i) \<and> (\<forall>k. map_of (tab' ! i) k = pruned f k (map_of ((ch # tab) ! i) k)) \<and>
      (\<forall>(k, c)\<in>set ((ch # tab) ! i). f k c () \<noteq> None)" if "i < length (ch # tab)" for i
    using that IH ch by (cases i) (auto simp: r(3))
  then show ?case using IH r(3) by auto
qed

lemma sidtab_prune_spec:
  assumes inv: "buckets_inv SIDTAB_HASH 23 (sd_htable s)" and run: "sidtab_map_remove_on_error (Some s) f () = Some (sp, u)"
  obtains s' where "sp = Some s'" "buckets_inv SIDTAB_HASH 23 (sd_htable s')" "sd_nel s' = sd_nel s"
    "\<And>k. sidtab_abs s' k = pruned f k (sidtab_abs s k)" "\<And>k c. sidtab_abs s k = Some c \<Longrightarrow> f k c () \<noteq> None"
proof -
  obtain slots where r: "sidtab_prune_slots f (sd_htable s) () = Some (slots, u)" "sp = Some (s\<lparr>sd_htable := slots\<rparr>)"
    using run by (auto simp: sidtab_map_remove_on_error_def split: bind_splits)
  have len: "length (sd_htable s) = 23" "\<forall>i<length (sd_htable s). chain_ok SIDTAB_HASH (0 + i) (sd_htable s ! i)"
    using inv by (simp_all add: buckets_inv_def)
  note p = prune_slots_spec [OF r(1) len(2)]
  show ?thesis
  proof (rule that [OF r(2)])
    show "buckets_inv SIDTAB_HASH 23 (sd_htable (s\<lparr>sd_htable := slots\<rparr>))" using p len(1) by (simp add: buckets_inv_def)
    show "sd_nel (s\<lparr>sd_htable := slots\<rparr>) = sd_nel s" by simp
    fix k
    have h: "SIDTAB_HASH k < length (sd_htable s)" using SIDTAB_HASH_less len(1) by simp
    then show "sidtab_abs (s\<lparr>sd_htable := slots\<rparr>) k = pruned f k (sidtab_abs s k)"
      using p by (simp add: sidtab_abs_def buckets_map_def)
    show "f k c () \<noteq> None" if "sidtab_abs s k = Some c" for c
      using p h that by (auto simp: sidtab_abs_def buckets_map_def dest!: map_of_SomeD)
  qed
qed

section \<open>Classes\<close>

definition perms_kept :: "perm_datum symtab \<Rightarrow> perm_datum symtab \<Rightarrow> bool" where
  "perms_kept s s2 \<longleftrightarrow> (\<forall>n d. sym_abs s n = Some d \<longrightarrow>
     (\<exists>d2. hashtab_search (sym_table s2) n = Some (Some d2) \<and> pd_value d2 = pd_value d))"

definition class_kept :: "class_datum \<Rightarrow> class_datum \<Rightarrow> bool" where
  "class_kept d d2 \<longleftrightarrow> cl_value d2 = cl_value d \<and> perms_kept (cl_permissions d) (cl_permissions d2) \<and>
     (case (comdatum d, comdatum d2) of
        (None, None) \<Rightarrow> True
      | (Some c, Some c2) \<Rightarrow> perms_kept (cd_permissions c) (cd_permissions c2)
      | _ \<Rightarrow> False)"

definition classes_kept :: "policydb \<Rightarrow> policydb \<Rightarrow> bool" where
  "classes_kept p p2 \<longleftrightarrow> (\<forall>n d. sym_abs (p_classes p) n = Some d \<longrightarrow>
     (\<exists>d2. hashtab_search (sym_table (p_classes p2)) n = Some (Some d2) \<and> class_kept d d2))"

definition table_ok :: "'d symtab \<Rightarrow> bool" where
  "table_ok s \<longleftrightarrow> (\<forall>h. sym_table s = Some h \<longrightarrow> hashtab_ok h)"

text \<open>The tables of the classes and of their permissions are valid.\<close>

definition classes_ok :: "policydb \<Rightarrow> bool" where
  "classes_ok p \<longleftrightarrow> table_ok (p_classes p) \<and> (\<forall>n d. sym_abs (p_classes p) n = Some d \<longrightarrow>
     table_ok (cl_permissions d) \<and> (\<forall>c. comdatum d = Some c \<longrightarrow> table_ok (cd_permissions c)))"

lemma walk_all:
  assumes "\<And>k d. f k d None = (0, None)"
  shows "hashtab_map_chain f es (Some ()) = (0, Some ()) \<longleftrightarrow> (\<forall>(k, d)\<in>set es. f k d (Some ()) = (0, Some ()))"
proof (induction es)
  case (Cons e es)
  obtain k d where e: "e = (k, d)" by (cases e)
  have none: "hashtab_map_chain f xs None = (0, None)" for xs by (induction xs) (auto simp: assms)
  obtain r a where f: "f k d (Some ()) = (r, a)" by fastforce
  show ?case
  proof (cases a)
    case None
    then show ?thesis using f e none by simp
  next
    case (Some u)
    then show ?thesis using f e Cons.IH by auto
  qed
qed simp

lemma table_walk_none:
  assumes "\<And>k d. f k d None = (0, None)"
  shows "snd (hashtab_map t f None) = None"
proof -
  have "snd (hashtab_map_chain f es None) = None" for es by (induction es) (auto simp: assms)
  then have "snd (hashtab_map_slots f ss None) = None" for ss
    by (induction ss) (auto split: prod.splits, (metis snd_conv)+)
  then show ?thesis by (simp add: hashtab_map_def split: option.splits)
qed

lemma table_walk:
  assumes "table_ok s" "\<And>k d. f k d None = (0, None)"
  shows "hashtab_map (sym_table s) f (Some ()) = (0, Some ()) \<longleftrightarrow> (\<forall>n d. sym_abs s n = Some d \<longrightarrow> f n d (Some ()) = (0, Some ()))"
proof (cases "sym_table s")
  case None
  then show ?thesis by (simp add: hashtab_map_def sym_abs_def)
next
  case (Some h)
  then have h: "hashtab_ok h" using assms(1) by (simp add: table_ok_def)
  note es = entries_abs [OF h]
  have "(n, d) \<in> set (concat (htable h)) \<longleftrightarrow> sym_abs s n = Some d" for n d
    using es map_of_eq_Some_iff [OF es(1)] Some by (metis sym_abs_def option.simps(5))
  then show ?thesis unfolding Some hashtab_map_concat [OF h] walk_all [where f = f, OF assms(2)] by (fastforce simp del: set_concat)
qed

lemma validate_perm_table:
  assumes "table_ok s"
  shows "hashtab_map (sym_table s) (validate_perm (sym_table s2)) (Some ()) = (0, Some ()) \<longleftrightarrow> perms_kept s s2"
proof -
  have "validate_perm (sym_table s2) k d (Some ()) = (0, Some ()) \<longleftrightarrow>
      (\<exists>d2. hashtab_search (sym_table s2) k = Some (Some d2) \<and> pd_value d2 = pd_value d)" for k d
    by (auto simp: validate_perm_def split: option.splits)
  then show ?thesis unfolding perms_kept_def by (subst table_walk [OF assms]) (simp_all add: validate_perm_def)
qed

lemma validate_class_kept:
  assumes "table_ok (cl_permissions d)" "\<And>c. comdatum d = Some c \<Longrightarrow> table_ok (cd_permissions c)"
  shows "validate_class newp k d (Some ()) = (0, Some ()) \<longleftrightarrow>
    (\<exists>d2. hashtab_search (sym_table (p_classes newp)) k = Some (Some d2) \<and> class_kept d d2)"
proof (cases "\<exists>d2. hashtab_search (sym_table (p_classes newp)) k = Some (Some d2)")
  case False
  then show ?thesis by (auto simp: validate_class_def split: option.splits)
next
  case True
  then obtain d2 where d2: "hashtab_search (sym_table (p_classes newp)) k = Some (Some d2)" by blast
  obtain r u where pr: "hashtab_map (sym_table (cl_permissions d)) (validate_perm (sym_table (cl_permissions d2))) (Some ()) = (r, u)" by fastforce
  have p: "r = 0 \<and> u = Some () \<longleftrightarrow> perms_kept (cl_permissions d) (cl_permissions d2)"
    using validate_perm_table [OF assms(1), of "cl_permissions d2"] pr by simp
  show ?thesis
  proof (cases "comdatum d")
    case None
    then show ?thesis using d2 pr p by (auto simp: validate_class_def class_kept_def split: option.splits)
  next
    case (Some c)
    show ?thesis
    proof (cases "comdatum d2")
      case None
      then show ?thesis using d2 Some by (simp add: validate_class_def class_kept_def)
    next
      case c2: (Some c2)
      obtain r' u' where cr: "hashtab_map (sym_table (cd_permissions c)) (validate_perm (sym_table (cd_permissions c2))) (Some ()) = (r', u')" by fastforce
      have q: "r' = 0 \<and> u' = Some () \<longleftrightarrow> perms_kept (cd_permissions c) (cd_permissions c2)"
        using validate_perm_table [OF assms(2) [OF Some], of "cd_permissions c2"] cr by simp
      have none: "snd (hashtab_map t (validate_perm h) None) = None" for t h
        by (rule table_walk_none) (simp add: validate_perm_def)
      show ?thesis
      proof (cases u')
        case None
        then show ?thesis using d2 Some c2 cr q none [of "sym_table (cl_permissions d)" "sym_table (cl_permissions d2)"]
          by (auto simp: validate_class_def class_kept_def Let_def split: prod.splits)
      next
        case (Some x)
        then show ?thesis using d2 \<open>comdatum d = Some c\<close> c2 cr pr p q by (auto simp: validate_class_def class_kept_def Let_def)
      qed
    qed
  qed
qed


lemma classes_kept_iff:
  assumes "classes_ok p"
  shows "hashtab_map (sym_table (p_classes p)) (validate_class newp) (Some ()) = (0, Some ()) \<longleftrightarrow> classes_kept p newp"
proof -
  have "table_ok (p_classes p)" using assms by (simp add: classes_ok_def)
  from table_walk [OF this, of "validate_class newp"] show ?thesis
    using validate_class_kept assms unfolding classes_kept_def classes_ok_def by (simp add: validate_class_def)
qed

section \<open>Loading\<close>

text \<open>The table of identifiers after a policy was loaded.\<close>

definition sids_converted :: "bool \<Rightarrow> ss \<Rightarrow> ss \<Rightarrow> bool" where
  "sids_converted memory st st' \<longleftrightarrow> (\<forall>sid.
     case (sidtab_abs (ss_sidtab st) sid, sidtab_abs (ss_sidtab st') sid) of
       (None, None) \<Rightarrow> True
     | (None, Some c') \<Rightarrow> False
     | (Some c, Some c') \<Rightarrow> context_translates (ss_policydb st) (ss_policydb st') c c' \<and> ctx_ok (ss_policydb st') c'
     | (Some c, None) \<Rightarrow> memory \<longrightarrow> \<not> (\<exists>c'. context_translates (ss_policydb st) (ss_policydb st') c c' \<and> ctx_ok (ss_policydb st') c'))"

lemma load_policy_error:
  "load_policy ok alloc scratch st fp = Some (Some e, st') \<Longrightarrow> e = EINVAL \<and> st' = st"
  by (auto simp: load_policy_def load_read_def Let_def split: bind_splits option.splits prod.splits if_splits)

lemma load_policy_spec:
  assumes st: "ss_ok st" "classes_ok (ss_policydb st)" and run: "load_policy ok alloc scratch st fp = Some (None, st')"
  obtains newp rest where "policydb_read (\<lambda>q. ok (0 # q)) scratch fp = Some (Some (newp, rest))" "ss_policydb st' = newp"
    "classes_kept (ss_policydb st) newp" "latest_granting st' = latest_granting st + 1" "ss_initialized st' = ss_initialized st"
    "sd_nel (ss_sidtab st') = sd_nel (ss_sidtab st)" "buckets_inv SIDTAB_HASH 23 (sd_htable (ss_sidtab st'))"
    "cats_ok newp \<Longrightarrow> sids_converted (\<forall>q. ok q) st st'"
proof -
  let ?f = "\<lambda>newp sid c u. map_option (\<lambda>(bad, c). (bad, c, u))
                (convert_context (\<lambda>q. ok (1 # unat sid # q)) alloc (ss_policydb st) newp c)"
  obtain newp rest where r: "policydb_read (\<lambda>q. ok (0 # q)) scratch fp = Some (Some (newp, rest))"
    using run by (auto simp: load_policy_def load_read_def split: bind_splits option.splits)
  note run = run [unfolded load_policy_def load_read_def r bind.bind_lunit option.case prod.case]
  obtain s u where v: "hashtab_map (sym_table (p_classes (ss_policydb st))) (validate_class newp) (Some ()) = (0, Some ())"
    and p: "sidtab_map_remove_on_error (Some (ss_sidtab st)) (?f newp) () = Some (Some s, u)"
    and st': "st' = st\<lparr>ss_sidtab := s, ss_policydb := newp, latest_granting := latest_granting st + 1\<rparr>"
    using run by (auto simp: Let_def split: bind_splits prod.splits if_splits)
  have sok: "sidtab_ok (ss_sidtab st)" and ctx: "\<And>sid c. sidtab_abs (ss_sidtab st) sid = Some c \<Longrightarrow> ctx_ok (ss_policydb st) c"
    using st(1) by (auto simp: ss_ok_def ran_def)
  obtain s' where s': "Some s = Some s'" "buckets_inv SIDTAB_HASH 23 (sd_htable s')" "sd_nel s' = sd_nel (ss_sidtab st)"
    "\<And>k. sidtab_abs s' k = pruned (?f newp) k (sidtab_abs (ss_sidtab st) k)"
    "\<And>k c. sidtab_abs (ss_sidtab st) k = Some c \<Longrightarrow> ?f newp k c () \<noteq> None"
    by (rule sidtab_prune_spec [OF sidtab_okD(1) [OF sok] p]) (rule that)
  have conv: "sids_converted (\<forall>q. ok q) st st'" if cats: "cats_ok newp"
  proof -
    have "case (sidtab_abs (ss_sidtab st) sid, sidtab_abs s' sid) of
       (None, None) \<Rightarrow> True
     | (None, Some c') \<Rightarrow> False
     | (Some c, Some c') \<Rightarrow> context_translates (ss_policydb st) newp c c' \<and> ctx_ok newp c'
     | (Some c, None) \<Rightarrow> (\<forall>q. ok q) \<longrightarrow> \<not> (\<exists>c'. context_translates (ss_policydb st) newp c c' \<and> ctx_ok newp c')" for sid
    proof (cases "sidtab_abs (ss_sidtab st) sid")
      case None
      then show ?thesis using s'(4) by (simp add: pruned_def)
    next
      case (Some c)
      obtain bad c1 where c1: "convert_context (\<lambda>q. ok (1 # unat sid # q)) alloc (ss_policydb st) newp c = Some (bad, c1)"
        using s'(5) [OF Some] by auto
      have "range_ok (c_range c)" using ctx [OF Some] by (simp add: ctx_ok_def)
      note spec = convert_context_spec [OF cats this c1]
      have "sidtab_abs s' sid = (if bad then None else Some c1)" using s'(4) Some c1 by (simp add: pruned_def)
      then show ?thesis using spec Some by (cases bad) auto
    qed
    moreover have pd: "ss_policydb st' = newp" "ss_sidtab st' = s'" using s'(1) by (simp_all add: st')
    ultimately show ?thesis unfolding sids_converted_def pd by blast
  qed
  show ?thesis
    by (rule that [OF r]) (use st' s' conv v classes_kept_iff [OF st(2)] in auto)
qed

end
