(* ===== verification/Services_Separate.thy ===== *)
theory Services_Separate
  imports Services_Convert
begin

text \<open>
  What loading a policy keeps of the server's invariant, and when it keeps the contexts of different identifiers
  apart: no two values of the old policy get the same value in the new one.  Names that only the new policy has, such as
  new aliases, do not matter.
\<close>

definition values_apart :: "'d symtab \<Rightarrow> string option list \<Rightarrow> ('d \<Rightarrow> u32) \<Rightarrow> bool" where
  "values_apart s names val \<longleftrightarrow> (\<forall>v v' w. translates s names val v w \<and> translates s names val v' w \<longrightarrow> v = v')"

definition names_apart :: "policydb \<Rightarrow> policydb \<Rightarrow> bool" where
  "names_apart oldp newp \<longleftrightarrow>
     values_apart (p_users newp) (p_user_val_to_name oldp) ud_value \<and> values_apart (p_roles newp) (p_role_val_to_name oldp) rd_value \<and>
     values_apart (p_types newp) (p_type_val_to_name oldp) td_value \<and>
     values_apart (p_levels newp) (p_sens_val_to_name oldp) (\<lambda>d. sens (ld_level d)) \<and>
     values_apart (p_cats newp) (p_cat_val_to_name oldp) ca_value"

lemma values_apartD: "values_apart s xs val \<Longrightarrow> translates s xs val v w \<Longrightarrow> translates s xs val v' w \<Longrightarrow> v = v'"
  unfolding values_apart_def by blast

lemma level_translates_cats:
  assumes "values_apart (p_cats newp) (p_cat_val_to_name oldp) ca_value"
    "level_translates oldp newp l1 l" "level_translates oldp newp l2 l" "level_ok l1" "level_ok l2"
  shows "ebits (cat l1) \<subseteq> ebits (cat l2)"
proof
  fix i assume i: "i \<in> ebits (cat l1)"
  have b: "i + 1 < 2 ^ 32" using ebitmap_bit_bound(2) [OF _ i] assms(4) by (simp add: level_ok_def)
  obtain v where v: "cat_translates oldp newp i v" using assms(2) i by (auto simp: level_translates_def)
  then have "unat (v - 1) \<in> ebits (cat l)" using assms(2) i unfolding level_translates_def by blast
  then obtain j w where j: "j \<in> ebits (cat l2)" "cat_translates oldp newp j w" "unat (v - 1) = unat (w - 1)"
    using assms(3) unfolding level_translates_def by blast
  have "j + 1 < 2 ^ 32" using ebitmap_bit_bound(2) [OF _ j(1)] assms(5) by (simp add: level_ok_def)
  moreover have "v - 1 = w - 1" using j(3) by (simp add: unsigned_word_eqI)
  then have "v = w" by simp
  then have "(of_nat (i + 1) :: u32) = of_nat (j + 1)" using values_apartD [OF assms(1)] v j(2) by blast
  ultimately have "i + 1 = j + 1" using b unat_of_nat_u32 by metis
  then show "i \<in> ebits (cat l2)" using j(1) by simp
qed

lemma level_translates_inj:
  assumes "names_apart oldp newp" "level_translates oldp newp l1 l" "level_translates oldp newp l2 l" "level_ok l1" "level_ok l2"
  shows "l1 = l2"
proof -
  have n: "values_apart (p_cats newp) (p_cat_val_to_name oldp) ca_value"
    "values_apart (p_levels newp) (p_sens_val_to_name oldp) (\<lambda>d. sens (ld_level d))"
    using assms(1) by (simp_all add: names_apart_def)
  have "sens l1 = sens l2"
    using assms(2,3) values_apartD [OF n(2), of "sens l1" "sens l" "sens l2"] by (simp add: level_translates_def)
  moreover have "ebits (cat l1) = ebits (cat l2)" using level_translates_cats [OF n(1)] assms(2-5) by blast
  then have "cat l1 = cat l2" using assms(4,5) by (intro ebitmap_ext) (simp_all add: level_ok_def)
  ultimately show ?thesis by simp
qed

lemma context_translates_inj:
  assumes "names_apart oldp newp" "ctx_ok oldp c1" "ctx_ok oldp c2" "context_translates oldp newp c1 c" "context_translates oldp newp c2 c"
  shows "c1 = c2"
proof -
  have r: "range_ok (c_range c1)" "range_ok (c_range c2)" using assms(2,3) by (simp_all add: ctx_ok_def)
  have "c_user c1 = c_user c2" "c_role c1 = c_role c2" "c_type c1 = c_type c2"
    using assms(1,4,5) unfolding context_translates_def names_apart_def by (meson values_apartD)+
  moreover have "lo (c_range c1) = lo (c_range c2)" "hi (c_range c1) = hi (c_range c2)"
    using assms(4,5) r level_translates_inj [OF assms(1)] unfolding context_translates_def range_ok_def by blast+
  ultimately show ?thesis by simp
qed

text \<open>The server's invariant after a policy was loaded.\<close>

lemma converted_from:
  assumes "sids_converted m st st'" "sidtab_abs (ss_sidtab st') sid = Some c"
  obtains c0 where "sidtab_abs (ss_sidtab st) sid = Some c0" "context_translates (ss_policydb st) (ss_policydb st') c0 c" "ctx_ok (ss_policydb st') c"
  using assms(1) [unfolded sids_converted_def, rule_format, of sid] assms(2) by (auto split: option.splits)

lemma load_policy_ok:
  assumes st: "ss_ok st" "classes_ok (ss_policydb st)" and run: "load_policy ok alloc scratch st fp = Some (None, st')"
    and p: "cats_ok (ss_policydb st')" "ocon_ok (ss_policydb st')"
  shows "ss_ok st'"
proof -
  obtain newp rest where new: "ss_policydb st' = newp" "sd_nel (ss_sidtab st') = sd_nel (ss_sidtab st)"
    "buckets_inv SIDTAB_HASH 23 (sd_htable (ss_sidtab st'))" "cats_ok newp \<Longrightarrow> sids_converted (\<forall>q. ok q) st st'"
    by (rule load_policy_spec [OF st run]) (rule that)
  then have conv: "sids_converted (\<forall>q. ok q) st st'" using p(1) by simp
  have s: "sidtab_ok (ss_sidtab st)" using st(1) by (simp add: ss_ok_def)
  have "0 < k \<and> k \<le> sd_nel (ss_sidtab st')" if "sidtab_abs (ss_sidtab st') k = Some c" for k c
    by (rule converted_from [OF conv that]) (use sidtab_okD(2) [OF s] new(2) in metis)
  then have "sidtab_ok (ss_sidtab st')" using new(3) by (auto simp: sidtab_ok_def)
  moreover have "ctx_ok (ss_policydb st') c" if "sidtab_abs (ss_sidtab st') k = Some c" for k c
    by (rule converted_from [OF conv that])
  ultimately show ?thesis using p by (auto simp: ss_ok_def ran_def)
qed

lemma load_policy_distinct:
  assumes st: "ss_ok st" "classes_ok (ss_policydb st)" and run: "load_policy ok alloc scratch st fp = Some (None, st')"
    and p: "cats_ok (ss_policydb st')" "names_apart (ss_policydb st) (ss_policydb st')" "sidtab_distinct (ss_sidtab st)"
  shows "sidtab_distinct (ss_sidtab st')"
proof -
  have conv: "sids_converted (\<forall>q. ok q) st st'"
    by (rule load_policy_spec [OF st run]) (use p(1) in auto)
  have ctx: "ctx_ok (ss_policydb st) c" if "sidtab_abs (ss_sidtab st) sid = Some c" for sid c
    using st(1) that by (auto simp: ss_ok_def ran_def)
  show ?thesis
  proof (rule sidtab_distinctI)
    fix k k' c
    assume "sidtab_abs (ss_sidtab st') k = Some c" "sidtab_abs (ss_sidtab st') k' = Some c"
    then obtain c0 c1 where 0: "sidtab_abs (ss_sidtab st) k = Some c0" "context_translates (ss_policydb st) (ss_policydb st') c0 c"
      and 1: "sidtab_abs (ss_sidtab st) k' = Some c1" "context_translates (ss_policydb st) (ss_policydb st') c1 c"
      by (meson converted_from [OF conv])
    have "c0 = c1" by (rule context_translates_inj [OF p(2) ctx [OF 0(1)] ctx [OF 1(1)] 0(2) 1(2)])
    then show "k = k'" using sidtab_distinctD [OF p(3)] 0(1) 1(1) by metis
  qed
qed

end
