(* ===== verification/Services_Defined.thy ===== *)
theory Services_Defined
  imports Services_Separate
begin

text \<open>
  When loading a policy has no undefined behaviour.  The contexts in the table have names under the old
  policy, the tables of the new one are valid and its arrays index them.  Then there are two failures: a role that the
  new policy does not have, and a context without a valid translation whose string overruns the block it is written
  to.
\<close>

section \<open>Walks\<close>

lemma prune_chain_defined: "sidtab_prune_chain f ch () = None \<longleftrightarrow> (\<exists>x\<in>set ch. f (fst x) (snd x) () = None)"
proof (induction ch)
  case (Cons e ch)
  obtain k c where e: "e = (k, c)" by (cases e)
  show ?case using Cons.IH by (cases "f k c ()"; cases "sidtab_prune_chain f ch ()") (simp_all add: e split_def)
qed simp

lemma prune_slots_defined: "sidtab_prune_slots f tab () = None \<longleftrightarrow> (\<exists>x\<in>set (concat tab). f (fst x) (snd x) () = None)"
proof (induction tab)
  case (Cons ch tab)
  show ?case
  proof (cases "sidtab_prune_chain f ch ()")
    case None
    then show ?thesis using prune_chain_defined [of f ch] by auto
  next
    case (Some r)
    then have "\<not> (\<exists>x\<in>set ch. f (fst x) (snd x) () = None)" using prune_chain_defined [of f ch] by simp
    then show ?thesis using Some Cons.IH by (cases "sidtab_prune_slots f tab ()") (simp_all add: split_def bex_Un)
  qed
qed simp

lemma sidtab_prune_defined:
  assumes "sidtab_ok s"
  shows "sidtab_map_remove_on_error (Some s) f () = None \<longleftrightarrow> (\<exists>sid c. sidtab_abs s sid = Some c \<and> f sid c () = None)"
proof -
  note es = sdh.entries_map [OF sidtab_okD(1) [OF assms], folded sidtab_abs_def]
  have mem: "(k, c) \<in> set (concat (sd_htable s)) \<longleftrightarrow> sidtab_abs s k = Some c" for k c
    using map_of_eq_Some_iff [OF es(1)] by (simp add: es(2) del: set_concat)
  have "sidtab_map_remove_on_error (Some s) f () = None \<longleftrightarrow> sidtab_prune_slots f (sd_htable s) () = None"
    by (auto simp: sidtab_map_remove_on_error_def split: bind_splits)
  then show ?thesis unfolding prune_slots_defined using mem by (metis fst_conv snd_conv prod.collapse)
qed

section \<open>Translation\<close>

text \<open>A policy whose tables can be searched and whose arrays have an element for each value in the tables.\<close>

definition lookups_ok :: "policydb \<Rightarrow> bool" where
  "lookups_ok p \<longleftrightarrow> table_ok (p_users p) \<and> table_ok (p_roles p) \<and> table_ok (p_types p) \<and> table_ok (p_levels p) \<and> table_ok (p_cats p) \<and>
     policydb_indexed p \<and> (\<forall>n d. sym_abs (p_levels p) n = Some d \<longrightarrow> (\<exists>m. fetch (p_sens_val_to_name p) (sens (ld_level d)) = Some m))"

lemma table_search: "table_ok s \<Longrightarrow> hashtab_search (sym_table s) n = Some (sym_abs s n)"
  by (cases "sym_table s") (simp_all add: table_ok_def sym_abs_def hashtab_search_abs, simp add: hashtab_search_def)

lemma index_fetch:
  assumes "sym_indexes all_of v self_of s xs" "sym_abs s n = Some d" "v d \<noteq> 0" "v d \<le> sym_nprim s"
  shows "\<exists>x. fetch xs (v d) = Some x"
proof -
  have "unat (v d - 1) < unat (sym_nprim s)"
    using assms(3,4) by (metis One_nat_def Suc_pred le_less_trans lessI unat_gt_0 unat_minus_one word_le_nat_alt less_le_trans)
  then have i: "unat (v d - 1) < length xs" using assms(1) by (simp add: sym_indexes_def indexes_def)
  then have "\<exists>x. xs ! unat (v d - 1) = Some x" using assms(1,2) unfolding sym_indexes_def indexes_def by metis
  then show ?thesis using i by (simp add: fetch_def)
qed

lemma mls_convert_cats_defined:
  assumes "list_all (\<lambda>i. \<exists>m. fetch (p_cat_val_to_name oldp) (of_nat (i + 1)) = Some m) is" "table_ok (p_cats newp)"
  shows "mls_convert_cats ok oldp newp k is e \<noteq> None"
  using assms(1)
proof (induction "is" arbitrary: k e)
  case (Cons i "is")
  then obtain m where m: "fetch (p_cat_val_to_name oldp) (of_nat (i + 1)) = Some m" by auto
  then show ?case using Cons by (auto simp: table_search [OF assms(2)] split: option.splits prod.splits bool.splits)
qed simp

lemma mls_convert_level_defined:
  assumes "level_names oldp l n ns" "table_ok (p_cats newp)" "table_ok (p_levels newp)"
  shows "mls_convert_level ok oldp newp l \<noteq> None"
proof -
  have "list_all (\<lambda>i. \<exists>m. fetch (p_cat_val_to_name oldp) (of_nat (i + 1)) = Some m) (ebitmap_positions (cat l))"
    using assms(1) unfolding level_names_def list_all2_conv_all_nth list_all_length by metis
  from mls_convert_cats_defined [OF this assms(2)]
  obtain r where "mls_convert_cats ok oldp newp 0 (ebitmap_positions (cat l)) ebitmap_init = Some r" by blast
  moreover obtain ld where "fetch (p_sens_val_to_name oldp) (sens l) = Some n" using assms(1) by (auto simp: level_names_def)
  ultimately show ?thesis
    by (auto simp: mls_convert_level_def table_search [OF assms(3)] Let_def split: option.splits sum.splits)
qed


lemma mls_convert_context_defined:
  assumes "context_names oldp c u r t ns0 ns1" "table_ok (p_cats newp)" "table_ok (p_levels newp)"
    "c_range c' = c_range c"
  shows "mls_convert_context ok oldp newp c' \<noteq> None"
proof -
  have l: "level_names oldp (lo (c_range c')) (fst ns0) (snd ns0)" "level_names oldp (hi (c_range c')) (fst ns1) (snd ns1)"
    using assms(1,4) by (simp_all add: context_names_def)
  obtain e0 m0 where 0: "mls_convert_level (\<lambda>i. ok [0, i]) oldp newp (lo (c_range c')) = Some (e0, m0)"
    using mls_convert_level_defined [OF l(1) assms(2,3)] by (metis not_Some_eq surj_pair)
  obtain e1 m1 where 1: "mls_convert_level (\<lambda>i. ok [1, i]) oldp newp (hi (c_range c')) = Some (e1, m1)"
    using mls_convert_level_defined [OF l(2) assms(2,3)] by (metis not_Some_eq surj_pair)
  show ?thesis using 0 1 by (simp add: mls_convert_context_def Let_def)
qed

lemma ex_false: "\<exists>y. \<not> y" "Ex Not"
  by blast+

lemma mls_level_isvalid_defined:
  assumes "lookups_ok p" "sym_abs (p_levels p) n = Some d" "sens l = sens (ld_level d)"
  shows "mls_level_isvalid p l \<noteq> None"
proof -
  obtain m where m: "fetch (p_sens_val_to_name p) (sens l) = Some m" and t: "table_ok (p_levels p)"
    using assms by (auto simp: lookups_ok_def)
  show ?thesis by (simp add: mls_level_isvalid_def m table_search [OF t] ex_false split: option.splits)
qed

lemma isvalid_defined:
  assumes p: "lookups_ok p" and r: "sym_abs (p_roles p) rn = Some rd" "c_role c = rd_value rd"
    and u: "sym_abs (p_users p) un = Some ud" "c_user c = ud_value ud"
    and l: "sym_abs (p_levels p) n0 = Some d0" "sens (lo (c_range c)) = sens (ld_level d0)"
      "sym_abs (p_levels p) n1 = Some d1" "sens (hi (c_range c)) = sens (ld_level d1)"
  shows "policydb_context_isvalid p c \<noteq> None"
proof -
  have i: "sym_indexes all_of rd_value self_of (p_roles p) (role_val_to_struct p)"
    "sym_indexes all_of ud_value self_of (p_users p) (user_val_to_struct p)"
    using p by (simp_all add: lookups_ok_def policydb_indexed_def)
  have role: "\<exists>x. fetch (role_val_to_struct p) (c_role c) = Some x" if "c_role c \<noteq> 0" "c_role c \<le> sym_nprim (p_roles p)"
    using index_fetch [OF i(1) r(1)] r(2) that by simp
  have user: "\<exists>x. fetch (user_val_to_struct p) (c_user c) = Some x" if "c_user c \<noteq> 0" "c_user c \<le> sym_nprim (p_users p)"
    using index_fetch [OF i(2) u(1)] u(2) that by simp
  obtain v0 v1 where v: "mls_level_isvalid p (lo (c_range c)) = Some v0" "mls_level_isvalid p (hi (c_range c)) = Some v1"
    using mls_level_isvalid_defined [OF p l(1,2)] mls_level_isvalid_defined [OF p l(3,4)] by blast
  have "mls_context_isvalid p c \<noteq> None" using user by (auto simp: mls_context_isvalid_def v not_less ex_false)
  then show ?thesis using role user by (auto simp: policydb_context_isvalid_def not_less ex_false)
qed

text \<open>With blocks that have a spare byte only the missing role is left.\<close>

lemma convert_context_roomy:
  assumes n: "context_names oldp c u r t ns0 ns1" and p: "lookups_ok newp" "cats_ok newp" and c: "range_ok (c_range c)"
    and alloc: "\<And>n. \<exists>b. alloc n = Some b \<and> n < length b" and ok: "\<And>q. ok q"
  shows "convert_context ok alloc oldp newp c = None \<longleftrightarrow> sym_abs (p_users newp) u \<noteq> None \<and> sym_abs (p_roles newp) r = None"
proof -
  have cp: "context_cpy (\<lambda>q. ok (0 # q)) context_init c = Some c" using context_cpy_total [of "\<lambda>q. ok (0 # q)"] ok by simp
  have f: "fetch (p_user_val_to_name oldp) (c_user c) = Some u" "fetch (p_role_val_to_name oldp) (c_role c) = Some r"
    "fetch (p_type_val_to_name oldp) (c_type c) = Some t" using n by (auto simp: context_names_def)
  have tab: "table_ok (p_users newp)" "table_ok (p_roles newp)" "table_ok (p_types newp)" "table_ok (p_levels newp)" "table_ok (p_cats newp)"
    using p(1) by (simp_all add: lookups_ok_def)
  obtain b where b: "alloc (length (context_text c u r t ns0 ns1) + 1) = Some b" "length (context_text c u r t ns0 ns1) + 1 < length b"
    using alloc by blast
  then have bad: "convert_bad alloc oldp c c' = Some (True, c')" for c'
    using context_struct_to_string_at(1) [where alloc = alloc, OF n b(1)]
    by (cases "lo (c_range c) = hi (c_range c)") (auto simp: convert_bad_def)
  note run = convert_context_def cp option.case f bind.bind_lunit table_search [OF tab(1)] table_search [OF tab(2)] table_search [OF tab(3)]
  show ?thesis
  proof (cases "sym_abs (p_users newp) u")
    case None
    then show ?thesis unfolding run by (simp add: bad)
  next
    case (Some ud)
    show ?thesis
    proof (cases "sym_abs (p_roles newp) r")
      case None
      then show ?thesis unfolding run by (simp add: Some f table_search [OF tab(2)])
    next
      case rd: (Some rd)
      have "convert_context ok alloc oldp newp c \<noteq> None"
      proof (cases "sym_abs (p_types newp) t")
        case None
        then show ?thesis unfolding run by (simp add: Some rd f table_search [OF tab(2)] table_search [OF tab(3)] bad)
      next
        case td: (Some td)
        let ?c = "c\<lparr>c_user := ud_value ud, c_role := rd_value rd, c_type := td_value td\<rparr>"
        obtain err c1 where c1: "mls_convert_context (\<lambda>q. ok (1 # q)) oldp newp ?c = Some (err, c1)"
          using mls_convert_context_defined [OF n tab(5,4), of ?c "\<lambda>q. ok (1 # q)"] by fastforce
        have "range_ok (c_range ?c)" using c by simp
        note s = mls_convert_context_spec [OF p(2) this c1]
        have "policydb_context_isvalid newp c1 \<noteq> None" if none: "err = None"
        proof -
          obtain n0 d0 n1 d1 where "sym_abs (p_levels newp) n0 = Some d0" "sens (lo (c_range c1)) = sens (ld_level d0)"
            "sym_abs (p_levels newp) n1 = Some d1" "sens (hi (c_range c1)) = sens (ld_level d1)"
            using s(4) [OF none] by (auto simp: level_translates_def translates_def table_search [OF tab(4)])
          then show ?thesis using isvalid_defined [OF p(1) rd _ Some] s(1,2) by simp
        qed
        then show ?thesis
          unfolding run using c1 by (cases "err = None") (auto simp: Some rd td f table_search [OF tab(2)] table_search [OF tab(3)] bad)
      qed
      then show ?thesis using rd by simp
    qed
  qed
qed

lemma convert_context_block:
  assumes "convert_context ok alloc' oldp newp c = Some (bad, c')" "\<And>q. ok q"
  shows "convert_context ok alloc oldp newp c = (if bad then convert_bad alloc oldp c c' else Some (False, c'))"
proof -
  have cp: "context_cpy (\<lambda>q. ok (0 # q)) context_init c = Some c" using context_cpy_total [of "\<lambda>q. ok (0 # q)"] assms(2) by simp
  have b: "convert_bad alloc' oldp c x = Some (y, z) \<longleftrightarrow> y \<and> z = x \<and> context_struct_to_string alloc' oldp c \<noteq> None" for x y z
    by (auto simp: convert_bad_def split: bind_splits)
  show ?thesis
    using assms(1) unfolding convert_context_def cp option.case Let_def
    by (auto simp: b split: bind_splits option.splits if_splits)
qed

definition translatable :: "policydb \<Rightarrow> policydb \<Rightarrow> context_struct \<Rightarrow> bool" where
  "translatable oldp newp c \<longleftrightarrow> (\<exists>c'. context_translates oldp newp c c' \<and> ctx_ok newp c')"

lemma convert_context_defined:
  assumes n: "context_names oldp c u r t ns0 ns1" and p: "lookups_ok newp" "cats_ok newp" and c: "range_ok (c_range c)" and ok: "\<And>q. ok q"
  shows "convert_context ok alloc oldp newp c = None \<longleftrightarrow> sym_abs (p_users newp) u \<noteq> None \<and> sym_abs (p_roles newp) r = None \<or>
    \<not> translatable oldp newp c \<and> context_struct_to_string alloc oldp c = None" (is "_ \<longleftrightarrow> ?role \<or> _")
proof (cases ?role)
  case True
  have cp: "context_cpy (\<lambda>q. ok (0 # q)) context_init c = Some c" using context_cpy_total [of "\<lambda>q. ok (0 # q)"] ok by simp
  have f: "fetch (p_user_val_to_name oldp) (c_user c) = Some u" "fetch (p_role_val_to_name oldp) (c_role c) = Some r"
    using n by (auto simp: context_names_def)
  have tab: "table_ok (p_users newp)" "table_ok (p_roles newp)" using p(1) by (simp_all add: lookups_ok_def)
  then show ?thesis using True by (auto simp: convert_context_def cp f table_search)
next
  case False
  let ?big = "\<lambda>n. Some (replicate (n + 1) CHR 0x00)"
  have "convert_context ok ?big oldp newp c \<noteq> None"
    using convert_context_roomy [where alloc = ?big, OF n p c _ ok] False by (simp del: replicate.simps)
  then obtain bad c' where run: "convert_context ok ?big oldp newp c = Some (bad, c')" by auto
  have "bad \<longleftrightarrow> \<not> translatable oldp newp c"
    using convert_context_spec [OF p(2) c run] ok unfolding translatable_def by blast
  then show ?thesis using convert_context_block [OF run ok, of alloc] False by (auto simp: convert_bad_def split: bind_splits)
qed


section \<open>Loading\<close>

text \<open>The new policy has the user of a context but not its role.\<close>

definition role_missing :: "policydb \<Rightarrow> policydb \<Rightarrow> context_struct \<Rightarrow> bool" where
  "role_missing oldp newp c \<longleftrightarrow> (\<exists>u r. fetch (p_user_val_to_name oldp) (c_user c) = Some u \<and>
     fetch (p_role_val_to_name oldp) (c_role c) = Some r \<and> sym_abs (p_users newp) u \<noteq> None \<and> sym_abs (p_roles newp) r = None)"

lemma load_policy_defined:
  assumes st: "ss_ok st" "classes_ok (ss_policydb st)" and rd: "policydb_read (\<lambda>q. ok (0 # q)) scratch fp = Some (Some (newp, rest))"
    and new: "classes_kept (ss_policydb st) newp" "lookups_ok newp" "cats_ok newp"
    and n: "policy_named (ss_policydb st)" "\<And>c. c \<in> ran (sidtab_abs (ss_sidtab st)) \<Longrightarrow> 0 < c_type c \<and> c_type c \<le> sym_nprim (p_types (ss_policydb st))"
    and ok: "\<And>q. ok q"
  shows "load_policy ok alloc scratch st fp = None \<longleftrightarrow> (\<exists>c\<in>ran (sidtab_abs (ss_sidtab st)).
    role_missing (ss_policydb st) newp c \<or>
    \<not> translatable (ss_policydb st) newp c \<and> context_struct_to_string alloc (ss_policydb st) c = None)"
    (is "_ \<longleftrightarrow> (\<exists>c\<in>_. ?missing c)")
proof -
  let ?f = "\<lambda>sid c u. map_option (\<lambda>(bad, c). (bad, c, u))
                (convert_context (\<lambda>q. ok (1 # unat sid # q)) alloc (ss_policydb st) newp c)"
  have v: "hashtab_map (sym_table (p_classes (ss_policydb st))) (validate_class newp) (Some ()) = (0, Some ())"
    using classes_kept_iff [OF st(2)] new(1) by blast
  have s: "sidtab_ok (ss_sidtab st)" using st(1) by (simp add: ss_ok_def)
  have "load_policy ok alloc scratch st fp = None \<longleftrightarrow> sidtab_map_remove_on_error (Some (ss_sidtab st)) ?f () = None"
    unfolding load_policy_def load_read_def rd bind.bind_lunit option.case prod.case v Let_def
    by (cases "sidtab_map_remove_on_error (Some (ss_sidtab st)) ?f ()") (auto elim!: sidtab_prune_spec [OF sidtab_okD(1) [OF s]])
  also have "\<dots> \<longleftrightarrow> (\<exists>sid c. sidtab_abs (ss_sidtab st) sid = Some c \<and>
      convert_context (\<lambda>q. ok (1 # unat sid # q)) alloc (ss_policydb st) newp c = None)"
    unfolding sidtab_prune_defined [OF s] by simp
  also have "\<dots> \<longleftrightarrow> (\<exists>sid c. sidtab_abs (ss_sidtab st) sid = Some c \<and> ?missing c)"
  proof -
    have "convert_context (\<lambda>q. ok (1 # unat sid # q)) alloc (ss_policydb st) newp c = None \<longleftrightarrow> ?missing c"
      if c: "sidtab_abs (ss_sidtab st) sid = Some c" for sid c
    proof -
      have mem: "c \<in> ran (sidtab_abs (ss_sidtab st))" using c by (rule ranI)
      then have ctx: "policydb_context_isvalid (ss_policydb st) c = Some True" "range_ok (c_range c)"
        using st(1) by (auto simp: ss_ok_def ctx_ok_def)
      obtain u r t ns0 ns1 where names: "context_names (ss_policydb st) c u r t ns0 ns1"
        using context_names_ex [OF n(1) ctx] n(2) [OF mem] by blast
      then have f: "fetch (p_user_val_to_name (ss_policydb st)) (c_user c) = Some u"
        "fetch (p_role_val_to_name (ss_policydb st)) (c_role c) = Some r" by (auto simp: context_names_def)
      show ?thesis using convert_context_defined [OF names new(2,3) ctx(2) ok] by (simp add: f role_missing_def)
    qed
    then show ?thesis by blast
  qed
  finally show ?thesis by (simp add: ran_def) blast
qed

end
