(* ===== verification/Policyfile_Load.thy ===== *)
theory Policyfile_Load
  imports Policydb_Total Services_Defined
begin

text \<open>
  Loading a file that was written from a policy: what was read satisfies what the server relies on, and
  reloading the active policy changes nothing but the sequence number.
\<close>

section \<open>Policies that were written and read\<close>

lemma table_normal_ok: "table_normal n (sym_table s) \<Longrightarrow> table_ok s"
  by (auto simp: table_normal_def table_ok_def)

lemma sym_same_table_ok: "sym_same same s s' \<Longrightarrow> table_ok s \<and> table_ok s'"
  by (auto simp: sym_same_def table_same_def table_ok_def)

lemma normal_classes_ok:
  assumes "policydb_normal p"
  shows "classes_ok p"
proof -
  have n: "table_normal (class_normal (p_commons p)) (sym_table (p_classes p))"
    using assms by (simp add: policydb_normal_def symtabs_normal_def)
  have "table_ok (cl_permissions d) \<and> (\<forall>c. comdatum d = Some c \<longrightarrow> table_ok (cd_permissions c))"
    if "sym_abs (p_classes p) k = Some d" for k d
  proof -
    have d: "class_normal (p_commons p) d" using n that by (auto simp: table_normal_def sym_abs_def)
    then have "table_ok (cd_permissions c)" if "comdatum d = Some c" for c
      using that by (auto simp: class_normal_def common_same_def table_same_def table_ok_def split: option.splits)
    then show ?thesis using d table_normal_ok by (auto simp: class_normal_def)
  qed
  then show ?thesis using table_normal_ok [OF n] by (auto simp: classes_ok_def)
qed

lemma table_same_perms:
  assumes "table_same (=) (sym_table s) (sym_table s')"
  shows "perms_kept s s'"
proof -
  have "sym_same (=) s (s'\<lparr>sym_nprim := sym_nprim s\<rparr>)" using assms by (simp add: sym_same_def)
  note s = sym_same_abs(4) [OF this] sym_same_eq(2) [OF this]
  then show ?thesis by (auto simp: perms_kept_def)
qed

lemma same_classes_kept:
  assumes "policydb_same p p'"
  shows "classes_kept p p'"
  unfolding classes_kept_def
proof (intro allI impI)
  fix n d assume d: "sym_abs (p_classes p) n = Some d"
  have s: "sym_same class_same (p_classes p) (p_classes p')" using assms by (simp add: policydb_same_def symtabs_same_def)
  then obtain d2 where d2: "sym_abs (p_classes p') n = Some d2" "class_same d d2"
    using sym_same_abs(1) [OF s, of n] d by (cases "sym_abs (p_classes p') n") auto
  have "class_kept d d2"
    using d2(2) table_same_perms by (cases "comdatum d"; cases "comdatum d2") (auto simp: class_same_def class_kept_def common_same_def)
  then show "\<exists>d2. hashtab_search (sym_table (p_classes p')) n = Some (Some d2) \<and> class_kept d d2"
    using sym_same_abs(5) [OF s] d2(1) by auto
qed

text \<open>Every sensitivity in the table has a name of its own that is not an alias.\<close>

definition sens_named :: "policydb \<Rightarrow> bool" where
  "sens_named p \<longleftrightarrow> (\<forall>n d. sym_abs (p_levels p) n = Some d \<longrightarrow> (\<exists>m. fetch (p_sens_val_to_name p) (sens (ld_level d)) = Some m))"

lemma same_lookups:
  assumes s: "policydb_same p p'" and i: "policydb_indexed p'" "sens_named p"
  shows "lookups_ok p'"
proof -
  have t: "sym_same (=) (p_roles p) (p_roles p')" "sym_same (=) (p_types p) (p_types p')" "sym_same (=) (p_users p) (p_users p')"
    "sym_same (=) (p_levels p) (p_levels p')" "sym_same (=) (p_cats p) (p_cats p')"
    using s by (simp_all add: policydb_same_def symtabs_same_def)
  have "p_sens_val_to_name p' = p_sens_val_to_name p" using s by (simp add: policydb_same_def arrays_same_def)
  then show ?thesis
    using i t [THEN sym_same_table_ok] sym_same_eq(1) [OF t(4)] by (simp add: lookups_ok_def sens_named_def)
qed

lemma same_valid: "policydb_same p p' \<Longrightarrow> policydb_context_isvalid p' c = policydb_context_isvalid p c"
  by (simp add: policydb_same_def context_isvalid_same)

lemma same_search:
  assumes "policydb_same p p'"
  shows "hashtab_search (sym_table (p_users p')) = hashtab_search (sym_table (p_users p))"
    "hashtab_search (sym_table (p_roles p')) = hashtab_search (sym_table (p_roles p))"
    "hashtab_search (sym_table (p_types p')) = hashtab_search (sym_table (p_types p))"
    "hashtab_search (sym_table (p_levels p')) = hashtab_search (sym_table (p_levels p))"
    "hashtab_search (sym_table (p_cats p')) = hashtab_search (sym_table (p_cats p))"
  using assms by (simp_all add: policydb_same_def symtabs_same_def sym_same_eq(2))

lemma same_cats_ok: "policydb_same p p' \<Longrightarrow> cats_ok p' = cats_ok p"
  unfolding cats_ok_def by (simp only: same_search(5))

lemma same_ocon_ok:
  assumes "policydb_same p p'" "policydb_normal p"
  shows "ocon_ok p'"
  using assms by (auto simp: ocon_ok_def ctx_ok_def same_valid [OF assms(1)] policydb_same_def policydb_normal_def ocons_normal_def
    list_all_iff named_normal_def port_normal_def node_normal_def context_normal_def named_kept_def other_kept_def)

section \<open>Reloading\<close>

lemma level_translates_same:
  assumes s: "policydb_same p p'" and n: "level_names p l n ns" and l: "level_in p l"
  shows "level_translates p p' l l"
proof -
  note h = same_search(4,5) [OF s]
  have inv: "ebitmap_inv (cat l)" using l by (simp add: level_in_def level_ok_def)
  have cat: "cat_translates p p' i v \<longleftrightarrow> v = of_nat (i + 1)" if "i \<in> ebits (cat l)" for i v
  proof -
    have "i \<in> set (ebitmap_positions (cat l))" using that ebitmap_positions_set [OF inv] by simp
    then obtain m d where "fetch (p_cat_val_to_name p) (of_nat (i + 1)) = Some m"
      "hashtab_search (sym_table (p_cats p)) m = Some (Some d)" "ca_value d = of_nat (i + 1)"
      using n unfolding level_names_def list_all2_conv_all_nth in_set_conv_nth by metis
    then show ?thesis by (auto simp: translates_def h(2))
  qed
  have "unat (of_nat (i + 1) - 1 :: u32) = i" if "i \<in> ebits (cat l)" for i
    using l that cat_value_bounds(3) [of i "sym_nprim (p_cats p)"] by (simp add: level_in_def)
  then have "ebits (cat l) = {unat (v - 1) | i v. i \<in> ebits (cat l) \<and> cat_translates p p' i v}"
    using cat by (auto intro!: exI)
  moreover have "translates (p_levels p') (p_sens_val_to_name p) (\<lambda>d. sens (ld_level d)) (sens l) (sens l)"
    using n by (auto simp: translates_def h(1) level_names_def)
  ultimately show ?thesis using cat l by (auto simp: level_translates_def level_in_def)
qed

lemma context_translates_same:
  assumes s: "policydb_same p p'" and n: "context_names p c u r t ns0 ns1" and c: "ctx_ok p c"
  shows "context_translates p p' c c"
proof -
  note h = same_search(1-3) [OF s]
  have l: "level_in p (lo (c_range c))" "level_in p (hi (c_range c))" using c isvalid_levels(5,6) by (auto simp: ctx_ok_def)
  show ?thesis
    using n level_translates_same [OF s _ l(1)] level_translates_same [OF s _ l(2)]
    by (auto simp: context_translates_def translates_def context_names_def h)
qed


lemma reload_policy:
  assumes st: "ss_ok st" "policydb_normal (ss_policydb st)" "policy_named (ss_policydb st)" "sens_named (ss_policydb st)"
      "\<And>c. c \<in> ran (sidtab_abs (ss_sidtab st)) \<Longrightarrow> 0 < c_type c \<and> c_type c \<le> sym_nprim (p_types (ss_policydb st))"
    and w: "policydb_write w (ss_policydb st) = Some out"
  shows "\<exists>st'. load_policy (\<lambda>_. True) alloc scratch st (out @ rest) = Some (None, st') \<and>
    policydb_same (ss_policydb st) (ss_policydb st') \<and> policydb_indexed (ss_policydb st') \<and>
    sidtab_abs (ss_sidtab st') = sidtab_abs (ss_sidtab st) \<and>
    ss_initialized st' = ss_initialized st \<and> latest_granting st' = latest_granting st + 1 \<and>
    sd_nel (ss_sidtab st') = sd_nel (ss_sidtab st) \<and> buckets_inv SIDTAB_HASH 23 (sd_htable (ss_sidtab st'))"
proof -
  let ?p = "ss_policydb st"
  obtain p' where p': "policydb_read (\<lambda>_. True) scratch (out @ rest) = Some (Some (p', rest))" "policydb_same ?p p'" "policydb_indexed p'"
    using policydb_read_back [OF st(2) w] by blast
  have cl: "classes_ok ?p" by (rule normal_classes_ok [OF st(2)])
  have new: "classes_kept ?p p'" "lookups_ok p'" "cats_ok p'"
    using same_classes_kept [OF p'(2)] same_lookups [OF p'(2,3) st(4)] same_cats_ok [OF p'(2)] st(1) by (simp_all add: ss_ok_def)
  have names: "\<exists>u r t ns0 ns1. context_names ?p c u r t ns0 ns1" and ctx: "ctx_ok ?p c" if "sidtab_abs (ss_sidtab st) sid = Some c" for sid c
  proof -
    have mem: "c \<in> ran (sidtab_abs (ss_sidtab st))" using that by (rule ranI)
    then show ctx: "ctx_ok ?p c" using st(1) by (auto simp: ss_ok_def)
    then show "\<exists>u r t ns0 ns1. context_names ?p c u r t ns0 ns1"
      using context_names_ex [OF st(3)] st(5) [OF mem] by (simp add: ctx_ok_def)
  qed
  have same: "context_translates ?p p' c c" "ctx_ok p' c" if c: "sidtab_abs (ss_sidtab st) sid = Some c" for sid c
  proof -
    obtain u r t ns0 ns1 where "context_names ?p c u r t ns0 ns1" using names [OF c] by blast
    from context_translates_same [OF p'(2) this ctx [OF c]] show "context_translates ?p p' c c" .
    show "ctx_ok p' c" using ctx [OF c] same_valid [OF p'(2)] by (simp add: ctx_ok_def)
  qed
  then have "translatable ?p p' c" if "c \<in> ran (sidtab_abs (ss_sidtab st))" for c
    using that unfolding translatable_def ran_def by blast
  moreover have "\<not> role_missing ?p p' c" if c: "c \<in> ran (sidtab_abs (ss_sidtab st))" for c
  proof -
    obtain u r t ns0 ns1 where "context_names ?p c u r t ns0 ns1" using c names unfolding ran_def by blast
    then have "role_missing ?p p' c \<longrightarrow> (\<exists>r d. hashtab_search (sym_table (p_roles ?p)) r = Some (Some d) \<and> sym_abs (p_roles p') r = None)"
      by (auto simp: context_names_def role_missing_def)
    moreover have "hashtab_search (sym_table (p_roles ?p)) r = Some (sym_abs (p_roles p') r)" for r
      using same_search(2) [OF p'(2)] table_search [of "p_roles p'"] new(2) by (simp add: lookups_ok_def)
    ultimately show ?thesis by auto
  qed
  ultimately have "load_policy (\<lambda>_. True) alloc scratch st (out @ rest) \<noteq> None"
    using load_policy_defined [OF st(1) cl _ new st(3,5), of "\<lambda>_. True" scratch "out @ rest" rest alloc] p'(1) by simp
  moreover have "load_policy (\<lambda>_. True) alloc scratch st (out @ rest) \<noteq> Some (Some e, s)" for e s
  proof -
    have "hashtab_map (sym_table (p_classes ?p)) (validate_class p') (Some ()) = (0, Some ())" using classes_kept_iff [OF cl] new(1) by blast
    then show ?thesis by (auto simp: load_policy_def load_read_def p'(1) Let_def split: bind_splits)
  qed
  ultimately obtain st' where run: "load_policy (\<lambda>_. True) alloc scratch st (out @ rest) = Some (None, st')"
    by (metis not_None_eq surj_pair)
  obtain newp rest' where L: "policydb_read (\<lambda>q. True) scratch (out @ rest) = Some (Some (newp, rest'))" "ss_policydb st' = newp"
    "latest_granting st' = latest_granting st + 1" "ss_initialized st' = ss_initialized st"
    "sd_nel (ss_sidtab st') = sd_nel (ss_sidtab st)" "buckets_inv SIDTAB_HASH 23 (sd_htable (ss_sidtab st'))"
    "cats_ok newp \<Longrightarrow> sids_converted (\<forall>q :: nat list. True) st st'"
    by (rule load_policy_spec [OF st(1) cl run]) (rule that)
  have np: "newp = p'" using L(1) p'(1) by simp
  have conv: "sids_converted True st st'" using L(7) new(3) np by simp
  have "sidtab_abs (ss_sidtab st') sid = sidtab_abs (ss_sidtab st) sid" for sid
  proof (cases "sidtab_abs (ss_sidtab st) sid")
    case None
    then show ?thesis using conv [unfolded sids_converted_def, rule_format, of sid] by (auto split: option.splits)
  next
    case (Some c)
    show ?thesis
      using conv [unfolded sids_converted_def, rule_format, of sid] Some same [OF Some] context_translates_fun [OF same(1) [OF Some]] L(2) np
      by (auto split: option.splits)
  qed
  then show ?thesis using run L np p'(2,3) by auto
qed

end
