(* ===== verification/Policyfile_Demo.thy ===== *)
theory Policyfile_Demo
  imports Policyfile_Load Services_Demo
begin

text \<open>
  A policy with a binary form: the policy of \<open>Services_Demo\<close> with a common prefix, a class that inherits from it, an
  access vector and initial contexts.
\<close>

section \<open>Tables with one entry\<close>

lemma demo_tab_table:
  fixes d :: 'd
  obtains h where "demo_tab n d = \<lparr>sym_table = Some h, sym_nprim = 1\<rparr>" "hashtab_ok h" "nel_ok h" "hashtab_abs h = [n \<mapsto> d]"
proof -
  have "symtab_init (\<lambda>_. True) (zero_symtab :: 'd symtab) =
      (0, \<lparr>sym_table = hashtab_create (\<lambda>_. True) symhash symcmp SYMTAB_SIZE, sym_nprim = 0\<rparr>)"
    by (simp add: symtab_init_def Let_def hashtab_create_def zero_symtab_def)
  then obtain h :: "(string, 'd) hashtab_val" where h: "hashtab_create (\<lambda>_. True) symhash symcmp SYMTAB_SIZE = Some h"
    "hashtab_ok h" "hashtab_abs h = Map.empty" "nel_ok h" by (rule symtab_init_ok) simp
  obtain h' where h': "hashtab_insert True (Some h) n d = Some (HASHTAB_SUCCESS, Some h')" "hashtab_ok h'" "hashtab_abs h' = [n \<mapsto> d]" "nel_ok h'"
    using hashtab_insert_spec(3) [OF h(2), of n True d] h(3,4) by auto
  have "demo_tab n d = \<lparr>sym_table = Some h', sym_nprim = 1\<rparr>" by (simp add: demo_tab_def h(1) h'(1))
  then show ?thesis using that h'(2-4) by blast
qed

lemma demo_tab_abs: "sym_abs (demo_tab n d) = [n \<mapsto> d]"
  by (rule demo_tab_table [of n d]) (simp add: sym_abs_def)

lemma one_entry:
  assumes "hashtab_ok h" "hashtab_abs h = [n \<mapsto> d]"
  shows "length (concat (htable h)) = 1"
proof -
  note es = entries_abs [OF assms(1)]
  have "set (map fst (concat (htable h))) = dom (map_of (concat (htable h)))" by (simp add: dom_map_of_conv_image_fst)
  then have "card (set (map fst (concat (htable h)))) = 1" by (simp add: es(2) assms(2))
  then show ?thesis using distinct_card [OF es(1)] by simp
qed

lemma demo_tab_normal: "key_ok n \<Longrightarrow> normal d \<Longrightarrow> table_normal normal (sym_table (demo_tab n d))"
  by (rule demo_tab_table [of n d]) (simp add: table_normal_def one_entry)

lemma demo_tab_valued: "v d = 1 \<Longrightarrow> sym_valued pr v (demo_tab n d)"
  using demo_tab_abs [of n d]
  by (rule_tac demo_tab_table [of n d]) (auto simp: sym_valued_def values_ok_def split: if_splits)

lemma demo_tab_indexes: "pr d \<Longrightarrow> v d = 1 \<Longrightarrow> sym_indexes pr v f (demo_tab n d) [Some (f n d)]"
  by (auto simp: sym_indexes_def indexes_def demo_tab_abs demo_tab_search(2) split: if_splits)

section \<open>The policy\<close>

definition file_common :: common_datum where
  "file_common = \<lparr>cd_value = 1, cd_permissions = demo_tab ''read'' \<lparr>pd_value = 1, base_perms = 1\<rparr>\<rparr>"

definition file_class :: class_datum where
  "file_class = demo_class\<lparr>comkey := Some ''base'', comdatum := Some file_common,
     cl_permissions := demo_tab ''write'' \<lparr>pd_value = 2, base_perms = 2\<rparr>\<rparr>"

definition file_avtab :: avtab where
  "file_avtab = (case avtab_insert True (Some avtab_init) demo_key demo_datum of Inr a \<Rightarrow> a)"

definition file_policy :: policydb where
  "file_policy = demo_policy\<lparr>p_commons := demo_tab ''base'' file_common, p_classes := demo_tab ''file'' file_class,
     p_common_val_to_name := [Some ''base''], p_class_val_to_name := [Some ''file''], class_val_to_struct := [Some file_class],
     te_avtab := file_avtab,
     ocon_isid := [\<lparr>oc_u = ONode 0 0, oc_context0 = demo_context, oc_context1 = context_init, oc_sid0 = 1, oc_sid1 = 0\<rparr>]\<rparr>"

lemma file_avtab_ok: "avtab_ok file_avtab" "avtab_abs file_avtab = [demo_key \<mapsto> demo_datum]"
  "concat (av_htable file_avtab) \<noteq> []" "length (concat (av_htable file_avtab)) < 2 ^ 32"
proof -
  obtain a where a: "avtab_insert True (Some avtab_init) demo_key demo_datum = Inr a" "avtab_ok a"
    "avtab_abs a = (avtab_abs avtab_init)(demo_key \<mapsto> demo_datum)"
    using avtab_insert_spec(3) [OF avtab_init_ok(1), of demo_key True demo_datum] by (auto simp: avtab_init_ok(2))
  then have f: "file_avtab = a" by (simp add: file_avtab_def)
  show ok: "avtab_ok file_avtab" "avtab_abs file_avtab = [demo_key \<mapsto> demo_datum]" using a f by (simp_all add: avtab_init_ok(2))
  have "length (concat (av_htable file_avtab)) = 1" using avtab_ok_entries(3) [OF ok(1)] by (simp only: ok(2)) simp
  then show "concat (av_htable file_avtab) \<noteq> []" "length (concat (av_htable file_avtab)) < 2 ^ 32"
    by (metis list.size(3) zero_neq_one, simp only:) simp
qed

lemma file_policy_simps [simp]:
  "p_commons file_policy = demo_tab ''base'' file_common" "p_classes file_policy = demo_tab ''file'' file_class"
  "p_roles file_policy = demo_tab ''r'' demo_role" "p_types file_policy = demo_tab ''t'' \<lparr>td_value = 1, td_isalias = 0\<rparr>"
  "p_users file_policy = demo_tab ''u'' demo_user" "p_levels file_policy = demo_tab ''s'' \<lparr>ld_level = demo_high, ld_isalias = 0\<rparr>"
  "p_cats file_policy = demo_tab ''c'' \<lparr>ca_value = 1, ca_isalias = 0\<rparr>"
  "p_common_val_to_name file_policy = [Some ''base'']" "p_class_val_to_name file_policy = [Some ''file'']"
  "p_role_val_to_name file_policy = [Some ''r'']" "p_type_val_to_name file_policy = [Some ''t'']"
  "p_user_val_to_name file_policy = [Some ''u'']" "p_sens_val_to_name file_policy = [Some ''s'']"
  "p_cat_val_to_name file_policy = [Some ''c'']" "class_val_to_struct file_policy = [Some file_class]"
  "role_val_to_struct file_policy = [Some demo_role]" "user_val_to_struct file_policy = [Some demo_user]"
  "p_te_def_allowed file_policy = \<lparr>te_value = TE_DEF_ALL, te_exclude = ebitmap_init\<rparr>" "te_avtab file_policy = file_avtab"
  "p_te_def_auditallow file_policy = zero_te_def" "p_te_def_auditdeny file_policy = zero_te_def" "p_te_def_notify file_policy = zero_te_def"
  "ocon_isid file_policy = [\<lparr>oc_u = ONode 0 0, oc_context0 = demo_context, oc_context1 = context_init, oc_sid0 = 1, oc_sid1 = 0\<rparr>]"
  "ocon_fs file_policy = [\<lparr>oc_u = OName ''disk'', oc_context0 = demo_context, oc_context1 = demo_context, oc_sid0 = 0, oc_sid1 = 0\<rparr>]"
  "ocon_port file_policy = []" "ocon_netif file_policy = []" "ocon_node file_policy = []"
  by (simp_all add: file_policy_def demo_policy_def zero_policydb_def)

lemma short_keys [simp]: "CHR 0x00 \<notin> set n \<Longrightarrow> length n < 100 \<Longrightarrow> key_ok n"
  by (simp add: key_ok_def)

lemma file_common_normal: "common_normal file_common" "common_same file_common file_common"
proof -
  show "common_normal file_common" unfolding common_normal_def file_common_def by (simp add: demo_tab_normal)
  show "common_same file_common file_common"
    unfolding common_same_def file_common_def
    by (rule demo_tab_table [of "''read''" "\<lparr>pd_value = 1, base_perms = 1\<rparr>"]) (simp add: table_same_def option.rel_eq)
qed

lemma file_class_normal: "class_normal (demo_tab ''base'' file_common) file_class"
  using file_common_normal(2)
  by (simp add: class_normal_def file_class_def demo_class_def demo_tab_search demo_tab_normal constraint_ok_def
    CONSTRAINT_EXPR_TYPE_SAMEUSER_def CONSTRAINT_EXPR_TYPE_ROLE_RELATION_def CONSTRAINT_EXPR_TYPE_TYPE_SOURCE_def
    CONSTRAINT_EXPR_TYPE_TYPE_TARGET_def CONSTRAINT_EXPR_TYPE_ROLE_SOURCE_def CONSTRAINT_EXPR_TYPE_ROLE_TARGET_def
    CONSTRAINT_EXPR_TYPE_AND_def CONSTRAINT_EXPR_TYPE_OR_def CONSTRAINT_EXPR_TYPE_NOT_def)

lemma file_symtabs_normal: "symtabs_normal file_policy"
  using file_common_normal(1) file_class_normal bit0_map_inv demo_range_ok(1)
  by (simp add: symtabs_normal_def demo_tab_normal role_normal_def demo_role_def user_normal_def demo_user_def sens_normal_def demo_range_def range_ok_def)

lemma demo_values [simp]:
  "cd_value file_common = 1" "cl_value file_class = 1" "rd_value demo_role = 1" "ud_value demo_user = 1" "sens demo_high = 1"
  by (simp_all add: file_common_def file_class_def demo_class_def demo_role_def demo_user_def demo_high_def)

lemma file_valued: "policydb_valued file_policy"
  by (simp add: policydb_valued_def demo_tab_valued)

lemmas demo_tab_arrays =
  demo_tab_indexes [where f = name_of and pr = all_of] demo_tab_indexes [where f = self_of and pr = all_of]
  demo_tab_indexes [where f = name_of and pr = "\<lambda>d. td_isalias d = 0"]
  demo_tab_indexes [where f = name_of and pr = "\<lambda>d. ld_isalias d = 0"]
  demo_tab_indexes [where f = name_of and pr = "\<lambda>d. ca_isalias d = 0"]

lemma file_indexed: "policydb_indexed file_policy"
  unfolding policydb_indexed_def file_policy_simps by (intro conjI demo_tab_arrays) simp_all

lemma file_te_normal: "te_normal file_policy"
  using file_avtab_ok demo_datum_normal by (simp add: te_normal_def zero_te_def_def ebitmap_init_inv)

lemma file_context_valid: "policydb_context_isvalid file_policy c = policydb_context_isvalid demo_policy c"
  unfolding policydb_context_isvalid_def mls_context_isvalid_def mls_level_isvalid_def file_policy_simps demo_policy_simps by simp

lemma file_context_normal: "context_normal file_policy demo_context"
  using demo_valid demo_range_ok by (simp add: context_normal_def file_context_valid demo_context_def)

lemma file_policy_normal: "policydb_normal file_policy"
proof -
  have "ocons_normal file_policy file_policy"
    using file_context_normal by (simp add: ocons_normal_def isid_normal_def named_normal_def)
  then show ?thesis using file_symtabs_normal file_valued file_indexed file_te_normal by (simp add: policydb_normal_def)
qed


section \<open>The server\<close>

definition file_ss :: ss where
  "file_ss = demo_ss\<lparr>ss_policydb := file_policy\<rparr>"

lemma file_ss_simps [simp]:
  "ss_policydb file_ss = file_policy" "ss_sidtab file_ss = demo_sidtab" "ss_initialized file_ss" "latest_granting file_ss = 0"
  by (simp_all add: file_ss_def demo_ss_def)

lemma file_ss_ok: "ss_ok file_ss"
proof -
  have c: "ctx_ok file_policy demo_context" using file_context_normal by (simp add: context_normal_def ctx_ok_def)
  then show ?thesis using demo_sidtab_ok by (simp add: ss_ok_def cats_ok_def ocon_ok_def demo_tab_search)
qed

lemma file_policy_named: "policy_named file_policy"
  using demo_policy_named by (simp add: policy_named_def mls_named_def)

lemma file_sens_named: "sens_named file_policy"
  by (simp add: sens_named_def demo_tab_abs)

lemma file_types: "c \<in> ran (sidtab_abs demo_sidtab) \<Longrightarrow> 0 < c_type c \<and> c_type c \<le> sym_nprim (p_types file_policy)"
  by (simp add: demo_sidtab_ok demo_context_def demo_tab_search)

definition big_block :: "nat \<Rightarrow> char list option" where
  "big_block n = Some (replicate (n + 1) CHR ''x'')"

lemma big_block_room: "\<exists>b. big_block n = Some b \<and> n < length b"
  by (simp add: big_block_def)

lemma file_written:
  obtains out where "policydb_write (\<lambda>_. True) file_policy = Some out"
  using policydb_write_total [OF file_policy_normal] by blast

lemma file_loaded:
  assumes "policydb_write (\<lambda>_. True) file_policy = Some out"
  obtains st' where "load_policy (\<lambda>_. True) big_block (replicate 32 0) file_ss out = Some (None, st')"
    "policydb_same file_policy (ss_policydb st')" "policydb_indexed (ss_policydb st')" "sidtab_abs (ss_sidtab st') = [1 \<mapsto> demo_context]"
proof -
  have s: "ss_policydb file_ss = file_policy" "ss_sidtab file_ss = demo_sidtab" by simp_all
  note r = reload_policy [of file_ss, unfolded s, OF file_ss_ok file_policy_normal file_policy_named file_sens_named file_types assms,
    of big_block "replicate 32 0" "[]"]
  then show ?thesis using that demo_sidtab_ok(2) by auto
qed


section \<open>A policy without the role\<close>

definition renamed_policy :: policydb where
  "renamed_policy = file_policy\<lparr>p_roles := demo_tab ''x'' demo_role, p_role_val_to_name := [Some ''x'']\<rparr>"

lemma renamed_simps [simp]:
  "p_roles renamed_policy = demo_tab ''x'' demo_role" "p_role_val_to_name renamed_policy = [Some ''x'']"
  "p_commons renamed_policy = p_commons file_policy" "p_classes renamed_policy = p_classes file_policy"
  "p_types renamed_policy = p_types file_policy" "p_users renamed_policy = p_users file_policy"
  "p_levels renamed_policy = p_levels file_policy" "p_cats renamed_policy = p_cats file_policy"
  "p_sens_val_to_name renamed_policy = p_sens_val_to_name file_policy"
  "role_val_to_struct renamed_policy = role_val_to_struct file_policy" "user_val_to_struct renamed_policy = user_val_to_struct file_policy"
  by (simp_all add: renamed_policy_def)

lemma renamed_policy_normal: "policydb_normal renamed_policy"
proof -
  have n: "sym_nprim (p_roles renamed_policy) = sym_nprim (p_roles file_policy)" by (simp add: demo_tab_search(2))
  have v: "policydb_context_isvalid renamed_policy c = policydb_context_isvalid file_policy c" for c
    unfolding policydb_context_isvalid_def mls_context_isvalid_def mls_level_isvalid_def n renamed_simps(3-) by simp
  have f: "policydb_normal file_policy" by (rule file_policy_normal)
  have "symtabs_normal renamed_policy"
    using f bit0_map_inv by (simp add: policydb_normal_def symtabs_normal_def demo_tab_normal role_normal_def demo_role_def)
  moreover have "policydb_valued renamed_policy" using f by (simp add: policydb_normal_def policydb_valued_def demo_tab_valued)
  moreover have "policydb_indexed renamed_policy"
    using f demo_tab_arrays(1) [of rd_value demo_role "''x''"] demo_tab_arrays(2) [of rd_value demo_role "''x''"]
    by (simp add: policydb_normal_def policydb_indexed_def renamed_policy_def)
  moreover have "te_normal renamed_policy" using f by (simp add: policydb_normal_def te_normal_def renamed_policy_def)
  moreover have "ocons_normal renamed_policy renamed_policy"
    using f ocons_normal_same [OF v, of renamed_policy] by (simp add: policydb_normal_def ocons_normal_def renamed_policy_def)
  ultimately show ?thesis by (simp add: policydb_normal_def)
qed

end
