(* ===== verification/Policyfile_Spec.thy ===== *)
theory Policyfile_Spec
  imports Policyfile_Demo
begin

text \<open>
  Properties of policy files: what is written is read back with the same content and the same decisions,
  and how the server behaves when a policy is loaded from a file.
\<close>

section \<open>Decisions\<close>

lemma fetch_rel: "list_all2 (rel_option R) xs ys \<Longrightarrow> rel_option R (fetch xs v) (fetch ys v)"
  by (auto simp: fetch_def Let_def list_all2_conv_all_nth)

lemma mls_compute_av_perms:
  assumes "mlsperms d' = mlsperms d"
  shows "mls_compute_av s t d' av = mls_compute_av s t d av"
  unfolding mls_compute_av_def Let_def assms by simp

lemma policydb_same_decision:
  assumes "policydb_same p p'"
  shows "security_compute_av (st\<lparr>ss_policydb := p'\<rparr>) ssid tsid tclass req = security_compute_av (st\<lparr>ss_policydb := p\<rparr>) ssid tsid tclass req"
proof -
  have f: "p_te_def_allowed p' = p_te_def_allowed p" "p_te_def_auditallow p' = p_te_def_auditallow p"
    "p_te_def_auditdeny p' = p_te_def_auditdeny p" "p_te_def_notify p' = p_te_def_notify p" "role_val_to_struct p' = role_val_to_struct p"
    "sym_nprim (p_classes p') = sym_nprim (p_classes p)"
    using assms by (auto simp: policydb_same_def arrays_same_def symtabs_same_def sym_same_def)
  have av: "avtab_search (Some (te_avtab p')) = avtab_search (Some (te_avtab p))"
    using assms by (simp add: fun_eq_iff avtab_cur_abs(2) policydb_same_def)
  have "rel_option class_same (fetch (class_val_to_struct p) v) (fetch (class_val_to_struct p') v)" for v
    using assms by (intro fetch_rel) (simp add: policydb_same_def arrays_same_def)
  then have "fetch (class_val_to_struct p') v = None \<and> fetch (class_val_to_struct p) v = None \<or>
      (\<exists>d d'. fetch (class_val_to_struct p) v = Some d \<and> fetch (class_val_to_struct p') v = Some d' \<and> class_same d d')" for v
    by (metis option.rel_cases)
  then consider "fetch (class_val_to_struct p') (ucast tclass) = None" "fetch (class_val_to_struct p) (ucast tclass) = None" |
    d d' where "fetch (class_val_to_struct p) (ucast tclass) = Some d" "fetch (class_val_to_struct p') (ucast tclass) = Some d'" "class_same d d'"
    by metis
  note c = this
  have st: "ss_policydb (st\<lparr>ss_policydb := q\<rparr>) = q" "ss_sidtab (st\<lparr>ss_policydb := q\<rparr>) = ss_sidtab st"
    "ss_initialized (st\<lparr>ss_policydb := q\<rparr>) = ss_initialized st" "latest_granting (st\<lparr>ss_policydb := q\<rparr>) = latest_granting st" for q
    by simp_all
  note decision = security_compute_av_def unlocked_security_compute_av_def Let_def st f av
  from c show ?thesis
  proof cases
    case 1
    then show ?thesis unfolding decision 1 bind.bind_lzero by simp
  next
    case 2
    then have e: "mlsperms d' = mlsperms d" "constraints d' = constraints d" by (simp_all add: class_same_def)
    show ?thesis
      unfolding decision 2 bind.bind_lunit mls_compute_av_perms [OF e(1)] e(2) roles_constraints [OF f(5)] by simp
  qed
qed


text \<open>C32. A policy database that has a binary form is written if every write succeeds, and whatever
  writes succeeded, a complete file is read back with enough memory, consuming exactly the bytes written:
  every table has the same entries, every array, default, access vector and object context is the same, and
  every access decision is.\<close>

theorem policydb_write_read:
  assumes "policydb_normal p"
  shows "(\<exists>out. policydb_write (\<lambda>_. True) p = Some out) \<and>
    (\<forall>out. policydb_write w p = Some out \<longrightarrow>
      (\<exists>p'. policydb_read (\<lambda>_. True) scratch (out @ rest) = Some (Some (p', rest)) \<and> policydb_same p p' \<and> policydb_indexed p' \<and>
        (\<forall>st ssid tsid tclass req. security_compute_av (st\<lparr>ss_policydb := p'\<rparr>) ssid tsid tclass req =
           security_compute_av (st\<lparr>ss_policydb := p\<rparr>) ssid tsid tclass req)))"
proof (intro conjI allI impI)
  show "\<exists>out. policydb_write (\<lambda>_. True) p = Some out" by (rule policydb_write_total [OF assms])
  fix out assume "policydb_write w p = Some out"
  from policydb_read_back [OF assms this, of scratch rest] obtain p' where
    "policydb_read (\<lambda>_. True) scratch (out @ rest) = Some (Some (p', rest))" "policydb_same p p'" "policydb_indexed p'" by blast
  then show "\<exists>p'. policydb_read (\<lambda>_. True) scratch (out @ rest) = Some (Some (p', rest)) \<and> policydb_same p p' \<and> policydb_indexed p' \<and>
      (\<forall>st ssid tsid tclass req. security_compute_av (st\<lparr>ss_policydb := p'\<rparr>) ssid tsid tclass req =
         security_compute_av (st\<lparr>ss_policydb := p\<rparr>) ssid tsid tclass req)"
    by (intro exI [of _ p'] conjI allI policydb_same_decision)
qed

theorem policydb_write_read_witness:
  "\<exists>out p'. policydb_write (\<lambda>_. True) file_policy = Some out \<and>
     policydb_read (\<lambda>_. True) (replicate 32 0) (out @ [7]) = Some (Some (p', [7])) \<and>
     p_class_val_to_name p' = [Some ''file''] \<and> avtab_search (Some (te_avtab p')) demo_key = Some demo_datum \<and>
     security_compute_av (demo_ss\<lparr>ss_policydb := p'\<rparr>) 1 1 1 5 = security_compute_av (demo_ss\<lparr>ss_policydb := file_policy\<rparr>) 1 1 1 5"
proof -
  note wr = policydb_write_read [OF file_policy_normal, of "\<lambda>_. True" "replicate 32 0" "[7]"]
  obtain out where out: "policydb_write (\<lambda>_. True) file_policy = Some out" using wr by blast
  with wr obtain p' where p': "policydb_read (\<lambda>_. True) (replicate 32 0) (out @ [7]) = Some (Some (p', [7]))" "policydb_same file_policy p'"
    "\<And>st ssid tsid tclass req. security_compute_av (st\<lparr>ss_policydb := p'\<rparr>) ssid tsid tclass req =
       security_compute_av (st\<lparr>ss_policydb := file_policy\<rparr>) ssid tsid tclass req" by blast
  have "p_class_val_to_name p' = [Some ''file'']" "avtab_search (Some (te_avtab p')) demo_key = Some demo_datum"
    using p'(2) file_avtab_ok(2) by (simp_all add: policydb_same_def arrays_same_def avtab_cur_abs(2))
  then show ?thesis using out p'(1,3) by blast
qed

section \<open>Loading\<close>

text \<open>C33. Loading a policy with an \<open>fread\<close> that counts items, in a server whose invariant holds and whose class
  tables are valid, either fails with \<open>EINVAL\<close> and leaves the server as it was, or makes the policy of the file the
  active one and raises the sequence number; then every class and permission of the old policy is still there with
  the same value.  If the category values of the new policy are between 1 and
  2^32 - 64, each identifier either keeps a context with
  the same names that is valid under the new policy, or is dropped, when all allocations succeed only if there is no such
  context, and no identifier is added.  Then identifiers with different contexts keep different ones, if
  the new policy gives different values to the names of different values of the old one.  If moreover the object
  contexts of the new policy are valid, the server's invariant holds.\<close>

theorem load_policy_correct:
  assumes "ss_ok st" "classes_ok (ss_policydb st)" "load_policy ok alloc scratch st fp = Some (rc, st')"
  shows "case rc of
      Some e \<Rightarrow> e = EINVAL \<and> st' = st
    | None \<Rightarrow> (\<exists>rest. policydb_read (\<lambda>q. ok (0 # q)) scratch fp = Some (Some (ss_policydb st', rest))) \<and>
        classes_kept (ss_policydb st) (ss_policydb st') \<and> latest_granting st' = latest_granting st + 1 \<and>
        (cats_ok (ss_policydb st') \<longrightarrow> sids_converted (\<forall>q. ok q) st st' \<and>
           (names_apart (ss_policydb st) (ss_policydb st') \<longrightarrow> sidtab_distinct (ss_sidtab st) \<longrightarrow> sidtab_distinct (ss_sidtab st')) \<and>
           (ocon_ok (ss_policydb st') \<longrightarrow> ss_ok st'))"
proof (cases rc)
  case None
  note run = assms(3) [unfolded None]
  obtain newp rest where "policydb_read (\<lambda>q. ok (0 # q)) scratch fp = Some (Some (newp, rest))" "ss_policydb st' = newp"
    "classes_kept (ss_policydb st) newp" "latest_granting st' = latest_granting st + 1" "cats_ok newp \<Longrightarrow> sids_converted (\<forall>q. ok q) st st'"
    by (rule load_policy_spec [OF assms(1,2) run]) (rule that)
  then show ?thesis using None load_policy_ok [OF assms(1,2) run] load_policy_distinct [OF assms(1,2) run] by auto
next
  case (Some e)
  then show ?thesis using load_policy_error [of ok alloc scratch st fp e st'] assms(3) by simp
qed

theorem load_policy_correct_witness:
  "\<exists>out st'. policydb_write (\<lambda>_. True) file_policy = Some out \<and>
     load_policy (\<lambda>_. True) big_block (replicate 32 0) file_ss out = Some (None, st') \<and> latest_granting st' = 1 \<and>
     sidtab_search (Some (ss_sidtab st')) 1 = Some demo_context \<and> ss_ok st'"
proof -
  obtain out where out: "policydb_write (\<lambda>_. True) file_policy = Some out" by (rule file_written)
  obtain st' where st': "load_policy (\<lambda>_. True) big_block (replicate 32 0) file_ss out = Some (None, st')"
    "policydb_same file_policy (ss_policydb st')" "policydb_indexed (ss_policydb st')" "sidtab_abs (ss_sidtab st') = [1 \<mapsto> demo_context]"
    by (rule file_loaded [OF out])
  have c: "classes_ok (ss_policydb file_ss)" using normal_classes_ok [OF file_policy_normal] by simp
  have "cats_ok (ss_policydb st')" "ocon_ok (ss_policydb st')"
    using same_cats_ok [OF st'(2)] same_ocon_ok [OF st'(2) file_policy_normal] file_ss_ok by (simp_all add: ss_ok_def)
  then have "latest_granting st' = 1 \<and> ss_ok st'" using load_policy_correct [OF file_ss_ok c st'(1)] by simp
  then show ?thesis using out st'(1,4) by (auto simp: sidtab_walk(2))
qed

text \<open>C34. When loading a policy, with an \<open>fread\<close> that counts items, has undefined behaviour.  All allocations of the
  conversion succeed, the file was read, the new policy keeps the classes, its tables can be searched, its arrays
  index them and its category values are between 1 and 2^32 - 64; the invariant of the server holds, its class tables are valid, its policy
  gives every value a name free of separators and the types of the contexts in use are primary values.
  Then the behaviour is undefined exactly when, for an identifier in use, the new policy has the user but not the role
  (\<open>convert_context\<close> follows the \<open>NULL\<close> that the search returned), or its context has no valid translation and the string
  that is printed for it overruns its block.\<close>

theorem load_policy_missing_role:
  assumes "ss_ok st" "classes_ok (ss_policydb st)" "policydb_read (\<lambda>q. ok (0 # q)) scratch fp = Some (Some (newp, rest))"
    "classes_kept (ss_policydb st) newp" "lookups_ok newp" "cats_ok newp" "policy_named (ss_policydb st)"
    "\<forall>c\<in>ran (sidtab_abs (ss_sidtab st)). 0 < c_type c \<and> c_type c \<le> sym_nprim (p_types (ss_policydb st))" "\<forall>q. ok q"
  shows "load_policy ok alloc scratch st fp = None \<longleftrightarrow> (\<exists>c\<in>ran (sidtab_abs (ss_sidtab st)).
    role_missing (ss_policydb st) newp c \<or>
    \<not> (\<exists>c'. context_translates (ss_policydb st) newp c c' \<and> ctx_ok newp c') \<and> context_struct_to_string alloc (ss_policydb st) c = None)"
  unfolding translatable_def [symmetric] by (rule load_policy_defined [OF assms(1-7)]) (use assms(8,9) in auto)

theorem load_policy_missing_role_witness:
  "\<exists>out. policydb_write (\<lambda>_. True) renamed_policy = Some out \<and> load_policy (\<lambda>_. True) big_block (replicate 32 0) file_ss out = None"
proof -
  obtain out where out: "policydb_write (\<lambda>_. True) renamed_policy = Some out"
    using policydb_write_total [OF renamed_policy_normal] by blast
  from policydb_read_back [OF renamed_policy_normal this, of "replicate 32 0" "[]"] obtain p' where
    p': "policydb_read (\<lambda>_. True) (replicate 32 0) out = Some (Some (p', []))" "policydb_same renamed_policy p'" "policydb_indexed p'" by auto
  have kept: "classes_kept (ss_policydb file_ss) p'" using same_classes_kept [OF p'(2)] by (simp add: classes_kept_def)
  have look: "lookups_ok p'" using same_lookups [OF p'(2,3)] file_sens_named by (simp add: sens_named_def)
  have cats: "cats_ok p'" using same_cats_ok [OF p'(2)] by (simp add: cats_ok_def demo_tab_search)
  have c: "classes_ok (ss_policydb file_ss)" using normal_classes_ok [OF file_policy_normal] by simp
  have "sym_abs (p_users p') ''u'' = Some demo_user" "sym_abs (p_roles p') ''r'' = None"
    using p'(2) sym_same_eq(1) [of "p_users renamed_policy" "p_users p'"] sym_same_eq(1) [of "p_roles renamed_policy" "p_roles p'"]
    by (simp_all add: policydb_same_def symtabs_same_def demo_tab_abs)
  moreover have "fetch (p_user_val_to_name file_policy) (c_user demo_context) = Some ''u''"
    "fetch (p_role_val_to_name file_policy) (c_role demo_context) = Some ''r''" by (simp_all add: demo_context_def)
  moreover have "policy_named (ss_policydb file_ss)" using file_policy_named by simp
  moreover have "\<forall>c\<in>ran (sidtab_abs (ss_sidtab file_ss)). 0 < c_type c \<and> c_type c \<le> sym_nprim (p_types (ss_policydb file_ss))"
    using file_types by simp
  ultimately have "load_policy (\<lambda>_. True) big_block (replicate 32 0) file_ss out = None"
    using load_policy_missing_role [OF file_ss_ok c _ kept look cats, of "\<lambda>_. True" "replicate 32 0" out "[]" big_block] p'(1)
    by (simp add: demo_sidtab_ok role_missing_def)
  then show ?thesis using out by blast
qed

text \<open>C35. A server that loads the file of its own policy, with an \<open>fread\<close> that counts items and enough memory for the
  policy and the contexts, succeeds, whatever \<open>malloc\<close> gives for strings: all identifiers keep their contexts and all
  decisions stay the same, apart from the sequence number.  The policy has a binary form, every value of it has a
  name free of separators, every sensitivity a primary name, and the types of the contexts in use are primary
  values.\<close>

theorem reload_unchanged:
  assumes "ss_ok st" "policydb_normal (ss_policydb st)" "policy_named (ss_policydb st)" "sens_named (ss_policydb st)"
    "\<forall>c\<in>ran (sidtab_abs (ss_sidtab st)). 0 < c_type c \<and> c_type c \<le> sym_nprim (p_types (ss_policydb st))"
    "policydb_write w (ss_policydb st) = Some out"
  shows "\<exists>st'. load_policy (\<lambda>_. True) alloc scratch st (out @ rest) = Some (None, st') \<and>
    sidtab_abs (ss_sidtab st') = sidtab_abs (ss_sidtab st) \<and>
    (\<forall>ssid tsid tclass req. security_compute_av st' ssid tsid tclass req =
      security_compute_av (st\<lparr>latest_granting := latest_granting st + 1\<rparr>) ssid tsid tclass req)"
proof -
  obtain st' where st': "load_policy (\<lambda>_. True) alloc scratch st (out @ rest) = Some (None, st')"
    "policydb_same (ss_policydb st) (ss_policydb st')" "sidtab_abs (ss_sidtab st') = sidtab_abs (ss_sidtab st)"
    "ss_initialized st' = ss_initialized st" "latest_granting st' = latest_granting st + 1"
    using reload_policy [OF assms(1-4) _ assms(6), of alloc scratch rest] assms(5) by blast
  let ?st = "st\<lparr>latest_granting := latest_granting st + 1\<rparr>"
  have "security_compute_av st' ssid tsid tclass req = security_compute_av ?st ssid tsid tclass req" for ssid tsid tclass req
  proof -
    have "security_compute_av (st'\<lparr>ss_policydb := ss_policydb st\<rparr>) ssid tsid tclass req = security_compute_av ?st ssid tsid tclass req"
      by (rule same_rules_decision) (simp_all add: same_rules_refl st' sidtab_walk(2))
    then show ?thesis using policydb_same_decision [OF st'(2), of st' ssid tsid tclass req] by simp
  qed
  then show ?thesis using st'(1,3) by blast
qed

theorem reload_unchanged_witness:
  "\<exists>out st'. policydb_write (\<lambda>_. True) file_policy = Some out \<and>
     load_policy (\<lambda>_. True) big_block (replicate 32 0) file_ss (out @ [7]) = Some (None, st') \<and>
     security_compute_av st' 1 1 1 5 = security_compute_av (file_ss\<lparr>latest_granting := 1\<rparr>) 1 1 1 5"
proof -
  obtain out where out: "policydb_write (\<lambda>_. True) file_policy = Some out" by (rule file_written)
  have s: "ss_policydb file_ss = file_policy" "ss_sidtab file_ss = demo_sidtab" "latest_granting file_ss = 0" by simp_all
  note r = reload_unchanged [of file_ss, unfolded s, OF file_ss_ok file_policy_normal file_policy_named file_sens_named _ out,
    of big_block "replicate 32 0" "[7]"]
  then show ?thesis using out file_types by auto
qed

end
