(* ===== verification/Avc.thy ===== *)
theory Avc
  imports Services
begin

text \<open>
  The access vector cache (\<open>com/avc.c\<close>, \<open>oskit/flask/avc.h\<close>): the nodes allocated at creation, kept in
  128 hash chains and a free list, and the operations of the two interfaces of the object.  A pointer to a node is
  its number in the order of allocation; following one that does not exist, a panic and other undefined behaviour
  are \<open>None\<close>.  The interface of the security server that the cache calls is the parameter \<open>sec\<close>; the tables that the
  build generates from \<open>flask/access_vectors\<close> and \<open>flask/security_classes\<close> are \<open>tbl\<close>; \<open>invoke i\<close> is what the
  \<open>i\<close>-th callback invoked by an operation does.  The log is the text written to it.
\<close>

section \<open>State\<close>

definition AVC_CACHE_SLOTS :: u32 where
  "AVC_CACHE_SLOTS = 128"

definition AVC_CACHE_MAXNODES :: nat where
  "AVC_CACHE_MAXNODES = 102"

definition SECSID_WILD :: u32 where
  "SECSID_WILD = 0xFFFFFFFF"

record avc_entry =
  ae_ssid :: u32
  ae_tsid :: u32
  ae_tclass :: "16 word"
  ae_allowed :: u32
  ae_decided :: u32
  ae_auditallow :: u32
  ae_auditdeny :: u32
  ae_notify :: u32
  ae_used :: bool

record avc_callback_node =
  cb_callback :: nat
  cb_events :: u32
  cb_ssid :: u32
  cb_tsid :: u32
  cb_tclass :: "16 word"
  cb_perms :: u32

record avc_cache =
  ac_stats :: "u32 list"
  ac_always_allow :: bool
  ac_count :: u32
  ac_log :: string
  ac_callbacks :: "avc_callback_node list"
  ac_nodes :: "avc_entry list"
  ac_slots :: "nat list list"
  ac_freelist :: "nat list"
  ac_lru_hint :: u32
  ac_activeNodes :: u32
  ac_latest_notif :: u32

text \<open>The operations of the security server that the cache uses (\<open>oskit/flask/security.h\<close>).\<close>

record security =
  sec_compute_av :: "u32 \<Rightarrow> u32 \<Rightarrow> 16 word \<Rightarrow> u32 \<Rightarrow> (errno + decision) option"
  sec_sid_to_context :: "u32 \<Rightarrow> (errno + char list \<times> nat) option"
  sec_notify_perm :: "u32 \<Rightarrow> u32 \<Rightarrow> 16 word \<Rightarrow> u32 \<Rightarrow> int"

record av_tables =
  class_to_string :: "string list"
  av_inherit :: "(16 word \<times> string list \<times> u32) list"
  av_perm_to_string :: "(16 word \<times> u32 \<times> string) list"

definition zero_entry :: avc_entry where
  "zero_entry = \<lparr>ae_ssid = 0, ae_tsid = 0, ae_tclass = 0, ae_allowed = 0, ae_decided = 0, ae_auditallow = 0,
     ae_auditdeny = 0, ae_notify = 0, ae_used = False\<rparr>"

definition item :: "'a list \<Rightarrow> nat \<Rightarrow> 'a option" where
  "item xs i = (if i < length xs then Some (xs ! i) else None)"

section \<open>Text\<close>

fun nat_text :: "nat \<Rightarrow> string" where
  "nat_text n = (if n < 10 then [char_of (48 + n)] else nat_text (n div 10) @ [char_of (48 + n mod 10)])"

declare nat_text.simps [simp del]

text \<open>\<open>%d\<close> and \<open>%s\<close>.\<close>

definition d_text :: "u32 \<Rightarrow> string" where
  "d_text w = (if sint w < 0 then ''-'' @ nat_text (nat (- sint w)) else nat_text (nat (sint w)))"

definition s_text :: "char list \<Rightarrow> string option" where
  "s_text buf = (if CHR 0x00 \<in> set buf then Some (takeWhile (\<lambda>c. c \<noteq> CHR 0x00) buf) else None)"

definition log_log :: "string \<Rightarrow> avc_cache \<Rightarrow> avc_cache" where
  "log_log s avc = avc\<lparr>ac_log := ac_log avc @ s\<rparr>"

section \<open>Creation\<close>

text \<open>Each new node goes to the head of the free list; the loop ends at the first allocation that fails.\<close>

fun avc_alloc_nodes :: "mallocs \<Rightarrow> nat \<Rightarrow> nat \<Rightarrow> avc_cache \<Rightarrow> nat \<times> avc_cache" where
  "avc_alloc_nodes ok 0 i avc = (i, avc)"
| "avc_alloc_nodes ok (Suc n) i avc =
     (if \<not> ok (Suc i) then (i, log_log (''avc:  only able to allocate '' @ d_text (of_nat i) @ '' nodes\<newline>'') avc)
      else avc_alloc_nodes ok n (Suc i)
             (avc\<lparr>ac_nodes := ac_nodes avc @ [zero_entry], ac_freelist := length (ac_nodes avc) # ac_freelist avc\<rparr>))"

definition sizeof_avc_node :: nat where
  "sizeof_avc_node = 40"

definition sizeof_avc_cache :: nat where
  "sizeof_avc_cache = 592"

text \<open>\<open>has_log\<close> and \<open>has_mem\<close> say whether the service directory has the two interfaces.  The references that are taken to
  them and to the security server are counted in those objects.\<close>

definition avc_create :: "bool \<Rightarrow> bool \<Rightarrow> mallocs \<Rightarrow> errno + avc_cache" where
  "avc_create has_log has_mem ok =
     (if \<not> has_log then Inl EINVAL
      else if \<not> has_mem then Inl EINVAL
      else if \<not> ok 0 then Inl ENOMEM
      else
        let avc = \<lparr>ac_stats = replicate 8 0, ac_always_allow = False, ac_count = 1, ac_log = '''', ac_callbacks = [],
                   ac_nodes = [], ac_slots = replicate (unat AVC_CACHE_SLOTS) [], ac_freelist = [], ac_lru_hint = 0,
                   ac_activeNodes = 0, ac_latest_notif = 0\<rparr>;
            (i, avc) = avc_alloc_nodes ok AVC_CACHE_MAXNODES 0 avc
        in Inr (log_log (''AVC:  allocated '' @ d_text (of_nat (sizeof_avc_cache + i * sizeof_avc_node)) @
                  '' bytes during initialization.\<newline>'') avc))"

definition AVC_HASH :: "u32 \<Rightarrow> u32 \<Rightarrow> 16 word \<Rightarrow> u32" where
  "AVC_HASH ssid tsid tclass = (ssid XOR push_bit 2 tsid XOR push_bit 4 (ucast tclass)) AND (AVC_CACHE_SLOTS - 1)"

section \<open>Logging\<close>

definition stat :: "avc_cache \<Rightarrow> nat \<Rightarrow> string" where
  "stat avc k = d_text (ac_stats avc ! k)"

definition avc_log_stats :: "string \<Rightarrow> avc_cache \<Rightarrow> avc_cache" where
  "avc_log_stats tag avc =
     log_log (tag @ '' avc:  entry:  '' @ stat avc 0 @ '' lookups == '' @ stat avc 1 @ '' hits + '' @ stat avc 2 @
       '' misses ('' @ stat avc 3 @ '' discards)\<newline>'' @
       tag @ '' avc:  cav:  '' @ stat avc 4 @ '' lookups == '' @ stat avc 5 @ '' hits + '' @ stat avc 7 @ '' misses\<newline>'' @
       tag @ '' avc:  cav:  '' @ stat avc 6 @ ''/'' @ stat avc 5 @ '' probe/hit ratio\<newline>'') avc"

text \<open>The permissions of the common prefix.  After 32 shifts \<open>perm\<close> is 0 and the loop goes on for ever.\<close>

fun log_commons :: "string list \<Rightarrow> u32 \<Rightarrow> u32 \<Rightarrow> nat \<Rightarrow> nat \<Rightarrow> u32 \<Rightarrow> (string \<times> nat \<times> u32) option" where
  "log_commons pts base av n i perm =
     (if perm < base then
        (case n of
           0 \<Rightarrow> None
         | Suc n \<Rightarrow> do {
             s \<leftarrow> (if perm AND av \<noteq> 0 then map_option (\<lambda>s. '' '' @ s) (item pts i) else Some '''');
             (t, i, perm) \<leftarrow> log_commons pts base av n (Suc i) (push_bit 1 perm);
             Some (s @ t, i, perm)
           })
      else Some ('''', i, perm))"

declare log_commons.simps [simp del]

fun log_perms :: "(16 word \<times> u32 \<times> string) list \<Rightarrow> 16 word \<Rightarrow> u32 \<Rightarrow> nat \<Rightarrow> u32 \<Rightarrow> string" where
  "log_perms pts tclass av 0 perm = ''''"
| "log_perms pts tclass av (Suc n) perm =
     (if perm AND av \<noteq> 0 then
        (case find (\<lambda>(c, v, s). c = tclass \<and> v = perm) pts of None \<Rightarrow> '''' | Some (c, v, s) \<Rightarrow> '' '' @ s)
      else '''') @
     log_perms pts tclass av n (push_bit 1 perm)"

definition avc_log_av :: "av_tables \<Rightarrow> 16 word \<Rightarrow> u32 \<Rightarrow> avc_cache \<Rightarrow> avc_cache option" where
  "avc_log_av tbl tclass av avc =
     (if av = 0 then Some (log_log '' null'' avc)
      else do {
        let (common_pts, common_base) =
          (case find (\<lambda>(c, pts, base). c = tclass) (av_inherit tbl) of
             None \<Rightarrow> ([], 0)
           | Some (c, pts, base) \<Rightarrow> (pts, base));
        (s, i, perm) \<leftarrow> log_commons common_pts common_base av 32 0 1;
        Some (log_log ('' {'' @ s @ log_perms (av_perm_to_string tbl) tclass av (32 - i) perm @ '' }'') avc)
      })"

definition log_context :: "security \<Rightarrow> u32 \<Rightarrow> string \<Rightarrow> string \<Rightarrow> avc_cache \<Rightarrow> avc_cache option" where
  "log_context sec sid failed found avc = do {
     r \<leftarrow> sec_sid_to_context sec sid;
     case r of
       Inl e \<Rightarrow> Some (log_log (failed @ d_text sid) avc)
     | Inr (scontext, len) \<Rightarrow> map_option (\<lambda>s. log_log (found @ s) avc) (s_text scontext)
   }"

definition avc_log_query :: "security \<Rightarrow> av_tables \<Rightarrow> u32 \<Rightarrow> u32 \<Rightarrow> 16 word \<Rightarrow> avc_cache \<Rightarrow> avc_cache option" where
  "avc_log_query sec tbl ssid tsid tclass avc = do {
     avc \<leftarrow> log_context sec ssid ''ssid='' ''scontext='' avc;
     avc \<leftarrow> log_context sec tsid '' tsid='' '' tcontext='' avc;
     s \<leftarrow> item (class_to_string tbl) (unat tclass);
     Some (log_log ('' tclass='' @ s) avc)
   }"

fun log_chain :: "security \<Rightarrow> av_tables \<Rightarrow> nat list \<Rightarrow> avc_cache \<Rightarrow> avc_cache option" where
  "log_chain sec tbl [] avc = Some avc"
| "log_chain sec tbl (i # is) avc = do {
     ae \<leftarrow> item (ac_nodes avc) i;
     avc \<leftarrow> avc_log_query sec tbl (ae_ssid ae) (ae_tsid ae) (ae_tclass ae) avc;
     avc \<leftarrow> avc_log_av tbl (ae_tclass ae) (ae_allowed ae) (log_log '' allowed'' avc);
     log_chain sec tbl is (log_log ''\<newline>'' avc)
   }"

fun log_slots :: "security \<Rightarrow> av_tables \<Rightarrow> string \<Rightarrow> nat \<Rightarrow> nat list list \<Rightarrow> nat \<Rightarrow> nat \<Rightarrow> avc_cache \<Rightarrow> (nat \<times> nat \<times> avc_cache) option" where
  "log_slots sec tbl tag i [] slots_used max_chain_len avc = Some (slots_used, max_chain_len, avc)"
| "log_slots sec tbl tag i (ch # chs) slots_used max_chain_len avc =
     (if ch = [] then log_slots sec tbl tag (Suc i) chs slots_used max_chain_len avc
      else do {
        avc \<leftarrow> log_chain sec tbl ch (log_log (''\<newline>'' @ tag @ '' avc:  slot '' @ d_text (of_nat i) @ '':\<newline>'') avc);
        log_slots sec tbl tag (Suc i) chs (Suc slots_used) (max max_chain_len (length ch)) avc
      })"

definition avc_log_contents :: "security \<Rightarrow> av_tables \<Rightarrow> string \<Rightarrow> avc_cache \<Rightarrow> avc_cache option" where
  "avc_log_contents sec tbl tag avc = do {
     (slots_used, max_chain_len, avc) \<leftarrow> log_slots sec tbl tag 0 (ac_slots avc) 0 0 (avc_log_stats tag avc);
     Some (log_log (''\<newline>'' @ tag @ '' avc:  '' @ d_text (ac_activeNodes avc) @ '' nodes and '' @ d_text (of_nat slots_used) @
       '' slots used, longest chain length '' @ d_text (of_nat max_chain_len) @ ''\<newline>'' @
       tag @ '' avc:  latest_notif='' @ d_text (ac_latest_notif avc) @ ''\<newline>'') avc)
   }"

end
