(* ===== verification/Avc_Ops.thy ===== *)
theory Avc_Ops
  imports Avc
begin

text \<open>
  The operations of the access vector cache: claiming and reclaiming of nodes, lookup and insertion, callbacks, the
  events that the security server sends, reference counts, and the permission checks of \<open>oskit/flask/avc.h\<close>
  that run on the operations.
\<close>

section \<open>Nodes\<close>

definition set_node :: "nat \<Rightarrow> avc_entry \<Rightarrow> avc_cache \<Rightarrow> avc_cache" where
  "set_node i ae avc = avc\<lparr>ac_nodes := (ac_nodes avc)[i := ae]\<rparr>"

definition set_slot :: "nat \<Rightarrow> nat list \<Rightarrow> avc_cache \<Rightarrow> avc_cache" where
  "set_slot h ch avc = avc\<lparr>ac_slots := (ac_slots avc)[h := ch]\<rparr>"

definition count_stat :: "nat \<Rightarrow> u32 \<Rightarrow> avc_cache \<Rightarrow> avc_cache" where
  "count_stat k n avc = avc\<lparr>ac_stats := (ac_stats avc)[k := ac_stats avc ! k + n]\<rparr>"

text \<open>One chain: the first node whose mark is clear is taken out of it; the marks before it are cleared.\<close>

fun reclaim_chain :: "avc_entry list \<Rightarrow> nat list \<Rightarrow> (avc_entry list \<times> (nat \<times> nat list) option) option" where
  "reclaim_chain ns [] = Some (ns, None)"
| "reclaim_chain ns (cur # rest) = do {
     ae \<leftarrow> item ns cur;
     if \<not> ae_used ae then Some (ns, Some (cur, rest))
     else do {
       (ns, r) \<leftarrow> reclaim_chain (ns[cur := ae\<lparr>ae_used := False\<rparr>]) rest;
       Some (ns, map_option (\<lambda>(i, ch). (i, cur # ch)) r)
     }
   }"

text \<open>One pass over the chains, from the hint around to the hint.\<close>

partial_function (option) reclaim_pass ::
    "nat list list \<Rightarrow> u32 \<Rightarrow> avc_entry list \<Rightarrow> u32 \<Rightarrow> (avc_entry list \<times> (u32 \<times> nat \<times> nat list) option) option" where
  "reclaim_pass slots hint ns hvalue = do {
     ch \<leftarrow> item slots (unat hvalue);
     (ns, r) \<leftarrow> reclaim_chain ns ch;
     case r of
       Some (cur, ch) \<Rightarrow> Some (ns, Some (hvalue, cur, ch))
     | None \<Rightarrow>
         let hvalue = (hvalue + 1) AND (AVC_CACHE_SLOTS - 1)
         in if hvalue \<noteq> hint then reclaim_pass slots hint ns hvalue else Some (ns, None)
   }"

definition avc_reclaim_node :: "avc_cache \<Rightarrow> (nat \<times> avc_cache) option" where
  "avc_reclaim_node avc = do {
     let found = (\<lambda>ns (hvalue, cur, ch).
       Some (cur, set_slot (unat hvalue) ch (avc\<lparr>ac_nodes := ns, ac_lru_hint := hvalue\<rparr>)));
     (ns, r) \<leftarrow> reclaim_pass (ac_slots avc) (ac_lru_hint avc) (ac_nodes avc) (ac_lru_hint avc);
     case r of
       Some x \<Rightarrow> found ns x
     | None \<Rightarrow> do {
         (ns, r) \<leftarrow> reclaim_pass (ac_slots avc) (ac_lru_hint avc) ns (ac_lru_hint avc);
         case r of Some x \<Rightarrow> found ns x | None \<Rightarrow> None
       }
   }"

text \<open>A node is always found, or the reclaiming panics, so the test of the result for \<open>NULL\<close> has no branch here.\<close>

definition avc_claim_node :: "avc_cache \<Rightarrow> u32 \<Rightarrow> u32 \<Rightarrow> 16 word \<Rightarrow> (nat \<times> avc_cache) option" where
  "avc_claim_node avc ssid tsid tclass = do {
     let hvalue = unat (AVC_HASH ssid tsid tclass);
     (new, avc) \<leftarrow>
       (case ac_freelist avc of
          new # rest \<Rightarrow> Some (new, avc\<lparr>ac_freelist := rest, ac_activeNodes := ac_activeNodes avc + 1\<rparr>)
        | [] \<Rightarrow> avc_reclaim_node avc);
     ae \<leftarrow> item (ac_nodes avc) new;
     ch \<leftarrow> item (ac_slots avc) hvalue;
     Some (new, set_slot hvalue (new # ch)
       (set_node new (ae\<lparr>ae_used := True, ae_ssid := ssid, ae_tsid := tsid, ae_tclass := tclass\<rparr>) avc))
   }"

fun search_chain :: "avc_entry list \<Rightarrow> u32 \<Rightarrow> u32 \<Rightarrow> 16 word \<Rightarrow> nat list \<Rightarrow> u32 \<Rightarrow> (nat \<times> u32) option option" where
  "search_chain ns ssid tsid tclass [] tprobes = Some None"
| "search_chain ns ssid tsid tclass (cur # rest) tprobes = do {
     ae \<leftarrow> item ns cur;
     if ssid \<noteq> ae_ssid ae \<or> tclass \<noteq> ae_tclass ae \<or> tsid \<noteq> ae_tsid ae
     then search_chain ns ssid tsid tclass rest (tprobes + 1)
     else Some (Some (cur, tprobes))
   }"

definition avc_search_node :: "avc_cache \<Rightarrow> u32 \<Rightarrow> u32 \<Rightarrow> 16 word \<Rightarrow> ((nat \<times> u32) option \<times> avc_cache) option" where
  "avc_search_node avc ssid tsid tclass = do {
     ch \<leftarrow> item (ac_slots avc) (unat (AVC_HASH ssid tsid tclass));
     r \<leftarrow> search_chain (ac_nodes avc) ssid tsid tclass ch 1;
     case r of
       None \<Rightarrow> Some (None, avc)
     | Some (cur, probes) \<Rightarrow> do {
         ae \<leftarrow> item (ac_nodes avc) cur;
         Some (Some (cur, probes), set_node cur (ae\<lparr>ae_used := True\<rparr>) avc)
       }
   }"

section \<open>Lookup and insertion\<close>

definition avc_lookup :: "avc_cache \<Rightarrow> u32 \<Rightarrow> u32 \<Rightarrow> 16 word \<Rightarrow> u32 \<Rightarrow> ((errno + nat) \<times> avc_cache) option" where
  "avc_lookup avc ssid tsid tclass requested = do {
     let avc = count_stat 4 1 avc;
     (r, avc) \<leftarrow> avc_search_node avc ssid tsid tclass;
     let miss = Some (Inl ENOENT, count_stat 7 1 avc);
     case r of
       None \<Rightarrow> miss
     | Some (node, probes) \<Rightarrow> do {
         ae \<leftarrow> item (ac_nodes avc) node;
         if ae_decided ae AND requested = requested then Some (Inr node, count_stat 6 probes (count_stat 5 1 avc))
         else miss
       }
   }"

definition avc_insert ::
    "avc_cache \<Rightarrow> u32 \<Rightarrow> u32 \<Rightarrow> 16 word \<Rightarrow> avc_entry \<Rightarrow> u32 \<Rightarrow> ((errno + nat) \<times> avc_cache) option" where
  "avc_insert avc ssid tsid tclass ae seqno =
     (if seqno < ac_latest_notif avc then
        Some (Inl EAGAIN, log_log (''avc:  seqno '' @ d_text seqno @ '' < latest_notif '' @ d_text (ac_latest_notif avc) @ ''\<newline>'') avc)
      else do {
        (node, avc) \<leftarrow> avc_claim_node avc ssid tsid tclass;
        e \<leftarrow> item (ac_nodes avc) node;
        Some (Inr node, set_node node
          (e\<lparr>ae_allowed := ae_allowed ae, ae_decided := ae_decided ae, ae_auditallow := ae_auditallow ae,
             ae_auditdeny := ae_auditdeny ae, ae_notify := ae_notify ae\<rparr>) avc)
      })"

definition avc_audit ::
    "security \<Rightarrow> av_tables \<Rightarrow> avc_cache \<Rightarrow> u32 \<Rightarrow> u32 \<Rightarrow> 16 word \<Rightarrow> u32 \<Rightarrow> bool \<Rightarrow> avc_cache option" where
  "avc_audit sec tbl avc ssid tsid tclass audited denied = do {
     let avc = log_log (''\<newline>avc:  '' @ (if denied then ''denied'' else ''granted'') @ '' '') avc;
     avc \<leftarrow> avc_log_av tbl tclass audited avc;
     avc \<leftarrow> avc_log_query sec tbl ssid tsid tclass (log_log '' for '' avc);
     Some (log_log ''\<newline>'' avc)
   }"

section \<open>Callbacks\<close>

text \<open>\<open>block\<close> is what the memory returned by the allocation holds: the class is not stored there.\<close>

definition avc_add_callback ::
    "avc_callback_node option \<Rightarrow> avc_cache \<Rightarrow> nat \<Rightarrow> u32 \<Rightarrow> u32 \<Rightarrow> u32 \<Rightarrow> 16 word \<Rightarrow> u32 \<Rightarrow> errno option \<times> avc_cache" where
  "avc_add_callback block avc c events ssid tsid tclass perms =
     (case block of
        None \<Rightarrow> (Some ENOMEM, avc)
      | Some node \<Rightarrow>
          (None, avc\<lparr>ac_callbacks :=
             node\<lparr>cb_callback := c, cb_events := events, cb_ssid := ssid, cb_tsid := tsid, cb_perms := perms\<rparr> # ac_callbacks avc\<rparr>))"

fun remove_callback :: "nat \<Rightarrow> avc_callback_node list \<Rightarrow> avc_callback_node list option" where
  "remove_callback c [] = None"
| "remove_callback c (cur # rest) =
     (if cb_callback cur = c then Some rest else map_option ((#) cur) (remove_callback c rest))"

definition avc_remove_callback :: "avc_cache \<Rightarrow> nat \<Rightarrow> errno option \<times> avc_cache" where
  "avc_remove_callback avc c =
     (case remove_callback c (ac_callbacks avc) of
        None \<Rightarrow> (Some ENOENT, avc)
      | Some cs \<Rightarrow> (None, avc\<lparr>ac_callbacks := cs\<rparr>))"

section \<open>Events\<close>

definition CALLBACK_GRANT :: u32 where "CALLBACK_GRANT = 1"
definition CALLBACK_TRY_REVOKE :: u32 where "CALLBACK_TRY_REVOKE = 2"
definition CALLBACK_REVOKE :: u32 where "CALLBACK_REVOKE = 4"
definition CALLBACK_RESET :: u32 where "CALLBACK_RESET = 8"
definition CALLBACK_AUDITALLOW_ENABLE :: u32 where "CALLBACK_AUDITALLOW_ENABLE = 16"
definition CALLBACK_AUDITALLOW_DISABLE :: u32 where "CALLBACK_AUDITALLOW_DISABLE = 32"
definition CALLBACK_AUDITDENY_ENABLE :: u32 where "CALLBACK_AUDITDENY_ENABLE = 64"
definition CALLBACK_AUDITDENY_DISABLE :: u32 where "CALLBACK_AUDITDENY_DISABLE = 128"
definition CALLBACK_NOTIFY_ENABLE :: u32 where "CALLBACK_NOTIFY_ENABLE = 256"
definition CALLBACK_NOTIFY_DISABLE :: u32 where "CALLBACK_NOTIFY_DISABLE = 512"

lemmas callback_events =
  CALLBACK_GRANT_def CALLBACK_TRY_REVOKE_def CALLBACK_REVOKE_def CALLBACK_RESET_def
  CALLBACK_AUDITALLOW_ENABLE_def CALLBACK_AUDITALLOW_DISABLE_def CALLBACK_AUDITDENY_ENABLE_def
  CALLBACK_AUDITDENY_DISABLE_def CALLBACK_NOTIFY_ENABLE_def CALLBACK_NOTIFY_DISABLE_def

definition AVC_SIDCMP :: "u32 \<Rightarrow> u32 \<Rightarrow> bool" where
  "AVC_SIDCMP x y \<longleftrightarrow> x = y \<or> x = SECSID_WILD \<or> y = SECSID_WILD"

definition avc_update_node :: "u32 \<Rightarrow> u32 \<Rightarrow> avc_entry \<Rightarrow> avc_entry" where
  "avc_update_node event perms ae =
     (if event = CALLBACK_GRANT then ae\<lparr>ae_allowed := ae_allowed ae OR perms\<rparr>
      else if event = CALLBACK_TRY_REVOKE \<or> event = CALLBACK_REVOKE then ae\<lparr>ae_allowed := ae_allowed ae AND NOT perms\<rparr>
      else if event = CALLBACK_AUDITALLOW_ENABLE then ae\<lparr>ae_auditallow := ae_auditallow ae OR perms\<rparr>
      else if event = CALLBACK_AUDITALLOW_DISABLE then ae\<lparr>ae_auditallow := ae_auditallow ae AND NOT perms\<rparr>
      else if event = CALLBACK_AUDITDENY_ENABLE then ae\<lparr>ae_auditdeny := ae_auditdeny ae OR perms\<rparr>
      else if event = CALLBACK_AUDITDENY_DISABLE then ae\<lparr>ae_auditdeny := ae_auditdeny ae AND NOT perms\<rparr>
      else if event = CALLBACK_NOTIFY_ENABLE then ae\<lparr>ae_notify := ae_notify ae OR perms\<rparr>
      else if event = CALLBACK_NOTIFY_DISABLE then ae\<lparr>ae_notify := ae_notify ae AND NOT perms\<rparr>
      else ae)"

fun update_chain :: "u32 \<Rightarrow> u32 \<Rightarrow> u32 \<Rightarrow> 16 word \<Rightarrow> u32 \<Rightarrow> nat list \<Rightarrow> avc_entry list \<Rightarrow> avc_entry list option" where
  "update_chain event ssid tsid tclass perms [] ns = Some ns"
| "update_chain event ssid tsid tclass perms (i # is) ns = do {
     ae \<leftarrow> item ns i;
     update_chain event ssid tsid tclass perms is
       (if AVC_SIDCMP ssid (ae_ssid ae) \<and> AVC_SIDCMP tsid (ae_tsid ae) \<and> tclass = ae_tclass ae
        then ns[i := avc_update_node event perms ae] else ns)
   }"

definition avc_update_cache :: "avc_cache \<Rightarrow> u32 \<Rightarrow> u32 \<Rightarrow> u32 \<Rightarrow> 16 word \<Rightarrow> u32 \<Rightarrow> avc_cache option" where
  "avc_update_cache avc event ssid tsid tclass perms =
     (if ssid = SECSID_WILD \<or> tsid = SECSID_WILD then
        map_option (\<lambda>ns. avc\<lparr>ac_nodes := ns\<rparr>)
          (update_chain event ssid tsid tclass perms (concat (ac_slots avc)) (ac_nodes avc))
      else do {
        (r, avc) \<leftarrow> avc_search_node avc ssid tsid tclass;
        case r of
          None \<Rightarrow> Some avc
        | Some (node, probes) \<Rightarrow> do {
            ae \<leftarrow> item (ac_nodes avc) node;
            Some (set_node node (avc_update_node event perms ae) avc)
          }
      })"

type_synonym invocation = "nat \<Rightarrow> nat \<Rightarrow> u32 \<Rightarrow> u32 \<Rightarrow> u32 \<Rightarrow> 16 word \<Rightarrow> u32 \<Rightarrow> errno option \<times> u32"

fun control_callbacks ::
    "invocation \<Rightarrow> nat \<Rightarrow> u32 \<Rightarrow> u32 \<Rightarrow> u32 \<Rightarrow> 16 word \<Rightarrow> u32 \<Rightarrow> avc_callback_node list \<Rightarrow> u32 \<Rightarrow> errno + u32" where
  "control_callbacks invoke i event ssid tsid tclass perms [] tretained = Inr tretained"
| "control_callbacks invoke i event ssid tsid tclass perms (c # cs) tretained =
     (if cb_events c AND event \<noteq> 0 \<and> AVC_SIDCMP (cb_ssid c) ssid \<and> AVC_SIDCMP (cb_tsid c) tsid \<and>
         cb_tclass c = tclass \<and> cb_perms c AND perms \<noteq> 0 then
        (case invoke i (cb_callback c) event ssid tsid tclass (cb_perms c AND perms) of
           (Some e, cretained) \<Rightarrow> Inl e
         | (None, cretained) \<Rightarrow>
             control_callbacks invoke (Suc i) event ssid tsid tclass perms cs (tretained OR cretained))
      else control_callbacks invoke i event ssid tsid tclass perms cs tretained)"

definition notified :: "u32 \<Rightarrow> avc_cache \<Rightarrow> avc_cache" where
  "notified seqno avc = (if seqno > ac_latest_notif avc then avc\<lparr>ac_latest_notif := seqno\<rparr> else avc)"

text \<open>The result is the error code or the retained permissions, which are stored only for \<open>TRY_REVOKE\<close>.\<close>

definition avc_control ::
    "invocation \<Rightarrow> avc_cache \<Rightarrow> u32 \<Rightarrow> u32 \<Rightarrow> u32 \<Rightarrow> 16 word \<Rightarrow> u32 \<Rightarrow> u32 \<Rightarrow> ((errno + u32) \<times> avc_cache) option" where
  "avc_control invoke avc event ssid tsid tclass perms seqno = do {
     avc \<leftarrow> (if event \<noteq> CALLBACK_TRY_REVOKE then avc_update_cache avc event ssid tsid tclass perms else Some avc);
     case control_callbacks invoke 0 event ssid tsid tclass perms (ac_callbacks avc) 0 of
       Inl e \<Rightarrow> Some (Inl e, avc)
     | Inr tretained \<Rightarrow> do {
         avc \<leftarrow> (if event = CALLBACK_TRY_REVOKE
                then avc_update_cache avc event ssid tsid tclass (perms AND NOT tretained) else Some avc);
         Some (Inr tretained, notified seqno avc)
       }
   }"

definition avc_ss_grant ::
    "invocation \<Rightarrow> avc_cache \<Rightarrow> u32 \<Rightarrow> u32 \<Rightarrow> 16 word \<Rightarrow> u32 \<Rightarrow> u32 \<Rightarrow> ((errno + u32) \<times> avc_cache) option" where
  "avc_ss_grant invoke avc ssid tsid tclass perms seqno =
     avc_control invoke avc CALLBACK_GRANT ssid tsid tclass perms seqno"

definition avc_ss_try_revoke ::
    "invocation \<Rightarrow> avc_cache \<Rightarrow> u32 \<Rightarrow> u32 \<Rightarrow> 16 word \<Rightarrow> u32 \<Rightarrow> u32 \<Rightarrow> ((errno + u32) \<times> avc_cache) option" where
  "avc_ss_try_revoke invoke avc ssid tsid tclass perms seqno =
     avc_control invoke avc CALLBACK_TRY_REVOKE ssid tsid tclass perms seqno"

definition avc_ss_revoke ::
    "invocation \<Rightarrow> avc_cache \<Rightarrow> u32 \<Rightarrow> u32 \<Rightarrow> 16 word \<Rightarrow> u32 \<Rightarrow> u32 \<Rightarrow> ((errno + u32) \<times> avc_cache) option" where
  "avc_ss_revoke invoke avc ssid tsid tclass perms seqno =
     avc_control invoke avc CALLBACK_REVOKE ssid tsid tclass perms seqno"

definition avc_ss_set_auditallow ::
    "invocation \<Rightarrow> avc_cache \<Rightarrow> u32 \<Rightarrow> u32 \<Rightarrow> 16 word \<Rightarrow> u32 \<Rightarrow> u32 \<Rightarrow> bool \<Rightarrow> ((errno + u32) \<times> avc_cache) option" where
  "avc_ss_set_auditallow invoke avc ssid tsid tclass perms seqno enable =
     (if enable then avc_control invoke avc CALLBACK_AUDITALLOW_ENABLE ssid tsid tclass perms seqno
      else avc_control invoke avc CALLBACK_AUDITALLOW_DISABLE ssid tsid tclass perms seqno)"

definition avc_ss_set_auditdeny ::
    "invocation \<Rightarrow> avc_cache \<Rightarrow> u32 \<Rightarrow> u32 \<Rightarrow> 16 word \<Rightarrow> u32 \<Rightarrow> u32 \<Rightarrow> bool \<Rightarrow> ((errno + u32) \<times> avc_cache) option" where
  "avc_ss_set_auditdeny invoke avc ssid tsid tclass perms seqno enable =
     (if enable then avc_control invoke avc CALLBACK_AUDITDENY_ENABLE ssid tsid tclass perms seqno
      else avc_control invoke avc CALLBACK_AUDITDENY_DISABLE ssid tsid tclass perms seqno)"

definition avc_ss_set_notify ::
    "invocation \<Rightarrow> avc_cache \<Rightarrow> u32 \<Rightarrow> u32 \<Rightarrow> 16 word \<Rightarrow> u32 \<Rightarrow> u32 \<Rightarrow> bool \<Rightarrow> ((errno + u32) \<times> avc_cache) option" where
  "avc_ss_set_notify invoke avc ssid tsid tclass perms seqno enable =
     (if enable then avc_control invoke avc CALLBACK_NOTIFY_ENABLE ssid tsid tclass perms seqno
      else avc_control invoke avc CALLBACK_NOTIFY_DISABLE ssid tsid tclass perms seqno)"

fun reset_chain :: "nat list \<Rightarrow> avc_cache \<Rightarrow> avc_cache option" where
  "reset_chain [] avc = Some avc"
| "reset_chain (tmp # rest) avc = do {
     ae \<leftarrow> item (ac_nodes avc) tmp;
     reset_chain rest (set_node tmp zero_entry
       (avc\<lparr>ac_freelist := tmp # ac_freelist avc, ac_activeNodes := ac_activeNodes avc - 1\<rparr>))
   }"

fun reset_slots :: "nat \<Rightarrow> nat \<Rightarrow> avc_cache \<Rightarrow> avc_cache option" where
  "reset_slots 0 i avc = Some avc"
| "reset_slots (Suc n) i avc = do {
     ch \<leftarrow> item (ac_slots avc) i;
     avc \<leftarrow> reset_chain ch avc;
     reset_slots n (Suc i) (set_slot i [] avc)
   }"

fun reset_callbacks :: "invocation \<Rightarrow> nat \<Rightarrow> avc_callback_node list \<Rightarrow> errno option" where
  "reset_callbacks invoke i [] = None"
| "reset_callbacks invoke i (c # cs) =
     (if cb_events c AND CALLBACK_RESET \<noteq> 0 then
        (case invoke i (cb_callback c) CALLBACK_RESET 0 0 0 0 of
           (Some e, r) \<Rightarrow> Some e
         | (None, r) \<Rightarrow> reset_callbacks invoke (Suc i) cs)
      else reset_callbacks invoke i cs)"

definition avc_ss_reset :: "invocation \<Rightarrow> avc_cache \<Rightarrow> u32 \<Rightarrow> (errno option \<times> avc_cache) option" where
  "avc_ss_reset invoke avc seqno = do {
     avc \<leftarrow> reset_slots (unat AVC_CACHE_SLOTS) 0 avc;
     let avc = avc\<lparr>ac_lru_hint := 0\<rparr>;
     case reset_callbacks invoke 0 (ac_callbacks avc) of
       Some e \<Rightarrow> Some (Some e, avc)
     | None \<Rightarrow> Some (None, notified seqno avc)
   }"

section \<open>Reference counts\<close>

type_synonym guid = "u32 \<times> 16 word \<times> 16 word \<times> byte list"

definition iunknown_iid :: guid where
  "iunknown_iid = (0, 0, 0, [0xc0, 0, 0, 0, 0, 0, 0, 0x46])"

definition avc_iid :: guid where
  "avc_iid = (0x4aa7dfe1, 0x7c74, 0x11cf, [0xb5, 0, 0x08, 0, 0x09, 0x53, 0xad, 0xc2])"

definition avc_ss_iid :: guid where
  "avc_ss_iid = (0x4aa7dffa, 0x7c74, 0x11cf, [0xb5, 0, 0x08, 0, 0x09, 0x53, 0xad, 0xc2])"

datatype interface = Avci | Avc_ssi

definition avc_query :: "avc_cache \<Rightarrow> guid \<Rightarrow> (errno + interface) \<times> avc_cache" where
  "avc_query avc iid =
     (if iid = iunknown_iid \<or> iid = avc_iid then (Inr Avci, avc\<lparr>ac_count := ac_count avc + 1\<rparr>)
      else if iid = avc_ss_iid then (Inr Avc_ssi, avc\<lparr>ac_count := ac_count avc + 1\<rparr>)
      else (Inl E_NOINTERFACE, avc))"

definition avc_addref :: "avc_cache \<Rightarrow> u32 \<times> avc_cache" where
  "avc_addref avc = (ac_count avc + 1, avc\<lparr>ac_count := ac_count avc + 1\<rparr>)"

text \<open>The last release frees the nodes, the callback nodes and the object; \<open>Inl\<close> is the list of nodes freed and the
  number of callback nodes.  The reference to the security server that is dropped then is counted in theory \<open>Server\<close>;
  those to the log, the memory and the callbacks are not modelled.\<close>

definition avc_release :: "avc_cache \<Rightarrow> u32 \<times> (nat list \<times> nat + avc_cache)" where
  "avc_release avc =
     (let newcount = ac_count avc - 1
      in (newcount,
          if newcount = 0 then Inl (concat (ac_slots avc) @ ac_freelist avc, length (ac_callbacks avc))
          else Inr (avc\<lparr>ac_count := newcount\<rparr>)))"

text \<open>The same operations of the second interface.\<close>

definition avc_ss_query :: "avc_cache \<Rightarrow> guid \<Rightarrow> (errno + interface) \<times> avc_cache" where
  "avc_ss_query avc iid = avc_query avc iid"

definition avc_ss_addref :: "avc_cache \<Rightarrow> u32 \<times> avc_cache" where
  "avc_ss_addref avc = avc_addref avc"

definition avc_ss_release :: "avc_cache \<Rightarrow> u32 \<times> (nat list \<times> nat + avc_cache)" where
  "avc_ss_release avc = avc_release avc"

section \<open>Permission checks\<close>

definition decision_entry :: "decision \<Rightarrow> avc_entry" where
  "decision_entry d = zero_entry\<lparr>ae_allowed := d_allowed d, ae_decided := d_decided d, ae_auditallow := d_auditallow d,
     ae_auditdeny := d_auditdeny d, ae_notify := d_notify d\<rparr>"

text \<open>What is done when the reference does not lead to the entry.  The fields of the local entry that \<open>compute_av\<close> does not
  set are not read.\<close>

definition avc_get_miss ::
    "security \<Rightarrow> avc_cache \<Rightarrow> u32 \<Rightarrow> u32 \<Rightarrow> 16 word \<Rightarrow> u32 \<Rightarrow> nat option \<Rightarrow> (errno option \<times> nat option \<times> avc_cache) option" where
  "avc_get_miss sec avc ssid tsid tclass requested aeref = do {
     (r, avc) \<leftarrow> avc_lookup (count_stat 2 1 avc) ssid tsid tclass requested;
     case r of
       Inr node \<Rightarrow> Some (None, Some node, avc)
     | Inl _ \<Rightarrow> do {
         r \<leftarrow> sec_compute_av sec ssid tsid tclass requested;
         case r of
           Inl e \<Rightarrow> Some (Some e, aeref, avc)
         | Inr d \<Rightarrow> do {
             (r, avc) \<leftarrow> avc_insert avc ssid tsid tclass (decision_entry d) (d_seqno d);
             case r of
               Inl e \<Rightarrow> Some (Some e, aeref, avc)
             | Inr node \<Rightarrow> Some (None, Some node, avc)
           }
       }
   }"

text \<open>The reference may point to any node, also one that has been reclaimed since.\<close>

definition avc_get_ref ::
    "security \<Rightarrow> avc_cache \<Rightarrow> u32 \<Rightarrow> u32 \<Rightarrow> 16 word \<Rightarrow> u32 \<Rightarrow> nat option \<Rightarrow> (errno option \<times> nat option \<times> avc_cache) option" where
  "avc_get_ref sec avc ssid tsid tclass requested aeref = do {
     let avc = count_stat 0 1 avc;
     case aeref of
       None \<Rightarrow> avc_get_miss sec avc ssid tsid tclass requested aeref
     | Some i \<Rightarrow> do {
         ae \<leftarrow> item (ac_nodes avc) i;
         if ae_ssid ae = ssid \<and> ae_tsid ae = tsid \<and> ae_tclass ae = tclass \<and> ae_decided ae AND requested = requested
         then Some (None, aeref, set_node i (ae\<lparr>ae_used := True\<rparr>) (count_stat 1 1 avc))
         else avc_get_miss sec (count_stat 3 1 avc) ssid tsid tclass requested aeref
       }
   }"

definition avc_has_perm_ref ::
    "security \<Rightarrow> av_tables \<Rightarrow> avc_cache \<Rightarrow> u32 \<Rightarrow> u32 \<Rightarrow> 16 word \<Rightarrow> u32 \<Rightarrow> nat option \<Rightarrow>
       (errno option \<times> nat option \<times> avc_cache) option" where
  "avc_has_perm_ref sec tbl avc ssid tsid tclass requested aeref = do {
     (rc, aeref, avc) \<leftarrow> avc_get_ref sec avc ssid tsid tclass requested aeref;
     if rc \<noteq> None then Some (rc, aeref, avc)
     else do {
       node \<leftarrow> aeref;
       ae \<leftarrow> item (ac_nodes avc) node;
       (ae, avc) \<leftarrow>
         (if ac_always_allow avc \<and> requested AND ae_allowed ae \<noteq> requested then do {
            avc \<leftarrow> avc_audit sec tbl avc ssid tsid tclass requested True;
            let ae = ae\<lparr>ae_allowed := ae_allowed ae OR requested\<rparr>;
            Some (ae, set_node node ae avc)
          }
          else Some (ae, avc));
       if requested AND ae_allowed ae \<noteq> requested then do {
         avc \<leftarrow> (if requested AND ae_auditdeny ae \<noteq> 0 then avc_audit sec tbl avc ssid tsid tclass requested True else Some avc);
         Some (Some EACCES, aeref, avc)
       }
       else do {
         avc \<leftarrow> (if requested AND ae_auditallow ae \<noteq> 0 then avc_audit sec tbl avc ssid tsid tclass requested False else Some avc);
         Some (None, aeref, avc)
       }
     }
   }"

definition avc_has_perm ::
    "security \<Rightarrow> av_tables \<Rightarrow> avc_cache \<Rightarrow> u32 \<Rightarrow> u32 \<Rightarrow> 16 word \<Rightarrow> u32 \<Rightarrow> (errno option \<times> avc_cache) option" where
  "avc_has_perm sec tbl avc ssid tsid tclass requested = do {
     (rc, aeref, avc) \<leftarrow> avc_has_perm_ref sec tbl avc ssid tsid tclass requested None;
     Some (rc, avc)
   }"

definition avc_notify_perm_ref ::
    "security \<Rightarrow> avc_cache \<Rightarrow> u32 \<Rightarrow> u32 \<Rightarrow> 16 word \<Rightarrow> u32 \<Rightarrow> nat option \<Rightarrow> ((errno + int) \<times> nat option \<times> avc_cache) option" where
  "avc_notify_perm_ref sec avc ssid tsid tclass requested aeref = do {
     (rc, aeref, avc) \<leftarrow> avc_get_ref sec avc ssid tsid tclass requested aeref;
     case rc of
       Some e \<Rightarrow> Some (Inl e, aeref, avc)
     | None \<Rightarrow> do {
         node \<leftarrow> aeref;
         ae \<leftarrow> item (ac_nodes avc) node;
         Some (Inr (if requested AND ae_notify ae \<noteq> 0 then sec_notify_perm sec ssid tsid tclass requested else 0), aeref, avc)
       }
   }"

definition avc_notify_perm ::
    "security \<Rightarrow> avc_cache \<Rightarrow> u32 \<Rightarrow> u32 \<Rightarrow> 16 word \<Rightarrow> u32 \<Rightarrow> ((errno + int) \<times> avc_cache) option" where
  "avc_notify_perm sec avc ssid tsid tclass requested = do {
     (rc, aeref, avc) \<leftarrow> avc_notify_perm_ref sec avc ssid tsid tclass requested None;
     Some (rc, avc)
   }"

end
