(* ===== verification/Avc_Inv.thy ===== *)
theory Avc_Inv
  imports Avc_Ops
begin

text \<open>
  The structural invariant of the access vector cache: the chains and the free list partition the nodes, each active
  node is in the chain of its key, and free nodes are blank.  Reclaiming always ends, finds
  a node when there is an active one, and every operation keeps the invariant.
\<close>

section \<open>Invariant\<close>

definition ae_hash :: "avc_entry \<Rightarrow> nat" where
  "ae_hash ae = unat (AVC_HASH (ae_ssid ae) (ae_tsid ae) (ae_tclass ae))"

definition ae_key :: "avc_entry \<Rightarrow> u32 \<times> u32 \<times> 16 word" where
  "ae_key ae = (ae_ssid ae, ae_tsid ae, ae_tclass ae)"

definition key_hash :: "u32 \<times> u32 \<times> 16 word \<Rightarrow> nat" where
  "key_hash = (\<lambda>(s, t, c). unat (AVC_HASH s t c))"

definition unmarked :: "avc_entry \<Rightarrow> avc_entry" where
  "unmarked ae = ae\<lparr>ae_used := False\<rparr>"

lemma ae_hash_key: "ae_hash ae = key_hash (ae_key ae)"
  by (simp add: ae_hash_def key_hash_def ae_key_def)

lemma unmarked_simps [simp]:
  "unmarked (ae\<lparr>ae_used := b\<rparr>) = unmarked ae" "ae_key (unmarked ae) = ae_key ae" "ae_key (ae\<lparr>ae_used := b\<rparr>) = ae_key ae"
  "ae_decided (unmarked ae) = ae_decided ae" "ae_allowed (unmarked ae) = ae_allowed ae"
  by (simp_all add: unmarked_def ae_key_def)

lemma unmarked_key: "unmarked a = unmarked b \<Longrightarrow> ae_key a = ae_key b"
  by (metis unmarked_simps(2))

abbreviation active :: "avc_cache \<Rightarrow> nat list" where
  "active avc \<equiv> concat (ac_slots avc)"

text \<open>\<open>D\<close> are nodes taken out of the chains and not yet put back.\<close>

definition avc_part :: "nat list \<Rightarrow> avc_cache \<Rightarrow> bool" where
  "avc_part D avc \<longleftrightarrow> length (ac_slots avc) = 128 \<and> length (ac_stats avc) = 8 \<and> length (ac_nodes avc) \<le> AVC_CACHE_MAXNODES \<and>
     ac_lru_hint avc < 128 \<and> distinct (D @ active avc @ ac_freelist avc) \<and>
     set (D @ active avc @ ac_freelist avc) = {..<length (ac_nodes avc)} \<and>
     unat (ac_activeNodes avc) = length (D @ active avc) \<and>
     (\<forall>h<128. \<forall>i\<in>set (ac_slots avc ! h). ae_hash (ac_nodes avc ! i) = h) \<and>
     (\<forall>i\<in>set (ac_freelist avc). unmarked (ac_nodes avc ! i) = zero_entry)"

abbreviation avc_ok :: "avc_cache \<Rightarrow> bool" where
  "avc_ok \<equiv> avc_part []"

lemma item_Some [simp]: "i < length xs \<Longrightarrow> item xs i = Some (xs ! i)"
  by (simp add: item_def)

lemma item_eq_Some: "item xs i = Some x \<longleftrightarrow> i < length xs \<and> xs ! i = x"
  by (simp add: item_def)

text \<open>Lists of chains.\<close>

lemma concat_split:
  assumes "h < length xss"
  shows "concat xss = concat (take h xss) @ xss ! h @ concat (drop (Suc h) xss)"
    "concat (xss[h := ys]) = concat (take h xss) @ ys @ concat (drop (Suc h) xss)"
  using assms arg_cong [OF id_take_nth_drop [OF assms], of concat] by (simp_all add: upd_conv_take_nth_drop)

lemma distinct_concat_nth:
  "distinct (concat xss) \<Longrightarrow> i < length xss \<Longrightarrow> j < length xss \<Longrightarrow> x \<in> set (xss ! i) \<Longrightarrow> x \<in> set (xss ! j) \<Longrightarrow> i = j"
proof (induction xss arbitrary: i j)
  case (Cons xs xss)
  have "x \<notin> set xs" if "x \<in> set (xss ! k)" "k < length xss" for k using that Cons.prems(1) by (auto dest: nth_mem)
  then show ?case using Cons by (cases i; cases j) auto
qed simp

lemma in_chain: "x \<in> set (xss ! h) \<Longrightarrow> h < length xss \<Longrightarrow> x \<in> set (concat xss)"
  by (auto simp: concat_split(1) simp del: set_concat)

lemma distinct_concat_chain: "distinct (concat xss) \<Longrightarrow> h < length xss \<Longrightarrow> distinct (xss ! h)"
  by (simp add: concat_split(1))

lemma AVC_HASH_less: "unat (AVC_HASH s t c) < 128"
proof -
  have m: "AVC_CACHE_SLOTS - 1 = Bit_Operations.mask 7" by (simp add: AVC_CACHE_SLOTS_def mask_eq_exp_minus_1)
  show ?thesis unfolding AVC_HASH_def m unat_and_mask by simp
qed

lemma ae_hash_less: "ae_hash ae < 128"
  by (simp add: ae_hash_def AVC_HASH_less)

lemma set_active: "set (active avc) = (\<Union>h<length (ac_slots avc). set (ac_slots avc ! h))"
  by (auto simp: set_conv_nth [of "ac_slots avc"])

lemma avc_ok_slot:
  assumes "avc_ok avc" "i \<in> set (ac_slots avc ! h)" "h < 128"
  shows "i \<in> set (active avc)" "i < length (ac_nodes avc)" "ae_hash (ac_nodes avc ! i) = h"
proof -
  show a: "i \<in> set (active avc)" using assms unfolding set_active by (auto simp: avc_part_def)
  have "set (active avc @ ac_freelist avc) = {..<length (ac_nodes avc)}" using assms(1) by (simp add: avc_part_def del: set_concat)
  then show "i < length (ac_nodes avc)" using a by (auto simp del: set_concat)
  show "ae_hash (ac_nodes avc ! i) = h" using assms by (simp add: avc_part_def)
qed

lemma avc_ok_active:
  assumes "avc_ok avc" "i \<in> set (active avc)"
  shows "i < length (ac_nodes avc)" "i \<in> set (ac_slots avc ! ae_hash (ac_nodes avc ! i))"
proof -
  obtain h where h: "h < length (ac_slots avc)" "i \<in> set (ac_slots avc ! h)" using assms(2) unfolding set_active by blast
  then have "h < 128" using assms(1) by (simp add: avc_part_def)
  then show "i < length (ac_nodes avc)" "i \<in> set (ac_slots avc ! ae_hash (ac_nodes avc ! i))"
    using avc_ok_slot [OF assms(1) h(2)] h(2) by auto
qed

section \<open>Reclaiming\<close>

text \<open>The nodes after the marks in \<open>X\<close> were cleared.\<close>

definition cleared :: "nat set \<Rightarrow> avc_entry list \<Rightarrow> avc_entry list \<Rightarrow> bool" where
  "cleared X ns ns' \<longleftrightarrow> length ns' = length ns \<and>
     (\<forall>i<length ns. ns' ! i = (if i \<in> X then (ns ! i)\<lparr>ae_used := False\<rparr> else ns ! i))"

lemma cleared_refl: "cleared {} ns ns"
  by (simp add: cleared_def)

lemma cleared_trans: "cleared X ns ns1 \<Longrightarrow> cleared Y ns1 ns2 \<Longrightarrow> cleared (X \<union> Y) ns ns2"
  by (auto simp: cleared_def)

lemma reclaim_chain_spec:
  assumes "distinct ch" "set ch \<subseteq> {..<length ns}"
  obtains (none) ns' where "reclaim_chain ns ch = Some (ns', None)" "cleared (set ch) ns ns'" "\<And>i. i \<in> set ch \<Longrightarrow> ae_used (ns ! i)"
  | (found) ns' xs cur ys where "reclaim_chain ns ch = Some (ns', Some (cur, xs @ ys))" "ch = xs @ cur # ys" "cleared (set xs) ns ns'"
    "\<not> ae_used (ns ! cur)"
  using assms
proof (induction ch arbitrary: ns thesis)
  case Nil
  then show ?case by (simp add: cleared_refl)
next
  case (Cons c ch)
  show ?case
  proof (cases "ae_used (ns ! c)")
    case False
    then show ?thesis using Cons.prems(4) by (intro Cons.prems(2) [of ns c "[]" ch]) (simp_all add: cleared_refl)
  next
    case True
    let ?ns = "ns[c := (ns ! c)\<lparr>ae_used := False\<rparr>]"
    have c: "c < length ns" "c \<notin> set ch" using Cons.prems(3,4) by auto
    have cl: "cleared {c} ns ?ns" using c by (simp add: cleared_def nth_list_update)
    have step: "reclaim_chain ns (c # ch) = do { (ns, r) \<leftarrow> reclaim_chain ?ns ch; Some (ns, map_option (\<lambda>(i, ch). (i, c # ch)) r) }"
      using c True by simp
    have nth: "?ns ! i = ns ! i" if "i \<in> set ch" for i using that c by (auto simp: nth_list_update)
    have ch: "distinct ch" "set ch \<subseteq> {..<length ?ns}" using Cons.prems(3,4) by auto
    show ?thesis
    proof (rule Cons.IH [OF _ _ ch])
      fix ns' assume "reclaim_chain ?ns ch = Some (ns', None)" "cleared (set ch) ?ns ns'" "\<And>i. i \<in> set ch \<Longrightarrow> ae_used (?ns ! i)"
      then show ?thesis using step True nth cleared_trans [OF cl] by (intro Cons.prems(1) [of ns']) auto
    next
      fix ns' xs cur ys
      assume "reclaim_chain ?ns ch = Some (ns', Some (cur, xs @ ys))" "ch = xs @ cur # ys" "cleared (set xs) ?ns ns'" "\<not> ae_used (?ns ! cur)"
      then show ?thesis using step nth [of cur] cleared_trans [OF cl] by (intro Cons.prems(2) [of ns' cur "c # xs" ys]) auto
    qed
  qed
qed

text \<open>The pass as a scan of the chains in a given order.\<close>

fun scan_slots :: "nat list list \<Rightarrow> avc_entry list \<Rightarrow> nat list \<Rightarrow> (avc_entry list \<times> (nat \<times> nat \<times> nat list) option) option" where
  "scan_slots slots ns [] = Some (ns, None)"
| "scan_slots slots ns (h # hs) = do {
     ch \<leftarrow> item slots h;
     (ns, r) \<leftarrow> reclaim_chain ns ch;
     case r of
       Some (cur, ch) \<Rightarrow> Some (ns, Some (h, cur, ch))
     | None \<Rightarrow> scan_slots slots ns hs
   }"

definition round_trip :: "nat \<Rightarrow> nat list" where
  "round_trip h = [h..<128] @ [0..<h]"

abbreviation scan_result where
  "scan_result \<equiv> map_option (\<lambda>(ns :: avc_entry list, r). (ns, map_option (\<lambda>(h :: nat, cur :: nat, ch :: nat list). (of_nat h :: u32, cur, ch)) r))"

lemma next_slot:
  assumes "h < 128"
  shows "(of_nat h + 1) AND (AVC_CACHE_SLOTS - 1) = (of_nat (if h = 127 then 0 else Suc h) :: u32)"
proof -
  have m: "AVC_CACHE_SLOTS - 1 = Bit_Operations.mask 7" by (simp add: AVC_CACHE_SLOTS_def mask_eq_exp_minus_1)
  have "unat (of_nat h + 1 :: u32) = Suc h" using assms unat_of_nat_u32 [of "Suc h"] by (simp add: add.commute)
  then show ?thesis unfolding m u32_eq_iff_unat unat_and_mask using assms unat_of_nat_u32 [of "Suc h"] by simp
qed

lemma unat_slot: "h < 128 \<Longrightarrow> unat (of_nat h :: u32) = h"
  by (simp add: unat_of_nat_u32)

lemma of_nat_slot_eq: "h < 128 \<Longrightarrow> k < 128 \<Longrightarrow> (of_nat h :: u32) = of_nat k \<longleftrightarrow> h = k"
  by (simp add: u32_eq_iff_unat unat_slot)

lemma reclaim_pass_scan:
  assumes "hint < 128" "h < 128"
  shows "reclaim_pass slots (of_nat hint) ns (of_nat h) =
    scan_result (scan_slots slots ns (if hint \<le> h then [h..<128] @ [0..<hint] else [h..<hint]))"
  using assms(2)
proof (induction "if hint \<le> h then 128 - h + hint else hint - h" arbitrary: h ns rule: less_induct)
  case less
  let ?h = "if h = 127 then 0 else Suc h"
  let ?rest = "if h = 127 then [0..<hint] else if hint \<le> h then [Suc h..<128] @ [0..<hint] else [Suc h..<hint]"
  have hs: "(if hint \<le> h then [h..<128] @ [0..<hint] else [h..<hint]) = h # ?rest"
    using less.prems assms(1) by (auto simp: upt_rec [of h])
  have nx: "(of_nat ?h = (of_nat hint :: u32)) = (?h = hint)" by (rule of_nat_slot_eq) (use less.prems assms(1) in auto)
  have last: "?rest = []" if "?h = hint" using that assms(1) by (auto split: if_splits)
  have IH: "reclaim_pass slots (of_nat hint) ns (of_nat ?h) = scan_result (scan_slots slots ns ?rest)" if "?h \<noteq> hint" for ns
  proof -
    have "(if hint \<le> ?h then [?h..<128] @ [0..<hint] else [?h..<hint]) = ?rest"
      using that less.prems assms(1) by (auto simp: upt_rec split: if_splits)
    then show ?thesis using less.hyps [of ?h ns] that less.prems assms(1) by (auto split: if_splits)
  qed
  show ?case
    unfolding hs reclaim_pass.simps [of slots _ ns "of_nat h"] scan_slots.simps unat_slot [OF less.prems] Let_def next_slot [OF less.prems] nx
    using IH last by (auto split: option.splits bind_splits simp: bind_eq_None_conv)
qed

lemma scan_slots_spec:
  assumes "distinct (concat slots)" "set (concat slots) \<subseteq> {..<length ns}" "set hs \<subseteq> {..<length slots}" "distinct hs"
  obtains (none) ns' where "scan_slots slots ns hs = Some (ns', None)" "cleared (\<Union>h\<in>set hs. set (slots ! h)) ns ns'"
    "\<And>h i. h \<in> set hs \<Longrightarrow> i \<in> set (slots ! h) \<Longrightarrow> ae_used (ns ! i)"
  | (found) ns' h xs cur ys X where "scan_slots slots ns hs = Some (ns', Some (h, cur, xs @ ys))" "h \<in> set hs"
    "slots ! h = xs @ cur # ys" "cleared X ns ns'" "\<not> ae_used (ns ! cur)"
  using assms(3,4,2)
proof (induction hs arbitrary: ns thesis)
  case Nil
  then show ?case by (simp add: cleared_refl)
next
  case (Cons h hs)
  let ?ch = "slots ! h"
  have h: "h < length slots" using Cons.prems(3) by simp
  have less: "i < length ns" if "i \<in> set (slots ! k)" "k < length slots" for i k
    using subsetD [OF Cons.prems(5) in_chain [OF that]] by simp
  have ch: "distinct ?ch" "set ?ch \<subseteq> {..<length ns}" using distinct_concat_chain [OF assms(1) h] less [OF _ h] by auto
  have other: "i \<notin> set ?ch" if "h' \<in> set hs" "i \<in> set (slots ! h')" for h' i
    using that Cons.prems(3,4) distinct_concat_nth [OF assms(1), of h h' i] by auto
  show ?case
  proof (rule reclaim_chain_spec [OF ch])
    fix ns1 assume r: "reclaim_chain ns ?ch = Some (ns1, None)" "cleared (set ?ch) ns ns1" "\<And>i. i \<in> set ?ch \<Longrightarrow> ae_used (ns ! i)"
    have l: "set (concat slots) \<subseteq> {..<length ns1}" using r(2) Cons.prems(5) by (simp add: cleared_def)
    have same: "ns1 ! i = ns ! i" if "i \<notin> set ?ch" "i < length ns" for i using r(2) that by (simp add: cleared_def)
    have sub: "set hs \<subseteq> {..<length slots}" "distinct hs" using Cons.prems(3,4) by auto
    show ?thesis
    proof (rule Cons.IH [OF _ _ sub l])
      fix ns' assume *: "scan_slots slots ns1 hs = Some (ns', None)" "cleared (\<Union>h\<in>set hs. set (slots ! h)) ns1 ns'"
        "\<And>h i. h \<in> set hs \<Longrightarrow> i \<in> set (slots ! h) \<Longrightarrow> ae_used (ns1 ! i)"
      have "ae_used (ns ! i)" if "h' \<in> set hs" "i \<in> set (slots ! h')" for h' i
      proof -
        have "i < length ns" using less [OF that(2)] that(1) sub(1) by auto
        then show ?thesis using same [of i] other [OF that] *(3) [OF that] by simp
      qed
      then show ?thesis using r h * cleared_trans [OF r(2) *(2)] by (intro Cons.prems(1) [of ns']) auto
    next
      fix ns' h' xs cur ys X
      assume *: "scan_slots slots ns1 hs = Some (ns', Some (h', cur, xs @ ys))" "h' \<in> set hs" "slots ! h' = xs @ cur # ys"
        "cleared X ns1 ns'" "\<not> ae_used (ns1 ! cur)"
      have cur: "cur \<in> set (slots ! h')" using *(3) by simp
      then have "cur < length ns" using less [OF cur] *(2) sub(1) by auto
      then have "\<not> ae_used (ns ! cur)" using same [of cur] other [OF *(2) cur] *(5) by simp
      then show ?thesis
        using r h * cleared_trans [OF r(2) *(4)] by (intro Cons.prems(2) [of ns' h' cur xs ys]) auto
    qed
  next
    fix ns' xs cur ys
    assume "reclaim_chain ns ?ch = Some (ns', Some (cur, xs @ ys))" "?ch = xs @ cur # ys" "cleared (set xs) ns ns'" "\<not> ae_used (ns ! cur)"
    then show ?thesis using h by (intro Cons.prems(2) [of ns' h cur xs ys]) auto
  qed
qed

text \<open>Reclaiming: a node comes back as soon as one is active, and one that was used since the last scan only when all were.\<close>

lemma avc_reclaim_node_spec:
  assumes ok: "avc_ok avc" and "active avc \<noteq> []"
  obtains cur h xs ys ns' X where "avc_reclaim_node avc = Some (cur, set_slot h (xs @ ys) (avc\<lparr>ac_nodes := ns', ac_lru_hint := of_nat h\<rparr>))"
    "h < 128" "ac_slots avc ! h = xs @ cur # ys" "cleared X (ac_nodes avc) ns'"
    "\<And>i. i \<in> set (active avc) \<Longrightarrow> \<not> ae_used (ac_nodes avc ! i) \<Longrightarrow> \<not> ae_used (ac_nodes avc ! cur)"
proof -
  let ?hint = "unat (ac_lru_hint avc)" and ?slots = "ac_slots avc" and ?ns = "ac_nodes avc"
  have hint: "?hint < 128" "of_nat ?hint = ac_lru_hint avc" using ok by (auto simp: avc_part_def word_less_nat_alt)
  have l: "length ?slots = 128" and d: "distinct (active avc)" and sub: "set (active avc) \<subseteq> {..<length ?ns}"
    using ok by (auto simp: avc_part_def simp del: set_concat)
  obtain hs where pass: "\<And>ns. reclaim_pass ?slots (ac_lru_hint avc) ns (ac_lru_hint avc) = scan_result (scan_slots ?slots ns hs)"
    and hs: "set hs = {..<128}" "distinct hs"
  proof
    show "reclaim_pass ?slots (ac_lru_hint avc) ns (ac_lru_hint avc) = scan_result (scan_slots ?slots ns ([?hint..<128] @ [0..<?hint]))" for ns
      using reclaim_pass_scan [OF hint(1) hint(1), of ?slots ns] hint(2) by simp
    show "set ([?hint..<128] @ [0..<?hint]) = {..<128}" "distinct ([?hint..<128] @ [0..<?hint])" using hint(1) by auto
  qed
  have act: "set (active avc) = (\<Union>h\<in>set hs. set (?slots ! h))" unfolding set_active l hs(1) ..
  show ?thesis
  proof (rule scan_slots_spec [OF d sub _ hs(2)])
    show "set hs \<subseteq> {..<length ?slots}" using hs l by simp
  next
    fix ns' h xs cur ys X
    assume "scan_slots ?slots ?ns hs = Some (ns', Some (h, cur, xs @ ys))" "h \<in> set hs"
      "?slots ! h = xs @ cur # ys" "cleared X ?ns ns'" "\<not> ae_used (?ns ! cur)"
    moreover from this have "h < 128" using hs(1) by simp
    ultimately show ?thesis
      by (intro that [of cur h xs ys ns' X]) (simp_all add: avc_reclaim_node_def pass unat_slot)
  next
    fix ns1 assume 1: "scan_slots ?slots ?ns hs = Some (ns1, None)" "cleared (\<Union>h\<in>set hs. set (?slots ! h)) ?ns ns1"
      "\<And>h i. h \<in> set hs \<Longrightarrow> i \<in> set (?slots ! h) \<Longrightarrow> ae_used (?ns ! i)"
    have used: "ae_used (?ns ! i)" if "i \<in> set (active avc)" for i using that 1(3) unfolding act by blast
    have unused: "\<not> ae_used (ns1 ! i)" if "i \<in> set (active avc)" for i
      using 1(2) that sub unfolding act [symmetric] by (auto simp: cleared_def simp del: set_concat)
    have sub1: "set (active avc) \<subseteq> {..<length ns1}" using sub 1(2) by (simp add: cleared_def)
    show ?thesis
    proof (rule scan_slots_spec [OF d sub1 _ hs(2)])
      show "set hs \<subseteq> {..<length ?slots}" using hs l by simp
    next
      fix ns2 assume "\<And>h i. h \<in> set hs \<Longrightarrow> i \<in> set (?slots ! h) \<Longrightarrow> ae_used (ns1 ! i)"
      moreover obtain i where i: "i \<in> set (active avc)" using assms(2) by (metis list.set_intros(1) neq_Nil_conv)
      ultimately show ?thesis using unused [OF i] unfolding act by blast
    next
      fix ns' h xs cur ys X
      assume 2: "scan_slots ?slots ns1 hs = Some (ns', Some (h, cur, xs @ ys))" "h \<in> set hs"
        "?slots ! h = xs @ cur # ys" "cleared X ns1 ns'" "\<not> ae_used (ns1 ! cur)"
      have h: "h < 128" using 2(2) hs(1) by simp
      have "avc_reclaim_node avc = Some (cur, set_slot h (xs @ ys) (avc\<lparr>ac_nodes := ns', ac_lru_hint := of_nat h\<rparr>))"
        using 1(1) 2(1) h by (simp add: avc_reclaim_node_def pass unat_slot)
      then show ?thesis by (rule that [OF _ h 2(3) cleared_trans [OF 1(2) 2(4)]]) (use used in blast)
    qed
  qed
qed

section \<open>Claiming\<close>

text \<open>The nodes outside \<open>X\<close> are the same apart from the marks.\<close>

definition same_nodes :: "nat set \<Rightarrow> avc_cache \<Rightarrow> avc_cache \<Rightarrow> bool" where
  "same_nodes X avc avc' \<longleftrightarrow> length (ac_nodes avc') = length (ac_nodes avc) \<and>
     (\<forall>i<length (ac_nodes avc). i \<notin> X \<longrightarrow> unmarked (ac_nodes avc' ! i) = unmarked (ac_nodes avc ! i))"

text \<open>Everything but the nodes, the chains, the free list and the statistics is the same.\<close>

definition same_rest :: "avc_cache \<Rightarrow> avc_cache \<Rightarrow> bool" where
  "same_rest avc avc' \<longleftrightarrow> ac_callbacks avc' = ac_callbacks avc \<and> ac_latest_notif avc' = ac_latest_notif avc \<and>
     ac_always_allow avc' = ac_always_allow avc \<and> ac_count avc' = ac_count avc"

lemma avc_ok_count:
  assumes "avc_ok avc"
  shows "length (active avc) + length (ac_freelist avc) = length (ac_nodes avc)" "length (ac_nodes avc) \<le> AVC_CACHE_MAXNODES"
    "unat (ac_activeNodes avc) = length (active avc)"
proof -
  have d: "distinct (active avc @ ac_freelist avc)" and st: "set (active avc @ ac_freelist avc) = {..<length (ac_nodes avc)}"
    using assms by (simp_all add: avc_part_def del: set_concat)
  show "length (active avc) + length (ac_freelist avc) = length (ac_nodes avc)"
    using distinct_card [OF d] unfolding st by simp
  show "length (ac_nodes avc) \<le> AVC_CACHE_MAXNODES" "unat (ac_activeNodes avc) = length (active avc)"
    using assms by (simp_all add: avc_part_def del: set_concat)
qed

lemma avc_pop:
  assumes "avc_ok avc" "ac_freelist avc = new # rest"
  shows "avc_part [new] (avc\<lparr>ac_freelist := rest, ac_activeNodes := ac_activeNodes avc + 1\<rparr>)"
proof -
  have "length (active avc) \<le> 102" using avc_ok_count [OF assms(1)] by (simp add: AVC_CACHE_MAXNODES_def)
  then have "unat (ac_activeNodes avc + 1) = Suc (length (active avc))"
    using assms(1) by (simp add: avc_part_def unat_word_ariths(1))
  then show ?thesis using assms by (auto simp: avc_part_def simp del: set_concat)
qed

lemma avc_pick:
  assumes ok: "avc_ok avc" and h: "h < 128" "ac_slots avc ! h = xs @ cur # ys" and cl: "cleared X (ac_nodes avc) ns"
  shows "avc_part [cur] (set_slot h (xs @ ys) (avc\<lparr>ac_nodes := ns, ac_lru_hint := of_nat h\<rparr>))"
proof -
  have l: "h < length (ac_slots avc)" using ok h by (simp add: avc_part_def)
  note split = concat_split [OF l]
  have d: "distinct (active avc @ ac_freelist avc)" and st: "set (active avc @ ac_freelist avc) = {..<length (ac_nodes avc)}"
    and n: "unat (ac_activeNodes avc) = length (active avc)" using ok by (simp_all add: avc_part_def)
  have hash: "ae_hash (ns ! i) = ae_hash (ac_nodes avc ! i)" if "i < length (ac_nodes avc)" for i
    using cl that by (simp add: cleared_def ae_hash_def)
  have chain: "ae_hash (ns ! i) = k" if "i \<in> set ((ac_slots avc)[h := xs @ ys] ! k)" "k < 128" for i k
  proof -
    have "i \<in> set (ac_slots avc ! k)" using that h l by (auto simp: nth_list_update split: if_splits)
    then show ?thesis using hash avc_ok_slot [OF ok _ that(2)] by simp
  qed
  have zero: "unmarked (ns ! i) = zero_entry" if "i \<in> set (ac_freelist avc)" for i
  proof -
    have "i < length (ac_nodes avc)" using that st by auto
    moreover have "unmarked (ac_nodes avc ! i) = zero_entry" using ok that by (simp add: avc_part_def)
    ultimately show ?thesis using cl by (simp add: cleared_def)
  qed
  have "(of_nat h :: u32) < 128" using h(1) by (simp add: word_less_nat_alt unat_slot)
  moreover have "set (cur # concat ((ac_slots avc)[h := xs @ ys]) @ ac_freelist avc) = {..<length ns}"
    using st cl by (auto simp: split h(2) cleared_def simp del: set_concat)
  moreover have "distinct (cur # concat ((ac_slots avc)[h := xs @ ys]) @ ac_freelist avc)"
    using d by (auto simp: split h(2) simp del: set_concat)
  moreover have "unat (ac_activeNodes avc) = Suc (length (concat ((ac_slots avc)[h := xs @ ys])))"
    using n by (simp add: split h(2))
  ultimately show ?thesis using ok chain zero cl
    by (simp add: avc_part_def set_slot_def cleared_def del: set_concat)
qed

end
