(* ===== verification/Avc_Map.thy ===== *)
theory Avc_Map
  imports Avc_Inv
begin

text \<open>
  The access vector cache as a finite map from keys to entries.  Lookup reads the map, insertion adds an entry and
  may drop another one, and the events of the security server change or clear the entries.
\<close>

section \<open>Insertion\<close>

lemma same_nodes_trans: "same_nodes X a b \<Longrightarrow> same_nodes Y b c \<Longrightarrow> same_nodes (X \<union> Y) a c"
  by (auto simp: same_nodes_def)

lemma same_nodes_mono: "same_nodes X a b \<Longrightarrow> X \<subseteq> Y \<Longrightarrow> same_nodes Y a b"
  by (auto simp: same_nodes_def)

lemma cleared_same: "cleared X (ac_nodes avc) (ac_nodes avc') \<Longrightarrow> same_nodes {} avc avc'"
  by (auto simp: cleared_def same_nodes_def)

lemma avc_push:
  assumes p: "avc_part [new] avc" and e: "ae_hash e = h"
  shows "avc_ok (set_slot h (new # ac_slots avc ! h) (set_node new e avc))"
    "set (active (set_slot h (new # ac_slots avc ! h) (set_node new e avc))) = insert new (set (active avc))"
proof -
  let ?slots = "(ac_slots avc)[h := new # ac_slots avc ! h]" and ?ns = "(ac_nodes avc)[new := e]"
  have h: "h < 128" using ae_hash_less [of e] e by simp
  then have l: "h < length (ac_slots avc)" using p by (simp add: avc_part_def)
  note split = concat_split [OF l]
  have d: "distinct (new # active avc @ ac_freelist avc)" and st: "set (new # active avc @ ac_freelist avc) = {..<length (ac_nodes avc)}"
    and n: "unat (ac_activeNodes avc) = Suc (length (active avc))" using p by (simp_all add: avc_part_def del: set_concat)
  have new: "new < length (ac_nodes avc)" "new \<notin> set (active avc)" "new \<notin> set (ac_freelist avc)" using d st by auto
  have a: "set (concat ?slots) = insert new (set (active avc))" by (auto simp: split simp del: set_concat)
  then show "set (active (set_slot h (new # ac_slots avc ! h) (set_node new e avc))) = insert new (set (active avc))"
    by (simp add: set_slot_def set_node_def del: set_concat)
  have chain: "ae_hash (?ns ! i) = k" if "i \<in> set (?slots ! k)" "k < 128" for i k
  proof (cases "i = new")
    case True
    have "k = h"
    proof (rule ccontr)
      assume "k \<noteq> h"
      then have "new \<in> set (ac_slots avc ! k)" using that True by (simp add: nth_list_update)
      then show False using in_chain [of new "ac_slots avc" k] that(2) new(2) p by (simp add: avc_part_def del: set_concat)
    qed
    then show ?thesis using True new(1) e by simp
  next
    case False
    then have "i \<in> set (ac_slots avc ! k)" using that l by (auto simp: nth_list_update split: if_splits)
    then show ?thesis using False p that(2) by (simp add: avc_part_def nth_list_update)
  qed
  have zero: "unmarked (?ns ! i) = zero_entry" if "i \<in> set (ac_freelist avc)" for i
  proof -
    have "i \<noteq> new" using that new(3) by blast
    then show ?thesis using that p by (simp add: avc_part_def)
  qed
  have "set (concat ?slots @ ac_freelist avc) = {..<length ?ns}" using st a by (auto simp del: set_concat)
  moreover have "distinct (concat ?slots @ ac_freelist avc)" using d by (auto simp: split simp del: set_concat)
  moreover have "unat (ac_activeNodes avc) = length (concat ?slots)" using n by (simp add: split)
  ultimately show "avc_ok (set_slot h (new # ac_slots avc ! h) (set_node new e avc))"
    using p chain zero by (simp add: avc_part_def set_slot_def set_node_def del: set_concat)
qed

lemma avc_part_fields:
  assumes "avc_part D avc"
  shows "length (ac_slots avc) = 128" "set D \<subseteq> {..<length (ac_nodes avc)}" "set (active avc) \<subseteq> {..<length (ac_nodes avc)}"
proof -
  have "set (D @ active avc @ ac_freelist avc) = {..<length (ac_nodes avc)}" using assms by (simp add: avc_part_def del: set_concat set_append)
  then show "set D \<subseteq> {..<length (ac_nodes avc)}" "set (active avc) \<subseteq> {..<length (ac_nodes avc)}" by (auto simp del: set_concat)
  show "length (ac_slots avc) = 128" using assms by (simp add: avc_part_def)
qed

text \<open>A node for a key: taken from the free list, or else from another entry.\<close>

lemma avc_take_node:
  assumes ok: "avc_ok avc" and "ac_nodes avc \<noteq> []"
  obtains new avc' where
    "(case ac_freelist avc of
        new # rest \<Rightarrow> Some (new, avc\<lparr>ac_freelist := rest, ac_activeNodes := ac_activeNodes avc + 1\<rparr>)
      | [] \<Rightarrow> avc_reclaim_node avc) = Some (new, avc')"
    "avc_part [new] avc'" "set (active avc') = set (active avc) - {new}" "same_nodes {} avc avc'" "same_rest avc avc'"
    "new \<in> set (active avc) \<longleftrightarrow> ac_freelist avc = []"
    "\<And>i. ac_freelist avc = [] \<Longrightarrow> i \<in> set (active avc) \<Longrightarrow> \<not> ae_used (ac_nodes avc ! i) \<Longrightarrow> \<not> ae_used (ac_nodes avc ! new)"
proof (cases "ac_freelist avc")
  case (Cons new rest)
  have "new \<notin> set (active avc)" using ok Cons by (auto simp: avc_part_def simp del: set_concat)
  then show ?thesis using Cons avc_pop [OF ok Cons]
    by (intro that [of new "avc\<lparr>ac_freelist := rest, ac_activeNodes := ac_activeNodes avc + 1\<rparr>"]) (simp_all add: same_nodes_def same_rest_def del: set_concat)
next
  case Nil
  then have "active avc \<noteq> []" using assms avc_ok_count(1) [OF ok] by (metis add_is_0 length_0_conv)
  from avc_reclaim_node_spec [OF ok this] obtain cur h xs ys ns' X where
    r: "avc_reclaim_node avc = Some (cur, set_slot h (xs @ ys) (avc\<lparr>ac_nodes := ns', ac_lru_hint := of_nat h\<rparr>))"
    and h: "h < 128" "ac_slots avc ! h = xs @ cur # ys" and cl: "cleared X (ac_nodes avc) ns'"
    and lru: "\<And>i. i \<in> set (active avc) \<Longrightarrow> \<not> ae_used (ac_nodes avc ! i) \<Longrightarrow> \<not> ae_used (ac_nodes avc ! cur)" by metis
  have l: "h < length (ac_slots avc)" using ok h by (simp add: avc_part_def)
  have "distinct (active avc)" using ok by (simp add: avc_part_def)
  then have a: "set (concat ((ac_slots avc)[h := xs @ ys])) = set (active avc) - {cur}" "cur \<in> set (active avc)"
    by (auto simp: concat_split [OF l] h(2) simp del: set_concat)
  show ?thesis
    using Nil r a lru avc_pick [OF ok h cl] cleared_same [of X avc "set_slot h (xs @ ys) (avc\<lparr>ac_nodes := ns', ac_lru_hint := of_nat h\<rparr>)"] cl
    by (intro that [of cur "set_slot h (xs @ ys) (avc\<lparr>ac_nodes := ns', ac_lru_hint := of_nat h\<rparr>)"])
      (simp_all add: set_slot_def same_rest_def del: set_concat)
qed

definition keyed_entry :: "u32 \<times> u32 \<times> 16 word \<Rightarrow> avc_entry \<Rightarrow> avc_entry" where
  "keyed_entry = (\<lambda>(s, t, c) ae. ae\<lparr>ae_ssid := s, ae_tsid := t, ae_tclass := c, ae_used := False\<rparr>)"

lemma keyed_entry_key [simp]: "ae_key (keyed_entry k ae) = k"
  by (cases k) (simp add: keyed_entry_def ae_key_def)

lemma avc_insert_spec:
  assumes ok: "avc_ok avc" and ne: "ac_nodes avc \<noteq> []" and seq: "ac_latest_notif avc \<le> seqno"
  obtains new avc' where "avc_insert avc s t c ae seqno = Some (Inr new, avc')" "avc_ok avc'"
    "new < length (ac_nodes avc)" "set (active avc') = insert new (set (active avc))" "same_nodes {new} avc avc'" "same_rest avc avc'"
    "unmarked (ac_nodes avc' ! new) = keyed_entry (s, t, c) ae" "new \<in> set (active avc) \<longleftrightarrow> ac_freelist avc = []"
    "\<And>i. ac_freelist avc = [] \<Longrightarrow> i \<in> set (active avc) \<Longrightarrow> \<not> ae_used (ac_nodes avc ! i) \<Longrightarrow> \<not> ae_used (ac_nodes avc ! new)"
proof -
  obtain new avc1 where t: "(case ac_freelist avc of
        new # rest \<Rightarrow> Some (new, avc\<lparr>ac_freelist := rest, ac_activeNodes := ac_activeNodes avc + 1\<rparr>)
      | [] \<Rightarrow> avc_reclaim_node avc) = Some (new, avc1)"
    and p: "avc_part [new] avc1" and a: "set (active avc1) = set (active avc) - {new}" and sn: "same_nodes {} avc avc1"
    and sr: "same_rest avc avc1" and free: "new \<in> set (active avc) \<longleftrightarrow> ac_freelist avc = []"
    and lru: "\<And>i. ac_freelist avc = [] \<Longrightarrow> i \<in> set (active avc) \<Longrightarrow> \<not> ae_used (ac_nodes avc ! i) \<Longrightarrow> \<not> ae_used (ac_nodes avc ! new)"
    using avc_take_node [OF ok ne] by metis
  let ?h = "unat (AVC_HASH s t c)"
  let ?e = "(ac_nodes avc1 ! new)\<lparr>ae_used := True, ae_ssid := s, ae_tsid := t, ae_tclass := c, ae_allowed := ae_allowed ae,
     ae_decided := ae_decided ae, ae_auditallow := ae_auditallow ae, ae_auditdeny := ae_auditdeny ae, ae_notify := ae_notify ae\<rparr>"
  let ?avc = "set_slot ?h (new # ac_slots avc1 ! ?h) (set_node new ?e avc1)"
  have new: "new < length (ac_nodes avc1)" using avc_part_fields(2) [OF p] by simp
  have ins: "avc_insert avc s t c ae seqno = Some (Inr new, ?avc)"
    unfolding avc_insert_def avc_claim_node_def t Let_def bind.bind_lunit prod.case
    using seq new avc_part_fields(1) [OF p] AVC_HASH_less [of s t c] by (simp add: set_slot_def set_node_def)
  have "ae_hash ?e = ?h" by (simp add: ae_hash_def)
  note push = avc_push [OF p this]
  have act: "set (active ?avc) = insert new (set (active avc))" unfolding push(2) a by blast
  have sn': "same_nodes {new} avc ?avc" using sn by (auto simp: same_nodes_def set_slot_def set_node_def)
  have um: "unmarked (ac_nodes ?avc ! new) = keyed_entry (s, t, c) ae"
    using new by (simp add: set_slot_def set_node_def unmarked_def keyed_entry_def)
  have sr': "same_rest avc ?avc" using sr by (simp add: same_rest_def set_slot_def set_node_def)
  have new': "new < length (ac_nodes avc)" using new sn by (simp add: same_nodes_def)
  show ?thesis by (rule that [OF ins push(1) new' act sn' sr' um free lru])
qed

section \<open>Marks, statistics and the log\<close>

definition quiet :: "avc_cache \<Rightarrow> avc_cache \<Rightarrow> bool" where
  "quiet avc avc' \<longleftrightarrow> same_nodes {} avc avc' \<and> same_rest avc avc' \<and> ac_slots avc' = ac_slots avc \<and> ac_freelist avc' = ac_freelist avc \<and>
     ac_lru_hint avc' = ac_lru_hint avc \<and> ac_activeNodes avc' = ac_activeNodes avc \<and> length (ac_stats avc') = length (ac_stats avc)"

lemma quiet_refl: "quiet avc avc"
  by (simp add: quiet_def same_nodes_def same_rest_def)

lemma quiet_trans: "quiet a b \<Longrightarrow> quiet b c \<Longrightarrow> quiet a c"
  by (auto simp: quiet_def same_nodes_def same_rest_def)

lemma quiet_fields:
  assumes "quiet avc avc'"
  shows "active avc' = active avc" "length (ac_nodes avc') = length (ac_nodes avc)" "same_rest avc avc'"
    "i < length (ac_nodes avc) \<Longrightarrow> unmarked (ac_nodes avc' ! i) = unmarked (ac_nodes avc ! i)"
    "i < length (ac_nodes avc) \<Longrightarrow> ae_key (ac_nodes avc' ! i) = ae_key (ac_nodes avc ! i)"
proof -
  show "active avc' = active avc" "length (ac_nodes avc') = length (ac_nodes avc)" "same_rest avc avc'"
    using assms by (simp_all add: quiet_def same_nodes_def)
  show u: "unmarked (ac_nodes avc' ! i) = unmarked (ac_nodes avc ! i)" if "i < length (ac_nodes avc)"
    using assms that by (simp add: quiet_def same_nodes_def)
  show "ae_key (ac_nodes avc' ! i) = ae_key (ac_nodes avc ! i)" if "i < length (ac_nodes avc)" by (rule unmarked_key [OF u [OF that]])
qed

lemma quiet_ok:
  assumes q: "quiet avc avc'" and p: "avc_ok avc"
  shows "avc_ok avc'"
proof -
  note f = quiet_fields [OF q]
  have "ae_hash (ac_nodes avc' ! i) = h" if "h < 128" "i \<in> set (ac_slots avc ! h)" for h i
    using avc_ok_slot [OF p that(2,1)] f(5) by (simp add: ae_hash_key)
  moreover have "unmarked (ac_nodes avc' ! i) = zero_entry" if "i \<in> set (ac_freelist avc)" for i
  proof -
    have "i \<in> set (active avc @ ac_freelist avc)" using that by simp
    then have "i < length (ac_nodes avc)" using p by (simp add: avc_part_def del: set_concat set_append)
    then show ?thesis using f(4) that p by (simp add: avc_part_def)
  qed
  ultimately show ?thesis using p q f(2) unfolding avc_part_def quiet_def by (simp del: set_concat)
qed

lemma quiet_count: "quiet avc (count_stat k n avc)"
  by (simp add: quiet_def same_nodes_def same_rest_def count_stat_def)

lemma quiet_log [simp]: "quiet a (log_log s b) = quiet a b" "quiet (log_log s a) b = quiet a b"
  by (simp_all add: quiet_def same_nodes_def same_rest_def log_log_def)

lemma quiet_mark: "quiet avc (set_node i ((ac_nodes avc ! i)\<lparr>ae_used := b\<rparr>) avc)"
  by (cases "i < length (ac_nodes avc)") (auto simp: quiet_def same_nodes_def same_rest_def set_node_def nth_list_update)

lemma quiet_log_av: "avc_log_av tbl c av avc = Some avc' \<Longrightarrow> quiet avc avc'"
  by (auto simp: avc_log_av_def Let_def quiet_refl split: if_splits bind_splits prod.splits)

lemma quiet_log_context: "log_context sec sid f g avc = Some avc' \<Longrightarrow> quiet avc avc'"
  by (auto simp: log_context_def quiet_refl split: bind_splits sum.splits prod.splits)

lemma quiet_log_query: "avc_log_query sec tbl s t c avc = Some avc' \<Longrightarrow> quiet avc avc'"
  by (auto simp: avc_log_query_def split: bind_splits dest!: quiet_log_context intro: quiet_trans)

lemma quiet_audit: "avc_audit sec tbl avc s t c av d = Some avc' \<Longrightarrow> quiet avc avc'"
  by (auto simp: avc_audit_def Let_def split: bind_splits dest!: quiet_log_av quiet_log_query intro: quiet_trans)

section \<open>Lookup\<close>

lemma search_chain_find:
  "set ch \<subseteq> {..<length ns} \<Longrightarrow>
     \<exists>p. search_chain ns s t c ch n = Some (map_option (\<lambda>i. (i, p)) (find (\<lambda>i. ae_key (ns ! i) = (s, t, c)) ch))"
proof (induction ch arbitrary: n)
  case (Cons i ch)
  then show ?case by (cases "ae_key (ns ! i) = (s, t, c)") (auto simp: ae_key_def)
qed simp

definition avc_abs :: "avc_cache \<Rightarrow> u32 \<times> u32 \<times> 16 word \<Rightarrow> avc_entry option" where
  "avc_abs avc k = map_option (\<lambda>i. unmarked (ac_nodes avc ! i)) (find (\<lambda>i. ae_key (ac_nodes avc ! i) = k) (ac_slots avc ! key_hash k))"

definition keyed :: "avc_cache \<Rightarrow> bool" where
  "keyed avc \<longleftrightarrow> inj_on (\<lambda>i. ae_key (ac_nodes avc ! i)) (set (active avc))"

lemma key_hash_less: "key_hash k < 128"
  by (cases k) (simp add: key_hash_def AVC_HASH_less)

lemma find_key:
  assumes "avc_ok avc"
  shows "find (\<lambda>i. ae_key (ac_nodes avc ! i) = k) (ac_slots avc ! key_hash k) = Some i \<Longrightarrow>
      i \<in> set (active avc) \<and> ae_key (ac_nodes avc ! i) = k"
    "find (\<lambda>i. ae_key (ac_nodes avc ! i) = k) (ac_slots avc ! key_hash k) = None \<longleftrightarrow>
      (\<forall>i\<in>set (active avc). ae_key (ac_nodes avc ! i) \<noteq> k)"
proof -
  have l: "key_hash k < length (ac_slots avc)" using avc_part_fields(1) [OF assms] key_hash_less by simp
  show "i \<in> set (active avc) \<and> ae_key (ac_nodes avc ! i) = k"
    if "find (\<lambda>i. ae_key (ac_nodes avc ! i) = k) (ac_slots avc ! key_hash k) = Some i"
    using that in_chain [OF _ l] by (metis (mono_tags, lifting) find_Some_iff nth_mem)
  have "i \<in> set (ac_slots avc ! key_hash k)" if "i \<in> set (active avc)" "ae_key (ac_nodes avc ! i) = k" for i
    using avc_ok_active(2) [OF assms that(1)] that(2) by (simp add: ae_hash_key)
  then show "find (\<lambda>i. ae_key (ac_nodes avc ! i) = k) (ac_slots avc ! key_hash k) = None \<longleftrightarrow>
      (\<forall>i\<in>set (active avc). ae_key (ac_nodes avc ! i) \<noteq> k)"
    using in_chain [OF _ l] unfolding find_None_iff by blast
qed

lemma avc_abs_None: "avc_ok avc \<Longrightarrow> avc_abs avc k = None \<longleftrightarrow> (\<forall>i\<in>set (active avc). ae_key (ac_nodes avc ! i) \<noteq> k)"
  by (simp add: avc_abs_def find_key(2) del: set_concat)

lemma avc_abs_Some:
  assumes "avc_ok avc" "keyed avc"
  shows "avc_abs avc k = Some e \<longleftrightarrow> (\<exists>i\<in>set (active avc). ae_key (ac_nodes avc ! i) = k \<and> unmarked (ac_nodes avc ! i) = e)"
proof
  assume "avc_abs avc k = Some e"
  then show "\<exists>i\<in>set (active avc). ae_key (ac_nodes avc ! i) = k \<and> unmarked (ac_nodes avc ! i) = e"
    using find_key(1) [OF assms(1)] unfolding avc_abs_def by blast
next
  assume "\<exists>i\<in>set (active avc). ae_key (ac_nodes avc ! i) = k \<and> unmarked (ac_nodes avc ! i) = e"
  then obtain i where i: "i \<in> set (active avc)" "ae_key (ac_nodes avc ! i) = k" "unmarked (ac_nodes avc ! i) = e" by blast
  then obtain j where j: "find (\<lambda>i. ae_key (ac_nodes avc ! i) = k) (ac_slots avc ! key_hash k) = Some j"
    using find_key(2) [OF assms(1), of k] by (metis not_None_eq)
  then have "j = i" using find_key(1) [OF assms(1)] i assms(2) unfolding keyed_def inj_on_def by metis
  then show "avc_abs avc k = Some e" using i j by (simp add: avc_abs_def)
qed

lemma avc_abs_key: "avc_ok avc \<Longrightarrow> avc_abs avc k = Some e \<Longrightarrow> ae_key e = k"
  using find_key(1) [of avc k] by (auto simp: avc_abs_def simp del: set_concat)

lemma quiet_abs:
  assumes "quiet avc avc'" "avc_ok avc"
  shows "avc_abs avc' = avc_abs avc" "keyed avc \<Longrightarrow> keyed avc'"
proof -
  note f = quiet_fields [OF assms(1)] and act = avc_ok_active(1) [OF assms(2)]
  have "ac_slots avc' = ac_slots avc" using assms(1) by (simp add: quiet_def)
  then show "keyed avc \<Longrightarrow> keyed avc'" using f(5) act by (simp add: keyed_def inj_on_def del: set_concat)
  show "avc_abs avc' = avc_abs avc"
  proof
    fix k
    have l: "key_hash k < length (ac_slots avc)" using avc_part_fields(1) [OF assms(2)] key_hash_less by simp
    have less: "i < length (ac_nodes avc)" if "i \<in> set (ac_slots avc ! key_hash k)" for i using act [OF in_chain [OF that l]] .
    have "find (\<lambda>i. ae_key (ac_nodes avc' ! i) = k) (ac_slots avc ! key_hash k) =
        find (\<lambda>i. ae_key (ac_nodes avc ! i) = k) (ac_slots avc ! key_hash k)"
      by (rule find_cong [OF refl]) (simp add: f(5) less)
    then show "avc_abs avc' k = avc_abs avc k"
      using f(4) act find_key(1) [OF assms(2), of k] \<open>ac_slots avc' = ac_slots avc\<close>
      by (cases "find (\<lambda>i. ae_key (ac_nodes avc ! i) = k) (ac_slots avc ! key_hash k)") (auto simp: avc_abs_def simp del: set_concat)
  qed
qed

end
