(* ===== verification/Avc_Event.thy ===== *)
theory Avc_Event
  imports Avc_Map
begin

text \<open>
  What the operations of the access vector cache do to the map of its entries.
\<close>

section \<open>Lookup and insertion\<close>

lemma avc_search_node_spec:
  assumes ok: "avc_ok avc"
  obtains (miss) "avc_search_node avc s t c = Some (None, avc)" "avc_abs avc (s, t, c) = None"
  | (hit) i p where "avc_search_node avc s t c = Some (Some (i, p), set_node i ((ac_nodes avc ! i)\<lparr>ae_used := True\<rparr>) avc)"
    "i \<in> set (active avc)" "ae_key (ac_nodes avc ! i) = (s, t, c)" "avc_abs avc (s, t, c) = Some (unmarked (ac_nodes avc ! i))"
proof -
  let ?h = "unat (AVC_HASH s t c)" and ?f = "find (\<lambda>i. ae_key (ac_nodes avc ! i) = (s, t, c)) (ac_slots avc ! key_hash (s, t, c))"
  have h: "?h < length (ac_slots avc)" "key_hash (s, t, c) = ?h" using avc_part_fields(1) [OF ok] AVC_HASH_less [of s t c] by (simp_all add: key_hash_def)
  have "set (ac_slots avc ! ?h) \<subseteq> {..<length (ac_nodes avc)}" using avc_ok_active(1) [OF ok in_chain [OF _ h(1)]] by blast
  from search_chain_find [OF this, of s t c 1] obtain p where
    sc: "search_chain (ac_nodes avc) s t c (ac_slots avc ! ?h) 1 = Some (map_option (\<lambda>i. (i, p)) ?f)" unfolding h(2) by blast
  show ?thesis
  proof (cases ?f)
    case None
    then show ?thesis using sc h(1) by (intro miss) (simp_all add: avc_search_node_def avc_abs_def)
  next
    case (Some i)
    note i = find_key(1) [OF ok Some]
    then have "i < length (ac_nodes avc)" using avc_ok_active(1) [OF ok] by blast
    then show ?thesis using sc h(1) Some i by (intro hit [of i p]) (simp_all add: avc_search_node_def avc_abs_def del: set_concat)
  qed
qed

lemma avc_lookup_spec:
  assumes ok: "avc_ok avc"
  obtains (miss) avc' where "avc_lookup avc s t c r = Some (Inl ENOENT, avc')" "quiet avc avc'"
    "\<And>e. avc_abs avc (s, t, c) = Some e \<Longrightarrow> ae_decided e AND r \<noteq> r"
  | (hit) i avc' where "avc_lookup avc s t c r = Some (Inr i, avc')" "quiet avc avc'" "i \<in> set (active avc)"
    "avc_abs avc (s, t, c) = Some (unmarked (ac_nodes avc ! i))" "ae_decided (ac_nodes avc ! i) AND r = r"
proof -
  let ?avc = "count_stat 4 1 avc"
  have q: "quiet avc ?avc" by (rule quiet_count)
  have n: "ac_nodes ?avc = ac_nodes avc" "active ?avc = active avc" by (simp_all add: count_stat_def)
  note abs = quiet_abs(1) [OF q ok]
  show ?thesis
  proof (rule avc_search_node_spec [OF quiet_ok [OF q ok], of s t c])
    assume "avc_search_node ?avc s t c = Some (None, ?avc)" "avc_abs ?avc (s, t, c) = None"
    then show ?thesis using abs quiet_trans [OF q quiet_count] by (intro miss) (simp_all add: avc_lookup_def Let_def)
  next
    fix i p
    let ?m = "set_node i ((ac_nodes ?avc ! i)\<lparr>ae_used := True\<rparr>) ?avc"
    assume s: "avc_search_node ?avc s t c = Some (Some (i, p), ?m)" "i \<in> set (active ?avc)"
      "avc_abs ?avc (s, t, c) = Some (unmarked (ac_nodes ?avc ! i))"
    have i: "i < length (ac_nodes avc)" using avc_ok_active(1) [OF ok] s(2) n(2) by simp
    have m: "item (ac_nodes ?m) i = Some ((ac_nodes avc ! i)\<lparr>ae_used := True\<rparr>)" using i n by (simp add: set_node_def)
    have qm: "quiet avc ?m" using quiet_trans [OF q quiet_mark] .
    show ?thesis
    proof (cases "ae_decided (ac_nodes avc ! i) AND r = r")
      case True
      have "avc_lookup avc s t c r = Some (Inr i, count_stat 6 p (count_stat 5 1 ?m))"
        unfolding avc_lookup_def Let_def s(1) bind.bind_lunit prod.case option.case m using True by simp
      then show ?thesis
        by (rule hit [OF _ quiet_trans [OF quiet_trans [OF qm quiet_count] quiet_count]]) (use s(2,3) n abs True in \<open>simp_all del: set_concat\<close>)
    next
      case False
      have "avc_lookup avc s t c r = Some (Inl ENOENT, count_stat 7 1 ?m)"
        unfolding avc_lookup_def Let_def s(1) bind.bind_lunit prod.case option.case m using False by simp
      then show ?thesis by (rule miss [OF _ quiet_trans [OF qm quiet_count]]) (use s(3) n abs False in auto)
    qed
  qed
qed

lemma avc_insert_abs:
  assumes ok: "avc_ok avc" "keyed avc" "ac_nodes avc \<noteq> []" "ac_latest_notif avc \<le> seqno" and none: "avc_abs avc (s, t, c) = None"
  obtains new avc' D where "avc_insert avc s t c ae seqno = Some (Inr new, avc')" "avc_ok avc'" "keyed avc'" "same_rest avc avc'"
    "new \<in> set (active avc')" "unmarked (ac_nodes avc' ! new) = keyed_entry (s, t, c) ae"
    "length (ac_nodes avc') = length (ac_nodes avc)"
    "avc_abs avc' = ((avc_abs avc) |` (- D))((s, t, c) \<mapsto> keyed_entry (s, t, c) ae)"
    "ac_freelist avc \<noteq> [] \<Longrightarrow> D = {}" "finite D" "card D \<le> 1"
    "\<And>k i. k \<in> D \<Longrightarrow> i \<in> set (active avc) \<Longrightarrow> \<not> ae_used (ac_nodes avc ! i) \<Longrightarrow>
      \<exists>j\<in>set (active avc). ae_key (ac_nodes avc ! j) = k \<and> \<not> ae_used (ac_nodes avc ! j)"
proof -
  obtain new avc' where ins: "avc_insert avc s t c ae seqno = Some (Inr new, avc')" "avc_ok avc'"
    and new: "new < length (ac_nodes avc)" and act: "set (active avc') = insert new (set (active avc))" and sn: "same_nodes {new} avc avc'"
    and sr: "same_rest avc avc'" and um: "unmarked (ac_nodes avc' ! new) = keyed_entry (s, t, c) ae"
    and free: "new \<in> set (active avc) \<longleftrightarrow> ac_freelist avc = []"
    and lru: "\<And>i. ac_freelist avc = [] \<Longrightarrow> i \<in> set (active avc) \<Longrightarrow> \<not> ae_used (ac_nodes avc ! i) \<Longrightarrow> \<not> ae_used (ac_nodes avc ! new)"
    using avc_insert_spec [OF ok(1,3,4)] by metis
  define D where "D = (if ac_freelist avc = [] then {ae_key (ac_nodes avc ! new)} else {})"
  have key: "ae_key (ac_nodes avc' ! new) = (s, t, c)" using um by (metis keyed_entry_key unmarked_simps(2))
  have old: "unmarked (ac_nodes avc' ! i) = unmarked (ac_nodes avc ! i)" "ae_key (ac_nodes avc' ! i) = ae_key (ac_nodes avc ! i)"
    "ae_key (ac_nodes avc ! i) \<noteq> (s, t, c)" "ae_key (ac_nodes avc ! i) \<notin> D"
    if i: "i \<in> set (active avc)" "i \<noteq> new" for i
  proof -
    show u: "unmarked (ac_nodes avc' ! i) = unmarked (ac_nodes avc ! i)"
      using sn i avc_ok_active(1) [OF ok(1) i(1)] by (simp add: same_nodes_def)
    show "ae_key (ac_nodes avc' ! i) = ae_key (ac_nodes avc ! i)" by (rule unmarked_key [OF u])
    show "ae_key (ac_nodes avc ! i) \<noteq> (s, t, c)" using none avc_abs_None [OF ok(1)] i(1) by blast
    show "ae_key (ac_nodes avc ! i) \<notin> D" using i free ok(2) unfolding D_def keyed_def inj_on_def by auto
  qed
  have keyed: "keyed avc'"
    unfolding keyed_def act
  proof (rule inj_onI)
    fix i j assume ij: "i \<in> insert new (set (active avc))" "j \<in> insert new (set (active avc))" "ae_key (ac_nodes avc' ! i) = ae_key (ac_nodes avc' ! j)"
    show "i = j"
    proof (cases "i = new \<or> j = new")
      case True
      then show ?thesis using ij key old(2,3) by (metis insertE)
    next
      case False
      then show ?thesis using ij old(2) ok(2) unfolding keyed_def inj_on_def by (metis insertE)
    qed
  qed
  have "avc_abs avc' k = (((avc_abs avc) |` (- D))((s, t, c) \<mapsto> keyed_entry (s, t, c) ae)) k" for k
  proof (cases "k = (s, t, c)")
    case True
    then show ?thesis using key um act by (simp add: avc_abs_Some [OF ins(2) keyed] del: set_concat)
  next
    case False
    have "avc_abs avc' k = Some e \<longleftrightarrow> avc_abs avc k = Some e \<and> k \<notin> D" for e
    proof -
      have "avc_abs avc' k = Some e \<longleftrightarrow> (\<exists>i\<in>set (active avc) - {new}. ae_key (ac_nodes avc ! i) = k \<and> unmarked (ac_nodes avc ! i) = e)"
        unfolding avc_abs_Some [OF ins(2) keyed] act using key old(1,2) False by (metis Diff_iff insert_iff singleton_iff)
      also have "\<dots> \<longleftrightarrow> avc_abs avc k = Some e \<and> k \<notin> D"
        unfolding avc_abs_Some [OF ok(1,2)] using old(4) free by (auto simp: D_def simp del: set_concat)
      finally show ?thesis .
    qed
    then have "avc_abs avc' k = (avc_abs avc |` (- D)) k" by (metis (mono_tags, lifting) ComplI ComplD not_None_eq restrict_in restrict_out)
    then show ?thesis using False by simp
  qed
  then have abs: "avc_abs avc' = ((avc_abs avc) |` (- D))((s, t, c) \<mapsto> keyed_entry (s, t, c) ae)" by blast
  have D: "finite D" "card D \<le> 1" "ac_freelist avc \<noteq> [] \<Longrightarrow> D = {}" by (simp_all add: D_def)
  have "\<exists>j\<in>set (active avc). ae_key (ac_nodes avc ! j) = k \<and> \<not> ae_used (ac_nodes avc ! j)"
    if "k \<in> D" "i \<in> set (active avc)" "\<not> ae_used (ac_nodes avc ! i)" for k i
    using that lru free by (auto simp: D_def simp del: set_concat split: if_splits)
  moreover have "new \<in> set (active avc')" "length (ac_nodes avc') = length (ac_nodes avc)" using act sn by (simp_all add: same_nodes_def del: set_concat)
  ultimately show ?thesis using that [OF ins keyed sr _ um _ abs D(3,1,2)] by blast
qed

section \<open>Events\<close>

lemma avc_rekey_ok:
  assumes ok: "avc_ok avc" and l: "length ns = length (ac_nodes avc)"
    and key: "\<And>i. i \<in> set (active avc) \<Longrightarrow> ae_key (ns ! i) = ae_key (ac_nodes avc ! i)"
    and free: "\<And>i. i \<in> set (ac_freelist avc) \<Longrightarrow> unmarked (ns ! i) = unmarked (ac_nodes avc ! i)"
  shows "avc_ok (avc\<lparr>ac_nodes := ns\<rparr>)"
proof -
  have "ae_hash (ns ! i) = h" if "h < 128" "i \<in> set (ac_slots avc ! h)" for h i
    using avc_ok_slot [OF ok that(2,1)] key by (simp add: ae_hash_key del: set_concat)
  moreover have "unmarked (ns ! i) = zero_entry" if "i \<in> set (ac_freelist avc)" for i
    using free [OF that] ok that by (simp add: avc_part_def)
  ultimately show ?thesis using ok l by (simp add: avc_part_def del: set_concat)
qed

lemma avc_map_nodes:
  assumes ok: "avc_ok avc" and l: "length ns = length (ac_nodes avc)"
    and act: "\<And>i. i \<in> set (active avc) \<Longrightarrow> unmarked (ns ! i) = g (unmarked (ac_nodes avc ! i))"
    and free: "\<And>i. i \<in> set (ac_freelist avc) \<Longrightarrow> unmarked (ns ! i) = unmarked (ac_nodes avc ! i)"
    and key: "\<And>e. ae_key (g e) = ae_key e"
  shows "avc_ok (avc\<lparr>ac_nodes := ns\<rparr>)" "keyed avc \<Longrightarrow> keyed (avc\<lparr>ac_nodes := ns\<rparr>)"
    "avc_abs (avc\<lparr>ac_nodes := ns\<rparr>) k = map_option g (avc_abs avc k)"
proof -
  have k: "ae_key (ns ! i) = ae_key (ac_nodes avc ! i)" if "i \<in> set (active avc)" for i
    using act [OF that] key [of "unmarked (ac_nodes avc ! i)"] by (metis unmarked_simps(2))
  show "avc_ok (avc\<lparr>ac_nodes := ns\<rparr>)" by (rule avc_rekey_ok [OF ok l k free])
  show "keyed avc \<Longrightarrow> keyed (avc\<lparr>ac_nodes := ns\<rparr>)" using k by (simp add: keyed_def inj_on_def del: set_concat)
  have h: "key_hash k < length (ac_slots avc)" using avc_part_fields(1) [OF ok] key_hash_less by simp
  have "find (\<lambda>i. ae_key (ns ! i) = k) (ac_slots avc ! key_hash k) = find (\<lambda>i. ae_key (ac_nodes avc ! i) = k) (ac_slots avc ! key_hash k)"
    by (rule find_cong [OF refl]) (simp add: k in_chain [OF _ h] del: set_concat)
  then show "avc_abs (avc\<lparr>ac_nodes := ns\<rparr>) k = map_option g (avc_abs avc k)"
    using act find_key(1) [OF ok, of k]
    by (cases "find (\<lambda>i. ae_key (ac_nodes avc ! i) = k) (ac_slots avc ! key_hash k)") (auto simp: avc_abs_def simp del: set_concat)
qed

text \<open>The entries that an event concerns, and what it does to them.\<close>

definition event_hits :: "u32 \<Rightarrow> u32 \<Rightarrow> 16 word \<Rightarrow> avc_entry \<Rightarrow> bool" where
  "event_hits s t c ae \<longleftrightarrow>
     (if s = SECSID_WILD \<or> t = SECSID_WILD then AVC_SIDCMP s (ae_ssid ae) \<and> AVC_SIDCMP t (ae_tsid ae) \<and> c = ae_tclass ae
      else ae_key ae = (s, t, c))"

definition apply_event :: "u32 \<Rightarrow> u32 \<Rightarrow> u32 \<Rightarrow> 16 word \<Rightarrow> u32 \<Rightarrow> avc_entry \<Rightarrow> avc_entry" where
  "apply_event event s t c perms ae = (if event_hits s t c ae then avc_update_node event perms ae else ae)"

lemma update_node_simps [simp]:
  "ae_key (avc_update_node event perms ae) = ae_key ae" "unmarked (avc_update_node event perms ae) = avc_update_node event perms (unmarked ae)"
  "ae_decided (avc_update_node event perms ae) = ae_decided ae"
  by (simp_all add: avc_update_node_def ae_key_def unmarked_def)

lemma event_hits_unmarked [simp]: "event_hits s t c (unmarked ae) = event_hits s t c ae"
  by (simp add: event_hits_def) (simp add: unmarked_def)

lemma apply_event_simps [simp]:
  "ae_key (apply_event event s t c perms ae) = ae_key ae" "ae_decided (apply_event event s t c perms ae) = ae_decided ae"
  by (simp_all add: apply_event_def)

lemma update_chain_spec:
  "distinct ch \<Longrightarrow> set ch \<subseteq> {..<length ns} \<Longrightarrow> s = SECSID_WILD \<or> t = SECSID_WILD \<Longrightarrow>
     \<exists>ns'. update_chain event s t c perms ch ns = Some ns' \<and> length ns' = length ns \<and>
       (\<forall>i<length ns. ns' ! i = (if i \<in> set ch then apply_event event s t c perms (ns ! i) else ns ! i))"
proof (induction ch arbitrary: ns)
  case (Cons j ch)
  let ?ns = "if AVC_SIDCMP s (ae_ssid (ns ! j)) \<and> AVC_SIDCMP t (ae_tsid (ns ! j)) \<and> c = ae_tclass (ns ! j)
    then ns[j := avc_update_node event perms (ns ! j)] else ns"
  have j: "j < length ns" "j \<notin> set ch" using Cons.prems by auto
  have nth: "?ns ! i = (if i = j then apply_event event s t c perms (ns ! j) else ns ! i)" if "i < length ns" for i
    using that j Cons.prems(3) by (simp add: apply_event_def event_hits_def nth_list_update)
  have "length ?ns = length ns" by simp
  then obtain ns' where ns': "update_chain event s t c perms ch ?ns = Some ns'" "length ns' = length ns"
    "\<forall>i<length ns. ns' ! i = (if i \<in> set ch then apply_event event s t c perms (?ns ! i) else ?ns ! i)"
    using Cons.IH [of ?ns] Cons.prems by (metis distinct.simps(2) insert_subset list.simps(15))
  have "ns' ! i = (if i \<in> set (j # ch) then apply_event event s t c perms (ns ! i) else ns ! i)" if "i < length ns" for i
    using ns'(3) that nth [OF that] j by auto
  then show ?case using ns'(1,2) j(1) by (intro exI [of _ ns']) simp
qed simp

lemma avc_update_cache_spec:
  assumes ok: "avc_ok avc" "keyed avc"
  obtains ns where "avc_update_cache avc event s t c perms = Some (avc\<lparr>ac_nodes := ns\<rparr>)" "length ns = length (ac_nodes avc)"
    "avc_ok (avc\<lparr>ac_nodes := ns\<rparr>)" "keyed (avc\<lparr>ac_nodes := ns\<rparr>)"
    "\<And>k. avc_abs (avc\<lparr>ac_nodes := ns\<rparr>) k = map_option (apply_event event s t c perms) (avc_abs avc k)"
proof -
  let ?g = "apply_event event s t c perms"
  have d: "distinct (active avc)" "set (active avc) \<subseteq> {..<length (ac_nodes avc)}" "\<And>i. i \<in> set (ac_freelist avc) \<Longrightarrow> i \<notin> set (active avc)"
    "\<And>i. i \<in> set (ac_freelist avc) \<Longrightarrow> i < length (ac_nodes avc)"
    using ok(1) by (auto simp: avc_part_def simp del: set_concat)
  have g: "unmarked (?g e) = ?g (unmarked e)" for e by (simp add: apply_event_def)
  obtain ns where ns: "avc_update_cache avc event s t c perms = Some (avc\<lparr>ac_nodes := ns\<rparr>)" "length ns = length (ac_nodes avc)"
    "\<And>i. i < length (ac_nodes avc) \<Longrightarrow> unmarked (ns ! i) = (if i \<in> set (active avc) then ?g (unmarked (ac_nodes avc ! i)) else unmarked (ac_nodes avc ! i))"
  proof (cases "s = SECSID_WILD \<or> t = SECSID_WILD")
    case True
    from update_chain_spec [OF d(1,2) True] obtain ns where
      "update_chain event s t c perms (active avc) (ac_nodes avc) = Some ns" "length ns = length (ac_nodes avc)"
      "\<forall>i<length (ac_nodes avc). ns ! i = (if i \<in> set (active avc) then ?g (ac_nodes avc ! i) else ac_nodes avc ! i)" by blast
    then show ?thesis using True g by (intro that [of ns]) (simp_all add: avc_update_cache_def del: set_concat)
  next
    case wild: False
    show ?thesis
    proof (rule avc_search_node_spec [OF ok(1), of s t c])
      assume *: "avc_search_node avc s t c = Some (None, avc)" "avc_abs avc (s, t, c) = None"
      have "?g (unmarked (ac_nodes avc ! i)) = unmarked (ac_nodes avc ! i)" if "i \<in> set (active avc)" for i
        using *(2) avc_abs_None [OF ok(1)] that wild by (simp add: apply_event_def event_hits_def del: set_concat)
      then show ?thesis using * wild by (intro that [of "ac_nodes avc"]) (simp_all add: avc_update_cache_def del: set_concat)
    next
      fix i p
      let ?e = "(ac_nodes avc ! i)\<lparr>ae_used := True\<rparr>"
      assume *: "avc_search_node avc s t c = Some (Some (i, p), set_node i ?e avc)" "i \<in> set (active avc)" "ae_key (ac_nodes avc ! i) = (s, t, c)"
      have i: "i < length (ac_nodes avc)" by (rule avc_ok_active(1) [OF ok(1) *(2)])
      have one: "event_hits s t c (ac_nodes avc ! j) \<longleftrightarrow> j = i" if "j \<in> set (active avc)" for j
        using ok(2) *(2,3) that wild unfolding keyed_def inj_on_def by (metis event_hits_def)
      show ?thesis
        using * i wild one d(2)
        by (intro that [of "(ac_nodes avc)[i := avc_update_node event perms ?e]"])
          (auto simp: avc_update_cache_def set_node_def nth_list_update apply_event_def simp del: set_concat)
    qed
  qed
  note m = avc_map_nodes [OF ok(1) ns(2), of ?g]
  show ?thesis
  proof (rule that [OF ns(1,2)])
    show "avc_ok (avc\<lparr>ac_nodes := ns\<rparr>)" "keyed (avc\<lparr>ac_nodes := ns\<rparr>)" "avc_abs (avc\<lparr>ac_nodes := ns\<rparr>) k = map_option ?g (avc_abs avc k)" for k
      by (rule m; (use ns(3) d avc_ok_active(1) [OF ok(1)] ok(2) in \<open>simp del: set_concat\<close>)?)+
  qed
qed

lemma notified_simps [simp]:
  "avc_part D (notified q avc) = avc_part D avc" "keyed (notified q avc) = keyed avc" "avc_abs (notified q avc) = avc_abs avc"
  "ac_latest_notif (notified q avc) = max q (ac_latest_notif avc)" "ac_nodes (notified q avc) = ac_nodes avc"
  "ac_always_allow (notified q avc) = ac_always_allow avc" "ac_callbacks (notified q avc) = ac_callbacks avc"
  "ac_slots (notified q avc) = ac_slots avc" "ac_count (notified q avc) = ac_count avc"
  by (auto simp: notified_def avc_part_def keyed_def avc_abs_def fun_eq_iff max_def simp del: set_concat)

text \<open>The callbacks that an event concerns, what they answer, in order, and what the answers amount to: the first
  error, or else the union of the permissions retained.\<close>

definition concerned :: "u32 \<Rightarrow> u32 \<Rightarrow> u32 \<Rightarrow> 16 word \<Rightarrow> u32 \<Rightarrow> avc_callback_node \<Rightarrow> bool" where
  "concerned event s t c perms n \<longleftrightarrow> cb_events n AND event \<noteq> 0 \<and> AVC_SIDCMP (cb_ssid n) s \<and> AVC_SIDCMP (cb_tsid n) t \<and>
     cb_tclass n = c \<and> cb_perms n AND perms \<noteq> 0"

definition answers :: "invocation \<Rightarrow> u32 \<Rightarrow> u32 \<Rightarrow> u32 \<Rightarrow> 16 word \<Rightarrow> u32 \<Rightarrow> nat \<Rightarrow> avc_callback_node list \<Rightarrow> (errno option \<times> u32) list" where
  "answers invoke event s t c perms i cs =
     map (\<lambda>(j, n). invoke j (cb_callback n) event s t c (cb_perms n AND perms)) (enumerate i (filter (concerned event s t c perms) cs))"

definition outcome :: "(errno option \<times> u32) list \<Rightarrow> errno + u32 \<Rightarrow> bool" where
  "outcome as res \<longleftrightarrow> (case res of
     Inl e \<Rightarrow> \<exists>xs r ys. as = xs @ (Some e, r) # ys \<and> (\<forall>a\<in>set xs. fst a = None)
   | Inr retained \<Rightarrow> (\<forall>a\<in>set as. fst a = None) \<and> (\<forall>n. bit retained n \<longleftrightarrow> (\<exists>a\<in>set as. bit (snd a) n)))"

lemma answers_simps [simp]:
  "answers invoke event s t c perms i [] = []"
  "answers invoke event s t c perms i (n # cs) =
     (if concerned event s t c perms n
      then invoke i (cb_callback n) event s t c (cb_perms n AND perms) # answers invoke event s t c perms (Suc i) cs
      else answers invoke event s t c perms i cs)"
  by (simp_all add: answers_def)

lemma control_callbacks_bits:
  "case control_callbacks invoke i event s t c perms cs ret of
     Inl e \<Rightarrow> outcome (answers invoke event s t c perms i cs) (Inl e)
   | Inr r \<Rightarrow> (\<forall>a\<in>set (answers invoke event s t c perms i cs). fst a = None) \<and>
       (\<forall>n. bit r n \<longleftrightarrow> bit ret n \<or> (\<exists>a\<in>set (answers invoke event s t c perms i cs). bit (snd a) n))"
proof (induction cs arbitrary: i ret)
  case (Cons n cs)
  show ?case
  proof (cases "concerned event s t c perms n")
    case False
    then have "control_callbacks invoke i event s t c perms (n # cs) ret = control_callbacks invoke i event s t c perms cs ret"
      by (auto simp: concerned_def)
    then show ?thesis using Cons.IH [of i ret] unfolding answers_simps if_not_P [OF False] by simp
  next
    case True
    obtain rc x where inv: "invoke i (cb_callback n) event s t c (cb_perms n AND perms) = (rc, x)" by fastforce
    have run: "control_callbacks invoke i event s t c perms (n # cs) ret =
      (case rc of Some e \<Rightarrow> Inl e | None \<Rightarrow> control_callbacks invoke (Suc i) event s t c perms cs (ret OR x))"
      using True inv by (simp add: concerned_def split: option.split)
    show ?thesis
    proof (cases rc)
      case None
      have "outcome (a # as) (Inl e)" if "outcome as (Inl e)" "fst a = None" for a as e
        using that unfolding outcome_def sum.case by (metis append_Cons set_ConsD)
      then show ?thesis using Cons.IH [of "Suc i" "ret OR x"] inv run None unfolding answers_simps if_P [OF True]
        by (auto simp: bit_or_iff split: sum.splits)
    next
      case (Some e)
      then show ?thesis using inv run unfolding answers_simps if_P [OF True] by (auto simp: outcome_def intro!: exI [of _ "[]"])
    qed
  qed
qed simp

lemma control_callbacks_outcome:
  "outcome (answers invoke event s t c perms 0 cs) (control_callbacks invoke 0 event s t c perms cs 0)"
  using control_callbacks_bits [where invoke = invoke and i = 0 and event = event and s = s and t = t and c = c and perms = perms and cs = cs and ret = 0] by (auto simp: outcome_def split: sum.splits)

text \<open>An event is applied to all entries it concerns, except for the permissions that the callbacks retained; when a
  callback fails, the sequence number is not recorded and an attempt to revoke is not made.\<close>

lemma avc_control_spec:
  assumes ok: "avc_ok avc" "keyed avc"
  obtains res avc' where "avc_control invoke avc event s t c perms seqno = Some (res, avc')" "avc_ok avc'" "keyed avc'"
    "length (ac_nodes avc') = length (ac_nodes avc)" "ac_always_allow avc' = ac_always_allow avc" "ac_callbacks avc' = ac_callbacks avc"
    "case res of
       Inl e \<Rightarrow> ac_latest_notif avc' = ac_latest_notif avc \<and>
         (\<forall>k. avc_abs avc' k = (if event = CALLBACK_TRY_REVOKE then avc_abs avc k else map_option (apply_event event s t c perms) (avc_abs avc k)))
     | Inr retained \<Rightarrow> ac_latest_notif avc' = max seqno (ac_latest_notif avc) \<and>
         (\<forall>k. avc_abs avc' k = map_option (apply_event event s t c
            (if event = CALLBACK_TRY_REVOKE then perms AND NOT retained else perms)) (avc_abs avc k))"
    "outcome (answers invoke event s t c perms 0 (ac_callbacks avc)) res"
proof (cases "event = CALLBACK_TRY_REVOKE")
  case True
  note out = control_callbacks_outcome [where invoke = invoke and event = event and s = s and t = t and c = c and perms = perms and cs = "ac_callbacks avc"]
  show ?thesis
  proof (cases "control_callbacks invoke 0 event s t c perms (ac_callbacks avc) 0")
    case (Inl e)
    then show ?thesis using ok True out by (intro that [of "Inl e" avc]) (simp_all add: avc_control_def)
  next
    case (Inr ret)
    obtain ns where ns: "avc_update_cache avc event s t c (perms AND NOT ret) = Some (avc\<lparr>ac_nodes := ns\<rparr>)" "length ns = length (ac_nodes avc)"
      "avc_ok (avc\<lparr>ac_nodes := ns\<rparr>)" "keyed (avc\<lparr>ac_nodes := ns\<rparr>)"
      "\<And>k. avc_abs (avc\<lparr>ac_nodes := ns\<rparr>) k = map_option (apply_event event s t c (perms AND NOT ret)) (avc_abs avc k)"
      by (rule avc_update_cache_spec [OF ok]) (rule that)
    have "avc_control invoke avc event s t c perms seqno = Some (Inr ret, notified seqno (avc\<lparr>ac_nodes := ns\<rparr>))"
      using True Inr ns(1) by (simp add: avc_control_def)
    then show ?thesis by (rule that) (use ns True out Inr in simp_all)
  qed
next
  case False
  obtain ns where ns: "avc_update_cache avc event s t c perms = Some (avc\<lparr>ac_nodes := ns\<rparr>)" "length ns = length (ac_nodes avc)"
    "avc_ok (avc\<lparr>ac_nodes := ns\<rparr>)" "keyed (avc\<lparr>ac_nodes := ns\<rparr>)"
    "\<And>k. avc_abs (avc\<lparr>ac_nodes := ns\<rparr>) k = map_option (apply_event event s t c perms) (avc_abs avc k)"
    by (rule avc_update_cache_spec [OF ok]) (rule that)
  note out = control_callbacks_outcome [where invoke = invoke and event = event and s = s and t = t and c = c and perms = perms and cs = "ac_callbacks avc"]
  show ?thesis
  proof (cases "control_callbacks invoke 0 event s t c perms (ac_callbacks avc) 0")
    case (Inl e)
    have "avc_control invoke avc event s t c perms seqno = Some (Inl e, avc\<lparr>ac_nodes := ns\<rparr>)"
      using False Inl ns(1) by (simp add: avc_control_def)
    then show ?thesis by (rule that) (use ns False out Inl in simp_all)
  next
    case (Inr ret)
    have "avc_control invoke avc event s t c perms seqno = Some (Inr ret, notified seqno (avc\<lparr>ac_nodes := ns\<rparr>))"
      using False Inr ns(1) by (simp add: avc_control_def)
    then show ?thesis by (rule that) (use ns False out Inr in simp_all)
  qed
qed

section \<open>Reset\<close>

definition blank :: "nat set \<Rightarrow> avc_entry list \<Rightarrow> avc_entry list" where
  "blank X ns = map (\<lambda>i. if i \<in> X then zero_entry else ns ! i) [0..<length ns]"

lemma blank_simps [simp]: "length (blank X ns) = length ns" "blank {} ns = ns" "i < length ns \<Longrightarrow> blank X ns ! i = (if i \<in> X then zero_entry else ns ! i)"
  by (simp_all add: blank_def map_nth)

lemma blank_blank: "blank Y (blank X ns) = blank (X \<union> Y) ns"
  by (rule nth_equalityI) auto

lemma blank_insert: "i < length ns \<Longrightarrow> ns[i := zero_entry] = blank {i} ns"
  by (rule nth_equalityI) (auto simp: nth_list_update)

lemma reset_chain_spec:
  "set ch \<subseteq> {..<length (ac_nodes avc)} \<Longrightarrow> reset_chain ch avc =
     Some (avc\<lparr>ac_nodes := blank (set ch) (ac_nodes avc), ac_freelist := rev ch @ ac_freelist avc,
               ac_activeNodes := ac_activeNodes avc - of_nat (length ch)\<rparr>)"
proof (induction ch arbitrary: avc)
  case (Cons i ch)
  then have "i < length (ac_nodes avc)" by simp
  then show ?case using Cons by (simp add: set_node_def blank_insert blank_blank algebra_simps)
qed simp

lemma reset_slots_spec:
  assumes "i + n = length (ac_slots avc)" "set (concat (drop i (ac_slots avc))) \<subseteq> {..<length (ac_nodes avc)}"
  shows "reset_slots n i avc =
     Some (avc\<lparr>ac_nodes := blank (set (concat (drop i (ac_slots avc)))) (ac_nodes avc),
               ac_freelist := rev (concat (drop i (ac_slots avc))) @ ac_freelist avc,
               ac_activeNodes := ac_activeNodes avc - of_nat (length (concat (drop i (ac_slots avc)))),
               ac_slots := take i (ac_slots avc) @ replicate n []\<rparr>)"
  using assms
proof (induction n arbitrary: i avc)
  case (Suc n)
  let ?ch = "ac_slots avc ! i" and ?rest = "concat (drop (Suc i) (ac_slots avc))"
  let ?avc = "avc\<lparr>ac_nodes := blank (set ?ch) (ac_nodes avc), ac_freelist := rev ?ch @ ac_freelist avc,
               ac_activeNodes := ac_activeNodes avc - of_nat (length ?ch)\<rparr>"
  have i: "i < length (ac_slots avc)" using Suc.prems by simp
  then have d: "concat (drop i (ac_slots avc)) = ?ch @ ?rest" by (simp flip: Cons_nth_drop_Suc)
  have "reset_chain ?ch avc = Some ?avc" by (rule reset_chain_spec) (use Suc.prems(2) d in auto)
  moreover have "reset_slots n (Suc i) (set_slot i [] ?avc) =
     Some (avc\<lparr>ac_nodes := blank (set ?rest) (blank (set ?ch) (ac_nodes avc)),
               ac_freelist := rev ?rest @ rev ?ch @ ac_freelist avc,
               ac_activeNodes := ac_activeNodes avc - of_nat (length ?ch) - of_nat (length ?rest),
               ac_slots := take (Suc i) ((ac_slots avc)[i := []]) @ replicate n []\<rparr>)"
    using Suc.IH [of "Suc i" "set_slot i [] ?avc"] Suc.prems d by (simp add: set_slot_def)
  moreover have "take (Suc i) ((ac_slots avc)[i := []]) = take i (ac_slots avc) @ [[]]" using i by (simp add: take_Suc_conv_app_nth)
  ultimately show ?case using i unfolding d by (simp add: blank_blank algebra_simps replicate_app_Cons_same)
qed simp

end
