(* ===== verification/Avc_Step.thy ===== *)
theory Avc_Step
  imports Avc_Event
begin

text \<open>
  The access vector cache as a transition system: whatever operations run on a new cache, in whatever order, the
  structural invariant holds.
\<close>

section \<open>Creation and reset\<close>

lemma avc_alloc_nodes_spec:
  assumes "avc_alloc_nodes ok n i avc = (j, avc')"
  obtains m where "m \<le> n" "\<And>k. k < m \<Longrightarrow> ok (Suc (i + k))" "m < n \<Longrightarrow> \<not> ok (Suc (i + m))"
    "ac_nodes avc' = ac_nodes avc @ replicate m zero_entry"
    "ac_freelist avc' = rev [length (ac_nodes avc)..<length (ac_nodes avc) + m] @ ac_freelist avc"
    "ac_slots avc' = ac_slots avc" "ac_stats avc' = ac_stats avc" "ac_lru_hint avc' = ac_lru_hint avc"
    "ac_activeNodes avc' = ac_activeNodes avc" "same_rest avc avc'"
  using assms
proof (induction n arbitrary: i avc thesis)
  case 0
  then show ?case by (simp add: same_rest_def)
next
  case (Suc n)
  show ?case
  proof (cases "ok (Suc i)")
    case False
    then show ?thesis using Suc.prems(2) by (intro Suc.prems(1) [of 0]) (auto simp: log_log_def same_rest_def)
  next
    case True
    let ?avc = "avc\<lparr>ac_nodes := ac_nodes avc @ [zero_entry], ac_freelist := length (ac_nodes avc) # ac_freelist avc\<rparr>"
    have "avc_alloc_nodes ok n (Suc i) ?avc = (j, avc')" using Suc.prems(2) True by simp
    then obtain m where m: "m \<le> n" "\<And>k. k < m \<Longrightarrow> ok (Suc (Suc i + k))" "m < n \<Longrightarrow> \<not> ok (Suc (Suc i + m))"
      "ac_nodes avc' = ac_nodes ?avc @ replicate m zero_entry"
      "ac_freelist avc' = rev [length (ac_nodes ?avc)..<length (ac_nodes ?avc) + m] @ ac_freelist ?avc"
      "ac_slots avc' = ac_slots ?avc" "ac_stats avc' = ac_stats ?avc" "ac_lru_hint avc' = ac_lru_hint ?avc"
      "ac_activeNodes avc' = ac_activeNodes ?avc" "same_rest ?avc avc'"
      using Suc.IH [of "Suc i" ?avc] by metis
    have "ok (Suc (i + k))" if "k < Suc m" for k using that True m(2) [of "k - 1"] by (cases k) auto
    moreover have "rev [Suc (length (ac_nodes avc))..<Suc (length (ac_nodes avc) + m)] @ [length (ac_nodes avc)] =
        rev [length (ac_nodes avc)..<Suc (length (ac_nodes avc) + m)]" by (simp add: upt_rec)
    ultimately show ?thesis using m by (intro Suc.prems(1) [of "Suc m"]) (simp_all add: same_rest_def)
  qed
qed

lemma avc_create_spec:
  assumes "avc_create has_log has_mem ok = Inr avc"
  shows "avc_ok avc" "active avc = []" "ac_latest_notif avc = 0" "\<not> ac_always_allow avc" "ac_count avc = 1" "ac_callbacks avc = []"
    "ac_nodes avc \<noteq> [] \<longleftrightarrow> ok 1" "(\<And>i. i \<le> AVC_CACHE_MAXNODES \<Longrightarrow> ok i) \<Longrightarrow> length (ac_nodes avc) = AVC_CACHE_MAXNODES"
proof -
  let ?new = "\<lparr>ac_stats = replicate 8 0, ac_always_allow = False, ac_count = 1, ac_log = '''', ac_callbacks = [],
                   ac_nodes = [], ac_slots = replicate (unat AVC_CACHE_SLOTS) [], ac_freelist = [], ac_lru_hint = 0,
                   ac_activeNodes = 0, ac_latest_notif = 0\<rparr>"
  obtain j avc1 where a: "avc_alloc_nodes ok AVC_CACHE_MAXNODES 0 ?new = (j, avc1)" by fastforce
  obtain t where avc: "avc = log_log t avc1"
    using assms a by (auto simp: avc_create_def Let_def split: if_splits)
  obtain m where m: "m \<le> AVC_CACHE_MAXNODES" "\<And>k. k < m \<Longrightarrow> ok (Suc k)" "m < AVC_CACHE_MAXNODES \<Longrightarrow> \<not> ok (Suc m)"
    and f: "ac_nodes avc = replicate m zero_entry" "ac_freelist avc = rev [0..<m]" "ac_slots avc = replicate 128 []"
    "ac_stats avc = replicate 8 0" "ac_lru_hint avc = 0" "ac_activeNodes avc = 0" "same_rest ?new avc"
    using avc_alloc_nodes_spec [OF a] unfolding avc log_log_def by (simp add: AVC_CACHE_SLOTS_def same_rest_def) (metis add_0)
  have z: "unmarked zero_entry = zero_entry" by (simp add: zero_entry_def unmarked_def)
  show act: "active avc = []" using f(3) by simp
  show "avc_ok avc" unfolding avc_part_def act f using m(1) z by (auto simp: nth_replicate)
  show "ac_latest_notif avc = 0" "\<not> ac_always_allow avc" "ac_count avc = 1" "ac_callbacks avc = []" using f(7) by (simp_all add: same_rest_def)
  show "ac_nodes avc \<noteq> [] \<longleftrightarrow> ok 1" using m(2) [of 0] m(3) f(1) by (cases m) (auto simp: AVC_CACHE_MAXNODES_def)
  show "length (ac_nodes avc) = AVC_CACHE_MAXNODES" if "\<And>i. i \<le> AVC_CACHE_MAXNODES \<Longrightarrow> ok i"
    using that [of "Suc m"] m(1,3) f(1) by (cases "m < AVC_CACHE_MAXNODES") auto
qed

lemma unmarked_zero [simp]: "unmarked zero_entry = zero_entry"
  by (simp add: zero_entry_def unmarked_def)

lemma avc_reset_spec:
  assumes ok: "avc_ok avc"
  obtains rc avc' where "avc_ss_reset invoke avc seqno = Some (rc, avc')" "avc_ok avc'" "active avc' = []"
    "length (ac_nodes avc') = length (ac_nodes avc)" "ac_always_allow avc' = ac_always_allow avc" "ac_callbacks avc' = ac_callbacks avc"
    "ac_count avc' = ac_count avc"
    "ac_latest_notif avc' = (if rc = None then max seqno (ac_latest_notif avc) else ac_latest_notif avc)"
proof -
  let ?avc = "avc\<lparr>ac_nodes := blank (set (active avc)) (ac_nodes avc), ac_freelist := rev (active avc) @ ac_freelist avc,
     ac_activeNodes := ac_activeNodes avc - of_nat (length (active avc)), ac_slots := replicate 128 [], ac_lru_hint := 0\<rparr>"
  have l: "0 + unat AVC_CACHE_SLOTS = length (ac_slots avc)" using ok by (simp add: avc_part_def AVC_CACHE_SLOTS_def)
  have sub: "set (active avc) \<subseteq> {..<length (ac_nodes avc)}" by (rule avc_part_fields(3) [OF ok])
  have r: "reset_slots (unat AVC_CACHE_SLOTS) 0 avc = Some (avc\<lparr>ac_nodes := blank (set (active avc)) (ac_nodes avc),
     ac_freelist := rev (active avc) @ ac_freelist avc, ac_activeNodes := ac_activeNodes avc - of_nat (length (active avc)),
     ac_slots := replicate 128 []\<rparr>)"
    using reset_slots_spec [OF l] sub by (simp add: AVC_CACHE_SLOTS_def del: set_concat)
  have "ac_activeNodes avc - of_nat (length (active avc)) = 0" unfolding avc_ok_count(3) [OF ok, symmetric] by simp
  moreover have "unmarked (blank (set (active avc)) (ac_nodes avc) ! i) = zero_entry" if "i \<in> set (rev (active avc) @ ac_freelist avc)" for i
  proof -
    have "i \<in> set (active avc @ ac_freelist avc)" using that by (auto simp del: set_concat)
    then have "i < length (ac_nodes avc)" using ok by (simp add: avc_part_def del: set_concat set_append)
    then show ?thesis using that ok by (auto simp: avc_part_def simp del: set_concat)
  qed
  ultimately have ok': "avc_ok ?avc" using ok by (auto simp: avc_part_def simp del: set_concat)
  show ?thesis
  proof (cases "reset_callbacks invoke 0 (ac_callbacks avc)")
    case (Some e)
    have "avc_ss_reset invoke avc seqno = Some (Some e, ?avc)" unfolding avc_ss_reset_def r using Some by simp
    then show ?thesis by (rule that) (use ok' in simp_all)
  next
    case None
    have "avc_ss_reset invoke avc seqno = Some (None, notified seqno ?avc)" unfolding avc_ss_reset_def r using None by simp
    then show ?thesis by (rule that) (use ok' in simp_all)
  qed
qed

section \<open>Every operation keeps the invariant\<close>

definition keeps :: "avc_cache \<Rightarrow> avc_cache \<Rightarrow> bool" where
  "keeps avc avc' \<longleftrightarrow> avc_ok avc' \<and> length (ac_nodes avc') = length (ac_nodes avc)"

lemma keeps_refl [simp]: "keeps avc avc = avc_ok avc"
  by (simp add: keeps_def)

lemma keeps_trans: "keeps a b \<Longrightarrow> keeps b c \<Longrightarrow> keeps a c"
  by (simp add: keeps_def)

lemma quiet_keeps: "quiet avc avc' \<Longrightarrow> avc_ok avc \<Longrightarrow> keeps avc avc'"
  by (simp add: keeps_def quiet_ok quiet_fields(2))

lemma avc_part_updates [simp]:
  "avc_part D (avc\<lparr>ac_callbacks := cs\<rparr>) = avc_part D avc" "avc_part D (avc\<lparr>ac_count := n\<rparr>) = avc_part D avc"
  "avc_part D (log_log s avc) = avc_part D avc"
  by (simp_all add: avc_part_def log_log_def del: set_concat)

lemma scan_slots_empty: "\<forall>h\<in>set hs. h < length slots \<and> slots ! h = [] \<Longrightarrow> scan_slots slots ns hs = Some (ns, None)"
  by (induction hs) auto

lemma avc_reclaim_empty:
  assumes ok: "avc_ok avc" and "active avc = []"
  shows "avc_reclaim_node avc = None"
proof -
  let ?h = "unat (ac_lru_hint avc)"
  have h: "?h < 128" "of_nat ?h = ac_lru_hint avc" using ok by (auto simp: avc_part_def word_less_nat_alt)
  have "ac_slots avc ! k = []" if "k < 128" for k
    using that assms avc_part_fields(1) [OF ok] in_chain [of _ "ac_slots avc" k] by (metis list.set_intros(1) neq_Nil_conv empty_iff empty_set)
  then have "scan_slots (ac_slots avc) ns ([?h..<128] @ [0..<?h]) = Some (ns, None)" for ns
    by (intro scan_slots_empty) (use h(1) avc_part_fields(1) [OF ok] in auto)
  then have "reclaim_pass (ac_slots avc) (ac_lru_hint avc) ns (ac_lru_hint avc) = Some (ns, None)" for ns
    using reclaim_pass_scan [OF h(1,1), of "ac_slots avc" ns] h(2) by simp
  then show ?thesis by (simp add: avc_reclaim_node_def)
qed

lemma avc_lookup_keeps: "avc_ok avc \<Longrightarrow> avc_lookup avc s t c r = Some (res, avc') \<Longrightarrow> quiet avc avc'"
  by (rule avc_lookup_spec [of avc s t c r]) auto

lemma avc_lookup_node: "avc_ok avc \<Longrightarrow> avc_lookup avc s t c r = Some (Inr i, avc') \<Longrightarrow> i \<in> set (active avc')"
  by (rule avc_lookup_spec [of avc s t c r]) (auto simp: quiet_fields(1) simp del: set_concat)

lemma avc_insert_keeps:
  assumes ok: "avc_ok avc" and run: "avc_insert avc s t c ae q = Some (res, avc')"
  shows "keeps avc avc' \<and> (\<forall>i. res = Inr i \<longrightarrow> i \<in> set (active avc')) \<and> ac_nodes avc \<noteq> [] \<or> res = Inl EAGAIN \<and> keeps avc avc'"
proof (cases "q < ac_latest_notif avc")
  case True
  then have "res = Inl EAGAIN" "quiet avc avc'" using run by (auto simp: avc_insert_def quiet_refl)
  then show ?thesis using quiet_keeps ok by blast
next
  case False
  then have seq: "ac_latest_notif avc \<le> q" by simp
  have ne: "ac_nodes avc \<noteq> []"
  proof
    assume "ac_nodes avc = []"
    then have "active avc = []" "ac_freelist avc = []" using avc_ok_count(1) [OF ok] by simp_all
    then show False using run False avc_reclaim_empty [OF ok] by (simp add: avc_insert_def avc_claim_node_def Let_def)
  qed
  obtain new avc1 where "avc_insert avc s t c ae q = Some (Inr new, avc1)" "avc_ok avc1" "set (active avc1) = insert new (set (active avc))"
    "same_nodes {new} avc avc1" using avc_insert_spec [OF ok ne seq, of s t c ae] by metis
  then show ?thesis using run ne by (auto simp: keeps_def same_nodes_def simp del: set_concat)
qed

lemma avc_update_cache_ok:
  assumes ok: "avc_ok avc"
  obtains ns where "avc_update_cache avc event s t c perms = Some (avc\<lparr>ac_nodes := ns\<rparr>)" "keeps avc (avc\<lparr>ac_nodes := ns\<rparr>)"
proof -
  have d: "distinct (active avc)" "\<And>i. i \<in> set (ac_freelist avc) \<Longrightarrow> i \<notin> set (active avc)" "\<And>i. i \<in> set (ac_freelist avc) \<Longrightarrow> i < length (ac_nodes avc)"
    using ok by (auto simp: avc_part_def simp del: set_concat)
  show ?thesis
  proof (cases "s = SECSID_WILD \<or> t = SECSID_WILD")
    case True
    from update_chain_spec [OF d(1) avc_part_fields(3) [OF ok] True] obtain ns where
      ns: "update_chain event s t c perms (active avc) (ac_nodes avc) = Some ns" "length ns = length (ac_nodes avc)"
      "\<forall>i<length (ac_nodes avc). ns ! i = (if i \<in> set (active avc) then apply_event event s t c perms (ac_nodes avc ! i) else ac_nodes avc ! i)" by blast
    have "avc_ok (avc\<lparr>ac_nodes := ns\<rparr>)"
      by (rule avc_rekey_ok [OF ok ns(2)]) (use ns(3) d(2,3) avc_ok_active(1) [OF ok] in \<open>simp_all del: set_concat\<close>)
    then show ?thesis using True ns(1,2) by (intro that [of ns]) (simp_all add: avc_update_cache_def keeps_def del: set_concat)
  next
    case False
    show ?thesis
    proof (rule avc_search_node_spec [OF ok, of s t c])
      assume "avc_search_node avc s t c = Some (None, avc)"
      then show ?thesis using False ok by (intro that [of "ac_nodes avc"]) (simp_all add: avc_update_cache_def keeps_def)
    next
      fix i p
      let ?ns = "(ac_nodes avc)[i := avc_update_node event perms ((ac_nodes avc ! i)\<lparr>ae_used := True\<rparr>)]"
      assume *: "avc_search_node avc s t c = Some (Some (i, p), set_node i ((ac_nodes avc ! i)\<lparr>ae_used := True\<rparr>) avc)" "i \<in> set (active avc)"
      note i = avc_ok_active(1) [OF ok *(2)]
      have "avc_ok (avc\<lparr>ac_nodes := ?ns\<rparr>)"
      proof (rule avc_rekey_ok [OF ok])
        fix j assume "j \<in> set (ac_freelist avc)"
        then have "j \<noteq> i" using d(2) *(2) by blast
        then show "unmarked (?ns ! j) = unmarked (ac_nodes avc ! j)" by simp
      qed (use i in \<open>simp_all add: nth_list_update\<close>)
      then show ?thesis using * i False by (intro that [of ?ns]) (simp_all add: avc_update_cache_def set_node_def keeps_def)
    qed
  qed
qed

lemma avc_control_keeps:
  assumes ok: "avc_ok avc" and run: "avc_control invoke avc event s t c perms q = Some (res, avc')"
  shows "keeps avc avc'"
proof -
  have n: "keeps a (notified q b) = keeps a b" for a b by (simp add: keeps_def)
  have u: "keeps avc avc1" if "avc_update_cache avc event s t c p = Some avc1" for p avc1
    by (rule avc_update_cache_ok [OF ok, of event s t c p]) (use that in simp)
  show ?thesis
    using run ok u by (auto simp: avc_control_def n split: bind_splits if_splits sum.splits)
qed

definition ref_ok :: "u32 \<Rightarrow> errno option \<Rightarrow> nat option \<Rightarrow> avc_cache \<Rightarrow> bool" where
  "ref_ok r rc aeref avc \<longleftrightarrow> (rc = None \<longrightarrow> (\<exists>i. aeref = Some i \<and> i < length (ac_nodes avc) \<and> (i \<in> set (active avc) \<or> r = 0)))"

lemma ref_ok_active: "avc_ok avc \<Longrightarrow> i \<in> set (active avc) \<Longrightarrow> ref_ok r rc (Some i) avc"
  by (simp add: ref_ok_def avc_ok_active(1) del: set_concat)

lemma avc_get_miss_keeps:
  assumes ok: "avc_ok avc" and run: "avc_get_miss sec avc s t c r aeref = Some (rc, aeref', avc')"
  shows "keeps avc avc' \<and> ref_ok r rc aeref' avc'"
proof -
  obtain res avc1 where l: "avc_lookup (count_stat 2 1 avc) s t c r = Some (res, avc1)" using run by (auto simp: avc_get_miss_def split: bind_splits)
  have q: "quiet avc avc1" by (rule quiet_trans [OF quiet_count avc_lookup_keeps [OF quiet_ok [OF quiet_count ok] l]])
  note ok1 = quiet_ok [OF q ok] and k1 = quiet_keeps [OF q ok] and run = run [unfolded avc_get_miss_def l bind.bind_lunit prod.case]
  show ?thesis
  proof (cases res)
    case (Inr i)
    then have "i \<in> set (active avc1)" using avc_lookup_node [OF quiet_ok [OF quiet_count ok]] l by blast
    then show ?thesis using run Inr k1 ref_ok_active [OF ok1] by (auto simp del: set_concat)
  next
    case (Inl e)
    note run = run [unfolded Inl sum.case]
    then obtain x where x: "sec_compute_av sec s t c r = Some x" by (auto split: bind_splits)
    note run = run [unfolded x bind.bind_lunit]
    show ?thesis
    proof (cases x)
      case (Inl e')
      then show ?thesis using run k1 by (auto simp: ref_ok_def)
    next
      case (Inr d)
      note run = run [unfolded Inr sum.case]
      then obtain res2 avc2 where i: "avc_insert avc1 s t c (decision_entry d) (d_seqno d) = Some (res2, avc2)" by (auto split: bind_splits)
      note k = avc_insert_keeps [OF ok1 i]
      have k2: "keeps avc avc2" using k keeps_trans [OF k1] by blast
      then have "avc_ok avc2" by (simp add: keeps_def)
      then show ?thesis using run i k k2 ref_ok_active [of avc2] by (cases res2) (auto simp: ref_ok_def simp del: set_concat)
    qed
  qed
qed

text \<open>A reference to a free node never leads to a hit, unless no permission is requested.\<close>

lemma stale_ref:
  assumes ok: "avc_ok avc" and i: "i < length (ac_nodes avc)" "ae_decided (ac_nodes avc ! i) AND r = r"
  shows "i \<in> set (active avc) \<or> r = 0"
proof (cases "i \<in> set (active avc)")
  case False
  have "i \<in> set (active avc @ ac_freelist avc)" using i(1) ok by (simp add: avc_part_def del: set_concat set_append)
  then have "unmarked (ac_nodes avc ! i) = zero_entry" using False ok by (auto simp: avc_part_def simp del: set_concat)
  then have "ae_decided (ac_nodes avc ! i) = 0" by (metis unmarked_simps(4) zero_entry_def avc_entry.select_convs(5))
  then show ?thesis using i(2) by simp
qed simp

lemma avc_get_ref_keeps:
  assumes ok: "avc_ok avc" and run: "avc_get_ref sec avc s t c r aeref = Some (rc, aeref', avc')"
  shows "keeps avc avc' \<and> ref_ok r rc aeref' avc'"
proof (cases aeref)
  case None
  note q = quiet_count [of avc 0 1]
  show ?thesis
    using avc_get_miss_keeps [OF quiet_ok [OF q ok], of sec s t c r aeref rc aeref' avc'] run None keeps_trans [OF quiet_keeps [OF q ok]]
    by (simp add: avc_get_ref_def Let_def)
next
  case (Some i)
  let ?e = "ac_nodes avc ! i" and ?avc = "count_stat 0 1 avc"
  have n: "ac_nodes (count_stat k m a) = ac_nodes a" for k m a by (simp add: count_stat_def)
  have i: "i < length (ac_nodes avc)" using run Some by (auto simp: avc_get_ref_def Let_def item_def n split: bind_splits if_splits)
  show ?thesis
  proof (cases "ae_ssid ?e = s \<and> ae_tsid ?e = t \<and> ae_tclass ?e = c \<and> ae_decided ?e AND r = r")
    case True
    let ?m = "set_node i (?e\<lparr>ae_used := True\<rparr>) (count_stat 1 1 ?avc)"
    have m: "rc = None" "aeref' = Some i" "avc' = ?m" using run Some True i by (auto simp: avc_get_ref_def Let_def n)
    have q: "quiet avc ?m" using quiet_trans [OF quiet_trans [OF quiet_count quiet_count] quiet_mark, of avc] unfolding n .
    show ?thesis
      using m quiet_keeps [OF q ok] i quiet_fields(1,2) [OF q] stale_ref [OF ok i] True by (simp add: ref_ok_def del: set_concat)
  next
    case False
    have q: "quiet avc (count_stat 3 1 ?avc)" by (rule quiet_trans [OF quiet_count quiet_count])
    have "avc_get_miss sec (count_stat 3 1 ?avc) s t c r aeref = Some (rc, aeref', avc')"
      using run Some False i by (auto simp: avc_get_ref_def Let_def n)
    then show ?thesis using avc_get_miss_keeps [OF quiet_ok [OF q ok]] keeps_trans [OF quiet_keeps [OF q ok]] by blast
  qed
qed

text \<open>Changing the allowed permissions of an active node.\<close>

lemma avc_allow_ok:
  assumes ok: "avc_ok avc" and i: "i \<in> set (active avc)" "ae_key e = ae_key (ac_nodes avc ! i)"
  shows "keeps avc (set_node i e avc)"
proof -
  have "avc_ok (avc\<lparr>ac_nodes := (ac_nodes avc)[i := e]\<rparr>)"
  proof (rule avc_rekey_ok [OF ok])
    fix j assume "j \<in> set (ac_freelist avc)"
    then have "j \<noteq> i" using i(1) ok by (auto simp: avc_part_def simp del: set_concat)
    then show "unmarked ((ac_nodes avc)[i := e] ! j) = unmarked (ac_nodes avc ! j)" by simp
  next
    fix j
    show "ae_key ((ac_nodes avc)[i := e] ! j) = ae_key (ac_nodes avc ! j)"
      using i(2) avc_ok_active(1) [OF ok i(1)] by (cases "j = i") simp_all
  qed simp
  then show ?thesis by (simp add: keeps_def set_node_def)
qed

lemma avc_has_perm_ref_keeps:
  assumes ok: "avc_ok avc" and run: "avc_has_perm_ref sec tbl avc s t c r aeref = Some (rc, aeref', avc')"
  shows "keeps avc avc'"
proof -
  obtain rc1 ref1 avc1 where g: "avc_get_ref sec avc s t c r aeref = Some (rc1, ref1, avc1)"
    using run by (auto simp: avc_has_perm_ref_def split: bind_splits)
  note get = avc_get_ref_keeps [OF ok g] and run = run [unfolded avc_has_perm_ref_def g bind.bind_lunit prod.case]
  have ok1: "avc_ok avc1" using get by (simp add: keeps_def)
  have audit: "keeps a a'" if "avc_audit sec tbl a s t c r d = Some a'" "avc_ok a" for a a' d using quiet_keeps [OF quiet_audit] that by blast
  show ?thesis
  proof (cases rc1)
    case (Some e)
    then show ?thesis using run get by simp
  next
    case None
    obtain i where i: "ref1 = Some i" "i < length (ac_nodes avc1)" "i \<in> set (active avc1) \<or> r = 0" using get None by (auto simp: ref_ok_def)
    let ?e = "ac_nodes avc1 ! i" and ?always = "ac_always_allow avc1 \<and> r AND ae_allowed (ac_nodes avc1 ! i) \<noteq> r"
    obtain ae avc2 where 2: "(if ?always then do {
            avc \<leftarrow> avc_audit sec tbl avc1 s t c r True;
            let ae = ?e\<lparr>ae_allowed := ae_allowed ?e OR r\<rparr>;
            Some (ae, set_node i ae avc)
          }
          else Some (?e, avc1)) = Some (ae, avc2)"
      using run None i by (auto split: bind_splits)
    have k2: "keeps avc1 avc2"
    proof (cases ?always)
      case True
      then obtain a where a: "avc_audit sec tbl avc1 s t c r True = Some a" "avc2 = set_node i (?e\<lparr>ae_allowed := ae_allowed ?e OR r\<rparr>) a"
        using 2 by (auto simp: Let_def split: bind_splits)
      note q = quiet_audit [OF a(1)] and ka = audit [OF a(1) ok1]
      have "keeps a avc2"
        unfolding a(2)
        by (rule avc_allow_ok) (use ka i(3) True quiet_fields(1) [OF q] quiet_fields(5) [OF q i(2)] in \<open>auto simp: keeps_def ae_key_def\<close>)
      then show ?thesis using ka keeps_trans by blast
    next
      case False
      then show ?thesis using 2 ok1 by (auto split: if_splits)
    qed
    then have ok2: "avc_ok avc2" by (simp add: keeps_def)
    have "keeps avc2 avc'"
      using run i(1,2) audit [OF _ ok2] ok2 unfolding None by (auto simp: 2 split: bind_splits if_splits)
    then show ?thesis using get k2 keeps_trans by blast
  qed
qed

lemma avc_log_keeps:
  "log_chain sec tbl is avc = Some avc' \<Longrightarrow> quiet avc avc'"
  "log_slots sec tbl tag n chs u m avc = Some (u', m', avc') \<Longrightarrow> quiet avc avc'"
proof -
  show chain: "quiet avc avc'" if "log_chain sec tbl is avc = Some avc'" for "is" avc avc'
    using that
  proof (induction "is" arbitrary: avc)
    case (Cons i "is")
    obtain ae where ae: "item (ac_nodes avc) i = Some ae" using Cons.prems by (auto split: bind_splits)
    obtain a where a: "avc_log_query sec tbl (ae_ssid ae) (ae_tsid ae) (ae_tclass ae) avc = Some a" using Cons.prems ae by (auto split: bind_splits)
    obtain b where b: "avc_log_av tbl (ae_tclass ae) (ae_allowed ae) (log_log '' allowed'' a) = Some b" using Cons.prems ae a by (auto split: bind_splits)
    have "quiet avc b" using quiet_trans [OF quiet_log_query [OF a]] quiet_log_av [OF b] by simp
    moreover have "quiet b avc'" using Cons.IH [of "log_log ''\<newline>'' b"] Cons.prems ae a b by simp
    ultimately show ?case by (rule quiet_trans)
  qed (simp add: quiet_refl)
  show "quiet avc avc'" if "log_slots sec tbl tag n chs u m avc = Some (u', m', avc')"
    using that
  proof (induction chs arbitrary: n u m avc)
    case (Cons ch chs)
    show ?case
    proof (cases "ch = []")
      case False
      then obtain s a where "log_chain sec tbl ch (log_log s avc) = Some a" "log_slots sec tbl tag (Suc n) chs (Suc u) (max m (length ch)) a = Some (u', m', avc')"
        using Cons.prems by (auto split: bind_splits)
      then show ?thesis using chain [of ch "log_log s avc" a] Cons.IH quiet_trans quiet_log(2) by blast
    qed (use Cons in simp)
  qed (simp add: quiet_refl)
qed

section \<open>Steps\<close>

inductive avc_step :: "av_tables \<Rightarrow> avc_cache \<Rightarrow> avc_cache \<Rightarrow> bool" for tbl where
  lookup: "avc_lookup avc s t c r = Some (res, avc') \<Longrightarrow> avc_step tbl avc avc'"
| insert: "avc_insert avc s t c ae q = Some (res, avc') \<Longrightarrow> avc_step tbl avc avc'"
| audit: "avc_audit sec tbl avc s t c av d = Some avc' \<Longrightarrow> avc_step tbl avc avc'"
| add_callback: "avc_add_callback block avc cb ev s t c p = (rc, avc') \<Longrightarrow> avc_step tbl avc avc'"
| remove_callback: "avc_remove_callback avc cb = (rc, avc') \<Longrightarrow> avc_step tbl avc avc'"
| log_contents: "avc_log_contents sec tbl tag avc = Some avc' \<Longrightarrow> avc_step tbl avc avc'"
| log_stats: "avc_step tbl avc (avc_log_stats tag avc)"
| grant: "avc_ss_grant invoke avc s t c p q = Some (ret, avc') \<Longrightarrow> avc_step tbl avc avc'"
| try_revoke: "avc_ss_try_revoke invoke avc s t c p q = Some (ret, avc') \<Longrightarrow> avc_step tbl avc avc'"
| revoke: "avc_ss_revoke invoke avc s t c p q = Some (ret, avc') \<Longrightarrow> avc_step tbl avc avc'"
| set_auditallow: "avc_ss_set_auditallow invoke avc s t c p q en = Some (ret, avc') \<Longrightarrow> avc_step tbl avc avc'"
| set_auditdeny: "avc_ss_set_auditdeny invoke avc s t c p q en = Some (ret, avc') \<Longrightarrow> avc_step tbl avc avc'"
| set_notify: "avc_ss_set_notify invoke avc s t c p q en = Some (ret, avc') \<Longrightarrow> avc_step tbl avc avc'"
| reset: "avc_ss_reset invoke avc q = Some (rc, avc') \<Longrightarrow> avc_step tbl avc avc'"
| query: "avc_query avc iid = (i, avc') \<Longrightarrow> avc_step tbl avc avc'"
| addref: "avc_addref avc = (n, avc') \<Longrightarrow> avc_step tbl avc avc'"
| release: "avc_release avc = (n, Inr avc') \<Longrightarrow> avc_step tbl avc avc'"
| has_perm: "avc_has_perm_ref sec tbl avc s t c r aeref = Some (rc, aeref', avc') \<Longrightarrow> avc_step tbl avc avc'"
| notify_perm: "avc_notify_perm_ref sec avc s t c r aeref = Some (nrc, aeref', avc') \<Longrightarrow> avc_step tbl avc avc'"

inductive avc_steps :: "av_tables \<Rightarrow> avc_cache \<Rightarrow> avc_cache \<Rightarrow> bool" for tbl where
  refl: "avc_steps tbl avc avc"
| step: "avc_steps tbl avc avc1 \<Longrightarrow> avc_step tbl avc1 avc2 \<Longrightarrow> avc_steps tbl avc avc2"

lemma avc_step_keeps:
  assumes "avc_step tbl avc avc'" "avc_ok avc"
  shows "keeps avc avc'"
  using assms
proof (cases rule: avc_step.cases)
  case (insert s t c ae q res)
  then show ?thesis using avc_insert_keeps [OF assms(2)] by blast
next
  case (log_contents sec tag)
  then obtain u m a s where "log_slots sec tbl tag 0 (ac_slots avc) 0 0 (avc_log_stats tag avc) = Some (u, m, a)" "avc' = log_log s a"
    by (auto simp: avc_log_contents_def split: bind_splits prod.splits)
  then have "quiet avc avc'" using avc_log_keeps(2) by (fastforce simp: avc_log_stats_def)
  then show ?thesis using quiet_keeps assms(2) by blast
next
  case (reset invoke q rc)
  then show ?thesis using avc_reset_spec [OF assms(2), of invoke q] by (auto simp: keeps_def)
next
  case (notify_perm sec s t c r aeref nrc aeref')
  then obtain rc ref where "avc_get_ref sec avc s t c r aeref = Some (rc, ref, avc')"
    by (auto simp: avc_notify_perm_ref_def split: bind_splits option.splits)
  then show ?thesis using avc_get_ref_keeps [OF assms(2)] by blast
qed (use assms(2) in \<open>auto simp: avc_add_callback_def avc_remove_callback_def avc_query_def avc_addref_def avc_release_def Let_def
      avc_ss_grant_def avc_ss_try_revoke_def avc_ss_revoke_def avc_ss_set_auditallow_def avc_ss_set_auditdeny_def avc_ss_set_notify_def
      avc_log_stats_def keeps_def [of avc "avc\<lparr>ac_callbacks := _\<rparr>"] keeps_def [of avc "avc\<lparr>ac_count := _\<rparr>"] quiet_refl
      split: option.splits if_splits dest: avc_lookup_keeps quiet_audit avc_control_keeps avc_has_perm_ref_keeps intro: quiet_keeps\<close>)

lemma avc_steps_keep: "avc_steps tbl avc avc' \<Longrightarrow> avc_ok avc \<Longrightarrow> keeps avc avc'"
proof (induction rule: avc_steps.induct)
  case (step avc avc1 avc2)
  then show ?case using avc_step_keeps keeps_trans by (metis keeps_def)
qed simp

end
