(* ===== verification/Avc_Check.thy ===== *)
theory Avc_Check
  imports Avc_Step
begin

text \<open>
  Permission checks through the cache.  The interface \<open>decision_server\<close> says what the cache relies on: a decision
  covers all permissions and does not depend on those requested, and the other services of the server do not change the
  decisions that were made.  Under this contract a check through the cache gives the decision of the server, from
  whatever node its reference points to.
\<close>

section \<open>Audit records\<close>

text \<open>What is needed to print the records of a class: contexts that can be printed, a name of the class, and names of the
  common permissions.\<close>

definition tables_ok :: "av_tables \<Rightarrow> 16 word \<Rightarrow> bool" where
  "tables_ok tbl c \<longleftrightarrow> unat c < length (class_to_string tbl) \<and>
     (\<forall>(c', pts, base)\<in>set (av_inherit tbl). c' = c \<longrightarrow> unat base \<le> 2 ^ length pts \<and> unat base \<le> 2 ^ 31)"

fun printable :: "(errno + char list \<times> nat) option \<Rightarrow> bool" where
  "printable None = False"
| "printable (Some (Inl e)) = True"
| "printable (Some (Inr (b, n))) = (CHR 0x00 \<in> set b)"

definition log_ok :: "security \<Rightarrow> av_tables \<Rightarrow> u32 \<Rightarrow> u32 \<Rightarrow> 16 word \<Rightarrow> bool" where
  "log_ok sec tbl s t c \<longleftrightarrow> tables_ok tbl c \<and> printable (sec_sid_to_context sec s) \<and> printable (sec_sid_to_context sec t)"

lemma unat_push_bit_1: "i < 32 \<Longrightarrow> unat (push_bit i 1 :: u32) = 2 ^ i"
proof -
  assume "i < 32"
  then have "(2 :: nat) ^ i < 2 ^ 32" by (rule power_strict_increasing) simp
  then have "unat (of_nat (2 ^ i) :: u32) = 2 ^ i" by (rule unat_of_nat_u32)
  then show ?thesis by (simp add: push_bit_eq_mult)
qed

lemma log_commons_defined:
  assumes "unat base \<le> 2 ^ length pts" "unat base \<le> 2 ^ 31" "i + n = 32" "i \<le> 31"
  shows "\<exists>x. log_commons pts base av n i (push_bit i 1) = Some x"
  using assms(3,4)
proof (induction n arbitrary: i)
  case (Suc n)
  have perm: "unat (push_bit i 1 :: u32) = 2 ^ i" using Suc.prems(2) by (intro unat_push_bit_1) simp
  show ?case
  proof (cases "push_bit i 1 < base")
    case True
    then have i: "(2 :: nat) ^ i < unat base" using perm by (simp add: word_less_nat_alt)
    have "i < length pts" "i < 31"
      using power_less_imp_less_exp [OF _ less_le_trans [OF i assms(1)]] power_less_imp_less_exp [OF _ less_le_trans [OF i assms(2)]] by simp_all
    then have "i < length pts" "Suc i \<le> 31" by simp_all
    moreover from this obtain x where "log_commons pts base av n (Suc i) (push_bit (Suc i) 1) = Some x" using Suc.IH [of "Suc i"] Suc.prems by auto
    moreover have "push_bit 1 (push_bit i 1) = (push_bit (Suc i) 1 :: u32)" by (simp add: push_bit_push_bit)
    ultimately show ?thesis using True by (subst log_commons.simps) (cases x, auto simp: mult.commute)
  next
    case False
    then show ?thesis by (subst log_commons.simps) simp
  qed
qed simp

lemma avc_log_av_defined:
  assumes "tables_ok tbl c"
  shows "\<exists>avc'. avc_log_av tbl c av avc = Some avc'"
proof -
  have "\<exists>x. log_commons pts base av 32 0 1 = Some x"
    if "(pts, base) = (case find (\<lambda>(c', pts, base). c' = c) (av_inherit tbl) of None \<Rightarrow> ([], 0) | Some (c, pts, base) \<Rightarrow> (pts, base))" for pts base
  proof -
    have "unat base \<le> 2 ^ length pts \<and> unat base \<le> 2 ^ 31"
      using that assms by (fastforce simp: tables_ok_def find_Some_iff split: option.splits dest: nth_mem)
    then show ?thesis using log_commons_defined [of base pts 0 32 av] by simp
  qed
  then show ?thesis by (fastforce simp: avc_log_av_def Let_def split: prod.splits)
qed

lemma avc_audit_defined:
  assumes "log_ok sec tbl s t c"
  shows "\<exists>avc'. avc_audit sec tbl avc s t c av d = Some avc'"
proof -
  have ctx: "\<exists>avc'. log_context sec sid f g avc = Some avc'" if "printable (sec_sid_to_context sec sid)" for sid f g avc
    using that by (cases "sec_sid_to_context sec sid" rule: printable.cases) (auto simp: log_context_def s_text_def)
  have "\<exists>avc'. avc_log_query sec tbl s t c avc = Some avc'" for avc
  proof -
    obtain a where a: "log_context sec s ''ssid='' ''scontext='' avc = Some a" using ctx assms unfolding log_ok_def by blast
    obtain b where b: "log_context sec t '' tsid='' '' tcontext='' a = Some b" using ctx assms unfolding log_ok_def by blast
    show ?thesis using a b assms by (simp add: avc_log_query_def log_ok_def tables_ok_def)
  qed
  moreover obtain a where "avc_log_av tbl c av (log_log (''\<newline>avc:  '' @ (if d then ''denied'' else ''granted'') @ '' '') avc) = Some a"
    using avc_log_av_defined assms unfolding log_ok_def by blast
  ultimately show ?thesis unfolding avc_audit_def Let_def by (metis bind.bind_lunit)
qed

section \<open>Coherence\<close>

text \<open>The entries of a cache are decisions that the server makes.\<close>

definition cache_ok :: "(u32 \<Rightarrow> u32 \<Rightarrow> 16 word \<Rightarrow> u32 \<Rightarrow> (errno + decision) option) \<Rightarrow> u32 \<Rightarrow> avc_cache \<Rightarrow> bool" where
  "cache_ok cav q avc \<longleftrightarrow> avc_ok avc \<and> keyed avc \<and> ac_nodes avc \<noteq> [] \<and> \<not> ac_always_allow avc \<and> ac_latest_notif avc \<le> q \<and>
     (\<forall>s t c e. avc_abs avc (s, t, c) = Some e \<longrightarrow>
        (\<exists>d. cav s t c 0 = Some (Inr d) \<and> e = keyed_entry (s, t, c) (decision_entry d)))"

lemma cache_ok_quiet: "quiet avc avc' \<Longrightarrow> cache_ok cav q avc \<Longrightarrow> cache_ok cav q avc'"
  using quiet_fields(2,3) [of avc avc'] quiet_abs [of avc avc'] quiet_ok [of avc avc']
  by (auto simp: cache_ok_def same_rest_def)

text \<open>The result of a check for the answer of the server, and what \<open>oskit_avc_get_ref\<close> returns for it.\<close>

definition granted :: "u32 \<Rightarrow> errno + decision \<Rightarrow> errno option" where
  "granted r x = (case x of Inl e \<Rightarrow> Some e | Inr d \<Rightarrow> if r AND d_allowed d = r then None else Some EACCES)"

definition answered ::
    "(u32 \<Rightarrow> u32 \<Rightarrow> 16 word \<Rightarrow> u32 \<Rightarrow> (errno + decision) option) \<Rightarrow> u32 \<Rightarrow> nat \<Rightarrow> u32 \<times> u32 \<times> 16 word \<Rightarrow> nat option \<Rightarrow>
       (errno + decision) option \<Rightarrow> (errno option \<times> nat option \<times> avc_cache) option \<Rightarrow> bool" where
  "answered cav q n k aeref x res =
     (case x of
        None \<Rightarrow> res = None
      | Some (Inl e) \<Rightarrow> \<exists>avc'. res = Some (Some e, aeref, avc') \<and> cache_ok cav q avc' \<and> length (ac_nodes avc') = n
      | Some (Inr d) \<Rightarrow> \<exists>i avc'. res = Some (None, Some i, avc') \<and> cache_ok cav q avc' \<and> length (ac_nodes avc') = n \<and>
          i < n \<and> unmarked (ac_nodes avc' ! i) = keyed_entry k (decision_entry d))"

locale decision_server =
  fixes good :: "'st \<Rightarrow> bool" and compute :: "'st \<Rightarrow> u32 \<Rightarrow> u32 \<Rightarrow> 16 word \<Rightarrow> u32 \<Rightarrow> (errno + decision) option"
    and seqno :: "'st \<Rightarrow> u32" and service :: "'st \<Rightarrow> 'st \<Rightarrow> bool"
  assumes decided: "good st \<Longrightarrow> compute st s t c r = Some (Inr d) \<Longrightarrow> d_decided d = 0xffffffff \<and> d_seqno d = seqno st"
    and requested: "good st \<Longrightarrow> compute st s t c r = compute st s t c r'"
    and service_good: "good st \<Longrightarrow> service st st' \<Longrightarrow> good st'"
    and service_kept: "good st \<Longrightarrow> service st st' \<Longrightarrow> compute st s t c r = Some (Inr d) \<Longrightarrow> compute st' s t c r = Some (Inr d)"
    and service_seqno: "good st \<Longrightarrow> service st st' \<Longrightarrow> seqno st' = seqno st"
begin

abbreviation cached :: "'st \<Rightarrow> avc_cache \<Rightarrow> bool" where
  "cached st \<equiv> cache_ok (compute st) (seqno st)"

lemma cached_service: "good st \<Longrightarrow> service st st' \<Longrightarrow> cached st avc \<Longrightarrow> cached st' avc"
  using service_kept service_seqno by (fastforce simp: cache_ok_def)

lemma cached_node:
  assumes st: "good st" "cached st avc" and i: "i \<in> set (active avc)" "ae_key (ac_nodes avc ! i) = (s, t, c)"
  obtains d where "compute st s t c r = Some (Inr d)" "unmarked (ac_nodes avc ! i) = keyed_entry (s, t, c) (decision_entry d)"
proof -
  have "avc_abs avc (s, t, c) = Some (unmarked (ac_nodes avc ! i))"
    using avc_abs_Some [of avc] st(2) i unfolding cache_ok_def by blast
  then show ?thesis using st that requested [of st s t c r 0] unfolding cache_ok_def by metis
qed

lemma cached_all:
  assumes "good st" "cached st avc" "avc_abs avc (s, t, c) = Some e"
  shows "ae_decided e AND r = r"
proof -
  obtain d where "compute st s t c 0 = Some (Inr d)" "e = keyed_entry (s, t, c) (decision_entry d)" using assms(2,3) unfolding cache_ok_def by blast
  then have "ae_decided e = 0xffffffff" using decided [OF assms(1)] by (simp add: keyed_entry_def decision_entry_def)
  moreover have "(0xffffffff :: u32) = - 1" by simp
  ultimately show ?thesis by simp
qed

lemma miss_answered:
  assumes st: "good st" "cached st avc" and sec: "sec_compute_av sec = compute st"
  shows "answered (compute st) (seqno st) (length (ac_nodes avc)) (s, t, c) aeref (compute st s t c r) (avc_get_miss sec avc s t c r aeref)"
proof -
  let ?avc = "count_stat 2 1 avc"
  have q: "quiet avc ?avc" by (rule quiet_count)
  have c2: "cached st ?avc" by (rule cache_ok_quiet [OF q st(2)])
  then have ok: "avc_ok ?avc" by (simp add: cache_ok_def)
  show ?thesis
  proof (rule avc_lookup_spec [OF ok, of s t c r])
    fix i avc' assume l: "avc_lookup ?avc s t c r = Some (Inr i, avc')" "quiet ?avc avc'" "i \<in> set (active ?avc)"
      "avc_abs ?avc (s, t, c) = Some (unmarked (ac_nodes ?avc ! i))"
    have k: "ae_key (ac_nodes ?avc ! i) = (s, t, c)" using avc_abs_key [OF ok l(4)] by simp
    obtain d where d: "compute st s t c r = Some (Inr d)" "unmarked (ac_nodes ?avc ! i) = keyed_entry (s, t, c) (decision_entry d)"
      by (rule cached_node [OF st(1) c2 l(3) k])
    note i = avc_ok_active(1) [OF ok l(3)] and f = quiet_fields [OF l(2)]
    show ?thesis
      using d l(1) i f(2) f(4) [OF i] cache_ok_quiet [OF l(2) c2] quiet_fields(2) [OF q]
      by (simp add: answered_def avc_get_miss_def)
  next
    fix avc1 assume l: "avc_lookup ?avc s t c r = Some (Inl ENOENT, avc1)" "quiet ?avc avc1"
      "\<And>e. avc_abs ?avc (s, t, c) = Some e \<Longrightarrow> ae_decided e AND r \<noteq> r"
    have c1: "cached st avc1" and n1: "length (ac_nodes avc1) = length (ac_nodes avc)"
      using cache_ok_quiet [OF l(2) c2] quiet_fields(2) [OF l(2)] quiet_fields(2) [OF q] by simp_all
    have none: "avc_abs avc1 (s, t, c) = None" using l(3) cached_all [OF st(1) c2] quiet_abs(1) [OF l(2) ok] by (metis not_None_eq)
    have run: "avc_get_miss sec avc s t c r aeref = compute st s t c r \<bind> (\<lambda>x. case x of
           Inl e \<Rightarrow> Some (Some e, aeref, avc1)
         | Inr d \<Rightarrow> avc_insert avc1 s t c (decision_entry d) (d_seqno d) \<bind> (\<lambda>(r, avc). case r of
               Inl e \<Rightarrow> Some (Some e, aeref, avc) | Inr node \<Rightarrow> Some (None, Some node, avc)))"
      using l(1) sec by (simp add: avc_get_miss_def)
    show ?thesis
    proof (cases "compute st s t c r")
      case None
      then show ?thesis by (simp add: answered_def run)
    next
      case (Some x)
      show ?thesis
      proof (cases x)
        case (Inl e)
        then show ?thesis using Some c1 n1 by (simp add: answered_def run)
      next
        case (Inr d)
        have seq: "ac_latest_notif avc1 \<le> d_seqno d" using decided [OF st(1)] Some Inr c1 by (simp add: cache_ok_def)
        have c1': "avc_ok avc1" "keyed avc1" "ac_nodes avc1 \<noteq> []" using c1 by (simp_all add: cache_ok_def)
        from avc_insert_abs [OF c1' seq none, of "decision_entry d"] obtain new avc' D where
          ins: "avc_insert avc1 s t c (decision_entry d) (d_seqno d) = Some (Inr new, avc')" "avc_ok avc'" "keyed avc'" "same_rest avc1 avc'"
          "new \<in> set (active avc')" "unmarked (ac_nodes avc' ! new) = keyed_entry (s, t, c) (decision_entry d)"
          "length (ac_nodes avc') = length (ac_nodes avc1)"
          "avc_abs avc' = ((avc_abs avc1) |` (- D))((s, t, c) \<mapsto> keyed_entry (s, t, c) (decision_entry d))" by metis
        have "cached st avc'"
          using ins c1 Some Inr requested [OF st(1), of s t c r 0]
          by (auto simp: cache_ok_def same_rest_def restrict_map_def split: if_splits)
        then show ?thesis using Some Inr ins n1 avc_ok_active(1) [OF ins(2,5)] by (simp add: answered_def run)
      qed
    qed
  qed
qed

text \<open>The reference is a hint: it may point to any node of the cache.\<close>

lemma ref_answered:
  assumes st: "good st" "cached st avc" and sec: "sec_compute_av sec = compute st"
    and ref: "\<And>i. aeref = Some i \<Longrightarrow> i < length (ac_nodes avc)" "aeref = None \<or> r \<noteq> 0"
  shows "answered (compute st) (seqno st) (length (ac_nodes avc)) (s, t, c) aeref (compute st s t c r) (avc_get_ref sec avc s t c r aeref)"
proof (cases aeref)
  case None
  have "cached st (count_stat 0 1 avc)" by (rule cache_ok_quiet [OF quiet_count st(2)])
  from miss_answered [OF st(1) this sec, of s t c aeref r] show ?thesis
    using None by (simp add: avc_get_ref_def Let_def count_stat_def)
next
  case (Some i)
  let ?e = "ac_nodes avc ! i" and ?avc = "count_stat 0 1 avc"
  have n: "ac_nodes (count_stat k m a) = ac_nodes a" for k m a by (simp add: count_stat_def)
  have i: "i < length (ac_nodes avc)" and ok: "avc_ok avc" using ref(1) Some st(2) by (simp_all add: cache_ok_def)
  show ?thesis
  proof (cases "ae_key ?e = (s, t, c) \<and> ae_decided ?e AND r = r")
    case True
    let ?m = "set_node i (?e\<lparr>ae_used := True\<rparr>) (count_stat 1 1 ?avc)"
    have m: "avc_get_ref sec avc s t c r aeref = Some (None, Some i, ?m)" using Some True i by (simp add: avc_get_ref_def Let_def n ae_key_def)
    have q: "quiet avc ?m" using quiet_trans [OF quiet_trans [OF quiet_count quiet_count] quiet_mark, of avc] unfolding n .
    have "i \<in> set (active avc)" using stale_ref [OF ok i] True Some ref(2) by blast
    then obtain d where "compute st s t c r = Some (Inr d)" "unmarked ?e = keyed_entry (s, t, c) (decision_entry d)"
      using cached_node [OF st, of i] True by metis
    then show ?thesis using m i cache_ok_quiet [OF q st(2)] quiet_fields(2) [OF q] quiet_fields(4) [OF q i] by (simp add: answered_def)
  next
    case False
    have q: "quiet avc (count_stat 3 1 ?avc)" by (rule quiet_trans [OF quiet_count quiet_count])
    have "avc_get_ref sec avc s t c r aeref = avc_get_miss sec (count_stat 3 1 ?avc) s t c r aeref"
      using Some False i by (auto simp: avc_get_ref_def Let_def n ae_key_def)
    then show ?thesis using miss_answered [OF st(1) cache_ok_quiet [OF q st(2)] sec] by (simp add: n)
  qed
qed

text \<open>A check through the cache gives the answer of the server.\<close>

lemma check_answered:
  assumes st: "good st" "cached st avc" and sec: "sec_compute_av sec = compute st" "log_ok sec tbl s t c"
    and ref: "\<And>i. aeref = Some i \<Longrightarrow> i < length (ac_nodes avc)" "aeref = None \<or> r \<noteq> 0"
  shows "case compute st s t c r of
      None \<Rightarrow> avc_has_perm_ref sec tbl avc s t c r aeref = None
    | Some x \<Rightarrow> \<exists>aeref' avc'. avc_has_perm_ref sec tbl avc s t c r aeref = Some (granted r x, aeref', avc') \<and> cached st avc' \<and>
        length (ac_nodes avc') = length (ac_nodes avc) \<and> (\<forall>i. aeref' = Some i \<longrightarrow> i < length (ac_nodes avc))"
proof -
  note a = ref_answered [OF st sec(1) ref, of s t c]
  show ?thesis
  proof (cases "compute st s t c r")
    case None
    then show ?thesis using a by (simp add: answered_def avc_has_perm_ref_def)
  next
    case (Some x)
    show ?thesis
    proof (cases x)
      case (Inl e)
      then show ?thesis using a Some ref(1) by (auto simp: answered_def avc_has_perm_ref_def granted_def)
    next
      case (Inr d)
      then obtain i avc1 where g: "avc_get_ref sec avc s t c r aeref = Some (None, Some i, avc1)" "cached st avc1"
        "length (ac_nodes avc1) = length (ac_nodes avc)" "i < length (ac_nodes avc)"
        and e: "unmarked (ac_nodes avc1 ! i) = keyed_entry (s, t, c) (decision_entry d)"
        using a Some by (auto simp: answered_def)
      have av: "ae_allowed (ac_nodes avc1 ! i) = d_allowed d"
        using arg_cong [OF e, of ae_allowed] by (simp add: keyed_entry_def decision_entry_def)
      have audit: "\<exists>a. avc_audit sec tbl avc1 s t c r b = Some a \<and> cached st a \<and> length (ac_nodes a) = length (ac_nodes avc)" for b
      proof -
        obtain a where a: "avc_audit sec tbl avc1 s t c r b = Some a" using avc_audit_defined [OF sec(2)] by blast
        then show ?thesis using cache_ok_quiet [OF quiet_audit [OF a] g(2)] quiet_fields(2) [OF quiet_audit [OF a]] g(3) by auto
      qed
      have na: "\<not> ac_always_allow avc1" using g(2) by (simp add: cache_ok_def)
      obtain a1 where a1: "avc_audit sec tbl avc1 s t c r True = Some a1" "cached st a1" "length (ac_nodes a1) = length (ac_nodes avc)" using audit by blast
      obtain a2 where a2: "avc_audit sec tbl avc1 s t c r False = Some a2" "cached st a2" "length (ac_nodes a2) = length (ac_nodes avc)" using audit by blast
      show ?thesis using Some Inr g av na a1 a2 by (auto simp: avc_has_perm_ref_def granted_def)
    qed
  qed
qed

text \<open>A check that returns gives the answer of the server, whatever could be printed.\<close>

lemma check_result:
  assumes st: "good st" "cached st avc" and sec: "sec_compute_av sec = compute st"
    and ref: "\<And>i. aeref = Some i \<Longrightarrow> i < length (ac_nodes avc)" "aeref = None \<or> r \<noteq> 0"
    and run: "avc_has_perm_ref sec tbl avc s t c r aeref = Some (rc, aeref', avc')"
  shows "\<exists>x. compute st s t c r = Some x \<and> rc = granted r x"
proof -
  note a = ref_answered [OF st sec ref, of s t c]
  obtain rc1 ref1 avc1 where g: "avc_get_ref sec avc s t c r aeref = Some (rc1, ref1, avc1)"
    using run by (auto simp: avc_has_perm_ref_def split: bind_splits)
  then obtain x where x: "compute st s t c r = Some x" using a by (cases "compute st s t c r") (auto simp: answered_def)
  have "rc = granted r x"
  proof (cases x)
    case (Inl e)
    then show ?thesis using a x run by (auto simp: answered_def avc_has_perm_ref_def granted_def)
  next
    case (Inr d)
    then obtain i where i: "rc1 = None" "ref1 = Some i" "cached st avc1" "i < length (ac_nodes avc1)"
      and e: "unmarked (ac_nodes avc1 ! i) = keyed_entry (s, t, c) (decision_entry d)"
      using a x g by (auto simp: answered_def)
    have "ae_allowed (ac_nodes avc1 ! i) = d_allowed d" "\<not> ac_always_allow avc1"
      using arg_cong [OF e, of ae_allowed] i(3) by (simp_all add: keyed_entry_def decision_entry_def cache_ok_def)
    then show ?thesis
      using run g i Inr by (auto simp: avc_has_perm_ref_def granted_def split: bind_splits if_splits)
  qed
  then show ?thesis using x by blast
qed

text \<open>A check that returns leaves a cache of the same kind, whatever could be printed.\<close>

lemma check_cached:
  assumes st: "good st" "cached st avc" and sec: "sec_compute_av sec = compute st"
    and ref: "\<And>i. aeref = Some i \<Longrightarrow> i < length (ac_nodes avc)" "aeref = None \<or> r \<noteq> 0"
  shows "avc_has_perm_ref sec tbl avc s t c r aeref = Some (rc, aeref', avc') \<Longrightarrow> cached st avc'"
    "avc_notify_perm_ref sec avc s t c r aeref = Some (nrc, aeref', avc') \<Longrightarrow> cached st avc'"
proof -
  note a = ref_answered [OF st sec ref, of s t c]
  have get: "cached st avc1" if "avc_get_ref sec avc s t c r aeref = Some (rc1, ref1, avc1)" for rc1 ref1 avc1
    using a that by (auto simp: answered_def split: option.splits sum.splits)
  show "cached st avc'" if run: "avc_notify_perm_ref sec avc s t c r aeref = Some (nrc, aeref', avc')"
    using run get by (auto simp: avc_notify_perm_ref_def split: bind_splits option.splits)
  show "cached st avc'" if run: "avc_has_perm_ref sec tbl avc s t c r aeref = Some (rc, aeref', avc')"
  proof -
    obtain rc1 ref1 avc1 where g: "avc_get_ref sec avc s t c r aeref = Some (rc1, ref1, avc1)"
      using run by (auto simp: avc_has_perm_ref_def split: bind_splits)
    have c1: "cached st avc1" by (rule get [OF g])
    then have "\<not> ac_always_allow avc1" by (simp add: cache_ok_def)
    then show ?thesis
      using run g c1 cache_ok_quiet [OF quiet_audit c1] by (auto simp: avc_has_perm_ref_def split: bind_splits if_splits)
  qed
qed

end

end
