(* ===== verification/Server.thy ===== *)
theory Server
  imports Avc_Check Services_Load
begin

text \<open>
  The security server as an object (\<open>security/init.c\<close>): its start, the operations of its interface, the list of
  registered access vector caches, and the loading of a policy with the reset of the caches
  (\<open>security_load_policy\<close> of \<open>security/services.c\<close>).  The caches of the system are numbered; the number of a cache is its
  pointer and \<open>None\<close> in the list of caches is one that has been freed.  The argument \<open>self\<close> of an operation says whether
  it was called on the object of the server.
\<close>

record registration =
  rg_avc :: nat
  rg_classes :: ebitmap

record server =
  sv_count :: u32
  sv_avc_list :: "registration list"
  sv_ss :: ss
  sv_caches :: "avc_cache option list"

definition get_cache :: "server \<Rightarrow> nat \<Rightarrow> avc_cache option" where
  "get_cache sv i = do { a \<leftarrow> item (sv_caches sv) i; a }"

definition put_cache :: "nat \<Rightarrow> avc_cache option \<Rightarrow> server \<Rightarrow> server" where
  "put_cache i a sv = sv\<lparr>sv_caches := (sv_caches sv)[i := a]\<rparr>"

section \<open>Loading a policy\<close>

text \<open>\<open>fr\<close> is the \<open>fread\<close> of the build: \<open>Bytes buf\<close> the one of \<open>global.h\<close> that the library is compiled with,
  \<open>Items\<close> that of the C library.  \<open>invoke k\<close> is what the callbacks do that the \<open>k\<close>-th cache invokes.  The codes that the caches return are ignored.\<close>

fun reset_list :: "(nat \<Rightarrow> invocation) \<Rightarrow> u32 \<Rightarrow> nat \<Rightarrow> registration list \<Rightarrow> server \<Rightarrow> server option" where
  "reset_list invoke seqno k [] sv = Some sv"
| "reset_list invoke seqno k (cur # rest) sv = do {
     avc \<leftarrow> get_cache sv (rg_avc cur);
     (rc, avc) \<leftarrow> avc_ss_reset (invoke k) avc seqno;
     reset_list invoke seqno (Suc k) rest (put_cache (rg_avc cur) (Some avc) sv)
   }"

definition security_avc_ss_reset :: "(nat \<Rightarrow> invocation) \<Rightarrow> server \<Rightarrow> u32 \<Rightarrow> server option" where
  "security_avc_ss_reset invoke sv seqno = reset_list invoke seqno 0 (sv_avc_list sv) sv"

definition security_load_policy ::
    "fread_kind \<Rightarrow> (nat \<Rightarrow> invocation) \<Rightarrow> allocs \<Rightarrow> (nat \<Rightarrow> char list option) \<Rightarrow> u32 list \<Rightarrow> server \<Rightarrow> byte list \<Rightarrow> (errno option \<times> server) option" where
  "security_load_policy fr invoke ok alloc scratch sv fp = do {
     (rc, st) \<leftarrow> load_read ok alloc (sv_ss sv) (policydb_read_by fr (\<lambda>q. ok (0 # q)) scratch fp);
     let sv = sv\<lparr>sv_ss := st\<rparr>;
     if rc \<noteq> None then Some (rc, sv)
     else do {
       sv \<leftarrow> security_avc_ss_reset invoke sv (latest_granting st);
       Some (None, sv)
     }
   }"

section \<open>Start\<close>

text \<open>\<open>sv\<close> is the state before; the policy is read from \<open>fp\<close>.  What a failed read leaves in the global policy is not modelled.\<close>

definition security_init ::
    "fread_kind \<Rightarrow> bool \<Rightarrow> bool \<Rightarrow> allocs \<Rightarrow> u32 list \<Rightarrow> server \<Rightarrow> byte list \<Rightarrow> (errno option \<times> server) option" where
  "security_init fr has_log has_mem ok scratch sv fp =
     (if \<not> has_log then Some (Some EINVAL, sv)
      else if \<not> has_mem then Some (Some EINVAL, sv)
      else do {
        let sv = sv\<lparr>sv_count := 1, sv_avc_list := []\<rparr>;
        r \<leftarrow> policydb_read_by fr (\<lambda>q. ok (0 # q)) scratch fp;
        case r of
          None \<Rightarrow> Some (Some EINVAL, sv)
        | Some (p, rest) \<Rightarrow>
            let (res, sidtab) = policydb_load_isids (\<lambda>q. ok (1 # q)) p;
                st = (sv_ss sv)\<lparr>ss_policydb := p, ss_sidtab := sidtab\<rparr>
            in Some (if \<not> res then (Some EINVAL, sv\<lparr>sv_ss := st\<rparr>) else (None, sv\<lparr>sv_ss := st\<lparr>ss_initialized := True\<rparr>\<rparr>))
      })"

section \<open>The object\<close>

definition security_iid :: guid where
  "security_iid = (0x4aa7dff9, 0x7c74, 0x11cf, [0xb5, 0, 0x08, 0, 0x09, 0x53, 0xad, 0xc2])"

definition ss_query :: "bool \<Rightarrow> server \<Rightarrow> guid \<Rightarrow> errno option \<times> server" where
  "ss_query self sv iid =
     (if \<not> self then (Some EINVAL, sv)
      else if iid = iunknown_iid \<or> iid = security_iid then (None, sv\<lparr>sv_count := sv_count sv + 1\<rparr>)
      else (Some E_NOINTERFACE, sv))"

definition ss_addref :: "bool \<Rightarrow> server \<Rightarrow> (errno + u32) \<times> server" where
  "ss_addref self sv =
     (if \<not> self then (Inl EINVAL, sv)
      else (Inr (sv_count sv + 1), sv\<lparr>sv_count := sv_count sv + 1\<rparr>))"

text \<open>Release of a cache.  The last one drops the reference of the cache to the server, by \<open>unref\<close>, before the nodes are
  freed.\<close>

definition release_cache :: "(server \<Rightarrow> (u32 \<times> server) option) \<Rightarrow> nat \<Rightarrow> server \<Rightarrow> server option" where
  "release_cache unref i sv = do {
     avc \<leftarrow> get_cache sv i;
     case avc_ss_release avc of
       (newcount, Inr avc) \<Rightarrow> Some (put_cache i (Some avc) sv)
     | (newcount, Inl freed) \<Rightarrow> do {
         (n, sv) \<leftarrow> unref (put_cache i (Some (avc\<lparr>ac_count := newcount\<rparr>)) sv);
         Some (put_cache i None sv)
       }
   }"

fun release_list :: "(server \<Rightarrow> (u32 \<times> server) option) \<Rightarrow> registration list \<Rightarrow> server \<Rightarrow> server option" where
  "release_list unref [] sv = Some sv"
| "release_list unref (tmp # rest) sv = do { sv \<leftarrow> release_cache unref (rg_avc tmp) sv; release_list unref rest sv }"

text \<open>The last release of the server releases the caches in its list, which may drop their references to the server in
  turn.  The first argument bounds this nesting.  What the static object and the policy hold after it is not modelled,
  except the list, which is not cleared.\<close>

primrec drop_server :: "nat \<Rightarrow> server \<Rightarrow> (u32 \<times> server) option" where
  "drop_server 0 = (\<lambda>sv. None)"
| "drop_server (Suc d) = (\<lambda>sv.
     let newcount = sv_count sv - 1; sv = sv\<lparr>sv_count := newcount\<rparr>
     in if newcount = 0 then do { sv \<leftarrow> release_list (drop_server d) (sv_avc_list sv) sv; Some (newcount, sv) }
        else Some (newcount, sv))"

text \<open>Two levels are enough: the count wraps around below zero at the inner one (lemma \<open>drop_server_depth\<close>).\<close>

definition release_depth :: nat where
  "release_depth = 2"

definition ss_release :: "bool \<Rightarrow> server \<Rightarrow> ((errno + u32) \<times> server) option" where
  "ss_release self sv =
     (if \<not> self then Some (Inl EINVAL, sv)
      else map_option (\<lambda>(n, sv). (Inr n, sv)) (drop_server release_depth sv))"

text \<open>The results of \<open>ebitmap_set_bit\<close> are ignored.\<close>

fun set_classes :: "mallocs \<Rightarrow> nat \<Rightarrow> 16 word list \<Rightarrow> ebitmap \<Rightarrow> ebitmap" where
  "set_classes ok i [] e = e"
| "set_classes ok i (c # cs) e = set_classes ok (Suc i) cs (snd (ebitmap_set_bit (ok i) e (ucast c) True))"

definition ss_register_avc :: "bool \<Rightarrow> mallocs \<Rightarrow> server \<Rightarrow> 16 word list \<Rightarrow> nat \<Rightarrow> (errno option \<times> server) option" where
  "ss_register_avc self ok sv classes i =
     (if \<not> self then Some (Some EINVAL, sv)
      else if \<not> ok 0 then Some (Some ENOMEM, sv)
      else do {
        avc \<leftarrow> get_cache sv i;
        let sv = put_cache i (Some (snd (avc_ss_addref avc))) sv;
        let node = \<lparr>rg_avc = i, rg_classes = set_classes (\<lambda>k. ok (Suc k)) 0 classes ebitmap_init\<rparr>;
        Some (None, sv\<lparr>sv_avc_list := node # sv_avc_list sv\<rparr>)
      })"

fun unlink :: "nat \<Rightarrow> registration list \<Rightarrow> registration list option" where
  "unlink i [] = None"
| "unlink i (cur # rest) = (if rg_avc cur = i then Some rest else map_option ((#) cur) (unlink i rest))"

definition ss_unregister_avc :: "bool \<Rightarrow> server \<Rightarrow> nat \<Rightarrow> (errno option \<times> server) option" where
  "ss_unregister_avc self sv i =
     (if \<not> self then Some (Some EINVAL, sv)
      else
        case unlink i (sv_avc_list sv) of
          None \<Rightarrow> Some (Some ENOENT, sv)
        | Some l \<Rightarrow> map_option (\<lambda>sv. (None, sv)) (release_cache (drop_server release_depth) i (sv\<lparr>sv_avc_list := l\<rparr>)))"

definition ss_load_policy ::
    "fread_kind \<Rightarrow> bool \<Rightarrow> (nat \<Rightarrow> invocation) \<Rightarrow> allocs \<Rightarrow> (nat \<Rightarrow> char list option) \<Rightarrow> u32 list \<Rightarrow> server \<Rightarrow> byte list \<Rightarrow> (errno option \<times> server) option" where
  "ss_load_policy fr self invoke ok alloc scratch sv fp =
     (if \<not> self then Some (Some EINVAL, sv) else security_load_policy fr invoke ok alloc scratch sv fp)"

section \<open>Services\<close>

definition ss_compute_av :: "bool \<Rightarrow> server \<Rightarrow> u32 \<Rightarrow> u32 \<Rightarrow> 16 word \<Rightarrow> u32 \<Rightarrow> (errno + decision) option" where
  "ss_compute_av self sv ssid tsid tclass requested =
     (if \<not> self then Some (Inl EINVAL) else security_compute_av (sv_ss sv) ssid tsid tclass requested)"

definition ss_notify_perm :: "bool \<Rightarrow> u32 \<Rightarrow> u32 \<Rightarrow> 16 word \<Rightarrow> u32 \<Rightarrow> errno + int" where
  "ss_notify_perm self ssid tsid tclass requested =
     (if \<not> self then Inl EINVAL else Inr (security_notify_perm ssid tsid tclass requested))"

definition ss_transition_sid ::
    "bool \<Rightarrow> flask \<Rightarrow> allocs \<Rightarrow> server \<Rightarrow> u32 \<Rightarrow> u32 \<Rightarrow> 16 word \<Rightarrow> ((errno + u32) \<times> server) option" where
  "ss_transition_sid self fl ok sv ssid tsid tclass =
     (if \<not> self then Some (Inl EINVAL, sv)
      else map_option (\<lambda>(r, st). (r, sv\<lparr>sv_ss := st\<rparr>)) (security_transition_sid fl ok (sv_ss sv) ssid tsid tclass))"

definition ss_member_sid :: "bool \<Rightarrow> allocs \<Rightarrow> server \<Rightarrow> u32 \<Rightarrow> u32 \<Rightarrow> 16 word \<Rightarrow> ((errno + u32) \<times> server) option" where
  "ss_member_sid self ok sv ssid tsid tclass =
     (if \<not> self then Some (Inl EINVAL, sv)
      else map_option (\<lambda>(r, st). (r, sv\<lparr>sv_ss := st\<rparr>)) (security_member_sid ok (sv_ss sv) ssid tsid tclass))"

definition ss_sid_to_context ::
    "bool \<Rightarrow> flask \<Rightarrow> (nat \<Rightarrow> char list option) \<Rightarrow> server \<Rightarrow> u32 \<Rightarrow> (errno + char list \<times> nat) option" where
  "ss_sid_to_context self fl alloc sv sid =
     (if \<not> self then Some (Inl EINVAL) else security_sid_to_context fl alloc (sv_ss sv) sid)"

definition ss_context_to_sid :: "bool \<Rightarrow> flask \<Rightarrow> allocs \<Rightarrow> server \<Rightarrow> char list \<Rightarrow> ((errno + u32) \<times> server) option" where
  "ss_context_to_sid self fl ok sv scontext =
     (if \<not> self then Some (Inl EINVAL, sv)
      else map_option (\<lambda>(r, st). (r, sv\<lparr>sv_ss := st\<rparr>)) (security_context_to_sid fl ok (sv_ss sv) scontext))"

definition ss_fs_sid :: "bool \<Rightarrow> flask \<Rightarrow> allocs \<Rightarrow> server \<Rightarrow> string \<Rightarrow> (errno + u32 \<times> u32) \<times> server" where
  "ss_fs_sid self fl ok sv name =
     (if \<not> self then (Inl EINVAL, sv)
      else (\<lambda>(r, st). (r, sv\<lparr>sv_ss := st\<rparr>)) (security_fs_sid fl ok (sv_ss sv) name))"

definition ss_port_sid :: "bool \<Rightarrow> flask \<Rightarrow> allocs \<Rightarrow> server \<Rightarrow> 8 word \<Rightarrow> 16 word \<Rightarrow> (errno + u32) \<times> server" where
  "ss_port_sid self fl ok sv protocol port =
     (if \<not> self then (Inl EINVAL, sv)
      else (\<lambda>(r, st). (r, sv\<lparr>sv_ss := st\<rparr>)) (security_port_sid fl ok (sv_ss sv) protocol port))"

definition ss_netif_sid :: "bool \<Rightarrow> flask \<Rightarrow> allocs \<Rightarrow> server \<Rightarrow> string \<Rightarrow> (errno + u32 \<times> u32) \<times> server" where
  "ss_netif_sid self fl ok sv name =
     (if \<not> self then (Inl EINVAL, sv)
      else (\<lambda>(r, st). (r, sv\<lparr>sv_ss := st\<rparr>)) (security_netif_sid fl ok (sv_ss sv) name))"

definition ss_node_sid :: "bool \<Rightarrow> flask \<Rightarrow> allocs \<Rightarrow> server \<Rightarrow> 16 word \<Rightarrow> u32 \<Rightarrow> u32 \<Rightarrow> (errno + u32) \<times> server" where
  "ss_node_sid self fl ok sv domain addr addrlen =
     (if \<not> self then (Inl EINVAL, sv)
      else (\<lambda>(r, st). (r, sv\<lparr>sv_ss := st\<rparr>)) (security_node_sid fl ok (sv_ss sv) domain addr addrlen))"

text \<open>The interface that a cache of this server calls.\<close>

definition server_ops :: "flask \<Rightarrow> (nat \<Rightarrow> char list option) \<Rightarrow> server \<Rightarrow> security" where
  "server_ops fl alloc sv =
     \<lparr>sec_compute_av = ss_compute_av True sv, sec_sid_to_context = ss_sid_to_context True fl alloc sv,
      sec_notify_perm = security_notify_perm\<rparr>"

end
