(* ===== verification/Server_Step.thy ===== *)
theory Server_Step
  imports Server Services_Separate
begin

text \<open>
  The security server with its caches as a transition system.  The services meet the contract of
  \<open>decision_server\<close>, so that registered caches stay coherent with the server through every sequence of services,
  permission checks, registrations and policy loads.
\<close>

section \<open>The contract of the services\<close>

definition serving :: "ss \<Rightarrow> bool" where
  "serving st \<longleftrightarrow> ss_ok st \<and> ss_initialized st"

lemma compute_av_decided:
  "ss_initialized st \<Longrightarrow> security_compute_av st s t c r = Some (Inr d) \<Longrightarrow> d_decided d = 0xffffffff \<and> d_seqno d = latest_granting st"
  by (auto simp: security_compute_av_def unlocked_security_compute_av_def Let_def split: option.splits if_splits bind_splits prod.splits)

lemma compute_av_requested: "ss_initialized st \<Longrightarrow> security_compute_av st s t c r = security_compute_av st s t c r'"
  by (simp add: security_compute_av_def unlocked_security_compute_av_def)

lemma compute_av_known:
  assumes "ss_initialized st" "security_compute_av st s t c r = Some (Inr d)"
  shows "sidtab_search (Some (ss_sidtab st)) s \<noteq> None" "sidtab_search (Some (ss_sidtab st)) t \<noteq> None"
  using assms unfolding security_compute_av_def unlocked_security_compute_av_def Let_def by (auto split: option.splits)

lemma step_ok_kept:
  assumes st: "ss_initialized st" "step_ok st st'" and d: "security_compute_av st s t c r = Some (Inr d)"
  shows "security_compute_av st' s t c r = Some (Inr d)"
proof -
  have le: "sidtab_abs (ss_sidtab st) \<subseteq>\<^sub>m sidtab_abs (ss_sidtab st')" using st(2) by (simp add: step_ok_def grows_def)
  have "sidtab_search (Some (ss_sidtab st')) x = sidtab_search (Some (ss_sidtab st)) x" if "sidtab_search (Some (ss_sidtab st)) x \<noteq> None" for x
    using le that unfolding sidtab_walk(2) map_le_def by (metis domIff)
  then have "security_compute_av st' s t c r = security_compute_av st s t c r"
    using st compute_av_known [OF st(1) d] by (intro same_rules_decision) (simp_all add: step_ok_def)
  then show ?thesis using d by simp
qed

interpretation dsv: decision_server serving security_compute_av latest_granting "ss_steps fl" for fl
proof
  fix st st' s t c r r' d
  show "d_decided d = 0xffffffff \<and> d_seqno d = latest_granting st" if "serving st" "security_compute_av st s t c r = Some (Inr d)"
    using that compute_av_decided unfolding serving_def by blast
  show "security_compute_av st s t c r = security_compute_av st s t c r'" if "serving st"
    using that compute_av_requested unfolding serving_def by blast
  assume st: "serving st" "ss_steps fl st st'"
  then have ok: "step_ok st st' \<and> ss_ok st'" using ss_steps_ok unfolding serving_def by blast
  then show "serving st'" using st(1) by (simp add: serving_def step_ok_def)
  show "latest_granting st' = latest_granting st" using ok by (simp add: step_ok_def)
  show "security_compute_av st' s t c r = Some (Inr d)" if "security_compute_av st s t c r = Some (Inr d)"
    using step_ok_kept ok that st(1) unfolding serving_def by blast
qed

section \<open>Steps\<close>

text \<open>What a policy that was read must satisfy so that the server can work with it: category values in range, valid contexts
  of objects and valid tables of classes.\<close>

definition policy_sound :: "policydb \<Rightarrow> bool" where
  "policy_sound p \<longleftrightarrow> cats_ok p \<and> ocon_ok p \<and> classes_ok p"

text \<open>A cache is registered when it is created, which takes a reference to the server; the last reference to the server is
  not dropped; a reference given to a check points to a node of the cache, and some
  permission is requested with it; the sequence number does not wrap around.\<close>

inductive server_step :: "flask \<Rightarrow> av_tables \<Rightarrow> server \<Rightarrow> server \<Rightarrow> bool" for fl tbl where
  sv_transition: "ss_transition_sid self fl ok sv s t c = Some (r, sv') \<Longrightarrow> server_step fl tbl sv sv'"
| sv_member: "ss_member_sid self ok sv s t c = Some (r, sv') \<Longrightarrow> server_step fl tbl sv sv'"
| sv_to_sid: "ss_context_to_sid self fl ok sv str = Some (r, sv') \<Longrightarrow> server_step fl tbl sv sv'"
| sv_fs: "ss_fs_sid self fl ok sv name = (r2, sv') \<Longrightarrow> server_step fl tbl sv sv'"
| sv_port: "ss_port_sid self fl ok sv proto pt = (r, sv') \<Longrightarrow> server_step fl tbl sv sv'"
| sv_netif: "ss_netif_sid self fl ok sv name = (r2, sv') \<Longrightarrow> server_step fl tbl sv sv'"
| sv_node: "ss_node_sid self fl ok sv domain addr len = (r, sv') \<Longrightarrow> server_step fl tbl sv sv'"
| sv_attach: "avc_create True True al = Inr avc \<Longrightarrow> al 1 \<Longrightarrow>
    ss_register_avc self okn ((snd (ss_addref True sv))\<lparr>sv_caches := sv_caches sv @ [Some avc]\<rparr>) classes (length (sv_caches sv)) = Some (rc, sv') \<Longrightarrow>
    server_step fl tbl sv sv'"
| sv_detach: "ss_unregister_avc self sv i = Some (rc, sv') \<Longrightarrow> sv_count sv \<noteq> 1 \<Longrightarrow> server_step fl tbl sv sv'"
| sv_query: "ss_query self sv iid = (rc, sv') \<Longrightarrow> server_step fl tbl sv sv'"
| sv_addref: "ss_addref self sv = (r, sv') \<Longrightarrow> server_step fl tbl sv sv'"
| sv_release: "ss_release self sv = Some (r, sv') \<Longrightarrow> r \<noteq> Inr 0 \<Longrightarrow> server_step fl tbl sv sv'"
| sv_check: "get_cache sv i = Some avc \<Longrightarrow> avc_has_perm_ref (server_ops fl alloc sv) tbl avc s t c r aeref = Some (rc, aeref', avc') \<Longrightarrow>
    (\<And>k. aeref = Some k \<Longrightarrow> k < length (ac_nodes avc)) \<Longrightarrow> aeref = None \<or> r \<noteq> 0 \<Longrightarrow>
    server_step fl tbl sv (put_cache i (Some avc') sv)"
| sv_notify: "get_cache sv i = Some avc \<Longrightarrow> avc_notify_perm_ref (server_ops fl alloc sv) avc s t c r aeref = Some (nrc, aeref', avc') \<Longrightarrow>
    (\<And>k. aeref = Some k \<Longrightarrow> k < length (ac_nodes avc)) \<Longrightarrow> aeref = None \<or> r \<noteq> 0 \<Longrightarrow>
    server_step fl tbl sv (put_cache i (Some avc') sv)"
| sv_add_callback: "get_cache sv i = Some avc \<Longrightarrow> avc_add_callback block avc cb ev s t c p = (rc, avc') \<Longrightarrow>
    server_step fl tbl sv (put_cache i (Some avc') sv)"
| sv_remove_callback: "get_cache sv i = Some avc \<Longrightarrow> avc_remove_callback avc cb = (rc, avc') \<Longrightarrow>
    server_step fl tbl sv (put_cache i (Some avc') sv)"
| sv_load: "ss_load_policy fr self invoke ok alloc scratch sv fp = Some (rc, sv') \<Longrightarrow>
    (rc = None \<Longrightarrow> policy_sound (ss_policydb (sv_ss sv'))) \<Longrightarrow> latest_granting (sv_ss sv) \<noteq> - 1 \<Longrightarrow> server_step fl tbl sv sv'"

inductive server_steps :: "flask \<Rightarrow> av_tables \<Rightarrow> server \<Rightarrow> server \<Rightarrow> bool" for fl tbl where
  sv_refl: "server_steps fl tbl sv sv"
| sv_step: "server_steps fl tbl sv sv1 \<Longrightarrow> server_step fl tbl sv1 sv2 \<Longrightarrow> server_steps fl tbl sv sv2"

section \<open>Invariant\<close>

abbreviation coherent :: "ss \<Rightarrow> avc_cache \<Rightarrow> bool" where
  "coherent st \<equiv> cache_ok (security_compute_av st) (latest_granting st)"

definition caches_ok :: "(avc_cache \<Rightarrow> bool) \<Rightarrow> server \<Rightarrow> bool" where
  "caches_ok P sv \<longleftrightarrow> distinct (map rg_avc (sv_avc_list sv)) \<and> (\<forall>n\<in>set (sv_avc_list sv). \<exists>avc. get_cache sv (rg_avc n) = Some avc \<and> P avc)"

definition server_ok :: "server \<Rightarrow> bool" where
  "server_ok sv \<longleftrightarrow> serving (sv_ss sv) \<and> classes_ok (ss_policydb (sv_ss sv)) \<and>
     caches_ok (coherent (sv_ss sv)) sv"

lemma get_put_cache:
  "get_cache sv i = Some avc \<Longrightarrow> get_cache (put_cache i a sv) k = (if k = i then a else get_cache sv k)"
  by (cases a) (auto simp: get_cache_def put_cache_def item_def bind_eq_Some_conv nth_list_update split: if_splits)

lemma put_cache_simps [simp]:
  "sv_avc_list (put_cache i a sv) = sv_avc_list sv" "sv_ss (put_cache i a sv) = sv_ss sv" "sv_count (put_cache i a sv) = sv_count sv"
  by (simp_all add: put_cache_def)

lemma get_cache_simps [simp]:
  "get_cache (sv\<lparr>sv_ss := st\<rparr>) i = get_cache sv i" "get_cache (sv\<lparr>sv_avc_list := l\<rparr>) i = get_cache sv i"
  by (simp_all add: get_cache_def)

lemma caches_ok_put:
  assumes "caches_ok P sv" "get_cache sv i = Some avc" "P avc \<Longrightarrow> P avc'"
  shows "caches_ok P (put_cache i (Some avc') sv)"
  using assms get_put_cache [OF assms(2)] by (auto simp: caches_ok_def)

lemma server_ok_put:
  assumes "server_ok sv" "get_cache sv i = Some avc" "coherent (sv_ss sv) avc \<Longrightarrow> coherent (sv_ss sv) avc'"
  shows "server_ok (put_cache i (Some avc') sv)"
  using assms caches_ok_put [where P = "coherent (sv_ss sv)", OF _ assms(2,3)] by (simp add: server_ok_def)

text \<open>A service of the server.\<close>

lemma server_ok_service:
  assumes sv: "server_ok sv" and st: "ss_step fl (sv_ss sv) st'"
  shows "server_ok (sv\<lparr>sv_ss := st'\<rparr>)"
proof -
  have good: "serving (sv_ss sv)" using sv by (simp add: server_ok_def)
  have steps: "ss_steps fl (sv_ss sv) st'" by (rule ss_steps.step [OF ss_steps.refl st])
  have "step_ok (sv_ss sv) st'" using ss_step_ok [OF st] good by (simp add: serving_def)
  then obtain a b c d where p': "ss_policydb st' = (ss_policydb (sv_ss sv))\<lparr>ocon_fs := a, ocon_port := b, ocon_netif := c, ocon_node := d\<rparr>"
    by (auto simp: step_ok_def same_rules_def)
  have "classes_ok (ss_policydb st')" using sv by (simp add: server_ok_def p' classes_ok_def)
  moreover have "caches_ok (coherent st') (sv\<lparr>sv_ss := st'\<rparr>)"
    using sv dsv.cached_service [OF good steps] by (fastforce simp: server_ok_def caches_ok_def)
  ultimately show ?thesis using dsv.service_good [OF good steps] by (simp add: server_ok_def)
qed

text \<open>Loading a policy.\<close>

definition clean :: "u32 \<Rightarrow> avc_cache \<Rightarrow> bool" where
  "clean q avc \<longleftrightarrow> avc_ok avc \<and> ac_nodes avc \<noteq> [] \<and> \<not> ac_always_allow avc \<and> ac_latest_notif avc \<le> q"

lemma clean_coherent:
  assumes "clean q avc" "active avc = []"
  shows "cache_ok cav q avc"
proof -
  have ok: "avc_ok avc" using assms(1) by (simp add: clean_def)
  have "avc_abs avc k = None" for k unfolding avc_abs_None [OF ok] assms(2) by simp
  moreover have "keyed avc" unfolding keyed_def assms(2) by simp
  ultimately show ?thesis using assms(1) by (simp add: cache_ok_def clean_def)
qed

lemma coherent_clean: "cache_ok cav q avc \<Longrightarrow> q \<le> q' \<Longrightarrow> clean q' avc"
  by (auto simp: cache_ok_def clean_def)

lemma reset_list_spec:
  assumes "\<forall>n\<in>set l. \<exists>avc. get_cache sv (rg_avc n) = Some avc \<and> clean q avc" "seqno \<le> q"
  shows "\<exists>sv'. reset_list invoke seqno k l sv = Some sv' \<and> sv_ss sv' = sv_ss sv \<and> sv_avc_list sv' = sv_avc_list sv \<and>
    (\<forall>n\<in>set l. \<exists>avc. get_cache sv' (rg_avc n) = Some avc \<and> clean q avc \<and> active avc = []) \<and>
    (\<forall>i avc. get_cache sv i = Some avc \<and> clean q avc \<and> active avc = [] \<longrightarrow>
       (\<exists>avc'. get_cache sv' i = Some avc' \<and> clean q avc' \<and> active avc' = []))"
  using assms(1)
proof (induction l arbitrary: sv k)
  case (Cons n l)
  obtain avc where avc: "get_cache sv (rg_avc n) = Some avc" "clean q avc" using Cons.prems by auto
  then have ok: "avc_ok avc" by (simp add: clean_def)
  obtain rc avc' where r: "avc_ss_reset (invoke k) avc seqno = Some (rc, avc')" "avc_ok avc'" "active avc' = []"
    "length (ac_nodes avc') = length (ac_nodes avc)" "ac_always_allow avc' = ac_always_allow avc"
    "ac_latest_notif avc' = (if rc = None then max seqno (ac_latest_notif avc) else ac_latest_notif avc)"
    by (rule avc_reset_spec [OF ok]) (rule that)
  have cl: "clean q avc'" using avc(2) r assms(2) by (auto simp: clean_def)
  let ?sv = "put_cache (rg_avc n) (Some avc') sv"
  note get = get_put_cache [OF avc(1), of "Some avc'"]
  have "\<forall>m\<in>set l. \<exists>avc. get_cache ?sv (rg_avc m) = Some avc \<and> clean q avc" using Cons.prems cl by (auto simp: get)
  from Cons.IH [OF this, of "Suc k"] obtain sv' where sv': "reset_list invoke seqno (Suc k) l ?sv = Some sv'" "sv_ss sv' = sv_ss sv" "sv_avc_list sv' = sv_avc_list sv"
    "\<forall>m\<in>set l. \<exists>avc. get_cache sv' (rg_avc m) = Some avc \<and> clean q avc \<and> active avc = []"
    "\<forall>i avc. get_cache ?sv i = Some avc \<and> clean q avc \<and> active avc = [] \<longrightarrow> (\<exists>avc'. get_cache sv' i = Some avc' \<and> clean q avc' \<and> active avc' = [])"
    by (auto simp del: concat_eq_Nil_conv)
  have "reset_list invoke seqno k (n # l) sv = Some sv'" using avc(1) r(1) sv'(1) by simp
  moreover have "get_cache ?sv (rg_avc n) = Some avc'" by (simp add: get)
  moreover have "\<exists>avc'. get_cache ?sv i = Some avc' \<and> clean q avc' \<and> active avc' = []" if "get_cache sv i = Some a \<and> clean q a \<and> active a = []" for i a
    using that cl r(3) by (cases "i = rg_avc n") (auto simp: get simp del: concat_eq_Nil_conv)
  ultimately show ?case using sv' cl r(3) by (intro exI [of _ sv']) (fastforce simp del: concat_eq_Nil_conv)
qed auto

lemma load_policy_resets:
  assumes sv: "server_ok sv" and load: "load_policy ok alloc scratch (sv_ss sv) fp = Some (None, st)" and wrap: "latest_granting (sv_ss sv) \<noteq> - 1"
  obtains sv' where "security_load_policy Items invoke ok alloc scratch sv fp = Some (None, sv')" "sv_ss sv' = st" "sv_avc_list sv' = sv_avc_list sv"
    "caches_ok (coherent st) sv'" "ss_initialized st"
proof -
  let ?st = "sv_ss sv"
  have good: "ss_ok ?st" "ss_initialized ?st" "classes_ok (ss_policydb ?st)" and caches: "caches_ok (coherent ?st) sv"
    using sv by (auto simp: server_ok_def serving_def)
  have seq: "latest_granting st = latest_granting ?st + 1" "ss_initialized st = ss_initialized ?st"
    by (rule load_policy_spec [OF good(1,3) load], simp)+
  have le: "latest_granting ?st \<le> latest_granting st" using wrap unfolding seq by (metis add.commute add_eq_0_iff order_less_imp_le word_less_succ)
  have "\<forall>n\<in>set (sv_avc_list sv). \<exists>avc. get_cache (sv\<lparr>sv_ss := st\<rparr>) (rg_avc n) = Some avc \<and> clean (latest_granting st) avc"
    using caches coherent_clean [OF _ le] by (fastforce simp: caches_ok_def)
  from reset_list_spec [OF this order_refl, of invoke 0] obtain sv1 where
    r: "reset_list invoke (latest_granting st) 0 (sv_avc_list sv) (sv\<lparr>sv_ss := st\<rparr>) = Some sv1" "sv_ss sv1 = st" "sv_avc_list sv1 = sv_avc_list sv"
    "\<forall>n\<in>set (sv_avc_list sv). \<exists>avc. get_cache sv1 (rg_avc n) = Some avc \<and> clean (latest_granting st) avc \<and> active avc = []"
    by (auto simp del: concat_eq_Nil_conv)
  show ?thesis
  proof (rule that [of sv1])
    show "security_load_policy Items invoke ok alloc scratch sv fp = Some (None, sv1)"
      using r(1) load by (simp add: security_load_policy_def security_avc_ss_reset_def load_policy_def)
    show "caches_ok (coherent st) sv1" using caches r clean_coherent by (fastforce simp: caches_ok_def simp del: concat_eq_Nil_conv)
  qed (use r(2,3) seq(2) good(2) in simp_all)
qed

lemma load_policy_bytes: "security_load_policy (Bytes buf) invoke ok alloc scratch sv fp = Some (Some EINVAL, sv)"
  by (simp add: security_load_policy_def load_read_def)

lemma server_ok_load:
  assumes sv: "server_ok sv" and run: "security_load_policy fr invoke ok alloc scratch sv fp = Some (rc, sv')"
    and sound: "rc = None \<Longrightarrow> policy_sound (ss_policydb (sv_ss sv'))" and wrap: "latest_granting (sv_ss sv) \<noteq> - 1"
  shows "server_ok sv'"
proof (cases fr)
  case (Bytes buf)
  then show ?thesis using run sv by (simp add: load_policy_bytes)
next
  case Items
  let ?st = "sv_ss sv"
  have good: "ss_ok ?st" "classes_ok (ss_policydb ?st)" using sv by (auto simp: server_ok_def serving_def)
  obtain rc1 st where load: "load_policy ok alloc scratch ?st fp = Some (rc1, st)"
    using run by (auto simp: security_load_policy_def Items load_policy_def split: bind_splits)
  show ?thesis
  proof (cases rc1)
    case (Some e)
    then have "st = ?st" using load_policy_error load by blast
    then have "sv' = sv" using run load Some by (simp add: security_load_policy_def Items load_policy_def)
    then show ?thesis using sv by simp
  next
    case None
    have load: "load_policy ok alloc scratch ?st fp = Some (None, st)" using load None by simp
    have sv': "rc = None" "sv_ss sv' = st" "caches_ok (coherent st) sv'" "ss_initialized st"
      by (rule load_policy_resets [OF sv load wrap, of invoke], use run Items in simp)+
    have p: "cats_ok (ss_policydb st)" "ocon_ok (ss_policydb st)" "classes_ok (ss_policydb st)"
      using sound [OF sv'(1)] sv'(2) by (simp_all add: policy_sound_def)
    have "ss_ok st" by (rule load_policy_ok [OF good load p(1,2)])
    then show ?thesis using sv' p by (simp add: server_ok_def serving_def)
  qed
qed

text \<open>Registration.\<close>

lemma get_cache_append: "get_cache sv i = Some avc \<Longrightarrow> get_cache (sv\<lparr>sv_caches := sv_caches sv @ [a]\<rparr>) i = Some avc \<and> i < length (sv_caches sv)"
  by (auto simp: get_cache_def item_def nth_append bind_eq_Some_conv split: if_splits)

lemma server_ok_attach:
  assumes sv: "server_ok sv" and new: "avc_create True True al = Inr avc" "al 1"
    and run: "ss_register_avc self okn (sv\<lparr>sv_caches := sv_caches sv @ [Some avc]\<rparr>) classes (length (sv_caches sv)) = Some (rc, sv')"
  shows "server_ok sv'"
proof -
  let ?sv = "sv\<lparr>sv_caches := sv_caches sv @ [Some avc]\<rparr>" and ?i = "length (sv_caches sv)"
  note old = get_cache_append [where sv = sv and a = "Some avc"]
  have caches: "caches_ok (coherent (sv_ss sv)) sv" using sv by (simp add: server_ok_def)
  have ok1: "server_ok ?sv" using sv old by (fastforce simp: server_ok_def caches_ok_def)
  have get: "get_cache ?sv ?i = Some avc" by (simp add: get_cache_def item_def)
  have "clean (latest_granting (sv_ss sv)) (avc\<lparr>ac_count := ac_count avc + 1\<rparr>)" "active (avc\<lparr>ac_count := ac_count avc + 1\<rparr>) = []"
    using avc_create_spec [OF new(1)] new(2) by (simp_all add: clean_def)
  then have co: "coherent (sv_ss sv) (avc\<lparr>ac_count := ac_count avc + 1\<rparr>)" by (rule clean_coherent)
  show ?thesis
  proof (cases "self \<and> okn 0")
    case False
    then have "sv' = ?sv" using run by (auto simp: ss_register_avc_def split: if_splits)
    then show ?thesis using ok1 by simp
  next
    case True
    let ?sv1 = "put_cache ?i (Some (avc\<lparr>ac_count := ac_count avc + 1\<rparr>)) ?sv"
    obtain cl where sv': "sv' = ?sv1\<lparr>sv_avc_list := \<lparr>rg_avc = ?i, rg_classes = cl\<rparr> # sv_avc_list sv\<rparr>"
      using run True get by (auto simp: ss_register_avc_def avc_ss_addref_def avc_addref_def put_cache_def)
    have fresh: "rg_avc n \<noteq> ?i" if "n \<in> set (sv_avc_list sv)" for n using caches old that unfolding caches_ok_def by fastforce
    have "caches_ok (coherent (sv_ss sv)) ?sv" using ok1 by (simp add: server_ok_def)
    then have "caches_ok (coherent (sv_ss sv)) sv'"
      using fresh co get_put_cache [OF get, of "Some (avc\<lparr>ac_count := ac_count avc + 1\<rparr>)"] unfolding sv' by (fastforce simp: caches_ok_def)
    then show ?thesis using ok1 unfolding sv' by (simp add: server_ok_def)
  qed
qed

lemma unlink_spec:
  "unlink i l = Some l' \<Longrightarrow> distinct (map rg_avc l) \<Longrightarrow> distinct (map rg_avc l') \<and> (\<forall>n\<in>set l'. n \<in> set l \<and> rg_avc n \<noteq> i)"
proof (induction l arbitrary: l')
  case (Cons n l)
  show ?case
  proof (cases "rg_avc n = i")
    case True
    then have "l' = l" "rg_avc n \<notin> rg_avc ` set l" "distinct (map rg_avc l)" using Cons.prems by auto
    moreover from this have "rg_avc m \<noteq> i" if "m \<in> set l" for m using that True imageI [of m "set l" rg_avc] by metis
    ultimately show ?thesis by simp
  next
    case False
    then obtain m where "unlink i l = Some m" "l' = n # m" using Cons.prems(1) by auto
    then show ?thesis using Cons.IH [of m] Cons.prems(2) False by auto
  qed
qed simp

text \<open>References to the server.\<close>

lemma server_ok_count [simp]: "server_ok (sv\<lparr>sv_count := n\<rparr>) = server_ok sv"
  by (simp add: server_ok_def caches_ok_def get_cache_def)

lemma drop_server_live: "sv_count sv \<noteq> 1 \<Longrightarrow> drop_server (Suc d) sv = Some (sv_count sv - 1, sv\<lparr>sv_count := sv_count sv - 1\<rparr>)"
  by (simp add: Let_def)

lemma release_list_depth:
  "sv_count sv = 0 \<or> length l < unat (sv_count sv) \<Longrightarrow> length l < 2 ^ 32 - 1 \<Longrightarrow>
     release_list (drop_server (Suc d)) l sv = release_list (drop_server (Suc 0)) l sv"
proof (induction l arbitrary: sv)
  case (Cons n l)
  have "sv_count sv \<noteq> 1" using Cons.prems(1) by auto
  then have drop: "drop_server (Suc k) (put_cache i a sv) = Some (sv_count sv - 1, (put_cache i a sv)\<lparr>sv_count := sv_count sv - 1\<rparr>)" for k i a
    by (simp add: Let_def)
  have count: "sv_count sv' = sv_count sv \<or> sv_count sv' = sv_count sv - 1" if "release_cache (drop_server (Suc 0)) (rg_avc n) sv = Some sv'" for sv'
    using that by (auto simp: release_cache_def drop simp del: drop_server.simps split: bind_splits prod.splits sum.splits)
  have less: "sv_count sv' = 0 \<or> length l < unat (sv_count sv')" if "sv_count sv' = sv_count sv \<or> sv_count sv' = sv_count sv - 1" for sv'
  proof -
    have "length l < unat (sv_count sv - 1)"
    proof (cases "sv_count sv = 0")
      case True
      have "unat (- 1 :: u32) = 2 ^ 32 - 1" by (simp add: unsigned_minus_1_eq_mask mask_eq_exp_minus_1)
      then show ?thesis using Cons.prems(2) True by simp
    next
      case False
      then show ?thesis using Cons.prems(1) unat_minus_one [of "sv_count sv"] by simp
    qed
    then show ?thesis using that Cons.prems(1) by auto
  qed
  have "release_cache (drop_server (Suc d)) (rg_avc n) sv = release_cache (drop_server (Suc 0)) (rg_avc n) sv"
    unfolding release_cache_def drop by simp
  moreover have "release_list (drop_server (Suc d)) l sv' = release_list (drop_server (Suc 0)) l sv'"
    if "release_cache (drop_server (Suc 0)) (rg_avc n) sv = Some sv'" for sv'
    using Cons.IH [OF less [OF count [OF that]]] Cons.prems(2) by simp
  ultimately show ?case by (simp del: drop_server.simps cong: Option.bind_cong)
qed simp

lemma drop_server_depth:
  assumes "length (sv_avc_list sv) < 2 ^ 32 - 1"
  shows "drop_server (release_depth + d) sv = drop_server release_depth sv"
proof -
  have deep: "release_list (drop_server (Suc d)) (sv_avc_list sv) (sv\<lparr>sv_count := 0\<rparr>) = release_list (drop_server (Suc 0)) (sv_avc_list sv) (sv\<lparr>sv_count := 0\<rparr>)"
    by (rule release_list_depth) (use assms in simp_all)
  have unfold: "drop_server (Suc k) sv = (if sv_count sv = 1
      then release_list (drop_server k) (sv_avc_list sv) (sv\<lparr>sv_count := 0\<rparr>) \<bind> (\<lambda>sv. Some (0, sv))
      else Some (sv_count sv - 1, sv\<lparr>sv_count := sv_count sv - 1\<rparr>))" for k
    by (simp add: Let_def)
  have depth: "release_depth + d = Suc (Suc d)" "release_depth = Suc (Suc 0)" by (simp_all add: release_depth_def)
  show ?thesis unfolding depth(1) unfolding depth(2) unfold [of "Suc d"] unfold [of "Suc 0"] deep by (rule HOL.refl)
qed

lemma server_ok_detach:
  assumes sv: "server_ok sv" and run: "ss_unregister_avc self sv i = Some (rc, sv')" and live: "sv_count sv \<noteq> 1"
  shows "server_ok sv'"
proof (cases "self \<and> unlink i (sv_avc_list sv) \<noteq> None")
  case False
  then have "sv' = sv" using run by (auto simp: ss_unregister_avc_def split: if_splits)
  then show ?thesis using sv by simp
next
  case True
  then obtain l where l: "unlink i (sv_avc_list sv) = Some l" by blast
  have drop: "drop_server release_depth (put_cache i a (sv\<lparr>sv_avc_list := l\<rparr>)) =
      Some (sv_count sv - 1, (put_cache i a (sv\<lparr>sv_avc_list := l\<rparr>))\<lparr>sv_count := sv_count sv - 1\<rparr>)" for a
    using live drop_server_live [of "put_cache i a (sv\<lparr>sv_avc_list := l\<rparr>)" 1] by (simp add: release_depth_def numeral_2_eq_2)
  have run: "release_cache (drop_server release_depth) i (sv\<lparr>sv_avc_list := l\<rparr>) = Some sv'" using run True l by (simp add: ss_unregister_avc_def)
  obtain avc where avc: "get_cache sv i = Some avc"
    by (cases "get_cache sv i") (use run in \<open>simp_all add: release_cache_def\<close>)
  obtain k r where rel: "avc_ss_release avc = (k, r)" by fastforce
  have "\<exists>a n. sv' = put_cache i a ((sv\<lparr>sv_avc_list := l\<rparr>)\<lparr>sv_count := n\<rparr>)"
  proof (cases r)
    case (Inl freed)
    then have "sv' = put_cache i None ((sv\<lparr>sv_avc_list := l\<rparr>)\<lparr>sv_count := sv_count sv - 1\<rparr>)"
      using run avc rel by (simp add: release_cache_def drop) (simp add: put_cache_def)
    then show ?thesis by blast
  next
    case (Inr avc')
    then have "sv' = put_cache i (Some avc') ((sv\<lparr>sv_avc_list := l\<rparr>)\<lparr>sv_count := sv_count sv\<rparr>)"
      using run avc rel by (simp add: release_cache_def)
    then show ?thesis by blast
  qed
  then obtain a n where a: "sv' = put_cache i a ((sv\<lparr>sv_avc_list := l\<rparr>)\<lparr>sv_count := n\<rparr>)" by blast
  have d: "distinct (map rg_avc (sv_avc_list sv))" using sv by (simp add: server_ok_def caches_ok_def)
  have get: "get_cache ((sv\<lparr>sv_avc_list := l\<rparr>)\<lparr>sv_count := n\<rparr>) k = get_cache sv k" for k by (simp add: get_cache_def)
  have "get_cache sv' k = get_cache sv k" if "k \<noteq> i" for k
    using get_put_cache [of "(sv\<lparr>sv_avc_list := l\<rparr>)\<lparr>sv_count := n\<rparr>" i avc a k] avc that unfolding a get by simp
  then show ?thesis using sv unlink_spec [OF l d] unfolding a by (auto simp: server_ok_def caches_ok_def)
qed

lemma server_step_ok:
  assumes "server_step fl tbl sv sv'" "server_ok sv"
  shows "server_ok sv'"
proof -
  have service: "server_ok sv2" if "ss_step fl (sv_ss sv) st" "sv2 = sv\<lparr>sv_ss := st\<rparr>" for st sv2 using server_ok_service [OF assms(2)] that by simp
  have good: "serving (sv_ss sv)" using assms(2) by (simp add: server_ok_def)
  have sec: "sec_compute_av (server_ops fl alloc sv) = security_compute_av (sv_ss sv)" for alloc
    by (simp add: server_ops_def ss_compute_av_def fun_eq_iff)
  have cb: "coherent st (avc\<lparr>ac_callbacks := cs\<rparr>) = coherent st avc" for st avc cs
    by (simp add: cache_ok_def keyed_def avc_abs_def)
  from assms(1) show ?thesis
  proof (cases rule: server_step.cases)
    case (sv_attach al avc self okn classes rc)
    have "server_ok (snd (ss_addref True sv))" "sv_caches (snd (ss_addref True sv)) = sv_caches sv" using assms(2) by (simp_all add: ss_addref_def)
    then show ?thesis using server_ok_attach [of "snd (ss_addref True sv)"] sv_attach by metis
  next
    case (sv_release self r)
    then have "\<exists>n. sv' = sv\<lparr>sv_count := n\<rparr>"
      by (cases "sv_count sv = 1") (auto simp: ss_release_def release_depth_def numeral_2_eq_2 Let_def split: if_splits bind_splits intro: exI [of _ "sv_count sv"])
    then show ?thesis using assms(2) by auto
  next
    case (sv_detach self i rc)
    then show ?thesis using server_ok_detach [OF assms(2)] by blast
  next
    case (sv_check i avc alloc s t c r aeref rc aeref' avc')
    show ?thesis
      unfolding sv_check(1)
      by (rule server_ok_put [OF assms(2) sv_check(2)]) (rule dsv.check_cached(1) [OF good _ sec sv_check(4,5,3)])
  next
    case (sv_notify i avc alloc s t c r aeref nrc aeref' avc')
    show ?thesis
      unfolding sv_notify(1)
      by (rule server_ok_put [OF assms(2) sv_notify(2)]) (rule dsv.check_cached(2) [OF good _ sec sv_notify(4,5,3)])
  next
    case (sv_add_callback i avc block cb ev s t c p rc avc')
    then show ?thesis using server_ok_put [OF assms(2), of i avc avc'] cb by (auto simp: avc_add_callback_def split: option.splits)
  next
    case (sv_remove_callback i avc cb rc avc')
    then show ?thesis using server_ok_put [OF assms(2), of i avc avc'] cb by (auto simp: avc_remove_callback_def split: option.splits)
  next
    case (sv_load fr self invoke ok alloc scratch fp rc)
    then show ?thesis using server_ok_load [OF assms(2)] assms(2) by (auto simp: ss_load_policy_def split: if_splits)
  qed (use assms(2) in \<open>auto simp: ss_query_def ss_addref_def ss_transition_sid_def ss_member_sid_def ss_context_to_sid_def ss_fs_sid_def ss_port_sid_def ss_netif_sid_def ss_node_sid_def
      split: if_splits prod.splits intro: service ss_step.intros\<close>)
qed

lemma server_steps_ok: "server_steps fl tbl sv sv' \<Longrightarrow> server_ok sv \<Longrightarrow> server_ok sv'"
  by (induction rule: server_steps.induct) (auto intro: server_step_ok)

end
