(* ===== verification/Avc_Spec.thy ===== *)
theory Avc_Spec
  imports Avc_Step
begin

text \<open>
  The properties of the access vector cache (\<open>com/avc.c\<close>): its nodes are bounded and never lost, insertion is the
  update of a map with at most one eviction, revocation reaches exactly the entries concerned, and a callback is
  registered for a class that is never stored.
\<close>

section \<open>A cache for the witnesses\<close>

definition demo_avc :: avc_cache where
  "demo_avc = (case avc_create True True (\<lambda>_. True) of Inr avc \<Rightarrow> avc)"

definition demo_tables :: av_tables where
  "demo_tables = \<lparr>class_to_string = [''null'', ''file''], av_inherit = [], av_perm_to_string = [(1, 1, ''read'')]\<rparr>"

definition demo_entry :: avc_entry where
  "demo_entry = zero_entry\<lparr>ae_allowed := 7, ae_decided := 0xffffffff\<rparr>"

definition demo_block :: avc_callback_node where
  "demo_block = \<lparr>cb_callback = 0, cb_events = 0, cb_ssid = 0, cb_tsid = 0, cb_tclass = 0, cb_perms = 0\<rparr>"

lemma demo_avc_create: "avc_create True True (\<lambda>_. True) = Inr demo_avc"
  by (simp add: demo_avc_def avc_create_def Let_def split: prod.splits)

lemmas demo_avc_spec = avc_create_spec [OF demo_avc_create]

lemma demo_avc_empty: "keyed demo_avc" "avc_abs demo_avc k = None" "ac_freelist demo_avc \<noteq> []" "ac_nodes demo_avc \<noteq> []"
proof -
  show "keyed demo_avc" unfolding keyed_def demo_avc_spec(2) by simp
  show "avc_abs demo_avc k = None" unfolding avc_abs_None [OF demo_avc_spec(1)] demo_avc_spec(2) by simp
  show "ac_nodes demo_avc \<noteq> []" using demo_avc_spec(7) by simp
  then show "ac_freelist demo_avc \<noteq> []" using avc_ok_count(1) [OF demo_avc_spec(1)] unfolding demo_avc_spec(2) by auto
qed

section \<open>Adding a callback and searching commute\<close>

definition add_node :: "avc_callback_node \<Rightarrow> avc_cache \<Rightarrow> avc_cache" where
  "add_node n avc = avc\<lparr>ac_callbacks := n # ac_callbacks avc\<rparr>"

lemma add_node_simps [simp]:
  "ac_nodes (add_node n avc) = ac_nodes avc" "ac_slots (add_node n avc) = ac_slots avc"
  "set_node i e (add_node n avc) = add_node n (set_node i e avc)"
  "(add_node n avc)\<lparr>ac_nodes := ns\<rparr> = add_node n (avc\<lparr>ac_nodes := ns\<rparr>)"
  by (simp_all add: add_node_def set_node_def)

lemma search_node_add:
  "avc_search_node (add_node n avc) s t c = map_option (\<lambda>(r, a). (r, add_node n a)) (avc_search_node avc s t c)"
  by (auto simp: avc_search_node_def map_option_bind intro!: Option.bind_cong split: option.splits)

lemma update_cache_add:
  "avc_update_cache (add_node n avc) event s t c perms = map_option (add_node n) (avc_update_cache avc event s t c perms)"
  by (auto simp: avc_update_cache_def search_node_add option.map_comp comp_def map_option_bind Option.bind_map_option
    intro!: Option.bind_cong split: option.splits)

section \<open>Properties\<close>

text \<open>C37. Whatever operations run on a new cache, in whatever order: it never has more than
  \<open>AVC_CACHE_MAXNODES\<close> nodes and keeps those it allocated; the counter of active nodes is the number of nodes in the
  chains; every node is in exactly one chain or in the free list; and the next insertion returns when at least one node
  was allocated, with a node when the decision is not older than the last notification.\<close>

theorem avc_nodes_bounded:
  assumes "avc_create has_log has_mem al = Inr avc0" "avc_steps tbl avc0 avc"
  shows "length (ac_nodes avc) = length (ac_nodes avc0) \<and> length (ac_nodes avc) \<le> AVC_CACHE_MAXNODES \<and>
    unat (ac_activeNodes avc) = length (concat (ac_slots avc)) \<and>
    distinct (concat (ac_slots avc) @ ac_freelist avc) \<and> set (concat (ac_slots avc) @ ac_freelist avc) = {..<length (ac_nodes avc)} \<and>
    (al 1 \<longrightarrow> (\<exists>res avc'. avc_insert avc s t c ae seqno = Some (res, avc') \<and>
       (\<forall>new. res = Inr new \<longrightarrow> ae_key (ac_nodes avc' ! new) = (s, t, c)) \<and> (isl res \<longleftrightarrow> seqno < ac_latest_notif avc)))"
proof -
  note new = avc_create_spec [OF assms(1)]
  have k: "avc_ok avc" "length (ac_nodes avc) = length (ac_nodes avc0)" using avc_steps_keep [OF assms(2) new(1)] by (simp_all add: keeps_def)
  have "\<exists>res avc'. avc_insert avc s t c ae seqno = Some (res, avc') \<and>
      (\<forall>new. res = Inr new \<longrightarrow> ae_key (ac_nodes avc' ! new) = (s, t, c)) \<and> (isl res \<longleftrightarrow> seqno < ac_latest_notif avc)" if "al 1"
  proof (cases "seqno < ac_latest_notif avc")
    case False
    have ne: "ac_nodes avc \<noteq> []" using k(2) new(7) that by (metis length_0_conv)
    obtain i avc' where i: "avc_insert avc s t c ae seqno = Some (Inr i, avc')"
      "unmarked (ac_nodes avc' ! i) = keyed_entry (s, t, c) ae"
      by (rule avc_insert_spec [OF k(1) ne]) (use False in \<open>auto simp: not_less\<close>)
    have "ae_key (ac_nodes avc' ! i) = (s, t, c)" using arg_cong [OF i(2), of ae_key] by simp
    then show ?thesis using i(1) False by simp
  qed (simp add: avc_insert_def)
  moreover have "distinct (concat (ac_slots avc) @ ac_freelist avc)" "set (concat (ac_slots avc) @ ac_freelist avc) = {..<length (ac_nodes avc)}"
    using k(1) by (simp_all add: avc_part_def del: set_concat set_append distinct_append)
  ultimately show ?thesis using k(2) avc_ok_count(2,3) [OF k(1)] by blast
qed

theorem avc_nodes_bounded_witness:
  "\<exists>avc. avc_steps demo_tables demo_avc avc \<and> ac_count avc = 2 \<and> length (ac_nodes avc) \<le> AVC_CACHE_MAXNODES \<and>
     (\<exists>res avc'. avc_insert avc 1 2 3 zero_entry 0 = Some (res, avc') \<and> (isl res \<longleftrightarrow> 0 < ac_latest_notif avc))"
proof -
  let ?avc = "snd (avc_addref demo_avc)"
  have s: "avc_steps demo_tables demo_avc ?avc"
    by (rule avc_steps.step [OF avc_steps.refl avc_step.addref [of _ "fst (avc_addref demo_avc)"]]) simp
  moreover have "ac_count ?avc = 2" by (simp add: avc_addref_def demo_avc_spec(5))
  ultimately show ?thesis
    using avc_nodes_bounded [OF demo_avc_create s, of 1 2 3 zero_entry 0] by (intro exI [of _ ?avc]) auto
qed

text \<open>C38. An insertion after a miss is the update of a map: the new entry is added, all others stay, except
  that at most one is evicted when no node is free; an entry used since the last sweep is evicted only when all were.
  Lookup then finds the entry for the permissions it decides, and no others.\<close>

theorem avc_insert_correct:
  assumes "avc_ok avc" "keyed avc" "ac_nodes avc \<noteq> []" "ac_latest_notif avc \<le> seqno" "avc_abs avc (s, t, c) = None"
  shows "\<exists>new avc' D. avc_insert avc s t c ae seqno = Some (Inr new, avc') \<and> avc_ok avc' \<and> keyed avc' \<and>
    avc_abs avc' = ((avc_abs avc) |` (- D))((s, t, c) \<mapsto> keyed_entry (s, t, c) ae) \<and>
    finite D \<and> card D \<le> 1 \<and> (ac_freelist avc \<noteq> [] \<longrightarrow> D = {}) \<and>
    (\<forall>k\<in>D. (\<exists>i\<in>set (active avc). \<not> ae_used (ac_nodes avc ! i)) \<longrightarrow>
       (\<exists>j\<in>set (active avc). ae_key (ac_nodes avc ! j) = k \<and> \<not> ae_used (ac_nodes avc ! j))) \<and>
    (\<forall>r. \<exists>avc''. avc_lookup avc' s t c r = Some (if ae_decided ae AND r = r then Inr new else Inl ENOENT, avc''))"
proof -
  obtain new avc' D where ins: "avc_insert avc s t c ae seqno = Some (Inr new, avc')" "avc_ok avc'" "keyed avc'"
    and new: "new \<in> set (active avc')" "unmarked (ac_nodes avc' ! new) = keyed_entry (s, t, c) ae"
    and ab: "avc_abs avc' = ((avc_abs avc) |` (- D))((s, t, c) \<mapsto> keyed_entry (s, t, c) ae)"
    and D: "ac_freelist avc \<noteq> [] \<Longrightarrow> D = {}" "finite D" "card D \<le> 1"
    "\<And>k i. k \<in> D \<Longrightarrow> i \<in> set (active avc) \<Longrightarrow> \<not> ae_used (ac_nodes avc ! i) \<Longrightarrow>
      \<exists>j\<in>set (active avc). ae_key (ac_nodes avc ! j) = k \<and> \<not> ae_used (ac_nodes avc ! j)"
    by (rule avc_insert_abs [OF assms]) (rule that)
  have key: "ae_key (ac_nodes avc' ! new) = (s, t, c)" using arg_cong [OF new(2), of ae_key] by simp
  have dec: "ae_decided (keyed_entry (s, t, c) ae) = ae_decided ae" by (simp add: keyed_entry_def)
  have look: "\<exists>avc''. avc_lookup avc' s t c r = Some (if ae_decided ae AND r = r then Inr new else Inl ENOENT, avc'')" for r
  proof (rule avc_lookup_spec [OF ins(2), of s t c r])
    fix i avc'' assume h: "avc_lookup avc' s t c r = Some (Inr i, avc'')" "i \<in> set (active avc')"
      "avc_abs avc' (s, t, c) = Some (unmarked (ac_nodes avc' ! i))" "ae_decided (ac_nodes avc' ! i) AND r = r"
    have "ae_key (ac_nodes avc' ! i) = (s, t, c)" using avc_abs_key [OF ins(2) h(3)] by simp
    then have "i = new" using ins(3) key h(2) new(1) unfolding keyed_def by (metis (no_types, lifting) inj_onD)
    moreover have "ae_decided (ac_nodes avc' ! i) = ae_decided ae" using arg_cong [OF new(2), of ae_decided] dec calculation by simp
    ultimately show ?thesis using h(1,4) by simp
  next
    fix avc'' assume m: "avc_lookup avc' s t c r = Some (Inl ENOENT, avc'')"
      "\<And>e. avc_abs avc' (s, t, c) = Some e \<Longrightarrow> ae_decided e AND r \<noteq> r"
    have "ae_decided ae AND r \<noteq> r" using m(2) [of "keyed_entry (s, t, c) ae"] dec ab by simp
    then show ?thesis using m(1) by simp
  qed
  have "\<forall>k\<in>D. (\<exists>i\<in>set (active avc). \<not> ae_used (ac_nodes avc ! i)) \<longrightarrow>
       (\<exists>j\<in>set (active avc). ae_key (ac_nodes avc ! j) = k \<and> \<not> ae_used (ac_nodes avc ! j))" using D(4) by blast
  then show ?thesis using ins ab D(1-3) look by blast
qed

theorem avc_insert_correct_witness:
  "\<exists>new avc'. avc_insert demo_avc 1 2 3 demo_entry 0 = Some (Inr new, avc') \<and> avc_abs avc' = [(1, 2, 3) \<mapsto> keyed_entry (1, 2, 3) demo_entry] \<and>
     (\<exists>avc''. avc_lookup avc' 1 2 3 5 = Some (Inr new, avc''))"
proof -
  obtain new avc' D where ins: "avc_insert demo_avc 1 2 3 demo_entry 0 = Some (Inr new, avc')"
    "avc_abs avc' = ((avc_abs demo_avc) |` (- D))((1, 2, 3) \<mapsto> keyed_entry (1, 2, 3) demo_entry)"
    "\<forall>r. \<exists>avc''. avc_lookup avc' 1 2 3 r = Some (if ae_decided demo_entry AND r = r then Inr new else Inl ENOENT, avc'')"
    using avc_insert_correct [OF demo_avc_spec(1) demo_avc_empty(1,4) _ demo_avc_empty(2), of 0 1 2 3 demo_entry] demo_avc_spec(3) by auto
  have "(avc_abs demo_avc) |` (- D) = Map.empty" by (rule ext) (simp add: restrict_map_def demo_avc_empty(2))
  moreover have "\<exists>avc''. avc_lookup avc' 1 2 3 5 = Some (Inr new, avc'')" using ins(3) [rule_format, of 5] by (simp add: demo_entry_def)
  ultimately show ?thesis using ins(1,2) by auto
qed

text \<open>C39. A revocation takes the permissions from exactly the entries that the identifiers and the class of the
  event select, also when a callback fails; an attempt to revoke leaves those that a callback retains, and changes nothing
  when a callback fails.  The sequence number is recorded unless a callback fails.  The result is what the
  callbacks answer that the event concerns, called in order with the permissions they were registered for: the error of
  the first that fails, or the union of what they retain when none fails.\<close>

theorem avc_revoke_correct:
  assumes "avc_ok avc" "keyed avc"
  shows "(\<exists>res avc'. avc_ss_revoke invoke avc s t c perms seqno = Some (res, avc') \<and> avc_ok avc' \<and> keyed avc' \<and>
      outcome (answers invoke CALLBACK_REVOKE s t c perms 0 (ac_callbacks avc)) res \<and>
      ac_latest_notif avc' = (if isl res then ac_latest_notif avc else max seqno (ac_latest_notif avc)) \<and>
      (\<forall>k. avc_abs avc' k = map_option (\<lambda>e. if event_hits s t c e then e\<lparr>ae_allowed := ae_allowed e AND NOT perms\<rparr> else e) (avc_abs avc k))) \<and>
    (\<exists>res avc'. avc_ss_try_revoke invoke avc s t c perms seqno = Some (res, avc') \<and> avc_ok avc' \<and> keyed avc' \<and>
      outcome (answers invoke CALLBACK_TRY_REVOKE s t c perms 0 (ac_callbacks avc)) res \<and>
      (case res of
         Inl e \<Rightarrow> ac_latest_notif avc' = ac_latest_notif avc \<and> avc_abs avc' = avc_abs avc
       | Inr retained \<Rightarrow> ac_latest_notif avc' = max seqno (ac_latest_notif avc) \<and>
           (\<forall>k. avc_abs avc' k = map_option (\<lambda>e. if event_hits s t c e then e\<lparr>ae_allowed := ae_allowed e AND NOT (perms AND NOT retained)\<rparr> else e)
              (avc_abs avc k))))"
proof -
  have ev: "apply_event CALLBACK_REVOKE s t c p = (\<lambda>e. if event_hits s t c e then e\<lparr>ae_allowed := ae_allowed e AND NOT p\<rparr> else e)"
    "apply_event CALLBACK_TRY_REVOKE s t c p = (\<lambda>e. if event_hits s t c e then e\<lparr>ae_allowed := ae_allowed e AND NOT p\<rparr> else e)" for p
    by (auto simp: apply_event_def avc_update_node_def callback_events fun_eq_iff)
  have ne: "(CALLBACK_REVOKE = CALLBACK_TRY_REVOKE) = False" by (simp add: callback_events)
  show ?thesis
  proof (intro conjI)
    obtain res avc' where r: "avc_control invoke avc CALLBACK_REVOKE s t c perms seqno = Some (res, avc')" "avc_ok avc'" "keyed avc'"
      and post: "case res of
         Inl e \<Rightarrow> ac_latest_notif avc' = ac_latest_notif avc \<and>
           (\<forall>k. avc_abs avc' k = map_option (apply_event CALLBACK_REVOKE s t c perms) (avc_abs avc k))
       | Inr retained \<Rightarrow> ac_latest_notif avc' = max seqno (ac_latest_notif avc) \<and>
           (\<forall>k. avc_abs avc' k = map_option (apply_event CALLBACK_REVOKE s t c perms) (avc_abs avc k))"
      and out: "outcome (answers invoke CALLBACK_REVOKE s t c perms 0 (ac_callbacks avc)) res"
      by (rule avc_control_spec [OF assms, of invoke CALLBACK_REVOKE s t c perms seqno, unfolded ne if_False]) (rule that)
    have "ac_latest_notif avc' = (if isl res then ac_latest_notif avc else max seqno (ac_latest_notif avc))"
      "\<forall>k. avc_abs avc' k = map_option (apply_event CALLBACK_REVOKE s t c perms) (avc_abs avc k)"
      using post by (cases res; simp)+
    then show "\<exists>res avc'. avc_ss_revoke invoke avc s t c perms seqno = Some (res, avc') \<and> avc_ok avc' \<and> keyed avc' \<and>
      outcome (answers invoke CALLBACK_REVOKE s t c perms 0 (ac_callbacks avc)) res \<and>
      ac_latest_notif avc' = (if isl res then ac_latest_notif avc else max seqno (ac_latest_notif avc)) \<and>
      (\<forall>k. avc_abs avc' k = map_option (\<lambda>e. if event_hits s t c e then e\<lparr>ae_allowed := ae_allowed e AND NOT perms\<rparr> else e) (avc_abs avc k))"
      using r out unfolding avc_ss_revoke_def ev by blast
  next
    obtain res avc' where r: "avc_control invoke avc CALLBACK_TRY_REVOKE s t c perms seqno = Some (res, avc')" "avc_ok avc'" "keyed avc'"
      and post: "case res of
         Inl e \<Rightarrow> ac_latest_notif avc' = ac_latest_notif avc \<and> (\<forall>k. avc_abs avc' k = avc_abs avc k)
       | Inr retained \<Rightarrow> ac_latest_notif avc' = max seqno (ac_latest_notif avc) \<and>
           (\<forall>k. avc_abs avc' k = map_option (apply_event CALLBACK_TRY_REVOKE s t c (perms AND NOT retained)) (avc_abs avc k))"
      and "outcome (answers invoke CALLBACK_TRY_REVOKE s t c perms 0 (ac_callbacks avc)) res"
      by (rule avc_control_spec [OF assms, of invoke CALLBACK_TRY_REVOKE s t c perms seqno, unfolded simp_thms(6) if_True]) (rule that)
    then show "\<exists>res avc'. avc_ss_try_revoke invoke avc s t c perms seqno = Some (res, avc') \<and> avc_ok avc' \<and> keyed avc' \<and>
      outcome (answers invoke CALLBACK_TRY_REVOKE s t c perms 0 (ac_callbacks avc)) res \<and>
      (case res of
         Inl e \<Rightarrow> ac_latest_notif avc' = ac_latest_notif avc \<and> avc_abs avc' = avc_abs avc
       | Inr retained \<Rightarrow> ac_latest_notif avc' = max seqno (ac_latest_notif avc) \<and>
           (\<forall>k. avc_abs avc' k = map_option (\<lambda>e. if event_hits s t c e then e\<lparr>ae_allowed := ae_allowed e AND NOT (perms AND NOT retained)\<rparr> else e)
              (avc_abs avc k)))"
      unfolding avc_ss_try_revoke_def ev fun_eq_iff [symmetric] by blast
  qed
qed

theorem avc_revoke_correct_witness:
  "\<exists>avc res avc' e. avc_abs avc (1, 2, 3) = Some (keyed_entry (1, 2, 3) demo_entry) \<and>
     avc_ss_revoke (\<lambda>_ _ _ _ _ _ _. (None, 0)) avc SECSID_WILD 2 3 4 9 = Some (res, avc') \<and>
     avc_abs avc' (1, 2, 3) = Some e \<and> ae_allowed e = 3"
proof -
  obtain new avc D where ins: "avc_insert demo_avc 1 2 3 demo_entry 0 = Some (Inr new, avc)" "avc_ok avc" "keyed avc"
    and ab: "avc_abs avc = ((avc_abs demo_avc) |` (- D))((1, 2, 3) \<mapsto> keyed_entry (1, 2, 3) demo_entry)"
    by (rule avc_insert_abs [OF demo_avc_spec(1) demo_avc_empty(1,4) _ demo_avc_empty(2), of 0 1 2 3 demo_entry])
      (use demo_avc_spec(3) in \<open>auto intro: that\<close>)
  let ?e = "keyed_entry (1, 2, 3) demo_entry"
  have e: "avc_abs avc (1, 2, 3) = Some ?e" by (simp add: ab)
  have h: "event_hits SECSID_WILD 2 3 ?e" by (simp add: event_hits_def keyed_entry_def AVC_SIDCMP_def)
  have a: "ae_allowed ?e AND NOT 4 = 3" by (simp add: keyed_entry_def demo_entry_def)
  show ?thesis
    using avc_revoke_correct [OF ins(2,3), of "\<lambda>_ _ _ _ _ _ _. (None, 0)" SECSID_WILD 2 3 4 9] e h a by fastforce
qed

text \<open>C40. The class for which a callback is added is not stored: unless the memory of the new node
  happens to hold the class, every event of that class runs as if the callback had not been added.\<close>

theorem callback_class_uninitialised:
  assumes "cb_tclass node \<noteq> c"
  shows "avc_control invoke (snd (avc_add_callback (Some node) avc cb events s0 t0 c p)) event s t c perms seqno =
    map_option (\<lambda>(res, avc'). (res, snd (avc_add_callback (Some node) avc' cb events s0 t0 c p)))
      (avc_control invoke avc event s t c perms seqno)"
proof -
  let ?n = "node\<lparr>cb_callback := cb, cb_events := events, cb_ssid := s0, cb_tsid := t0, cb_perms := p\<rparr>"
  have add: "snd (avc_add_callback (Some node) a cb events s0 t0 c p) = add_node ?n a" for a by (simp add: avc_add_callback_def add_node_def)
  have cs: "ac_callbacks (add_node ?n a) = ?n # ac_callbacks a" for a by (simp add: add_node_def)
  have n: "notified seqno (add_node ?n a) = add_node ?n (notified seqno a)" for a by (simp add: notified_def add_node_def)
  show ?thesis
    unfolding avc_control_def add using assms
    by (cases "event = CALLBACK_TRY_REVOKE")
      (auto simp: update_cache_add cs n option.map_comp comp_def Option.bind_map_option map_option_bind split: sum.splits option.splits
        intro!: Option.bind_cong)
qed

theorem callback_class_uninitialised_witness:
  "avc_control (\<lambda>_ _ _ _ _ _ _. (Some EACCES, 0)) (snd (avc_add_callback (Some demo_block) demo_avc 7 CALLBACK_REVOKE 1 2 3 1)) CALLBACK_REVOKE 1 2 3 1 0 =
     map_option (\<lambda>(res, avc'). (res, snd (avc_add_callback (Some demo_block) avc' 7 CALLBACK_REVOKE 1 2 3 1)))
       (avc_control (\<lambda>_ _ _ _ _ _ _. (Some EACCES, 0)) demo_avc CALLBACK_REVOKE 1 2 3 1 0)"
  by (rule callback_class_uninitialised) (simp add: demo_block_def)

end
