(* ===== verification/Server_Spec.thy ===== *)
theory Server_Spec
  imports Server_Step Avc_Spec Policyfile_Spec
begin

text \<open>
  The property of the whole access control: a permission check through any registered cache gives the decision of the
  security server under the policy that is loaded at that time.
\<close>

section \<open>Audit records of the server\<close>

text \<open>The context of an identifier can be printed when the block for its string has a spare byte.\<close>

lemma sid_printable:
  assumes sv: "serving (sv_ss sv)" and named: "policy_named (ss_policydb (sv_ss sv))"
    and types: "\<forall>x\<in>ran (sidtab_abs (ss_sidtab (sv_ss sv))). 0 < c_type x \<and> c_type x \<le> sym_nprim (p_types (ss_policydb (sv_ss sv)))"
    and alloc: "\<And>k. \<exists>b. alloc k = Some b \<and> k < length b"
  shows "printable (ss_sid_to_context True fl alloc sv sid)"
proof -
  let ?st = "sv_ss sv" and ?p = "ss_policydb (sv_ss sv)"
  have ok: "ss_ok ?st" "ss_initialized ?st" using sv by (simp_all add: serving_def)
  show ?thesis
  proof (cases "sidtab_abs (ss_sidtab ?st) sid")
    case None
    then show ?thesis
      using ok(2) by (simp add: ss_sid_to_context_def security_sid_to_context_def unlocked_security_sid_to_context_def sidtab_walk(2))
  next
    case (Some x)
    have v: "policydb_context_isvalid ?p x = Some True" "range_ok (c_range x)"
      using ss_ok_ctx [OF ok(1), of sid x] Some by (auto simp: sidtab_walk(2) ctx_ok_def)
    have "0 < c_type x" "c_type x \<le> sym_nprim (p_types ?p)" using types Some by (auto simp: ran_def)
    then obtain u r t ns0 ns1 where n: "context_names ?p x u r t ns0 ns1" using context_names_ex [OF named v] by blast
    let ?t = "context_text x u r t ns0 ns1"
    obtain b where b: "alloc (length ?t + 1) = Some b" "length ?t + 1 < length b" using alloc by blast
    then have "length ?t + 1 + (if lo (c_range x) = hi (c_range x) then 0 else 1) \<le> length b" by simp
    with context_struct_to_string_at(1) [OF n, of alloc b] b(1)
    obtain junk where "context_struct_to_string alloc ?p x = Some (Inr (?t @ CHR 0x00 # junk, length ?t + 1))" by blast
    then show ?thesis
      using ok(2) Some by (simp add: ss_sid_to_context_def security_sid_to_context_def unlocked_security_sid_to_context_def sidtab_walk(2))
  qed
qed

section \<open>A server for the witness\<close>

definition demo_server :: server where
  "demo_server = \<lparr>sv_count = 1, sv_avc_list = [], sv_ss = file_ss, sv_caches = []\<rparr>"

lemma demo_server_ok: "server_ok demo_server"
  using file_ss_ok normal_classes_ok [OF file_policy_normal]
  by (simp add: server_ok_def demo_server_def serving_def caches_ok_def)

lemma same_classes_ok:
  assumes "policydb_same p p'"
  shows "classes_ok p'"
proof -
  have s: "sym_same class_same (p_classes p) (p_classes p')" using assms by (simp add: policydb_same_def symtabs_same_def)
  have "table_ok (cl_permissions d') \<and> (\<forall>c. comdatum d' = Some c \<longrightarrow> table_ok (cd_permissions c))" if d: "sym_abs (p_classes p') k = Some d'" for k d'
  proof -
    obtain d where "class_same d d'" using sym_same_abs(1) [OF s, of k] d by (auto simp: option_rel_Some2)
    then show ?thesis by (auto simp: class_same_def common_same_def table_same_def table_ok_def option_rel_Some2)
  qed
  then show ?thesis using sym_same_abs(3) [OF s] by (auto simp: classes_ok_def table_ok_def)
qed

lemma same_policy_named:
  assumes "policydb_same p p'"
  shows "policy_named p' = policy_named p"
proof -
  have n: "sym_nprim (p_users p') = sym_nprim (p_users p)" "sym_nprim (p_roles p') = sym_nprim (p_roles p)" "sym_nprim (p_types p') = sym_nprim (p_types p)"
    "sym_nprim (p_levels p') = sym_nprim (p_levels p)" "sym_nprim (p_cats p') = sym_nprim (p_cats p)"
    using assms by (simp_all add: policydb_same_def symtabs_same_def sym_same_def)
  have a: "p_user_val_to_name p' = p_user_val_to_name p" "p_role_val_to_name p' = p_role_val_to_name p" "p_type_val_to_name p' = p_type_val_to_name p"
    "p_sens_val_to_name p' = p_sens_val_to_name p" "p_cat_val_to_name p' = p_cat_val_to_name p"
    using assms by (simp_all add: policydb_same_def arrays_same_def)
  show ?thesis unfolding policy_named_def mls_named_def named_def n a same_search [OF assms] by simp
qed

lemma file_decides:
  assumes "policydb_same file_policy (ss_policydb st)" "sidtab_abs (ss_sidtab st) = [1 \<mapsto> demo_context]" "ss_initialized st"
  shows "\<exists>d. security_compute_av st 1 1 1 r = Some (Inr d)"
proof -
  have "constraints file_class = [\<lparr>cn_permissions = 4, cn_expr = Expr CONSTRAINT_EXPR_TYPE_SAMEUSER 0 ebitmap_init None None 1\<rparr>]"
    by (simp add: file_class_def demo_class_def)
  then have "\<exists>av. apply_constraints file_policy demo_context demo_context (constraints file_class) x = Some av" for x
    by (simp add: CONSTRAINT_EXPR_TYPE_SAMEUSER_def CONSTRAINT_EXPR_TYPE_NOT_def CONSTRAINT_EXPR_TYPE_AND_def CONSTRAINT_EXPR_TYPE_OR_def)
  then obtain f where f: "apply_constraints file_policy demo_context demo_context (constraints file_class) x = Some (f x)" for x by metis
  have "\<exists>d. security_compute_av (st\<lparr>ss_policydb := file_policy\<rparr>) 1 1 1 r = Some (Inr d)"
    using assms(2,3) f
    by (auto simp: security_compute_av_def unlocked_security_compute_av_def sidtab_walk(2) demo_tab_search Let_def split: option.splits)
  then show ?thesis using policydb_same_decision [OF assms(1), of st 1 1 1 r] by simp
qed

text \<open>A cache is attached, then the policy is loaded again.\<close>

lemma demo_run:
  obtains sv n avc where "server_steps demo_flask demo_tables demo_server sv" "n \<in> set (sv_avc_list sv)" "get_cache sv (rg_avc n) = Some avc"
    "policydb_same file_policy (ss_policydb (sv_ss sv))" "sidtab_abs (ss_sidtab (sv_ss sv)) = [1 \<mapsto> demo_context]"
proof -
  let ?sv = "(snd (ss_addref True demo_server))\<lparr>sv_caches := [Some demo_avc]\<rparr>"
  obtain sv1 n where reg: "ss_register_avc True (\<lambda>_. True) ?sv [1] 0 = Some (None, sv1)" "sv_ss sv1 = file_ss" "sv_avc_list sv1 = [n]"
    by (simp add: ss_register_avc_def get_cache_def item_def demo_server_def ss_addref_def put_cache_def)
  have "server_step demo_flask demo_tables demo_server sv1"
    by (rule server_step.sv_attach [OF demo_avc_create, where self = True and okn = "\<lambda>_. True" and classes = "[1]" and rc = None])
      (use reg(1) in \<open>simp_all add: demo_server_def\<close>)
  then have steps: "server_steps demo_flask demo_tables demo_server sv1" by (blast intro: server_steps.intros)
  have ok1: "server_ok sv1" by (rule server_steps_ok [OF steps demo_server_ok])
  obtain out where out: "policydb_write (\<lambda>_. True) file_policy = Some out" by (rule file_written)
  obtain st where st: "load_policy (\<lambda>_. True) big_block (replicate 32 0) file_ss out = Some (None, st)"
    "policydb_same file_policy (ss_policydb st)" "policydb_indexed (ss_policydb st)" "sidtab_abs (ss_sidtab st) = [1 \<mapsto> demo_context]"
    by (rule file_loaded [OF out])
  obtain sv where sv: "security_load_policy Items (\<lambda>_ _ _ _ _ _ _ _. (None, 0)) (\<lambda>_. True) big_block (replicate 32 0) sv1 out = Some (None, sv)"
    "sv_ss sv = st" "sv_avc_list sv = [n]"
    by (rule load_policy_resets [OF ok1]) (use st(1) reg(2,3) in auto)
  have "policy_sound (ss_policydb st)"
    using same_cats_ok [OF st(2)] same_ocon_ok [OF st(2) file_policy_normal] same_classes_ok [OF st(2)] file_ss_ok
    by (simp add: policy_sound_def ss_ok_def)
  then have "server_step demo_flask demo_tables sv1 sv"
    by (intro server_step.sv_load [where self = True, unfolded ss_load_policy_def not_True_eq_False if_False, OF sv(1)]) (simp_all add: sv(2) reg(2))
  then have run: "server_steps demo_flask demo_tables demo_server sv" using steps by (blast intro: server_steps.intros)
  have "server_ok sv" by (rule server_steps_ok [OF run demo_server_ok])
  then obtain avc where "get_cache sv (rg_avc n) = Some avc" using sv(3) by (auto simp: server_ok_def caches_ok_def)
  then show ?thesis using that [OF run] st sv(2,3) by simp
qed

section \<open>The properties\<close>

text \<open>C1. Whatever services, registrations, permission checks and policy loads ran on a server that serves a policy with
  coherent caches, in whatever order: a permission check through any registered cache, with or without a reference to a
  node that may have been reclaimed since, gives what the security server decides under the policy loaded now, whenever the
  check returns.  It returns exactly when the server does, if the class has its names in the tables of the
  audit records and the contexts of the two identifiers can be printed.  The sequence number has not wrapped, each loaded
  policy had category values in range, valid object contexts and valid class tables, and a permission is requested with a
  reference.  A load is one with either \<open>fread\<close>.\<close>

theorem has_perm_current:
  assumes "server_ok sv0" "server_steps fl tbl sv0 sv" "n \<in> set (sv_avc_list sv)" "get_cache sv (rg_avc n) = Some avc"
    "case aeref of None \<Rightarrow> True | Some i \<Rightarrow> i < length (ac_nodes avc) \<and> r \<noteq> 0"
  shows "(\<forall>rc aeref' avc'. avc_has_perm_ref (server_ops fl alloc sv) tbl avc s t c r aeref = Some (rc, aeref', avc') \<longrightarrow>
      (\<exists>x. security_compute_av (sv_ss sv) s t c r = Some x \<and> rc = granted r x)) \<and>
    (tables_ok tbl c \<and> printable (ss_sid_to_context True fl alloc sv s) \<and> printable (ss_sid_to_context True fl alloc sv t) \<longrightarrow>
      map_option fst (avc_has_perm_ref (server_ops fl alloc sv) tbl avc s t c r aeref) =
        map_option (granted r) (security_compute_av (sv_ss sv) s t c r))"
proof -
  have ok: "server_ok sv" by (rule server_steps_ok [OF assms(2,1)])
  then have good: "serving (sv_ss sv)" and co: "coherent (sv_ss sv) avc"
    using assms(3,4) by (fastforce simp: server_ok_def caches_ok_def)+
  have sec: "sec_compute_av (server_ops fl alloc sv) = security_compute_av (sv_ss sv)"
    "sec_sid_to_context (server_ops fl alloc sv) = ss_sid_to_context True fl alloc sv" by (simp_all add: server_ops_def ss_compute_av_def fun_eq_iff)
  have ref: "i < length (ac_nodes avc)" if "aeref = Some i" for i using assms(5) that by simp
  have req: "aeref = None \<or> r \<noteq> 0" using assms(5) by (cases aeref) auto
  have "map_option fst (avc_has_perm_ref (server_ops fl alloc sv) tbl avc s t c r aeref) = map_option (granted r) (security_compute_av (sv_ss sv) s t c r)"
    if "log_ok (server_ops fl alloc sv) tbl s t c"
    using dsv.check_answered [OF good co sec(1) that ref req] by (cases "security_compute_av (sv_ss sv) s t c r") auto
  then show ?thesis using dsv.check_result [OF good co sec(1) ref req] by (simp add: log_ok_def sec(2))
qed

theorem has_perm_current_witness:
  "\<exists>sv n avc. server_steps demo_flask demo_tables demo_server sv \<and> n \<in> set (sv_avc_list sv) \<and> get_cache sv (rg_avc n) = Some avc \<and>
     (\<exists>d. security_compute_av (sv_ss sv) 1 1 1 1 = Some (Inr d) \<and>
       map_option fst (avc_has_perm_ref (server_ops demo_flask big_block sv) demo_tables avc 1 1 1 1 None) = Some (granted 1 (Inr d)))"
proof -
  obtain sv n avc where run: "server_steps demo_flask demo_tables demo_server sv" "n \<in> set (sv_avc_list sv)" "get_cache sv (rg_avc n) = Some avc"
    and same: "policydb_same file_policy (ss_policydb (sv_ss sv))" and sids: "sidtab_abs (ss_sidtab (sv_ss sv)) = [1 \<mapsto> demo_context]"
    by (rule demo_run)
  have ok: "serving (sv_ss sv)" using server_steps_ok [OF run(1) demo_server_ok] by (simp add: server_ok_def)
  have "policy_named (ss_policydb (sv_ss sv))" using same_policy_named [OF same] file_policy_named by simp
  moreover have "sym_nprim (p_types (ss_policydb (sv_ss sv))) = sym_nprim (p_types file_policy)"
    using same by (simp add: policydb_same_def symtabs_same_def sym_same_def)
  ultimately have "printable (ss_sid_to_context True demo_flask big_block sv 1)"
    using file_types demo_sidtab_ok by (intro sid_printable [OF ok _ _ big_block_room]) (simp_all add: sids)
  moreover have "tables_ok demo_tables 1" by (simp add: tables_ok_def demo_tables_def)
  ultimately have "map_option fst (avc_has_perm_ref (server_ops demo_flask big_block sv) demo_tables avc 1 1 1 1 None) =
      map_option (granted 1) (security_compute_av (sv_ss sv) 1 1 1 1)"
    using has_perm_current [OF demo_server_ok run, where aeref = None and r = 1 and alloc = big_block and s = 1 and t = 1 and c = 1] by simp
  moreover have "ss_initialized (sv_ss sv)" using ok by (simp add: serving_def)
  ultimately show ?thesis using run file_decides [OF same sids] by fastforce
qed

text \<open>C36. Built with the \<open>fread\<close> of \<open>global.h\<close>, as the library is, the server never loads a policy: from every file
  (whose reads are short only at its end), with whatever was in the read buffer, \<open>security_init\<close> returns
  \<open>EINVAL\<close> and leaves the server uninitialised if it was, and a later load returns \<open>EINVAL\<close> and changes nothing.  For
  the reader takes the result of \<open>fread\<close> as a number of items and this one returns the number of bytes.\<close>

theorem server_never_loads:
  "(\<exists>sv'. security_init (Bytes buf) has_log has_mem ok scratch sv fp = Some (Some EINVAL, sv') \<and>
      ss_initialized (sv_ss sv') = ss_initialized (sv_ss sv)) \<and>
    ss_load_policy (Bytes buf) self invoke ok alloc scratch sv fp = Some (Some EINVAL, sv)"
  by (simp add: security_init_def ss_load_policy_def load_policy_bytes)

end
