(* ===== verification/Spec2Isabelle.thy ===== *)
theory Spec2Isabelle
  imports LMM_Spec Amm_Spec Services_Spec Policyfile_Spec Server_Spec
begin

text \<open>
  A verification library for the OSKit, the Flux Operating System Toolkit.  The OSKit is a collection of
  separate libraries for building kernels.  The development models its two memory managers and its whole Flask access
  control: the security server with everything below it, and the access vector cache in front of it.

  \<^bold>\<open>How the code is modelled.\<close>  C functions become HOL functions on explicit state with the names of the source.  The
  targets have 32 bits: integers are words of their width, and overflow is that of the machine.  \<open>None\<close> is undefined
  behaviour, a panic or a failed assertion; error codes are values of \<open>errno\<close> in theory \<open>Cstd\<close>.  Where the code
  allocates, an argument says which allocations succeed (\<open>mallocs\<close> for calls in sequence, \<open>allocs\<close> for calls in a tree
  of functions), so that every out-of-memory branch is part of the model.  Linked structures are lists where only the
  sequence matters, and a heap with pointers where aliasing does (\<open>Amm\<close>).  Streams are lists of bytes.

  \<^bold>\<open>Foundations.\<close>
  \<^item> \<open>Prelude\<close>: machine types, alignment, words and intervals.
  \<^item> \<open>Cstd\<close>: what the code uses of the C library (\<open>fread\<close>, \<open>fwrite\<close>, strings, \<open>malloc\<close>).
  \<^item> \<open>Buckets\<close>: chained hashing, with the interfaces \<open>hashing\<close> and \<open>insert_table\<close> that the tables below instantiate.

  \<^bold>\<open>List Memory Manager\<close> (\<open>src/lmm/*.c\<close>, \<open>oskit/lmm.h\<close>).  \<open>LMM\<close> translates every function: regions sorted by priority,
  free blocks sorted by address, the two allocators and their variants, release, and the search and removal of ranges.
  \<open>LMM_Inv\<close> has the invariant and the set of free byte addresses; \<open>LMM_Alloc\<close>, \<open>LMM_AllocGen\<close>, \<open>LMM_Free\<close>,
  \<open>LMM_Pool\<close> and \<open>LMM_Remove\<close> prove each operation against this set.  \<open>LMM_Client\<close> states what clients rely on as
  locales \<open>allocator\<close> and \<open>exact_allocator\<close>, interpreted on the pool.  \<open>LMM_Spec\<close>: blocks handed out never overlap, nothing is
  lost, allocation succeeds exactly when it can, removal of a range terminates, and the two known ways to go wrong.  Requests are those for which the
  sums that \<open>lmm_alloc_gen\<close> computes do not exceed 2^32; the case in which they wrap is a property of its own.

  \<^bold>\<open>Address Map Manager\<close> (\<open>src/amm/*.c\<close>, \<open>oskit/amm.h\<close>).  \<open>Amm\<close> translates every function over a heap of entries; the client's
  allocation and release of entries are parameters.  \<open>Amm_Heap\<close> and \<open>Amm_Map\<close> relate the heap to a list of spans and to
  the flags of each address, \<open>Amm_Modify\<close>, \<open>Amm_Ops\<close>, \<open>Amm_Find\<close>, \<open>Amm_Range\<close> (with the locale \<open>range_loop\<close> for the two loops over a
  range), \<open>Amm_Life\<close> and \<open>Amm_Arena\<close> prove the operations.  \<open>Amm_Spec\<close>: \<open>amm_modify\<close> changes the flags of exactly the range, the
  search is first fit, and sequences of allocations and releases keep the map sound until a request that does not fit runs over the
  end of the addresses.  The client's functions on entries touch only the header of a freed entry (\<open>header_only\<close>), as those over the list memory manager do.

  \<^bold>\<open>Data structures of the security server\<close> (\<open>src/security\<close>).
  \<^item> \<open>Ebitmap\<close>, \<open>Ebitmap_Set\<close>, \<open>Ebitmap_Spec\<close> (\<open>ebitmap.[ch]\<close>): bitmaps as sets, the interface \<open>bitset\<close>, the binary form.
  \<^item> \<open>Hashtab\<close>, \<open>Hashtab_Map\<close>, \<open>Hashtab_Spec\<close> (\<open>hashtab.[ch]\<close>, \<open>symtab.[ch]\<close>): tables as finite maps.
  \<^item> \<open>Avtab\<close>, \<open>Avtab_Spec\<close> (\<open>avtab.[ch]\<close>): the access vector table as a finite map, and its binary form.
  \<^item> \<open>Context\<close>, \<open>Sidtab\<close> (\<open>context.[ch]\<close>, \<open>mls_types.h\<close>, \<open>sidtab.[ch]\<close>): contexts and the table of identifiers.
  \<^item> \<open>Mls\<close>, \<open>Mls_Lattice\<close>, \<open>Mls_String\<close> (\<open>mls.[ch]\<close>): the multi-level policy, the order of levels and ranges as strings.

  \<^bold>\<open>Policy database\<close> (\<open>policydb.[ch]\<close>, \<open>constraint.h\<close>).  \<open>Policydb\<close> has the data and the index arrays, \<open>Policydb_Read\<close> and
  \<open>Policydb_Write\<close> the binary form and the release of memory.  \<open>Policydb_Codec\<close>, \<open>Policydb_Symbols\<close> (locale
  \<open>symbol_codec\<close>, interpreted for the eight kinds of symbol), \<open>Policydb_Index\<close>, \<open>Policydb_Roundtrip\<close> and
  \<open>Policydb_Total\<close> prove that a policy is written and read back.  The code is compiled with one of two functions \<open>fread\<close>: that of the
  C library, which counts items and which the readers model, and, in the library with the server, that of \<open>global.h\<close>, which counts bytes
  (\<open>policydb_read_bytes\<close>).  The operations that read a file in \<open>Server\<close> take the kind as an argument (\<open>fread_kind\<close>).

  \<^bold>\<open>Services\<close> (\<open>services.[ch]\<close>).  \<open>Services\<close> translates the decisions and the services on identifiers, \<open>Services_Load\<close>
  the replacement of the policy.  \<open>Services_Inv\<close> and \<open>Services_Step\<close> have the invariant \<open>ss_ok\<close> and the transition
  system of the services; \<open>Services_Convert\<close>, \<open>Services_Separate\<close> and \<open>Services_Defined\<close> say what loading does to
  each identifier and when it is defined.  \<open>Services_Spec\<close> and \<open>Policyfile_Spec\<close> (with \<open>Policyfile_Load\<close> and the example
  policies of \<open>Services_Demo\<close> and \<open>Policyfile_Demo\<close>): the decision bit by bit, contexts through strings, stability of identifiers, policies
  through files, and the defects found on the way.

  \<^bold>\<open>Access vector cache\<close> (\<open>src/com/avc.c\<close>, \<open>oskit/flask/avc.h\<close>).  \<open>Avc\<close> has the data, creation and logging, \<open>Avc_Ops\<close> all
  other operations, up to the inline permission checks.  \<open>Avc_Inv\<close> (chains and free list partition the nodes, and
  reclaiming ends), \<open>Avc_Map\<close> and \<open>Avc_Event\<close> (the cache as a map and what lookup, insertion, events and reset do to it), \<open>Avc_Step\<close> (the
  invariant through every sequence of operations).  \<open>Avc_Check\<close> has the locale \<open>decision_server\<close>, the contract under which a
  check through the cache gives the answer of the server.  \<open>Avc_Spec\<close>: bounds, insertion, revocation, and the class that a
  callback loses.

  \<^bold>\<open>Security server object\<close> (\<open>src/security/init.c\<close>).  \<open>Server\<close> has its start, the list of registered caches, the reference counts
  between caches and server, and the policy load with the reset of the caches.  \<open>Server_Step\<close> interprets \<open>decision_server\<close> on
  the services and proves that registered caches stay coherent.  \<open>Server_Spec\<close> composes all of it: every check through a cache gives the
  decision under the policy loaded at that time, and with the \<open>fread\<close> of the library the server never gets a policy.

  \<^bold>\<open>Bounds and fuel.\<close>  Functions on finite structures recurse on them.  Loops that end for another reason are partial functions
  with a proof that they return on sound states (\<open>reclaim_pass\<close>, the loops of \<open>amm\<close> and of \<open>lmm_remove_free\<close>), or on written
  files for the reader of constraint expressions.  The only bound chosen is
  \<open>release_depth\<close> of \<open>Server\<close>, the nesting of releases between the server and its caches; two levels are enough by lemma
  \<open>drop_server_depth\<close>.

  \<^bold>\<open>Assumptions that the properties name.\<close>  Some hold of every state that the code makes (the invariants); others are needed because the code does
  not check them: the category values of a loaded policy are in range, its names have no separators, the contexts that are printed fit their
  blocks, and the sequence number does not wrap around.  The invariant \<open>ss_ok\<close> of the server leaves open whether two identifiers may have the same
  context (\<open>sidtab_distinct\<close>): services never cause it, loading a policy that gives one value to two old names does.

  \<^bold>\<open>Not modelled.\<close>  The policy compiler \<open>checkpolicy\<close> with its grammar (a program of the build host); the tables
  generated from \<open>src/flask\<close> (parameters); the locks of the services (macros without effect in the OSKit); the messages
  that the server and \<open>amm_dump\<close> print; maps of \<open>amm\<close> with split and join functions of their own; reference counts of the log, the memory and the callback
  objects; the static variables after the last release of the server.  The other libraries are not modelled: drivers, file
  systems and network code imported from Linux, FreeBSD and NetBSD, machine-dependent kernel and boot code, threads, the C library, and the COM
  adaptors.  They are hardware access, third-party code, or independent of the components above.
\<close>

end
